(* ===== verification/Prelude.thy ===== *)
theory Prelude
  imports Complex_Main "HOL-Library.AList" "HOL-Library.Sublist"
begin

text \<open>
  Shared vocabulary of the development: ordered dictionaries, the Python string functions the
  modelled code calls, and the decimal readers \<open>int(s)\<close> and \<open>float(s)\<close>.

  \<^item> A Python \<open>dict\<close> keeps insertion order and an assignment to an existing key keeps its place.
    The association lists of \<open>HOL-Library.AList\<close> have exactly this behaviour:
    \<open>AList.update\<close> is \<open>d[k] = v\<close>, \<open>AList.delete\<close> is \<open>d.pop(k, None)\<close>, \<open>map_of\<close> is \<open>d.get(k)\<close>.
  \<^item> A Python \<open>str\<close> is a \<open>string\<close>, the bytes of its UTF-8 form. Equality, concatenation, prefixes,
    substrings and splitting at ASCII separators commute with that encoding; case mapping and
    stripping are modelled on ASCII.
  \<^item> A \<open>float\<close> is a rational or one of the three special values; rounding is not modelled.
  \<^item> The clock is a parameter (\<open>now\<close>) of every operation that reads it.
\<close>

type_synonym time = rat

named_theorems dict_simps \<open>equations of ordered dictionaries\<close>
named_theorems py_eval \<open>evaluation of the Python string and value functions on literals\<close>

section \<open>Ordered dictionaries\<close>

type_synonym ('k, 'v) dict = "('k \<times> 'v) list"

abbreviation dget :: "('k, 'v) dict \<Rightarrow> 'k \<Rightarrow> 'v option" where
  "dget d k \<equiv> map_of d k"

abbreviation dput :: "'k \<Rightarrow> 'v \<Rightarrow> ('k, 'v) dict \<Rightarrow> ('k, 'v) dict" where
  "dput k v d \<equiv> AList.update k v d"

abbreviation dpop :: "'k \<Rightarrow> ('k, 'v) dict \<Rightarrow> ('k, 'v) dict" where
  "dpop k d \<equiv> AList.delete k d"

abbreviation keys :: "('k, 'v) dict \<Rightarrow> 'k list" where
  "keys d \<equiv> map fst d"

definition get_or :: "('k, 'v) dict \<Rightarrow> 'k \<Rightarrow> 'v \<Rightarrow> 'v" where
  "get_or d k v = (case dget d k of None \<Rightarrow> v | Some w \<Rightarrow> w)"

definition setdefault :: "'k \<Rightarrow> 'v \<Rightarrow> ('k, 'v) dict \<Rightarrow> ('k, 'v) dict" where
  "setdefault k v d = (case dget d k of None \<Rightarrow> dput k v d | Some _ \<Rightarrow> d)"

lemma dget_dput [dict_simps, simp]:
  "dget (dput k v d) k' = (if k' = k then Some v else dget d k')"
  by (simp add: update_conv')

lemma dget_dpop [dict_simps, simp]:
  "dget (dpop k d) k' = (if k' = k then None else dget d k')"
  by (auto simp: delete_conv')

lemma get_or_dput [dict_simps, simp]:
  "get_or (dput k v d) k' w = (if k' = k then v else get_or d k' w)"
  by (simp add: get_or_def)

lemma dget_setdefault [dict_simps, simp]:
  "dget (setdefault k v d) k' =
     (if k' = k then Some (get_or d k v) else dget d k')"
  by (auto simp: setdefault_def get_or_def split: option.splits)

lemma distinct_setdefault [simp]:
  "distinct (keys d) \<Longrightarrow> distinct (keys (setdefault k v d))"
  by (auto simp: setdefault_def distinct_update split: option.splits)

lemma distinct_dput [simp]: "distinct (keys d) \<Longrightarrow> distinct (keys (dput k v d))"
  by (simp add: distinct_update)

lemma distinct_dpop [simp]: "distinct (keys d) \<Longrightarrow> distinct (keys (dpop k d))"
  by (simp add: distinct_delete)

lemma dget_None_keys: "dget d k = None \<longleftrightarrow> k \<notin> set (keys d)"
  by (simp add: map_of_eq_None_iff)

lemma dget_Some_keys: "dget d k = Some v \<Longrightarrow> k \<in> set (keys d)"
  by (metis domI dom_map_of_conv_image_fst list.set_map)

lemma keys_dput_new: "k \<notin> set (keys d) \<Longrightarrow> dput k v d = d @ [(k, v)]"
  by (induction d) auto

lemma keys_dput: "keys (dput k v d) = (if k \<in> set (keys d) then keys d else keys d @ [k])"
  by (simp add: update_keys)

lemma length_dput:
  "length (dput k v d) = (if k \<in> set (keys d) then length d else Suc (length d))"
  by (metis keys_dput length_append_singleton length_map)

lemma keys_dpop: "keys (dpop k d) = filter (\<lambda>x. x \<noteq> k) (keys d)"
  by (induction d) auto

lemma set_dput_subset: "set (dput k v d) \<subseteq> insert (k, v) (set d)"
  by (induction d) auto

lemma set_dpop: "set (dpop k d) = {p \<in> set d. fst p \<noteq> k}"
  by (auto simp: AList.delete_eq)

lemma set_dput_distinct:
  "distinct (keys d) \<Longrightarrow> set (dput k v d) = insert (k, v) {p \<in> set d. fst p \<noteq> k}"
  by (induction d) (auto simp: image_iff)

lemma length_dpop:
  assumes "distinct (keys d)"
  shows "length (dpop k d) = (if k \<in> set (keys d) then length d - 1 else length d)"
proof -
  have "keys (dpop k d) = removeAll k (keys d)"
    by (simp only: keys_dpop removeAll_filter_not_eq) (rule filter_cong, auto)
  then have "length (dpop k d) = length (removeAll k (keys d))"
    by (metis length_map)
  also have "\<dots> = length (remove1 k (keys d))"
    using assms by (simp add: distinct_remove1_removeAll)
  finally show ?thesis by (simp add: length_remove1)
qed

lemma length_dpop_le: "length (dpop k d) \<le> length d"
  by (auto simp: AList.delete_eq)

lemma keys_dpop_subset: "set (keys (dpop k d)) \<subseteq> set (keys d)"
  by (auto simp: AList.delete_eq)

lemma length_dpop_less:
  "k \<in> set (keys d) \<Longrightarrow> length (dpop k d) < length d"
  by (auto simp: AList.delete_eq intro!: length_filter_less)

section \<open>Characters and strings\<close>

text \<open>A text given by its UTF-8 bytes, for literals outside ASCII.\<close>

definition u8 :: "nat list \<Rightarrow> string" where
  "u8 bytes = map char_of bytes"

text \<open>\<open>str(value or "")\<close> for a text that may be missing.\<close>

definition opt_text :: "string option \<Rightarrow> string" where
  "opt_text v = (case v of None \<Rightarrow> [] | Some s \<Rightarrow> s)"

definition ord :: "char \<Rightarrow> nat" where
  "ord c = of_char c"

definition is_digit :: "char \<Rightarrow> bool" where
  "is_digit c = (48 \<le> ord c \<and> ord c \<le> 57)"

definition digit_of :: "char \<Rightarrow> nat" where
  "digit_of c = ord c - 48"

definition is_space :: "char \<Rightarrow> bool" where
  "is_space c = (let n = ord c in 9 \<le> n \<and> n \<le> 13 \<or> 28 \<le> n \<and> n \<le> 32)"

definition lower_char :: "char \<Rightarrow> char" where
  "lower_char c = (if 65 \<le> ord c \<and> ord c \<le> 90 then char_of (ord c + 32) else c)"

definition upper_char :: "char \<Rightarrow> char" where
  "upper_char c = (if 97 \<le> ord c \<and> ord c \<le> 122 then char_of (ord c - 32) else c)"

definition lower :: "string \<Rightarrow> string" where
  "lower s = map lower_char s"

definition upper :: "string \<Rightarrow> string" where
  "upper s = map upper_char s"

definition lstrip :: "string \<Rightarrow> string" where
  "lstrip s = dropWhile is_space s"

definition strip :: "string \<Rightarrow> string" where
  "strip s = rev (lstrip (rev (lstrip s)))"

definition isdigit :: "string \<Rightarrow> bool" where
  "isdigit s = (s \<noteq> [] \<and> list_all is_digit s)"

definition startswith :: "string \<Rightarrow> string \<Rightarrow> bool" where
  "startswith s p = prefix p s"

definition endswith :: "string \<Rightarrow> string \<Rightarrow> bool" where
  "endswith s p = suffix p s"

text \<open>\<open>p in s\<close>.\<close>

definition contains :: "string \<Rightarrow> string \<Rightarrow> bool" where
  "contains s p = sublist p s"

lemma contains_Nil [simp]: "contains s []"
  by (simp add: contains_def)

lemma contains_refl [simp]: "contains s s"
  by (simp add: contains_def)

text \<open>\<open>s.split(c)\<close> for a separator of one character: never the empty list.\<close>

fun split_on :: "char \<Rightarrow> string \<Rightarrow> string list" where
  "split_on c [] = [[]]"
| "split_on c (x # xs) =
     (if x = c then [] # split_on c xs
      else (case split_on c xs of [] \<Rightarrow> [[x]] | p # ps \<Rightarrow> (x # p) # ps))"

lemma split_on_nonempty [simp]: "split_on c s \<noteq> []"
  by (induction c s rule: split_on.induct) (auto split: list.splits)

lemma split_on_no_sep: "c \<notin> set s \<Longrightarrow> split_on c s = [s]"
  by (induction c s rule: split_on.induct) auto

lemma split_on_sep:
  "c \<notin> set a \<Longrightarrow> split_on c (a @ c # b) = a # split_on c b"
  by (induction a) auto

text \<open>\<open>s.split(sep)\<close> for a longer separator, left to right without overlaps.\<close>

function split_sep :: "string \<Rightarrow> string \<Rightarrow> string list" where
  "split_sep sep s =
     (if sep = [] \<or> s = [] then [s]
      else if prefix sep s then [] # split_sep sep (drop (length sep) s)
      else (case split_sep sep (tl s) of [] \<Rightarrow> [[hd s]] | p # ps \<Rightarrow> (hd s # p) # ps))"
  by pat_completeness auto
termination
  by (relation "measure (\<lambda>(sep, s). length s)") auto

declare split_sep.simps [simp del]

text \<open>\<open>s.split(c, 1)\<close> when \<open>c in s\<close>: the parts around the first occurrence.\<close>

fun split_first :: "char \<Rightarrow> string \<Rightarrow> (string \<times> string) option" where
  "split_first c [] = None"
| "split_first c (x # xs) =
     (if x = c then Some ([], xs)
      else (case split_first c xs of None \<Rightarrow> None | Some (a, b) \<Rightarrow> Some (x # a, b)))"

lemma split_first_None: "split_first c s = None \<longleftrightarrow> c \<notin> set s"
  by (induction c s rule: split_first.induct) (auto split: option.splits)

lemma split_first_Some:
  "split_first c s = Some (a, b) \<Longrightarrow> s = a @ c # b \<and> c \<notin> set a"
  by (induction c s arbitrary: a rule: split_first.induct) (auto split: option.splits if_splits)

lemma split_first_append: "c \<notin> set a \<Longrightarrow> split_first c (a @ c # b) = Some (a, b)"
  by (induction a) auto

text \<open>\<open>sep.join(parts)\<close>.\<close>

fun join :: "string \<Rightarrow> string list \<Rightarrow> string" where
  "join sep [] = []"
| "join sep [p] = p"
| "join sep (p # ps) = p @ sep @ join sep ps"

fun replace_char :: "char \<Rightarrow> char \<Rightarrow> string \<Rightarrow> string" where
  "replace_char a b [] = []"
| "replace_char a b (c # cs) = (if c = a then b else c) # replace_char a b cs"

lemma lstrip_no_space: "s \<noteq> [] \<Longrightarrow> \<not> is_space (hd s) \<Longrightarrow> lstrip s = s"
  by (cases s) (auto simp: lstrip_def)

lemma strip_id:
  "s \<noteq> [] \<Longrightarrow> \<not> is_space (hd s) \<Longrightarrow> \<not> is_space (last s) \<Longrightarrow> strip s = s"
  by (simp add: strip_def lstrip_no_space hd_rev)

lemma strip_Nil [simp]: "strip [] = []"
  by (simp add: strip_def lstrip_def)

text \<open>
  \<open>fnmatch.fnmatch(name, pattern)\<close>: \<open>*\<close>, \<open>?\<close> and bracket sets with ranges and a leading
  \<open>!\<close>; a \<open>[\<close> with no closing bracket stands for itself.
\<close>

fun bracket_body :: "string \<Rightarrow> string \<Rightarrow> (string \<times> string) option" where
  "bracket_body acc [] = None"
| "bracket_body acc (c # cs) =
     (if c = CHR '']'' \<and> acc \<noteq> [] then Some (rev acc, cs) else bracket_body (c # acc) cs)"

fun in_bracket :: "char \<Rightarrow> string \<Rightarrow> bool" where
  "in_bracket x (a # b # c # cs) =
     (if b = CHR ''-'' then (ord a \<le> ord x \<and> ord x \<le> ord c) \<or> in_bracket x cs
      else x = a \<or> in_bracket x (b # c # cs))"
| "in_bracket x (a # cs) = (x = a \<or> in_bracket x cs)"
| "in_bracket x [] = False"

definition bracket_set :: "string \<Rightarrow> (bool \<times> string \<times> string) option" where
  "bracket_set ps =
     (case ps of
        [] \<Rightarrow> None
      | p # qs \<Rightarrow>
          if p = CHR ''!'' then map_option (\<lambda>(b, r). (True, b, r)) (bracket_body [] qs)
          else map_option (\<lambda>(b, r). (False, b, r)) (bracket_body [] ps))"

lemma bracket_body_length: "bracket_body acc cs = Some (b, r) \<Longrightarrow> length r < length cs"
  by (induction acc cs rule: bracket_body.induct) (auto split: if_splits)

lemma bracket_set_length: "bracket_set ps = Some (n, b, r) \<Longrightarrow> length r < length ps"
  by (fastforce simp: bracket_set_def split: list.splits if_splits dest: bracket_body_length)

function fnmatch :: "string \<Rightarrow> string \<Rightarrow> bool" where
  "fnmatch [] s = (s = [])"
| "fnmatch (p # ps) s =
     (if p = CHR ''*'' then
        fnmatch ps s \<or> (case s of [] \<Rightarrow> False | _ # cs \<Rightarrow> fnmatch (p # ps) cs)
      else
        (case s of
           [] \<Rightarrow> False
         | c # cs \<Rightarrow>
             if p = CHR ''?'' then fnmatch ps cs
             else if p = CHR ''['' then
               (case bracket_set ps of
                  None \<Rightarrow> c = p \<and> fnmatch ps cs
                | Some (neg, body, rest) \<Rightarrow> (in_bracket c body \<noteq> neg) \<and> fnmatch rest cs)
             else c = p \<and> fnmatch ps cs))"
  by pat_completeness auto
termination
  by (relation "measure (\<lambda>(ps, s). length ps + length s)")
     (auto dest: bracket_set_length)

declare fnmatch.simps [simp del]

lemma fnmatch_star [simp]: "fnmatch ''*'' s"
proof (induction s)
  case Nil
  then show ?case by (simp add: fnmatch.simps)
next
  case (Cons c cs)
  then show ?case by (subst fnmatch.simps) simp
qed

text \<open>A literal prefix followed by \<open>*\<close> matches exactly the names with that prefix.\<close>

definition literal_char :: "char \<Rightarrow> bool" where
  "literal_char c = (c \<noteq> CHR ''*'' \<and> c \<noteq> CHR ''?'' \<and> c \<noteq> CHR ''['')"

lemma fnmatch_prefix_star:
  "list_all literal_char p \<Longrightarrow> fnmatch (p @ ''*'') s = prefix p s"
proof (induction p arbitrary: s)
  case Nil
  then show ?case by simp
next
  case (Cons c p)
  then have c: "c \<noteq> CHR ''*''" "c \<noteq> CHR ''?''" "c \<noteq> CHR ''[''"
    by (auto simp: literal_char_def)
  show ?case
  proof (cases s)
    case Nil
    with c show ?thesis by (simp add: fnmatch.simps)
  next
    case (Cons d ds)
    with c Cons.IH Cons.prems show ?thesis
      by (subst append_Cons, subst fnmatch.simps) auto
  qed
qed

section \<open>Decimal text\<close>

fun scan_more :: "string \<Rightarrow> nat list \<times> string" where
  "scan_more [] = ([], [])"
| "scan_more [c] = (if is_digit c then ([digit_of c], []) else ([], [c]))"
| "scan_more (c # d # cs) =
     (if is_digit c then (let (ds, r) = scan_more (d # cs) in (digit_of c # ds, r))
      else if c = CHR ''_'' \<and> is_digit d then scan_more (d # cs)
      else ([], c # d # cs))"

text \<open>A digit part of the Python grammar: a digit, then digits with single underscores between.\<close>

definition scan_digits :: "string \<Rightarrow> nat list \<times> string" where
  "scan_digits s =
     (case s of [] \<Rightarrow> ([], []) | c # _ \<Rightarrow> if is_digit c then scan_more s else ([], s))"

definition digits_val :: "nat list \<Rightarrow> nat" where
  "digits_val ds = foldl (\<lambda>a d. 10 * a + d) 0 ds"

definition take_sign :: "string \<Rightarrow> bool \<times> string" where
  "take_sign s =
     (case s of [] \<Rightarrow> (False, [])
      | c # cs \<Rightarrow> if c = CHR ''-'' then (True, cs) else if c = CHR ''+'' then (False, cs)
                 else (False, s))"

text \<open>\<open>int(s)\<close> on a string; \<open>None\<close> is \<open>ValueError\<close>.\<close>

definition py_int :: "string \<Rightarrow> int option" where
  "py_int s =
     (let (neg, u) = take_sign (strip s); (ds, r) = scan_digits u
      in if ds \<noteq> [] \<and> r = [] then Some (if neg then - int (digits_val ds) else int (digits_val ds))
         else None)"

text \<open>\<open>str(n)\<close>.\<close>

fun nat_str :: "nat \<Rightarrow> string" where
  "nat_str n = (if n < 10 then [char_of (48 + n)]
                else nat_str (n div 10) @ [char_of (48 + n mod 10)])"

declare nat_str.simps [simp del]

definition int_str :: "int \<Rightarrow> string" where
  "int_str n = (if n < 0 then CHR ''-'' # nat_str (nat (- n)) else nat_str (nat n))"

lemma ord_char_of [simp]: "n < 256 \<Longrightarrow> ord (char_of n) = n"
  by (simp add: ord_def)

lemma digit_char: "d < 10 \<Longrightarrow> is_digit (char_of (48 + d)) \<and> digit_of (char_of (48 + d)) = d"
  by (simp add: is_digit_def digit_of_def)

lemma nat_str_digits: "nat_str n \<noteq> [] \<and> list_all is_digit (nat_str n)"
proof (induction n rule: nat_str.induct)
  case (1 n)
  then show ?case
    by (subst (1 2) nat_str.simps) (auto simp: digit_char)
qed

lemma scan_more_digits:
  "list_all is_digit s \<Longrightarrow> scan_more s = (map digit_of s, [])"
  by (induction s rule: scan_more.induct) auto

lemma scan_digits_digits:
  "s \<noteq> [] \<Longrightarrow> list_all is_digit s \<Longrightarrow> scan_digits s = (map digit_of s, [])"
  by (auto simp: scan_digits_def scan_more_digits split: list.splits)

lemma digits_val_append: "digits_val (ds @ [d]) = 10 * digits_val ds + d"
  by (simp add: digits_val_def)

lemma digits_val_nat_str: "digits_val (map digit_of (nat_str n)) = n"
proof (induction n rule: nat_str.induct)
  case (1 n)
  show ?case
  proof (cases "n < 10")
    case True
    then show ?thesis by (subst nat_str.simps) (simp add: digits_val_def digit_char)
  next
    case False
    with 1 show ?thesis
      by (subst nat_str.simps) (simp add: digits_val_append digit_char)
  qed
qed

lemma digit_not_space: "is_digit c \<Longrightarrow> \<not> is_space c"
  by (auto simp: is_digit_def is_space_def Let_def)

lemma minus_not_space: "\<not> is_space (CHR ''-'')"
  by (simp add: is_space_def ord_def Let_def)

lemma digit_not_sign: "is_digit c \<Longrightarrow> c \<noteq> CHR ''-'' \<and> c \<noteq> CHR ''+''"
  by (auto simp: is_digit_def ord_def)

lemma strip_digits: "s \<noteq> [] \<Longrightarrow> list_all is_digit s \<Longrightarrow> strip s = s"
  by (rule strip_id) (auto simp: list_all_iff digit_not_space)

lemma take_sign_digits: "s \<noteq> [] \<Longrightarrow> list_all is_digit s \<Longrightarrow> take_sign s = (False, s)"
  by (cases s) (auto simp: take_sign_def digit_not_sign)

lemma py_int_nat_str: "py_int (nat_str n) = Some (int n)"
  using nat_str_digits [of n]
  by (simp add: py_int_def strip_digits take_sign_digits scan_digits_digits digits_val_nat_str)

lemma py_int_int_str [simp]: "py_int (int_str n) = Some n"
proof (cases "n < 0")
  case True
  have d: "nat_str (nat (- n)) \<noteq> []" "list_all is_digit (nat_str (nat (- n)))"
    using nat_str_digits by auto
  have "strip (CHR ''-'' # nat_str (nat (- n))) = CHR ''-'' # nat_str (nat (- n))"
    using d by (intro strip_id) (auto simp: list_all_iff digit_not_space minus_not_space)
  with True d show ?thesis
    by (simp add: py_int_def int_str_def take_sign_def scan_digits_digits digits_val_nat_str)
next
  case False
  then show ?thesis by (simp add: int_str_def py_int_nat_str)
qed

lemma int_str_inject [simp]: "int_str m = int_str n \<longleftrightarrow> m = n"
  by (metis option.inject py_int_int_str)

lemma nat_str_inject [simp]: "nat_str m = nat_str n \<longleftrightarrow> m = n"
  by (metis of_nat_eq_iff option.inject py_int_nat_str)

section \<open>Loops whose body may raise\<close>

text \<open>\<open>for x in xs: body\<close>, threading the state; \<open>None\<close> is an exception that leaves the loop.\<close>

fun for_each :: "('a \<Rightarrow> 's \<Rightarrow> 's option) \<Rightarrow> 'a list \<Rightarrow> 's \<Rightarrow> 's option" where
  "for_each f [] s = Some s"
| "for_each f (x # xs) s = (case f x s of None \<Rightarrow> None | Some s' \<Rightarrow> for_each f xs s')"

lemma for_each_append:
  "for_each f (xs @ ys) s = (case for_each f xs s of None \<Rightarrow> None | Some s' \<Rightarrow> for_each f ys s')"
  by (induction xs arbitrary: s) (auto split: option.splits)

text \<open>An invariant indexed by what is still to come.\<close>

lemma for_each_rule:
  assumes "for_each f xs s = Some t" and "P xs s"
    and "\<And>x ys s s'. x \<in> set xs \<Longrightarrow> P (x # ys) s \<Longrightarrow> f x s = Some s' \<Longrightarrow> P ys s'"
  shows "P [] t"
  using assms
proof (induction xs arbitrary: s)
  case Nil
  then show ?case by simp
next
  case (Cons x xs)
  from Cons.prems(1) obtain s' where s': "f x s = Some s'" "for_each f xs s' = Some t"
    by (auto split: option.splits)
  show ?case
    by (rule Cons.IH [OF s'(2)]) (use Cons.prems(2,3) s'(1) in \<open>auto\<close>)
qed

lemma for_each_inv:
  assumes "for_each f xs s = Some t" and "P s"
    and "\<And>x s s'. x \<in> set xs \<Longrightarrow> P s \<Longrightarrow> f x s = Some s' \<Longrightarrow> P s'"
  shows "P t"
  using for_each_rule [where P = "\<lambda>_ s. P s", OF assms(1,2)] assms(3) by blast

end
