(* ===== verification/PyVal.thy ===== *)
theory PyVal
  imports Prelude
begin

text \<open>
  Python values as the modelled code handles them: floats with their special values, and the
  values a JSON dictionary can hold (rule dictionaries, configuration dictionaries), with the
  truth test \<open>bool(v)\<close>, the comparison \<open>v == "text"\<close> and the readers \<open>float(s)\<close>, \<open>int(v)\<close>.
\<close>

section \<open>Floats\<close>

datatype flt = Fin rat | PInf | NInf | NaN

fun flt_less :: "flt \<Rightarrow> flt \<Rightarrow> bool" where
  "flt_less (Fin a) (Fin b) = (a < b)"
| "flt_less NaN _ = False"
| "flt_less _ NaN = False"
| "flt_less PInf _ = False"
| "flt_less _ NInf = False"
| "flt_less _ PInf = True"
| "flt_less NInf _ = True"

definition flt_ge :: "flt \<Rightarrow> flt \<Rightarrow> bool" where
  "flt_ge a b = (a \<noteq> NaN \<and> b \<noteq> NaN \<and> \<not> flt_less a b)"

text \<open>Multiplication by a positive integer unit (1024, 3600, \<open>1024**3\<close>).\<close>

fun flt_scale :: "nat \<Rightarrow> flt \<Rightarrow> flt" where
  "flt_scale m (Fin a) = Fin (a * of_nat m)"
| "flt_scale m PInf = PInf"
| "flt_scale m NInf = NInf"
| "flt_scale m NaN = NaN"

lemma flt_less_irrefl [simp]: "\<not> flt_less a a"
  by (cases a) auto

lemma flt_less_asym: "flt_less a b \<Longrightarrow> \<not> flt_less b a"
  by (cases a; cases b) auto

lemma flt_less_trans: "flt_less a b \<Longrightarrow> flt_less b c \<Longrightarrow> flt_less a c"
  by (cases a; cases b; cases c) auto

lemma flt_less_NaN [simp]: "\<not> flt_less a NaN" "\<not> flt_less NaN a"
  by (cases a; simp)+

definition pow10 :: "int \<Rightarrow> rat" where
  "pow10 e = (if 0 \<le> e then 10 ^ nat e else 1 / 10 ^ nat (- e))"

text \<open>
  \<open>float(s)\<close>: optional sign, then \<open>inf\<close>, \<open>infinity\<close> or \<open>nan\<close> in any case, or digits with an
  optional fraction and an optional exponent; \<open>None\<close> is \<open>ValueError\<close>.
\<close>

definition scan_frac :: "string \<Rightarrow> nat list \<times> string" where
  "scan_frac r = (case r of [] \<Rightarrow> ([], []) | c # cs \<Rightarrow> if c = CHR ''.'' then scan_digits cs else ([], r))"

definition scan_exp :: "string \<Rightarrow> int option" where
  "scan_exp r =
     (case r of [] \<Rightarrow> Some 0
      | c # cs \<Rightarrow>
          if c = CHR ''e'' \<or> c = CHR ''E'' then
            (let (neg, u) = take_sign cs; (ds, r') = scan_digits u
             in if ds \<noteq> [] \<and> r' = [] then Some (if neg then - int (digits_val ds) else int (digits_val ds))
                else None)
          else None)"

definition unsigned_float :: "string \<Rightarrow> flt option" where
  "unsigned_float u =
     (if lower u = ''inf'' \<or> lower u = ''infinity'' then Some PInf
      else if lower u = ''nan'' then Some NaN
      else let (ip, r1) = scan_digits u; (fp, r2) = scan_frac r1
           in if ip = [] \<and> fp = [] then None
              else map_option (\<lambda>e. Fin (of_nat (digits_val (ip @ fp)) * pow10 (e - int (length fp))))
                     (scan_exp r2))"

fun flt_neg :: "flt \<Rightarrow> flt" where
  "flt_neg (Fin a) = Fin (- a)"
| "flt_neg PInf = NInf"
| "flt_neg NInf = PInf"
| "flt_neg NaN = NaN"

definition py_float :: "string \<Rightarrow> flt option" where
  "py_float s =
     (let (neg, u) = take_sign (strip s)
      in map_option (\<lambda>x. if neg then flt_neg x else x) (unsigned_float u))"

lemma lower_digit_hd: "s \<noteq> [] \<Longrightarrow> is_digit (hd s) \<Longrightarrow> lower s \<noteq> ''inf'' \<and> lower s \<noteq> ''infinity'' \<and> lower s \<noteq> ''nan''"
  by (cases s) (auto simp: lower_def lower_char_def is_digit_def ord_def)

lemma py_float_nat_str: "py_float (nat_str n) = Some (Fin (of_nat n))"
proof -
  note d = nat_str_digits [of n]
  then have "is_digit (hd (nat_str n))" by (cases "nat_str n") auto
  with d show ?thesis
    by (simp add: py_float_def unsigned_float_def strip_digits take_sign_digits lower_digit_hd
        scan_digits_digits scan_frac_def scan_exp_def digits_val_nat_str pow10_def)
qed

section \<open>Values of a JSON dictionary\<close>

datatype pyval =
    PNone
  | PBool bool
  | PInt int
  | PFloat flt
  | PStr string
  | PList "pyval list"
  | PDict "(string \<times> pyval) list"

type_synonym pydict = "(string, pyval) dict"

text \<open>\<open>bool(v)\<close>.\<close>

fun truthy :: "pyval \<Rightarrow> bool" where
  "truthy PNone = False"
| "truthy (PBool b) = b"
| "truthy (PInt n) = (n \<noteq> 0)"
| "truthy (PFloat x) = (x \<noteq> Fin 0)"
| "truthy (PStr s) = (s \<noteq> [])"
| "truthy (PList xs) = (xs \<noteq> [])"
| "truthy (PDict d) = (d \<noteq> [])"

text \<open>\<open>d.get(k)\<close>: an absent key reads as \<open>None\<close>.\<close>

definition pget :: "pydict \<Rightarrow> string \<Rightarrow> pyval" where
  "pget d k = get_or d k PNone"

lemma pget_Nil [simp]: "pget [] k = PNone"
  by (simp add: pget_def get_or_def)

lemma pget_Cons [simp]: "pget ((k', v) # d) k = (if k = k' then v else pget d k)"
  by (simp add: pget_def get_or_def)

text \<open>\<open>v or default\<close>.\<close>

definition py_or :: "pyval \<Rightarrow> pyval \<Rightarrow> pyval" where
  "py_or v w = (if truthy v then v else w)"

text \<open>The number read by \<open>int(v)\<close>; \<open>None\<close> is \<open>TypeError\<close>, \<open>ValueError\<close> or \<open>OverflowError\<close>.\<close>

definition rat_trunc :: "rat \<Rightarrow> int" where
  "rat_trunc a = (if 0 \<le> a then \<lfloor>a\<rfloor> else - \<lfloor>- a\<rfloor>)"

fun pyval_int :: "pyval \<Rightarrow> int option" where
  "pyval_int (PBool b) = Some (if b then 1 else 0)"
| "pyval_int (PInt n) = Some n"
| "pyval_int (PFloat (Fin a)) = Some (rat_trunc a)"
| "pyval_int (PStr s) = py_int s"
| "pyval_int _ = None"

text \<open>The number read by \<open>float(v)\<close>.\<close>

fun pyval_float :: "pyval \<Rightarrow> flt option" where
  "pyval_float (PBool b) = Some (Fin (if b then 1 else 0))"
| "pyval_float (PInt n) = Some (Fin (of_int n))"
| "pyval_float (PFloat x) = Some x"
| "pyval_float (PStr s) = py_float s"
| "pyval_float _ = None"

text \<open>\<open>str(v)\<close>; \<open>other\<close> writes floats, lists and dictionaries.\<close>

fun py_str :: "(pyval \<Rightarrow> string) \<Rightarrow> pyval \<Rightarrow> string" where
  "py_str other PNone = ''None''"
| "py_str other (PBool b) = (if b then ''True'' else ''False'')"
| "py_str other (PInt n) = int_str n"
| "py_str other (PStr s) = s"
| "py_str other v = other v"

text \<open>A number as a float, for comparisons; other values are not numbers.\<close>

fun as_number :: "pyval \<Rightarrow> flt option" where
  "as_number (PBool b) = Some (Fin (if b then 1 else 0))"
| "as_number (PInt n) = Some (Fin (of_int n))"
| "as_number (PFloat x) = Some x"
| "as_number _ = None"

text \<open>Rounding to an integer, and \<open>round(x, 2)\<close>, half to even.\<close>

definition round_half_even :: "rat \<Rightarrow> int" where
  "round_half_even x =
     (let n = \<lfloor>x\<rfloor>; d = x - of_int n
      in if d < 1 / 2 then n else if d > 1 / 2 then n + 1 else if even n then n else n + 1)"

lemma round_half_even_nonneg: "0 \<le> x \<Longrightarrow> 0 \<le> round_half_even x"
  by (simp add: round_half_even_def Let_def)

definition round2 :: "rat \<Rightarrow> rat" where
  "round2 x = of_int (round_half_even (x * 100)) / 100"

end
