(* ===== verification/CacheStore.thy ===== *)
theory CacheStore
  imports PyVal "HOL-Library.While_Combinator"
begin

text \<open>
  The cache system (\<open>infrastructure/cache_system/base.py\<close>, \<open>adapters.py\<close>): entries with a time to
  live, and \<open>MemoryCacheAdapter\<close>, an \<open>OrderedDict\<close> used as an LRU list, its least recently used
  entry first. A stored value has type \<open>'v option\<close>: \<open>None\<close> is the Python \<open>None\<close> as a value, which
  \<open>get\<close> cannot tell from a miss. Emitted events are appended to a log in the state.

  The locale \<open>cache_store\<close> states what the clients of a cache (permission snapshots, site grants,
  retry counters) rely on. A cache may forget any entry at any time, so the contract says that it
  never invents one: what a read returns is what the last write stored. The memory adapter is its
  interpretation.
\<close>

section \<open>Entries\<close>

record 'v centry =
  ce_value :: "'v option"
  ce_created :: time
  ce_ttl :: "int option"

definition is_expired :: "time \<Rightarrow> 'v centry \<Rightarrow> bool" where
  "is_expired now e = (case ce_ttl e of None \<Rightarrow> False | Some t \<Rightarrow> now - ce_created e > of_int t)"

definition get_remaining_ttl :: "time \<Rightarrow> 'v centry \<Rightarrow> int" where
  "get_remaining_ttl now e =
     (case ce_ttl e of
        None \<Rightarrow> -1
      | Some t \<Rightarrow>
          let remaining = rat_trunc (of_int t - (now - ce_created e))
          in if remaining \<le> 0 then -2 else remaining)"

section \<open>The memory adapter\<close>

datatype 'v cevent =
    EvMiss string
  | EvExpire string
  | EvGet string "'v option"
  | EvHit string "'v option"
  | EvSet string "'v option" "int option"
  | EvEvict "(string \<times> 'v option) option"
  | EvDelete string "'v option"
  | EvClear

record 'v mem_cache =
  mc_cache :: "(string, 'v centry) dict"
  mc_maxsize :: int
  mc_name :: string
  mc_default_ttl :: "int option"
  mc_hits :: nat
  mc_misses :: nat
  mc_sets :: nat
  mc_deletes :: nat
  mc_evictions :: nat
  mc_events :: "(string \<times> 'v cevent) list"

definition new_mem_cache :: "int \<Rightarrow> string \<Rightarrow> int option \<Rightarrow> 'v mem_cache" where
  "new_mem_cache maxsize name default_ttl =
     \<lparr>mc_cache = [], mc_maxsize = maxsize, mc_name = name, mc_default_ttl = default_ttl,
      mc_hits = 0, mc_misses = 0, mc_sets = 0, mc_deletes = 0, mc_evictions = 0, mc_events = []\<rparr>"

definition emit :: "'v cevent \<Rightarrow> 'v mem_cache \<Rightarrow> 'v mem_cache" where
  "emit ev c = c\<lparr>mc_events := mc_events c @ [(mc_name c, ev)]\<rparr>"

definition move_to_end :: "'k \<Rightarrow> 'v \<Rightarrow> ('k, 'v) dict \<Rightarrow> ('k, 'v) dict" where
  "move_to_end k v d = dpop k d @ [(k, v)]"

definition mem_get :: "time \<Rightarrow> string \<Rightarrow> 'v mem_cache \<Rightarrow> 'v option \<times> 'v mem_cache" where
  "mem_get now key c =
     (case dget (mc_cache c) key of
        None \<Rightarrow> (None, emit (EvMiss key) (c\<lparr>mc_misses := mc_misses c + 1\<rparr>))
      | Some e \<Rightarrow>
          if is_expired now e then
            (None, emit (EvExpire key)
                     (c\<lparr>mc_cache := dpop key (mc_cache c), mc_misses := mc_misses c + 1\<rparr>))
          else
            (ce_value e,
             emit (EvHit key (ce_value e)) (emit (EvGet key (ce_value e))
               (c\<lparr>mc_cache := move_to_end key e (mc_cache c), mc_hits := mc_hits c + 1\<rparr>))))"

definition evict_oldest :: "'v mem_cache \<Rightarrow> 'v mem_cache" where
  "evict_oldest c =
     (case mc_cache c of
        [] \<Rightarrow> c
      | (k, e) # rest \<Rightarrow>
          emit (EvEvict (Some (k, ce_value e)))
            (c\<lparr>mc_cache := rest, mc_evictions := mc_evictions c + 1\<rparr>))"

text \<open>The loop \<open>while len(self._cache) >= self._maxsize\<close>; the flag is the local \<open>evicted\<close>.\<close>

definition evict_loop :: "'v mem_cache \<Rightarrow> (bool \<times> 'v mem_cache) option" where
  "evict_loop c =
     while_option (\<lambda>(_, c). int (length (mc_cache c)) \<ge> mc_maxsize c)
       (\<lambda>(_, c). (True, evict_oldest c)) (False, c)"

text \<open>\<open>None\<close>: the call does not return. Otherwise the result is \<open>True\<close> and the new state.\<close>

definition mem_set ::
  "time \<Rightarrow> string \<Rightarrow> 'v option \<Rightarrow> int option \<Rightarrow> 'v mem_cache \<Rightarrow> (bool \<times> 'v mem_cache) option" where
  "mem_set now key value ttl c =
     (let ttl = (case ttl of None \<Rightarrow> mc_default_ttl c | Some t \<Rightarrow> Some t);
          c1 = (if dget (mc_cache c) key \<noteq> None then c\<lparr>mc_cache := dpop key (mc_cache c)\<rparr> else c)
      in case evict_loop c1 of
           None \<Rightarrow> None
         | Some (evicted, c2) \<Rightarrow>
             let c3 = c2\<lparr>mc_cache := dput key \<lparr>ce_value = value, ce_created = now, ce_ttl = ttl\<rparr> (mc_cache c2),
                         mc_sets := mc_sets c2 + 1\<rparr>;
                 c4 = emit (EvSet key value ttl) c3
             in Some (True, if evicted then emit (EvEvict None) c4 else c4))"

definition mem_delete :: "string \<Rightarrow> 'v mem_cache \<Rightarrow> bool \<times> 'v mem_cache" where
  "mem_delete key c =
     (case dget (mc_cache c) key of
        None \<Rightarrow> (False, c)
      | Some e \<Rightarrow>
          (True, emit (EvDelete key (ce_value e))
                   (c\<lparr>mc_cache := dpop key (mc_cache c), mc_deletes := mc_deletes c + 1\<rparr>)))"

definition mem_exists :: "time \<Rightarrow> string \<Rightarrow> 'v mem_cache \<Rightarrow> bool \<times> 'v mem_cache" where
  "mem_exists now key c =
     (case dget (mc_cache c) key of
        None \<Rightarrow> (False, c)
      | Some e \<Rightarrow>
          if is_expired now e then (False, c\<lparr>mc_cache := dpop key (mc_cache c)\<rparr>) else (True, c))"

definition mem_clear :: "'v mem_cache \<Rightarrow> bool \<times> 'v mem_cache" where
  "mem_clear c = (True, emit EvClear (c\<lparr>mc_cache := []\<rparr>))"

text \<open>The loop of \<open>keys\<close> over the names that match: expired entries are dropped.\<close>

fun sweep_keys :: "time \<Rightarrow> string list \<Rightarrow> (string, 'v centry) dict \<Rightarrow> string list \<times> (string, 'v centry) dict" where
  "sweep_keys now [] d = ([], d)"
| "sweep_keys now (k # ks) d =
     (case dget d k of
        None \<Rightarrow> sweep_keys now ks d
      | Some e \<Rightarrow>
          if is_expired now e then sweep_keys now ks (dpop k d)
          else (let (r, d') = sweep_keys now ks d in (k # r, d')))"

definition mem_keys :: "time \<Rightarrow> string \<Rightarrow> 'v mem_cache \<Rightarrow> string list \<times> 'v mem_cache" where
  "mem_keys now pattern c =
     (let names = (if pattern = ''*'' then keys (mc_cache c)
                   else filter (\<lambda>k. fnmatch pattern k) (keys (mc_cache c)));
          (r, d) = sweep_keys now names (mc_cache c)
      in (r, c\<lparr>mc_cache := d\<rparr>))"

definition mem_ttl :: "time \<Rightarrow> string \<Rightarrow> 'v mem_cache \<Rightarrow> int" where
  "mem_ttl now key c =
     (case dget (mc_cache c) key of None \<Rightarrow> -2 | Some e \<Rightarrow> get_remaining_ttl now e)"

definition mem_expire :: "time \<Rightarrow> string \<Rightarrow> int \<Rightarrow> 'v mem_cache \<Rightarrow> bool \<times> 'v mem_cache" where
  "mem_expire now key seconds c =
     (case dget (mc_cache c) key of
        None \<Rightarrow> (False, c)
      | Some e \<Rightarrow>
          if is_expired now e then (False, c)
          else (True, c\<lparr>mc_cache := dput key (e\<lparr>ce_ttl := Some seconds, ce_created := now\<rparr>) (mc_cache c)\<rparr>))"

text \<open>\<open>get_cache_value\<close>: a second look with \<open>exists\<close> tells a stored \<open>None\<close> from a miss.\<close>

definition get_cache_value :: "time \<Rightarrow> string \<Rightarrow> 'v mem_cache \<Rightarrow> (bool \<times> 'v option) \<times> 'v mem_cache" where
  "get_cache_value now key c =
     (let (value, c1) = mem_get now key c
      in case value of
           None \<Rightarrow>
             (let (present, c2) = mem_exists now key c1
              in if \<not> present then ((False, None), c2) else ((True, None), c2))
         | Some v \<Rightarrow> ((True, Some v), c1))"

section \<open>The eviction loop\<close>

lemma evict_oldest_simps [simp]:
  "mc_maxsize (evict_oldest c) = mc_maxsize c"
  "mc_cache (evict_oldest c) = tl (mc_cache c)"
  "mc_default_ttl (evict_oldest c) = mc_default_ttl c"
  "mc_name (evict_oldest c) = mc_name c"
  by (auto simp: evict_oldest_def emit_def split: list.splits)

lemma emit_simps [simp]:
  "mc_cache (emit ev c) = mc_cache c" "mc_maxsize (emit ev c) = mc_maxsize c"
  "mc_default_ttl (emit ev c) = mc_default_ttl c" "mc_name (emit ev c) = mc_name c"
  "mc_hits (emit ev c) = mc_hits c" "mc_misses (emit ev c) = mc_misses c"
  "mc_sets (emit ev c) = mc_sets c" "mc_deletes (emit ev c) = mc_deletes c"
  "mc_evictions (emit ev c) = mc_evictions c"
  by (simp_all add: emit_def)

text \<open>When the capacity is positive the loop stops, having dropped just enough old entries.\<close>

lemma evict_loop_result:
  fixes c :: "'a mem_cache"
  assumes pos: "0 < mc_maxsize c"
  obtains b c' where "evict_loop c = Some (b, c')"
    "mc_cache c' = drop (length (mc_cache c) - nat (mc_maxsize c - 1)) (mc_cache c)"
    "mc_maxsize c' = mc_maxsize c" "mc_default_ttl c' = mc_default_ttl c" "mc_name c' = mc_name c"
proof -
  define m where "m = nat (mc_maxsize c - 1)"
  define g where "g = (\<lambda>(_ :: bool, c :: 'a mem_cache). int (length (mc_cache c)) \<ge> mc_maxsize c)"
  define f where "f = (\<lambda>(_ :: bool, c :: 'a mem_cache). (True, evict_oldest c))"
  define P where "P = (\<lambda>(_ :: bool, d :: 'a mem_cache). mc_maxsize d = mc_maxsize c \<and> mc_default_ttl d = mc_default_ttl c \<and>
     mc_name d = mc_name c \<and> (\<exists>n \<le> length (mc_cache c) - m. mc_cache d = drop n (mc_cache c)))"
  have "P (False, c)" by (auto simp: P_def intro: exI [of _ 0])
  have step: "P s \<Longrightarrow> g s \<Longrightarrow> P (f s)" for s
  proof -
    assume Ps: "P s" and gs: "g s"
    obtain b d where s: "s = (b, d)" by (cases s)
    from Ps s obtain n where n: "n \<le> length (mc_cache c) - m" "mc_cache d = drop n (mc_cache c)"
      and eqs: "mc_maxsize d = mc_maxsize c" "mc_default_ttl d = mc_default_ttl c" "mc_name d = mc_name c"
      by (auto simp: P_def)
    from gs s n eqs pos have "Suc n \<le> length (mc_cache c) - m" by (auto simp: g_def m_def)
    moreover have "tl (mc_cache d) = drop (Suc n) (mc_cache c)" by (simp add: n drop_Suc tl_drop)
    ultimately show "P (f s)" using s eqs by (auto simp: P_def f_def intro!: exI [of _ "Suc n"])
  qed
  have "\<exists>t. while_option g f (False, c) = Some t"
  proof (rule measure_while_option_Some [where P = P and f = "\<lambda>(b, d). length (mc_cache d)"])
    fix s assume Ps: "P s" and gs: "g s"
    have "0 < (case s of (b, d) \<Rightarrow> length (mc_cache d))"
      using Ps gs pos by (cases s) (auto simp: g_def P_def)
    then have "(case f s of (b, d) \<Rightarrow> length (mc_cache d)) < (case s of (b, d) \<Rightarrow> length (mc_cache d))"
      by (cases s) (simp add: f_def)
    with step [OF Ps gs]
    show "P (f s) \<and> (case f s of (b, d) \<Rightarrow> length (mc_cache d)) < (case s of (b, d) \<Rightarrow> length (mc_cache d))"
      by blast
  qed fact
  then obtain t where t: "while_option g f (False, c) = Some t" by blast
  obtain b c' where t_eq: "t = (b, c')" by (cases t)
  have "P t" using while_option_rule [OF step t \<open>P (False, c)\<close>] .
  moreover have "\<not> g t" using while_option_stop [OF t] .
  ultimately have r: "mc_maxsize c' = mc_maxsize c" "mc_default_ttl c' = mc_default_ttl c" "mc_name c' = mc_name c"
    "mc_cache c' = drop (length (mc_cache c) - m) (mc_cache c)"
    using t_eq pos by (auto simp: P_def g_def m_def le_antisym dest!: le_antisym)
  have "evict_loop c = Some (b, c')"
    using t t_eq by (simp add: evict_loop_def g_def f_def)
  then show thesis using r by (intro that [of b c']) (simp_all add: m_def)
qed

text \<open>With a capacity of zero or less the guard stays true on the empty dictionary.\<close>

lemma evict_loop_diverges:
  assumes "mc_maxsize c \<le> 0"
  shows "evict_loop c = None"
proof (rule ccontr)
  assume "evict_loop c \<noteq> None"
  then obtain t where t: "while_option (\<lambda>(_, c). int (length (mc_cache c)) \<ge> mc_maxsize c)
       (\<lambda>(_, c). (True, evict_oldest c)) (False, c) = Some t"
    by (auto simp: evict_loop_def)
  have "mc_maxsize (snd t) \<le> 0"
    by (rule while_option_rule [OF _ t, where P = "\<lambda>t. mc_maxsize (snd t) \<le> 0"]) (use assms in auto)
  with while_option_stop [OF t] show False by (auto split: prod.splits)
qed

section \<open>Invariant and contents\<close>

definition mem_inv :: "'v mem_cache \<Rightarrow> bool" where
  "mem_inv c \<longleftrightarrow> distinct (keys (mc_cache c)) \<and> 0 < mc_maxsize c \<and> int (length (mc_cache c)) \<le> mc_maxsize c"

text \<open>What is stored under a key, expired or not.\<close>

definition mem_holds :: "'v mem_cache \<Rightarrow> string \<Rightarrow> 'v option" where
  "mem_holds c k = Option.bind (dget (mc_cache c) k) ce_value"

lemma mem_inv_new: "0 < maxsize \<Longrightarrow> mem_inv (new_mem_cache maxsize name ttl)"
  by (simp add: mem_inv_def new_mem_cache_def)

lemma mem_inv_emit [simp]: "mem_inv (emit ev c) = mem_inv c"
  by (simp add: mem_inv_def)

lemma mem_holds_emit [simp]: "mem_holds (emit ev c) = mem_holds c"
  by (simp add: mem_holds_def fun_eq_iff)

lemma length_move_to_end:
  assumes "k \<in> set (keys d)" "distinct (keys d)"
  shows "length (move_to_end k v d) = length d"
proof -
  have "0 < length d" using assms by (cases d) auto
  with assms show ?thesis by (simp add: move_to_end_def length_dpop)
qed

lemma distinct_move_to_end: "distinct (keys d) \<Longrightarrow> distinct (keys (move_to_end k v d))"
  by (auto simp: move_to_end_def keys_dpop AList.delete_eq distinct_map_filter)

lemma dget_move_to_end:
  "dget d k = Some v \<Longrightarrow> dget (move_to_end k v d) k' = dget d k'"
  by (auto simp: move_to_end_def map_add_def delete_conv' split: option.splits)

lemma mem_get_inv:
  assumes "mem_inv c"
  shows "mem_inv (snd (mem_get now key c))"
proof (cases "dget (mc_cache c) key")
  case None
  with assms show ?thesis by (simp add: mem_get_def mem_inv_def)
next
  case (Some e)
  have "int (length (dpop key (mc_cache c))) \<le> mc_maxsize c"
    using assms length_dpop_le [of key "mc_cache c"] by (auto simp: mem_inv_def)
  with assms Some dget_Some_keys [OF Some] show ?thesis
    by (simp add: mem_get_def mem_inv_def distinct_move_to_end length_move_to_end)
qed

lemma mem_get_holds:
  "mem_holds (snd (mem_get now key c)) =
     (if fst (mem_get now key c) = None \<and> (\<exists>e. dget (mc_cache c) key = Some e \<and> is_expired now e)
      then (mem_holds c)(key := None) else mem_holds c)"
  by (auto simp: mem_get_def mem_holds_def fun_eq_iff dget_move_to_end split: option.splits)

lemma mem_get_Some:
  "fst (mem_get now key c) = Some v \<longleftrightarrow>
     (\<exists>e. dget (mc_cache c) key = Some e \<and> \<not> is_expired now e \<and> ce_value e = Some v)"
  by (auto simp: mem_get_def split: option.splits)

lemma dpop_absent: "k \<notin> set (keys d) \<Longrightarrow> dpop k d = d"
  by (induction d) auto

lemma dget_append_absent: "k \<notin> set (keys d) \<Longrightarrow> dget (d @ [(k, v)]) k' = (if k' = k then Some v else dget d k')"
  by (induction d) auto

lemma keys_drop: "keys (drop n d) = drop n (keys d)"
  by (simp add: drop_map)

lemma dropped_keys:
  assumes "distinct (keys d)"
  shows "distinct (keys (drop n (dpop k d)))" "k \<notin> set (keys (drop n (dpop k d)))"
  using distinct_dpop [OF assms, of k] keys_dpop [of k d]
  by (auto simp: keys_drop dest: in_set_dropD simp del: distinct_dpop)

lemma dget_drop:
  assumes "distinct (keys d)" and "dget (drop n d) k = Some v"
  shows "dget d k = Some v"
proof -
  have "(k, v) \<in> set d" using assms(2) by (metis in_set_dropD map_of_SomeD)
  with assms(1) show ?thesis by simp
qed

text \<open>The whole effect of a write: the entries kept, in their order, then the new one.\<close>

lemma mem_set_result:
  assumes "0 < mc_maxsize c"
  obtains c' where "mem_set now k v ttl c = Some (True, c')"
    "mc_cache c' = drop (length (dpop k (mc_cache c)) - nat (mc_maxsize c - 1)) (dpop k (mc_cache c))
       @ [(k, \<lparr>ce_value = v, ce_created = now,
               ce_ttl = (case ttl of None \<Rightarrow> mc_default_ttl c | Some t \<Rightarrow> Some t)\<rparr>)]"
    "mc_maxsize c' = mc_maxsize c" "mc_default_ttl c' = mc_default_ttl c"
proof -
  define c1 where "c1 = (if dget (mc_cache c) k \<noteq> None then c\<lparr>mc_cache := dpop k (mc_cache c)\<rparr> else c)"
  have c1: "mc_cache c1 = dpop k (mc_cache c)" "mc_maxsize c1 = mc_maxsize c" "mc_default_ttl c1 = mc_default_ttl c"
    by (auto simp: c1_def dpop_absent dget_None_keys)
  from assms c1 have "0 < mc_maxsize c1" by simp
  then obtain b c2 where c2: "evict_loop c1 = Some (b, c2)"
    "mc_cache c2 = drop (length (mc_cache c1) - nat (mc_maxsize c1 - 1)) (mc_cache c1)"
    "mc_maxsize c2 = mc_maxsize c1" "mc_default_ttl c2 = mc_default_ttl c1" "mc_name c2 = mc_name c1"
    by (rule evict_loop_result)
  have "k \<notin> set (keys (mc_cache c2))"
    by (auto simp: c2 c1 AList.delete_eq dest: in_set_dropD)
  then have put: "dput k e (mc_cache c2) = mc_cache c2 @ [(k, e)]" for e
    by (rule keys_dput_new)
  have "\<exists>c'. mem_set now k v ttl c = Some (True, c') \<and> mc_cache c' = mc_cache c2 @
      [(k, \<lparr>ce_value = v, ce_created = now, ce_ttl = (case ttl of None \<Rightarrow> mc_default_ttl c | Some t \<Rightarrow> Some t)\<rparr>)] \<and>
      mc_maxsize c' = mc_maxsize c2 \<and> mc_default_ttl c' = mc_default_ttl c2"
    unfolding mem_set_def Let_def c1_def [symmetric] by (simp add: c2(1) put)
  then show thesis using that c2 c1 by auto
qed

lemma mem_set_inv:
  assumes "mem_inv c" and "mem_set now k v ttl c = Some (r, c')"
  shows "mem_inv c'"
proof -
  have pos: "0 < mc_maxsize c" using assms(1) by (simp add: mem_inv_def)
  define d where "d = drop (length (dpop k (mc_cache c)) - nat (mc_maxsize c - 1)) (dpop k (mc_cache c))"
  obtain c'' where c'': "mem_set now k v ttl c = Some (True, c'')"
    "mc_cache c'' = d @ [(k, \<lparr>ce_value = v, ce_created = now,
               ce_ttl = (case ttl of None \<Rightarrow> mc_default_ttl c | Some t \<Rightarrow> Some t)\<rparr>)]"
    "mc_maxsize c'' = mc_maxsize c"
    using mem_set_result [OF pos] unfolding d_def by metis
  have "distinct (keys d)" "k \<notin> set (keys d)"
    using assms(1) by (simp_all only: d_def mem_inv_def dropped_keys simp_thms)
  moreover have "int (length d) < mc_maxsize c" using pos by (simp add: d_def)
  ultimately show ?thesis using assms(2) c'' by (auto simp: mem_inv_def)
qed

lemma mem_set_dget:
  assumes "mem_inv c" and "mem_set now k v ttl c = Some (r, c')"
  shows "dget (mc_cache c') k = Some \<lparr>ce_value = v, ce_created = now,
               ce_ttl = (case ttl of None \<Rightarrow> mc_default_ttl c | Some t \<Rightarrow> Some t)\<rparr>"
    and "k' \<noteq> k \<Longrightarrow> dget (mc_cache c') k' = Some e \<Longrightarrow> dget (mc_cache c) k' = Some e"
proof -
  have pos: "0 < mc_maxsize c" using assms(1) by (simp add: mem_inv_def)
  define d where "d = drop (length (dpop k (mc_cache c)) - nat (mc_maxsize c - 1)) (dpop k (mc_cache c))"
  have c': "mc_cache c' = d @ [(k, \<lparr>ce_value = v, ce_created = now,
               ce_ttl = (case ttl of None \<Rightarrow> mc_default_ttl c | Some t \<Rightarrow> Some t)\<rparr>)]"
    using mem_set_result [OF pos, of now k v ttl] assms(2) unfolding d_def by (metis option.inject prod.inject)
  have "k \<notin> set (keys d)" by (auto simp: d_def AList.delete_eq dest: in_set_dropD)
  note look = dget_append_absent [OF this]
  show "dget (mc_cache c') k = Some \<lparr>ce_value = v, ce_created = now,
               ce_ttl = (case ttl of None \<Rightarrow> mc_default_ttl c | Some t \<Rightarrow> Some t)\<rparr>"
    by (simp only: c' look) simp
  assume "k' \<noteq> k" "dget (mc_cache c') k' = Some e"
  then have "dget d k' = Some e" by (simp only: c' look) simp
  then have "dget (dpop k (mc_cache c)) k' = Some e"
    unfolding d_def by (rule dget_drop [rotated]) (use assms(1) in \<open>simp add: mem_inv_def\<close>)
  then show "dget (mc_cache c) k' = Some e" by (simp split: if_splits)
qed

lemma mem_delete_inv: "mem_inv c \<Longrightarrow> mem_inv (snd (mem_delete k c))"
  using length_dpop_le [of k "mc_cache c"]
  by (auto simp: mem_delete_def mem_inv_def split: option.splits)

lemma mem_delete_holds: "mem_holds (snd (mem_delete k c)) = (mem_holds c)(k := None)"
  by (auto simp: mem_delete_def mem_holds_def fun_eq_iff split: option.splits)

lemma mem_clear_inv: "mem_inv c \<Longrightarrow> mem_inv (snd (mem_clear c))"
  by (simp add: mem_clear_def mem_inv_def)

lemma mem_clear_holds: "mem_holds (snd (mem_clear c)) k = None"
  by (simp add: mem_clear_def mem_holds_def)

section \<open>The contract of a cache\<close>

locale cache_store =
  fixes cget :: "time \<Rightarrow> string \<Rightarrow> 's \<Rightarrow> 'v option \<times> 's"
    and cset :: "time \<Rightarrow> string \<Rightarrow> 'v \<Rightarrow> 's \<Rightarrow> 's option"
    and cdelete :: "string \<Rightarrow> 's \<Rightarrow> 's"
    and cclear :: "'s \<Rightarrow> 's"
    and holds :: "'s \<Rightarrow> string \<Rightarrow> 'v option"
    and inv :: "'s \<Rightarrow> bool"
  assumes get_inv: "inv s \<Longrightarrow> inv (snd (cget now k s))"
    and get_value: "inv s \<Longrightarrow> fst (cget now k s) = Some v \<Longrightarrow> holds s k = Some v"
    and get_keeps: "inv s \<Longrightarrow> holds (snd (cget now k s)) k' = Some v \<Longrightarrow> holds s k' = Some v"
    and set_returns: "inv s \<Longrightarrow> \<exists>s'. cset now k v s = Some s'"
    and set_inv: "inv s \<Longrightarrow> cset now k v s = Some s' \<Longrightarrow> inv s'"
    and set_same: "inv s \<Longrightarrow> cset now k v s = Some s' \<Longrightarrow> holds s' k = Some v"
    and set_other: "inv s \<Longrightarrow> cset now k v s = Some s' \<Longrightarrow> k' \<noteq> k \<Longrightarrow> holds s' k' = Some w \<Longrightarrow> holds s k' = Some w"
    and delete_inv: "inv s \<Longrightarrow> inv (cdelete k s)"
    and delete_holds: "holds (cdelete k s) = (holds s)(k := None)"
    and clear_inv: "inv s \<Longrightarrow> inv (cclear s)"
    and clear_holds: "holds (cclear s) k = None"
begin

text \<open>A cache agrees with a source of truth when no entry contradicts it; a truth that allows every value of a
  key says nothing about it, so several clients can share one cache.\<close>

definition agrees :: "(string \<Rightarrow> 'v \<Rightarrow> bool) \<Rightarrow> 's \<Rightarrow> bool" where
  "agrees truth s \<longleftrightarrow> (\<forall>k v. holds s k = Some v \<longrightarrow> truth k v)"

text \<open>Reading through: answer from the cache, otherwise compute, store and answer.\<close>

definition read_through :: "time \<Rightarrow> string \<Rightarrow> 'v \<Rightarrow> 's \<Rightarrow> ('v \<times> 's) option" where
  "read_through now k v s =
     (case cget now k s of
        (Some w, s') \<Rightarrow> Some (w, s')
      | (None, s') \<Rightarrow> map_option (\<lambda>s''. (v, s'')) (cset now k v s'))"

lemma agrees_get: "inv s \<Longrightarrow> agrees truth s \<Longrightarrow> agrees truth (snd (cget now k s))"
  by (auto simp: agrees_def dest: get_keeps)

lemma agrees_set:
  assumes "inv s" "agrees truth s" "cset now k v s = Some s'" "truth k v"
  shows "agrees truth s'"
  unfolding agrees_def
proof (intro allI impI)
  fix k' w assume "holds s' k' = Some w"
  with assms set_same [OF assms(1,3)] set_other [OF assms(1,3), of k' w] show "truth k' w"
    by (cases "k' = k") (auto simp: agrees_def)
qed

lemma agrees_delete:
  "agrees truth s \<Longrightarrow> (\<And>k' v. k' \<noteq> k \<Longrightarrow> truth k' v \<Longrightarrow> truth' k' v) \<Longrightarrow> agrees truth' (cdelete k s)"
  by (auto simp: agrees_def delete_holds)

lemma agrees_clear: "agrees truth (cclear s)"
  by (simp add: agrees_def clear_holds)

lemma read_through_returns: "inv s \<Longrightarrow> \<exists>r. read_through now k v s = Some r"
  using set_returns [of "snd (cget now k s)" now k v] get_inv [of s now k]
  by (auto simp: read_through_def split: prod.splits option.splits)

lemma read_through_correct:
  assumes "inv s" and "agrees truth s" and "truth k v" and "read_through now k v s = Some (r, s')"
  shows "truth k r \<and> inv s' \<and> agrees truth s'"
proof (cases "cget now k s")
  case (Pair res s1)
  have s1: "inv s1" "agrees truth s1"
    using get_inv [OF assms(1), of now k] agrees_get [OF assms(1,2), of now k] Pair by auto
  show ?thesis
  proof (cases res)
    case None
    with Pair assms(4) have "cset now k v s1 = Some s'" "r = v" by (auto simp: read_through_def)
    with s1 assms(3) show ?thesis by (auto intro: set_inv agrees_set)
  next
    case (Some w)
    with Pair get_value [OF assms(1), of now k w] have "holds s k = Some w" by simp
    with assms(2) have "truth k w" by (auto simp: agrees_def)
    with Some Pair assms(4) s1 show ?thesis by (auto simp: read_through_def)
  qed
qed

end

text \<open>The memory adapter, writing Python values other than \<open>None\<close>, with a fixed time to live.\<close>

definition mem_put :: "int option \<Rightarrow> time \<Rightarrow> string \<Rightarrow> 'v \<Rightarrow> 'v mem_cache \<Rightarrow> 'v mem_cache option" where
  "mem_put ttl now key v c = map_option snd (mem_set now key (Some v) ttl c)"

interpretation mem: cache_store mem_get "mem_put ttl" "\<lambda>k c. snd (mem_delete k c)" "\<lambda>c. snd (mem_clear c)"
  mem_holds mem_inv
  for ttl
proof (unfold_locales, goal_cases)
  case (1 s now k)
  then show ?case by (rule mem_get_inv)
next
  case (2 s now k v)
  then show ?case by (auto simp: mem_get_Some mem_holds_def)
next
  case (3 s now k k' v)
  then show ?case by (auto simp: mem_get_holds split: if_splits)
next
  case (4 s now k v)
  then have "0 < mc_maxsize s" by (simp add: mem_inv_def)
  then obtain c' where "mem_set now k (Some v) ttl s = Some (True, c')" by (rule mem_set_result)
  then show ?case by (simp add: mem_put_def)
next
  case (5 s now k v s')
  then show ?case by (auto simp: mem_put_def intro: mem_set_inv)
next
  case (6 s now k v s')
  then show ?case by (auto simp: mem_put_def mem_holds_def dest: mem_set_dget(1))
next
  case (7 s now k v s' k' w)
  then obtain e where "dget (mc_cache s') k' = Some e" "ce_value e = Some w"
    by (auto simp: mem_holds_def bind_eq_Some_conv)
  with 7 show ?case by (auto simp: mem_put_def mem_holds_def dest: mem_set_dget(2))
qed (simp_all add: mem_delete_inv mem_delete_holds mem_clear_inv mem_clear_holds)

section \<open>Runs of operations\<close>

datatype 'v mem_op =
    OpGet string
  | OpSet string "'v option" "int option"
  | OpDelete string
  | OpExists string
  | OpClear
  | OpKeys string
  | OpExpire string int

fun mem_step :: "time \<Rightarrow> 'v mem_op \<Rightarrow> 'v mem_cache \<Rightarrow> 'v mem_cache option" where
  "mem_step now (OpGet k) c = Some (snd (mem_get now k c))"
| "mem_step now (OpSet k v ttl) c = map_option snd (mem_set now k v ttl c)"
| "mem_step now (OpDelete k) c = Some (snd (mem_delete k c))"
| "mem_step now (OpExists k) c = Some (snd (mem_exists now k c))"
| "mem_step now OpClear c = Some (snd (mem_clear c))"
| "mem_step now (OpKeys p) c = Some (snd (mem_keys now p c))"
| "mem_step now (OpExpire k n) c = Some (snd (mem_expire now k n c))"

fun mem_run :: "(time \<times> 'v mem_op) list \<Rightarrow> 'v mem_cache \<Rightarrow> 'v mem_cache option" where
  "mem_run [] c = Some c"
| "mem_run ((now, op) # ops) c = Option.bind (mem_step now op c) (mem_run ops)"

lemma sweep_keys_inv:
  "distinct (keys d) \<Longrightarrow> sweep_keys now ks d = (r, d') \<Longrightarrow>
     distinct (keys d') \<and> length d' \<le> length d \<and> set r \<subseteq> set ks"
proof (induction now ks d arbitrary: r d' rule: sweep_keys.induct)
  case (1 now d)
  then show ?case by simp
next
  case (2 now k ks d)
  show ?case
  proof (cases "dget d k")
    case None
    with 2 show ?thesis by auto
  next
    case (Some e)
    show ?thesis
    proof (cases "is_expired now e")
      case True
      have "sweep_keys now ks (dpop k d) = (r, d')" using "2.prems"(2) Some True by simp
      from "2.IH"(2) [OF Some True _ this] "2.prems"(1)
      have "distinct (keys d') \<and> length d' \<le> length (dpop k d) \<and> set r \<subseteq> set ks" by simp
      then show ?thesis using length_dpop_le [of k d] by auto
    next
      case False
      obtain r1 d1 where r1: "sweep_keys now ks d = (r1, d1)" by fastforce
      then have "r = k # r1" "d' = d1" using "2.prems"(2) Some False by simp_all
      with "2.IH"(3) [OF Some False "2.prems"(1) r1] show ?thesis by auto
    qed
  qed
qed

lemma mem_keys_inv: "mem_inv c \<Longrightarrow> mem_inv (snd (mem_keys now p c))"
proof -
  assume c: "mem_inv c"
  define names where "names = (if p = ''*'' then keys (mc_cache c)
                   else filter (\<lambda>k. fnmatch p k) (keys (mc_cache c)))"
  obtain r d where rd: "sweep_keys now names (mc_cache c) = (r, d)" by fastforce
  with c sweep_keys_inv [OF _ rd] show ?thesis
    by (auto simp: mem_keys_def mem_inv_def names_def [symmetric] Let_def)
qed

lemma mem_inv_dpop: "mem_inv c \<Longrightarrow> mem_inv (c\<lparr>mc_cache := dpop k (mc_cache c)\<rparr>)"
  using length_dpop_le [of k "mc_cache c"] by (simp add: mem_inv_def)

lemma mem_exists_inv: "mem_inv c \<Longrightarrow> mem_inv (snd (mem_exists now k c))"
  by (simp add: mem_exists_def mem_inv_dpop split: option.split)

lemma mem_expire_inv: "mem_inv c \<Longrightarrow> mem_inv (snd (mem_expire now k n c))"
proof (cases "dget (mc_cache c) k")
  case (Some e)
  assume "mem_inv c"
  with Some dget_Some_keys [OF Some] show ?thesis
    by (simp add: mem_expire_def mem_inv_def length_dput)
qed (simp add: mem_expire_def)

lemma mem_set_diverges: "mc_maxsize c \<le> 0 \<Longrightarrow> mem_set now k v ttl c = None"
  by (simp add: mem_set_def Let_def evict_loop_diverges)

lemma mem_set_pos: "mem_set now k v ttl c = Some r \<Longrightarrow> 0 < mc_maxsize c"
  using mem_set_diverges [of c now k v ttl] by fastforce

lemma mem_set_maxsize:
  assumes "mem_set now k v ttl c = Some (r, c')"
  shows "mc_maxsize c' = mc_maxsize c"
proof -
  obtain c'' where "mem_set now k v ttl c = Some (True, c'')" "mc_maxsize c'' = mc_maxsize c"
    using mem_set_result [OF mem_set_pos [OF assms]] by metis
  with assms show ?thesis by simp
qed

lemma mem_step_maxsize: "mem_step now op c = Some c' \<Longrightarrow> mc_maxsize c' = mc_maxsize c"
  by (cases op)
     (auto simp: mem_get_def mem_delete_def mem_exists_def mem_clear_def mem_keys_def mem_expire_def
        Let_def mem_set_maxsize split: option.splits prod.splits if_splits)

lemma mem_step_inv: "mem_inv c \<Longrightarrow> \<exists>c'. mem_step now op c = Some c' \<and> mem_inv c'"
proof (cases op)
  case (OpSet k v ttl)
  assume c: "mem_inv c"
  then have "0 < mc_maxsize c" by (simp add: mem_inv_def)
  then obtain c' where "mem_set now k v ttl c = Some (True, c')" by (rule mem_set_result)
  with c OpSet show ?thesis by (auto intro: mem_set_inv)
qed (simp_all add: mem_get_inv mem_delete_inv mem_exists_inv mem_clear_inv mem_keys_inv mem_expire_inv)

lemma mem_run_inv: "mem_inv c \<Longrightarrow> \<exists>c'. mem_run ops c = Some c' \<and> mem_inv c' \<and> mc_maxsize c' = mc_maxsize c"
proof (induction ops arbitrary: c)
  case Nil
  then show ?case by simp
next
  case (Cons x ops)
  obtain now op where x: "x = (now, op)" by fastforce
  from mem_step_inv [OF Cons.prems, of now op] obtain c1 where
    c1: "mem_step now op c = Some c1" "mem_inv c1" by blast
  from Cons.IH [OF c1(2)] mem_step_maxsize [OF c1(1)] c1 x show ?case by auto
qed

section \<open>Properties\<close>

text \<open>C1: A memory cache created with a positive capacity never hangs and never outgrows it: any
  sequence of reads, writes, deletions, existence tests, clears, listings and expiry changes returns,
  and leaves at most \<open>maxsize\<close> entries with distinct keys.\<close>

theorem mem_cache_bounded:
  assumes "0 < maxsize"
  shows "\<exists>c. mem_run ops (new_mem_cache maxsize name ttl) = Some c \<and>
             int (length (mc_cache c)) \<le> maxsize \<and> distinct (keys (mc_cache c))"
  using mem_run_inv [OF mem_inv_new [OF assms, of name ttl], of ops]
  by (auto simp: mem_inv_def new_mem_cache_def)

theorem mem_cache_bounded_witness:
  "\<exists>c. mem_run [(0, OpSet ''a'' (Some 1) None), (1, OpSet ''b'' (Some (2 :: int)) (Some 5)), (2, OpGet ''a'')]
         (new_mem_cache 1 ''m'' None) = Some c \<and> int (length (mc_cache c)) \<le> 1 \<and> distinct (keys (mc_cache c))"
  by (rule mem_cache_bounded) simp

text \<open>A write to the memory cache returns exactly when its capacity is positive; with a capacity
  of zero or less the eviction loop never ends.\<close>

theorem mem_set_returns_iff: "(\<exists>r. mem_set now k v ttl c = Some r) = (0 < mc_maxsize c)"
  using mem_set_pos [of now k v ttl c] mem_set_result [of c now k v ttl] by blast

text \<open>Eviction is least recently used first: after a write, the keys are those that were there
  (the written one apart) less the oldest ones that do not fit, in unchanged order, then the written
  key as the most recent.\<close>

theorem mem_set_lru:
  assumes "mem_inv c" and "mem_set now k v ttl c = Some (r, c')"
  shows "keys (mc_cache c') =
     (let others = filter (\<lambda>x. x \<noteq> k) (keys (mc_cache c))
      in drop (length others - nat (mc_maxsize c - 1)) others) @ [k]"
proof -
  have "0 < mc_maxsize c" using assms(1) by (simp add: mem_inv_def)
  then obtain c'' where c'': "mem_set now k v ttl c = Some (True, c'')"
    "mc_cache c'' = drop (length (dpop k (mc_cache c)) - nat (mc_maxsize c - 1)) (dpop k (mc_cache c))
       @ [(k, \<lparr>ce_value = v, ce_created = now,
               ce_ttl = (case ttl of None \<Rightarrow> mc_default_ttl c | Some t \<Rightarrow> Some t)\<rparr>)]"
    by (rule mem_set_result)
  then have "c' = c''" using assms(2) by simp
  moreover have "length (dpop k (mc_cache c)) = length (filter (\<lambda>x. x \<noteq> k) (keys (mc_cache c)))"
    by (metis keys_dpop length_map)
  ultimately show ?thesis
    using c''(2) by (simp add: keys_drop keys_dpop Let_def del: filter_map)
qed

theorem mem_set_lru_witness:
  "\<exists>c'. mem_set 3 ''a'' (Some (7 :: int)) None
      \<lparr>mc_cache = [(''b'', \<lparr>ce_value = Some 1, ce_created = 0, ce_ttl = None\<rparr>),
                   (''c'', \<lparr>ce_value = Some 2, ce_created = 0, ce_ttl = None\<rparr>)],
       mc_maxsize = 2, mc_name = ''m'', mc_default_ttl = None, mc_hits = 0, mc_misses = 0,
       mc_sets = 2, mc_deletes = 0, mc_evictions = 0, mc_events = []\<rparr> = Some (True, c') \<and>
     keys (mc_cache c') = [''c'', ''a'']"
proof -
  define c :: "int mem_cache" where
    "c = \<lparr>mc_cache = [(''b'', \<lparr>ce_value = Some 1, ce_created = 0, ce_ttl = None\<rparr>),
                   (''c'', \<lparr>ce_value = Some 2, ce_created = 0, ce_ttl = None\<rparr>)],
       mc_maxsize = 2, mc_name = ''m'', mc_default_ttl = None, mc_hits = 0, mc_misses = 0,
       mc_sets = 2, mc_deletes = 0, mc_evictions = 0, mc_events = []\<rparr>"
  have c: "mem_inv c" by (simp add: c_def mem_inv_def)
  have "0 < mc_maxsize c" by (simp add: c_def)
  then obtain c' where c': "mem_set 3 ''a'' (Some 7) None c = Some (True, c')" by (rule mem_set_result)
  from mem_set_lru [OF c c'] have "keys (mc_cache c') = [''c'', ''a'']"
    by (simp add: c_def Let_def)
  with c' show ?thesis by (simp add: c_def)
qed

text \<open>A value written with a time to live is read back unchanged until the time to live has
  passed, and never afterwards.\<close>

theorem mem_ttl_roundtrip:
  assumes "mem_inv c" and "mem_set t0 k (Some v) (Some n) c = Some (r, c')"
  shows "fst (mem_get t k c') = (if t - t0 \<le> of_int n then Some v else None)"
  using mem_set_dget(1) [OF assms] by (simp add: mem_get_def is_expired_def)

theorem mem_ttl_roundtrip_witness:
  "fst (mem_get 5 ''k'' (snd (the (mem_set 0 ''k'' (Some (7 :: int)) (Some 10) (new_mem_cache 2 ''m'' None))))) = Some 7 \<and>
   fst (mem_get 11 ''k'' (snd (the (mem_set 0 ''k'' (Some (7 :: int)) (Some 10) (new_mem_cache 2 ''m'' None))))) = None"
proof -
  have c: "mem_inv (new_mem_cache 2 ''m'' None :: int mem_cache)" by (simp add: mem_inv_new)
  have "0 < mc_maxsize (new_mem_cache 2 ''m'' None :: int mem_cache)" by (simp add: new_mem_cache_def)
  then obtain c' where c': "mem_set 0 ''k'' (Some (7 :: int)) (Some 10) (new_mem_cache 2 ''m'' None) = Some (True, c')"
    by (rule mem_set_result)
  show ?thesis using mem_ttl_roundtrip [OF c c', of 5] mem_ttl_roundtrip [OF c c', of 11] c' by simp
qed

end
