(* ===== verification/CacheSpec.thy ===== *)
theory CacheSpec
  imports CacheStore
begin

text \<open>
  What a cache with a capacity promises, independent of the \<open>OrderedDict\<close> of
  \<open>MemoryCacheAdapter\<close>: a finite map whose keys carry the instant of their last use. A read that
  answers and a write are uses; a write to a full cache forgets the keys used longest ago. The
  theory shows that every run of the memory adapter of \<^verbatim>\<open>CacheStore\<close> gives the answers of this map.
\<close>

section \<open>The map with last uses\<close>

record 'v lru =
  lru_entry :: "string \<Rightarrow> 'v centry option"
  lru_use :: "string \<Rightarrow> nat"
  lru_tick :: nat
  lru_cap :: int
  lru_ttl :: "int option"

datatype 'v answer = Value "'v option" | Flag bool | Names "string set"

definition new_lru :: "int \<Rightarrow> int option \<Rightarrow> 'v lru" where
  "new_lru cap ttl = \<lparr>lru_entry = Map.empty, lru_use = (\<lambda>_. 0), lru_tick = 0, lru_cap = cap, lru_ttl = ttl\<rparr>"

definition used :: "string \<Rightarrow> 'v lru \<Rightarrow> 'v lru" where
  "used k a = a\<lparr>lru_use := (lru_use a)(k := lru_tick a), lru_tick := lru_tick a + 1\<rparr>"

text \<open>The keys that stay when \<open>k\<close> is written: those with fewer than \<open>cap - 1\<close> others used later.\<close>

definition survivors :: "string \<Rightarrow> 'v lru \<Rightarrow> string set" where
  "survivors k a =
     {x. x \<noteq> k \<and> lru_entry a x \<noteq> None \<and>
         int (card {y. y \<noteq> k \<and> lru_entry a y \<noteq> None \<and> lru_use a x < lru_use a y}) < lru_cap a - 1}"

definition live :: "time \<Rightarrow> 'v centry option \<Rightarrow> bool" where
  "live now e = (case e of None \<Rightarrow> False | Some e \<Rightarrow> \<not> is_expired now e)"

fun lru_call :: "time \<Rightarrow> 'v mem_op \<Rightarrow> 'v lru \<Rightarrow> 'v answer \<times> 'v lru" where
  "lru_call now (OpGet k) a =
     (if live now (lru_entry a k) then (Value (ce_value (the (lru_entry a k))), used k a)
      else (Value None, a\<lparr>lru_entry := (lru_entry a)(k := None)\<rparr>))"
| "lru_call now (OpSet k v ttl) a =
     (Flag True,
      used k (a\<lparr>lru_entry := (\<lambda>x. if x = k then
            Some \<lparr>ce_value = v, ce_created = now, ce_ttl = (if ttl = None then lru_ttl a else ttl)\<rparr>
          else if x \<in> survivors k a then lru_entry a x else None)\<rparr>))"
| "lru_call now (OpDelete k) a =
     (Flag (lru_entry a k \<noteq> None), a\<lparr>lru_entry := (lru_entry a)(k := None)\<rparr>)"
| "lru_call now (OpExists k) a =
     (if live now (lru_entry a k) then (Flag True, a)
      else (Flag False, a\<lparr>lru_entry := (lru_entry a)(k := None)\<rparr>))"
| "lru_call now OpClear a = (Flag True, a\<lparr>lru_entry := Map.empty\<rparr>)"
| "lru_call now (OpKeys p) a =
     (Names {k. live now (lru_entry a k) \<and> fnmatch p k},
      a\<lparr>lru_entry := (\<lambda>k. if fnmatch p k \<and> \<not> live now (lru_entry a k) then None else lru_entry a k)\<rparr>)"
| "lru_call now (OpExpire k n) a =
     (if live now (lru_entry a k) then
        (Flag True, a\<lparr>lru_entry := (lru_entry a)
           (k \<mapsto> (the (lru_entry a k))\<lparr>ce_ttl := Some n, ce_created := now\<rparr>)\<rparr>)
      else (Flag False, a))"

fun lru_calls :: "(time \<times> 'v mem_op) list \<Rightarrow> 'v lru \<Rightarrow> 'v answer list \<times> 'v lru" where
  "lru_calls [] a = ([], a)"
| "lru_calls ((now, op) # ops) a =
     (let (r, a1) = lru_call now op a; (rs, a2) = lru_calls ops a1 in (r # rs, a2))"

section \<open>The calls of the adapter with their answers\<close>

fun mem_call :: "time \<Rightarrow> 'v mem_op \<Rightarrow> 'v mem_cache \<Rightarrow> ('v answer \<times> 'v mem_cache) option" where
  "mem_call now (OpGet k) c = Some (apfst Value (mem_get now k c))"
| "mem_call now (OpSet k v ttl) c = map_option (apfst Flag) (mem_set now k v ttl c)"
| "mem_call now (OpDelete k) c = Some (apfst Flag (mem_delete k c))"
| "mem_call now (OpExists k) c = Some (apfst Flag (mem_exists now k c))"
| "mem_call now OpClear c = Some (apfst Flag (mem_clear c))"
| "mem_call now (OpKeys p) c = Some (apfst (\<lambda>ks. Names (set ks)) (mem_keys now p c))"
| "mem_call now (OpExpire k n) c = Some (apfst Flag (mem_expire now k n c))"

fun mem_calls :: "(time \<times> 'v mem_op) list \<Rightarrow> 'v mem_cache \<Rightarrow> ('v answer list \<times> 'v mem_cache) option" where
  "mem_calls [] c = Some ([], c)"
| "mem_calls ((now, op) # ops) c =
     Option.bind (mem_call now op c) (\<lambda>(r, c1). map_option (apfst ((#) r)) (mem_calls ops c1))"

section \<open>The simulation relation\<close>

definition refines :: "'v mem_cache \<Rightarrow> 'v lru \<Rightarrow> bool" where
  "refines c a \<longleftrightarrow>
     mem_inv c \<and> dget (mc_cache c) = lru_entry a \<and>
     sorted_wrt (\<lambda>x y. lru_use a x < lru_use a y) (keys (mc_cache c)) \<and>
     (\<forall>k \<in> set (keys (mc_cache c)). lru_use a k < lru_tick a) \<and>
     lru_cap a = mc_maxsize c \<and> lru_ttl a = mc_default_ttl c"

lemma refines_new: "0 < cap \<Longrightarrow> refines (new_mem_cache cap name ttl) (new_lru cap ttl)"
  by (simp add: refines_def mem_inv_new) (simp add: new_mem_cache_def new_lru_def)

lemma refines_emit [simp]: "refines (emit ev c) a = refines c a"
  by (simp add: refines_def)

lemma refines_counters [simp]:
  "refines (c\<lparr>mc_hits := n\<rparr>) a = refines c a" "refines (c\<lparr>mc_misses := n\<rparr>) a = refines c a"
  "refines (c\<lparr>mc_deletes := n\<rparr>) a = refines c a"
  by (simp_all add: refines_def mem_inv_def)

lemma sorted_wrt_filter_keys: "sorted_wrt R (keys d) \<Longrightarrow> sorted_wrt R (keys (dpop k d))"
  by (simp add: keys_dpop sorted_wrt_filter)

lemma distinct_by_use: "sorted_wrt (\<lambda>x y. u x < (u y :: nat)) xs \<Longrightarrow> distinct xs"
  by (induction xs) auto

text \<open>Dropping all but the last \<open>m\<close> of a list in order of use keeps those with few later uses.\<close>

lemma drop_oldest:
  fixes u :: "'a \<Rightarrow> nat"
  assumes "sorted_wrt (\<lambda>x y. u x < u y) xs"
  shows "drop (length xs - m) xs = filter (\<lambda>x. card {y \<in> set xs. u x < u y} < m) xs"
  using assms
proof (induction xs)
  case Nil
  then show ?case by simp
next
  case (Cons x xs)
  have later: "{y \<in> set (x # xs). u x < u y} = set xs" using Cons.prems by auto
  have "distinct xs" using Cons.prems distinct_by_use [of u xs] by simp
  then have head: "card {y \<in> set (x # xs). u x < u y} = length xs"
    unfolding later by (rule distinct_card)
  have tail: "{y \<in> set (x # xs). u z < u y} = {y \<in> set xs. u z < u y}" if "z \<in> set xs" for z
    using Cons.prems that by auto
  have rest: "filter (\<lambda>z. card {y \<in> set (x # xs). u z < u y} < m) xs =
      filter (\<lambda>z. card {y \<in> set xs. u z < u y} < m) xs"
    by (rule filter_cong) (simp_all only: tail)
  have IH: "drop (length xs - m) xs = filter (\<lambda>z. card {y \<in> set xs. u z < u y} < m) xs"
    using Cons by simp
  show ?case
  proof (cases "length xs < m")
    case True
    with IH rest head show ?thesis by simp
  next
    case False
    then have "drop (length (x # xs) - m) (x # xs) = drop (length xs - m) xs"
      by (simp add: Suc_diff_le)
    with False IH rest head show ?thesis by simp
  qed
qed


section \<open>Each call simulates\<close>

text \<open>A key is the most recent one after it was used.\<close>

lemma refines_used:
  assumes "refines c a" and "dget (mc_cache c) k = Some e"
  shows "refines (c\<lparr>mc_cache := move_to_end k e (mc_cache c)\<rparr>) (used k a)"
proof -
  from assms have inv: "mem_inv c" and ord: "sorted_wrt (\<lambda>x y. lru_use a x < lru_use a y) (keys (mc_cache c))"
    and below: "\<forall>x \<in> set (keys (mc_cache c)). lru_use a x < lru_tick a"
    and ent: "dget (mc_cache c) = lru_entry a"
    by (auto simp: refines_def)
  let ?ks = "filter (\<lambda>x. x \<noteq> k) (keys (mc_cache c))"
  have ks: "keys (move_to_end k e (mc_cache c)) = ?ks @ [k]" by (simp add: move_to_end_def keys_dpop)
  have "sorted_wrt (\<lambda>x y. lru_use a x < lru_use a y) ?ks" by (rule sorted_wrt_filter [OF ord])
  then have "sorted_wrt (\<lambda>x y. lru_use (used k a) x < lru_use (used k a) y) ?ks"
    by (rule sorted_wrt_mono_rel [rotated]) (auto simp: used_def)
  with below have "sorted_wrt (\<lambda>x y. lru_use (used k a) x < lru_use (used k a) y) (?ks @ [k])"
    by (auto simp: sorted_wrt_append used_def)
  moreover have "mem_inv (c\<lparr>mc_cache := move_to_end k e (mc_cache c)\<rparr>)"
    using inv assms(2) dget_Some_keys [OF assms(2)]
    by (simp add: mem_inv_def distinct_move_to_end length_move_to_end)
  moreover have "dget (move_to_end k e (mc_cache c)) = lru_entry a"
    using assms(2) ent by (auto simp: fun_eq_iff dget_move_to_end)
  ultimately show ?thesis
    using assms(1) below by (auto simp: refines_def ks used_def simp del: filter_map)
qed

lemma refines_pop:
  "refines c a \<Longrightarrow> refines (c\<lparr>mc_cache := dpop k (mc_cache c)\<rparr>) (a\<lparr>lru_entry := (lru_entry a)(k := None)\<rparr>)"
  by (auto simp: refines_def mem_inv_dpop sorted_wrt_filter_keys set_dpop fun_eq_iff)

lemma refines_forget:
  assumes "refines c a" and "lru_entry a k = None"
  shows "refines c (a\<lparr>lru_entry := (lru_entry a)(k := None)\<rparr>)"
proof -
  have "(lru_entry a)(k := None) = lru_entry a" using assms(2) by auto
  then show ?thesis using assms(1) by simp
qed

lemma refines_put:
  assumes "refines c a" and "dget (mc_cache c) k = Some e"
  shows "refines (c\<lparr>mc_cache := dput k x (mc_cache c)\<rparr>) (a\<lparr>lru_entry := (lru_entry a)(k \<mapsto> x)\<rparr>)"
proof -
  have ks: "keys (dput k x (mc_cache c)) = keys (mc_cache c)"
    using dget_Some_keys [OF assms(2)] by (simp add: keys_dput)
  have "mem_inv (c\<lparr>mc_cache := dput k x (mc_cache c)\<rparr>)"
    using assms(1) dget_Some_keys [OF assms(2)] by (simp add: refines_def mem_inv_def length_dput)
  then show ?thesis
    using assms(1) by (simp add: refines_def ks del: list.set_map) (auto simp: fun_eq_iff)
qed

lemma survivors_keys:
  assumes "refines c a"
  shows "drop (length (dpop k (mc_cache c)) - nat (mc_maxsize c - 1)) (keys (dpop k (mc_cache c))) =
         filter (\<lambda>x. x \<in> survivors k a) (keys (dpop k (mc_cache c)))"
proof -
  let ?ks = "keys (dpop k (mc_cache c))"
  from assms have ord: "sorted_wrt (\<lambda>x y. lru_use a x < lru_use a y) ?ks"
    and ent: "dget (mc_cache c) = lru_entry a" and cap: "lru_cap a = mc_maxsize c" and pos: "0 < mc_maxsize c"
    by (simp_all add: refines_def sorted_wrt_filter_keys mem_inv_def)
  have in_ks: "x \<in> set ?ks \<longleftrightarrow> x \<noteq> k \<and> lru_entry a x \<noteq> None" for x
    using dget_None_keys [of "mc_cache c" x] by (auto simp: keys_dpop ent simp del: filter_map)
  have surv: "x \<in> survivors k a \<longleftrightarrow> card {y \<in> set ?ks. lru_use a x < lru_use a y} < nat (mc_maxsize c - 1)"
    if "x \<in> set ?ks" for x
    using that pos cap unfolding survivors_def in_ks by (auto simp: conj_assoc)
  have "drop (length ?ks - nat (mc_maxsize c - 1)) ?ks = filter (\<lambda>x. x \<in> survivors k a) ?ks"
    unfolding drop_oldest [OF ord] by (rule filter_cong) (simp_all only: surv)
  then show ?thesis by simp
qed

text \<open>Looking up in a dictionary whose pairs were filtered by their key.\<close>

lemma dget_filter_keys: "dget (filter (\<lambda>p. P (fst p)) d) k = (if P k then dget d k else None)"
  by (induction d) auto

lemma drop_as_filter:
  assumes "distinct (keys d)" and "drop n (keys d) = filter P (keys d)"
  shows "drop n d = filter (\<lambda>p. P (fst p)) d"
proof -
  have keep: "(P x \<longleftrightarrow> x \<in> set (drop n (keys d)))" if "x \<in> set (keys d)" for x
    using that assms(2) by auto
  have split: "distinct (keys (take n d) @ keys (drop n d))"
    using assms(1) by (metis append_take_drop_id map_append)
  have "filter (\<lambda>p. P (fst p)) d = filter (\<lambda>p. fst p \<in> set (keys (drop n d))) d"
    by (rule filter_cong) (use keep in \<open>auto simp: keys_drop\<close>)
  also have "\<dots> = filter (\<lambda>p. fst p \<in> set (keys (drop n d))) (take n d @ drop n d)" by simp
  also have "\<dots> = drop n d"
    using split unfolding filter_append by (auto simp: filter_empty_conv filter_id_conv)
  finally show ?thesis by simp
qed


lemma refines_set:
  assumes "refines c a" and "mem_set now k v ttl c = Some (r, c')"
  shows "r = True \<and> refines c' (snd (lru_call now (OpSet k v ttl) a))"
proof -
  let ?d = "dpop k (mc_cache c)" and ?n = "length (dpop k (mc_cache c)) - nat (mc_maxsize c - 1)"
  let ?e = "\<lparr>ce_value = v, ce_created = now, ce_ttl = (case ttl of None \<Rightarrow> mc_default_ttl c | Some t \<Rightarrow> Some t)\<rparr>"
  let ?a = "snd (lru_call now (OpSet k v ttl) a)"
  from assms have inv: "mem_inv c" and pos: "0 < mc_maxsize c"
    and ord: "sorted_wrt (\<lambda>x y. lru_use a x < lru_use a y) (keys (mc_cache c))"
    and below: "\<forall>x \<in> set (keys (mc_cache c)). lru_use a x < lru_tick a"
    and ent: "dget (mc_cache c) = lru_entry a" and ttl_eq: "lru_ttl a = mc_default_ttl c"
    and cap: "lru_cap a = mc_maxsize c"
    by (simp_all add: refines_def mem_inv_def)
  obtain c'' where c'': "mem_set now k v ttl c = Some (True, c'')" "mc_cache c'' = drop ?n ?d @ [(k, ?e)]"
    "mc_maxsize c'' = mc_maxsize c" "mc_default_ttl c'' = mc_default_ttl c"
    using pos by (rule mem_set_result)
  with assms(2) have r: "r = True" and c': "mc_cache c' = drop ?n ?d @ [(k, ?e)]"
    "mc_maxsize c' = mc_maxsize c" "mc_default_ttl c' = mc_default_ttl c" by simp_all
  have dist: "distinct (keys ?d)" using inv by (simp add: mem_inv_def)
  have kept: "drop ?n ?d = filter (\<lambda>p. fst p \<in> survivors k a) ?d"
    by (rule drop_as_filter [OF dist]) (use survivors_keys [OF assms(1), of k] in \<open>simp add: keys_drop\<close>)
  have knot: "k \<notin> set (keys (drop ?n ?d))" using dropped_keys(2) [of "mc_cache c" k ?n] inv unfolding mem_inv_def by blast
  have entries: "dget (mc_cache c') = lru_entry ?a"
  proof
    fix x
    have "dget (drop ?n ?d) x = (if x \<in> survivors k a then (if x = k then None else lru_entry a x) else None)"
      unfolding kept dget_filter_keys [of "\<lambda>x. x \<in> survivors k a"] by (simp add: ent)
    then show "dget (mc_cache c') x = lru_entry ?a x"
      unfolding c'(1) dget_append_absent [OF knot] using ttl_eq
      by (auto simp: used_def split: option.splits)
  qed
  have "sorted_wrt (\<lambda>x y. lru_use a x < lru_use a y) (keys ?d)" by (rule sorted_wrt_filter_keys [OF ord])
  then have "sorted_wrt (\<lambda>x y. lru_use a x < lru_use a y) (keys (drop ?n ?d))"
    unfolding keys_drop by (rule sorted_wrt_drop)
  then have ord_kept: "sorted_wrt (\<lambda>x y. lru_use ?a x < lru_use ?a y) (keys (drop ?n ?d))"
    by (rule sorted_wrt_mono_rel [rotated]) (use knot in \<open>auto simp: used_def\<close>)
  have sub: "set (keys (drop ?n ?d)) \<subseteq> set (keys (mc_cache c))"
    unfolding keys_drop using set_drop_subset [of ?n "keys ?d"] keys_dpop_subset [of k "mc_cache c"] by blast
  have below_kept: "lru_use a x < lru_tick a" if "x \<in> set (keys (drop ?n ?d))" for x
    using that sub below by blast
  have ks: "keys (mc_cache c') = keys (drop ?n ?d) @ [k]" using c' by simp
  have "sorted_wrt (\<lambda>x y. lru_use ?a x < lru_use ?a y) (keys (mc_cache c'))"
    unfolding ks sorted_wrt_append using ord_kept below_kept knot by (simp add: used_def) (metis fst_conv image_eqI)
  moreover have "\<forall>x \<in> set (keys (mc_cache c')). lru_use ?a x < lru_tick ?a"
    unfolding ks using below_kept by (simp add: used_def) (metis fst_conv image_eqI less_Suc_eq)
  ultimately show ?thesis
    using r c' entries cap ttl_eq mem_set_inv [OF inv assms(2)] by (simp add: refines_def used_def)
qed

text \<open>A listing returns the live keys that match and drops the expired ones it met.\<close>

lemma sweep_keys_filter:
  "distinct ks \<Longrightarrow> distinct (keys d) \<Longrightarrow>
   sweep_keys now ks d =
     (filter (\<lambda>k. live now (dget d k)) ks,
      filter (\<lambda>p. fst p \<in> set ks \<longrightarrow> live now (dget d (fst p))) d)"
proof (induction ks arbitrary: d)
  case Nil
  then show ?case by simp
next
  case (Cons k ks)
  from Cons.prems have k: "k \<notin> set ks" "distinct ks" by simp_all
  show ?case
  proof (cases "dget d k")
    case None
    then have "fst p \<noteq> k" if "p \<in> set d" for p using that by (auto simp: dget_None_keys)
    with None Cons k show ?thesis by (auto simp: live_def intro!: filter_cong)
  next
    case (Some e)
    show ?thesis
    proof (cases "is_expired now e")
      case True
      have look: "dget (dpop k d) x = dget d x" if "x \<in> set ks" for x
        using that k by auto
      have "filter (\<lambda>p. fst p \<in> set ks \<longrightarrow> live now (dget (dpop k d) (fst p))) (dpop k d) =
            filter (\<lambda>p. fst p \<in> set (k # ks) \<longrightarrow> live now (dget d (fst p))) d"
        unfolding AList.delete_eq filter_filter
        by (rule filter_cong) (use True Some k in \<open>auto simp: live_def AList.delete_eq [symmetric]\<close>)
      moreover have "filter (\<lambda>x. live now (dget (dpop k d) x)) ks = filter (\<lambda>x. live now (dget d x)) ks"
        by (rule filter_cong) (simp_all only: look)
      ultimately show ?thesis
        using True Some Cons.IH [OF k(2), of "dpop k d"] Cons.prems(2) by (simp add: live_def)
    next
      case False
      have "filter (\<lambda>p. fst p \<in> set ks \<longrightarrow> live now (dget d (fst p))) d =
            filter (\<lambda>p. fst p \<in> set (k # ks) \<longrightarrow> live now (dget d (fst p))) d"
        by (rule filter_cong) (use False Some in \<open>auto simp: live_def\<close>)
      with False Some Cons k show ?thesis by (simp add: live_def)
    qed
  qed
qed

lemma refines_keys:
  assumes "refines c a"
  shows "set (fst (mem_keys now p c)) = {k. live now (lru_entry a k) \<and> fnmatch p k} \<and>
         refines (snd (mem_keys now p c)) (snd (lru_call now (OpKeys p) a))"
proof -
  let ?d = "mc_cache c"
  from assms have inv: "mem_inv c" and dist: "distinct (keys ?d)" and ent: "dget ?d = lru_entry a"
    and ord: "sorted_wrt (\<lambda>x y. lru_use a x < lru_use a y) (keys ?d)"
    by (simp_all add: refines_def mem_inv_def)
  have names: "(if p = ''*'' then keys ?d else filter (\<lambda>k. fnmatch p k) (keys ?d)) = filter (\<lambda>k. fnmatch p k) (keys ?d)"
    by simp
  define P where "P = (\<lambda>k. k \<in> set (filter (\<lambda>k. fnmatch p k) (keys ?d)) \<longrightarrow> live now (dget ?d k))"
  have sweep: "mem_keys now p c =
     (filter (\<lambda>k. live now (dget ?d k)) (filter (\<lambda>k. fnmatch p k) (keys ?d)),
      c\<lparr>mc_cache := filter (\<lambda>q. P (fst q)) ?d\<rparr>)"
    unfolding mem_keys_def names P_def
    using sweep_keys_filter [of "filter (\<lambda>k. fnmatch p k) (keys ?d)" ?d now] dist
    by (simp del: filter_map filter_filter)
  have live_in: "live now (lru_entry a k) \<Longrightarrow> k \<in> set (keys ?d)" for k
    using dget_None_keys [of ?d k] by (cases "lru_entry a k") (auto simp: ent live_def)
  have "set (fst (mem_keys now p c)) = {k. live now (lru_entry a k) \<and> fnmatch p k}"
    using live_in by (auto simp: sweep ent simp del: filter_map)
  moreover have "mem_inv (snd (mem_keys now p c))" by (rule mem_keys_inv [OF inv])
  moreover have "dget (filter (\<lambda>q. P (fst q)) ?d) = lru_entry (snd (lru_call now (OpKeys p) a))"
  proof
    fix k
    have absent: "lru_entry a k = None" if "k \<notin> set (keys ?d)"
      using that dget_None_keys [of ?d k] by (simp add: ent)
    show "dget (filter (\<lambda>q. P (fst q)) ?d) k = lru_entry (snd (lru_call now (OpKeys p) a)) k"
      unfolding dget_filter_keys [of P] using absent by (auto simp: P_def ent simp del: filter_map)
  qed
  moreover have "keys (filter (\<lambda>q. P (fst q)) ?d) = filter P (keys ?d)"
    by (simp add: filter_map comp_def)
  then have "sorted_wrt (\<lambda>x y. lru_use a x < lru_use a y) (keys (filter (\<lambda>q. P (fst q)) ?d))"
    using ord by (simp add: sorted_wrt_filter)
  ultimately show ?thesis
    using assms by (auto simp: refines_def sweep)
qed


section \<open>Every call, every run\<close>

lemma refines_call:
  assumes "refines c a" and "mem_call now op c = Some (r, c')"
  shows "r = fst (lru_call now op a) \<and> refines c' (snd (lru_call now op a))"
proof -
  have ent: "dget (mc_cache c) = lru_entry a" using assms(1) by (simp add: refines_def)
  show ?thesis
  proof (cases op)
    case (OpGet k)
    with assms ent show ?thesis
      by (cases "lru_entry a k")
         (auto simp: mem_get_def live_def refines_used refines_pop refines_forget
            split: if_splits)
  next
    case (OpSet k v ttl)
    with assms(2) obtain b where b: "mem_set now k v ttl c = Some (b, c')" "r = Flag b" by auto
    with refines_set [OF assms(1) b(1)] OpSet show ?thesis by simp
  next
    case (OpDelete k)
    with assms ent show ?thesis
      by (cases "lru_entry a k") (auto simp: mem_delete_def refines_pop refines_forget)
  next
    case (OpExists k)
    with assms ent show ?thesis
      by (cases "lru_entry a k")
         (auto simp: mem_exists_def live_def refines_pop refines_forget split: if_splits)
  next
    case OpClear
    with assms mem_clear_inv [of c] show ?thesis
      by (auto simp: mem_clear_def refines_def)
  next
    case (OpKeys p)
    with assms refines_keys [OF assms(1), of now p] show ?thesis
      by (cases "mem_keys now p c") auto
  next
    case (OpExpire k n)
    show ?thesis
    proof (cases "lru_entry a k")
      case None
      with OpExpire assms ent show ?thesis by (auto simp: mem_expire_def live_def)
    next
      case (Some e)
      with OpExpire assms ent show ?thesis
        by (auto simp: mem_expire_def live_def refines_put split: if_splits)
    qed
  qed
qed

lemma mem_call_returns:
  assumes "refines c a"
  obtains c' where "mem_call now op c = Some (fst (lru_call now op a), c')"
    "refines c' (snd (lru_call now op a))"
proof -
  have "mem_inv c" using assms by (simp add: refines_def)
  from mem_step_inv [OF this, of now op] have "\<exists>r c'. mem_call now op c = Some (r, c')"
    by (cases op) (auto simp: apfst_def map_prod_def split: prod.splits)
  then obtain r c' where "mem_call now op c = Some (r, c')" by blast
  with refines_call [OF assms this] that show thesis by simp
qed

lemma refines_calls:
  "refines c a \<Longrightarrow> \<exists>c'. mem_calls ops c = Some (fst (lru_calls ops a), c') \<and> refines c' (snd (lru_calls ops a))"
proof (induction ops arbitrary: c a)
  case Nil
  then show ?case by simp
next
  case (Cons x ops)
  obtain now op where x: "x = (now, op)" by fastforce
  obtain c1 where c1: "mem_call now op c = Some (fst (lru_call now op a), c1)"
    "refines c1 (snd (lru_call now op a))"
    using Cons.prems by (rule mem_call_returns)
  with Cons.IH [OF c1(2)] x show ?case by (auto simp: split_beta)
qed

section \<open>Properties\<close>

text \<open>C7: The memory cache refines the map with last uses: whatever sequence of reads, writes,
  deletions, tests, clears, listings and expiry changes is made at whatever times, a memory cache of
  positive capacity gives exactly the answers of that map.\<close>

theorem mem_cache_refines_lru:
  assumes "0 < cap"
  shows "map_option fst (mem_calls ops (new_mem_cache cap name ttl)) = Some (fst (lru_calls ops (new_lru cap ttl)))"
  using refines_calls [OF refines_new [OF assms, of name ttl], of ops] by auto

theorem mem_cache_refines_lru_witness:
  "map_option fst (mem_calls
     [(0, OpSet ''a'' (Some (1 :: int)) None), (1, OpSet ''b'' (Some 2) None), (2, OpGet ''a''),
      (3, OpSet ''c'' (Some 3) None), (4, OpGet ''b''), (5, OpGet ''a'')] (new_mem_cache 2 ''m'' None)) =
   Some [Flag True, Flag True, Value (Some 1), Flag True, Value None, Value (Some 1)]"
proof -
  have only_a: "{y. y \<noteq> ''b'' \<and> (y \<noteq> ''b'' \<longrightarrow> y = ''a'')} = {''a''}" by auto
  show ?thesis
    by (subst mem_cache_refines_lru)
       (auto simp: new_lru_def used_def live_def is_expired_def survivors_def only_a intro: exI [of _ "''a''"])
qed

end
