(* ===== verification/DistLock.thy ===== *)
theory DistLock
  imports PyVal
begin

text \<open>
  Distributed locks over the database (\<open>infrastructure/distributed_lock/\<close>,
  \<open>db/repositories/distributed_lock_repository.py\<close>, \<open>services/subscribe/strategy_lock.py\<close>).

  The table \<open>DISTRIBUTED_LOCK\<close> is a list of rows with \<open>LOCK_KEY\<close> as its primary key; the three
  statements of the repository are written with the selection, update and deletion of rows, each of
  them one transaction. A lock object holds a random token. \<open>now\<close> is \<open>int(time.time())\<close>.

  The locale \<open>lease_lock\<close> is what a user of leased locks relies on; mutual exclusion of unexpired
  leases is proved once inside it and instantiated on the repository.
\<close>

section \<open>The repository\<close>

record lock_row =
  row_key :: string
  row_token :: string
  row_instance :: string
  row_expires :: int

type_synonym lock_table = "lock_row list"

definition update_where :: "(lock_row \<Rightarrow> bool) \<Rightarrow> (lock_row \<Rightarrow> lock_row) \<Rightarrow> lock_table \<Rightarrow> nat \<times> lock_table" where
  "update_where p f t = (length (filter p t), map (\<lambda>r. if p r then f r else r) t)"

definition delete_where :: "(lock_row \<Rightarrow> bool) \<Rightarrow> lock_table \<Rightarrow> nat \<times> lock_table" where
  "delete_where p t = (length (filter p t), filter (\<lambda>r. \<not> p r) t)"

text \<open>An insertion violates the primary key when the key is present: \<open>None\<close>.\<close>

definition insert_row :: "lock_row \<Rightarrow> lock_table \<Rightarrow> lock_table option" where
  "insert_row r t = (if row_key r \<in> row_key ` set t then None else Some (t @ [r]))"

definition repo_acquire ::
  "int \<Rightarrow> string \<Rightarrow> string \<Rightarrow> string \<Rightarrow> int \<Rightarrow> lock_table \<Rightarrow> bool \<times> lock_table" where
  "repo_acquire now lock_key token inst ttl_seconds t =
     (let expires = now + ttl_seconds;
          (rowcount, t1) =
            update_where (\<lambda>r. row_key r = lock_key \<and> row_expires r < now)
              (\<lambda>r. r\<lparr>row_token := token, row_instance := inst, row_expires := expires\<rparr>) t
      in if rowcount > 0 then (True, t1)
         else (case insert_row \<lparr>row_key = lock_key, row_token = token, row_instance = inst,
                                row_expires = expires\<rparr> t1 of
                 Some t2 \<Rightarrow> (True, t2)
               | None \<Rightarrow> (False, t1)))"

text \<open>\<open>fault\<close>: the statement raises; the repository logs it and answers \<open>False\<close>.\<close>

definition repo_release :: "bool \<Rightarrow> string \<Rightarrow> string \<Rightarrow> lock_table \<Rightarrow> bool \<times> lock_table" where
  "repo_release fault lock_key token t =
     (if fault then (False, t)
      else let (rowcount, t1) = delete_where (\<lambda>r. row_key r = lock_key \<and> row_token r = token) t
           in (rowcount > 0, t1))"

definition repo_extend :: "bool \<Rightarrow> int \<Rightarrow> string \<Rightarrow> string \<Rightarrow> int \<Rightarrow> lock_table \<Rightarrow> bool \<times> lock_table" where
  "repo_extend fault now lock_key token additional_seconds t =
     (if fault then (False, t)
      else let expires = now + additional_seconds;
               (rowcount, t1) = update_where (\<lambda>r. row_key r = lock_key \<and> row_token r = token)
                                  (\<lambda>r. r\<lparr>row_expires := expires\<rparr>) t
           in (rowcount > 0, t1))"

definition get_by_key :: "string \<Rightarrow> lock_table \<Rightarrow> lock_row option" where
  "get_by_key lock_key t = find (\<lambda>r. row_key r = lock_key) t"

section \<open>The lock object\<close>

record dlock =
  lk_key :: string
  lk_ttl :: int
  lk_token :: string
  lk_owned :: bool
  lk_last_error :: bool

definition new_lock :: "string \<Rightarrow> string \<Rightarrow> string \<Rightarrow> int \<Rightarrow> dlock" where
  "new_lock server_instance uuid_hex lock_key ttl_seconds =
     \<lparr>lk_key = lock_key, lk_ttl = ttl_seconds, lk_token = server_instance @ '':'' @ uuid_hex,
      lk_owned = False, lk_last_error = False\<rparr>"

text \<open>
  How a call on the repository ends: normally, with one of the application's own exceptions
  (re-raised to the caller), or with any other exception (caught).
\<close>

datatype fault = NoFault | AppFault | OtherFault

datatype raised = AppError

definition lock_acquire :: "fault \<Rightarrow> int \<Rightarrow> dlock \<Rightarrow> lock_table \<Rightarrow> (raised + bool) \<times> dlock \<times> lock_table" where
  "lock_acquire f now l t =
     (let l = l\<lparr>lk_last_error := False\<rparr>
      in case f of
           AppFault \<Rightarrow> (Inl AppError, l, t)
         | OtherFault \<Rightarrow> (Inr False, l\<lparr>lk_last_error := True\<rparr>, t)
         | NoFault \<Rightarrow>
             (let inst = hd (split_on CHR '':'' (lk_token l));
                  (result, t1) = repo_acquire now (lk_key l) (lk_token l) inst (lk_ttl l) t
              in if result then (Inr True, l\<lparr>lk_owned := True\<rparr>, t1) else (Inr False, l, t1)))"

definition lock_release :: "bool \<Rightarrow> dlock \<Rightarrow> lock_table \<Rightarrow> dlock \<times> lock_table" where
  "lock_release fault l t =
     (if \<not> lk_owned l then (l, t)
      else (l\<lparr>lk_owned := False\<rparr>, snd (repo_release fault (lk_key l) (lk_token l) t)))"

definition lock_extend :: "bool \<Rightarrow> int \<Rightarrow> int \<Rightarrow> dlock \<Rightarrow> lock_table \<Rightarrow> bool \<times> lock_table" where
  "lock_extend fault now additional_seconds l t =
     (if \<not> lk_owned l then (False, t)
      else repo_extend fault now (lk_key l) (lk_token l) additional_seconds t)"

text \<open>The pause between two heartbeats of \<open>lock_heartbeat\<close>.\<close>

definition heartbeat_interval :: "int \<Rightarrow> int" where
  "heartbeat_interval ttl_seconds = max 5 (ttl_seconds div 3)"

text \<open>
  \<open>with_distributed_lock\<close> around a function: \<open>func\<close> runs on the table (others may change it
  meanwhile) and its own state, and returns a value or raises. \<open>strategy_lock\<close> is the context
  manager form, which runs its body with \<open>False\<close> when the lock is taken.
\<close>

datatype ('e, 'r) guarded = Skipped | LockFailed | LockRaised | Returned 'r | Failed 'e

definition with_distributed_lock ::
  "fault \<Rightarrow> bool \<Rightarrow> int \<Rightarrow> bool \<Rightarrow> (lock_table \<times> 's \<Rightarrow> ('e + 'r) \<times> lock_table \<times> 's) \<Rightarrow>
   dlock \<Rightarrow> lock_table \<times> 's \<Rightarrow> ('e, 'r) guarded \<times> lock_table \<times> 's" where
  "with_distributed_lock f release_fault now skip_on_locked func l ts =
     (case lock_acquire f now l (fst ts) of
        (Inl _, _, t1) \<Rightarrow> (LockRaised, t1, snd ts)
      | (Inr False, _, t1) \<Rightarrow> (if skip_on_locked then Skipped else LockFailed, t1, snd ts)
      | (Inr True, l1, t1) \<Rightarrow>
          (let (result, t2, s2) = func (t1, snd ts);
               (_, t3) = lock_release release_fault l1 t2
           in (case result of Inl e \<Rightarrow> Failed e | Inr r \<Rightarrow> Returned r, t3, s2)))"

definition strategy_lock ::
  "fault \<Rightarrow> bool \<Rightarrow> int \<Rightarrow> (bool \<Rightarrow> lock_table \<times> 's \<Rightarrow> ('e + 'r) \<times> lock_table \<times> 's) \<Rightarrow>
   dlock \<Rightarrow> lock_table \<times> 's \<Rightarrow> ('e, 'r) guarded \<times> lock_table \<times> 's" where
  "strategy_lock f release_fault now body l ts =
     (case lock_acquire f now l (fst ts) of
        (Inl _, _, t1) \<Rightarrow> (LockRaised, t1, snd ts)
      | (Inr False, _, t1) \<Rightarrow>
          (let (result, t2, s2) = body False (t1, snd ts)
           in (case result of Inl e \<Rightarrow> Failed e | Inr r \<Rightarrow> Returned r, t2, s2))
      | (Inr True, l1, t1) \<Rightarrow>
          (let (result, t2, s2) = body True (t1, snd ts);
               (_, t3) = lock_release release_fault l1 t2
           in (case result of Inl e \<Rightarrow> Failed e | Inr r \<Rightarrow> Returned r, t3, s2)))"

section \<open>The table as leases\<close>

definition table_inv :: "lock_table \<Rightarrow> bool" where
  "table_inv t = distinct (map row_key t)"

definition lease :: "lock_table \<Rightarrow> string \<Rightarrow> (string \<times> int) option" where
  "lease t k = map_option (\<lambda>r. (row_token r, row_expires r)) (get_by_key k t)"

lemma lease_Nil [simp]: "lease [] k = None"
  by (simp add: lease_def get_by_key_def)

lemma lease_Cons [simp]:
  "lease (r # t) k = (if row_key r = k then Some (row_token r, row_expires r) else lease t k)"
  by (simp add: lease_def get_by_key_def)

lemma lease_append: "lease (t @ [r]) k =
   (case lease t k of None \<Rightarrow> if row_key r = k then Some (row_token r, row_expires r) else None | Some x \<Rightarrow> Some x)"
  by (induction t) auto

lemma lease_None: "lease t k = None \<longleftrightarrow> k \<notin> row_key ` set t"
  by (induction t) auto

lemma lease_row: "table_inv t \<Longrightarrow> r \<in> set t \<Longrightarrow> lease t (row_key r) = Some (row_token r, row_expires r)"
  by (induction t) (auto simp: table_inv_def)

lemma table_inv_map:
  "(\<And>r. row_key (f r) = row_key r) \<Longrightarrow> table_inv (map f t) = table_inv t"
  by (simp add: table_inv_def comp_def)

lemma count_where: "0 < length (filter p t) \<longleftrightarrow> (\<exists>r \<in> set t. p r)"
  by (auto simp: filter_empty_conv)

text \<open>An update of the rows selected by key and a test on their lease.\<close>

lemma lease_update:
  assumes "table_inv t" and "\<And>r. row_key (f r) = row_key r"
  shows "lease (map (\<lambda>r. if row_key r = k \<and> q r then f r else r) t) k' =
    (if k' = k then (case get_by_key k t of None \<Rightarrow> None
        | Some r \<Rightarrow> if q r then Some (row_token (f r), row_expires (f r)) else Some (row_token r, row_expires r))
     else lease t k')"
  using assms(1) by (induction t) (auto simp: assms(2) table_inv_def get_by_key_def)

lemma get_by_key_key: "get_by_key k t = Some r \<Longrightarrow> row_key r = k \<and> r \<in> set t"
  by (auto simp: get_by_key_def find_Some_iff)

lemma get_by_key_None: "get_by_key k t = None \<longleftrightarrow> k \<notin> row_key ` set t"
  by (auto simp: get_by_key_def find_None_iff)

lemma get_by_key_row: "table_inv t \<Longrightarrow> r \<in> set t \<Longrightarrow> get_by_key (row_key r) t = Some r"
  by (induction t) (auto simp: table_inv_def get_by_key_def)

lemma exists_row:
  assumes "table_inv t"
  shows "(\<exists>r\<in>set t. row_key r = k \<and> q r) = (case get_by_key k t of None \<Rightarrow> False | Some r \<Rightarrow> q r)"
proof (cases "get_by_key k t")
  case None
  then have "k \<notin> row_key ` set t" by (simp only: get_by_key_None not_False_eq_True)
  then show ?thesis by (simp add: None) blast
next
  case (Some r)
  then have r: "row_key r = k" "r \<in> set t" by (simp_all add: get_by_key_key)
  have uniq: "r' = r" if "r' \<in> set t" "row_key r' = k" for r'
    using get_by_key_row [OF assms that(1)] that(2) Some by simp
  have "(\<exists>r'\<in>set t. row_key r' = k \<and> q r') = q r"
    by (rule iffI, (elim bexE conjE, drule (1) uniq, hypsubst, assumption)) (rule bexI [OF _ r(2)], simp add: r(1))
  then show ?thesis by (simp add: Some)
qed

lemma repo_acquire_spec:
  assumes "table_inv t"
  shows "repo_acquire now k tok inst ttl t =
    (b, t') \<Longrightarrow> table_inv t' \<and>
      (if b then (case lease t k of None \<Rightarrow> True | Some (_, e) \<Rightarrow> e < now) \<and> lease t' = (lease t)(k \<mapsto> (tok, now + ttl))
       else (case lease t k of None \<Rightarrow> False | Some (_, e) \<Rightarrow> now \<le> e) \<and> t' = t)"
proof -
  assume eq: "repo_acquire now k tok inst ttl t = (b, t')"
  define f :: "lock_row \<Rightarrow> lock_row" where
    "f = (\<lambda>r. r\<lparr>row_token := tok, row_instance := inst, row_expires := now + ttl\<rparr>)"
  define q :: "lock_row \<Rightarrow> bool" where "q = (\<lambda>r. row_expires r < now)"
  define t1 where "t1 = map (\<lambda>r. if row_key r = k \<and> q r then f r else r) t"
  have fkey: "row_key (f r) = row_key r" for r by (simp add: f_def)
  have mk: "map row_key t1 = map row_key t" by (simp add: t1_def fkey)
  then have t1: "table_inv t1" "row_key ` set t1 = row_key ` set t"
    using assms by (simp_all only: table_inv_def list.set_map [symmetric])
  have eq: "(if 0 < length (filter (\<lambda>r. row_key r = k \<and> q r) t) then (True, t1)
      else (case insert_row \<lparr>row_key = k, row_token = tok, row_instance = inst, row_expires = now + ttl\<rparr> t1 of
              Some t2 \<Rightarrow> (True, t2) | None \<Rightarrow> (False, t1))) = (b, t')"
    using eq by (simp only: repo_acquire_def update_where_def Let_def prod.case t1_def f_def q_def)
  note up = lease_update [OF assms fkey, of k q, folded t1_def]
  show ?thesis
  proof (cases "get_by_key k t")
    case None
    then have no: "k \<notin> row_key ` set t" by (metis lease_None lease_def option.map(1))
    then have "t1 = t" by (auto simp: t1_def intro!: map_idI)
    moreover have "filter (\<lambda>r. row_key r = k \<and> q r) t = []" using no by (auto simp: filter_empty_conv)
    ultimately have "t' = t @ [\<lparr>row_key = k, row_token = tok, row_instance = inst, row_expires = now + ttl\<rparr>]" "b"
      using eq no by (auto simp: insert_row_def)
    with no assms show ?thesis
      by (auto simp: table_inv_def lease_append fun_eq_iff lease_None [THEN iffD2] split: option.splits)
  next
    case (Some r)
    then have r: "row_key r = k" "r \<in> set t" using get_by_key_key by auto
    have lk: "lease t k = Some (row_token r, row_expires r)" using Some by (simp add: lease_def)
    show ?thesis
    proof (cases "q r")
      case True
      then have "0 < length (filter (\<lambda>r. row_key r = k \<and> q r) t)" using r by (auto simp: filter_empty_conv)
      then have "b" "t' = t1"
        using eq by auto
      with True up Some lk t1 show ?thesis by (auto simp: fun_eq_iff f_def q_def)
    next
      case False
      then have none: "\<forall>r\<in>set t. \<not> (row_key r = k \<and> q r)"
        using exists_row [OF assms, of k q] Some by auto
      then have "filter (\<lambda>r. row_key r = k \<and> q r) t = []" "t1 = t"
        by (auto simp: filter_empty_conv t1_def intro!: map_idI)
      with r eq have "\<not> b" "t' = t"
        by (auto simp: insert_row_def split: if_splits)
      with False lk assms show ?thesis by (auto simp: q_def)
    qed
  qed
qed

lemma repo_acquire_inv: "table_inv t \<Longrightarrow> table_inv (snd (repo_acquire now k tok inst ttl t))"
  using repo_acquire_spec [of t now k tok inst ttl] by (metis prod.collapse)

lemma repo_release_spec:
  assumes "table_inv t"
  shows "table_inv (snd (repo_release f k tok t))"
    and "fst (repo_release False k tok t) = (\<exists>e. lease t k = Some (tok, e))"
    and "lease (snd (repo_release False k tok t)) =
      (if \<exists>e. lease t k = Some (tok, e) then (lease t)(k := None) else lease t)"
proof -
  show "table_inv (snd (repo_release f k tok t))"
    using assms by (simp add: repo_release_def delete_where_def table_inv_def distinct_map_filter)
  show "fst (repo_release False k tok t) = (\<exists>e. lease t k = Some (tok, e))"
    using exists_row [OF assms, of k "\<lambda>r. row_token r = tok"]
    by (auto simp: repo_release_def delete_where_def lease_def filter_empty_conv split: option.splits)
  have drop: "lease (filter (\<lambda>r. \<not> (row_key r = k \<and> row_token r = tok)) t) k' =
      (if k' = k \<and> (\<exists>e. lease t k = Some (tok, e)) then None else lease t k')" for k'
    using assms by (induction t) (auto simp: table_inv_def lease_None)
  then show "lease (snd (repo_release False k tok t)) =
      (if \<exists>e. lease t k = Some (tok, e) then (lease t)(k := None) else lease t)"
    by (auto simp: repo_release_def delete_where_def fun_eq_iff)
qed

lemma repo_extend_spec:
  assumes "table_inv t"
  shows "table_inv (snd (repo_extend f now k tok n t))"
    and "fst (repo_extend False now k tok n t) = (\<exists>e. lease t k = Some (tok, e))"
    and "lease (snd (repo_extend False now k tok n t)) =
      (if \<exists>e. lease t k = Some (tok, e) then (lease t)(k \<mapsto> (tok, now + n)) else lease t)"
proof -
  define g :: "lock_row \<Rightarrow> lock_row" where "g = (\<lambda>r. r\<lparr>row_expires := now + n\<rparr>)"
  have g: "row_key (g r) = row_key r" "row_token (g r) = row_token r" for r by (simp_all add: g_def)
  have upd: "repo_extend False now k tok n t =
     (0 < length (filter (\<lambda>r. row_key r = k \<and> row_token r = tok) t),
      map (\<lambda>r. if row_key r = k \<and> row_token r = tok then g r else r) t)"
    by (simp add: repo_extend_def update_where_def g_def)
  have "table_inv (map (\<lambda>r. if row_key r = k \<and> row_token r = tok then g r else r) t)"
    by (subst table_inv_map) (simp_all add: g assms)
  then show "table_inv (snd (repo_extend f now k tok n t))"
    using upd assms by (cases f) (simp_all add: repo_extend_def)
  show "fst (repo_extend False now k tok n t) = (\<exists>e. lease t k = Some (tok, e))"
    using exists_row [OF assms, of k "\<lambda>r. row_token r = tok"]
    by (auto simp: upd lease_def filter_empty_conv split: option.splits)
  show "lease (snd (repo_extend False now k tok n t)) =
      (if \<exists>e. lease t k = Some (tok, e) then (lease t)(k \<mapsto> (tok, now + n)) else lease t)"
    unfolding upd snd_conv
    by (rule ext, subst lease_update [OF assms g(1), of k "\<lambda>r. row_token r = tok"])
      (auto simp: lease_def g_def split: option.splits)
qed

section \<open>The contract of leased locks\<close>

locale lease_lock =
  fixes acq :: "int \<Rightarrow> string \<Rightarrow> string \<Rightarrow> string \<Rightarrow> int \<Rightarrow> 's \<Rightarrow> bool \<times> 's"
    and rel :: "string \<Rightarrow> string \<Rightarrow> 's \<Rightarrow> bool \<times> 's"
    and ext :: "int \<Rightarrow> string \<Rightarrow> string \<Rightarrow> int \<Rightarrow> 's \<Rightarrow> bool \<times> 's"
    and leased :: "'s \<Rightarrow> string \<Rightarrow> (string \<times> int) option"
    and inv :: "'s \<Rightarrow> bool"
  assumes acq_inv: "inv s \<Longrightarrow> inv (snd (acq now k tok i ttl s))"
    and acq_True: "inv s \<Longrightarrow> acq now k tok i ttl s = (True, s') \<Longrightarrow>
        (\<forall>tok' e. leased s k = Some (tok', e) \<longrightarrow> e < now) \<and> leased s' = (leased s)(k \<mapsto> (tok, now + ttl))"
    and acq_False: "inv s \<Longrightarrow> acq now k tok i ttl s = (False, s') \<Longrightarrow> s' = s"
    and acq_lapsed: "inv s \<Longrightarrow> (\<forall>tok' e. leased s k = Some (tok', e) \<longrightarrow> e < now) \<Longrightarrow> fst (acq now k tok i ttl s)"
    and rel_inv: "inv s \<Longrightarrow> inv (snd (rel k tok s))"
    and rel_lease: "inv s \<Longrightarrow> leased (snd (rel k tok s)) =
        (if \<exists>e. leased s k = Some (tok, e) then (leased s)(k := None) else leased s)"
    and ext_inv: "inv s \<Longrightarrow> inv (snd (ext now k tok n s))"
    and ext_result: "inv s \<Longrightarrow> fst (ext now k tok n s) = (\<exists>e. leased s k = Some (tok, e))"
    and ext_lease: "inv s \<Longrightarrow> leased (snd (ext now k tok n s)) =
        (if \<exists>e. leased s k = Some (tok, e) then (leased s)(k \<mapsto> (tok, now + n)) else leased s)"
begin

text \<open>A token's lease on a key runs until \<open>e\<close>.\<close>

definition secured :: "'s \<Rightarrow> string \<Rightarrow> string \<Rightarrow> int \<Rightarrow> bool" where
  "secured s k tok e \<longleftrightarrow> leased s k = Some (tok, e)"

lemma secured_exclusive: "secured s k tok e \<Longrightarrow> secured s k tok' e' \<Longrightarrow> tok = tok'"
  by (simp add: secured_def)

lemma acq_secures: "inv s \<Longrightarrow> acq now k tok i ttl s = (True, s') \<Longrightarrow> secured s' k tok (now + ttl)"
  by (simp add: secured_def acq_True)

lemma acq_blocked: "inv s \<Longrightarrow> secured s k tok' e \<Longrightarrow> now \<le> e \<Longrightarrow> acq now k tok i ttl s = (False, s)"
proof -
  assume s: "inv s" and e: "secured s k tok' e" "now \<le> e"
  obtain b s' where bs: "acq now k tok i ttl s = (b, s')" by fastforce
  have "\<not> b" using acq_True [OF s, of now k tok i ttl s'] bs e by (auto simp: secured_def)
  with bs acq_False [OF s, of now k tok i ttl s'] show ?thesis by simp
qed

text \<open>An acquisition leaves every unexpired lease alone.\<close>

lemma acq_keeps: "inv s \<Longrightarrow> secured s k tok e \<Longrightarrow> now \<le> e \<Longrightarrow> secured (snd (acq now k' tok' i ttl s)) k tok e"
proof -
  assume s: "inv s" and e: "secured s k tok e" "now \<le> e"
  obtain b s' where bs: "acq now k' tok' i ttl s = (b, s')" by fastforce
  show ?thesis
  proof (cases b)
    case True
    with bs have "acq now k' tok' i ttl s = (True, s')" by simp
    from acq_True [OF s this] e bs show ?thesis by (cases "k = k'") (auto simp: secured_def)
  next
    case False
    with bs acq_False [OF s, of now k' tok' i ttl s'] e show ?thesis by simp
  qed
qed

lemma rel_keeps: "inv s \<Longrightarrow> secured s k tok e \<Longrightarrow> tok' \<noteq> tok \<or> k' \<noteq> k \<Longrightarrow> secured (snd (rel k' tok' s)) k tok e"
  by (auto simp: secured_def rel_lease)

lemma ext_keeps: "inv s \<Longrightarrow> secured s k tok e \<Longrightarrow> tok' \<noteq> tok \<or> k' \<noteq> k \<Longrightarrow> secured (snd (ext now k' tok' n s)) k tok e"
  by (auto simp: secured_def ext_lease)

lemma ext_secures: "inv s \<Longrightarrow> fst (ext now k tok n s) \<Longrightarrow> secured (snd (ext now k tok n s)) k tok (now + n)"
  by (auto simp: secured_def ext_lease ext_result)

lemma ext_lost: "inv s \<Longrightarrow> secured s k tok e \<Longrightarrow> fst (ext now k tok n s)"
  by (auto simp: secured_def ext_result)

end

interpretation db: lease_lock repo_acquire "repo_release False" "repo_extend False" lease table_inv
proof (unfold_locales, goal_cases)
  case (1 s now k tok i ttl)
  then show ?case by (rule repo_acquire_inv)
next
  case (2 s now k tok i ttl s')
  from repo_acquire_spec [OF this] show ?case by (auto split: option.splits)
next
  case (3 s now k tok i ttl s')
  from repo_acquire_spec [OF this] show ?case by simp
next
  case (4 s k now tok i ttl)
  obtain b s' where "repo_acquire now k tok i ttl s = (b, s')" by fastforce
  with repo_acquire_spec [OF 4(1) this] 4(2) show ?case by (cases b) (auto split: option.splits)
qed (simp_all add: repo_release_spec repo_extend_spec)

section \<open>Several clients\<close>

text \<open>
  Any number of lock objects (of any processes) over one table, with the ghost field \<open>lw_until\<close>: the
  end of the last lease that \<open>acquire\<close> or \<open>extend\<close> confirmed. A step is one call on one lock object,
  with any fault, or the passing of time.
\<close>

record lock_world =
  lw_clock :: int
  lw_table :: lock_table
  lw_locks :: "nat \<Rightarrow> dlock"
  lw_until :: "nat \<Rightarrow> int"

definition world_init :: "(nat \<Rightarrow> dlock) \<Rightarrow> lock_world \<Rightarrow> bool" where
  "world_init locks w \<longleftrightarrow> lw_table w = [] \<and> lw_locks w = locks \<and> (\<forall>i. \<not> lk_owned (locks i))"

inductive lock_step :: "lock_world \<Rightarrow> lock_world \<Rightarrow> bool" where
  tick: "0 \<le> d \<Longrightarrow> lock_step w (w\<lparr>lw_clock := lw_clock w + d\<rparr>)"
| acquire: "lock_acquire f (lw_clock w) (lw_locks w i) (lw_table w) = (r, l, t) \<Longrightarrow>
    lock_step w (w\<lparr>lw_table := t, lw_locks := (lw_locks w)(i := l),
      lw_until := (if r = Inr True then (lw_until w)(i := lw_clock w + lk_ttl (lw_locks w i)) else lw_until w)\<rparr>)"
| release: "lock_release fault (lw_locks w i) (lw_table w) = (l, t) \<Longrightarrow>
    lock_step w (w\<lparr>lw_table := t, lw_locks := (lw_locks w)(i := l)\<rparr>)"
| extend: "lock_extend fault (lw_clock w) n (lw_locks w i) (lw_table w) = (b, t) \<Longrightarrow>
    lock_step w (w\<lparr>lw_table := t,
      lw_until := (if b then (lw_until w)(i := lw_clock w + n) else lw_until w)\<rparr>)"

inductive lock_reach :: "(nat \<Rightarrow> dlock) \<Rightarrow> lock_world \<Rightarrow> bool" for locks where
  init: "world_init locks w \<Longrightarrow> lock_reach locks w"
| step: "lock_reach locks w \<Longrightarrow> lock_step w w' \<Longrightarrow> lock_reach locks w'"

definition holding :: "lock_world \<Rightarrow> nat \<Rightarrow> bool" where
  "holding w i \<longleftrightarrow> lk_owned (lw_locks w i) \<and> lw_clock w \<le> lw_until w i"

text \<open>Every lock believed to be held, and not past its lease, is the row of its key.\<close>

definition world_inv :: "(nat \<Rightarrow> dlock) \<Rightarrow> lock_world \<Rightarrow> bool" where
  "world_inv locks w \<longleftrightarrow> table_inv (lw_table w) \<and>
     (\<forall>i. lk_key (lw_locks w i) = lk_key (locks i) \<and> lk_token (lw_locks w i) = lk_token (locks i) \<and>
          lk_ttl (lw_locks w i) = lk_ttl (locks i)) \<and>
     (\<forall>i. holding w i \<longrightarrow> db.secured (lw_table w) (lk_key (locks i)) (lk_token (locks i)) (lw_until w i))"

lemma lock_acquire_cases:
  assumes "lock_acquire f now l t = (r, l', t')" and "table_inv t"
  obtains (got) "r = Inr True" "lk_owned l'" "lk_key l' = lk_key l" "lk_token l' = lk_token l" "lk_ttl l' = lk_ttl l"
      "repo_acquire now (lk_key l) (lk_token l) (hd (split_on CHR '':'' (lk_token l))) (lk_ttl l) t = (True, t')"
  | (not) "r \<noteq> Inr True" "lk_owned l' = lk_owned l" "lk_key l' = lk_key l" "lk_token l' = lk_token l"
      "lk_ttl l' = lk_ttl l" "t' = t"
proof (cases f)
  case NoFault
  obtain b t1 where bt: "repo_acquire now (lk_key l) (lk_token l) (hd (split_on CHR '':'' (lk_token l))) (lk_ttl l) t = (b, t1)"
    by fastforce
  show thesis
  proof (cases b)
    case True
    with NoFault bt assms(1) show thesis by (intro got) (auto simp: lock_acquire_def Let_def)
  next
    case False
    have "repo_acquire now (lk_key l) (lk_token l) (hd (split_on CHR '':'' (lk_token l))) (lk_ttl l) t = (False, t1)"
      using bt False by simp
    then have "t1 = t" by (rule db.acq_False [OF assms(2)])
    with NoFault bt False assms(1) show thesis by (intro not) (auto simp: lock_acquire_def Let_def)
  qed
qed (use assms(1) in \<open>auto intro!: not simp: lock_acquire_def Let_def\<close>)

lemma world_inv_tick: "world_inv locks w \<Longrightarrow> 0 \<le> d \<Longrightarrow> world_inv locks (w\<lparr>lw_clock := lw_clock w + d\<rparr>)"
  by (auto simp: world_inv_def holding_def)

lemma world_inv_acquire:
  assumes inv: "world_inv locks w" and inj: "inj (\<lambda>i. lk_token (locks i))"
    and acq: "lock_acquire f (lw_clock w) (lw_locks w i) (lw_table w) = (r, l, t)"
  shows "world_inv locks (w\<lparr>lw_table := t, lw_locks := (lw_locks w)(i := l),
      lw_until := (if r = Inr True then (lw_until w)(i := lw_clock w + lk_ttl (lw_locks w i)) else lw_until w)\<rparr>)"
proof -
  have t: "table_inv (lw_table w)" using inv by (simp add: world_inv_def)
  from acq t show ?thesis
  proof (cases rule: lock_acquire_cases)
    case got
    have sec: "db.secured t (lk_key (locks i)) (lk_token (locks i)) (lw_clock w + lk_ttl (lw_locks w i))"
      using db.acq_secures [OF t got(6)] inv by (simp add: world_inv_def)
    have keep: "db.secured t (lk_key (locks j)) (lk_token (locks j)) (lw_until w j)" if "holding w j" for j
      using db.acq_keeps [OF t, of "lk_key (locks j)" "lk_token (locks j)" "lw_until w j" "lw_clock w"
          "lk_key (lw_locks w i)" "lk_token (lw_locks w i)" "hd (split_on CHR '':'' (lk_token (lw_locks w i)))"
          "lk_ttl (lw_locks w i)"] that inv got(6) by (simp add: world_inv_def holding_def)
    have "table_inv t" using db.acq_inv [OF t] got(6) by (metis snd_conv)
    with sec keep inv got show ?thesis by (auto simp: world_inv_def holding_def)
  next
    case not
    with inv show ?thesis by (auto simp: world_inv_def holding_def)
  qed
qed

lemma world_inv_release:
  assumes inv: "world_inv locks w" and inj: "inj (\<lambda>i. lk_token (locks i))"
    and rel: "lock_release fault (lw_locks w i) (lw_table w) = (l, t)"
  shows "world_inv locks (w\<lparr>lw_table := t, lw_locks := (lw_locks w)(i := l)\<rparr>)"
proof (cases "lk_owned (lw_locks w i)")
  case False
  with rel have "l = lw_locks w i" "t = lw_table w" by (auto simp: lock_release_def)
  with inv show ?thesis by (auto simp: world_inv_def holding_def)
next
  case True
  have t: "table_inv (lw_table w)" using inv by (simp add: world_inv_def)
  from rel True have l: "l = (lw_locks w i)\<lparr>lk_owned := False\<rparr>"
    and t': "t = snd (repo_release fault (lk_key (lw_locks w i)) (lk_token (lw_locks w i)) (lw_table w))"
    by (auto simp: lock_release_def)
  have ti: "table_inv t" unfolding t' by (rule repo_release_spec(1) [OF t])
  have tok: "lk_token (lw_locks w i) \<noteq> lk_token (locks j)" if "j \<noteq> i" for j
    using inj that inv by (auto simp: world_inv_def inj_def)
  have "db.secured t (lk_key (locks j)) (lk_token (locks j)) (lw_until w j)" if "holding w j" "j \<noteq> i" for j
  proof (cases fault)
    case True
    with that inv t' show ?thesis by (simp add: repo_release_def world_inv_def)
  next
    case False
    with that inv tok [OF that(2)] show ?thesis
      by (auto simp: t' world_inv_def intro!: db.rel_keeps [OF t])
  qed
  with inv l ti show ?thesis by (auto simp: world_inv_def holding_def)
qed

lemma world_inv_extend:
  assumes inv: "world_inv locks w" and inj: "inj (\<lambda>i. lk_token (locks i))"
    and ex: "lock_extend fault (lw_clock w) n (lw_locks w i) (lw_table w) = (b, t)"
  shows "world_inv locks (w\<lparr>lw_table := t,
      lw_until := (if b then (lw_until w)(i := lw_clock w + n) else lw_until w)\<rparr>)"
proof (cases "lk_owned (lw_locks w i) \<and> \<not> fault")
  case False
  with ex have "\<not> b" "t = lw_table w" by (auto simp: lock_extend_def repo_extend_def split: if_splits)
  with inv show ?thesis by (auto simp: world_inv_def holding_def)
next
  case True
  have t: "table_inv (lw_table w)" using inv by (simp add: world_inv_def)
  define k where "k = lk_key (locks i)"
  define tok where "tok = lk_token (locks i)"
  have e: "repo_extend False (lw_clock w) k tok n (lw_table w) = (b, t)"
    using ex True inv by (simp add: lock_extend_def world_inv_def k_def tok_def)
  have ti: "table_inv t" using db.ext_inv [OF t] e by (metis snd_conv)
  have other: "db.secured t (lk_key (locks j)) (lk_token (locks j)) (lw_until w j)" if "holding w j" "j \<noteq> i" for j
  proof -
    have "lk_token (locks j) \<noteq> tok" using inj that by (auto simp: inj_def tok_def)
    then show ?thesis using db.ext_keeps [OF t, of _ _ _ tok k "lw_clock w" n] that inv e
      by (fastforce simp: world_inv_def)
  qed
  have own: "db.secured t k tok (lw_clock w + n)" if b
    using db.ext_secures [OF t, of "lw_clock w" k tok n] e that by simp
  have lost: "\<not> holding w i" if "\<not> b"
    using db.ext_lost [OF t, of k tok _ "lw_clock w" n] e that inv by (auto simp: world_inv_def k_def tok_def)
  show ?thesis
  proof (cases b)
    case True
    with inv ti other own show ?thesis by (auto simp: world_inv_def holding_def k_def tok_def)
  next
    case False
    with inv ti other lost show ?thesis by (fastforce simp: world_inv_def holding_def)
  qed
qed

lemma world_inv_step:
  assumes "world_inv locks w" and "inj (\<lambda>i. lk_token (locks i))" and "lock_step w w'"
  shows "world_inv locks w'"
  using assms(3)
proof (cases rule: lock_step.cases)
  case (tick d)
  with assms show ?thesis by (simp add: world_inv_tick)
next
  case (acquire f i r l t)
  with assms show ?thesis by (simp only: world_inv_acquire)
next
  case (release fault i l t)
  with assms show ?thesis by (simp only: world_inv_release)
next
  case (extend fault n i b t)
  with assms show ?thesis by (simp only: world_inv_extend)
qed

lemma world_inv_reach:
  assumes "inj (\<lambda>i. lk_token (locks i))"
  shows "lock_reach locks w \<Longrightarrow> world_inv locks w"
proof (induction rule: lock_reach.induct)
  case (init w)
  then show ?case by (simp add: world_init_def world_inv_def holding_def table_inv_def)
next
  case (step w w')
  then show ?case using world_inv_step assms by blast
qed

section \<open>Properties\<close>

text \<open>C1: Mutual exclusion: whatever the interleaving of acquisitions, releases, extensions, faults
  and the passing of time, two lock objects with different tokens never both hold an unexpired lease
  on one key.\<close>

theorem lock_mutual_exclusion:
  assumes "inj (\<lambda>i. lk_token (locks i))" and "lock_reach locks w"
    and "holding w i" and "holding w j" and "lk_key (locks i) = lk_key (locks j)"
  shows "i = j"
proof -
  note inv = world_inv_reach [OF assms(1,2)]
  have "db.secured (lw_table w) (lk_key (locks i)) (lk_token (locks i)) (lw_until w i)"
    "db.secured (lw_table w) (lk_key (locks i)) (lk_token (locks j)) (lw_until w j)"
    using inv assms(3-5) by (auto simp: world_inv_def)
  from db.secured_exclusive [OF this] assms(1) show ?thesis by (auto simp: inj_def)
qed

definition demo_locks :: "nat \<Rightarrow> dlock" where
  "demo_locks i = \<lparr>lk_key = ''k'', lk_ttl = 60, lk_token = replicate i CHR ''x'', lk_owned = False,
     lk_last_error = False\<rparr>"

theorem lock_mutual_exclusion_witness:
  "\<exists>w. lock_reach demo_locks w \<and> holding w 1 \<and> (\<forall>j. holding w j \<longrightarrow> 1 = j)"
proof -
  define w0 where "w0 = \<lparr>lw_clock = 0, lw_table = [], lw_locks = demo_locks, lw_until = (\<lambda>_. -1)\<rparr>"
  obtain r l t where a: "lock_acquire NoFault (lw_clock w0) (lw_locks w0 1) (lw_table w0) = (r, l, t)"
    by (metis prod.collapse)
  define w where "w = w0\<lparr>lw_table := t, lw_locks := (lw_locks w0)(1 := l),
      lw_until := (if r = Inr True then (lw_until w0)(1 := lw_clock w0 + lk_ttl (lw_locks w0 1)) else lw_until w0)\<rparr>"
  have "world_init demo_locks w0" by (simp add: world_init_def w0_def demo_locks_def)
  then have reach: "lock_reach demo_locks w"
    unfolding w_def by (rule lock_reach.step [OF lock_reach.init lock_step.acquire [OF a]])
  have "r = Inr True" "lk_owned l"
    using a by (auto simp: w0_def lock_acquire_def demo_locks_def repo_acquire_def update_where_def insert_row_def)
  then have hold: "holding w 1" by (simp add: w_def w0_def holding_def demo_locks_def)
  have inj: "inj (\<lambda>i. lk_token (demo_locks i))"
    by (auto simp: inj_def demo_locks_def dest!: arg_cong [of _ _ length])
  have "1 = j" if "holding w j" for j
    using lock_mutual_exclusion [OF inj reach hold that] by (simp add: demo_locks_def)
  with reach hold show ?thesis by blast
qed

text \<open>The heartbeat keeps a lease alive exactly when the time to live is at least five seconds: a
  rival that tries as late as the first heartbeat is refused if and only if \<open>5 \<le> ttl\<close>.\<close>

theorem heartbeat_protects_iff:
  assumes "table_inv t" and "repo_acquire t0 k tok inst ttl t = (True, t1)"
  shows "fst (repo_acquire (t0 + heartbeat_interval ttl) k rival inst' ttl' t1) = (ttl < 5)"
proof -
  have t1: "table_inv t1" using db.acq_inv [OF assms(1)] assms(2) by (metis snd_conv)
  have sec: "db.secured t1 k tok (t0 + ttl)" using db.acq_secures [OF assms] .
  show ?thesis
  proof (cases "ttl < 5")
    case True
    then have "t0 + ttl < t0 + heartbeat_interval ttl" by (simp add: heartbeat_interval_def)
    with db.acq_lapsed [OF t1] sec True show ?thesis by (auto simp: db.secured_def)
  next
    case False
    then have "t0 + heartbeat_interval ttl \<le> t0 + ttl" by (simp add: heartbeat_interval_def)
    from db.acq_blocked [OF t1 sec this] False show ?thesis by simp
  qed
qed

theorem heartbeat_protects_iff_witness:
  "\<not> fst (repo_acquire (100 + heartbeat_interval 60) ''k'' ''b'' [] 60
     (snd (repo_acquire 100 ''k'' ''a'' [] 60 []))) \<and>
   fst (repo_acquire (100 + heartbeat_interval 3) ''k'' ''b'' [] 60
     (snd (repo_acquire 100 ''k'' ''a'' [] 3 [])))"
proof -
  have inv: "table_inv []" by (simp add: table_inv_def)
  have "repo_acquire 100 ''k'' ''a'' [] n [] = (True, snd (repo_acquire 100 ''k'' ''a'' [] n []))" for n
    by (simp add: repo_acquire_def update_where_def insert_row_def)
  from heartbeat_protects_iff [OF inv this, of 60 "''b''" "[]" 60] heartbeat_protects_iff [OF inv this, of 3 "''b''" "[]" 60]
  show ?thesis by simp
qed

text \<open>A function guarded by \<open>with_distributed_lock\<close> runs at most once and only with the lock; when
  it ends, normally or with an exception, no row with this lock's token is left; when the lock is
  refused or cannot be asked for, neither the table nor the function's state changes.\<close>

theorem with_lock_always_releases:
  "(case with_distributed_lock f False now skip func l (t, s) of
      (Returned r, t', s') \<Rightarrow> (\<exists>t1 t2. fst (repo_acquire now (lk_key l) (lk_token l) (hd (split_on CHR '':'' (lk_token l))) (lk_ttl l) t)
          \<and> func (t1, s) = (Inr r, t2, s') \<and> t' = filter (\<lambda>r. \<not> (row_key r = lk_key l \<and> row_token r = lk_token l)) t2)
    | (Failed e, t', s') \<Rightarrow> (\<exists>t1 t2. fst (repo_acquire now (lk_key l) (lk_token l) (hd (split_on CHR '':'' (lk_token l))) (lk_ttl l) t)
          \<and> func (t1, s) = (Inl e, t2, s') \<and> t' = filter (\<lambda>r. \<not> (row_key r = lk_key l \<and> row_token r = lk_token l)) t2)
    | (_, t', s') \<Rightarrow> t' = t \<and> s' = s)"
proof -
  obtain b t1 where bt: "repo_acquire now (lk_key l) (lk_token l) (hd (split_on CHR '':'' (lk_token l))) (lk_ttl l) t = (b, t1)"
    by fastforce
  have refused: "t1 = t" if "\<not> b"
    using bt that by (auto simp: repo_acquire_def update_where_def insert_row_def Let_def filter_empty_conv
        intro!: map_idI split: if_splits option.splits)
  obtain res t2 s2 where func: "func (t1, s) = (res, t2, s2)" by (metis prod.collapse)
  show ?thesis
    using bt refused func
    by (cases f; cases b; cases res)
       (auto simp: with_distributed_lock_def lock_acquire_def lock_release_def repo_release_def delete_where_def Let_def)
qed

end
