(* ===== verification/TaskQueue.thy ===== *)
theory TaskQueue
  imports PyVal
begin

text \<open>
  The task queue (\<open>infrastructure/task_queue/models.py\<close>, \<open>memory_queue.py\<close>, \<open>worker.py\<close>): tasks
  with their states, the in-process queue \<open>MemoryTaskQueue\<close> (a heap of ready entries, a table of
  tasks, a table of deduplication keys) and the worker's handling of one task.

  The heap holds triples compared by negated priority, then sequence number, then id; it is the
  list of its entries in ascending order, so that \<open>heappop\<close> takes the head and \<open>heappush\<close> inserts
  in order. A task a caller holds is a copy; only its id and its type are used by the calls it is
  passed to. The wait of \<open>claim\<close> for a notification is over when the model's \<open>claim\<close> starts.

  The locale \<open>task_queue\<close> is what the worker relies on: \<open>ack\<close> and \<open>fail\<close> settle the task they name
  and leave every other task alone. It is interpreted on the memory queue.
\<close>

section \<open>Tasks\<close>

definition retry_delay_seconds :: "int \<Rightarrow> rat \<Rightarrow> rat \<Rightarrow> rat" where
  "retry_delay_seconds attempts base cap = min (base * 2 ^ nat (max 0 (attempts - 1))) cap"

datatype task_status = QUEUED | RUNNING | SUCCEEDED | FAILED | CANCELLED | DEAD

definition terminal :: "task_status \<Rightarrow> bool" where
  "terminal s = (s \<in> {SUCCEEDED, FAILED, CANCELLED, DEAD})"

lemma terminal_iff: "terminal s \<longleftrightarrow> s \<noteq> QUEUED \<and> s \<noteq> RUNNING"
  by (cases s) (auto simp: terminal_def)

record task =
  t_id :: string
  t_queue :: string
  t_type :: string
  t_payload :: pydict
  t_dedup :: string
  t_priority :: int
  t_attempts :: int
  t_max :: int
  t_status :: task_status
  t_stream :: string
  t_created :: time
  t_updated :: time
  t_owner :: string
  t_lease :: time
  t_error :: string
  t_retry_at :: time
  t_result :: "pydict option"

definition task_create ::
  "time \<Rightarrow> string \<Rightarrow> string \<Rightarrow> string \<Rightarrow> pydict \<Rightarrow> string \<Rightarrow> int \<Rightarrow> int \<Rightarrow> string option \<Rightarrow> task" where
  "task_create now uuid_hex queue_name task_type payload dedup_key priority max_attempts task_id =
     \<lparr>t_id = (case task_id of None \<Rightarrow> uuid_hex | Some i \<Rightarrow> if i = [] then uuid_hex else i),
      t_queue = queue_name, t_type = task_type, t_payload = payload, t_dedup = dedup_key,
      t_priority = priority, t_attempts = 0, t_max = max 1 max_attempts, t_status = QUEUED,
      t_stream = [], t_created = now, t_updated = now, t_owner = [], t_lease = 0, t_error = [],
      t_retry_at = 0, t_result = None\<rparr>"

section \<open>The memory queue\<close>

type_synonym entry = "int \<times> nat \<times> string"

definition entry_less :: "entry \<Rightarrow> entry \<Rightarrow> bool" where
  "entry_less a b = (fst a < fst b \<or> fst a = fst b \<and> fst (snd a) < fst (snd b))"

record mem_queue =
  mq_name :: string
  mq_lease :: int
  mq_max_attempts :: int
  mq_dedup_ttl :: int
  mq_priority :: int
  mq_maxsize :: int
  mq_ready :: "entry list"
  mq_sequence :: nat
  mq_tasks :: "(string, task) dict"
  mq_dedup :: "(string, string \<times> time option) dict"
  mq_closed :: bool

definition new_mem_queue :: "string \<Rightarrow> int \<Rightarrow> int \<Rightarrow> int \<Rightarrow> int \<Rightarrow> mem_queue" where
  "new_mem_queue name maxsize lease_seconds max_attempts dedup_ttl_seconds =
     \<lparr>mq_name = name, mq_lease = max 1 lease_seconds, mq_max_attempts = max 1 max_attempts,
      mq_dedup_ttl = max 0 dedup_ttl_seconds, mq_priority = 0, mq_maxsize = max 1 maxsize,
      mq_ready = [], mq_sequence = 0, mq_tasks = [], mq_dedup = [], mq_closed = False\<rparr>"

datatype queue_error = QueueClosed | QueueFull

text \<open>\<open>heappush\<close>: the sequence numbers are distinct, so the id never decides.\<close>

fun heappush :: "entry \<Rightarrow> entry list \<Rightarrow> entry list" where
  "heappush e [] = [e]"
| "heappush e (x # xs) = (if entry_less x e then x # heappush e xs else e # x # xs)"

definition q_push :: "task \<Rightarrow> mem_queue \<Rightarrow> mem_queue" where
  "q_push t q =
     (let n = mq_sequence q + 1
      in q\<lparr>mq_sequence := n, mq_ready := heappush (- t_priority t, n, t_id t) (mq_ready q)\<rparr>)"

definition remember_dedup :: "time \<Rightarrow> task \<Rightarrow> mem_queue \<Rightarrow> mem_queue" where
  "remember_dedup now t q =
     (if t_dedup t = [] then q
      else let expires = (if mq_dedup_ttl q \<noteq> 0 then Some (now + of_int (mq_dedup_ttl q)) else None)
           in q\<lparr>mq_dedup := dput (t_dedup t) (t_id t, expires) (mq_dedup q)\<rparr>)"

definition find_dedup :: "time \<Rightarrow> string \<Rightarrow> mem_queue \<Rightarrow> task option \<times> mem_queue" where
  "find_dedup now key q =
     (case dget (mq_dedup q) key of
        None \<Rightarrow> (None, q)
      | Some (task_id, expires) \<Rightarrow>
          if (case expires of None \<Rightarrow> False | Some e \<Rightarrow> e \<le> now) then
            (None, q\<lparr>mq_dedup := dpop key (mq_dedup q)\<rparr>)
          else (case dget (mq_tasks q) task_id of
                  None \<Rightarrow> (None, q\<lparr>mq_dedup := dpop key (mq_dedup q)\<rparr>)
                | Some t \<Rightarrow> (Some t, q)))"

definition q_enqueue ::
  "time \<Rightarrow> string \<Rightarrow> string \<Rightarrow> pydict \<Rightarrow> string \<Rightarrow> int option \<Rightarrow> int option \<Rightarrow> string option \<Rightarrow>
   mem_queue \<Rightarrow> (queue_error + task) \<times> mem_queue" where
  "q_enqueue now uuid_hex task_type payload dedup_key priority max_attempts task_id q =
     (if mq_closed q then (Inl QueueClosed, q)
      else
        let (existing, q1) = (if dedup_key \<noteq> [] then find_dedup now dedup_key q else (None, q))
        in case existing of
             Some t \<Rightarrow> (Inr t, q1)
           | None \<Rightarrow>
               if int (length (mq_ready q1)) \<ge> mq_maxsize q1 then (Inl QueueFull, q1)
               else
                 let t = task_create now uuid_hex (mq_name q1) task_type payload dedup_key
                           (case priority of None \<Rightarrow> mq_priority q1 | Some p \<Rightarrow> p)
                           (case max_attempts of None \<Rightarrow> mq_max_attempts q1 | Some m \<Rightarrow> m) task_id;
                     q2 = q1\<lparr>mq_tasks := dput (t_id t) t (mq_tasks q1)\<rparr>
                 in (Inr t, q_push t (remember_dedup now t q2)))"

fun claim_loop ::
  "time \<Rightarrow> int \<Rightarrow> string \<Rightarrow> int \<Rightarrow> task list \<Rightarrow> entry list \<Rightarrow> (string, task) dict \<Rightarrow>
   task list \<times> entry list \<times> (string, task) dict" where
  "claim_loop now lease consumer limit claimed [] tasks = (claimed, [], tasks)"
| "claim_loop now lease consumer limit claimed (e # ready) tasks =
     (if int (length claimed) < limit then
        (case dget tasks (snd (snd e)) of
           None \<Rightarrow> claim_loop now lease consumer limit claimed ready tasks
         | Some t \<Rightarrow>
             if t_status t \<noteq> QUEUED then claim_loop now lease consumer limit claimed ready tasks
             else let t' = t\<lparr>t_status := RUNNING, t_owner := consumer, t_lease := now + of_int lease,
                            t_updated := now\<rparr>
                  in claim_loop now lease consumer limit (claimed @ [t']) ready
                       (dput (snd (snd e)) t' tasks))
      else (claimed, e # ready, tasks))"

definition q_claim :: "time \<Rightarrow> string \<Rightarrow> int \<Rightarrow> mem_queue \<Rightarrow> task list \<times> mem_queue" where
  "q_claim now consumer count q =
     (let (claimed, ready, tasks) =
            claim_loop now (mq_lease q) consumer (max 1 count) [] (mq_ready q) (mq_tasks q)
      in (claimed, q\<lparr>mq_ready := ready, mq_tasks := tasks\<rparr>))"

definition q_heartbeat :: "time \<Rightarrow> task \<Rightarrow> mem_queue \<Rightarrow> bool \<times> mem_queue" where
  "q_heartbeat now t q =
     (case dget (mq_tasks q) (t_id t) of
        None \<Rightarrow> (False, q)
      | Some c \<Rightarrow>
          if t_status c \<noteq> RUNNING then (False, q)
          else (True, q\<lparr>mq_tasks := dput (t_id t)
                  (c\<lparr>t_lease := now + of_int (mq_lease q), t_updated := now\<rparr>) (mq_tasks q)\<rparr>))"

definition q_ack :: "time \<Rightarrow> task \<Rightarrow> pydict option \<Rightarrow> mem_queue \<Rightarrow> bool \<times> mem_queue" where
  "q_ack now t result q =
     (case dget (mq_tasks q) (t_id t) of
        None \<Rightarrow> (False, q)
      | Some c \<Rightarrow>
          (True, q\<lparr>mq_tasks := dput (t_id t)
             (c\<lparr>t_status := SUCCEEDED, t_result := result, t_owner := [], t_lease := 0,
                t_updated := now\<rparr>) (mq_tasks q)\<rparr>))"

definition q_fail :: "time \<Rightarrow> task \<Rightarrow> string \<Rightarrow> bool \<Rightarrow> mem_queue \<Rightarrow> bool \<times> mem_queue" where
  "q_fail now t error retryable q =
     (case dget (mq_tasks q) (t_id t) of
        None \<Rightarrow> (False, q)
      | Some c0 \<Rightarrow>
          let c = c0\<lparr>t_attempts := t_attempts c0 + 1, t_error := error, t_updated := now\<rparr>
          in if retryable \<and> t_attempts c < t_max c then
               let c' = c\<lparr>t_status := QUEUED, t_owner := [], t_lease := 0\<rparr>
               in (True, q_push c' (q\<lparr>mq_tasks := dput (t_id t) c' (mq_tasks q)\<rparr>))
             else if retryable then
               (True, q\<lparr>mq_tasks := dput (t_id t) (c\<lparr>t_status := DEAD\<rparr>) (mq_tasks q)\<rparr>)
             else
               (True, q\<lparr>mq_tasks := dput (t_id t) (c\<lparr>t_status := FAILED\<rparr>) (mq_tasks q)\<rparr>))"

definition q_cancel :: "time \<Rightarrow> task \<Rightarrow> mem_queue \<Rightarrow> bool \<times> mem_queue" where
  "q_cancel now t q =
     (case dget (mq_tasks q) (t_id t) of
        None \<Rightarrow> (False, q)
      | Some c \<Rightarrow>
          (True, q\<lparr>mq_tasks := dput (t_id t)
             (c\<lparr>t_status := CANCELLED, t_owner := [], t_lease := 0, t_updated := now\<rparr>) (mq_tasks q)\<rparr>))"

definition q_get :: "string \<Rightarrow> mem_queue \<Rightarrow> task option" where
  "q_get task_id q = dget (mq_tasks q) task_id"

definition q_pending :: "mem_queue \<Rightarrow> nat" where
  "q_pending q =
     length (mq_ready q) + length (filter (\<lambda>(_, t). t_status t = RUNNING) (mq_tasks q))"

definition q_close :: "mem_queue \<Rightarrow> mem_queue" where
  "q_close q = q\<lparr>mq_closed := True\<rparr>"

section \<open>The worker\<close>

text \<open>A handler returns a result or raises, with its text; \<open>'s\<close> is whatever handlers change.\<close>

type_synonym 's handler = "task \<Rightarrow> 's \<Rightarrow> (string + pydict option) \<times> 's"

text \<open>The UTF-8 bytes of the message for a task without a handler, before the task type.\<close>

definition unregistered :: string where
  "unregistered = map char_of [0xe6, 0x9c, 0xaa, 0xe6, 0xb3, 0xa8, 0xe5, 0x86, 0x8c, 0xe4, 0xbb, 0xbb,
     0xe5, 0x8a, 0xa1, 0xe7, 0xb1, 0xbb, 0xe5, 0x9e, 0x8b, 0x3a, 0x20 :: nat]"

definition run_task ::
  "(task \<Rightarrow> pydict option \<Rightarrow> 'q \<Rightarrow> bool \<times> 'q) \<Rightarrow> (task \<Rightarrow> string \<Rightarrow> bool \<Rightarrow> 'q \<Rightarrow> bool \<times> 'q) \<Rightarrow>
   (string \<Rightarrow> 's handler option) \<Rightarrow> task \<Rightarrow> 'q \<times> 's \<Rightarrow> 'q \<times> 's" where
  "run_task qack qfail handlers t qs =
     (case handlers (t_type t) of
        None \<Rightarrow> (snd (qfail t (unregistered @ t_type t) False (fst qs)), snd qs)
      | Some handler \<Rightarrow>
          (case handler t (snd qs) of
             (Inl exc, s') \<Rightarrow> (snd (qfail t exc True (fst qs)), s')
           | (Inr result, s') \<Rightarrow> (snd (qack t result (fst qs)), s')))"

text \<open>One turn of \<open>_consume_loop\<close>, and the loop until the stop event is seen, once per turn.\<close>

definition worker_turn ::
  "string \<Rightarrow> (string \<Rightarrow> 's handler option) \<Rightarrow> time \<Rightarrow> mem_queue \<times> 's \<Rightarrow> mem_queue \<times> 's" where
  "worker_turn consumer handlers now qs =
     (let (tasks, q1) = q_claim now consumer 1 (fst qs)
      in fold (run_task (q_ack now) (q_fail now) handlers) tasks (q1, snd qs))"

definition consume_loop ::
  "string \<Rightarrow> (string \<Rightarrow> 's handler option) \<Rightarrow> time list \<Rightarrow> mem_queue \<times> 's \<Rightarrow> mem_queue \<times> 's" where
  "consume_loop consumer handlers turns qs = fold (worker_turn consumer handlers) turns qs"

section \<open>The heap order\<close>

lemma entry_less_trans: "entry_less a b \<Longrightarrow> entry_less b c \<Longrightarrow> entry_less a c"
  by (auto simp: entry_less_def)

lemma set_heappush [simp]: "set (heappush e xs) = insert e (set xs)"
  by (induction xs) auto

lemma length_heappush [simp]: "length (heappush e xs) = Suc (length xs)"
  by (induction xs) auto

lemma sorted_heappush:
  "sorted_wrt entry_less xs \<Longrightarrow> \<forall>x\<in>set xs. fst (snd x) < fst (snd e) \<Longrightarrow> sorted_wrt entry_less (heappush e xs)"
proof (induction xs)
  case (Cons x xs)
  show ?case
  proof (cases "entry_less x e")
    case True
    with Cons show ?thesis by auto
  next
    case False
    with Cons.prems have "entry_less e x" by (auto simp: entry_less_def)
    with Cons.prems False show ?thesis by (auto intro: entry_less_trans)
  qed
qed simp

section \<open>The queue invariant\<close>

definition queued_ids :: "mem_queue \<Rightarrow> string set" where
  "queued_ids q = {i. \<exists>t. q_get i q = Some t \<and> t_status t = QUEUED}"

definition entry_ids :: "entry list \<Rightarrow> string set" where
  "entry_ids es = (\<lambda>e. snd (snd e)) ` set es"

lemma entry_ids_simps [simp]:
  "entry_ids [] = {}" "entry_ids (e # es) = insert (snd (snd e)) (entry_ids es)"
  "entry_ids (heappush e es) = insert (snd (snd e)) (entry_ids es)"
  by (simp_all add: entry_ids_def)

definition q_inv :: "mem_queue \<Rightarrow> bool" where
  "q_inv q \<longleftrightarrow> (\<forall>i t. q_get i q = Some t \<longrightarrow> t_id t = i) \<and> queued_ids q \<subseteq> entry_ids (mq_ready q) \<and>
     sorted_wrt entry_less (mq_ready q) \<and> (\<forall>e \<in> set (mq_ready q). fst (snd e) \<le> mq_sequence q)"

lemma q_invD:
  assumes "q_inv q"
  shows "q_get i q = Some t \<Longrightarrow> t_id t = i"
    and "q_get i q = Some t \<Longrightarrow> t_status t = QUEUED \<Longrightarrow> i \<in> entry_ids (mq_ready q)"
    and "sorted_wrt entry_less (mq_ready q)"
    and "e \<in> set (mq_ready q) \<Longrightarrow> fst (snd e) \<le> mq_sequence q"
  using assms by (auto simp: q_inv_def queued_ids_def)

lemma q_push_simps [simp]:
  "mq_tasks (q_push t q) = mq_tasks q" "mq_dedup (q_push t q) = mq_dedup q"
  "mq_maxsize (q_push t q) = mq_maxsize q" "mq_closed (q_push t q) = mq_closed q"
  "length (mq_ready (q_push t q)) = Suc (length (mq_ready q))"
  "mq_sequence (q_push t q) = Suc (mq_sequence q)"
  by (simp_all add: q_push_def Let_def)

text \<open>A change of one task that does not queue it, and one that does with a push.\<close>

lemma q_inv_put:
  assumes "q_inv q" and "t_id t = i" and "t_status t \<noteq> QUEUED"
  shows "q_inv (q\<lparr>mq_tasks := dput i t (mq_tasks q)\<rparr>)"
  using assms by (auto simp: q_inv_def queued_ids_def q_get_def split: if_splits)

lemma q_inv_put_push:
  assumes "q_inv q" and "t_id t = i"
  shows "q_inv (q_push t (q\<lparr>mq_tasks := dput i t (mq_tasks q)\<rparr>))"
proof -
  define n where "n = Suc (mq_sequence q)"
  have "sorted_wrt entry_less (heappush (- t_priority t, n, t_id t) (mq_ready q))"
    using q_invD(3,4) [OF assms(1)] by (intro sorted_heappush) (auto simp: n_def le_imp_less_Suc)
  moreover have "\<forall>e \<in> set (mq_ready q). fst (snd e) \<le> n" using q_invD(4) [OF assms(1)] by (auto simp: n_def le_SucI)
  ultimately show ?thesis
    using assms by (auto simp: q_inv_def queued_ids_def q_get_def q_push_def Let_def n_def split: if_splits)
qed

lemma q_inv_dedup [simp]: "q_inv (q\<lparr>mq_dedup := d\<rparr>) = q_inv q"
  by (simp add: q_inv_def queued_ids_def q_get_def)

lemma q_inv_new: "q_inv (new_mem_queue name maxsize lease attempts ttl)"
  by (simp add: q_inv_def queued_ids_def q_get_def new_mem_queue_def)

lemma find_dedup_inv: "q_inv q \<Longrightarrow> q_inv (snd (find_dedup now key q))"
  by (auto simp: find_dedup_def split: option.splits)

lemma remember_dedup_inv: "q_inv (remember_dedup now t q) = q_inv q"
  by (simp add: remember_dedup_def Let_def)

lemma remember_dedup_put:
  "remember_dedup now t (q\<lparr>mq_tasks := d\<rparr>) = (remember_dedup now t q)\<lparr>mq_tasks := d\<rparr>"
  "mq_tasks (remember_dedup now t q) = mq_tasks q"
  by (simp_all add: remember_dedup_def Let_def)

lemma q_enqueue_inv: "q_inv q \<Longrightarrow> q_inv (snd (q_enqueue now u ty pl dk pr ma ti q))"
proof (cases "mq_closed q")
  case False
  assume q: "q_inv q"
  obtain ex q1 where q1: "(if dk \<noteq> [] then find_dedup now dk q else (None, q)) = (ex, q1)" by fastforce
  then have inv1: "q_inv q1" using q find_dedup_inv [OF q, of now dk] by (auto split: if_splits)
  show ?thesis
  proof (cases "ex \<noteq> None \<or> int (length (mq_ready q1)) \<ge> mq_maxsize q1")
    case True
    with False q1 inv1 show ?thesis by (auto simp: q_enqueue_def split: option.splits)
  next
    case False': False
    define t where "t = task_create now u (mq_name q1) ty pl dk
                           (case pr of None \<Rightarrow> mq_priority q1 | Some p \<Rightarrow> p)
                           (case ma of None \<Rightarrow> mq_max_attempts q1 | Some m \<Rightarrow> m) ti"
    have "snd (q_enqueue now u ty pl dk pr ma ti q) =
        q_push t ((remember_dedup now t q1)\<lparr>mq_tasks := dput (t_id t) t (mq_tasks (remember_dedup now t q1))\<rparr>)"
      using False False' q1 by (simp add: q_enqueue_def t_def [symmetric] Let_def remember_dedup_put)
    then show ?thesis using inv1 by (simp add: q_inv_put_push remember_dedup_inv)
  qed
qed (simp add: q_enqueue_def)

lemma claim_loop_spec:
  assumes "claim_loop now lease consumer limit cl ready tasks = (cl', ready', tasks')"
    and "\<forall>i t. dget tasks i = Some t \<longrightarrow> t_id t = i"
  shows "suffix ready' ready \<and>
    (\<forall>i t. dget tasks' i = Some t \<longrightarrow> t_id t = i \<and>
       (t_status t = QUEUED \<longrightarrow> dget tasks i = Some t \<and> (i \<in> entry_ids ready \<longrightarrow> i \<in> entry_ids ready')))"
  using assms
proof (induction now lease consumer limit cl ready tasks arbitrary: cl' ready' tasks' rule: claim_loop.induct)
  case (1 now lease consumer limit cl tasks)
  then show ?case by auto
next
  case (2 now lease consumer limit cl e ready tasks)
  note prems = "2.prems"
  have skip: ?case if "claim_loop now lease consumer limit cl ready tasks = (cl', ready', tasks') \<Longrightarrow>
      suffix ready' ready \<and> (\<forall>i t. dget tasks' i = Some t \<longrightarrow> t_id t = i \<and>
       (t_status t = QUEUED \<longrightarrow> dget tasks i = Some t \<and> (i \<in> entry_ids ready \<longrightarrow> i \<in> entry_ids ready')))"
    and "\<And>t. dget tasks (snd (snd e)) = Some t \<Longrightarrow> t_status t \<noteq> QUEUED"
    and "int (length cl) < limit"
  proof -
    have "claim_loop now lease consumer limit cl ready tasks = (cl', ready', tasks')"
      using prems(1) that(2,3) by (simp split: option.splits)
    from that(1) [OF this] that(2) show ?thesis
      unfolding suffix_Cons entry_ids_simps by blast
  qed
  show ?case
  proof (cases "int (length cl) < limit")
    case False
    with prems have "cl' = cl" "ready' = e # ready" "tasks' = tasks" by simp_all
    with prems(2) show ?thesis by simp
  next
    case True
    show ?thesis
    proof (cases "dget tasks (snd (snd e))")
      case None
      from "2.IH"(1) [OF True None _ prems(2)] show ?thesis by (rule skip) (simp_all add: None True)
    next
      case (Some t)
      show ?thesis
      proof (cases "t_status t = QUEUED")
        case False
        from "2.IH"(2) [OF True Some False _ prems(2)] show ?thesis by (rule skip) (simp_all add: Some True False)
      next
        case queued: True
        define t' where "t' = t\<lparr>t_status := RUNNING, t_owner := consumer, t_lease := now + of_int lease,
                            t_updated := now\<rparr>"
        have run: "claim_loop now lease consumer limit (cl @ [t']) ready (dput (snd (snd e)) t' tasks) = (cl', ready', tasks')"
          using prems(1) True Some queued by (simp add: t'_def Let_def)
        have pre: "\<forall>i u. dget (dput (snd (snd e)) t' tasks) i = Some u \<longrightarrow> t_id u = i"
          using prems(2) Some by (simp add: t'_def)
        have nn: "\<not> t_status t \<noteq> QUEUED" using queued by simp
        note ih = "2.IH"(3) [OF True Some nn t'_def run pre]
        then have "suffix ready' ready" and *: "\<And>i t. dget tasks' i = Some t \<Longrightarrow> t_id t = i \<and>
            (t_status t = QUEUED \<longrightarrow> dget (dput (snd (snd e)) t' tasks) i = Some t \<and> (i \<in> entry_ids ready \<longrightarrow> i \<in> entry_ids ready'))"
          by blast+
        moreover have "t_id u = i \<and> (t_status u = QUEUED \<longrightarrow> dget tasks i = Some u \<and>
            (i \<in> entry_ids (e # ready) \<longrightarrow> i \<in> entry_ids ready'))" if u: "dget tasks' i = Some u" for i u
          using * [OF u] by (cases "i = snd (snd e)") (auto simp: t'_def)
        ultimately show ?thesis unfolding suffix_Cons by blast
      qed
    qed
  qed
qed

lemma q_claim_inv: "q_inv q \<Longrightarrow> q_inv (snd (q_claim now consumer count q))"
proof -
  assume q: "q_inv q"
  obtain cl ready tasks where c: "claim_loop now (mq_lease q) consumer (max 1 count) [] (mq_ready q) (mq_tasks q) = (cl, ready, tasks)"
    by (metis prod.collapse)
  have "\<forall>i t. dget (mq_tasks q) i = Some t \<longrightarrow> t_id t = i" using q by (simp add: q_inv_def q_get_def)
  note spec = claim_loop_spec [OF c this]
  then obtain pre where pre: "mq_ready q = pre @ ready" by (auto simp: suffix_def)
  have "sorted_wrt entry_less ready" "\<forall>e\<in>set ready. fst (snd e) \<le> mq_sequence q"
    using q_invD(3,4) [OF q] pre by (auto simp: sorted_wrt_append)
  moreover have "i \<in> entry_ids ready" if "dget tasks i = Some t" "t_status t = QUEUED" for i t
    using spec that q_invD(2) [OF q, of i t] by (auto simp: q_get_def)
  ultimately show ?thesis using c spec by (auto simp: q_claim_def q_inv_def queued_ids_def q_get_def)
qed

lemma q_inv_id: "q_inv q \<Longrightarrow> dget (mq_tasks q) i = Some c \<Longrightarrow> t_id c = i"
  using q_invD(1) [of q i c] by (simp add: q_get_def)

lemma q_heartbeat_inv: "q_inv q \<Longrightarrow> q_inv (snd (q_heartbeat now t q))"
  by (cases "dget (mq_tasks q) (t_id t)") (simp_all add: q_heartbeat_def q_inv_put q_inv_id)

lemma q_ack_inv: "q_inv q \<Longrightarrow> q_inv (snd (q_ack now t r q))"
  by (cases "dget (mq_tasks q) (t_id t)") (simp_all add: q_ack_def q_inv_put q_inv_id)

lemma q_cancel_inv: "q_inv q \<Longrightarrow> q_inv (snd (q_cancel now t q))"
  by (cases "dget (mq_tasks q) (t_id t)") (simp_all add: q_cancel_def q_inv_put q_inv_id)

lemma q_fail_inv: "q_inv q \<Longrightarrow> q_inv (snd (q_fail now t e b q))"
  by (cases "dget (mq_tasks q) (t_id t)")
     (simp_all add: q_fail_def Let_def q_inv_put q_inv_put_push q_inv_id)

text \<open>Claiming one task: the first entry whose task is queued; the entries before it are dropped.\<close>

definition is_queued :: "(string, task) dict \<Rightarrow> entry \<Rightarrow> bool" where
  "is_queued tasks e = (\<exists>t. dget tasks (snd (snd e)) = Some t \<and> t_status t = QUEUED)"

lemma claim_loop_full: "limit \<le> int (length cl) \<Longrightarrow> claim_loop now lease c limit cl ready tasks = (cl, ready, tasks)"
  by (cases ready) auto

lemma claim_loop_one:
  "claim_loop now lease consumer 1 [] ready tasks =
     (case dropWhile (\<lambda>e. \<not> is_queued tasks e) ready of
        [] \<Rightarrow> ([], [], tasks)
      | e # rest \<Rightarrow>
          let t' = (the (dget tasks (snd (snd e))))\<lparr>t_status := RUNNING, t_owner := consumer,
                     t_lease := now + of_int lease, t_updated := now\<rparr>
          in ([t'], rest, dput (snd (snd e)) t' tasks))"
proof (induction ready)
  case (Cons e ready)
  show ?case
  proof (cases "is_queued tasks e")
    case True
    then obtain t where "dget tasks (snd (snd e)) = Some t" "t_status t = QUEUED" by (auto simp: is_queued_def)
    with True show ?thesis by (simp add: claim_loop_full Let_def)
  next
    case False
    then have "claim_loop now lease consumer 1 [] (e # ready) tasks = claim_loop now lease consumer 1 [] ready tasks"
      by (auto simp: is_queued_def split: option.splits)
    with False Cons.IH show ?thesis by simp
  qed
qed simp

lemma q_claim_one:
  assumes "q_inv q"
  obtains (empty) "q_claim now consumer 1 q = ([], q\<lparr>mq_ready := []\<rparr>)" "queued_ids q = {}"
  | (one) pre e rest t t' where "mq_ready q = pre @ e # rest" "\<forall>x \<in> set pre. \<not> is_queued (mq_tasks q) x"
      "dget (mq_tasks q) (snd (snd e)) = Some t" "t_status t = QUEUED" "t_id t = snd (snd e)"
      "t' = t\<lparr>t_status := RUNNING, t_owner := consumer, t_lease := now + of_int (mq_lease q), t_updated := now\<rparr>"
      "q_claim now consumer 1 q = ([t'], q\<lparr>mq_ready := rest, mq_tasks := dput (t_id t) t' (mq_tasks q)\<rparr>)"
proof (cases "dropWhile (\<lambda>e. \<not> is_queued (mq_tasks q) e) (mq_ready q)")
  case Nil
  then have "\<forall>e \<in> set (mq_ready q). \<not> is_queued (mq_tasks q) e" by (simp add: dropWhile_eq_Nil_conv)
  moreover have "i \<in> entry_ids (mq_ready q)" if "i \<in> queued_ids q" for i
    using assms that by (auto simp: q_inv_def)
  ultimately have "queued_ids q = {}"
    by (fastforce simp: is_queued_def entry_ids_def queued_ids_def q_get_def)
  then show thesis by (intro empty) (simp_all add: q_claim_def claim_loop_one Nil)
next
  case (Cons e rest)
  define pre where "pre = takeWhile (\<lambda>e. \<not> is_queued (mq_tasks q) e) (mq_ready q)"
  have split: "mq_ready q = pre @ e # rest" by (metis Cons pre_def takeWhile_dropWhile_id)
  have "is_queued (mq_tasks q) e" using hd_dropWhile [of "\<lambda>e. \<not> is_queued (mq_tasks q) e" "mq_ready q"] Cons by simp
  then obtain t where t: "dget (mq_tasks q) (snd (snd e)) = Some t" "t_status t = QUEUED"
    by (auto simp: is_queued_def)
  have "t_id t = snd (snd e)" using q_inv_id [OF assms t(1)] .
  moreover have "\<forall>x \<in> set pre. \<not> is_queued (mq_tasks q) x" by (auto simp: pre_def dest: set_takeWhileD)
  ultimately show thesis using split t Cons
    by (intro one [of pre e rest t]) (simp_all add: q_claim_def claim_loop_one Let_def)
qed

section \<open>The contract of a task queue and its worker\<close>

locale task_queue =
  fixes qack :: "task \<Rightarrow> pydict option \<Rightarrow> 'q \<Rightarrow> bool \<times> 'q"
    and qfail :: "task \<Rightarrow> string \<Rightarrow> bool \<Rightarrow> 'q \<Rightarrow> bool \<times> 'q"
    and look :: "string \<Rightarrow> 'q \<Rightarrow> task option"
    and inv :: "'q \<Rightarrow> bool"
  assumes ack_inv: "inv q \<Longrightarrow> inv (snd (qack t r q))"
    and fail_inv: "inv q \<Longrightarrow> inv (snd (qfail t e b q))"
    and ack_other: "inv q \<Longrightarrow> i \<noteq> t_id t \<Longrightarrow> look i (snd (qack t r q)) = look i q"
    and fail_other: "inv q \<Longrightarrow> i \<noteq> t_id t \<Longrightarrow> look i (snd (qfail t e b q)) = look i q"
    and ack_same: "inv q \<Longrightarrow> look (t_id t) q = Some c \<Longrightarrow> \<exists>c'. look (t_id t) (snd (qack t r q)) = Some c' \<and>
        t_status c' = SUCCEEDED \<and> t_result c' = r \<and> t_attempts c' = t_attempts c \<and> t_max c' = t_max c"
    and fail_same: "inv q \<Longrightarrow> look (t_id t) q = Some c \<Longrightarrow> \<exists>c'. look (t_id t) (snd (qfail t e b q)) = Some c' \<and>
        t_error c' = e \<and> t_attempts c' = t_attempts c + 1 \<and> t_max c' = t_max c \<and>
        t_status c' = (if \<not> b then FAILED else if t_attempts c + 1 < t_max c then QUEUED else DEAD)"
begin

text \<open>Running a task settles it: it is never left running, and no other task is touched.\<close>

lemma run_inv: "inv q \<Longrightarrow> inv (fst (run_task qack qfail h t (q, s)))"
  by (auto simp: run_task_def ack_inv fail_inv split: option.splits prod.splits sum.splits)

lemma run_other: "inv q \<Longrightarrow> i \<noteq> t_id t \<Longrightarrow> look i (fst (run_task qack qfail h t (q, s))) = look i q"
  by (auto simp: run_task_def ack_other fail_other split: option.splits prod.splits sum.splits)

lemma run_settles:
  assumes "inv q" and "look (t_id t) q = Some c"
  shows "\<exists>c'. look (t_id t) (fst (run_task qack qfail h t (q, s))) = Some c' \<and> t_max c' = t_max c \<and>
    (case h (t_type t) of
       None \<Rightarrow> t_status c' = FAILED \<and> t_attempts c' = t_attempts c + 1
     | Some handler \<Rightarrow>
         (case fst (handler t s) of
            Inr r \<Rightarrow> t_status c' = SUCCEEDED \<and> t_result c' = r \<and> t_attempts c' = t_attempts c
          | Inl e \<Rightarrow> t_error c' = e \<and> t_attempts c' = t_attempts c + 1 \<and>
              t_status c' = (if t_attempts c + 1 < t_max c then QUEUED else DEAD)))"
proof (cases "h (t_type t)")
  case None
  with fail_same [OF assms, of "unregistered @ t_type t" False] show ?thesis
    by (auto simp: run_task_def)
next
  case (Some handler)
  obtain res s' where r: "handler t s = (res, s')" by fastforce
  show ?thesis
  proof (cases res)
    case (Inl e)
    with Some r fail_same [OF assms, of e True] show ?thesis by (auto simp: run_task_def)
  next
    case (Inr x)
    with Some r ack_same [OF assms, of x] show ?thesis by (auto simp: run_task_def)
  qed
qed

end

interpretation mq: task_queue "q_ack now" "q_fail now" q_get q_inv for now
proof (unfold_locales, goal_cases)
  case (1 q t r)
  then show ?case by (rule q_ack_inv)
next
  case (2 q t e b)
  then show ?case by (rule q_fail_inv)
next
  case (3 q i t r)
  then show ?case by (auto simp: q_ack_def q_get_def split: option.split)
next
  case (4 q i t e b)
  then show ?case by (auto simp: q_fail_def q_get_def Let_def split: option.split)
next
  case (5 q t c r)
  then show ?case by (simp add: q_ack_def q_get_def)
next
  case (6 q t c e b)
  then show ?case by (simp add: q_fail_def q_get_def Let_def)
qed

section \<open>Draining\<close>

definition idle :: "mem_queue \<Rightarrow> bool" where
  "idle q = (\<forall>i t. q_get i q = Some t \<longrightarrow> t_status t \<noteq> RUNNING)"

definition slack :: "task \<Rightarrow> nat" where
  "slack t = nat (t_max t - t_attempts t)"

definition credit :: "(string, task) dict \<Rightarrow> nat" where
  "credit d = (\<Sum>i \<in> dom (dget d). slack (the (dget d i)))"

text \<open>The turns a worker needs at most: the entries that wait and the retries that are left.\<close>

definition work :: "mem_queue \<Rightarrow> nat" where
  "work q = length (mq_ready q) + credit (mq_tasks q)"

lemma credit_put:
  assumes "dget d i = Some c"
  shows "credit (dput i c' d) + slack c = credit d + slack c'"
proof -
  have i: "i \<in> dom (dget d)" using assms by auto
  have dom: "dom (dget (dput i c' d)) = dom (dget d)" using i by (auto simp: dom_def)
  have fin: "finite (dom (dget d))" by (rule finite_dom_map_of)
  have "credit (dput i c' d) = slack c' + (\<Sum>j \<in> dom (dget d) - {i}. slack (the (dget d j)))"
    unfolding credit_def dom by (subst sum.remove [OF fin i]) (auto intro!: sum.cong)
  moreover have "credit d = slack c + (\<Sum>j \<in> dom (dget d) - {i}. slack (the (dget d j)))"
    unfolding credit_def by (subst sum.remove [OF fin i]) (simp add: assms)
  ultimately show ?thesis by simp
qed

lemma credit_single: "credit [(i, t)] = slack t"
proof -
  have "dom (dget [(i, t)]) = {i}" by (auto simp: dom_def split: if_splits)
  then show ?thesis by (simp add: credit_def)
qed

lemma q_ack_work:
  assumes "dget (mq_tasks q) (t_id t) = Some c"
  shows "work (snd (q_ack now t r q)) = work q"
proof -
  define c' where "c' = c\<lparr>t_status := SUCCEEDED, t_result := r, t_owner := [], t_lease := 0, t_updated := now\<rparr>"
  have "slack c' = slack c" by (simp add: slack_def c'_def)
  then show ?thesis using credit_put [OF assms, of c'] assms
    by (simp add: q_ack_def work_def c'_def [symmetric])
qed

lemma q_fail_work:
  assumes "dget (mq_tasks q) (t_id t) = Some c"
  shows "work (snd (q_fail now t e b q)) \<le> work q"
proof -
  define c1 where "c1 = c\<lparr>t_attempts := t_attempts c + 1, t_error := e, t_updated := now\<rparr>"
  have dead: "credit (dput (t_id t) (c1\<lparr>t_status := st\<rparr>) (mq_tasks q)) \<le> credit (mq_tasks q)" for st
    using credit_put [OF assms, of "c1\<lparr>t_status := st\<rparr>"] by (simp add: slack_def c1_def)
  have requeue: "Suc (credit (dput (t_id t) (c1\<lparr>t_status := QUEUED, t_owner := [], t_lease := 0\<rparr>) (mq_tasks q)))
      \<le> credit (mq_tasks q)" if "t_attempts c + 1 < t_max c"
    using credit_put [OF assms, of "c1\<lparr>t_status := QUEUED, t_owner := [], t_lease := 0\<rparr>"] that
    by (simp add: slack_def c1_def)
  show ?thesis
    using dead requeue assms by (simp add: q_fail_def Let_def c1_def [symmetric] work_def) (simp add: c1_def)
qed

lemma run_task_work:
  assumes "dget (mq_tasks q) (t_id t) = Some c"
  shows "work (fst (run_task (q_ack now) (q_fail now) h t (q, s))) \<le> work q"
  using q_ack_work [OF assms] q_fail_work [OF assms]
  by (auto simp: run_task_def split: option.splits prod.splits sum.splits)

lemma worker_turn_spec:
  assumes "q_inv q" and "idle q"
  shows "q_inv (fst (worker_turn c h now (q, s))) \<and> idle (fst (worker_turn c h now (q, s))) \<and>
    (if mq_ready q = [] then mq_ready (fst (worker_turn c h now (q, s))) = []
     else work (fst (worker_turn c h now (q, s))) < work q)"
  using assms(1)
proof (cases rule: q_claim_one [of q now c])
  case empty
  with assms show ?thesis
    using q_claim_inv [OF assms(1), of now c 1]
    by (auto simp: worker_turn_def work_def idle_def q_get_def)
next
  case (one pre e rest t t')
  define q1 where "q1 = q\<lparr>mq_ready := rest, mq_tasks := dput (t_id t) t' (mq_tasks q)\<rparr>"
  have turn: "worker_turn c h now (q, s) = run_task (q_ack now) (q_fail now) h t' (q1, s)"
    by (simp add: worker_turn_def one q1_def)
  have id: "t_id t' = t_id t" by (simp add: one(6))
  have inv1: "q_inv q1" using q_claim_inv [OF assms(1), of now c 1] by (simp add: one(7) q1_def)
  have look1: "q_get (t_id t') q1 = Some t'" by (simp add: q_get_def q1_def id)
  have "idle (fst (run_task (q_ack now) (q_fail now) h t' (q1, s)))"
    unfolding idle_def
  proof (intro allI impI)
    fix i u assume u: "q_get i (fst (run_task (q_ack now) (q_fail now) h t' (q1, s))) = Some u"
    show "t_status u \<noteq> RUNNING"
    proof (cases "i = t_id t'")
      case True
      with mq.run_settles [OF inv1 look1, of now h s] u show ?thesis
        by (auto split: option.splits sum.splits if_splits)
    next
      case False
      with u have "q_get i q1 = Some u" by (simp add: mq.run_other [OF inv1])
      with False assms(2) id show ?thesis by (auto simp: idle_def q_get_def q1_def)
    qed
  qed
  moreover have "work q1 < work q"
  proof -
    have "slack t' = slack t" by (simp add: slack_def one(6))
    moreover have "dget (mq_tasks q) (t_id t) = Some t" using one by simp
    ultimately have "credit (dput (t_id t) t' (mq_tasks q)) = credit (mq_tasks q)"
      using credit_put [of "mq_tasks q" "t_id t" t t'] by simp
    then show ?thesis by (simp add: work_def q1_def one(1))
  qed
  moreover have "work (fst (run_task (q_ack now) (q_fail now) h t' (q1, s))) \<le> work q1"
    by (rule run_task_work) (use look1 in \<open>simp add: q_get_def\<close>)
  ultimately show ?thesis using mq.run_inv [OF inv1] one(1) by (auto simp: turn)
qed

lemma consume_loop_spec:
  "q_inv q \<Longrightarrow> idle q \<Longrightarrow> work q \<le> length turns \<or> mq_ready q = [] \<Longrightarrow>
   (case consume_loop c h turns (q, s) of (q', s') \<Rightarrow> q_inv q' \<and> idle q' \<and> mq_ready q' = [])"
proof (induction turns arbitrary: q s)
  case Nil
  then show ?case by (auto simp: consume_loop_def work_def)
next
  case (Cons now turns)
  obtain q1 s1 where t: "worker_turn c h now (q, s) = (q1, s1)" by fastforce
  from worker_turn_spec [OF Cons.prems(1,2), of c h now s] t
  have "q_inv q1" "idle q1" "if mq_ready q = [] then mq_ready q1 = [] else work q1 < work q" by auto
  with Cons.IH [of q1 s1] Cons.prems(3) t show ?case
    by (auto simp: consume_loop_def split: if_splits)
qed

section \<open>Runs\<close>

datatype q_op =
    QEnqueue string string pydict string "int option" "int option" "string option"
  | QClaim string int
  | QHeartbeat task
  | QAck task "pydict option"
  | QFail task string bool
  | QCancel task
  | QClose

fun q_step :: "time \<Rightarrow> q_op \<Rightarrow> mem_queue \<Rightarrow> mem_queue" where
  "q_step now (QEnqueue u ty pl dk pr ma ti) q = snd (q_enqueue now u ty pl dk pr ma ti q)"
| "q_step now (QClaim c n) q = snd (q_claim now c n q)"
| "q_step now (QHeartbeat t) q = snd (q_heartbeat now t q)"
| "q_step now (QAck t r) q = snd (q_ack now t r q)"
| "q_step now (QFail t e b) q = snd (q_fail now t e b q)"
| "q_step now (QCancel t) q = snd (q_cancel now t q)"
| "q_step now QClose q = q_close q"

definition q_run :: "(time \<times> q_op) list \<Rightarrow> mem_queue \<Rightarrow> mem_queue" where
  "q_run ops q = fold (\<lambda>(now, op). q_step now op) ops q"

lemma q_step_inv: "q_inv q \<Longrightarrow> q_inv (q_step now op q)"
proof (cases op)
  case QClose
  assume "q_inv q"
  with QClose show ?thesis by (simp add: q_close_def q_inv_def queued_ids_def q_get_def)
qed (simp_all add: q_enqueue_inv q_claim_inv q_heartbeat_inv q_ack_inv q_fail_inv q_cancel_inv)

lemma q_run_inv: "q_inv q \<Longrightarrow> q_inv (q_run ops q)"
  unfolding q_run_def by (induction ops arbitrary: q) (auto simp: q_step_inv)

text \<open>A key that still deduplicates: its record has not expired and its task is known.\<close>

definition dedup_live :: "string \<Rightarrow> string \<Rightarrow> time \<Rightarrow> mem_queue \<Rightarrow> bool" where
  "dedup_live key i e q \<longleftrightarrow> key \<noteq> [] \<and> dget (mq_dedup q) key = Some (i, Some e) \<and> q_get i q \<noteq> None"

lemma find_dedup_live:
  "dedup_live key i e q \<Longrightarrow> now < e \<Longrightarrow> \<exists>t. q_get i q = Some t \<and> find_dedup now key q = (Some t, q)"
  by (auto simp: dedup_live_def find_dedup_def q_get_def)

lemma find_dedup_keeps: "dedup_live key i e q \<Longrightarrow> now < e \<Longrightarrow> dedup_live key i e (snd (find_dedup now k q))"
  by (cases "k = key") (auto simp: dedup_live_def find_dedup_def q_get_def split: option.splits)

lemma claim_loop_dom:
  "claim_loop now lease c limit cl ready tasks = (cl', ready', tasks') \<Longrightarrow> dget tasks i \<noteq> None \<Longrightarrow> dget tasks' i \<noteq> None"
  by (induction now lease c limit cl ready tasks rule: claim_loop.induct)
     (auto simp: Let_def split: if_splits option.splits)

lemma dedup_live_tasks:
  "dedup_live key i e q \<Longrightarrow> mq_dedup q' = mq_dedup q \<Longrightarrow> (q_get i q \<noteq> None \<Longrightarrow> q_get i q' \<noteq> None) \<Longrightarrow> dedup_live key i e q'"
  by (simp add: dedup_live_def)

lemma q_enqueue_live:
  assumes "dedup_live key i e q" and "now < e"
  shows "dedup_live key i e (snd (q_enqueue now u ty pl dk pr ma ti q))"
proof -
  obtain ex q1 where q1: "(if dk \<noteq> [] then find_dedup now dk q else (None, q)) = (ex, q1)" by fastforce
  have live1: "dedup_live key i e q1"
    using find_dedup_keeps [OF assms, of dk] assms(1) q1 by (auto split: if_splits)
  show ?thesis
  proof (cases "mq_closed q \<or> ex \<noteq> None \<or> int (length (mq_ready q1)) \<ge> mq_maxsize q1")
    case True
    with q1 live1 assms(1) show ?thesis by (auto simp: q_enqueue_def split: option.splits)
  next
    case False
    then have "dk \<noteq> key" using find_dedup_live [OF assms] q1 assms(1) by (auto simp: dedup_live_def split: if_splits)
    with False q1 live1 show ?thesis
      by (auto simp: q_enqueue_def Let_def dedup_live_def remember_dedup_def q_get_def task_create_def)
  qed
qed

lemma q_step_live:
  assumes "dedup_live key i e q" and "now < e"
  shows "dedup_live key i e (q_step now op q)"
proof (cases op)
  case (QClaim c n)
  obtain cl ready tasks where "claim_loop now (mq_lease q) c (max 1 n) [] (mq_ready q) (mq_tasks q) = (cl, ready, tasks)"
    by (metis prod.collapse)
  with claim_loop_dom [OF this, of i] QClaim show ?thesis
    by (intro dedup_live_tasks [OF assms(1)]) (auto simp: q_claim_def q_get_def)
qed (use assms in \<open>auto simp: q_enqueue_live q_heartbeat_def q_ack_def q_fail_def q_cancel_def q_close_def
      q_get_def Let_def intro!: dedup_live_tasks [OF assms(1)] split: option.split\<close>)

lemma q_run_live:
  "dedup_live key i e q \<Longrightarrow> \<forall>(now, op) \<in> set ops. now < e \<Longrightarrow> dedup_live key i e (q_run ops q)"
  unfolding q_run_def by (induction ops arbitrary: q) (auto simp: q_step_live)

lemma q_enqueue_first:
  assumes "q_enqueue now u ty pl key pr ma ti q = (Inr t, q')" and "fst (find_dedup now key q) = None"
    and "key \<noteq> []" and "mq_dedup_ttl q \<noteq> 0"
  shows "dedup_live key (t_id t) (now + of_int (mq_dedup_ttl q)) q'"
proof -
  obtain q1 where q1: "find_dedup now key q = (None, q1)" using assms(2) by (metis prod.collapse)
  then have "mq_dedup_ttl q1 = mq_dedup_ttl q" by (auto simp: find_dedup_def split: option.splits if_splits)
  with assms q1 show ?thesis
    by (auto simp: q_enqueue_def Let_def dedup_live_def remember_dedup_def q_get_def task_create_def split: if_splits)
qed

text \<open>\<open>fail\<close> does not look at the status: a task cancelled while it ran is queued again.\<close>

lemma cancelled_task_requeued:
  assumes "q_get (t_id t) q = Some c" and "t_attempts c + 1 < t_max c"
  shows "map_option t_status (q_get (t_id t) (snd (q_fail now t e True (snd (q_cancel now' t q))))) = Some QUEUED"
  using assms by (simp add: q_get_def q_fail_def q_cancel_def Let_def)

section \<open>Priorities\<close>

text \<open>What orders the heap is what orders the tasks: every entry carries the priority of its task, and among tasks that never
  failed the entries follow the times of creation. \<open>T\<close> is the time of the last operation.\<close>

definition q_order :: "time \<Rightarrow> mem_queue \<Rightarrow> bool" where
  "q_order T q \<longleftrightarrow>
     (\<forall>i t. q_get i q = Some t \<longrightarrow> 0 \<le> t_attempts t \<and> t_created t \<le> T) \<and>
     (\<forall>e \<in> set (mq_ready q). \<exists>t. q_get (snd (snd e)) q = Some t \<and> fst e = - t_priority t) \<and>
     (\<forall>e \<in> set (mq_ready q). \<forall>e' \<in> set (mq_ready q). \<forall>t u.
        fst (snd e) < fst (snd e') \<longrightarrow> q_get (snd (snd e)) q = Some t \<longrightarrow> q_get (snd (snd e')) q = Some u \<longrightarrow>
        t_attempts t = 0 \<longrightarrow> t_attempts u = 0 \<longrightarrow> t_created t \<le> t_created u)"

lemma q_orderD:
  assumes "q_order T q"
  shows "q_get i q = Some t \<Longrightarrow> 0 \<le> t_attempts t" and "q_get i q = Some t \<Longrightarrow> t_created t \<le> T"
    and "e \<in> set (mq_ready q) \<Longrightarrow> \<exists>t. q_get (snd (snd e)) q = Some t \<and> fst e = - t_priority t"
    and "e \<in> set (mq_ready q) \<Longrightarrow> e' \<in> set (mq_ready q) \<Longrightarrow> fst (snd e) < fst (snd e') \<Longrightarrow>
       q_get (snd (snd e)) q = Some t \<Longrightarrow> q_get (snd (snd e')) q = Some u \<Longrightarrow>
       t_attempts t = 0 \<Longrightarrow> t_attempts u = 0 \<Longrightarrow> t_created t \<le> t_created u"
  using assms by (auto simp: q_order_def)

lemma q_order_mono: "q_order T q \<Longrightarrow> T \<le> T' \<Longrightarrow> q_order T' q"
  by (simp add: q_order_def) (meson order_trans)

text \<open>An operation that creates no task keeps the order when it keeps what the order reads.\<close>

definition same_rank :: "task \<Rightarrow> task \<Rightarrow> bool" where
  "same_rank t t' \<longleftrightarrow> t_priority t' = t_priority t \<and> t_created t' = t_created t \<and> t_attempts t \<le> t_attempts t'"

lemma q_order_keep:
  assumes q: "q_order T q" and entries: "set (mq_ready q') \<subseteq> set (mq_ready q)"
    and old: "\<And>i t'. q_get i q' = Some t' \<Longrightarrow> \<exists>t. q_get i q = Some t \<and> same_rank t t'"
    and kept: "\<And>i. q_get i q \<noteq> None \<Longrightarrow> q_get i q' \<noteq> None"
  shows "q_order T q'"
proof -
  have A: "0 \<le> t_attempts t' \<and> t_created t' \<le> T" if "q_get i q' = Some t'" for i t'
    using old [OF that] q_orderD(1,2) [OF q] by (fastforce simp: same_rank_def)
  have B: "\<exists>t'. q_get (snd (snd e)) q' = Some t' \<and> fst e = - t_priority t'" if "e \<in> set (mq_ready q')" for e
  proof -
    from q_orderD(3) [OF q, of e] that entries obtain t where t: "q_get (snd (snd e)) q = Some t" "fst e = - t_priority t" by blast
    then obtain t' where t': "q_get (snd (snd e)) q' = Some t'" using kept [of "snd (snd e)"] by auto
    with old [OF t'] t show ?thesis by (auto simp: same_rank_def)
  qed
  have C: "t_created t' \<le> t_created u'"
    if e: "e \<in> set (mq_ready q')" "e' \<in> set (mq_ready q')" "fst (snd e) < fst (snd e')"
      and t: "q_get (snd (snd e)) q' = Some t'" "q_get (snd (snd e')) q' = Some u'" "t_attempts t' = 0" "t_attempts u' = 0"
    for e e' t' u'
  proof -
    obtain t u where tu: "q_get (snd (snd e)) q = Some t" "same_rank t t'" "q_get (snd (snd e')) q = Some u" "same_rank u u'"
      using old [OF t(1)] old [OF t(2)] by blast
    have "t_attempts t = 0" "t_attempts u = 0"
      using tu t(3,4) q_orderD(1) [OF q] by (fastforce simp: same_rank_def)+
    then have "t_created t \<le> t_created u" using q_orderD(4) [OF q _ _ e(3) tu(1,3)] e(1,2) entries by blast
    then show ?thesis using tu by (simp add: same_rank_def)
  qed
  show ?thesis unfolding q_order_def using A B C by blast
qed

lemma q_order_put:
  assumes "q_order T q" and "q_get i q = Some t" and "same_rank t t'"
  shows "q_order T (q\<lparr>mq_tasks := dput i t' (mq_tasks q)\<rparr>)"
  using assms by (intro q_order_keep [OF assms(1)]) (auto simp: q_get_def same_rank_def split: if_splits)

text \<open>A push adds the newest entry; it belongs to a task that has failed or is the youngest.\<close>

lemma q_order_push:
  assumes q: "q_order T q" and t: "q_get (t_id t) q = Some t"
    and young: "t_attempts t \<noteq> 0 \<or> T \<le> t_created t" and n: "\<And>e. e \<in> set (mq_ready q) \<Longrightarrow> fst (snd e) \<le> mq_sequence q"
  shows "q_order T (q_push t q)"
proof -
  have get: "q_get i (q_push t q) = q_get i q" for i by (simp add: q_get_def)
  have ready: "set (mq_ready (q_push t q)) = insert (- t_priority t, Suc (mq_sequence q), t_id t) (set (mq_ready q))"
    by (simp add: q_push_def Let_def)
  have C: "t_created a \<le> t_created b"
    if e: "e \<in> set (mq_ready (q_push t q))" "e' \<in> set (mq_ready (q_push t q))" "fst (snd e) < fst (snd e')"
      and ab: "q_get (snd (snd e)) q = Some a" "q_get (snd (snd e')) q = Some b" "t_attempts a = 0" "t_attempts b = 0"
    for e e' a b
  proof -
    have e_old: "e \<in> set (mq_ready q)" using e n by (fastforce simp: ready)
    consider "e' \<in> set (mq_ready q)" | "e' = (- t_priority t, Suc (mq_sequence q), t_id t)" using e(2) ready by blast
    then show ?thesis
    proof cases
      case 1
      show ?thesis by (rule q_orderD(4) [OF q e_old 1 e(3) ab])
    next
      case 2
      then have "b = t" using ab(2) t by simp
      with young ab(4) q_orderD(2) [OF q ab(1)] show ?thesis by auto
    qed
  qed
  show ?thesis
    unfolding q_order_def get
    using q_orderD(1-3) [OF q] t C by (auto simp: ready)
qed

lemma claim_loop_rank:
  "claim_loop now lease c limit cl ready tasks = (cl', ready', tasks') \<Longrightarrow> dget tasks' i = Some t' \<Longrightarrow>
     \<exists>t. dget tasks i = Some t \<and> same_rank t t'"
proof (induction now lease c limit cl ready tasks arbitrary: i t' rule: claim_loop.induct)
  case (2 now lease c limit cl e ready tasks)
  show ?case
  proof (cases "int (length cl) < limit \<and> (\<exists>t. dget tasks (snd (snd e)) = Some t \<and> t_status t = QUEUED)")
    case True
    then obtain t where t: "dget tasks (snd (snd e)) = Some t" "t_status t = QUEUED" "int (length cl) < limit" by blast
    define r where "r = t\<lparr>t_status := RUNNING, t_owner := c, t_lease := now + of_int lease, t_updated := now\<rparr>"
    have nn: "\<not> t_status t \<noteq> QUEUED" using t by simp
    have "claim_loop now lease c limit (cl @ [r]) ready (dput (snd (snd e)) r tasks) = (cl', ready', tasks')"
      using "2.prems"(1) t by (simp add: r_def Let_def)
    from "2.IH"(3) [OF t(3,1) nn r_def this "2.prems"(2)] obtain u where
      "dget (dput (snd (snd e)) r tasks) i = Some u" "same_rank u t'" by blast
    then show ?thesis using t(1) by (auto simp: r_def same_rank_def split: if_splits)
  next
    case False
    with 2 show ?thesis by (auto simp: same_rank_def split: if_splits option.splits)
  qed
qed (auto simp: same_rank_def)

text \<open>Identifiers that are new: an enqueue names its task by an identifier the queue has not seen (the code draws a UUID).\<close>

fun new_id :: "q_op \<Rightarrow> mem_queue \<Rightarrow> bool" where
  "new_id (QEnqueue u ty pl dk pr ma ti) q = (q_get (case ti of None \<Rightarrow> u | Some i \<Rightarrow> if i = [] then u else i) q = None)"
| "new_id _ q = True"

fun new_ids :: "(time \<times> q_op) list \<Rightarrow> mem_queue \<Rightarrow> bool" where
  "new_ids [] q = True"
| "new_ids ((now, op) # ops) q = (new_id op q \<and> new_ids ops (q_step now op q))"

lemma find_dedup_same: "find_dedup now key q = (r, q1) \<Longrightarrow> mq_tasks q1 = mq_tasks q \<and> mq_ready q1 = mq_ready q \<and> mq_sequence q1 = mq_sequence q"
  by (auto simp: find_dedup_def split: option.splits if_splits)

lemma q_order_cong: "mq_tasks q' = mq_tasks q \<Longrightarrow> mq_ready q' = mq_ready q \<Longrightarrow> q_order T q' = q_order T q"
  by (simp add: q_order_def q_get_def)

lemma q_order_dput_new:
  assumes q: "q_order T q" and new: "q_get i q = None" and t: "t_attempts t = 0" "t_created t \<le> T"
  shows "q_order T (q\<lparr>mq_tasks := dput i t (mq_tasks q)\<rparr>)"
proof -
  let ?q = "q\<lparr>mq_tasks := dput i t (mq_tasks q)\<rparr>"
  have other: "q_get j ?q = q_get j q" if "j \<noteq> i" for j using that by (simp add: q_get_def)
  have ids: "snd (snd e) \<noteq> i" if "e \<in> set (mq_ready q)" for e using q_orderD(3) [OF q that] new by auto
  have A: "0 \<le> t_attempts u \<and> t_created u \<le> T" if "q_get j ?q = Some u" for j u
    using that q_orderD(1,2) [OF q, of j u] t by (cases "j = i") (auto simp: q_get_def)
  have B: "\<exists>u. q_get (snd (snd e)) ?q = Some u \<and> fst e = - t_priority u" if "e \<in> set (mq_ready q)" for e
    using q_orderD(3) [OF q that] other [OF ids [OF that]] by simp
  have C: "t_created a \<le> t_created b" if "e \<in> set (mq_ready q)" "e' \<in> set (mq_ready q)" "fst (snd e) < fst (snd e')"
      "q_get (snd (snd e)) ?q = Some a" "q_get (snd (snd e')) ?q = Some b" "t_attempts a = 0" "t_attempts b = 0" for e e' a b
    using q_orderD(4) [OF q that(1-3)] that(4-7) other [OF ids [OF that(1)]] other [OF ids [OF that(2)]] by simp
  show ?thesis unfolding q_order_def using A B C by simp
qed

lemma q_enqueue_order:
  assumes inv: "q_inv q" and ord: "q_order now q" and new: "new_id (QEnqueue u ty pl dk pr ma ti) q"
  shows "q_order now (snd (q_enqueue now u ty pl dk pr ma ti q))"
proof (cases "mq_closed q")
  case False
  obtain ex q1 where q1: "(if dk \<noteq> [] then find_dedup now dk q else (None, q)) = (ex, q1)" by fastforce
  then have same: "mq_tasks q1 = mq_tasks q" "mq_ready q1 = mq_ready q" "mq_sequence q1 = mq_sequence q"
    using find_dedup_same [of now dk q ex q1] by (auto split: if_splits)
  have ord1: "q_order now q1" using q_order_cong [of q1 q now] same ord by simp
  show ?thesis
  proof (cases "ex \<noteq> None \<or> int (length (mq_ready q1)) \<ge> mq_maxsize q1")
    case True
    with False q1 ord1 show ?thesis by (auto simp: q_enqueue_def split: option.splits)
  next
    case False': False
    define t where "t = task_create now u (mq_name q1) ty pl dk
                           (case pr of None \<Rightarrow> mq_priority q1 | Some p \<Rightarrow> p)
                           (case ma of None \<Rightarrow> mq_max_attempts q1 | Some m \<Rightarrow> m) ti"
    define q2 where "q2 = remember_dedup now t q1"
    have q2: "mq_tasks q2 = mq_tasks q" "mq_ready q2 = mq_ready q" "mq_sequence q2 = mq_sequence q"
      using same by (simp_all add: q2_def remember_dedup_def Let_def)
    have t: "q_get (t_id t) q2 = None" "t_attempts t = 0" "t_created t = now"
      using new by (simp_all add: t_def task_create_def q_get_def q2 split: option.splits)
    have "q_order now q2" using q_order_cong [of q2 q now] q2 ord by simp
    then have o3: "q_order now (q2\<lparr>mq_tasks := dput (t_id t) t (mq_tasks q2)\<rparr>)" by (rule q_order_dput_new) (simp_all add: t)
    have "snd (q_enqueue now u ty pl dk pr ma ti q) = q_push t (q2\<lparr>mq_tasks := dput (t_id t) t (mq_tasks q2)\<rparr>)"
      using False False' q1 by (simp add: q_enqueue_def t_def [symmetric] Let_def remember_dedup_put q2_def)
    moreover have "q_order now (q_push t (q2\<lparr>mq_tasks := dput (t_id t) t (mq_tasks q2)\<rparr>))"
      by (rule q_order_push [OF o3]) (use q_invD(4) [OF inv] in \<open>simp_all add: q_get_def t q2\<close>)
    ultimately show ?thesis by simp
  qed
qed (use ord in \<open>simp add: q_enqueue_def\<close>)

lemma q_fail_order:
  assumes inv: "q_inv q" and ord: "q_order T q"
  shows "q_order T (snd (q_fail now t e b q))"
proof (cases "dget (mq_tasks q) (t_id t)")
  case None
  with ord show ?thesis by (simp add: q_fail_def)
next
  case (Some c)
  then have get: "q_get (t_id t) q = Some c" by (simp add: q_get_def)
  have id: "t_id c = t_id t" by (rule q_inv_id [OF inv Some])
  define f where "f = (\<lambda>st. c\<lparr>t_attempts := t_attempts c + 1, t_error := e, t_updated := now, t_status := st\<rparr>)"
  define r where "r = (f QUEUED)\<lparr>t_owner := [], t_lease := 0\<rparr>"
  have put: "q_order T (q\<lparr>mq_tasks := dput (t_id t) (f st) (mq_tasks q)\<rparr>)" for st
    by (rule q_order_put [OF ord get]) (simp add: f_def same_rank_def)
  have "q_order T (q\<lparr>mq_tasks := dput (t_id t) r (mq_tasks q)\<rparr>)"
    by (rule q_order_put [OF ord get]) (simp add: r_def f_def same_rank_def)
  then have "q_order T (q_push r (q\<lparr>mq_tasks := dput (t_id t) r (mq_tasks q)\<rparr>))"
    by (rule q_order_push)
       (use q_orderD(1) [OF ord get] q_invD(4) [OF inv] id in \<open>simp_all add: q_get_def r_def f_def\<close>)
  with put show ?thesis by (simp add: q_fail_def Some Let_def f_def r_def)
qed

lemma q_step_order:
  assumes inv: "q_inv q" and ord: "q_order T q" and now: "T \<le> now" and new: "new_id op q"
  shows "q_order now (q_step now op q)"
proof -
  have o: "q_order now q" by (rule q_order_mono [OF ord now])
  show ?thesis
  proof (cases op)
    case (QEnqueue u ty pl dk pr ma ti)
    with q_enqueue_order [OF inv o] new show ?thesis by simp
  next
    case (QClaim c n)
    obtain cl ready tasks where cl: "claim_loop now (mq_lease q) c (max 1 n) [] (mq_ready q) (mq_tasks q) = (cl, ready, tasks)"
      by (metis prod.collapse)
    have "\<forall>i t. dget (mq_tasks q) i = Some t \<longrightarrow> t_id t = i" using inv by (simp add: q_inv_def q_get_def)
    then have "suffix ready (mq_ready q)" using claim_loop_spec [OF cl] by blast
    then have "set ready \<subseteq> set (mq_ready q)" by (auto simp: suffix_def)
    then have "q_order now (q\<lparr>mq_ready := ready, mq_tasks := tasks\<rparr>)"
      by (intro q_order_keep [OF o]) (use claim_loop_rank [OF cl] claim_loop_dom [OF cl] in \<open>auto simp: q_get_def\<close>)
    then show ?thesis by (simp add: QClaim q_claim_def cl)
  next
    case (QFail t e b)
    with q_fail_order [OF inv o] show ?thesis by simp
  next
    case QClose
    with o show ?thesis by (simp add: q_close_def q_order_def q_get_def)
  qed (use o q_order_put [OF o] in \<open>auto simp: q_heartbeat_def q_ack_def q_cancel_def q_get_def same_rank_def split: option.split\<close>)
qed

lemma q_run_order:
  "q_inv q \<Longrightarrow> q_order T q \<Longrightarrow> sorted (T # map fst ops) \<Longrightarrow> new_ids ops q \<Longrightarrow> \<exists>T'. q_order T' (q_run ops q)"
proof (induction ops arbitrary: T q)
  case Nil
  then show ?case by (auto simp: q_run_def)
next
  case (Cons x ops)
  obtain now op where x: "x = (now, op)" by fastforce
  have "q_order now (q_step now op q)" using q_step_order Cons.prems x by auto
  from Cons.IH [OF q_step_inv [OF Cons.prems(1)] this] Cons.prems x show ?case by (auto simp: q_run_def)
qed

lemma q_order_new: "q_order T (new_mem_queue name maxsize lease attempts ttl)"
  by (simp add: q_order_def q_get_def new_mem_queue_def)

section \<open>Properties\<close>

text \<open>C2: A worker drains the queue: from any consistent queue with no task running, as many turns as
  there are waiting entries and retries left bring every task to a final state, whatever the
  handlers do.\<close>

theorem worker_drains:
  assumes "q_inv q" and "idle q" and "work q \<le> length turns" and "consume_loop c h turns (q, s) = (q', s')"
  shows "mq_ready q' = [] \<and> (\<forall>i t. q_get i q' = Some t \<longrightarrow> terminal (t_status t))"
proof -
  have q': "q_inv q'" "idle q'" "mq_ready q' = []"
    using consume_loop_spec [OF assms(1,2), of turns c h s] assms(3,4) by auto
  have "t_status t \<noteq> QUEUED" if "q_get i q' = Some t" for i t
    using q_invD(2) [OF q'(1) that] q'(3) by auto
  with q' show ?thesis by (auto simp: idle_def terminal_iff)
qed

definition demo_task :: task where
  "demo_task = task_create 0 ''id'' ''q'' ''t'' [] [] 0 2 None"

theorem worker_drains_witness:
  "\<exists>q' s'. consume_loop ''c'' (\<lambda>_. Some (\<lambda>t n. (Inl ''boom'', n + 1 :: nat))) [1, 2, 3]
      (snd (q_enqueue 0 ''id'' ''t'' [] [] None (Some 2) None (new_mem_queue ''q'' 10 60 5 0)), 0) = (q', s') \<and>
    mq_ready q' = [] \<and> (\<forall>i t. q_get i q' = Some t \<longrightarrow> terminal (t_status t))"
proof -
  define q where "q = snd (q_enqueue 0 ''id'' ''t'' [] [] None (Some 2) None (new_mem_queue ''q'' 10 60 5 0))"
  have inv: "q_inv q" by (simp add: q_def q_enqueue_inv q_inv_new)
  have tasks: "mq_tasks q = [(''id'', demo_task)]" "mq_ready q = [(0, 1, ''id'')]"
    by (simp_all add: q_def q_enqueue_def new_mem_queue_def q_push_def task_create_def remember_dedup_def demo_task_def Let_def)
  have idle: "idle q" by (auto simp: idle_def q_get_def tasks demo_task_def task_create_def)
  have work: "work q \<le> length [1, 2, 3 :: time]"
    by (simp add: work_def tasks credit_single slack_def demo_task_def task_create_def)
  obtain q' and s' :: nat where r: "consume_loop ''c'' (\<lambda>_. Some (\<lambda>t n. (Inl ''boom'', n + 1 :: nat))) [1, 2, 3] (q, 0) = (q', s')"
    by fastforce
  with worker_drains [OF inv idle work r] show ?thesis unfolding q_def by blast
qed

text \<open>C5: In a queue reached by any operations in the order of their times, each new task with an identifier of its own, a claim of
  one task takes a queued task of the highest priority and, among those of that priority that never failed, of the earliest
  creation; it marks that task as running for the consumer with a fresh lease and changes no other; and it comes old empty
  only when no task is queued.\<close>

theorem claim_best_first:
  assumes "q = q_run ops (new_mem_queue name maxsize lease attempts ttl)" and "q_claim now c 1 q = (claimed, q')"
    and "sorted (map fst ops)" and "new_ids ops (new_mem_queue name maxsize lease attempts ttl)"
  shows "case claimed of
      [] \<Rightarrow> \<forall>i t. q_get i q = Some t \<longrightarrow> t_status t \<noteq> QUEUED
    | t # ts \<Rightarrow> ts = [] \<and>
        (\<exists>t0. q_get (t_id t) q = Some t0 \<and> t_status t0 = QUEUED \<and>
           t = t0\<lparr>t_status := RUNNING, t_owner := c, t_lease := now + of_int (mq_lease q), t_updated := now\<rparr>) \<and>
        q_get (t_id t) q' = Some t \<and> (\<forall>i. i \<noteq> t_id t \<longrightarrow> q_get i q' = q_get i q) \<and>
        (\<forall>i u. q_get i q = Some u \<longrightarrow> t_status u = QUEUED \<longrightarrow> t_priority u \<le> t_priority t \<and>
           (t_priority u = t_priority t \<longrightarrow> t_attempts u = 0 \<longrightarrow> t_attempts t = 0 \<longrightarrow> t_created t \<le> t_created u))"
proof -
  have inv: "q_inv q" using assms(1) by (simp add: q_run_inv q_inv_new)
  have "sorted (Min (set (0 # map fst ops)) # map fst ops)" using assms(3) by auto
  from q_run_order [OF q_inv_new q_order_new this assms(4)] obtain T where ord: "q_order T q" using assms(1) by blast
  from inv show ?thesis
  proof (cases rule: q_claim_one [of q now c])
    case empty
    with assms(2) show ?thesis by (auto simp: queued_ids_def)
  next
    case (one pre e rest t t')
    have c: "claimed = [t']" "q' = q\<lparr>mq_ready := rest, mq_tasks := dput (t_id t) t' (mq_tasks q)\<rparr>"
      using assms(2) one(7) by auto
    have get: "q_get (t_id t) q = Some t" using one(3,5) by (simp add: q_get_def)
    have e: "e \<in> set (mq_ready q)" "fst e = - t_priority t" using q_orderD(3) [OF ord, of e] one(1,3) by (auto simp: q_get_def)
    have best: "t_priority u \<le> t_priority t \<and>
        (t_priority u = t_priority t \<longrightarrow> t_attempts u = 0 \<longrightarrow> t_attempts t = 0 \<longrightarrow> t_created t \<le> t_created u)"
      if u: "q_get i q = Some u" "t_status u = QUEUED" for i u
    proof -
      obtain x where x: "x \<in> set (mq_ready q)" "snd (snd x) = i"
        using q_invD(2) [OF inv u] by (auto simp: entry_ids_def)
      have px: "fst x = - t_priority u" using q_orderD(3) [OF ord x(1)] u(1) x(2) by auto
      have "x \<notin> set pre" using one(2) u x(2) by (auto simp: is_queued_def q_get_def)
      then have "x = e \<or> entry_less e x" using x(1) one(1) q_invD(3) [OF inv] by (auto simp: sorted_wrt_append)
      then show ?thesis
      proof
        assume "x = e"
        then have "i = t_id t" using x(2) one(5) by simp
        then show ?thesis using u(1) get by simp
      next
        assume less: "entry_less e x"
        have "t_created t \<le> t_created u" if "t_priority u = t_priority t" "t_attempts u = 0" "t_attempts t = 0"
          using q_orderD(4) [OF ord e(1) x(1)] less e(2) px that u(1) get x(2) one(5) by (auto simp: entry_less_def)
        then show ?thesis using less e(2) px by (auto simp: entry_less_def)
      qed
    qed
    have id: "t_id t' = t_id t" and rank: "t_priority t' = t_priority t" "t_attempts t' = t_attempts t" "t_created t' = t_created t"
      by (simp_all add: one(6))
    have "q_get (t_id t) q' = Some t'" "\<forall>i. i \<noteq> t_id t \<longrightarrow> q_get i q' = q_get i q" by (simp_all add: c q_get_def)
    then show ?thesis using best get one(4,6) by (simp add: c(1) id rank)
  qed
qed

theorem claim_best_first_witness:
  "\<exists>t q'. q_claim 5 ''w'' 1 (q_run [(0, QEnqueue ''a'' ''x'' [] [] (Some 1) None None),
      (0, QEnqueue ''b'' ''x'' [] [] (Some 9) None None)] (new_mem_queue ''q'' 10 60 5 0)) = ([t], q') \<and>
     t_priority t = 9 \<and> t_owner t = ''w''"
proof -
  define ops where "ops = [(0 :: time, QEnqueue ''a'' ''x'' [] [] (Some 1) None None),
      (0, QEnqueue ''b'' ''x'' [] [] (Some 9) None None)]"
  define q where "q = q_run ops (new_mem_queue ''q'' 10 60 5 0)"
  have tasks: "mq_tasks q = [(''a'', task_create 0 ''a'' ''q'' ''x'' [] [] 1 5 None), (''b'', task_create 0 ''b'' ''q'' ''x'' [] [] 9 5 None)]"
    by (simp_all add: q_def ops_def q_run_def q_enqueue_def new_mem_queue_def q_push_def task_create_def
        remember_dedup_def entry_less_def Let_def)
  have b: "q_get ''b'' q = Some (task_create 0 ''b'' ''q'' ''x'' [] [] 9 5 None)" by (simp add: q_get_def tasks)
  have prios: "t_priority u \<le> 9" if "q_get i q = Some u" for i u
    using that by (auto simp: q_get_def tasks task_create_def split: if_splits)
  have new: "new_ids ops (new_mem_queue ''q'' 10 60 5 0)"
    by (simp add: ops_def q_get_def q_enqueue_def new_mem_queue_def q_push_def task_create_def remember_dedup_def Let_def)
  obtain cl q' where c: "q_claim 5 ''w'' 1 q = (cl, q')" by fastforce
  have "sorted (map fst ops)" by (simp add: ops_def)
  note r = claim_best_first [OF q_def c this new]
  have queued: "t_status (task_create 0 ''b'' ''q'' ''x'' [] [] 9 5 None) = QUEUED"
    "t_priority (task_create 0 ''b'' ''q'' ''x'' [] [] 9 5 None) = 9" by (simp_all add: task_create_def)
  obtain t where t: "cl = [t]" using r b queued by (cases cl) auto
  from r have "\<forall>i u. q_get i q = Some u \<longrightarrow> t_status u = QUEUED \<longrightarrow> t_priority u \<le> t_priority t" by (simp add: t)
  with b queued have "9 \<le> t_priority t" by metis
  moreover have "t_priority t \<le> 9" "t_owner t = ''w''" using r prios by (auto simp: t)
  ultimately show ?thesis using t c by (auto simp: q_def ops_def)
qed

text \<open>A deduplication key gives one task: while its record has not expired, after any run of
  operations, enqueueing with the same key creates nothing and answers the task first created, in
  whatever state it is by then; only a closed queue refuses.\<close>

theorem enqueue_dedup:
  assumes "q_enqueue t0 u ty pl key pr ma ti q = (Inr t, q1)" and "fst (find_dedup t0 key q) = None"
    and "key \<noteq> []" and "mq_dedup_ttl q \<noteq> 0"
    and "\<forall>(now, op) \<in> set ops. now < t0 + of_int (mq_dedup_ttl q)" and "t1 < t0 + of_int (mq_dedup_ttl q)"
  shows "q_enqueue t1 u' ty' pl' key pr' ma' ti' (q_run ops q1) =
    (if mq_closed (q_run ops q1) then Inl QueueClosed else Inr (the (q_get (t_id t) (q_run ops q1))), q_run ops q1)"
proof -
  have "dedup_live key (t_id t) (t0 + of_int (mq_dedup_ttl q)) (q_run ops q1)"
    by (rule q_run_live [OF q_enqueue_first [OF assms(1-4)] assms(5)])
  from find_dedup_live [OF this assms(6)] assms(3) show ?thesis
    by (auto simp: q_enqueue_def)
qed

theorem enqueue_dedup_witness:
  "\<exists>t. q_enqueue 9 ''v'' ''x'' [] ''k'' None None None
     (q_run [(5, QClaim ''w'' 1)] (snd (q_enqueue 0 ''u'' ''x'' [] ''k'' None None None (new_mem_queue ''q'' 10 60 5 100)))) =
     (Inr t, q_run [(5, QClaim ''w'' 1)] (snd (q_enqueue 0 ''u'' ''x'' [] ''k'' None None None (new_mem_queue ''q'' 10 60 5 100))))"
proof -
  define q0 where "q0 = new_mem_queue ''q'' 10 60 5 100"
  have e: "q_enqueue 0 ''u'' ''x'' [] ''k'' None None None q0 =
      (Inr (task_create 0 ''u'' ''q'' ''x'' [] ''k'' 0 5 None), snd (q_enqueue 0 ''u'' ''x'' [] ''k'' None None None q0))"
    by (simp add: q0_def q_enqueue_def new_mem_queue_def find_dedup_def task_create_def Let_def)
  have opened: "\<not> mq_closed (q_run [(5, QClaim ''w'' 1)] (snd (q_enqueue 0 ''u'' ''x'' [] ''k'' None None None q0)))"
    by (simp add: q0_def q_run_def q_claim_def q_enqueue_def new_mem_queue_def find_dedup_def Let_def
        remember_dedup_def split: prod.split)
  show ?thesis
    using enqueue_dedup [OF e, of "[(5, QClaim ''w'' 1)]" 9 "''v''" "''x''" "[]" None None None] opened
    by (auto simp: q0_def new_mem_queue_def find_dedup_def)
qed

text \<open>Running a claimed task settles it, on every branch: without a handler it fails for good, a
  handler that raises costs an attempt and requeues the task until its attempts are used up, a handler
  that returns makes it succeed with the result; no other task is touched.\<close>

theorem run_task_settles:
  assumes "q_inv q" and "q_get (t_id t) q = Some c" and "run_task (q_ack now) (q_fail now) h t (q, s) = (q', s')"
  shows "(\<forall>i. i \<noteq> t_id t \<longrightarrow> q_get i q' = q_get i q) \<and> (\<exists>c'. q_get (t_id t) q' = Some c' \<and> t_max c' = t_max c \<and>
    (case h (t_type t) of
       None \<Rightarrow> t_status c' = FAILED \<and> t_attempts c' = t_attempts c + 1
     | Some handler \<Rightarrow>
         (case fst (handler t s) of
            Inr r \<Rightarrow> t_status c' = SUCCEEDED \<and> t_result c' = r \<and> t_attempts c' = t_attempts c
          | Inl e \<Rightarrow> t_error c' = e \<and> t_attempts c' = t_attempts c + 1 \<and>
              t_status c' = (if t_attempts c + 1 < t_max c then QUEUED else DEAD))))"
  using mq.run_settles [OF assms(1,2), of now h s] mq.run_other [OF assms(1), of _ t now h s] assms(3) by simp

theorem run_task_settles_witness:
  "\<exists>q' s'. run_task (q_ack 1) (q_fail 1) (\<lambda>_. Some (\<lambda>t n. (Inl ''boom'', n + 1 :: nat))) demo_task
      ((new_mem_queue ''q'' 10 60 5 0)\<lparr>mq_tasks := [(''id'', demo_task\<lparr>t_status := RUNNING\<rparr>)]\<rparr>, 0) = (q', s') \<and>
    (\<exists>c'. q_get ''id'' q' = Some c' \<and> t_status c' = QUEUED \<and> t_attempts c' = 1)"
proof -
  define q where "q = (new_mem_queue ''q'' 10 60 5 0)\<lparr>mq_tasks := [(''id'', demo_task\<lparr>t_status := RUNNING\<rparr>)]\<rparr>"
  have inv: "q_inv q" by (simp add: q_def q_inv_def queued_ids_def q_get_def new_mem_queue_def demo_task_def task_create_def)
  have id: "t_id demo_task = ''id''" by (simp add: demo_task_def task_create_def)
  have look: "q_get (t_id demo_task) q = Some (demo_task\<lparr>t_status := RUNNING\<rparr>)" by (simp add: q_get_def q_def id)
  obtain q' and s' :: nat where r: "run_task (q_ack 1) (q_fail 1) (\<lambda>_. Some (\<lambda>t n. (Inl ''boom'', n + 1 :: nat))) demo_task (q, 0) = (q', s')"
    by fastforce
  from run_task_settles [OF inv look r] have "\<exists>c'. q_get ''id'' q' = Some c' \<and> t_status c' = QUEUED \<and> t_attempts c' = 1"
    by (auto simp: id) (auto simp: demo_task_def task_create_def)
  with r show ?thesis unfolding q_def by blast
qed

end
