(* ===== verification/TaskCodec.thy ===== *)
theory TaskCodec
  imports TaskQueue
begin

text \<open>
  The text forms of a task (\<open>infrastructure/task_queue/models.py\<close>): \<open>to_stream\<close> and \<open>from_stream\<close>
  for the entries of a stream, \<open>to_hash\<close> and \<open>from_hash\<close> for its status record. The JSON library is
  a parameter: \<open>dumps\<close> writes a dictionary, \<open>loads\<close> reads a text, \<open>None\<close> when it raises.
\<close>

section \<open>Fixed point text\<close>

text \<open>\<open>f"{x:.6f}"\<close>: rounded half to even at the sixth decimal.\<close>

fun pad_digits :: "nat \<Rightarrow> nat \<Rightarrow> string" where
  "pad_digits 0 n = []"
| "pad_digits (Suc w) n = pad_digits w (n div 10) @ [char_of (48 + n mod 10)]"

definition fixed6 :: "rat \<Rightarrow> string" where
  "fixed6 x =
     (let m = nat (round_half_even (\<bar>x\<bar> * 1000000))
      in (if x < 0 then ''-'' else []) @ nat_str (m div 1000000) @ ''.'' @ pad_digits 6 (m mod 1000000))"

lemma pad_digits_props: "length (pad_digits w n) = w \<and> list_all is_digit (pad_digits w n)"
  by (induction w arbitrary: n) (auto simp: digit_char)

lemma digits_val_snoc: "digits_val (xs @ map digit_of [char_of (48 + n mod 10)]) = 10 * digits_val xs + n mod 10"
  using digit_char [of "n mod 10"] by (simp add: digits_val_append)

lemma pad_digits_val: "n < 10 ^ w \<Longrightarrow> digits_val (map digit_of (pad_digits w n)) = n"
proof (induction w arbitrary: n)
  case 0
  then show ?case by (simp add: digits_val_def)
next
  case (Suc w)
  then have "n div 10 < 10 ^ w" by (simp add: less_mult_imp_div_less mult.commute)
  with Suc.IH [of "n div 10"] show ?case
    using digits_val_snoc [of "map digit_of (pad_digits w (n div 10))" n] by simp
qed

lemma scan_more_point:
  "list_all is_digit a \<Longrightarrow> scan_more (a @ CHR ''.'' # r) = (map digit_of a, CHR ''.'' # r)"
proof (induction a)
  case Nil
  have "\<not> is_digit (CHR ''.'')" by (simp add: is_digit_def ord_def)
  then show ?case by (cases r) auto
next
  case (Cons c a)
  then show ?case by (cases a) auto
qed

lemma scan_digits_point:
  "a \<noteq> [] \<Longrightarrow> list_all is_digit a \<Longrightarrow> scan_digits (a @ CHR ''.'' # r) = (map digit_of a, CHR ''.'' # r)"
  using scan_more_point [of a r] by (cases a) (auto simp: scan_digits_def)

lemma digits_val_concat: "digits_val (xs @ ys) = digits_val xs * 10 ^ length ys + digits_val ys"
proof (induction ys rule: rev_induct)
  case (snoc y ys)
  then show ?case using digits_val_append [of "xs @ ys" y] digits_val_append [of ys y] by simp
qed (simp add: digits_val_def)

lemma float_of_fixed:
  assumes "n < 10 ^ w" and "0 < w"
  shows "py_float (nat_str m @ ''.'' @ pad_digits w n) = Some (Fin (of_nat (m * 10 ^ w + n) / 10 ^ w))"
proof -
  let ?s = "nat_str m @ CHR ''.'' # pad_digits w n"
  note d = nat_str_digits [of m]
  have p: "length (pad_digits w n) = w" "list_all is_digit (pad_digits w n)" "pad_digits w n \<noteq> []"
    using pad_digits_props [of w n] assms(2) by auto
  have dl: "is_digit (last (pad_digits w n))" using p by (simp add: list_all_iff)
  have dh: "is_digit (hd (nat_str m))" using d by (cases "nat_str m") auto
  have strip: "strip ?s = ?s"
    using d p dl dh by (intro strip_id) (auto simp: digit_not_space)
  have sign: "take_sign ?s = (False, ?s)"
    using d dh by (cases "nat_str m") (auto simp: take_sign_def digit_not_sign)
  have low: "lower ?s \<noteq> ''inf'' \<and> lower ?s \<noteq> ''infinity'' \<and> lower ?s \<noteq> ''nan''"
    using d dh by (intro lower_digit_hd) auto
  have "digits_val (map digit_of (nat_str m) @ map digit_of (pad_digits w n)) = m * 10 ^ w + n"
    by (simp add: digits_val_concat digits_val_nat_str pad_digits_val assms(1) p(1))
  with strip sign low d p assms(2) show ?thesis
    by (simp add: py_float_def unsigned_float_def scan_digits_point scan_digits_digits scan_frac_def scan_exp_def
        pow10_def)
qed

text \<open>A time is read back rounded to a microsecond.\<close>

definition to_micros :: "rat \<Rightarrow> rat" where
  "to_micros x = of_int (round_half_even (x * 1000000)) / 1000000"

lemma to_micros_idem: "to_micros (to_micros x) = to_micros x"
  by (simp add: to_micros_def round_half_even_def)

lemma to_micros_close: "\<bar>to_micros x - x\<bar> \<le> 1 / 2000000"
proof -
  define y where "y = x * 1000000"
  have "\<bar>of_int (round_half_even y) - y\<bar> \<le> 1 / 2"
    using floor_correct [of y] by (simp add: round_half_even_def Let_def)
  then have "\<bar>(of_int (round_half_even y) - y) / 1000000\<bar> \<le> 1 / 2000000" by simp
  moreover have "to_micros x - x = (of_int (round_half_even y) - y) / 1000000"
    by (simp add: to_micros_def y_def diff_divide_distrib)
  ultimately show ?thesis by (simp only:)
qed

lemma float_fixed6:
  assumes "0 \<le> x"
  shows "py_float (fixed6 x) = Some (Fin (to_micros x))"
proof -
  define n where "n = nat (round_half_even (x * 1000000))"
  have "0 \<le> round_half_even (x * 1000000)" using assms by (intro round_half_even_nonneg) simp
  then have n: "to_micros x = of_nat n / 1000000" by (simp add: to_micros_def n_def)
  have "fixed6 x = nat_str (n div 1000000) @ ''.'' @ pad_digits 6 (n mod 1000000)"
    using assms by (simp add: fixed6_def Let_def n_def)
  moreover have "n mod 1000000 < 10 ^ 6" by simp
  ultimately show ?thesis using float_of_fixed [of "n mod 1000000" 6 "n div 1000000"] by (simp add: n)
qed

section \<open>The records\<close>

type_synonym fields = "(string, string) dict"

definition as_text :: "string option \<Rightarrow> string" where
  "as_text v = (case v of None \<Rightarrow> [] | Some s \<Rightarrow> s)"

definition as_int :: "string option \<Rightarrow> int \<Rightarrow> int" where
  "as_int v d = (case v of None \<Rightarrow> d | Some s \<Rightarrow> (case py_int s of None \<Rightarrow> d | Some n \<Rightarrow> n))"

text \<open>The readers of times give an exact number. Python reads \<open>inf\<close> and \<open>nan\<close> as floats of their own; here such a text, which no
  writer of a task produces, gives the default.\<close>

definition as_float :: "string option \<Rightarrow> rat \<Rightarrow> rat" where
  "as_float v d = (case v of None \<Rightarrow> d | Some s \<Rightarrow> (case py_float s of Some (Fin x) \<Rightarrow> x | _ \<Rightarrow> d))"

fun status_value :: "task_status \<Rightarrow> string" where
  "status_value QUEUED = ''queued''"
| "status_value RUNNING = ''running''"
| "status_value SUCCEEDED = ''succeeded''"
| "status_value FAILED = ''failed''"
| "status_value CANCELLED = ''cancelled''"
| "status_value DEAD = ''dead''"

definition all_status :: "task_status list" where
  "all_status = [QUEUED, RUNNING, SUCCEEDED, FAILED, CANCELLED, DEAD]"

definition as_status :: "string option \<Rightarrow> task_status" where
  "as_status v = (case find (\<lambda>s. status_value s = as_text v) all_status of None \<Rightarrow> QUEUED | Some s \<Rightarrow> s)"

definition to_stream :: "(pydict \<Rightarrow> string) \<Rightarrow> task \<Rightarrow> fields" where
  "to_stream dumps t =
     [(''task_id'', t_id t), (''queue_name'', t_queue t), (''task_type'', t_type t),
      (''payload'', dumps (t_payload t)), (''dedup_key'', t_dedup t),
      (''priority'', int_str (t_priority t)), (''attempts'', int_str (t_attempts t)),
      (''max_attempts'', int_str (t_max t)), (''created_at'', fixed6 (t_created t))]"

definition from_stream :: "(string \<Rightarrow> pyval option) \<Rightarrow> time \<Rightarrow> fields \<Rightarrow> string \<Rightarrow> task" where
  "from_stream loads now f stream_id =
     \<lparr>t_id = as_text (dget f ''task_id''), t_queue = as_text (dget f ''queue_name''),
      t_type = as_text (dget f ''task_type''),
      t_payload = (case dget f ''payload'' of
                     Some raw \<Rightarrow> (if raw = [] then [] else case loads raw of Some (PDict d) \<Rightarrow> d | _ \<Rightarrow> [])
                   | None \<Rightarrow> []),
      t_dedup = as_text (dget f ''dedup_key''), t_priority = as_int (dget f ''priority'') 0,
      t_attempts = as_int (dget f ''attempts'') 0, t_max = max 1 (as_int (dget f ''max_attempts'') 5),
      t_status = QUEUED, t_stream = stream_id, t_created = as_float (dget f ''created_at'') now,
      t_updated = now, t_owner = [], t_lease = 0, t_error = [], t_retry_at = 0, t_result = None\<rparr>"

definition to_hash :: "(pydict \<Rightarrow> string) \<Rightarrow> task \<Rightarrow> fields" where
  "to_hash dumps t =
     to_stream dumps t @
     [(''status'', status_value (t_status t)), (''stream_id'', t_stream t),
      (''updated_at'', fixed6 (t_updated t)), (''lease_owner'', t_owner t),
      (''lease_until'', fixed6 (t_lease t)), (''last_error'', t_error t),
      (''next_retry_at'', fixed6 (t_retry_at t)),
      (''result'', case t_result t of None \<Rightarrow> [] | Some r \<Rightarrow> dumps r)]"

text \<open>\<open>None\<close>: the result text is not JSON and \<open>loads\<close> raises.\<close>

definition from_hash :: "(string \<Rightarrow> pyval option) \<Rightarrow> time \<Rightarrow> fields \<Rightarrow> task option" where
  "from_hash loads now f =
     (let t = from_stream loads now f (as_text (dget f ''stream_id''));
          t = t\<lparr>t_status := as_status (dget f ''status''),
                t_updated := as_float (dget f ''updated_at'') (t_created t),
                t_owner := as_text (dget f ''lease_owner''),
                t_lease := as_float (dget f ''lease_until'') 0,
                t_error := as_text (dget f ''last_error''),
                t_retry_at := as_float (dget f ''next_retry_at'') 0\<rparr>;
          raw = as_text (dget f ''result'')
      in if raw = [] then Some t
         else (case loads raw of
                 None \<Rightarrow> None
               | Some (PDict d) \<Rightarrow> Some (t\<lparr>t_result := Some d\<rparr>)
               | Some _ \<Rightarrow> Some t))"

lemma as_status_value: "as_status (Some (status_value s)) = s"
  by (cases s) (simp_all add: as_status_def as_text_def all_status_def)

lemma as_int_str: "as_int (Some (int_str n)) d = n"
  by (simp add: as_int_def)

lemma as_float_fixed6: "0 \<le> x \<Longrightarrow> as_float (Some (fixed6 x)) d = to_micros x"
  by (simp add: as_float_def float_fixed6)

section \<open>Properties\<close>

text \<open>C35: A task written to its status record is read back with every field as it was, in whatever state it is, except its four
  times, which come back rounded to the nearest microsecond, and a limit of attempts below 1, which comes back as 1; when
  the times are not negative and the JSON library reads back the payload and the result it wrote.\<close>

theorem task_hash_roundtrip:
  assumes "loads (dumps (t_payload t)) = Some (PDict (t_payload t))" and "dumps (t_payload t) \<noteq> []"
    and "\<And>r. t_result t = Some r \<Longrightarrow> loads (dumps r) = Some (PDict r) \<and> dumps r \<noteq> []"
    and "0 \<le> t_created t" "0 \<le> t_updated t" "0 \<le> t_lease t" "0 \<le> t_retry_at t"
  shows "from_hash loads now (to_hash dumps t) =
    Some (t\<lparr>t_created := to_micros (t_created t), t_updated := to_micros (t_updated t), t_lease := to_micros (t_lease t),
      t_retry_at := to_micros (t_retry_at t), t_max := max 1 (t_max t)\<rparr>)"
proof (cases "t_result t")
  case None
  with assms show ?thesis
    by (simp add: from_hash_def to_hash_def to_stream_def from_stream_def Let_def as_status_value as_int_str
        as_float_fixed6 as_text_def)
next
  case (Some r)
  with assms show ?thesis
    by (simp add: from_hash_def to_hash_def to_stream_def from_stream_def Let_def as_status_value as_int_str
        as_float_fixed6 as_text_def)
qed

text \<open>A JSON writer and reader for dictionaries of at most one text entry, for the witness.\<close>

fun mini_dumps :: "pydict \<Rightarrow> string" where
  "mini_dumps ((k, PStr v) # _) = ''{'' @ k @ '':'' @ v @ ''}''"
| "mini_dumps _ = ''{}''"

definition mini_loads :: "string \<Rightarrow> pyval option" where
  "mini_loads s =
     (case split_first CHR '':'' (butlast (tl s)) of
        None \<Rightarrow> Some (PDict []) | Some (k, v) \<Rightarrow> Some (PDict [(k, PStr v)]))"

definition demo_hashed :: task where
  "demo_hashed = (task_create (1 / 3) ''id'' ''q'' ''t'' [(''url'', PStr ''x'')] ''k'' (-2) 4 None)\<lparr>t_status := DEAD, t_error := ''e''\<rparr>"

theorem task_hash_roundtrip_witness:
  "from_hash mini_loads 9 (to_hash mini_dumps demo_hashed) =
   Some (demo_hashed\<lparr>t_created := 333333 / 1000000, t_updated := 333333 / 1000000\<rparr>)"
proof -
  have t: "to_micros (1 / 3) = 333333 / 1000000" "to_micros 0 = 0" by code_simp+
  have d: "t_payload demo_hashed = [(''url'', PStr ''x'')]" "t_result demo_hashed = None" "t_created demo_hashed = 1 / 3"
    "t_updated demo_hashed = 1 / 3" "t_lease demo_hashed = 0" "t_retry_at demo_hashed = 0" "t_max demo_hashed = 4"
    by (simp_all add: demo_hashed_def task_create_def)
  have same: "demo_hashed\<lparr>t_created := a, t_updated := b, t_lease := 0, t_retry_at := 0, t_max := 4\<rparr> =
      demo_hashed\<lparr>t_created := a, t_updated := b\<rparr>" for a b
    by (simp add: demo_hashed_def task_create_def)
  have "from_hash mini_loads 9 (to_hash mini_dumps demo_hashed) =
      Some (demo_hashed\<lparr>t_created := to_micros (t_created demo_hashed), t_updated := to_micros (t_updated demo_hashed),
        t_lease := to_micros (t_lease demo_hashed), t_retry_at := to_micros (t_retry_at demo_hashed),
        t_max := max 1 (t_max demo_hashed)\<rparr>)"
    by (rule task_hash_roundtrip) (simp_all add: d mini_loads_def)
  then show ?thesis by (simp add: d t same)
qed

end
