(* ===== verification/RateLimit.thy ===== *)
theory RateLimit
  imports PyVal
begin

text \<open>
  The rate limiter (\<open>infrastructure/rate_limiter/backends.py\<close>): rate strings, the token bucket, the
  sliding window, the concurrency semaphores and the engine that picks a backend.

  A loop that sleeps and tries again takes the list of its clock readings, one pair per iteration
  (the reading at its start and the one of its deadline test); it is \<open>Pending\<close> when the list ends
  while the caller is still waiting; a division by zero is \<open>ZeroDivision\<close>. The Redis backend is a third-party script and is left out.
\<close>

section \<open>Rate strings\<close>

definition span_digits :: "string \<Rightarrow> string \<times> string" where
  "span_digits s = (takeWhile is_digit s, dropWhile is_digit s)"

text \<open>\<open>\d+\.?\d*\<close> at the start: the number matched and the rest.\<close>

definition scan_number :: "string \<Rightarrow> (rat \<times> string) option" where
  "scan_number s =
     (let (a, r) = span_digits s
      in if a = [] then None
         else (let (b, r') = (case r of c # cs \<Rightarrow> if c = CHR ''.'' then span_digits cs else ([], r) | [] \<Rightarrow> ([], r))
               in Some (of_nat (digits_val (map digit_of (a @ b))) / 10 ^ length b, r')))"

definition unit_seconds :: "char \<Rightarrow> nat option" where
  "unit_seconds c = (if c = CHR ''s'' then Some 1 else if c = CHR ''m'' then Some 60
     else if c = CHR ''h'' then Some 3600 else if c = CHR ''d'' then Some 86400 else None)"

text \<open>\<open>None\<close> is \<open>ValueError\<close>.\<close>

definition parse_rate :: "string \<Rightarrow> (rat \<times> int) option" where
  "parse_rate rate =
     (case scan_number (strip rate) of
        None \<Rightarrow> None
      | Some (count, r1) \<Rightarrow>
          (case r1 of
             [] \<Rightarrow> None
           | c # r2 \<Rightarrow>
               if c \<noteq> CHR ''/'' then None
               else
                 let (interval, r3) = (case scan_number r2 of None \<Rightarrow> (1, r2) | Some (x, r) \<Rightarrow> (x, r))
                 in (case r3 of
                       [] \<Rightarrow> Some (count, rat_trunc interval)
                     | [u] \<Rightarrow> (case unit_seconds u of None \<Rightarrow> None
                              | Some m \<Rightarrow> Some (count, rat_trunc (interval * of_nat m)))
                     | _ \<Rightarrow> None)))"

section \<open>The token bucket\<close>

record stats =
  st_blocked :: nat
  st_waited :: nat

definition no_stats :: stats where
  "no_stats = \<lparr>st_blocked = 0, st_waited = 0\<rparr>"

definition bump_blocked :: "string \<Rightarrow> (string, stats) dict \<Rightarrow> (string, stats) dict" where
  "bump_blocked key d = (let s = get_or d key no_stats in dput key (s\<lparr>st_blocked := st_blocked s + 1\<rparr>) d)"

definition bump_waited :: "string \<Rightarrow> (string, stats) dict \<Rightarrow> (string, stats) dict" where
  "bump_waited key d = (let s = get_or d key no_stats in dput key (s\<lparr>st_waited := st_waited s + 1\<rparr>) d)"

record bucket =
  bk_tokens :: rat
  bk_last :: time

record token_buckets =
  tb_buckets :: "(string, bucket) dict"
  tb_stats :: "(string, stats) dict"

datatype attempt = Granted | Refused | Wait rat | DivZero

datatype outcome = Yes | No | Pending | ZeroDivision

text \<open>One iteration of \<open>MemoryTokenBucketBackend.acquire\<close> up to the sleep.\<close>

definition tb_refill :: "rat \<Rightarrow> rat \<Rightarrow> time \<Rightarrow> bucket \<Rightarrow> bucket" where
  "tb_refill rate burst now b =
     \<lparr>bk_tokens = min burst (bk_tokens b + (now - bk_last b) * rate), bk_last = now\<rparr>"

definition tb_attempt ::
  "string \<Rightarrow> rat \<Rightarrow> int \<Rightarrow> int \<Rightarrow> rat option \<Rightarrow> time option \<Rightarrow> time \<times> time \<Rightarrow> token_buckets \<Rightarrow>
   attempt \<times> token_buckets" where
  "tb_attempt key rate burst tokens timeout deadline nows s =
     (let (now, now2) = nows;
          buckets = setdefault key \<lparr>bk_tokens = of_int burst, bk_last = now\<rparr> (tb_buckets s);
          stats = setdefault key no_stats (tb_stats s);
          b = tb_refill rate (of_int burst) now (get_or buckets key \<lparr>bk_tokens = of_int burst, bk_last = now\<rparr>)
      in if bk_tokens b \<ge> of_int tokens then
           (Granted, \<lparr>tb_buckets = dput key (b\<lparr>bk_tokens := bk_tokens b - of_int tokens\<rparr>) buckets, tb_stats = stats\<rparr>)
         else if rate = 0 then (DivZero, \<lparr>tb_buckets = dput key b buckets, tb_stats = stats\<rparr>)
         else
           let wait_time = (of_int tokens - bk_tokens b) / rate;
               buckets = dput key b buckets
           in if (case deadline of None \<Rightarrow> False | Some d \<Rightarrow> d \<noteq> 0 \<and> now2 + wait_time > d) then
                (Refused, \<lparr>tb_buckets = buckets, tb_stats = bump_blocked key stats\<rparr>)
              else if timeout = Some 0 then
                (Refused, \<lparr>tb_buckets = buckets, tb_stats = bump_blocked key stats\<rparr>)
              else (Wait wait_time, \<lparr>tb_buckets = buckets, tb_stats = bump_waited key stats\<rparr>))"

fun tb_loop ::
  "string \<Rightarrow> rat \<Rightarrow> int \<Rightarrow> int \<Rightarrow> rat option \<Rightarrow> time option \<Rightarrow> (time \<times> time) list \<Rightarrow> token_buckets \<Rightarrow>
   outcome \<times> token_buckets" where
  "tb_loop key rate burst tokens timeout deadline [] s = (Pending, s)"
| "tb_loop key rate burst tokens timeout deadline (nows # rest) s =
     (case tb_attempt key rate burst tokens timeout deadline nows s of
        (Granted, s') \<Rightarrow> (Yes, s')
      | (Refused, s') \<Rightarrow> (No, s')
      | (DivZero, s') \<Rightarrow> (ZeroDivision, s')
      | (Wait _, s') \<Rightarrow> tb_loop key rate burst tokens timeout deadline rest s')"

definition tb_acquire ::
  "time \<Rightarrow> string \<Rightarrow> rat \<Rightarrow> int \<Rightarrow> int \<Rightarrow> rat option \<Rightarrow> (time \<times> time) list \<Rightarrow> token_buckets \<Rightarrow>
   outcome \<times> token_buckets" where
  "tb_acquire start key rate burst tokens timeout nows s =
     tb_loop key rate burst tokens timeout (map_option (\<lambda>t. start + t) timeout) nows s"

section \<open>The sliding window\<close>

record sliding_windows =
  sw_windows :: "(string, time list) dict"
  sw_stats :: "(string, stats) dict"

definition sw_attempt ::
  "string \<Rightarrow> rat \<Rightarrow> int \<Rightarrow> int \<Rightarrow> rat option \<Rightarrow> time option \<Rightarrow> time \<times> time \<Rightarrow> sliding_windows \<Rightarrow>
   attempt \<times> sliding_windows" where
  "sw_attempt key rate burst tokens timeout deadline nows s =
     (let (now, now2) = nows;
          window = (if rate > 0 then of_int burst / rate else 60);
          timestamps = dropWhile (\<lambda>t. t < now - window) (get_or (sw_windows s) key []);
          windows = (\<lambda>ts. dput key ts (sw_windows s))
      in if int (length timestamps) + tokens \<le> burst then
           (Granted, \<lparr>sw_windows = windows (timestamps @ replicate (nat tokens) now), sw_stats = sw_stats s\<rparr>)
         else if timeout = Some 0 \<or> (case deadline of None \<Rightarrow> False | Some d \<Rightarrow> d \<noteq> 0 \<and> now \<ge> d) then
           (Refused, \<lparr>sw_windows = windows timestamps, sw_stats = bump_blocked key (sw_stats s)\<rparr>)
         else
           let stats = setdefault key no_stats (sw_stats s);
               wait_time = (case timestamps of [] \<Rightarrow> 1 / 10 | t # _ \<Rightarrow> (t + window) - now)
           in if (case deadline of None \<Rightarrow> False | Some d \<Rightarrow> d \<noteq> 0 \<and> now2 + wait_time > d) then
                (Refused, \<lparr>sw_windows = windows timestamps, sw_stats = bump_blocked key stats\<rparr>)
              else (Wait (min wait_time (1 / 2)), \<lparr>sw_windows = windows timestamps, sw_stats = bump_waited key stats\<rparr>))"

fun sw_loop ::
  "string \<Rightarrow> rat \<Rightarrow> int \<Rightarrow> int \<Rightarrow> rat option \<Rightarrow> time option \<Rightarrow> (time \<times> time) list \<Rightarrow> sliding_windows \<Rightarrow>
   outcome \<times> sliding_windows" where
  "sw_loop key rate burst tokens timeout deadline [] s = (Pending, s)"
| "sw_loop key rate burst tokens timeout deadline (nows # rest) s =
     (case sw_attempt key rate burst tokens timeout deadline nows s of
        (Granted, s') \<Rightarrow> (Yes, s')
      | (Refused, s') \<Rightarrow> (No, s')
      | (DivZero, s') \<Rightarrow> (ZeroDivision, s')
      | (Wait _, s') \<Rightarrow> sw_loop key rate burst tokens timeout deadline rest s')"

definition sw_acquire ::
  "time \<Rightarrow> string \<Rightarrow> rat \<Rightarrow> int \<Rightarrow> int \<Rightarrow> rat option \<Rightarrow> (time \<times> time) list \<Rightarrow> sliding_windows \<Rightarrow>
   outcome \<times> sliding_windows" where
  "sw_acquire start key rate burst tokens timeout nows s =
     sw_loop key rate burst tokens timeout (map_option (\<lambda>t. start + t) timeout) nows s"

text \<open>The status of one key: tokens (rounded for display by the caller) or count, and the counters.\<close>

definition sw_status :: "string \<Rightarrow> sliding_windows \<Rightarrow> nat \<times> nat \<times> nat" where
  "sw_status key s =
     (length (get_or (sw_windows s) key []), st_blocked (get_or (sw_stats s) key no_stats),
      st_waited (get_or (sw_stats s) key no_stats))"

section \<open>Concurrency\<close>

text \<open>Per key a bounded semaphore (its value) and its limit.\<close>

type_synonym semaphores = "(string, int \<times> int) dict"

datatype permit = Unlimited | Permit string | TimedOut | StillWaiting

definition acquire_concurrency :: "string \<Rightarrow> string \<Rightarrow> int \<Rightarrow> rat option \<Rightarrow> semaphores \<Rightarrow> permit \<times> semaphores" where
  "acquire_concurrency uuid_hex key limit timeout s =
     (if limit \<le> 0 then (Unlimited, s)
      else
        let (v, l) = (case dget s key of
                        None \<Rightarrow> (limit, limit)
                      | Some (v, l) \<Rightarrow> if l \<noteq> limit then (limit, limit) else (v, l));
            s1 = dput key (v, l) s
        in if v > 0 then (Permit uuid_hex, dput key (v - 1, l) s1)
           else (case timeout of None \<Rightarrow> (StillWaiting, s1) | Some _ \<Rightarrow> (TimedOut, s1)))"

text \<open>A release beyond the limit raises \<open>ValueError\<close>, which is suppressed.\<close>

definition release_concurrency :: "string \<Rightarrow> string \<Rightarrow> semaphores \<Rightarrow> semaphores" where
  "release_concurrency key token s =
     (if token = [] then s
      else case dget s key of
             None \<Rightarrow> s
           | Some (v, l) \<Rightarrow> if v \<ge> l then s else dput key (v + 1, l) s)"

section \<open>The engine\<close>

datatype backend = TokenBucket token_buckets | SlidingWindow sliding_windows

record engine =
  eg_algorithm :: string
  eg_backend :: backend
  eg_sliding :: "sliding_windows option"

datatype rate_error = InvalidRate | DivisionByZero

definition backend_acquire ::
  "time \<Rightarrow> string \<Rightarrow> rat \<Rightarrow> int \<Rightarrow> int \<Rightarrow> rat option \<Rightarrow> (time \<times> time) list \<Rightarrow> backend \<Rightarrow> outcome \<times> backend" where
  "backend_acquire start key rate burst tokens timeout nows b =
     (case b of
        TokenBucket s \<Rightarrow> (let (r, s') = tb_acquire start key rate burst tokens timeout nows s in (r, TokenBucket s'))
      | SlidingWindow s \<Rightarrow> (let (r, s') = sw_acquire start key rate burst tokens timeout nows s in (r, SlidingWindow s')))"

text \<open>The polling loop of the engine: one attempt per instant until the deadline.\<close>

fun engine_poll ::
  "string \<Rightarrow> rat \<Rightarrow> int \<Rightarrow> int \<Rightarrow> time \<Rightarrow> (time \<times> time) list \<Rightarrow> backend \<Rightarrow> outcome \<times> backend" where
  "engine_poll key rate burst tokens deadline [] b = (Pending, b)"
| "engine_poll key rate burst tokens deadline ((now, now2) # rest) b =
     (case backend_acquire now key rate burst tokens (Some 0) [(now, now2)] b of
        (Yes, b') \<Rightarrow> (Yes, b')
      | (ZeroDivision, b') \<Rightarrow> (ZeroDivision, b')
      | (_, b') \<Rightarrow> if now2 \<ge> deadline then (No, b') else engine_poll key rate burst tokens deadline rest b')"

definition engine_acquire ::
  "time \<Rightarrow> string \<Rightarrow> string \<Rightarrow> int option \<Rightarrow> int \<Rightarrow> rat option \<Rightarrow> string option \<Rightarrow> (time \<times> time) list \<Rightarrow> engine \<Rightarrow>
   (rate_error + outcome) \<times> engine" where
  "engine_acquire start key rate burst tokens timeout algorithm nows e =
     (case parse_rate rate of
        None \<Rightarrow> (Inl InvalidRate, e)
      | Some (count, window) \<Rightarrow>
          if window = 0 then (Inl DivisionByZero, e)
          else
            let rate_per_sec = count / of_int window;
                burst = (case burst of None \<Rightarrow> rat_trunc count | Some b \<Rightarrow> b);
                algo = (case algorithm of None \<Rightarrow> eg_algorithm e | Some a \<Rightarrow> if a = [] then eg_algorithm e else a)
            in case eg_backend e of
                 TokenBucket _ \<Rightarrow>
                   if algo = ''sliding_window'' then
                     let s = (case eg_sliding e of None \<Rightarrow> \<lparr>sw_windows = [], sw_stats = []\<rparr> | Some s \<Rightarrow> s);
                         (r, s') = sw_acquire start key rate_per_sec burst tokens timeout nows s
                     in (Inr r, e\<lparr>eg_sliding := Some s'\<rparr>)
                   else
                     let (r, b) = (case timeout of
                            Some t \<Rightarrow> if t > 0 then engine_poll key rate_per_sec burst tokens (start + t) nows (eg_backend e)
                                      else backend_acquire start key rate_per_sec burst tokens timeout nows (eg_backend e)
                          | None \<Rightarrow> backend_acquire start key rate_per_sec burst tokens timeout nows (eg_backend e))
                     in (Inr r, e\<lparr>eg_backend := b\<rparr>)
               | SlidingWindow _ \<Rightarrow>
                   let (r, b) = (case timeout of
                          Some t \<Rightarrow> if t > 0 then engine_poll key rate_per_sec burst tokens (start + t) nows (eg_backend e)
                                    else backend_acquire start key rate_per_sec burst tokens timeout nows (eg_backend e)
                        | None \<Rightarrow> backend_acquire start key rate_per_sec burst tokens timeout nows (eg_backend e))
                   in (Inr r, e\<lparr>eg_backend := b\<rparr>))"

text \<open>The legacy \<open>RateLimiter.is_allowed\<close> on its sliding window; \<open>window\<close> is in seconds.\<close>

definition is_allowed :: "time \<times> time \<Rightarrow> string \<Rightarrow> int \<Rightarrow> int \<Rightarrow> sliding_windows \<Rightarrow> outcome \<times> sliding_windows" where
  "is_allowed nows key limit window s =
     (if window = 0 then (ZeroDivision, s)
      else let rate_per_sec = of_int limit / of_int window
      in sw_acquire (fst nows) key (rate_per_sec * 1000) limit 1 (Some 0) [nows] s)"

section \<open>The token bucket bound\<close>

text \<open>An attempt in a run: key, rate, burst, tokens, timeout, deadline, clock readings.\<close>

type_synonym tb_op = "string \<times> rat \<times> int \<times> int \<times> rat option \<times> time option \<times> time \<times> time"

text \<open>The tokens granted to \<open>k\<close> in a run of attempts on any keys.\<close>

fun tb_granted :: "string \<Rightarrow> tb_op list \<Rightarrow> token_buckets \<Rightarrow> int" where
  "tb_granted k [] s = 0"
| "tb_granted k ((key, rate, burst, tokens, timeout, deadline, nows) # ops) s =
     (let (r, s') = tb_attempt key rate burst tokens timeout deadline nows s
      in (if key = k \<and> r = Granted then tokens else 0) + tb_granted k ops s')"

text \<open>On \<open>k\<close> every attempt uses this rate and burst, at times that do not go back.\<close>

fun tb_fixed :: "string \<Rightarrow> rat \<Rightarrow> int \<Rightarrow> time \<Rightarrow> tb_op list \<Rightarrow> time \<Rightarrow> bool" where
  "tb_fixed k rate burst t0 [] t1 = (t0 \<le> t1)"
| "tb_fixed k rate burst t0 ((key, r, b, tokens, _, _, now, _) # ops) t1 =
     (if key = k then r = rate \<and> b = burst \<and> 0 \<le> tokens \<and> t0 \<le> now \<and> tb_fixed k rate burst now ops t1
      else tb_fixed k rate burst t0 ops t1)"

definition tb_level :: "string \<Rightarrow> rat \<Rightarrow> int \<Rightarrow> time \<Rightarrow> token_buckets \<Rightarrow> rat" where
  "tb_level k rate burst now s =
     (case dget (tb_buckets s) k of None \<Rightarrow> of_int burst
      | Some b \<Rightarrow> min (of_int burst) (bk_tokens b + (now - bk_last b) * rate))"

lemma tb_attempt_other:
  "key \<noteq> k \<Longrightarrow> dget (tb_buckets (snd (tb_attempt key r b n timeout d nows s))) k = dget (tb_buckets s) k"
  by (cases nows) (simp add: tb_attempt_def Let_def)

lemma tb_attempt_same:
  assumes "tb_attempt k rate burst n timeout d (now, now2) s = (r, s')"
  shows "dget (tb_buckets s') k =
    Some \<lparr>bk_tokens = tb_level k rate burst now s - (if r = Granted then of_int n else 0), bk_last = now\<rparr>"
    and "r = Granted \<longleftrightarrow> of_int n \<le> tb_level k rate burst now s"
  using assms
  by (auto simp: tb_attempt_def Let_def tb_level_def tb_refill_def get_or_def split: option.splits if_splits)

lemma tb_level_time:
  "0 \<le> rate \<Longrightarrow> t0 \<le> t1 \<Longrightarrow> tb_level k rate burst t1 s \<le> tb_level k rate burst t0 s + (t1 - t0) * rate"
proof -
  assume "0 \<le> rate" "t0 \<le> t1"
  then have "rate * t0 \<le> rate * t1" by (simp add: mult_left_mono)
  then show ?thesis by (cases "dget (tb_buckets s) k") (simp_all add: tb_level_def min_def algebra_simps)
qed

lemma tb_fixed_le: "tb_fixed k rate burst t0 ops t1 \<Longrightarrow> t0 \<le> t1"
proof (induction ops arbitrary: t0)
  case (Cons op ops)
  then show ?case by (cases op) (force split: if_splits intro: order_trans)
qed simp

lemma tb_level_cong: "dget (tb_buckets s') k = dget (tb_buckets s) k \<Longrightarrow> tb_level k r b t s' = tb_level k r b t s"
  by (simp add: tb_level_def)

lemma tb_granted_le:
  "0 \<le> rate \<Longrightarrow> tb_fixed k rate burst t0 ops t1 \<Longrightarrow>
   of_int (tb_granted k ops s) \<le> tb_level k rate burst t0 s + (t1 - t0) * rate \<or>
   (tb_granted k ops s = 0)"
proof (induction ops arbitrary: s t0)
  case Nil
  then show ?case by simp
next
  case (Cons op ops)
  obtain key r b n timeout d now now2 where op: "op = (key, r, b, n, timeout, d, now, now2)" by (cases op) auto
  obtain res s' where a: "tb_attempt key r b n timeout d (now, now2) s = (res, s')" by fastforce
  have g: "tb_granted k (op # ops) s = (if key = k \<and> res = Granted then n else 0) + tb_granted k ops s'"
    by (simp add: op a)
  show ?case
  proof (cases "key = k")
    case False
    then have "tb_level k rate burst t0 s' = tb_level k rate burst t0 s"
      using tb_attempt_other [OF False, of r b n timeout d "(now, now2)" s] a by (intro tb_level_cong) simp
    with False Cons.IH [of t0 s'] Cons.prems g op show ?thesis by simp
  next
    case True
    with Cons.prems op have fx: "r = rate" "b = burst" "0 \<le> n" "t0 \<le> now" "tb_fixed k rate burst now ops t1" by auto
    note same = tb_attempt_same [OF a [unfolded fx(1,2) True]]
    have lvl: "tb_level k rate burst now s' = min (of_int burst) (tb_level k rate burst now s - (if res = Granted then of_int n else 0))"
      by (subst tb_level_def) (simp add: same(1))
    have up: "tb_level k rate burst now s \<le> tb_level k rate burst t0 s + (now - t0) * rate"
      by (rule tb_level_time [OF Cons.prems(1) fx(4)])
    have now_t1: "now \<le> t1" by (rule tb_fixed_le [OF fx(5)])
    then have pos: "0 \<le> (t1 - now) * rate" using Cons.prems(1) by simp
    have eq: "(t1 - t0) * rate = (t1 - now) * rate + (now - t0) * rate" by (simp add: algebra_simps)
    from Cons.IH [OF Cons.prems(1) fx(5), of s'] show ?thesis
    proof
      assume ih: "of_int (tb_granted k ops s') \<le> tb_level k rate burst now s' + (t1 - now) * rate"
      have "tb_level k rate burst now s' \<le> tb_level k rate burst now s - (if res = Granted then of_int n else 0)"
        unfolding lvl by simp
      with ih up eq g True show ?thesis by (auto split: if_splits)
    next
      assume "tb_granted k ops s' = 0"
      with g True same(2) up eq pos show ?thesis by (auto split: if_splits)
    qed
  qed
qed

section \<open>The sliding window bound\<close>

text \<open>Attempts on one key with one rate and burst; the history is the instants of the granted tokens.\<close>

fun sw_history ::
  "string \<Rightarrow> rat \<Rightarrow> int \<Rightarrow> (int \<times> rat option \<times> time option \<times> time \<times> time) list \<Rightarrow> sliding_windows \<Rightarrow> time list" where
  "sw_history k rate burst [] s = []"
| "sw_history k rate burst ((tokens, timeout, deadline, nows) # ops) s =
     (let (r, s') = sw_attempt k rate burst tokens timeout deadline nows s
      in (if r = Granted then replicate (nat tokens) (fst nows) else []) @ sw_history k rate burst ops s')"

fun sw_ordered :: "time \<Rightarrow> (int \<times> rat option \<times> time option \<times> time \<times> time) list \<Rightarrow> bool" where
  "sw_ordered t [] = True"
| "sw_ordered t ((_, _, _, now, _) # ops) = (t \<le> now \<and> sw_ordered now ops)"

definition window_ts :: "string \<Rightarrow> sliding_windows \<Rightarrow> time list" where
  "window_ts k s = get_or (sw_windows s) k []"

lemma sw_attempt_spec:
  assumes "sw_attempt k rate burst n timeout d (now, now2) s = (r, s')" and "0 < rate"
  shows "window_ts k s' = dropWhile (\<lambda>t. t < now - of_int burst / rate) (window_ts k s) @
      (if r = Granted then replicate (nat n) now else [])"
    and "r = Granted \<longleftrightarrow> int (length (dropWhile (\<lambda>t. t < now - of_int burst / rate) (window_ts k s))) + n \<le> burst"
    and "r \<noteq> DivZero"
  using assms
  by (auto simp: sw_attempt_def Let_def window_ts_def split: if_splits)

definition in_window :: "rat \<Rightarrow> time \<Rightarrow> time list \<Rightarrow> nat" where
  "in_window w t xs = length (filter (\<lambda>x. t - w \<le> x \<and> x \<le> t) xs)"

lemma in_window_append [simp]: "in_window w t (xs @ ys) = in_window w t xs + in_window w t ys"
  by (simp add: in_window_def)

lemma in_window_old: "\<forall>x \<in> set xs. x < t - w \<Longrightarrow> in_window w t xs = 0"
  by (auto simp: in_window_def filter_empty_conv)

lemma in_window_le: "in_window w t xs \<le> length xs"
  by (simp add: in_window_def)

lemma in_window_future: "\<forall>x \<in> set xs. t < x \<Longrightarrow> in_window w t xs = 0"
  by (auto simp: in_window_def filter_empty_conv)

text \<open>The granted instants so far are \<open>old @ window\<close>; the old ones have left the window for good.\<close>

definition sw_inv :: "rat \<Rightarrow> int \<Rightarrow> time \<Rightarrow> time list \<Rightarrow> time list \<Rightarrow> bool" where
  "sw_inv w burst now old ts \<longleftrightarrow> (\<forall>x \<in> set old. x < now - w) \<and> (\<forall>x \<in> set ts. x \<le> now) \<and>
     (\<forall>t. int (in_window w t (old @ ts)) \<le> burst)"

lemma sw_inv_step:
  assumes inv: "sw_inv w burst now0 old ts" and t: "now0 \<le> now" and w: "0 \<le> w"
    and D: "D = dropWhile (\<lambda>t. t < now - w) ts" and n: "g = [] \<or> (g = replicate (nat n) now \<and> int (length D) + n \<le> burst)"
  shows "\<exists>old'. old' @ D @ g = old @ ts @ g \<and> sw_inv w burst now old' (D @ g)"
proof (intro exI conjI)
  let ?old = "old @ takeWhile (\<lambda>t. t < now - w) ts"
  have ts: "takeWhile (\<lambda>t. t < now - w) ts @ D = ts" by (simp add: D)
  then show eq: "?old @ D @ g = old @ ts @ g" by (metis append.assoc)
  have old: "\<forall>x \<in> set ?old. x < now - w" using inv t by (fastforce simp: sw_inv_def dest: set_takeWhileD)
  have D_le: "\<forall>x \<in> set D. x \<le> now" using inv t by (fastforce simp: sw_inv_def D dest: set_dropWhileD)
  have "int (in_window w t' (?old @ D @ g)) \<le> burst" for t'
  proof (cases "t' < now \<or> g = []")
    case True
    have "in_window w t' g = 0"
      using True n by (auto intro!: in_window_future simp: set_replicate_conv_if in_window_def)
    then have "in_window w t' (?old @ D @ g) = in_window w t' (old @ ts)"
      using eq by (metis in_window_append add.right_neutral append.assoc)
    then show ?thesis using inv by (simp only: sw_inv_def)
  next
    case False
    then have "in_window w t' ?old = 0" using old by (intro in_window_old) fastforce
    moreover have "in_window w t' (D @ g) \<le> length D + length g"
      using in_window_le [of w t' "D @ g"] by simp
    moreover have "int (length D + length g) \<le> burst \<or> nat n = 0" using n False by auto
    moreover have "nat n \<noteq> 0" using n False by auto
    ultimately show ?thesis by simp
  qed
  with old D_le n show "sw_inv w burst now ?old (D @ g)"
    by (auto simp: sw_inv_def set_replicate_conv_if split: if_splits)
qed

lemma sw_history_bound:
  assumes "0 < rate" and "0 \<le> burst"
  shows "sw_inv (of_int burst / rate) burst now0 old (window_ts k s) \<Longrightarrow> sw_ordered now0 ops \<Longrightarrow>
    int (in_window (of_int burst / rate) t (old @ window_ts k s @ sw_history k rate burst ops s)) \<le> burst"
proof (induction ops arbitrary: s old now0)
  case Nil
  then show ?case by (simp add: sw_inv_def)
next
  case (Cons op ops)
  obtain n timeout d now now2 where op: "op = (n, timeout, d, now, now2)" by (cases op) auto
  obtain r s' where a: "sw_attempt k rate burst n timeout d (now, now2) s = (r, s')" by fastforce
  let ?w = "of_int burst / rate"
  define D where "D = dropWhile (\<lambda>t. t < now - ?w) (window_ts k s)"
  define g where "g = (if r = Granted then replicate (nat n) now else [])"
  note spec = sw_attempt_spec [OF a assms(1), folded D_def]
  have w: "0 \<le> ?w" using assms by simp
  have "g = [] \<or> (g = replicate (nat n) now \<and> int (length D) + n \<le> burst)" using spec(2) by (simp add: g_def)
  from sw_inv_step [OF Cons.prems(1) _ w D_def this] Cons.prems(2) op
  obtain old' where old': "old' @ D @ g = old @ window_ts k s @ g" "sw_inv ?w burst now old' (D @ g)" by auto
  have ts': "window_ts k s' = D @ g" using spec(1) by (simp add: g_def)
  have "sw_inv ?w burst now old' (window_ts k s')" using old'(2) ts' by simp
  from Cons.IH [OF this] Cons.prems(2) op
  have "int (in_window ?w t (old' @ window_ts k s' @ sw_history k rate burst ops s')) \<le> burst" by simp
  moreover have "sw_history k rate burst (op # ops) s = g @ sw_history k rate burst ops s'"
    by (simp add: op a g_def)
  then have "old' @ window_ts k s' @ sw_history k rate burst ops s' = old @ window_ts k s @ sw_history k rate burst (op # ops) s"
    unfolding ts' by (metis append.assoc old'(1))
  ultimately show ?case by simp
qed

section \<open>Concurrency permits\<close>

text \<open>A client of one key: \<open>True\<close> asks for a permit, \<open>False\<close> gives one back if it has one.\<close>

fun permits_out :: "string \<Rightarrow> int \<Rightarrow> bool list \<Rightarrow> int \<Rightarrow> semaphores \<Rightarrow> int" where
  "permits_out key limit [] out s = out"
| "permits_out key limit (ask # ops) out s =
     (if ask then
        (case acquire_concurrency ''t'' key limit (Some 0) s of
           (Permit _, s') \<Rightarrow> permits_out key limit ops (out + 1) s'
         | (_, s') \<Rightarrow> permits_out key limit ops out s')
      else if out > 0 then permits_out key limit ops (out - 1) (release_concurrency key ''t'' s)
      else permits_out key limit ops out s)"

definition sem_inv :: "string \<Rightarrow> int \<Rightarrow> int \<Rightarrow> semaphores \<Rightarrow> bool" where
  "sem_inv key limit out s \<longleftrightarrow> 0 \<le> out \<and> out \<le> limit \<and>
     (case dget s key of None \<Rightarrow> out = 0 | Some (v, l) \<Rightarrow> l = limit \<and> v = limit - out)"

lemma permits_bound: "0 < limit \<Longrightarrow> sem_inv key limit out s \<Longrightarrow> permits_out key limit ops out s \<le> limit"
proof (induction ops arbitrary: out s)
  case Nil
  then show ?case by (simp add: sem_inv_def)
next
  case (Cons ask ops)
  show ?case
  proof (cases ask)
    case True
    obtain p s' where a: "acquire_concurrency ''t'' key limit (Some 0) s = (p, s')" by fastforce
    have "(\<exists>u. p = Permit u) \<and> sem_inv key limit (out + 1) s' \<or> p = TimedOut \<and> sem_inv key limit out s'"
      using a Cons.prems
      by (cases "dget s key") (auto simp: acquire_concurrency_def sem_inv_def Let_def split: if_splits)
    with a True Cons.IH Cons.prems(1) show ?thesis by auto
  next
    case False
    have "sem_inv key limit (out - 1) (release_concurrency key ''t'' s)" if "out > 0"
      using that Cons.prems by (cases "dget s key") (auto simp: release_concurrency_def sem_inv_def)
    with False Cons show ?thesis by simp
  qed
qed

section \<open>Rate strings\<close>

lemma span_digits_append:
  "list_all is_digit a \<Longrightarrow> r = [] \<or> \<not> is_digit (hd r) \<Longrightarrow> span_digits (a @ r) = (a, r)"
  unfolding span_digits_def
  by (induction a) (cases r; auto)+

lemma scan_number_nat:
  assumes "r = [] \<or> \<not> is_digit (hd r) \<and> hd r \<noteq> CHR ''.''"
  shows "scan_number (nat_str n @ r) = Some (of_nat n, r)"
proof -
  have "span_digits (nat_str n @ r) = (nat_str n, r)"
    using nat_str_digits [of n] assms by (intro span_digits_append) auto
  with assms show ?thesis
    using nat_str_digits [of n] by (auto simp: scan_number_def digits_val_nat_str split: list.splits)
qed

lemma unit_char: "unit_seconds u = Some m \<Longrightarrow> \<not> is_digit u \<and> u \<noteq> CHR ''.'' \<and> \<not> is_space u"
  by (auto simp: unit_seconds_def is_digit_def is_space_def ord_def Let_def split: if_splits)

lemma slash_char: "\<not> is_digit (CHR ''/'')" "\<not> is_space (CHR ''/'')"
  by (simp_all add: is_digit_def is_space_def ord_def Let_def)

lemma rate_text_strip:
  "unit_seconds u = Some m \<Longrightarrow> strip (nat_str n @ r @ [u]) = nat_str n @ r @ [u]"
proof (rule strip_id)
  have "is_digit (hd (nat_str n))" using nat_str_digits [of n] by (cases "nat_str n") auto
  with nat_str_digits [of n] show "\<not> is_space (hd (nat_str n @ r @ [u]))" by (simp add: digit_not_space)
qed (use unit_char in auto)

text \<open>With no timeout the token bucket never refuses: it waits, and forever if it has to.\<close>

lemma tb_attempt_no_timeout: "fst (tb_attempt key rate burst n None None nows s) \<noteq> Refused"
  by (cases nows) (simp add: tb_attempt_def Let_def)

lemma tb_acquire_no_timeout: "fst (tb_acquire start key rate burst n None nows s) \<noteq> No"
  unfolding tb_acquire_def
proof (induction nows arbitrary: s)
  case (Cons now nows)
  with tb_attempt_no_timeout [of key rate burst n now s] show ?case
    by (auto split: prod.split attempt.split)
qed simp

section \<open>Properties\<close>

text \<open>C16: The token bucket keeps its rate: over any run of attempts, by any callers on any keys, whatever
  their timeouts, the tokens granted on a key between two instants are at most its burst plus the
  rate times the time between them.\<close>

theorem token_bucket_rate:
  assumes "0 \<le> rate" and "0 \<le> burst" and "tb_fixed k rate burst t0 ops t1"
  shows "of_int (tb_granted k ops s) \<le> of_int burst + (t1 - t0) * rate"
proof -
  have "tb_level k rate burst t0 s \<le> of_int burst" by (simp add: tb_level_def split: option.split)
  moreover have "0 \<le> (t1 - t0) * rate" using assms(1) tb_fixed_le [OF assms(3)] by simp
  ultimately show ?thesis using tb_granted_le [OF assms(1,3), of s] assms(2) by auto
qed

theorem token_bucket_rate_witness:
  "tb_granted ''k'' [(''k'', 1, 2, 1, Some 0, None, 0, 0), (''k'', 1, 2, 1, Some 0, None, 0, 0), (''k'', 1, 2, 1, Some 0, None, 0, 0)]
      \<lparr>tb_buckets = [], tb_stats = []\<rparr> = 2 \<and>
   (of_int (tb_granted ''k'' [(''k'', 1, 2, 1, Some 0, None, 0, 0), (''k'', 1, 2, 1, Some 0, None, 0, 0), (''k'', 1, 2, 1, Some 0, None, 0, 0)]
      \<lparr>tb_buckets = [], tb_stats = []\<rparr>) :: rat) \<le> of_int 2 + (0 - 0) * 1"
  by (rule conjI [OF _ token_bucket_rate])
     (simp_all add: tb_attempt_def Let_def tb_refill_def get_or_def setdefault_def)

text \<open>C17: The sliding window bound: on a key with a fixed rate and burst, from an empty window, no
  interval of the length of the window contains more granted tokens than the burst.\<close>

theorem sliding_window_bound:
  assumes "0 < rate" and "0 \<le> burst" and "window_ts k s = []" and "sw_ordered t0 ops"
  shows "int (in_window (of_int burst / rate) t (sw_history k rate burst ops s)) \<le> burst"
  using sw_history_bound [OF assms(1,2), of t0 "[]" k s ops t] assms
  by (simp add: sw_inv_def in_window_def)

theorem sliding_window_bound_witness:
  "sw_history ''k'' 1 2 [(1, Some 0, None, 0, 0), (1, Some 0, None, 1, 1), (1, Some 0, None, 2, 2), (1, Some 0, None, 3, 3)]
     \<lparr>sw_windows = [], sw_stats = []\<rparr> = [0, 1, 3] \<and>
   int (in_window (of_int 2 / 1) 3 (sw_history ''k'' 1 2
     [(1, Some 0, None, 0, 0), (1, Some 0, None, 1, 1), (1, Some 0, None, 2, 2), (1, Some 0, None, 3, 3)]
     \<lparr>sw_windows = [], sw_stats = []\<rparr>)) \<le> 2"
  by (rule conjI [OF _ sliding_window_bound [of _ _ _ _ 0]])
     (simp_all add: sw_attempt_def Let_def get_or_def window_ts_def bump_blocked_def no_stats_def)

text \<open>The legacy limiter does not keep its window: it answers yes as soon as a thousandth of the
  window has passed since the last grants, so \<open>limit\<close> calls per minute become \<open>limit\<close> per 60 ms.\<close>

theorem legacy_limiter_window:
  assumes "1 \<le> limit" and "0 < window"
    and "\<forall>x \<in> set (window_ts key s). x < now - of_int window / 1000"
  shows "fst (is_allowed (now, now2) key limit window s) = Yes"
proof -
  have w: "of_int limit / (of_int limit * 1000 / of_int window) = (of_int window / 1000 :: rat)"
    using assms(1,2) by simp
  have drop: "dropWhile (\<lambda>t. t < now - of_int window / 1000) (get_or (sw_windows s) key []) = []"
    using assms(3) by (simp add: dropWhile_eq_Nil_conv window_ts_def)
  show ?thesis
    using assms(1,2) w by (simp add: is_allowed_def sw_acquire_def sw_attempt_def Let_def drop)
qed

theorem legacy_limiter_window_witness:
  "fst (is_allowed (1, 1) ''k'' 1 60 (snd (is_allowed (0, 0) ''k'' 1 60 \<lparr>sw_windows = [], sw_stats = []\<rparr>))) = Yes"
  by (rule legacy_limiter_window)
     (auto simp: is_allowed_def sw_acquire_def sw_attempt_def Let_def window_ts_def get_or_def split: if_splits)

text \<open>Concurrency: with one positive limit per key, whatever the order of requests and returns, the
  permits held at any time never exceed the limit.\<close>

theorem concurrency_bound:
  assumes "0 < limit" and "dget s key = None"
  shows "permits_out key limit ops 0 s \<le> limit"
  using assms by (intro permits_bound) (simp_all add: sem_inv_def)

theorem concurrency_bound_witness:
  "permits_out ''k'' 2 [True, True, True, False, True, True] 0 [] = 2 \<and>
   permits_out ''k'' 2 [True, True, True, False, True, True] 0 [] \<le> 2"
  by (rule conjI [OF _ concurrency_bound]) (simp_all add: acquire_concurrency_def release_concurrency_def Let_def)

text \<open>A rate string written as count, slash, interval and unit is read back as written, the interval
  in seconds.\<close>

theorem parse_rate_text:
  assumes "unit_seconds u = Some m"
  shows "parse_rate (nat_str n @ ''/'' @ nat_str k @ [u]) = Some (of_nat n, int (k * m)) \<and>
    parse_rate (nat_str n @ ''/'' @ [u]) = Some (of_nat n, int m)"
proof (rule conjI)
  note u = unit_char [OF assms]
  have none: "scan_number [u] = None" using u by (simp add: scan_number_def span_digits_def)
  have tr: "rat_trunc (of_nat k * of_nat m) = int k * int m" "rat_trunc (of_nat m) = int m"
    by (simp_all add: rat_trunc_def flip: of_nat_mult)
  show "parse_rate (nat_str n @ ''/'' @ nat_str k @ [u]) = Some (of_nat n, int (k * m))"
    using rate_text_strip [OF assms, of n "''/'' @ nat_str k"] u slash_char tr
    by (simp add: parse_rate_def scan_number_nat assms)
  show "parse_rate (nat_str n @ ''/'' @ [u]) = Some (of_nat n, int m)"
    using rate_text_strip [OF assms, of n "''/''"] u slash_char tr
    by (simp add: parse_rate_def scan_number_nat assms none)
qed

theorem parse_rate_text_witness:
  "parse_rate (nat_str 10 @ ''/'' @ nat_str 2 @ ''m'') = Some (10, 120)"
  using parse_rate_text [of "CHR ''m''" 60 10 2] by (simp add: unit_seconds_def)

end
