(* ===== verification/Governor.thy ===== *)
theory Governor
  imports PyVal
begin

text \<open>
  The message governor (\<open>message/core/governor.py\<close>, \<open>governor_store.py\<close>): outgoing messages are sent
  at once, deduplicated for a time, or counted in a window and merged into a summary once the window
  is over its threshold.

  \<open>'s governor_store\<close> is the abstract class \<open>GovernorStore\<close>: each operation returns \<open>None\<close> when it
  raises. The locale \<open>governor\<close> states what the governor relies on; the in-process store is its
  interpretation. SHA-1, the JSON library, the channel client, the templates and the table of message
  names are parameters.
\<close>

section \<open>Policies\<close>

record policy =
  po_mode :: string
  po_threshold :: int
  po_window :: int
  po_dedup_ttl :: int

definition new_policy :: "string \<Rightarrow> int \<Rightarrow> policy" where
  "new_policy mode threshold = \<lparr>po_mode = mode, po_threshold = threshold, po_window = 60, po_dedup_ttl = 600\<rparr>"

definition plain_policy :: policy where
  "plain_policy = new_policy ''digest'' 3"

definition default_policies :: "(string, policy) dict" where
  "default_policies =
     [(''transfer_fail'', new_policy ''digest'' 3),
      (''download_fail'', new_policy ''digest'' 3),
      (''transfer_finished'', new_policy ''digest'' 3),
      (''download_start'', new_policy ''digest'' 5),
      (''rss_added'', new_policy ''digest'' 3),
      (''rss_finished'', new_policy ''digest'' 5),
      (''site_signin'', new_policy ''digest'' 3),
      (''site_message'', new_policy ''digest'' 3),
      (''site_parse_health'', new_policy ''digest'' 3),
      (''brushtask_added'', new_policy ''digest'' 3),
      (''brushtask_remove'', new_policy ''digest'' 3),
      (''brushtask_pause'', new_policy ''digest'' 3),
      (''auto_remove_torrents'', new_policy ''digest'' 3),
      (''mediaserver_message'', new_policy ''digest'' 3),
      (''custom_message'', new_policy ''immediate'' 3),
      (''ptrefresh_date_message'', new_policy ''immediate'' 3)]"

definition default_policy :: policy where
  "default_policy = new_policy ''immediate'' 3"

fun set_modes :: "(string \<times> string) list \<Rightarrow> (string, policy) dict \<Rightarrow> (string, policy) dict" where
  "set_modes [] ps = ps"
| "set_modes ((ty, mode) # rest) ps =
     set_modes rest (dput ty ((get_or ps ty plain_policy)\<lparr>po_mode := mode\<rparr>) ps)"

text \<open>A threshold that is no number is skipped; an infinite one raises (\<open>None\<close>).\<close>

fun set_thresholds :: "(string \<times> pyval) list \<Rightarrow> (string, policy) dict \<Rightarrow> (string, policy) dict option" where
  "set_thresholds [] ps = Some ps"
| "set_thresholds ((ty, v) # rest) ps =
     (if v = PFloat PInf \<or> v = PFloat NInf then None
      else case pyval_int v of
             None \<Rightarrow> set_thresholds rest ps
           | Some n \<Rightarrow> set_thresholds rest (dput ty ((get_or ps ty plain_policy)\<lparr>po_threshold := n\<rparr>) ps))"

definition build_policies :: "(string \<times> string) list \<Rightarrow> (string \<times> pyval) list \<Rightarrow> (string, policy) dict option" where
  "build_policies modes thresholds = set_thresholds thresholds (set_modes modes default_policies)"

section \<open>The store interface and the in-process store\<close>

record 's governor_store =
  gs_incr :: "string \<Rightarrow> int \<Rightarrow> 's \<Rightarrow> int option \<times> 's"
  gs_dedup :: "string \<Rightarrow> int \<Rightarrow> 's \<Rightarrow> bool option \<times> 's"
  gs_append :: "string \<Rightarrow> string \<Rightarrow> int \<Rightarrow> 's \<Rightarrow> unit option \<times> 's"
  gs_drain :: "string \<Rightarrow> 's \<Rightarrow> string list option \<times> 's"
  gs_keys :: "string \<Rightarrow> 's \<Rightarrow> string list option \<times> 's"

record mem_gov =
  mg_window :: "(string, int \<times> time) dict"
  mg_dedup :: "(string, time) dict"
  mg_lists :: "(string, string list) dict"

definition mg_incr_window :: "time \<Rightarrow> string \<Rightarrow> int \<Rightarrow> mem_gov \<Rightarrow> int \<times> mem_gov" where
  "mg_incr_window now key ttl s =
     (let entry = (case dget (mg_window s) key of
                     None \<Rightarrow> (0, now + of_int ttl)
                   | Some (n, e) \<Rightarrow> if e \<le> now then (0, now + of_int ttl) else (n, e))
      in (fst entry + 1, s\<lparr>mg_window := dput key (fst entry + 1, snd entry) (mg_window s)\<rparr>))"

definition mg_mark_dedup :: "time \<Rightarrow> string \<Rightarrow> int \<Rightarrow> mem_gov \<Rightarrow> bool \<times> mem_gov" where
  "mg_mark_dedup now key ttl s =
     (if (case dget (mg_dedup s) key of None \<Rightarrow> False | Some e \<Rightarrow> e > now) then (True, s)
      else
        let d = dput key (now + of_int ttl) (mg_dedup s);
            d = (if length d > 8192 then filter (\<lambda>(_, v). v > now) d else d)
        in (False, s\<lparr>mg_dedup := d\<rparr>))"

definition mg_append :: "string \<Rightarrow> string \<Rightarrow> mem_gov \<Rightarrow> mem_gov" where
  "mg_append key item s = s\<lparr>mg_lists := dput key (get_or (mg_lists s) key [] @ [item]) (mg_lists s)\<rparr>"

definition mg_drain :: "string \<Rightarrow> mem_gov \<Rightarrow> string list \<times> mem_gov" where
  "mg_drain key s = (get_or (mg_lists s) key [], s\<lparr>mg_lists := dpop key (mg_lists s)\<rparr>)"

definition mg_keys :: "string \<Rightarrow> mem_gov \<Rightarrow> string list" where
  "mg_keys pattern s = filter (fnmatch pattern) (keys (mg_lists s))"

definition mg_delete :: "string \<Rightarrow> mem_gov \<Rightarrow> mem_gov" where
  "mg_delete key s = \<lparr>mg_window = dpop key (mg_window s), mg_dedup = dpop key (mg_dedup s),
     mg_lists = dpop key (mg_lists s)\<rparr>"

text \<open>The in-process store as a \<open>GovernorStore\<close>: nothing raises.\<close>

definition mem_store :: "time \<Rightarrow> mem_gov governor_store" where
  "mem_store now =
     \<lparr>gs_incr = \<lambda>k ttl s. (let (n, s') = mg_incr_window now k ttl s in (Some n, s')),
      gs_dedup = \<lambda>k ttl s. (let (b, s') = mg_mark_dedup now k ttl s in (Some b, s')),
      gs_append = \<lambda>k i _ s. (Some (), mg_append k i s),
      gs_drain = \<lambda>k s. (let (xs, s') = mg_drain k s in (Some xs, s')),
      gs_keys = \<lambda>p s. (Some (mg_keys p s), s)\<rparr>"

definition empty_gov :: mem_gov where
  "empty_gov = \<lparr>mg_window = [], mg_dedup = [], mg_lists = []\<rparr>"

section \<open>The governor\<close>

text \<open>A channel client is a dictionary with an id, or something without one.\<close>

datatype client = NoClient | Client string

record ('w) outside =
  ou_sha :: "string \<Rightarrow> string"
  ou_dumps :: "pydict \<Rightarrow> string"
  ou_loads :: "string \<Rightarrow> pyval option"
  ou_resolver :: "(string \<Rightarrow> client option) option"
  ou_label :: "string \<Rightarrow> string"
  ou_template :: "(client \<Rightarrow> string \<Rightarrow> string \<Rightarrow> nat \<Rightarrow> string list \<Rightarrow> int \<Rightarrow> (string \<times> string) option) option"
  ou_send :: "client \<Rightarrow> string \<Rightarrow> string \<Rightarrow> string \<Rightarrow> 'w \<Rightarrow> bool \<times> 'w"

record gov_config =
  gc_policies :: "(string, policy) dict"
  gc_default :: policy
  gc_enabled :: bool
  gc_flush_seconds :: int
  gc_max_samples :: int
  gc_digest_type :: string

definition new_governor :: "(string, policy) dict option \<Rightarrow> policy option \<Rightarrow> bool \<Rightarrow> int \<Rightarrow> int \<Rightarrow> gov_config" where
  "new_governor policies def_policy enabled flush_seconds max_samples =
     \<lparr>gc_policies = (case policies of None \<Rightarrow> default_policies | Some p \<Rightarrow> p),
      gc_default = (case def_policy of None \<Rightarrow> default_policy | Some p \<Rightarrow> p), gc_enabled = enabled,
      gc_flush_seconds = max 1 flush_seconds, gc_max_samples = max 1 max_samples,
      gc_digest_type = ''message_digest''\<rparr>"

definition policy_of :: "gov_config \<Rightarrow> string option \<Rightarrow> policy" where
  "policy_of g ty = (case ty of None \<Rightarrow> gc_default g
     | Some t \<Rightarrow> if t = [] then gc_default g else get_or (gc_policies g) t (gc_default g))"

fun client_id :: "client \<Rightarrow> string" where
  "client_id NoClient = []"
| "client_id (Client i) = i"

definition or_empty :: "string option \<Rightarrow> string" where
  "or_empty s = (case s of None \<Rightarrow> [] | Some t \<Rightarrow> t)"

definition scope :: "string option \<Rightarrow> client \<Rightarrow> string \<Rightarrow> string" where
  "scope ty client user_id = or_empty ty @ '':'' @ client_id client @ '':'' @ user_id"

definition gov_key :: "string \<Rightarrow> string \<Rightarrow> string" where
  "gov_key kind rest = ''msg_governor:'' @ kind @ '':'' @ rest"

text \<open>The message as it is buffered.\<close>

definition digest_item :: "string option \<Rightarrow> client \<Rightarrow> string \<Rightarrow> string option \<Rightarrow> string option \<Rightarrow> pydict" where
  "digest_item ty client user_id title text =
     [(''msg_type'', PStr (or_empty ty)), (''client_id'', PStr (client_id client)),
      (''user_id'', PStr user_id), (''title'', PStr (or_empty title)), (''text'', PStr (or_empty text))]"

definition intercept_digest ::
  "'w outside \<Rightarrow> 's governor_store \<Rightarrow> policy \<Rightarrow> client \<Rightarrow> string \<Rightarrow> string option \<Rightarrow> string option \<Rightarrow>
   string option \<Rightarrow> 's \<Rightarrow> bool option \<times> 's" where
  "intercept_digest ou st po client user_id ty title text s =
     (let sc = scope ty client user_id;
          (count, s1) = gs_incr st (gov_key ''win'' sc) (po_window po) s
      in case count of
           None \<Rightarrow> (None, s1)
         | Some n \<Rightarrow>
             if n \<le> po_threshold po then (Some False, s1)
             else
               let item = ou_dumps ou (digest_item ty client user_id title text);
                   (r, s2) = gs_append st (gov_key ''buf'' sc) item 3600 s1
               in (case r of None \<Rightarrow> None | Some _ \<Rightarrow> Some True, s2))"

text \<open>\<open>True\<close>: held back; \<open>False\<close>: the caller sends it, also when the store raises.\<close>

definition intercept ::
  "'w outside \<Rightarrow> 's governor_store \<Rightarrow> gov_config \<Rightarrow> client \<Rightarrow> string option \<Rightarrow> string option \<Rightarrow> string \<Rightarrow>
   string option \<Rightarrow> 's \<Rightarrow> bool \<times> 's" where
  "intercept ou st g client title text user_id ty s =
     (if \<not> gc_enabled g then (False, s)
      else
        let po = policy_of g ty
        in if po_mode po = ''immediate'' then (False, s)
           else
             let (r, s') =
                   (if po_mode po = ''dedup'' then
                      gs_dedup st (gov_key ''dedup'' (scope ty client user_id @ '':'' @
                          take 16 (ou_sha ou (or_empty title @ ''|'' @ or_empty text)))) (po_dedup_ttl po) s
                    else intercept_digest ou st po client user_id ty title text s)
             in (case r of None \<Rightarrow> False | Some b \<Rightarrow> b, s'))"

definition resolve_client :: "'w outside \<Rightarrow> string \<Rightarrow> client" where
  "resolve_client ou i =
     (if i = [] then NoClient
      else case ou_resolver ou of
             None \<Rightarrow> NoClient
           | Some f \<Rightarrow> (case f i of None \<Rightarrow> NoClient | Some c \<Rightarrow> c))"

definition parse_items :: "'w outside \<Rightarrow> string list \<Rightarrow> pydict list" where
  "parse_items ou raw =
     concat (map (\<lambda>e. case ou_loads ou e of Some (PDict d) \<Rightarrow> [d] | _ \<Rightarrow> []) raw)"

text \<open>A field of a buffered message, \<open>it.get(k) or ""\<close>; the governor only writes texts.\<close>

definition item_text :: "string \<Rightarrow> pydict \<Rightarrow> string" where
  "item_text k d = (case pget d k of PStr s \<Rightarrow> s | _ \<Rightarrow> [])"

text \<open>The UTF-8 bytes of the fixed parts of the summary.\<close>

definition text_pieces :: string where
  "text_pieces = map char_of [0x20, 0xe6, 0x9d, 0xa1 :: nat]"

definition text_merged :: string where
  "text_merged = map char_of [0xe5, 0xb7, 0xb2, 0xe5, 0x90, 0x88, 0xe5, 0xb9, 0xb6, 0x5d :: nat]"

definition text_sep :: string where
  "text_sep = map char_of [0xef, 0xbc, 0x9b :: nat]"

definition text_more :: string where
  "text_more = map char_of [0xe2, 0x80, 0xa6, 0xe5, 0x8f, 0xa6, 0xe6, 0x9c, 0x89, 0x20 :: nat]"

definition render_summary ::
  "'w outside \<Rightarrow> gov_config \<Rightarrow> client \<Rightarrow> string \<Rightarrow> nat \<Rightarrow> string list \<Rightarrow> int \<Rightarrow> string \<times> string" where
  "render_summary ou g client label count samples others =
     (let builtin =
            (''['' @ nat_str count @ text_pieces @ label @ text_merged,
             let text = join text_sep samples;
                 tail = text_more @ int_str others @ text_pieces
             in if others > 0 then (if text \<noteq> [] then text @ text_sep @ tail else tail) else text)
      in case ou_template ou of
           None \<Rightarrow> builtin
         | Some engine \<Rightarrow>
             (case engine client (gc_digest_type g) label count samples others of
                None \<Rightarrow> builtin
              | Some (title, text) \<Rightarrow> if title \<noteq> [] then (title, text) else builtin))"

definition send_summary :: "'w outside \<Rightarrow> gov_config \<Rightarrow> pydict list \<Rightarrow> 'w \<Rightarrow> bool \<times> 'w" where
  "send_summary ou g items w =
     (let first = hd items;
          msg_type = item_text ''msg_type'' first;
          client = resolve_client ou (item_text ''client_id'' first);
          label = ou_label ou msg_type;
          samples = map (\<lambda>it. strip (item_text ''title'' it)) (take (nat (gc_max_samples g)) items);
          samples = filter (\<lambda>s. s \<noteq> []) samples;
          others = int (length items) - int (length samples);
          (title, text) = render_summary ou g client label (length items) samples others
      in ou_send ou client title text (item_text ''user_id'' first) w)"

fun flush_keys :: "'w outside \<Rightarrow> 's governor_store \<Rightarrow> gov_config \<Rightarrow> string list \<Rightarrow> nat \<Rightarrow> 's \<times> 'w \<Rightarrow> nat \<times> 's \<times> 'w" where
  "flush_keys ou st g [] sent sw = (sent, sw)"
| "flush_keys ou st g (k # ks) sent (s, w) =
     (case gs_drain st k s of
        (None, s1) \<Rightarrow> flush_keys ou st g ks sent (s1, w)
      | (Some raw, s1) \<Rightarrow>
          let items = parse_items ou raw
          in if items = [] then flush_keys ou st g ks sent (s1, w)
             else let (ok, w1) = send_summary ou g items w
                  in flush_keys ou st g ks (if ok then sent + 1 else sent) (s1, w1))"

definition flush_once :: "'w outside \<Rightarrow> 's governor_store \<Rightarrow> gov_config \<Rightarrow> 's \<times> 'w \<Rightarrow> nat \<times> 's \<times> 'w" where
  "flush_once ou st g sw =
     (case gs_keys st (gov_key ''buf'' ''*'') (fst sw) of
        (None, s1) \<Rightarrow> (0, s1, snd sw)
      | (Some ks, s1) \<Rightarrow> flush_keys ou st g ks 0 (s1, snd sw))"

definition dedup_key :: "'w outside \<Rightarrow> string option \<Rightarrow> client \<Rightarrow> string \<Rightarrow> string option \<Rightarrow> string option \<Rightarrow> string" where
  "dedup_key ou ty client user_id title text =
     gov_key ''dedup'' (scope ty client user_id @ '':'' @ take 16 (ou_sha ou (or_empty title @ ''|'' @ or_empty text)))"

lemma intercept_off:
  "\<not> (gc_enabled g \<and> po_mode (policy_of g ty) \<noteq> ''immediate'') \<Longrightarrow> intercept ou st g c ti tx u ty s = (False, s)"
  by (cases "gc_enabled g") (simp_all add: intercept_def Let_def)

lemma intercept_dup:
  "gc_enabled g \<Longrightarrow> po_mode (policy_of g ty) = ''dedup'' \<Longrightarrow> intercept ou st g c ti tx u ty s =
     (let (r, s') = gs_dedup st (dedup_key ou ty c u ti tx) (po_dedup_ttl (policy_of g ty)) s
      in (case r of None \<Rightarrow> False | Some b \<Rightarrow> b, s'))"
  by (simp add: intercept_def Let_def dedup_key_def)

lemma intercept_dig:
  "gc_enabled g \<Longrightarrow> po_mode (policy_of g ty) \<noteq> ''immediate'' \<Longrightarrow> po_mode (policy_of g ty) \<noteq> ''dedup'' \<Longrightarrow>
   intercept ou st g c ti tx u ty s =
     (let (r, s') = intercept_digest ou st (policy_of g ty) c u ty ti tx s
      in (case r of None \<Rightarrow> False | Some b \<Rightarrow> b, s'))"
  by (simp add: intercept_def Let_def)

section \<open>The contract of a governor store\<close>

locale governor =
  fixes st :: "'s governor_store"
    and buf :: "'s \<Rightarrow> string \<Rightarrow> string list"
    and inv :: "'s \<Rightarrow> bool"
  assumes incr_buf: "inv s \<Longrightarrow> gs_incr st k ttl s = (r, s') \<Longrightarrow> inv s' \<and> buf s' = buf s"
    and dedup_buf: "inv s \<Longrightarrow> gs_dedup st k ttl s = (d, s') \<Longrightarrow> inv s' \<and> buf s' = buf s"
    and append_done: "inv s \<Longrightarrow> gs_append st k i ttl s = (Some u, s') \<Longrightarrow> inv s' \<and> buf s' = (buf s)(k := buf s k @ [i])"
    and append_raised: "inv s \<Longrightarrow> gs_append st k i ttl s = (None, s') \<Longrightarrow> inv s' \<and> buf s' = buf s"
    and drain_done: "inv s \<Longrightarrow> gs_drain st k s = (Some xs, s') \<Longrightarrow> xs = buf s k \<and> inv s' \<and> buf s' = (buf s)(k := [])"
    and drain_raised: "inv s \<Longrightarrow> gs_drain st k s = (None, s') \<Longrightarrow> inv s' \<and> buf s' = buf s"
    and keys_done: "inv s \<Longrightarrow> gs_keys st p s = (Some ks, s') \<Longrightarrow> inv s' \<and> buf s' = buf s \<and> distinct ks \<and>
        (\<forall>k. buf s k \<noteq> [] \<and> fnmatch p k \<longrightarrow> k \<in> set ks)"
begin

lemma intercept_digest_buf:
  assumes "inv s" and "intercept_digest ou st po c u ty ti tx s = (r, s')"
  shows "inv s' \<and> buf s' = (if r = Some True then (buf s)(gov_key ''buf'' (scope ty c u) :=
      buf s (gov_key ''buf'' (scope ty c u)) @ [ou_dumps ou (digest_item ty c u ti tx)]) else buf s)"
proof -
  obtain n s1 where i: "gs_incr st (gov_key ''win'' (scope ty c u)) (po_window po) s = (n, s1)" by fastforce
  note s1 = incr_buf [OF assms(1) i]
  obtain a s2 where a: "gs_append st (gov_key ''buf'' (scope ty c u)) (ou_dumps ou (digest_item ty c u ti tx)) 3600 s1 = (a, s2)"
    by fastforce
  have s2: "a = None \<Longrightarrow> inv s2 \<and> buf s2 = buf s1" using append_raised [of s1] s1 a by blast
  have s2': "a = Some x \<Longrightarrow> inv s2 \<and> buf s2 = (buf s1)(gov_key ''buf'' (scope ty c u) :=
      buf s1 (gov_key ''buf'' (scope ty c u)) @ [ou_dumps ou (digest_item ty c u ti tx)])" for x
    using append_done [of s1] s1 a by blast
  show ?thesis
    using assms(2) i a s1 s2 s2' by (auto simp: intercept_digest_def split: option.splits if_splits)
qed

text \<open>A message is held back in a buffer, held back as a duplicate, or passed; nothing else moves.\<close>

lemma intercept_buf:
  assumes "inv s" and "intercept ou st g c ti tx u ty s = (b, s')"
  shows "inv s' \<and> buf s' = (if b \<and> po_mode (policy_of g ty) \<noteq> ''dedup'' then (buf s)(gov_key ''buf'' (scope ty c u) :=
      buf s (gov_key ''buf'' (scope ty c u)) @ [ou_dumps ou (digest_item ty c u ti tx)]) else buf s)"
proof (cases "gc_enabled g \<and> po_mode (policy_of g ty) \<noteq> ''immediate''")
  case False
  with assms show ?thesis by (auto simp: intercept_off)
next
  case True
  show ?thesis
  proof (cases "po_mode (policy_of g ty) = ''dedup''")
    case True': True
    with True assms dedup_buf [OF assms(1)] show ?thesis by (auto simp: intercept_dup split: prod.splits)
  next
    case False
    obtain r s1 where d: "intercept_digest ou st (policy_of g ty) c u ty ti tx s = (r, s1)" by fastforce
    with True False assms(2) have "s' = s1" "b = (r = Some True)"
      by (auto simp: intercept_dig split: option.splits)
    with intercept_digest_buf [OF assms(1) d] False show ?thesis by auto
  qed
qed

text \<open>When no drain raises, flushing empties the drained buffers and sends one summary for each that
  holds a message.\<close>

lemma flush_keys_spec:
  assumes "\<And>k s. inv s \<Longrightarrow> fst (gs_drain st k s) \<noteq> None"
  shows "inv s \<Longrightarrow> distinct ks \<Longrightarrow> flush_keys ou st g ks n (s, w) = (n', s', w') \<Longrightarrow>
    inv s' \<and> buf s' = (\<lambda>k. if k \<in> set ks then [] else buf s k) \<and>
    (n', w') = fold (\<lambda>k (n, w). let (ok, w1) = send_summary ou g (parse_items ou (buf s k)) w in (if ok then n + 1 else n, w1))
      (filter (\<lambda>k. parse_items ou (buf s k) \<noteq> []) ks) (n, w)"
proof (induction ks arbitrary: n s w)
  case (Cons k ks)
  obtain raw s1 where d: "gs_drain st k s = (Some raw, s1)"
    using assms [OF Cons.prems(1), of k] by (cases "gs_drain st k s") auto
  note dd = drain_done [OF Cons.prems(1) d]
  define n1w1 where "n1w1 = (if parse_items ou raw = [] then (n, w)
     else let (ok, w1) = send_summary ou g (parse_items ou raw) w in (if ok then n + 1 else n, w1))"
  obtain n1 w1 where nw: "n1w1 = (n1, w1)" by fastforce
  have "flush_keys ou st g ks n1 (s1, w1) = (n', s', w')"
    using Cons.prems(3) d nw by (auto simp: n1w1_def Let_def split: if_splits prod.splits)
  from Cons.IH [OF _ _ this] dd Cons.prems(2)
  have ih: "inv s'" "buf s' = (\<lambda>k. if k \<in> set ks then [] else buf s1 k)"
    "(n', w') = fold (\<lambda>k (n, w). let (ok, w1) = send_summary ou g (parse_items ou (buf s1 k)) w in (if ok then n + 1 else n, w1))
      (filter (\<lambda>k. parse_items ou (buf s1 k) \<noteq> []) ks) (n1, w1)"
    by auto
  have same: "buf s1 k' = buf s k'" if "k' \<in> set ks" for k' using dd that Cons.prems(2) by auto
  have "fold (\<lambda>k (n, w). let (ok, w1) = send_summary ou g (parse_items ou (buf s1 k)) w in (if ok then n + 1 else n, w1))
      (filter (\<lambda>k. parse_items ou (buf s1 k) \<noteq> []) ks) (n1, w1) =
    fold (\<lambda>k (n, w). let (ok, w1) = send_summary ou g (parse_items ou (buf s k)) w in (if ok then n + 1 else n, w1))
      (filter (\<lambda>k. parse_items ou (buf s k) \<noteq> []) ks) (n1, w1)"
    using same by (intro fold_cong) (auto intro!: filter_cong simp: fun_eq_iff)
  with ih nw dd show ?case by (auto simp: n1w1_def fun_eq_iff split: if_splits)
qed (simp add: fun_eq_iff)

end

definition buffer :: "mem_gov \<Rightarrow> string \<Rightarrow> string list" where
  "buffer s k = get_or (mg_lists s) k []"

definition gov_inv :: "mem_gov \<Rightarrow> bool" where
  "gov_inv s = distinct (keys (mg_lists s))"

interpretation mem: governor "mem_store now" buffer gov_inv for now
proof (unfold_locales, goal_cases)
  case (1 s k ttl r s')
  then show ?case by (auto simp: mem_store_def mg_incr_window_def buffer_def gov_inv_def Let_def fun_eq_iff)
next
  case (2 s k ttl d s')
  then show ?case
    by (auto simp: mem_store_def mg_mark_dedup_def buffer_def gov_inv_def Let_def fun_eq_iff split: if_splits)
next
  case (3 s k i ttl u s')
  then show ?case by (auto simp: mem_store_def mg_append_def buffer_def gov_inv_def fun_eq_iff)
next
  case (4 s k i ttl s')
  then show ?case by (simp add: mem_store_def)
next
  case (5 s k xs s')
  then show ?case by (auto simp: mem_store_def mg_drain_def buffer_def gov_inv_def get_or_def fun_eq_iff)
next
  case (6 s k s')
  then show ?case by (simp add: mem_store_def mg_drain_def)
next
  case (7 s p ks s')
  then show ?case
    by (auto simp: mem_store_def mg_keys_def buffer_def gov_inv_def get_or_def dest: dget_Some_keys split: option.splits)
      (force intro: rev_image_eqI)
qed

section \<open>Runs of the in-process governor\<close>

record message =
  ms_client :: client
  ms_title :: "string option"
  ms_text :: "string option"
  ms_user :: string
  ms_type :: "string option"

definition item_of :: "message \<Rightarrow> pydict" where
  "item_of m = digest_item (ms_type m) (ms_client m) (ms_user m) (ms_title m) (ms_text m)"

definition buffer_of :: "message \<Rightarrow> string" where
  "buffer_of m = gov_key ''buf'' (scope (ms_type m) (ms_client m) (ms_user m))"

definition mem_intercept :: "'w outside \<Rightarrow> gov_config \<Rightarrow> time \<Rightarrow> message \<Rightarrow> mem_gov \<Rightarrow> bool \<times> mem_gov" where
  "mem_intercept ou g now m s =
     intercept ou (mem_store now) g (ms_client m) (ms_title m) (ms_text m) (ms_user m) (ms_type m) s"

text \<open>The answers and the final state of a run of messages.\<close>

fun gov_run :: "'w outside \<Rightarrow> gov_config \<Rightarrow> (time \<times> message) list \<Rightarrow> mem_gov \<Rightarrow> bool list \<times> mem_gov" where
  "gov_run ou g [] s = ([], s)"
| "gov_run ou g ((now, m) # ms) s =
     (let (b, s1) = mem_intercept ou g now m s; (bs, s2) = gov_run ou g ms s1 in (b # bs, s2))"

text \<open>The messages a run held back for a summary.\<close>

definition held_back :: "gov_config \<Rightarrow> (time \<times> message) list \<Rightarrow> bool list \<Rightarrow> message list" where
  "held_back g ms bs = map (snd \<circ> fst)
     (filter (\<lambda>((_, m), b). b \<and> po_mode (policy_of g (ms_type m)) \<noteq> ''dedup'') (zip ms bs))"

lemma gov_run_buffers:
  "gov_inv s \<Longrightarrow> gov_run ou g ms s = (bs, s') \<Longrightarrow>
   gov_inv s' \<and> buffer s' k = buffer s k @ map (\<lambda>m. ou_dumps ou (item_of m)) (filter (\<lambda>m. buffer_of m = k) (held_back g ms bs))"
proof (induction ms arbitrary: s bs)
  case Nil
  then show ?case by (simp add: held_back_def)
next
  case (Cons x ms)
  obtain now m where x: "x = (now, m)" by fastforce
  obtain b s1 where i: "mem_intercept ou g now m s = (b, s1)" by fastforce
  obtain bs1 where r: "gov_run ou g ms s1 = (bs1, s')" and bs: "bs = b # bs1"
    using Cons.prems(2) x i by (auto split: prod.splits)
  note i' = mem.intercept_buf [OF Cons.prems(1) i [unfolded mem_intercept_def]]
  from Cons.IH [OF _ r] i' show ?case
    by (auto simp: held_back_def x bs buffer_of_def item_of_def)
qed

lemma held_back_buffers:
  "gov_run ou g ms empty_gov = (bs, s) \<Longrightarrow>
   buffer s k = map (\<lambda>m. ou_dumps ou (item_of m)) (filter (\<lambda>m. buffer_of m = k) (held_back g ms bs))"
  using gov_run_buffers [of empty_gov ou g ms bs s k]
  by (simp add: gov_inv_def empty_gov_def buffer_def get_or_def)

text \<open>Every buffer key of a run is the key of a message, and so under the prefix that flush lists.\<close>

lemma gov_key_match: "fnmatch (gov_key ''buf'' ''*'') (gov_key ''buf'' x)"
proof -
  have "list_all literal_char (gov_key ''buf'' [])" by (simp add: gov_key_def literal_char_def)
  from fnmatch_prefix_star [OF this, of "gov_key ''buf'' x"] show ?thesis
    by (simp add: gov_key_def)
qed

lemma run_buffer_key:
  assumes "gov_run ou g ms empty_gov = (bs, s)" and "buffer s k \<noteq> []"
  shows "fnmatch (gov_key ''buf'' ''*'') k"
proof -
  have "gov_inv empty_gov" by (simp add: gov_inv_def empty_gov_def)
  from gov_run_buffers [OF this assms(1), of k] assms(2)
  obtain m where "buffer_of m = k"
    by (auto simp: buffer_def empty_gov_def get_or_def filter_empty_conv)
  then show ?thesis using gov_key_match by (auto simp: buffer_of_def)
qed

section \<open>Properties\<close>

text \<open>C18: No message is lost or misfiled: after any run from an empty store, each buffer holds exactly the
  messages of its scope that were held back for a summary, in order of arrival.\<close>

theorem held_back_is_buffered:
  assumes "gov_run ou g ms empty_gov = (bs, s)"
  shows "buffer s k = map (\<lambda>m. ou_dumps ou (item_of m)) (filter (\<lambda>m. buffer_of m = k) (held_back g ms bs))"
  using assms by (rule held_back_buffers)

definition demo_outside :: "((client \<times> string \<times> string \<times> string) list) outside" where
  "demo_outside = \<lparr>ou_sha = (\<lambda>x. x), ou_dumps = (\<lambda>d. item_text ''user_id'' d),
     ou_loads = (\<lambda>x. Some (PDict [(''user_id'', PStr x)])), ou_resolver = None, ou_label = (\<lambda>x. x),
     ou_template = None, ou_send = (\<lambda>c t x u w. (True, w @ [(c, t, x, u)]))\<rparr>"

definition demo_config :: gov_config where
  "demo_config = new_governor (Some [(''x'', new_policy ''digest'' 1)]) None True 30 3"

definition demo_message :: message where
  "demo_message = \<lparr>ms_client = Client ''1'', ms_title = Some ''t'', ms_text = None, ms_user = ''u'', ms_type = Some ''x''\<rparr>"

lemma demo_run: "gov_run demo_outside demo_config [(0, demo_message), (1, demo_message)] empty_gov =
   ([False, True], \<lparr>mg_window = [(''msg_governor:win:x:1:u'', (2, 60))], mg_dedup = [],
      mg_lists = [(''msg_governor:buf:x:1:u'', [''u''])]\<rparr>)"
  by (simp add: mem_intercept_def demo_message_def demo_config_def demo_outside_def new_governor_def new_policy_def
      intercept_def policy_of_def get_or_def intercept_digest_def mem_store_def mg_incr_window_def mg_append_def
      empty_gov_def scope_def gov_key_def or_empty_def digest_item_def item_text_def Let_def)

theorem held_back_is_buffered_witness:
  "\<exists>bs s. gov_run demo_outside demo_config [(0, demo_message), (1, demo_message)] empty_gov = (bs, s) \<and>
     buffer s (buffer_of demo_message) = map (\<lambda>m. ou_dumps demo_outside (item_of m))
       (filter (\<lambda>m. buffer_of m = buffer_of demo_message)
         (held_back demo_config [(0, demo_message), (1, demo_message)] bs))"
  using held_back_is_buffered [OF demo_run] demo_run by blast

text \<open>Flushing after any run delivers: when the reader reads back the messages and the channel accepts,
  every buffer is emptied and the channel gets one summary per buffer that held a message.\<close>

theorem flush_delivers:
  assumes "gov_run ou g ms empty_gov = (bs, s)" and "\<And>m. \<exists>d. ou_loads ou (ou_dumps ou (item_of m)) = Some (PDict d)"
    and "\<And>c t x u w. fst (ou_send ou c t x u w)"
    and "flush_once ou (mem_store now) g (s, w) = (n, s', w')"
  shows "(\<forall>k. buffer s' k = []) \<and> n = length (filter (\<lambda>k. buffer s k \<noteq> []) (keys (mg_lists s))) \<and>
    w' = fold (\<lambda>k. snd \<circ> send_summary ou g (parse_items ou (buffer s k)))
      (filter (\<lambda>k. buffer s k \<noteq> []) (keys (mg_lists s))) w"
proof -
  define ks where "ks = filter (fnmatch (gov_key ''buf'' ''*'')) (keys (mg_lists s))"
  have inv: "gov_inv s"
    using gov_run_buffers [OF _ assms(1)] by (auto simp: gov_inv_def empty_gov_def)
  have f: "flush_keys ou (mem_store now) g ks 0 (s, w) = (n, s', w')"
    using assms(4) by (simp add: flush_once_def mem_store_def mg_keys_def ks_def)
  have nofail: "fst (gs_drain (mem_store now) k s) \<noteq> None" for k s
    by (simp add: mem_store_def mg_drain_def)
  have dist: "distinct ks" using inv by (simp add: gov_inv_def ks_def)
  note spec = mem.flush_keys_spec [OF nofail inv dist f]
  have parsed: "parse_items ou (buffer s k) \<noteq> [] \<longleftrightarrow> buffer s k \<noteq> []" for k
  proof
    assume "buffer s k \<noteq> []"
    then obtain m rest where "buffer s k = ou_dumps ou (item_of m) # rest"
      using held_back_buffers [OF assms(1), of k] by (cases "filter (\<lambda>m. buffer_of m = k) (held_back g ms bs)") auto
    with assms(2) [of m] show "parse_items ou (buffer s k) \<noteq> []" by (auto simp: parse_items_def)
  qed (auto simp: parse_items_def)
  have ks: "filter (\<lambda>k. buffer s k \<noteq> []) ks = filter (\<lambda>k. buffer s k \<noteq> []) (keys (mg_lists s))"
    using run_buffer_key [OF assms(1)] by (auto simp: ks_def intro!: filter_cong)
  have "fold (\<lambda>k (n, w). let (ok, w1) = send_summary ou g (parse_items ou (buffer s k)) w in (if ok then n + 1 else n, w1)) xs (m, v)
      = (m + length xs, fold (\<lambda>k. snd \<circ> send_summary ou g (parse_items ou (buffer s k))) xs v)" for xs m v
  proof (induction xs arbitrary: m v)
    case (Cons x xs)
    obtain ok v1 where o: "send_summary ou g (parse_items ou (buffer s x)) v = (ok, v1)" by fastforce
    have "ok" using assms(3) o by (auto simp: send_summary_def Let_def split: prod.splits) (metis fst_conv)
    with Cons o show ?case by simp
  qed simp
  with spec have "(n, w') = (length (filter (\<lambda>k. buffer s k \<noteq> []) ks), fold (\<lambda>k. snd \<circ> send_summary ou g (parse_items ou (buffer s k)))
      (filter (\<lambda>k. buffer s k \<noteq> []) ks) w)" by (simp add: parsed)
  moreover have "buffer s' k = []" for k
  proof -
    have "buffer s k = []" if "k \<notin> set ks"
    proof (rule ccontr)
      assume ne: "buffer s k \<noteq> []"
      then have "k \<in> set (keys (mg_lists s))"
        by (auto simp: buffer_def get_or_def dest: dget_Some_keys split: option.splits)
      with that run_buffer_key [OF assms(1) ne] show False by (simp add: ks_def)
    qed
    with spec show ?thesis by simp
  qed
  ultimately show ?thesis by (simp add: ks)
qed

theorem flush_delivers_witness:
  "\<exists>s n s' w'. gov_run demo_outside demo_config [(0, demo_message), (1, demo_message)] empty_gov = ([False, True], s) \<and>
     flush_once demo_outside (mem_store 2) demo_config (s, []) = (n, s', w') \<and> n = 1 \<and> (\<forall>k. buffer s' k = []) \<and> length w' = 1"
proof -
  define s where "s = \<lparr>mg_window = [(''msg_governor:win:x:1:u'', (2, 60))], mg_dedup = [],
      mg_lists = [(''msg_governor:buf:x:1:u'', [''u''])]\<rparr>"
  obtain n s' w' where f: "flush_once demo_outside (mem_store 2) demo_config (s, []) = (n, s', w')"
    by (metis prod.collapse)
  have r: "\<exists>d. ou_loads demo_outside (ou_dumps demo_outside (item_of m)) = Some (PDict d)" for m
    by (simp add: demo_outside_def)
  have a: "fst (ou_send demo_outside c t x u w)" for c t x u w by (simp add: demo_outside_def)
  have nonempty: "filter (\<lambda>k. buffer s k \<noteq> []) (keys (mg_lists s)) = [''msg_governor:buf:x:1:u'']"
    by (simp add: s_def buffer_def get_or_def)
  have len: "length (snd (send_summary demo_outside g items [])) = 1" for g items
    by (simp add: send_summary_def Let_def demo_outside_def split: prod.splits)
  from flush_delivers [OF demo_run [folded s_def] r a f] nonempty f len demo_run [folded s_def] show ?thesis
    by auto
qed

text \<open>Messages of different users are never merged, as long as message types and client ids contain
  no colon: two messages that share a buffer have the same type, client and user.\<close>

theorem buffers_isolate_users:
  assumes "CHR '':'' \<notin> set (or_empty (ms_type m))" "CHR '':'' \<notin> set (client_id (ms_client m))"
    and "CHR '':'' \<notin> set (or_empty (ms_type m'))" "CHR '':'' \<notin> set (client_id (ms_client m'))"
    and "buffer_of m = buffer_of m'"
  shows "ms_user m = ms_user m' \<and> or_empty (ms_type m) = or_empty (ms_type m') \<and>
    client_id (ms_client m) = client_id (ms_client m')"
proof -
  have "split_first CHR '':'' (scope (ms_type m) (ms_client m) (ms_user m)) =
      split_first CHR '':'' (scope (ms_type m') (ms_client m') (ms_user m'))"
    using assms(5) by (simp add: buffer_of_def gov_key_def)
  then have a: "or_empty (ms_type m) = or_empty (ms_type m')"
    and b: "client_id (ms_client m) @ CHR '':'' # ms_user m = client_id (ms_client m') @ CHR '':'' # ms_user m'"
    using assms(1,3) by (simp_all add: scope_def split_first_append)
  have "split_first CHR '':'' (client_id (ms_client m) @ CHR '':'' # ms_user m) =
      split_first CHR '':'' (client_id (ms_client m') @ CHR '':'' # ms_user m')" by (simp only: b)
  with assms(2,4) a show ?thesis by (simp add: split_first_append)
qed

theorem buffers_isolate_users_witness:
  "ms_user demo_message = ''u'' \<and> or_empty (ms_type demo_message) = ''x''"
  using buffers_isolate_users [of demo_message "demo_message\<lparr>ms_title := None\<rparr>"]
  by (simp add: demo_message_def or_empty_def buffer_of_def)

definition window_key :: "message \<Rightarrow> string" where
  "window_key m = gov_key ''win'' (scope (ms_type m) (ms_client m) (ms_user m))"

lemma mem_intercept_dig:
  assumes "gc_enabled g" and "policy_of g (ms_type m) = po" and "po_mode po \<noteq> ''immediate''" "po_mode po \<noteq> ''dedup''"
  shows "mem_intercept ou g t m s =
    (let (c, s1) = mg_incr_window t (window_key m) (po_window po) s
     in if c \<le> po_threshold po then (False, s1) else (True, mg_append (buffer_of m) (ou_dumps ou (item_of m)) s1))"
proof -
  obtain c s1 where i: "mg_incr_window t (window_key m) (po_window po) s = (c, s1)" by fastforce
  have "mem_intercept ou g t m s = (let (r, s') = intercept_digest ou (mem_store t) po (ms_client m) (ms_user m) (ms_type m)
      (ms_title m) (ms_text m) s in (case r of None \<Rightarrow> False | Some b \<Rightarrow> b, s'))"
    unfolding mem_intercept_def by (subst intercept_dig) (simp_all only: assms not_False_eq_True)
  moreover have "intercept_digest ou (mem_store t) po (ms_client m) (ms_user m) (ms_type m) (ms_title m) (ms_text m) s =
      (if c \<le> po_threshold po then (Some False, s1) else (Some True, mg_append (buffer_of m) (ou_dumps ou (item_of m)) s1))"
    using i by (simp add: intercept_digest_def mem_store_def Let_def window_key_def buffer_of_def item_of_def)
  ultimately show ?thesis by (simp add: i)
qed

lemma mg_window_append [simp]: "mg_window (mg_append k i s) = mg_window s"
  by (simp add: mg_append_def)

lemma mem_intercept_window:
  assumes "gc_enabled g" and "policy_of g (ms_type m) = po" and "po_mode po \<noteq> ''immediate''" "po_mode po \<noteq> ''dedup''"
    and "mem_intercept ou g t m s = (b, s')"
  shows "dget (mg_window s) (window_key m) = Some (c, e) \<Longrightarrow> t < e \<Longrightarrow>
      b = (po_threshold po < c + 1) \<and> dget (mg_window s') (window_key m) = Some (c + 1, e)"
    and "case dget (mg_window s) (window_key m) of None \<Rightarrow> True | Some (_, e) \<Rightarrow> e \<le> t \<Longrightarrow>
      b = (po_threshold po < 1) \<and> dget (mg_window s') (window_key m) = Some (1, t + of_int (po_window po))"
  using assms(5) unfolding mem_intercept_dig [OF assms(1-4)]
  by (auto simp: mg_incr_window_def Let_def split: if_splits option.splits)

lemma upt_first: "map f [0..<Suc n] = f 0 # map (\<lambda>i. f (Suc i)) [0..<n]"
  by (simp add: upt_conv_Cons map_Suc_upt [symmetric] comp_def del: upt_Suc map_Suc_upt)

lemma gov_run_window:
  assumes "gc_enabled g" and "policy_of g (ms_type m) = po"
    and "po_mode po \<noteq> ''immediate''" "po_mode po \<noteq> ''dedup''"
  shows "dget (mg_window s) (window_key m) = Some (c, e) \<Longrightarrow> \<forall>t \<in> set ts. t < e \<Longrightarrow>
    fst (gov_run ou g (map (\<lambda>t. (t, m)) ts) s) = map (\<lambda>i. po_threshold po < c + 1 + int i) [0..<length ts]"
proof (induction ts arbitrary: s c)
  case (Cons t ts)
  obtain b s1 where i: "mem_intercept ou g t m s = (b, s1)" by fastforce
  have b: "b = (po_threshold po < c + 1)" and w: "dget (mg_window s1) (window_key m) = Some (c + 1, e)"
    using mem_intercept_window(1) [OF assms i Cons.prems(1)] Cons.prems(2) by auto
  have "fst (gov_run ou g (map (\<lambda>t. (t, m)) ts) s1) = map (\<lambda>i. po_threshold po < c + 1 + 1 + int i) [0..<length ts]"
    using Cons.IH [OF w] Cons.prems(2) by simp
  moreover have "fst (gov_run ou g (map (\<lambda>t. (t, m)) (t # ts)) s) = b # fst (gov_run ou g (map (\<lambda>t. (t, m)) ts) s1)"
    by (simp add: i split: prod.split)
  ultimately show ?case
    by (simp only: b length_Cons upt_first of_nat_0 of_nat_Suc add_0_right) (simp add: add.assoc)
qed simp

text \<open>The digest threshold: in one window, the first \<open>threshold\<close> messages of a scope pass and all
  later ones are held back.\<close>

theorem digest_threshold:
  assumes "gc_enabled g" and "policy_of g (ms_type m) = po" and "po_mode po \<noteq> ''immediate''" "po_mode po \<noteq> ''dedup''"
    and "case dget (mg_window s) (window_key m) of None \<Rightarrow> True | Some (_, e) \<Rightarrow> e \<le> t0"
    and "\<forall>t \<in> set ts. t < t0 + of_int (po_window po)"
  shows "fst (gov_run ou g (map (\<lambda>t. (t, m)) (t0 # ts)) s) = map (\<lambda>i. po_threshold po < 1 + int i) [0..<Suc (length ts)]"
proof -
  obtain b s1 where i: "mem_intercept ou g t0 m s = (b, s1)" by fastforce
  have b: "b = (po_threshold po < 1)" and w: "dget (mg_window s1) (window_key m) = Some (1, t0 + of_int (po_window po))"
    using mem_intercept_window(2) [OF assms(1-4) i assms(5)] by auto
  note rest = gov_run_window [OF assms(1-4) w assms(6), of ou]
  have "fst (gov_run ou g (map (\<lambda>t. (t, m)) (t0 # ts)) s) = b # fst (gov_run ou g (map (\<lambda>t. (t, m)) ts) s1)"
    by (simp add: i split: prod.split)
  then show ?thesis
    by (simp only: b rest upt_first of_nat_0 of_nat_Suc add_0_right) (simp add: add.assoc)
qed

theorem digest_threshold_witness:
  "fst (gov_run demo_outside demo_config (map (\<lambda>t. (t, demo_message)) [0, 1, 2]) empty_gov) = [False, True, True]"
  using digest_threshold [where g = demo_config and m = demo_message and po = "new_policy ''digest'' 1" and s = empty_gov
      and ?t0.0 = 0 and ts = "[1, 2]" and ou = demo_outside]
  by (simp add: demo_config_def demo_message_def new_governor_def policy_of_def get_or_def new_policy_def empty_gov_def upt_rec)

lemma mark_dedup_live:
  assumes "dget (mg_dedup s) k = Some e" and "now < e" and "mg_mark_dedup now k' ttl s = (b, s')"
  shows "dget (mg_dedup s') k = Some e"
proof -
  have filt: "dget (filter (\<lambda>(_, v). now < v) d) k = Some e" if "dget d k = Some e" for d :: "(string, time) dict"
    using that assms(2) by (induction d) (auto split: if_splits)
  show ?thesis
  proof (cases "k' = k")
    case True
    with assms show ?thesis by (auto simp: mg_mark_dedup_def)
  next
    case False
    then have "dget (dput k' (now + of_int ttl) (mg_dedup s)) k = Some e" using assms(1) by simp
    from filt [OF this] this assms show ?thesis
      by (auto simp: mg_mark_dedup_def Let_def split: if_splits)
  qed
qed

lemma intercept_live:
  assumes "dget (mg_dedup s) k = Some e" and "now < e" and "mem_intercept ou g now m s = (b, s')"
  shows "dget (mg_dedup s') k = Some e"
proof (cases "gc_enabled g \<and> po_mode (policy_of g (ms_type m)) \<noteq> ''immediate''")
  case False
  with assms show ?thesis by (simp add: mem_intercept_def intercept_off)
next
  case True
  show ?thesis
  proof (cases "po_mode (policy_of g (ms_type m)) = ''dedup''")
    case True': True
    with True assms mark_dedup_live [OF assms(1,2)] show ?thesis
      by (auto simp: mem_intercept_def intercept_dup mem_store_def Let_def split: prod.splits)
  next
    case False
    with True assms show ?thesis
      by (auto simp: mem_intercept_def intercept_dig intercept_digest_def mem_store_def mg_incr_window_def
          mg_append_def Let_def split: if_splits)
  qed
qed

lemma gov_run_live:
  "dget (mg_dedup s) k = Some e \<Longrightarrow> \<forall>(now, m) \<in> set ms. now < e \<Longrightarrow> gov_run ou g ms s = (bs, s') \<Longrightarrow>
   dget (mg_dedup s') k = Some e"
proof (induction ms arbitrary: s bs)
  case (Cons x ms)
  obtain now m where x: "x = (now, m)" by fastforce
  obtain b s1 where i: "mem_intercept ou g now m s = (b, s1)" by fastforce
  have "dget (mg_dedup s1) k = Some e" using intercept_live [OF Cons.prems(1) _ i] Cons.prems(2) x by auto
  with Cons i x show ?case by (auto split: prod.splits)
qed simp

text \<open>Deduplication: after a message passes, the same message is held back until its time to live is
  over, whatever other messages come in between.\<close>

theorem dedup_holds_back:
  assumes "gc_enabled g" and "po_mode (policy_of g (ms_type m)) = ''dedup''" and "0 < po_dedup_ttl (policy_of g (ms_type m))"
    and "mem_intercept ou g t0 m s = (False, s1)" and "gov_run ou g ms s1 = (bs, s2)"
    and "\<forall>(t, _) \<in> set ms. t < t0 + of_int (po_dedup_ttl (policy_of g (ms_type m)))"
  shows "fst (mem_intercept ou g t m s2) = (t < t0 + of_int (po_dedup_ttl (policy_of g (ms_type m))))"
proof -
  define k where "k = dedup_key ou (ms_type m) (ms_client m) (ms_user m) (ms_title m) (ms_text m)"
  define ttl where "ttl = po_dedup_ttl (policy_of g (ms_type m))"
  have filt: "dget (filter (\<lambda>(_, v). t0 < v) d) k = Some (t0 + of_int ttl)" if "dget d k = Some (t0 + of_int ttl)"
    for d :: "(string, time) dict"
    using that assms(3) by (induction d) (auto simp: ttl_def split: if_splits)
  have one: "mem_intercept ou g u m x = mg_mark_dedup u k ttl x" for u x
    using assms(1,2) by (simp add: mem_intercept_def intercept_dup mem_store_def k_def ttl_def split: prod.splits)
  have "dget (mg_dedup s1) k = Some (t0 + of_int ttl)"
    using assms(4) filt by (auto simp: one mg_mark_dedup_def Let_def split: if_splits)
  from gov_run_live [OF this _ assms(5)] assms(6) have "dget (mg_dedup s2) k = Some (t0 + of_int ttl)"
    by (auto simp: ttl_def)
  then show ?thesis by (simp add: one mg_mark_dedup_def Let_def ttl_def)
qed

theorem dedup_holds_back_witness:
  "\<exists>s1. mem_intercept demo_outside (demo_config\<lparr>gc_policies := [(''x'', new_policy ''dedup'' 3)]\<rparr>) 0 demo_message empty_gov = (False, s1) \<and>
     fst (mem_intercept demo_outside (demo_config\<lparr>gc_policies := [(''x'', new_policy ''dedup'' 3)]\<rparr>) 599 demo_message s1) \<and>
     \<not> fst (mem_intercept demo_outside (demo_config\<lparr>gc_policies := [(''x'', new_policy ''dedup'' 3)]\<rparr>) 600 demo_message s1)"
proof -
  define g where "g = demo_config\<lparr>gc_policies := [(''x'', new_policy ''dedup'' 3)]\<rparr>"
  have g: "gc_enabled g" "po_mode (policy_of g (ms_type demo_message)) = ''dedup''"
    "po_dedup_ttl (policy_of g (ms_type demo_message)) = 600"
    by (simp_all add: g_def demo_config_def new_governor_def demo_message_def policy_of_def get_or_def new_policy_def)
  obtain b s1 where i: "mem_intercept demo_outside g 0 demo_message empty_gov = (b, s1)" by fastforce
  then have "b = False" using g(1,2)
    by (auto simp: mem_intercept_def intercept_dup mem_store_def mg_mark_dedup_def empty_gov_def Let_def)
  with i have i: "mem_intercept demo_outside g 0 demo_message empty_gov = (False, s1)" by simp
  have run: "gov_run demo_outside g [] s1 = ([], s1)" by simp
  have pos: "0 < po_dedup_ttl (policy_of g (ms_type demo_message))" by (simp add: g(3))
  from dedup_holds_back [OF g(1,2) pos i run, of 599] dedup_holds_back [OF g(1,2) pos i run, of 600] i
  show ?thesis unfolding g_def [symmetric] by (simp add: g(3))
qed

end
