(* ===== verification/BrushRules.thy ===== *)
theory BrushRules
  imports PyVal
begin

text \<open>
  The rule engine of the brush tasks (\<open>domain/engine/brush_rule_engine.py\<close>): selection rules for
  new torrents, removal and stop rules for the torrents of a task, the texts that explain a decision
  and the text form of rules.

  A rule set is the JSON dictionary of the task. A check that raises is \<open>None\<close>. The parameters in
  \<open>env\<close> are the regular expressions of the standard library (\<open>None\<close> for a pattern that raises),
  the JSON reader, the date reader (an aware time, in seconds) and the text of compound values.
\<close>

record env =
  ev_search :: "string \<Rightarrow> string \<Rightarrow> bool option"
  ev_loads :: "string \<Rightarrow> pyval option"
  ev_date :: "pyval \<Rightarrow> time option"
  ev_repr :: "pyval \<Rightarrow> string"
  ev_now :: time

abbreviation str_of :: "env \<Rightarrow> pyval \<Rightarrow> string" where
  "str_of ev v \<equiv> py_str (ev_repr ev) v"

text \<open>A rule that is switched off: \<open>rule_value in ("#", "N", None, "")\<close>.\<close>

definition ignored :: "pyval \<Rightarrow> bool" where
  "ignored v = (v = PStr ''#'' \<or> v = PStr ''N'' \<or> v = PNone \<or> v = PStr [])"

section \<open>Ranges\<close>

text \<open>\<open>range_values\<close> as numbers; \<open>None\<close> is \<open>ValueError\<close>.\<close>

definition read_bound :: "string \<Rightarrow> nat \<Rightarrow> flt option" where
  "read_bound s m = map_option (flt_scale m) (py_float s)"

definition check_range_rule :: "flt option \<Rightarrow> pyval \<Rightarrow> nat \<Rightarrow> bool" where
  "check_range_rule value rule_value multiplier =
     (case value of
        None \<Rightarrow> True
      | Some v \<Rightarrow>
          (case rule_value of
             PStr rule \<Rightarrow>
               if rule = [] then True
               else
                 let rule_parts = split_on CHR ''#'' rule
                 in if length rule_parts < 2 \<or> rule_parts ! 1 = [] then True
                    else
                      let operator = rule_parts ! 0;
                          range_values = split_on CHR '','' (rule_parts ! 1);
                          min_value = (if range_values ! 0 \<noteq> [] then read_bound (range_values ! 0) multiplier
                                       else Some (Fin 0));
                          max_value = (if length range_values > 1 \<and> range_values ! 1 \<noteq> []
                                       then map_option Some (read_bound (range_values ! 1) multiplier)
                                       else Some None)
                      in (case (min_value, max_value) of
                            (Some mn, Some mx) \<Rightarrow>
                              if operator = ''gt'' \<and> flt_less v mn then False
                              else if operator = ''lt'' \<and> flt_less mn v then False
                              else \<not> (operator = ''bw'' \<and>
                                   (flt_less v mn \<or> (case mx of None \<Rightarrow> False | Some x \<Rightarrow> flt_ge v x)))
                          | _ \<Rightarrow> True)
           | _ \<Rightarrow> True))"

section \<open>Selection rules\<close>

record media =
  md_movie :: bool
  md_title :: pyval
  md_year :: pyval
  md_tmdb :: pyval
  md_rev :: pyval
  md_site :: pyval
  md_lang :: pyval
  md_season :: string

definition check_free_status :: "pydict \<Rightarrow> pyval \<Rightarrow> bool" where
  "check_free_status attr rule_value =
     (if rule_value = PStr ''FREE'' \<and> \<not> truthy (pget attr ''free'') then False
      else if rule_value = PStr ''2XFREE'' \<and> \<not> truthy (pget attr ''2xfree'') then False
      else \<not> (rule_value = PStr ''NORMAL'' \<and> (truthy (pget attr ''free'') \<or> truthy (pget attr ''2xfree''))))"

definition check_pubdate :: "env \<Rightarrow> time option \<Rightarrow> pydict \<Rightarrow> pyval \<Rightarrow> bool" where
  "check_pubdate ev pubdate attr rule_value =
     (let pubdate = (if truthy (pget attr ''pubdate'') then ev_date ev (pget attr ''pubdate'') else pubdate)
      in case pubdate of
           None \<Rightarrow> True
         | Some t \<Rightarrow> check_range_rule (Some (Fin ((ev_now ev - t) / 3600))) rule_value 1)"

definition language_options :: "string list" where
  "language_options = [''zh'', ''en'', ''ja'', ''ko'', ''fr'', ''de'', ''ru'', ''hi'']"

definition check_original_language :: "media option \<Rightarrow> pyval \<Rightarrow> bool option" where
  "check_original_language m rule_value =
     (if \<not> truthy rule_value then Some True
      else case m of
             None \<Rightarrow> Some True
           | Some md \<Rightarrow>
               if \<not> truthy (md_lang md) then Some True
               else (case md_lang md of
                       PStr l \<Rightarrow>
                         let lang = strip l
                         in if rule_value = PStr ''other'' then Some (take 2 lang \<notin> set language_options)
                            else (case rule_value of
                                    PStr r \<Rightarrow> Some (take 2 r = take 2 lang)
                                  | PList _ \<Rightarrow> Some False
                                  | _ \<Rightarrow> None)
                     | _ \<Rightarrow> None))"

definition parse_rss_sites :: "env \<Rightarrow> pyval \<Rightarrow> string list" where
  "parse_rss_sites ev rss_sites =
     (if \<not> truthy rss_sites then []
      else case rss_sites of
             PList xs \<Rightarrow> map (str_of ev) xs
           | PStr s \<Rightarrow>
               (case ev_loads ev s of
                  Some (PList xs) \<Rightarrow> map (str_of ev) xs
                | _ \<Rightarrow> filter (\<lambda>p. p \<noteq> []) (map strip (split_on CHR '','' s)))
           | v \<Rightarrow> [str_of ev v])"

text \<open>\<open>re.search(v, text)\<close> for a value that should be a pattern.\<close>

definition search_value :: "env \<Rightarrow> pyval \<Rightarrow> string \<Rightarrow> bool option" where
  "search_value ev v text = (case v of PStr p \<Rightarrow> ev_search ev p text | _ \<Rightarrow> None)"

definition match_media :: "env \<Rightarrow> media \<Rightarrow> pydict \<Rightarrow> bool \<Rightarrow> bool option" where
  "match_media ev md rss is_tv =
     (let name = pget rss ''name''; year = pget rss ''year''; tmdbid = pget rss ''tmdbid'';
          season = (if is_tv then pget rss ''season'' else PNone);
          wrong_season = (is_tv \<and> truthy season \<and> season \<noteq> PStr (md_season md))
      in if \<not> truthy (pget rss ''fuzzy_match'') then
           if truthy tmdbid \<and> \<not> startswith (str_of ev tmdbid) ''DB:'' then
             Some (str_of ev (md_tmdb md) = str_of ev tmdbid \<and> \<not> wrong_season)
           else
             (case (if truthy year then
                      (case pyval_int year of
                         None \<Rightarrow> None
                       | Some y \<Rightarrow> Some (str_of ev (md_year md) \<in> {str_of ev year, int_str (y + 1), int_str (y - 1)}))
                    else Some True) of
                None \<Rightarrow> None
              | Some year_ok \<Rightarrow> Some (year_ok \<and> name = md_title md \<and> \<not> wrong_season))
         else if wrong_season \<and> season \<noteq> PStr ''S00'' then Some False
         else if truthy year \<and> str_of ev year \<noteq> str_of ev (md_year md) then Some False
         else
           let search_title = str_of ev (md_rev md) @ '' '' @ str_of ev (md_title md) @ '' '' @ str_of ev (md_year md)
           in if truthy name then
                (case search_value ev name search_title of
                   None \<Rightarrow> None
                 | Some True \<Rightarrow> Some True
                 | Some False \<Rightarrow> Some (case name of PStr n \<Rightarrow> contains search_title n | _ \<Rightarrow> False))
              else Some True)"

text \<open>The loop over subscriptions, ended by the first match or the first exception.\<close>

fun any_subscribed :: "(pydict \<Rightarrow> bool option) \<Rightarrow> pydict list \<Rightarrow> bool option" where
  "any_subscribed f [] = Some False"
| "any_subscribed f (r # rs) =
     (case f r of None \<Rightarrow> None | Some True \<Rightarrow> Some True | Some False \<Rightarrow> any_subscribed f rs)"

definition check_subscribe_status ::
  "env \<Rightarrow> media option \<Rightarrow> (string, pydict) dict \<Rightarrow> (string, pydict) dict \<Rightarrow> pyval \<Rightarrow> bool option" where
  "check_subscribe_status ev m rss_movies rss_tvs rule_value =
     (if rule_value = PStr ''N'' then Some False
      else case m of
             None \<Rightarrow> Some False
           | Some md \<Rightarrow>
               if md_movie md \<and> rss_movies \<noteq> [] then
                 any_subscribed (\<lambda>r. match_media ev md r False) (map snd rss_movies)
               else if rss_tvs \<noteq> [] then
                 any_subscribed (\<lambda>r.
                   let rss_sites = parse_rss_sites ev (pget r ''rss_sites'')
                   in if truthy (md_site md) \<and> rss_sites \<noteq> [] \<and> md_site md \<notin> PStr ` set rss_sites then Some False
                      else match_media ev md r True) (map snd rss_tvs)
               else Some False)"

record candidate =
  cd_title :: string
  cd_size :: "flt option"
  cd_pubdate :: "time option"
  cd_attr :: pydict
  cd_category :: string
  cd_labels :: string
  cd_media :: "media option"
  cd_movies :: "(string, pydict) dict"
  cd_tvs :: "(string, pydict) dict"

text \<open>The dictionary \<open>rule_checks\<close> of \<open>check_rss_rule\<close> and \<open>get_rss_reject_reason\<close>.\<close>

definition rss_checks :: "env \<Rightarrow> candidate \<Rightarrow> (string \<times> (pyval \<Rightarrow> bool option)) list" where
  "rss_checks ev c =
     [(''size'', \<lambda>rv. Some (check_range_rule (cd_size c) rv (1024 ^ 3))),
      (''include'', \<lambda>rv. search_value ev rv (cd_title c)),
      (''exclude'', \<lambda>rv. map_option Not (search_value ev rv (cd_title c))),
      (''category_include'', \<lambda>rv. search_value ev rv (cd_category c)),
      (''category_exclude'', \<lambda>rv. map_option Not (search_value ev rv (cd_category c))),
      (''label_include'', \<lambda>rv. search_value ev rv (cd_labels c)),
      (''label_exclude'', \<lambda>rv. map_option Not (search_value ev rv (cd_labels c))),
      (''free'', \<lambda>rv. Some (check_free_status (cd_attr c) rv)),
      (''hr'', \<lambda>_. Some (\<not> truthy (pget (cd_attr c) ''hr''))),
      (''peercount'', \<lambda>rv. Some (check_range_rule (as_number (pget (cd_attr c) ''peer_count'')) rv 1)),
      (''pubdate'', \<lambda>rv. Some (check_pubdate ev (cd_pubdate c) (cd_attr c) rv)),
      (''exclude_subscribe'', \<lambda>rv. map_option Not
         (check_subscribe_status ev (cd_media c) (cd_movies c) (cd_tvs c) rv)),
      (''original_language'', \<lambda>rv. check_original_language (cd_media c) rv)]"

datatype verdict = Passed | Failed string | Raised

fun first_failure :: "pydict \<Rightarrow> (string \<times> (pyval \<Rightarrow> bool option)) list \<Rightarrow> verdict" where
  "first_failure rules [] = Passed"
| "first_failure rules ((rule, check) # rest) =
     (let rule_value = pget rules rule
      in if ignored rule_value then first_failure rules rest
         else (case check rule_value of
                 None \<Rightarrow> Raised
               | Some True \<Rightarrow> first_failure rules rest
               | Some False \<Rightarrow> Failed rule))"

definition check_rss_rule :: "env \<Rightarrow> pydict \<Rightarrow> candidate \<Rightarrow> bool" where
  "check_rss_rule ev rules c =
     (if rules = [] then True
      else case first_failure rules (rss_checks ev c) of Failed _ \<Rightarrow> False | _ \<Rightarrow> True)"

definition fail_reasons :: "(string, string) dict" where
  "fail_reasons =
     [(''size'', u8 [0xe4, 0xbd, 0x93, 0xe7, 0xa7, 0xaf, 0xe4, 0xb8, 0x8d, 0xe7, 0xac, 0xa6, 0xe5, 0x90, 0x88]),
      (''include'', u8 [0xe6, 0xa0, 0x87, 0xe9, 0xa2, 0x98, 0xe4, 0xb8, 0x8d, 0xe5, 0x8c, 0xb9, 0xe9, 0x85, 0x8d]),
      (''exclude'', u8 [0xe6, 0x8e, 0x92, 0xe9, 0x99, 0xa4, 0xe5, 0x85, 0xb3, 0xe9, 0x94, 0xae, 0xe8, 0xaf, 0x8d, 0xe5, 0x91, 0xbd, 0xe4, 0xb8, 0xad]),
      (''category_include'', u8 [0xe5, 0x88, 0x86, 0xe7, 0xb1, 0xbb, 0xe4, 0xb8, 0x8d, 0xe5, 0x8c, 0xb9, 0xe9, 0x85, 0x8d]),
      (''category_exclude'', u8 [0xe5, 0x88, 0x86, 0xe7, 0xb1, 0xbb, 0xe6, 0x8e, 0x92, 0xe9, 0x99, 0xa4, 0xe5, 0x91, 0xbd, 0xe4, 0xb8, 0xad]),
      (''label_include'', u8 [0xe6, 0xa0, 0x87, 0xe7, 0xad, 0xbe, 0xe4, 0xb8, 0x8d, 0xe5, 0x8c, 0xb9, 0xe9, 0x85, 0x8d]),
      (''label_exclude'', u8 [0xe6, 0xa0, 0x87, 0xe7, 0xad, 0xbe, 0xe6, 0x8e, 0x92, 0xe9, 0x99, 0xa4, 0xe5, 0x91, 0xbd, 0xe4, 0xb8, 0xad]),
      (''free'', u8 [0xe4, 0xbc, 0x98, 0xe6, 0x83, 0xa0, 0xe7, 0x8a, 0xb6, 0xe6, 0x80, 0x81, 0xe4, 0xb8, 0x8d, 0xe7, 0xac, 0xa6, 0xe5, 0x90, 0x88]),
      (''hr'', u8 [0xe5, 0x91, 0xbd, 0xe4, 0xb8, 0xad, 0x20, 0x48, 0x52]),
      (''peercount'', u8 [0xe5, 0x81, 0x9a, 0xe7, 0xa7, 0x8d, 0xe4, 0xba, 0xba, 0xe6, 0x95, 0xb0, 0xe4, 0xb8, 0x8d, 0xe7, 0xac, 0xa6, 0xe5, 0x90, 0x88]),
      (''pubdate'', u8 [0xe5, 0x8f, 0x91, 0xe5, 0xb8, 0x83, 0xe6, 0x97, 0xb6, 0xe9, 0x97, 0xb4, 0xe4, 0xb8, 0x8d, 0xe7, 0xac, 0xa6, 0xe5, 0x90, 0x88]),
      (''exclude_subscribe'', u8 [0xe5, 0xb7, 0xb2, 0xe8, 0xae, 0xa2, 0xe9, 0x98, 0x85]),
      (''original_language'', u8 [0xe5, 0x8e, 0x9f, 0xe5, 0xa7, 0x8b, 0xe8, 0xaf, 0xad, 0xe8, 0xa8, 0x80, 0xe4, 0xb8, 0x8d, 0xe7, 0xac, 0xa6, 0xe5, 0x90, 0x88])]"

definition check_error_text :: string where
  "check_error_text = u8 [0xe8, 0xa7, 0x84, 0xe5, 0x88, 0x99, 0xe6, 0xa3, 0x80, 0xe6, 0x9f, 0xa5, 0xe5, 0xbc, 0x82, 0xe5, 0xb8, 0xb8]"

definition get_rss_reject_reason :: "env \<Rightarrow> pydict \<Rightarrow> candidate \<Rightarrow> string" where
  "get_rss_reject_reason ev rules c =
     (if rules = [] then []
      else case first_failure rules (rss_checks ev c) of
             Passed \<Rightarrow> []
           | Failed rule \<Rightarrow> get_or fail_reasons rule rule
           | Raised \<Rightarrow> check_error_text)"

section \<open>Removal rules\<close>

datatype delete_type = NotDelete | SeedTime | Ratio | UploadSize | DlTime | AvgUpSpeed | IaTime
  | PendingTime | HrSeedTime | FreeSpace | FreeEnd | FreeStatus | Hr | AliveTime | UpSpeed | TrackerError

text \<open>The second component: one type, or the list of the types that fired.\<close>

datatype reason = One delete_type | Many "delete_type list"

definition attr_rule_keys :: "string list" where
  "attr_rule_keys = [''freestatus'', ''hr'', ''hr_time'', ''pubdate'']"

definition remove_values :: "flt option \<Rightarrow> pydict \<Rightarrow> pydict \<Rightarrow> pydict" where
  "remove_values alive_hours params attr =
     [(''time'', pget params ''seeding_time''),
      (''hr_time'', pget params ''seeding_time''),
      (''ratio'', pget params ''ratio''),
      (''uploadsize'', pget params ''uploaded''),
      (''dltime'', pget params ''dltime''),
      (''avg_upspeed'', pget params ''avg_upspeed''),
      (''upspeed'', pget params ''upspeed''),
      (''cur_upspeed'', pget params ''upspeed''),
      (''iatime'', pget params ''iatime''),
      (''pending_time'', pget params ''pending_time''),
      (''freespace'', pget params ''freespace''),
      (''alive_time'', case alive_hours of None \<Rightarrow> PNone | Some h \<Rightarrow> PFloat h),
      (''freestatus'', get_or attr ''free'' (PBool False)),
      (''hr'', get_or attr ''hr'' (PBool False)),
      (''tracker_error'', pget params ''tracker_error'')]"

definition range_check :: "nat \<Rightarrow> pyval \<Rightarrow> pyval \<Rightarrow> bool" where
  "range_check m value rv = check_range_rule (as_number value) rv m"

definition remove_checks :: "(string \<times> delete_type \<times> (pyval \<Rightarrow> pyval \<Rightarrow> bool)) list" where
  "remove_checks =
     [(''time'', SeedTime, range_check 3600),
      (''hr_time'', HrSeedTime, range_check 3600),
      (''ratio'', Ratio, range_check 1),
      (''uploadsize'', UploadSize, range_check (1024 ^ 3)),
      (''dltime'', DlTime, range_check 3600),
      (''avg_upspeed'', AvgUpSpeed, range_check 1024),
      (''iatime'', IaTime, range_check 3600),
      (''pending_time'', PendingTime, range_check 3600),
      (''freespace'', FreeSpace, range_check (1024 ^ 3)),
      (''hr'', Hr, \<lambda>value rv. if rv = PStr ''HR'' then truthy value
                           else if rv = PStr ''NOHR'' then \<not> truthy value else True),
      (''alive_time'', AliveTime, range_check 1),
      (''upspeed'', UpSpeed, range_check 1024),
      (''cur_upspeed'', UpSpeed, range_check 1024),
      (''tracker_error'', TrackerError, \<lambda>value rv. if rv = PStr ''Y'' then truthy value else True)]"

text \<open>The loop over the rules: \<open>hr\<close> is the torrent's H and R flag.\<close>

fun remove_loop ::
  "pydict \<Rightarrow> pyval \<Rightarrow> bool \<Rightarrow> bool \<Rightarrow> pydict \<Rightarrow> (string \<times> delete_type \<times> (pyval \<Rightarrow> pyval \<Rightarrow> bool)) list \<Rightarrow>
   delete_type list \<Rightarrow> bool \<times> reason" where
  "remove_loop rules mode unknown hr values [] fired =
     (if mode = PStr ''and'' \<and> fired \<noteq> [] then (True, Many fired) else (False, One NotDelete))"
| "remove_loop rules mode unknown hr values ((rule, ty, check) # rest) fired =
     (let rule_value = pget rules rule
      in if ignored rule_value then remove_loop rules mode unknown hr values rest fired
         else if unknown \<and> rule \<in> set attr_rule_keys then
           (if mode = PStr ''and'' then (False, One NotDelete)
            else remove_loop rules mode unknown hr values rest fired)
         else if rule = ''hr_time'' \<and> \<not> hr then remove_loop rules mode unknown hr values rest fired
         else
           let value = pget values rule
           in if value = PNone then
                (if mode = PStr ''and'' then (False, One NotDelete)
                 else remove_loop rules mode unknown hr values rest fired)
              else if check value rule_value then
                let fired = fired @ [ty]
                in if mode = PStr ''or'' then (True, case fired of [t] \<Rightarrow> One t | _ \<Rightarrow> Many fired)
                   else remove_loop rules mode unknown hr values rest fired
              else if mode = PStr ''and'' then (False, One NotDelete)
              else remove_loop rules mode unknown hr values rest fired)"

text \<open>
  The attributes: \<open>params.get("torrent_attr") or {}\<close>; the parameters are built by the caller with a
  dictionary or nothing under that key.
\<close>

definition torrent_attr :: "pydict \<Rightarrow> pydict" where
  "torrent_attr params = (case pget params ''torrent_attr'' of PDict d \<Rightarrow> d | _ \<Rightarrow> [])"

definition check_remove_rule :: "flt option \<Rightarrow> pydict \<Rightarrow> pydict \<Rightarrow> bool \<Rightarrow> bool \<times> reason" where
  "check_remove_rule alive_hours rules params attr_unknown =
     (if rules = [] then (False, One NotDelete)
      else
        let attr = torrent_attr params;
            values = remove_values alive_hours params attr;
            free_end_guard = (\<not> ignored (pget rules ''freestatus''));
            mode = get_or rules ''mode'' (PStr ''and'');
            completed = truthy (get_or params ''is_completed'' (PBool True));
            has_other_rules = list_ex (\<lambda>(rule, _). \<not> ignored (pget rules rule)) remove_checks
        in if free_end_guard \<and> completed \<and>
              ((\<not> has_other_rules \<or> attr_unknown \<and> mode = PStr ''and'') \<or>
               (\<not> attr_unknown \<and> truthy (get_or attr ''free'' (PBool False)))) then (False, One NotDelete)
           else remove_loop rules mode attr_unknown (truthy (pget attr ''hr'')) values remove_checks [])"

section \<open>Stop rules\<close>

datatype stop_type = StopFreeEnd | NotStop | StopRatio | StopUploadSize | StopSeedTime | StopAvgUpSpeed

definition stop_checks :: "pydict \<Rightarrow> (string \<times> stop_type \<times> (pyval \<Rightarrow> bool)) list" where
  "stop_checks params =
     [(''ratio'', StopRatio, range_check 1 (pget params ''ratio'')),
      (''uploadsize'', StopUploadSize, range_check (1024 ^ 3) (pget params ''uploaded'')),
      (''seedtime'', StopSeedTime, range_check 3600 (pget params ''seeding_time'')),
      (''avg_upspeed'', StopAvgUpSpeed, range_check 1024 (pget params ''avg_upspeed'')),
      (''stopfree'', StopFreeEnd, \<lambda>_. \<not> truthy (pget params ''free''))]"

fun stop_loop ::
  "pydict \<Rightarrow> bool \<Rightarrow> bool \<Rightarrow> (string \<times> stop_type \<times> (pyval \<Rightarrow> bool)) list \<Rightarrow> bool \<times> stop_type" where
  "stop_loop rules completed unknown [] = (False, NotStop)"
| "stop_loop rules completed unknown ((rule, ty, check) # rest) =
     (let rule_value = pget rules rule
      in if ignored rule_value then stop_loop rules completed unknown rest
         else if rule = ''stopfree'' \<and> completed then stop_loop rules completed unknown rest
         else if unknown \<and> rule = ''stopfree'' then stop_loop rules completed unknown rest
         else if check rule_value then (True, ty)
         else stop_loop rules completed unknown rest)"

definition check_stop_rule :: "pydict \<Rightarrow> pydict \<Rightarrow> bool \<Rightarrow> bool \<times> stop_type" where
  "check_stop_rule rules params attr_unknown =
     (if rules = [] then (False, NotStop)
      else stop_loop rules (truthy (get_or params ''is_completed'' (PBool False))) attr_unknown (stop_checks params))"

section \<open>Texts\<close>

definition active_text :: "pydict \<Rightarrow> string \<Rightarrow> string \<Rightarrow> string list" where
  "active_text rules key text =
     (let v = pget rules key in if truthy v \<and> v \<noteq> PStr ''#'' then [text] else [])"

definition format_rss_match_reason :: "pydict \<Rightarrow> string" where
  "format_rss_match_reason rules =
     (if rules = [] then u8 [0x52, 0x53, 0x53, 0x20, 0xe8, 0xbf, 0x9b, 0xe7, 0xa7, 0x8d]
      else
        let free_val = pget rules ''free'';
            parts =
              (if free_val = PStr ''FREE'' then [u8 [0xe5, 0x85, 0x8d, 0xe8, 0xb4, 0xb9]]
               else if free_val = PStr ''2XFREE'' then [u8 [0x32, 0x58, 0xe5, 0x85, 0x8d, 0xe8, 0xb4, 0xb9]]
               else if free_val = PStr ''NORMAL'' then [u8 [0xe6, 0x99, 0xae, 0xe9, 0x80, 0x9a, 0xe7, 0xa7, 0x8d]] else []) @
              active_text rules ''hr'' (u8 [0xe6, 0x8e, 0x92, 0xe9, 0x99, 0xa4, 0x48, 0x52]) @
              active_text rules ''size'' (u8 [0xe4, 0xbd, 0x93, 0xe7, 0xa7, 0xaf, 0xe7, 0xac, 0xa6, 0xe5, 0x90, 0x88]) @
              active_text rules ''pubdate'' (u8 [0xe5, 0x8f, 0x91, 0xe5, 0xb8, 0x83, 0xe6, 0x97, 0xb6, 0xe9, 0x97, 0xb4, 0xe7, 0xac, 0xa6, 0xe5, 0x90, 0x88]) @
              active_text rules ''include'' (u8 [0xe6, 0xa0, 0x87, 0xe9, 0xa2, 0x98, 0xe5, 0x8c, 0xb9, 0xe9, 0x85, 0x8d]) @
              active_text rules ''exclude'' (u8 [0xe6, 0x8e, 0x92, 0xe9, 0x99, 0xa4, 0xe8, 0xbf, 0x87, 0xe6, 0xbb, 0xa4]) @
              active_text rules ''category_include'' (u8 [0xe5, 0x88, 0x86, 0xe7, 0xb1, 0xbb, 0xe5, 0x8c, 0xb9, 0xe9, 0x85, 0x8d]) @
              active_text rules ''category_exclude'' (u8 [0xe5, 0x88, 0x86, 0xe7, 0xb1, 0xbb, 0xe6, 0x8e, 0x92, 0xe9, 0x99, 0xa4]) @
              active_text rules ''label_include'' (u8 [0xe6, 0xa0, 0x87, 0xe7, 0xad, 0xbe, 0xe5, 0x8c, 0xb9, 0xe9, 0x85, 0x8d]) @
              active_text rules ''label_exclude'' (u8 [0xe6, 0xa0, 0x87, 0xe7, 0xad, 0xbe, 0xe6, 0x8e, 0x92, 0xe9, 0x99, 0xa4]) @
              active_text rules ''peercount'' (u8 [0xe5, 0x81, 0x9a, 0xe7, 0xa7, 0x8d, 0xe4, 0xba, 0xba, 0xe6, 0x95, 0xb0, 0xe7, 0xac, 0xa6, 0xe5, 0x90, 0x88]) @
              active_text rules ''exclude_subscribe'' (u8 [0xe6, 0x8e, 0x92, 0xe9, 0x99, 0xa4, 0xe5, 0xb7, 0xb2, 0xe8, 0xae, 0xa2, 0xe9, 0x98, 0x85])
        in if parts = [] then u8 [0x52, 0x53, 0x53, 0x20, 0xe8, 0xbf, 0x9b, 0xe7, 0xa7, 0x8d] else join '', '' parts)"

definition parse_rule_item :: "string \<Rightarrow> pydict \<Rightarrow> pydict" where
  "parse_rule_item item rules =
     (case split_first CHR ''#'' (strip item) of
        None \<Rightarrow> rules
      | Some (key, value) \<Rightarrow> dput (strip key) (PStr (strip value)) rules)"

definition parse_rule_string :: "string \<Rightarrow> pydict" where
  "parse_rule_string rule_str =
     (if rule_str = [] then [] else fold parse_rule_item (split_sep ''&&'' rule_str) [])"

definition format_rule_string :: "env \<Rightarrow> pydict \<Rightarrow> string" where
  "format_rule_string ev rules =
     join '' && '' (map (\<lambda>(k, v). k @ ''#'' @ str_of ev v)
       (filter (\<lambda>(_, v). v \<noteq> PNone \<and> v \<noteq> PStr [] \<and> v \<noteq> PStr ''#'') rules))"

definition parse_peercount :: "string \<Rightarrow> (string \<times> string) option" where
  "parse_peercount peercount =
     (if peercount = ''#'' then None
      else
        let parts = split_on CHR ''#'' peercount
        in if length parts \<ge> 2 then Some (parts ! 0, replace_char CHR '','' CHR ''-'' (parts ! 1))
           else (case py_int peercount of None \<Rightarrow> None | Some n \<Rightarrow> Some (''lt'', int_str n)))"

section \<open>Evaluation of the loops\<close>

text \<open>The removal rules that count: switched on, and not the H and R time of a torrent without H and R.\<close>

type_synonym remove_check = "string \<times> delete_type \<times> (pyval \<Rightarrow> pyval \<Rightarrow> bool)"

definition applicable :: "pydict \<Rightarrow> bool \<Rightarrow> remove_check list \<Rightarrow> remove_check list" where
  "applicable rules hr cs = filter (\<lambda>(rule, _). \<not> ignored (pget rules rule) \<and> (rule = ''hr_time'' \<longrightarrow> hr)) cs"

definition rule_holds :: "pydict \<Rightarrow> pydict \<Rightarrow> remove_check \<Rightarrow> bool" where
  "rule_holds rules values c =
     (pget values (fst c) \<noteq> PNone \<and> snd (snd c) (pget values (fst c)) (pget rules (fst c)))"

definition types_of :: "remove_check list \<Rightarrow> delete_type list" where
  "types_of cs = map (fst \<circ> snd) cs"

lemma applicable_Cons:
  "applicable rules hr ((rule, ty, check) # cs) =
     (if ignored (pget rules rule) \<or> rule = ''hr_time'' \<and> \<not> hr then applicable rules hr cs
      else (rule, ty, check) # applicable rules hr cs)"
  by (auto simp: applicable_def)

lemma remove_loop_and:
  "remove_loop rules (PStr ''and'') False hr values cs fired =
     (if list_all (rule_holds rules values) (applicable rules hr cs) \<and> fired @ types_of (applicable rules hr cs) \<noteq> []
      then (True, Many (fired @ types_of (applicable rules hr cs))) else (False, One NotDelete))"
proof (induction cs arbitrary: fired)
  case Nil
  then show ?case by (simp add: applicable_def types_of_def)
next
  case (Cons c cs)
  obtain rule ty check where c: "c = (rule, ty, check)" by (cases c)
  show ?case
  proof (cases "ignored (pget rules rule) \<or> rule = ''hr_time'' \<and> \<not> hr")
    case True
    with Cons show ?thesis by (auto simp: c applicable_Cons Let_def)
  next
    case False
    have step: "remove_loop rules (PStr ''and'') False hr values (c # cs) fired =
        (if rule_holds rules values c then remove_loop rules (PStr ''and'') False hr values cs (fired @ [ty])
         else (False, One NotDelete))"
      using False by (auto simp: c Let_def rule_holds_def)
    show ?thesis unfolding step Cons.IH using False by (auto simp: c applicable_Cons types_of_def)
  qed
qed

lemma remove_loop_or:
  "remove_loop rules (PStr ''or'') False hr values cs [] =
     (case find (rule_holds rules values) (applicable rules hr cs) of
        None \<Rightarrow> (False, One NotDelete) | Some c \<Rightarrow> (True, One (fst (snd c))))"
proof (induction cs)
  case Nil
  then show ?case by (simp add: applicable_def)
next
  case (Cons c cs)
  obtain rule ty check where c: "c = (rule, ty, check)" by (cases c)
  show ?case
  proof (cases "ignored (pget rules rule) \<or> rule = ''hr_time'' \<and> \<not> hr")
    case True
    with Cons show ?thesis by (auto simp: c applicable_Cons Let_def)
  next
    case False
    have step: "remove_loop rules (PStr ''or'') False hr values (c # cs) [] =
        (if rule_holds rules values c then (True, One ty) else remove_loop rules (PStr ''or'') False hr values cs [])"
      using False by (auto simp: c Let_def rule_holds_def)
    show ?thesis unfolding step Cons.IH using False by (auto simp: c applicable_Cons)
  qed
qed

text \<open>With unknown attributes and all rules required, an active attribute rule blocks the removal.\<close>

lemma remove_loop_unknown:
  "list_ex (\<lambda>(rule, _). rule \<in> set attr_rule_keys \<and> \<not> ignored (pget rules rule)) cs \<Longrightarrow>
   remove_loop rules (PStr ''and'') True hr values cs fired = (False, One NotDelete)"
  by (induction cs arbitrary: fired) (auto simp: Let_def split: prod.splits)

lemma not_ignored_rules: "\<not> ignored (pget rules k) \<Longrightarrow> rules \<noteq> []"
  by (auto simp: ignored_def)

lemma first_failure_spec:
  "first_failure rules cs = Passed \<longleftrightarrow>
     (\<forall>(rule, check) \<in> set cs. ignored (pget rules rule) \<or> check (pget rules rule) = Some True)"
  by (induction cs) (auto simp: Let_def split: option.splits bool.splits if_splits)

lemma first_failure_in: "first_failure rules cs = Failed r \<Longrightarrow> r \<in> fst ` set cs"
  by (induction cs) (auto simp: Let_def split: option.splits bool.splits if_splits)

section \<open>Texts of rules\<close>

lemma digits_no_mark:
  "c \<in> set (nat_str n) \<Longrightarrow> c \<noteq> CHR ''#'' \<and> c \<noteq> CHR '','' \<and> c \<noteq> CHR ''&''"
  using nat_str_digits [of n] by (auto simp: list_all_iff is_digit_def ord_def)

lemma range_parts:
  assumes "CHR ''#'' \<notin> set op" and "CHR ''#'' \<notin> set r"
  shows "split_on CHR ''#'' (op @ CHR ''#'' # r) = [op, r]"
  using assms by (simp add: split_on_sep split_on_no_sep)

lemma check_range_text:
  assumes "CHR ''#'' \<notin> set op"
  shows "check_range_rule (Some (Fin v)) (PStr (op @ ''#'' @ nat_str a @ '','' @ nat_str b)) m =
    (if op = ''gt'' then of_nat (a * m) \<le> v
     else if op = ''lt'' then v \<le> of_nat (a * m)
     else if op = ''bw'' then of_nat (a * m) \<le> v \<and> v < of_nat (b * m) else True)"
proof -
  have hash: "CHR ''#'' \<notin> set (nat_str a @ CHR '','' # nat_str b)" using digits_no_mark by auto
  have comma: "split_on CHR '','' (nat_str a @ CHR '','' # nat_str b) = [nat_str a, nat_str b]"
    using digits_no_mark by (subst split_on_sep) (auto intro!: split_on_no_sep)
  have ne: "nat_str n \<noteq> []" for n using nat_str_digits [of n] by simp
  show ?thesis
    using range_parts [OF assms hash] comma ne
    by (auto simp: check_range_rule_def read_bound_def py_float_nat_str flt_ge_def)
qed

text \<open>A bound that is no number: the range check gives up and answers yes.\<close>

lemma check_range_malformed:
  assumes "CHR ''#'' \<notin> set b" "CHR '','' \<notin> set b" and "b = [] \<or> py_float b = None"
  shows "check_range_rule v (PStr (''gt#'' @ b)) m"
proof -
  have "split_on CHR ''#'' (''gt#'' @ b) = [''gt'', b]" using range_parts [of "''gt''" b] assms(1) by simp
  moreover have "split_on CHR '','' b = [b]" using assms(2) by (rule split_on_no_sep)
  ultimately show ?thesis using assms(3) by (auto simp: check_range_rule_def read_bound_def split: option.split)
qed

section \<open>The round trip of rule texts\<close>

text \<open>Texts that survive: no separator inside, no blanks at the ends, not empty.\<close>

definition plain_key :: "string \<Rightarrow> bool" where
  "plain_key k \<longleftrightarrow> k \<noteq> [] \<and> CHR ''#'' \<notin> set k \<and> CHR ''&'' \<notin> set k \<and> \<not> is_space (hd k) \<and> \<not> is_space (last k)"

definition plain_value :: "string \<Rightarrow> bool" where
  "plain_value v \<longleftrightarrow> v \<noteq> [] \<and> v \<noteq> ''#'' \<and> CHR ''&'' \<notin> set v \<and> \<not> is_space (hd v) \<and> \<not> is_space (last v)"

lemma split_sep_amp_none: "CHR ''&'' \<notin> set s \<Longrightarrow> split_sep ''&&'' s = [s]"
  by (induction s) (subst split_sep.simps; auto simp: prefix_def)+

lemma split_sep_amp:
  "CHR ''&'' \<notin> set a \<Longrightarrow> split_sep ''&&'' (a @ ''&&'' @ r) = a # split_sep ''&&'' r"
proof (induction a)
  case Nil
  then show ?case by (subst split_sep.simps) simp
next
  case (Cons c a)
  then show ?case by (subst split_sep.simps) (auto simp: prefix_def)
qed

lemma strip_blanks: "s \<noteq> [] \<Longrightarrow> \<not> is_space (hd s) \<Longrightarrow> \<not> is_space (last s) \<Longrightarrow>
  strip (CHR '' '' # s) = s \<and> strip (s @ '' '') = s \<and> strip (CHR '' '' # s @ '' '') = s"
proof -
  assume s: "s \<noteq> []" "\<not> is_space (hd s)" "\<not> is_space (last s)"
  have sp: "is_space CHR '' ''" by (simp add: is_space_def ord_def)
  have l: "lstrip (CHR '' '' # x) = lstrip x" for x by (simp add: lstrip_def sp)
  have a: "lstrip (s @ x) = s @ x" for x using s by (intro lstrip_no_space) auto
  have r: "lstrip (rev s) = rev s" using s by (intro lstrip_no_space) (auto simp: hd_rev)
  have b: "lstrip (s) = s" using a [of "[]"] by simp
  show ?thesis by (simp add: strip_def l a b r)
qed

definition rule_item :: "string \<times> string \<Rightarrow> string" where
  "rule_item kv = fst kv @ ''#'' @ snd kv"

lemma rule_item_plain:
  assumes "plain_key k" and "plain_value v"
  shows "rule_item (k, v) \<noteq> []" "\<not> is_space (hd (rule_item (k, v)))" "\<not> is_space (last (rule_item (k, v)))"
    "CHR ''&'' \<notin> set (rule_item (k, v))" "strip k = k" "strip v = v"
    "split_first CHR ''#'' (rule_item (k, v)) = Some (k, v)"
  using assms by (auto simp: rule_item_def plain_key_def plain_value_def strip_id split_first_append)

lemma parse_plain_item:
  "plain_key k \<Longrightarrow> plain_value v \<Longrightarrow> strip s = rule_item (k, v) \<Longrightarrow> parse_rule_item s d = dput k (PStr v) d"
  using rule_item_plain [of k v] by (simp add: parse_rule_item_def)

lemma fold_parse_items:
  assumes "\<forall>(k, v) \<in> set kvs. plain_key k \<and> plain_value v" and "kvs \<noteq> []" and "pre = [] \<or> pre = '' ''"
  shows "fold parse_rule_item (split_sep ''&&'' (pre @ join '' && '' (map rule_item kvs))) d =
    fold (\<lambda>(k, v). dput k (PStr v)) kvs d"
  using assms
proof (induction kvs arbitrary: d pre)
  case (Cons kv kvs)
  obtain k v where kv: "kv = (k, v)" by fastforce
  with Cons.prems have plain: "plain_key k" "plain_value v" by auto
  note it = rule_item_plain [OF plain]
  note sb = strip_blanks [OF it(1-3)] strip_id [OF it(1-3)]
  show ?case
  proof (cases kvs)
    case Nil
    have "CHR ''&'' \<notin> set (pre @ rule_item (k, v))" using it(4) Cons.prems(3) by auto
    with Nil kv sb Cons.prems(3) show ?thesis
      by (auto simp: split_sep_amp_none parse_plain_item [OF plain])
  next
    case (Cons kv' rest)
    have no: "CHR ''&'' \<notin> set (pre @ rule_item (k, v) @ '' '')" using it(4) \<open>pre = [] \<or> pre = '' ''\<close> by auto
    have eq: "pre @ join '' && '' (map rule_item (kv # kvs)) =
        (pre @ rule_item (k, v) @ '' '') @ ''&&'' @ ('' '' @ join '' && '' (map rule_item kvs))"
      by (simp add: Cons kv)
    have st: "strip (pre @ rule_item (k, v) @ '' '') = rule_item (k, v)"
      using sb \<open>pre = [] \<or> pre = '' ''\<close> by auto
    have "fold parse_rule_item (split_sep ''&&'' ('' '' @ join '' && '' (map rule_item kvs))) (dput k (PStr v) d) =
        fold (\<lambda>(k, v). dput k (PStr v)) kvs (dput k (PStr v) d)"
      using Cons.IH [of "'' ''"] Cons.prems Cons by auto
    then show ?thesis
      unfolding eq split_sep_amp [OF no] by (simp add: parse_plain_item [OF plain st] kv)
  qed
qed simp

lemma fold_dput_distinct:
  "distinct (keys (d @ kvs)) \<Longrightarrow> fold (\<lambda>(k, v). dput k v) kvs d = d @ kvs"
proof (induction kvs arbitrary: d)
  case (Cons kv kvs)
  obtain k v where kv: "kv = (k, v)" by fastforce
  with Cons.prems have "dput k v d = d @ [kv]" by (auto intro!: keys_dput_new)
  with Cons kv show ?case by simp
qed simp

section \<open>Properties\<close>

lemma check_remove_known:
  assumes "ignored (pget rules ''freestatus'')"
  shows "check_remove_rule alive rules params False =
    (if rules = [] then (False, One NotDelete)
     else remove_loop rules (get_or rules ''mode'' (PStr ''and'')) False (truthy (pget (torrent_attr params) ''hr''))
       (remove_values alive params (torrent_attr params)) remove_checks [])"
  using assms by (simp add: check_remove_rule_def Let_def)

lemma applicable_no_rules: "applicable [] hr cs = []"
  by (simp add: applicable_def ignored_def)

text \<open>The removal decision under \<open>and\<close>, when the torrent's attributes are known and no free period
  protects it: it is removed exactly when some rule counts and all that count have a value and hold,
  and the reasons are those rules'.\<close>

theorem remove_all_rules:
  assumes "get_or rules ''mode'' (PStr ''and'') = PStr ''and''" and "ignored (pget rules ''freestatus'')"
    and "cs = applicable rules (truthy (pget (torrent_attr params) ''hr'')) remove_checks"
    and "vals = remove_values alive params (torrent_attr params)"
  shows "check_remove_rule alive rules params False =
    (if list_all (rule_holds rules vals) cs \<and> cs \<noteq> [] then (True, Many (types_of cs)) else (False, One NotDelete))"
  using assms(1) by (auto simp: check_remove_known [OF assms(2)] remove_loop_and assms(3,4) applicable_no_rules types_of_def)

theorem remove_all_rules_witness:
  "check_remove_rule None [(''ratio'', PStr ''gt#2''), (''time'', PStr ''gt#1'')]
     [(''ratio'', PFloat (Fin 3)), (''seeding_time'', PInt 7200)] False = (True, Many [SeedTime, Ratio])"
proof -
  define rules where "rules = [(''ratio'', PStr ''gt#2''), (''time'', PStr ''gt#1'')]"
  define params where "params = [(''ratio'', PFloat (Fin 3)), (''seeding_time'', PInt 7200)]"
  define cs where "cs = applicable rules (truthy (pget (torrent_attr params) ''hr'')) remove_checks"
  define vals where "vals = remove_values None params (torrent_attr params)"
  have m: "get_or rules ''mode'' (PStr ''and'') = PStr ''and''" by (simp add: rules_def get_or_def)
  have f: "ignored (pget rules ''freestatus'')" by (simp add: rules_def ignored_def)
  have cs: "cs = [(''time'', SeedTime, range_check 3600), (''ratio'', Ratio, range_check 1)]"
    by (simp add: cs_def applicable_def remove_checks_def rules_def params_def torrent_attr_def ignored_def)
  have bounds: "py_float ''2'' = Some (Fin 2)" "py_float ''1'' = Some (Fin 1)"
    using py_float_nat_str [of 2] py_float_nat_str [of 1]
    by (simp_all add: nat_str.simps char_of_eq_iff [THEN iffD2, of _ "CHR ''2''"] char_of_eq_iff [THEN iffD2, of _ "CHR ''1''"])
  have "list_all (rule_holds rules vals) cs"
    by (simp add: cs rule_holds_def vals_def remove_values_def rules_def params_def range_check_def
        check_range_rule_def read_bound_def bounds)
  with remove_all_rules [OF m f cs_def vals_def] cs show ?thesis
    by (simp add: rules_def params_def types_of_def)
qed

text \<open>The removal decision under \<open>or\<close>: removed exactly when some rule that counts has a value and
  holds, for the reason of the first.\<close>

theorem remove_any_rule:
  assumes "get_or rules ''mode'' (PStr ''and'') = PStr ''or''" and "ignored (pget rules ''freestatus'')"
    and "cs = applicable rules (truthy (pget (torrent_attr params) ''hr'')) remove_checks"
    and "vals = remove_values alive params (torrent_attr params)"
  shows "check_remove_rule alive rules params False =
    (case find (rule_holds rules vals) cs of
       None \<Rightarrow> (False, One NotDelete) | Some c \<Rightarrow> (True, One (fst (snd c))))"
  using assms(1) by (auto simp: check_remove_known [OF assms(2)] remove_loop_or assms(3,4) get_or_def)

theorem remove_any_rule_witness:
  "check_remove_rule None [(''mode'', PStr ''or''), (''hr'', PStr ''HR''), (''tracker_error'', PStr ''Y'')]
     [(''tracker_error'', PStr ''gone'')] False = (True, One TrackerError)"
proof -
  define rules where "rules = [(''mode'', PStr ''or''), (''hr'', PStr ''HR''), (''tracker_error'', PStr ''Y'')]"
  define params where "params = [(''tracker_error'', PStr ''gone'')]"
  define cs where "cs = applicable rules (truthy (pget (torrent_attr params) ''hr'')) remove_checks"
  define vals where "vals = remove_values None params (torrent_attr params)"
  have m: "get_or rules ''mode'' (PStr ''and'') = PStr ''or''" by (simp add: rules_def get_or_def)
  have f: "ignored (pget rules ''freestatus'')" by (simp add: rules_def ignored_def)
  have "find (rule_holds rules vals) cs = Some (''tracker_error'', TrackerError, snd (snd (remove_checks ! 13)))"
    by (simp add: cs_def applicable_def remove_checks_def rules_def params_def torrent_attr_def ignored_def
        rule_holds_def vals_def remove_values_def get_or_def)
  with remove_any_rule [OF m f cs_def vals_def] show ?thesis by (simp add: rules_def params_def)
qed

text \<open>What is never removed: with the free-period rule on, a finished torrent that is still free, and
  one whose attributes could not be read when all rules are required; and, whatever the rules, a
  torrent with unknown attributes when all are required and one of them needs the attributes.\<close>

theorem remove_protects:
  assumes "completed = truthy (get_or params ''is_completed'' (PBool True))"
    and "\<not> ignored (pget rules ''freestatus'') \<and> completed \<and> \<not> unknown \<and> truthy (get_or (torrent_attr params) ''free'' (PBool False))
      \<or> \<not> ignored (pget rules ''freestatus'') \<and> completed \<and> unknown \<and> get_or rules ''mode'' (PStr ''and'') = PStr ''and''
      \<or> unknown \<and> get_or rules ''mode'' (PStr ''and'') = PStr ''and'' \<and> (\<exists>k \<in> {''hr'', ''hr_time''}. \<not> ignored (pget rules k))"
  shows "check_remove_rule alive rules params unknown = (False, One NotDelete)"
proof -
  have blocked: "remove_loop rules (PStr ''and'') True h vs remove_checks [] = (False, One NotDelete)"
    if "\<exists>k \<in> {''hr'', ''hr_time''}. \<not> ignored (pget rules k)" for h vs
    by (rule remove_loop_unknown) (use that in \<open>auto simp: remove_checks_def attr_rule_keys_def\<close>)
  from assms show ?thesis by (auto simp: check_remove_rule_def Let_def blocked)
qed

theorem remove_protects_witness:
  "check_remove_rule None [(''freestatus'', PStr ''Y''), (''mode'', PStr ''or''), (''ratio'', PStr ''gt#0'')]
     [(''ratio'', PInt 5), (''torrent_attr'', PDict [(''free'', PBool True)])] False = (False, One NotDelete)"
  by (rule remove_protects [OF refl]) (simp add: ignored_def get_or_def torrent_attr_def)

text \<open>A malformed range removes: with a bound that is empty or no number, a removal rule fires for
  every torrent that has the value at all.\<close>

theorem malformed_rule_removes:
  assumes "CHR ''#'' \<notin> set b" "CHR '','' \<notin> set b" and "b = [] \<or> py_float b = None"
    and "pget params ''ratio'' \<noteq> PNone"
  shows "check_remove_rule alive [(''ratio'', PStr (''gt#'' @ b))] params False = (True, Many [Ratio])"
proof -
  define rules where "rules = [(''ratio'', PStr (''gt#'' @ b))]"
  have f: "ignored (pget rules ''freestatus'')" and m: "get_or rules ''mode'' (PStr ''and'') = PStr ''and''"
    by (simp_all add: rules_def ignored_def get_or_def)
  have cs: "applicable rules h remove_checks = [(''ratio'', Ratio, range_check 1)]" for h
    by (simp add: applicable_def remove_checks_def rules_def ignored_def)
  have "rule_holds rules (remove_values alive params (torrent_attr params)) (''ratio'', Ratio, range_check 1)"
    using assms(4) check_range_malformed [OF assms(1-3)]
    by (simp add: rule_holds_def remove_values_def range_check_def rules_def)
  moreover have "rules \<noteq> []" by (simp add: rules_def)
  ultimately have "check_remove_rule alive rules params False = (True, Many [Ratio])"
    using m by (simp add: check_remove_known [OF f] remove_loop_and cs types_of_def)
  then show ?thesis by (simp add: rules_def)
qed

theorem malformed_rule_removes_witness:
  "check_remove_rule None [(''ratio'', PStr ''gt#x'')] [(''ratio'', PInt 0)] False = (True, Many [Ratio])"
  using malformed_rule_removes [of "''x''" "[(''ratio'', PInt 0)]" None]
  by (simp add: py_float_def strip_def lstrip_def is_space_def ord_def take_sign_def unsigned_float_def lower_def
      lower_char_def scan_digits_def is_digit_def scan_frac_def Let_def)

text \<open>A torrent that has no ratio is stopped by any ratio rule: the stop rules do not skip missing
  values as the removal rules do.\<close>

theorem stop_rule_missing_value:
  assumes "pget params ''ratio'' = PNone" and "\<not> ignored (pget rules ''ratio'')"
  shows "check_stop_rule rules params unknown = (True, StopRatio)"
  using assms not_ignored_rules [OF assms(2)]
  by (simp add: check_stop_rule_def stop_checks_def range_check_def check_range_rule_def Let_def)

theorem stop_rule_missing_value_witness:
  "check_stop_rule [(''ratio'', PStr ''gt#2'')] [] False = (True, StopRatio)"
  by (rule stop_rule_missing_value) (simp_all add: ignored_def)

text \<open>The rejection text agrees with the selection: unless a check raises, a torrent is accepted
  exactly when there is no reason to reject it; when a check raises, it is accepted although the text
  says that the check failed.\<close>

theorem reject_reason_agrees:
  "(check_rss_rule ev rules c \<longleftrightarrow> get_rss_reject_reason ev rules c = []) \<or>
   check_rss_rule ev rules c \<and> get_rss_reject_reason ev rules c = check_error_text"
proof (cases "first_failure rules (rss_checks ev c)")
  case (Failed r)
  have "r \<in> fst ` set (rss_checks ev c)" using first_failure_in [OF Failed] .
  then have "get_or fail_reasons r r \<noteq> []"
    by (auto simp: rss_checks_def fail_reasons_def get_or_def u8_def)
  with Failed show ?thesis by (auto simp: check_rss_rule_def get_rss_reject_reason_def)
qed (auto simp: check_rss_rule_def get_rss_reject_reason_def)

text \<open>The meaning of a range text with natural bounds: at least, at most, or from the first up to but
  not including the second, in the unit of the rule.\<close>

theorem range_rule_meaning:
  "check_range_rule (Some (Fin v)) (PStr (''gt#'' @ nat_str a @ '','' @ nat_str b)) m = (of_nat (a * m) \<le> v) \<and>
   check_range_rule (Some (Fin v)) (PStr (''lt#'' @ nat_str a @ '','' @ nat_str b)) m = (v \<le> of_nat (a * m)) \<and>
   check_range_rule (Some (Fin v)) (PStr (''bw#'' @ nat_str a @ '','' @ nat_str b)) m = (of_nat (a * m) \<le> v \<and> v < of_nat (b * m))"
  using check_range_text [of "''gt''" v a b m] check_range_text [of "''lt''" v a b m] check_range_text [of "''bw''" v a b m]
  by simp

text \<open>Rules written as text are read back: keys and values without blanks at the ends, no ampersand, no
  hash in a key.\<close>

theorem rule_string_roundtrip:
  assumes "\<forall>(k, v) \<in> set kvs. plain_key k \<and> plain_value v" and "distinct (map fst kvs)"
  shows "parse_rule_string (format_rule_string ev (map (\<lambda>(k, v). (k, PStr v)) kvs)) = map (\<lambda>(k, v). (k, PStr v)) kvs"
proof (cases "kvs = []")
  case True
  then show ?thesis by (simp add: format_rule_string_def parse_rule_string_def)
next
  case False
  define rules where "rules = map (\<lambda>(k, v). (k, PStr v)) kvs"
  have "filter (\<lambda>(_, v). v \<noteq> PNone \<and> v \<noteq> PStr [] \<and> v \<noteq> PStr ''#'') rules = rules"
    using assms(1) by (auto simp: rules_def plain_value_def intro!: filter_True)
  moreover have "map (\<lambda>(k, v). k @ ''#'' @ str_of ev v) rules = map rule_item kvs"
    by (auto simp: rules_def rule_item_def)
  ultimately have fmt: "format_rule_string ev rules = join '' && '' (map rule_item kvs)"
    by (simp only: format_rule_string_def)
  have ne: "join '' && '' (map rule_item kvs) \<noteq> []"
  proof -
    obtain kv rest where "kvs = kv # rest" using False by (cases kvs) auto
    then show ?thesis by (cases rest) (auto simp: rule_item_def)
  qed
  have "fold (\<lambda>(k, v). dput k (PStr v)) kvs [] = fold (\<lambda>(k, v). dput k v) rules []"
    by (simp add: rules_def fold_map comp_def split_def)
  also have "\<dots> = rules" using fold_dput_distinct [of "[]" rules] assms(2) by (simp add: rules_def comp_def split_def)
  finally have "fold (\<lambda>(k, v). dput k (PStr v)) kvs [] = rules" .
  then show ?thesis
    using fold_parse_items [OF assms(1) False, of "[]"] ne fmt by (simp add: parse_rule_string_def rules_def)
qed

theorem rule_string_roundtrip_witness:
  "parse_rule_string (format_rule_string \<lparr>ev_search = \<lambda>_ _. None, ev_loads = \<lambda>_. None, ev_date = \<lambda>_. None, ev_repr = \<lambda>_. [], ev_now = 0\<rparr>
     [(''size'', PStr ''gt#10,20''), (''hr'', PStr ''HR'')]) =
     [(''size'', PStr ''gt#10,20''), (''hr'', PStr ''HR'')]"
  using rule_string_roundtrip [of "[(''size'', ''gt#10,20''), (''hr'', ''HR'')]" "\<lparr>ev_search = \<lambda>_ _. None, ev_loads = \<lambda>_. None, ev_date = \<lambda>_. None, ev_repr = \<lambda>_. [], ev_now = 0\<rparr>"]
  by (simp add: plain_key_def plain_value_def is_space_def ord_def Let_def)

end
