(* ===== verification/BrushLifecycle.thy ===== *)
theory BrushLifecycle
  imports BrushRules
begin

text \<open>
  The life of the torrents of a brush task (\<open>services/brush/torrent_lifecycle.py\<close>,
  \<open>services/brush/helpers.py\<close>, the torrent rows of \<open>db/repositories/brush_repository.py\<close>): removal
  with the daily limit, stopping, resuming when a torrent is free again, and the conditions under
  which a task may take a new torrent.

  The state holds the torrent rows, the event log, the messages sent, the counters of the day and the
  downloader. The downloader, the site (its torrent attributes) and the clock are parameters, collected
  in \<open>'d remote\<close>. The calls on them do not raise here; \<open>rm_attr\<close> is \<open>None\<close> when the attributes of a torrent cannot be
  read. Log lines are left out.
\<close>

section \<open>Data\<close>

datatype torrent_status = Downloading | Uploading | Checking | Queued | Paused | Stopped | Pending | Error | Unknown

record torrent =
  tr_id :: string
  tr_name :: string
  tr_downloaded :: int
  tr_uploaded :: int
  tr_ratio :: rat
  tr_add_time :: pyval
  tr_seeding_time :: int
  tr_download_time :: int
  tr_avg_upspeed :: rat
  tr_upspeed :: int
  tr_iatime :: int
  tr_labels :: "string list"
  tr_status :: torrent_status
  tr_tracker_error :: string
  tr_progress :: rat

record brush_row =
  br_task :: int
  br_title :: string
  br_size :: string
  br_enclosure :: string
  br_download :: string
  br_page :: string
  br_pause :: string

datatype brush_reason = ByRule reason | ByStop stop_type | BySelection string

record brush_event =
  be_task :: int
  be_torrent :: string
  be_download :: string
  be_action :: string
  be_reason :: brush_reason

record brush_task =
  tk_id :: int
  tk_state :: string
  tk_send :: bool
  tk_remove :: pydict
  tk_stop :: pydict
  tk_limit :: string
  tk_time_range :: string
  tk_weekdays :: string

record 'd remote =
  rm_get :: "string list \<Rightarrow> 'd \<Rightarrow> torrent list option"
  rm_delete :: "string list \<Rightarrow> 'd \<Rightarrow> 'd"
  rm_stop :: "string \<Rightarrow> 'd \<Rightarrow> 'd"
  rm_start :: "string \<Rightarrow> 'd \<Rightarrow> 'd"
  rm_free_space :: "'d \<Rightarrow> pyval"
  rm_attr :: "string \<Rightarrow> pydict option"
  rm_alive :: "pyval \<Rightarrow> flt option"
  rm_conf :: bool
  rm_site :: bool
  rm_today :: int
  rm_weekday :: int
  rm_time :: rat

record 'd brush_state =
  bs_rows :: "brush_row list"
  bs_events :: "brush_event list"
  bs_messages :: "(string \<times> string) list"
  bs_daily :: "(int, int \<times> int) dict"
  bs_totals :: "(int \<times> int \<times> int \<times> int) list"
  bs_remote :: 'd

section \<open>The torrent rows\<close>

definition get_torrent_rows :: "int \<Rightarrow> brush_row list \<Rightarrow> brush_row list" where
  "get_torrent_rows brush_id rows =
     (if brush_id = 0 then [] else filter (\<lambda>r. br_task r = brush_id \<and> br_download r \<noteq> ''0'') rows)"

text \<open>Deleted torrents keep their row with \<open>DOWNLOAD_ID\<close> set to \<open>0\<close> and their final sizes.\<close>

definition update_torrent_state :: "(string \<times> int \<times> string) list \<Rightarrow> brush_row list \<Rightarrow> brush_row list" where
  "update_torrent_state ids rows =
     map (\<lambda>r. case find (\<lambda>(_, t, d). br_task r = t \<and> br_download r = d) ids of
                None \<Rightarrow> r
              | Some (size_str, _, _) \<Rightarrow> r\<lparr>br_size := size_str, br_download := ''0''\<rparr>) rows"

definition update_pause_reason :: "int \<Rightarrow> string \<Rightarrow> string \<Rightarrow> brush_row list \<Rightarrow> brush_row list" where
  "update_pause_reason brush_id download_id why rows =
     map (\<lambda>r. if br_task r = brush_id \<and> br_download r = download_id then r\<lparr>br_pause := why\<rparr> else r) rows"

definition delete_torrent_row :: "int \<Rightarrow> string \<Rightarrow> brush_row list \<Rightarrow> brush_row list" where
  "delete_torrent_row brush_id download_id rows =
     (if download_id = [] \<or> brush_id = 0 then rows
      else filter (\<lambda>r. \<not> (br_task r = brush_id \<and> br_download r = download_id)) rows)"

text \<open>The dictionaries keyed by download id that the service builds from the rows.\<close>

definition row_map :: "(brush_row \<Rightarrow> string) \<Rightarrow> brush_row list \<Rightarrow> (string, string) dict" where
  "row_map f rows = fold (\<lambda>r d. dput (br_download r) (f r) d) (filter (\<lambda>r. br_download r \<noteq> []) rows) []"

section \<open>Removal\<close>

definition rule_needs_attr :: "pydict \<Rightarrow> bool" where
  "rule_needs_attr rules = list_ex (\<lambda>k. \<not> ignored (pget rules k)) attr_rule_keys"

definition torrent_params :: "'d remote \<Rightarrow> 'd \<Rightarrow> bool \<Rightarrow> pydict \<Rightarrow> torrent \<Rightarrow> pydict" where
  "torrent_params rm d is_downloading attr t =
     [(''seeding_time'', PInt (tr_seeding_time t)),
      (''ratio'', PFloat (Fin (round2 (tr_ratio t)))),
      (''uploaded'', PInt (tr_uploaded t)),
      (''iatime'', PInt (tr_iatime t)),
      (''avg_upspeed'', PFloat (Fin (tr_avg_upspeed t))),
      (''upspeed'', PInt (tr_upspeed t)),
      (''add_time'', tr_add_time t),
      (''tracker_error'', PStr (tr_tracker_error t)),
      (''freespace'', rm_free_space rm d),
      (''torrent_attr'', PDict attr),
      (''is_completed'', PBool (\<not> is_downloading))] @
     (if is_downloading then
        [(''dltime'', PInt (tr_download_time t)),
         (''pending_time'', if tr_status t = Pending \<or> tr_status t = Queued then PInt (tr_download_time t) else PNone)]
      else [])"

text \<open>The attributes of a torrent and whether they are unknown.\<close>

definition fetch_attr :: "'d remote \<Rightarrow> bool \<Rightarrow> string option \<Rightarrow> string option \<Rightarrow> pydict \<times> bool" where
  "fetch_attr rm needed enclosure page =
     (case enclosure of
        Some enc \<Rightarrow>
          if enc \<noteq> [] \<and> needed then
            (let url = (case page of Some p \<Rightarrow> if p \<noteq> [] then p else enc | None \<Rightarrow> enc)
             in case rm_attr rm url of None \<Rightarrow> ([], True) | Some a \<Rightarrow> (a, False))
          else ([], False)
      | None \<Rightarrow> ([], False))"

definition removal_decision ::
  "'d remote \<Rightarrow> 'd \<Rightarrow> brush_task \<Rightarrow> (string, string) dict \<Rightarrow> (string, string) dict \<Rightarrow> bool \<Rightarrow> torrent \<Rightarrow> bool \<times> reason" where
  "removal_decision rm d ti encs pages is_downloading t =
     (let (attr, unknown) = fetch_attr rm (rule_needs_attr (tk_remove ti)) (dget encs (tr_id t)) (dget pages (tr_id t))
      in check_remove_rule (rm_alive rm (tr_add_time t)) (tk_remove ti)
           (torrent_params rm d is_downloading attr t) unknown)"

record progress =
  pg_up :: int
  pg_down :: int
  pg_ids :: "string list"
  pg_updates :: "(string \<times> int \<times> string) list"
  pg_events :: "brush_event list"
  pg_messages :: "(string \<times> string) list"

definition process_torrent ::
  "'d remote \<Rightarrow> 'd \<Rightarrow> brush_task \<Rightarrow> (string, string) dict \<Rightarrow> (string, string) dict \<Rightarrow> bool \<Rightarrow> torrent \<Rightarrow> progress \<Rightarrow> progress" where
  "process_torrent rm d ti encs pages is_downloading t p =
     (let p = p\<lparr>pg_up := pg_up p + tr_uploaded t, pg_down := pg_down p + tr_downloaded t\<rparr>;
          (need_delete, ty) = removal_decision rm d ti encs pages is_downloading t
      in if \<not> need_delete then p
         else
           let p = (if tk_send ti then p\<lparr>pg_messages := pg_messages p @ [(''remove'', tr_id t)]\<rparr> else p)
           in if tr_id t \<in> set (pg_ids p) then p
              else p\<lparr>pg_ids := pg_ids p @ [tr_id t],
                     pg_events := pg_events p @
                       [\<lparr>be_task = tk_id ti, be_torrent = tr_name t, be_download = tr_id t, be_action = ''delete'',
                         be_reason = ByRule ty\<rparr>],
                     pg_updates := pg_updates p @
                       [(int_str (tr_uploaded t) @ '','' @ int_str (tr_downloaded t), tk_id ti, tr_id t)]\<rparr>)"

definition process_torrents ::
  "'d remote \<Rightarrow> 'd \<Rightarrow> brush_task \<Rightarrow> (string, string) dict \<Rightarrow> (string, string) dict \<Rightarrow> bool \<Rightarrow> torrent list \<Rightarrow> progress \<Rightarrow> progress" where
  "process_torrents rm d ti encs pages is_downloading ts p =
     fold (process_torrent rm d ti encs pages is_downloading) ts p"

text \<open>\<open>_apply_daily_delete_limit\<close>: whether the limit was already reached, the ids kept, the counters.\<close>

definition apply_daily_limit ::
  "int \<Rightarrow> int \<Rightarrow> string \<Rightarrow> string list \<Rightarrow> (int, int \<times> int) dict \<Rightarrow> bool \<times> string list \<times> (int, int \<times> int) dict" where
  "apply_daily_limit today taskid limit_str ids daily =
     (if limit_str = [] \<or> \<not> isdigit limit_str then (False, ids, daily)
      else
        let limit = the (py_int limit_str)
        in if limit \<le> 0 then (False, ids, daily)
           else
             let (date, count) = (case dget daily taskid of
                                    None \<Rightarrow> (today, 0)
                                  | Some (d, n) \<Rightarrow> if d \<noteq> today then (today, 0) else (d, n));
                 remaining = limit - count
             in if remaining \<le> 0 then (True, [], dput taskid (date, count) daily)
                else
                  let ids = (if int (length ids) > remaining then take (nat remaining) ids else ids)
                  in (False, ids, dput taskid (date, count + int (length ids)) daily))"

definition add_total :: "int \<Rightarrow> int \<Rightarrow> int \<Rightarrow> int \<Rightarrow> 'd brush_state \<Rightarrow> 'd brush_state" where
  "add_total taskid up down n s = s\<lparr>bs_totals := bs_totals s @ [(taskid, up, down, n)]\<rparr>"

text \<open>The end of \<open>remove_task_torrents\<close>: the deletions and their record.\<close>

definition finish_removal ::
  "'d remote \<Rightarrow> int \<Rightarrow> brush_task \<Rightarrow> progress \<Rightarrow> nat \<Rightarrow> 'd brush_state \<Rightarrow> 'd brush_state" where
  "finish_removal rm taskid ti p absent s =
     (if pg_ids p = [] then add_total taskid (pg_up p) (pg_down p) (int absent) s
      else
        let (reached, ids, daily) = apply_daily_limit (rm_today rm) taskid (tk_limit ti) (pg_ids p) (bs_daily s);
            s = s\<lparr>bs_daily := daily\<rparr>
        in if reached \<and> ids = [] then s
           else
             let d = rm_delete rm ids (bs_remote s);
                 failed = (case rm_get rm ids d of None \<Rightarrow> set ids | Some ts \<Rightarrow> tr_id ` set ts);
                 removed = length (filter (\<lambda>i. i \<notin> failed) ids);
                 updates = filter (\<lambda>(_, _, i). i \<notin> failed) (pg_updates p)
             in add_total taskid (pg_up p) (pg_down p) (int (removed + absent))
                  (s\<lparr>bs_remote := d, bs_rows := update_torrent_state updates (bs_rows s)\<rparr>))"

definition remove_task_torrents :: "'d remote \<Rightarrow> int \<Rightarrow> brush_task \<Rightarrow> 'd brush_state \<Rightarrow> 'd brush_state" where
  "remove_task_torrents rm taskid ti s =
     (if tk_state ti \<noteq> ''Y'' \<or> \<not> rm_conf rm then s
      else
        let rows = get_torrent_rows taskid (bs_rows s);
            encs = row_map br_enclosure rows;
            pages = row_map br_page rows;
            ids = keys encs
        in if ids = [] then s
           else
             (case rm_get rm ids (bs_remote s) of
                None \<Rightarrow> s
              | Some ts \<Rightarrow>
                  let absent = filter (\<lambda>i. i \<notin> tr_id ` set ts) ids;
                      p0 = \<lparr>pg_up = 0, pg_down = 0, pg_ids = [], pg_updates = [], pg_events = [], pg_messages = []\<rparr>;
                      p1 = process_torrents rm (bs_remote s) ti encs pages False (filter (\<lambda>t. tr_progress t \<ge> 1) ts) p0;
                      p2 = process_torrents rm (bs_remote s) ti encs pages True (filter (\<lambda>t. tr_progress t < 1) ts) p1;
                      s1 = s\<lparr>bs_events := bs_events s @ pg_events p2, bs_messages := bs_messages s @ pg_messages p2,
                             bs_rows := fold (delete_torrent_row taskid) absent (bs_rows s)\<rparr>
                  in finish_removal rm taskid ti p2 (length absent) s1))"

section \<open>Activity periods\<close>

definition is_sep :: "char \<Rightarrow> bool" where
  "is_sep c = (c = CHR '','' \<or> is_space c)"

text \<open>\<open>re.split(r"[,\s]+", s)\<close> without its empty parts.\<close>

fun split_seps :: "string \<Rightarrow> string \<Rightarrow> string list" where
  "split_seps acc [] = (if acc = [] then [] else [acc])"
| "split_seps acc (c # cs) =
     (if is_sep c then (if acc = [] then split_seps [] cs else acc # split_seps [] cs)
      else split_seps (acc @ [c]) cs)"

fun read_ints :: "string list \<Rightarrow> int list option" where
  "read_ints [] = Some []"
| "read_ints (p # ps) = (case py_int p of None \<Rightarrow> None | Some n \<Rightarrow> map_option (\<lambda>ns. n # ns) (read_ints ps))"

definition is_in_active_weekdays :: "int \<Rightarrow> string \<Rightarrow> bool" where
  "is_in_active_weekdays today active_weekdays =
     (if strip active_weekdays = [] then True
      else case read_ints (split_seps [] (strip active_weekdays)) of
             None \<Rightarrow> False | Some days \<Rightarrow> today \<in> set days)"

text \<open>\<open>time(hour, minute)\<close> in seconds; \<open>None\<close> is \<open>ValueError\<close>.\<close>

definition clock_time :: "string \<Rightarrow> rat option" where
  "clock_time s =
     (case split_on CHR '':'' s of
        [h, m] \<Rightarrow>
          (case (py_int h, py_int m) of
             (Some h, Some m) \<Rightarrow>
               if 0 \<le> h \<and> h < 24 \<and> 0 \<le> m \<and> m < 60 then Some (of_int ((h * 60 + m) * 60)) else None
           | _ \<Rightarrow> None)
      | _ \<Rightarrow> None)"

fun in_periods :: "rat \<Rightarrow> string list \<Rightarrow> bool" where
  "in_periods now [] = False"
| "in_periods now (p # ps) =
     (case split_on CHR ''-'' p of
        [a, b] \<Rightarrow>
          (case (clock_time a, clock_time b) of
             (Some start, Some stop) \<Rightarrow>
               if start < stop then (if start \<le> now \<and> now \<le> stop then True else in_periods now ps)
               else (if now \<ge> start \<or> now \<le> stop then True else in_periods now ps)
           | _ \<Rightarrow> False)
      | _ \<Rightarrow> False)"

definition is_in_time_range :: "rat \<Rightarrow> string \<Rightarrow> bool" where
  "is_in_time_range now time_range =
     (if strip time_range = [] then True else in_periods now (split_on CHR '','' time_range))"

section \<open>Stopping and resuming\<close>

definition stop_enabled :: "brush_task \<Rightarrow> bool" where
  "stop_enabled ti = (pget (tk_stop ti) ''stopfree'' = PStr ''Y'')"

definition stop_params :: "torrent \<Rightarrow> pydict \<Rightarrow> pydict" where
  "stop_params t attr =
     fold (\<lambda>(k, v). dput k v) attr
       [(''ratio'', PFloat (Fin (round2 (tr_ratio t)))), (''uploaded'', PInt (tr_uploaded t)),
        (''seeding_time'', PInt (tr_seeding_time t)), (''avg_upspeed'', PFloat (Fin (tr_avg_upspeed t))),
        (''is_completed'', PBool (tr_progress t \<ge> 1))]"

definition is_paused :: "torrent \<Rightarrow> bool" where
  "is_paused t = (tr_status t = Paused \<or> tr_status t = Stopped)"

definition stop_decision ::
  "'d remote \<Rightarrow> brush_task \<Rightarrow> (string, string) dict \<Rightarrow> (string, string) dict \<Rightarrow> torrent \<Rightarrow> bool \<times> stop_type" where
  "stop_decision rm ti encs pages t =
     (let (attr, unknown) = fetch_attr rm (stop_enabled ti \<and> \<not> tr_progress t \<ge> 1) (dget encs (tr_id t)) (dget pages (tr_id t))
      in check_stop_rule (tk_stop ti) (stop_params t attr) unknown)"

definition stop_torrent ::
  "'d remote \<Rightarrow> int \<Rightarrow> brush_task \<Rightarrow> (string, string) dict \<Rightarrow> (string, string) dict \<Rightarrow> torrent \<Rightarrow> 'd brush_state \<Rightarrow> 'd brush_state" where
  "stop_torrent rm taskid ti encs pages t s =
     (if get_or encs (tr_id t) [] = [] \<or> is_paused t then s
      else
        let (need_stop, ty) = stop_decision rm ti encs pages t
        in if \<not> need_stop then s
           else s\<lparr>bs_remote := rm_stop rm (tr_id t) (bs_remote s),
                  bs_rows := update_pause_reason taskid (tr_id t) (if ty = StopFreeEnd then ''free_end'' else ''rule'') (bs_rows s),
                  bs_events := bs_events s @
                    [\<lparr>be_task = taskid, be_torrent = tr_name t, be_download = tr_id t, be_action = ''stop'',
                      be_reason = ByStop ty\<rparr>],
                  bs_messages := (if tk_send ti then bs_messages s @ [(''stop'', tr_id t)] else bs_messages s)\<rparr>)"

definition resume_torrent ::
  "'d remote \<Rightarrow> int \<Rightarrow> (string, string) dict \<Rightarrow> (string, string) dict \<Rightarrow> (string, string) dict \<Rightarrow> torrent \<Rightarrow> 'd brush_state \<Rightarrow> 'd brush_state" where
  "resume_torrent rm taskid encs pages reasons t s =
     (if \<not> is_paused t \<or> dget reasons (tr_id t) \<noteq> Some ''free_end'' \<or> get_or encs (tr_id t) [] = [] then s
      else
        let enc = get_or encs (tr_id t) [];
            url = (if get_or pages (tr_id t) [] \<noteq> [] then get_or pages (tr_id t) [] else enc)
        in case rm_attr rm url of
             None \<Rightarrow> s
           | Some attr \<Rightarrow>
               if truthy (pget attr ''free'') then
                 s\<lparr>bs_remote := rm_start rm (tr_id t) (bs_remote s),
                   bs_rows := update_pause_reason taskid (tr_id t) [] (bs_rows s)\<rparr>
               else s)"

definition resume_free_torrents ::
  "'d remote \<Rightarrow> int \<Rightarrow> brush_task \<Rightarrow> (string, string) dict \<Rightarrow> (string, string) dict \<Rightarrow> (string, string) dict \<Rightarrow> 'd brush_state \<Rightarrow> 'd brush_state" where
  "resume_free_torrents rm taskid ti encs pages reasons s =
     (if \<not> is_in_time_range (rm_time rm) (tk_time_range ti) \<or> \<not> is_in_active_weekdays (rm_weekday rm) (tk_weekdays ti) then s
      else case rm_get rm (keys encs) (bs_remote s) of
             None \<Rightarrow> s
           | Some ts \<Rightarrow> fold (resume_torrent rm taskid encs pages reasons) ts s)"

definition stop_task_torrents :: "'d remote \<Rightarrow> int \<Rightarrow> brush_task \<Rightarrow> 'd brush_state \<Rightarrow> 'd brush_state" where
  "stop_task_torrents rm taskid ti s =
     (if tk_state ti \<noteq> ''Y'' \<or> \<not> rm_site rm then s
      else
        let rows = get_torrent_rows taskid (bs_rows s);
            encs = row_map br_enclosure rows;
            pages = row_map br_page rows;
            reasons = row_map br_pause rows
        in if encs = [] \<or> \<not> rm_conf rm then s
           else
             (case rm_get rm (keys encs) (bs_remote s) of
                None \<Rightarrow> s
              | Some ts \<Rightarrow>
                  let s1 = fold (stop_torrent rm taskid ti encs pages) ts s
                  in if stop_enabled ti then resume_free_torrents rm taskid ti encs pages reasons s1 else s1))"

section \<open>Taking new torrents\<close>

record dl_stats =
  ds_downloading :: nat
  ds_hr :: nat
  ds_total :: nat

definition count_stats :: "torrent list \<Rightarrow> dl_stats" where
  "count_stats ts =
     \<lparr>ds_downloading = length (filter (\<lambda>t. tr_progress t < 1) ts),
      ds_hr = length (filter (\<lambda>t. ''HR'' \<in> set (tr_labels t) \<and> tr_progress t \<ge> 1) ts),
      ds_total = length ts\<rparr>"

text \<open>The statistics of a downloader, kept for thirty seconds; \<open>listing\<close> is what it answers, if it does.\<close>

definition downloader_stats ::
  "time \<Rightarrow> string \<Rightarrow> torrent list option \<Rightarrow> (string, time \<times> dl_stats) dict \<Rightarrow>
   dl_stats option \<times> (string, time \<times> dl_stats) dict" where
  "downloader_stats now did listing cache =
     (case dget cache did of
        Some (t, stats) \<Rightarrow>
          if now - t < 30 then (Some stats, cache)
          else (case listing of None \<Rightarrow> (None, cache)
                | Some ts \<Rightarrow> (Some (count_stats ts), dput did (now, count_stats ts) cache))
      | None \<Rightarrow>
          (case listing of None \<Rightarrow> (None, cache)
           | Some ts \<Rightarrow> (Some (count_stats ts), dput did (now, count_stats ts) cache)))"

record brush_limits =
  lm_seed_size :: string
  lm_max_seeding :: string
  lm_hr_limit :: string
  lm_range :: string
  lm_weekdays :: string

definition gigabyte :: nat where
  "gigabyte = 1024 ^ 3"

text \<open>A limit written in digits and positive that the value has reached.\<close>

definition over_limit :: "string \<Rightarrow> nat \<Rightarrow> bool" where
  "over_limit limit n = (isdigit limit \<and> 0 < the (py_int limit) \<and> the (py_int limit) \<le> int n)"

text \<open>
  \<open>is_allow_new_torrent\<close>; \<open>None\<close> when a number cannot be read. The parameters are whether the
  downloader supports the task, the total size kept, the count limit of the rule, the size of the
  torrent if known, and the statistics.
\<close>

definition is_allow_new_torrent ::
  "bool \<Rightarrow> int \<Rightarrow> brush_limits \<Rightarrow> pyval \<Rightarrow> rat option \<Rightarrow> dl_stats option \<Rightarrow> rat \<Rightarrow> int \<Rightarrow> bool option" where
  "is_allow_new_torrent supported total_size lm dlcount torrent_size stats now today =
     (if \<not> supported then Some False
      else
        let seed = (if lm_seed_size lm = [] then Some None else map_option Some (py_float (lm_seed_size lm)));
            sized = (case torrent_size of None \<Rightarrow> False | Some x \<Rightarrow> x \<noteq> 0)
        in case seed of
             None \<Rightarrow> None
           | Some seed \<Rightarrow>
               if (case (seed, torrent_size) of
                     (Some (Fin g), Some x) \<Rightarrow> sized \<and> x + of_int total_size \<ge> (g + 5) * of_nat gigabyte
                   | _ \<Rightarrow> False) then Some False
               else if (case seed of Some (Fin g) \<Rightarrow> g * of_nat gigabyte \<le> of_int total_size | _ \<Rightarrow> False) then Some False
               else
                 (case stats of
                    None \<Rightarrow> Some False
                  | Some st \<Rightarrow>
                      (case (if truthy dlcount then map_option Some (pyval_int dlcount) else Some None) of
                         None \<Rightarrow> None
                       | Some cap \<Rightarrow>
                           if (case cap of None \<Rightarrow> False | Some n \<Rightarrow> int (ds_downloading st) \<ge> n) then Some False
                           else if over_limit (lm_max_seeding lm) (ds_total st) then Some False
                           else if over_limit (lm_hr_limit lm) (ds_hr st) then Some False
                           else if \<not> is_in_time_range now (lm_range lm) then Some False
                           else if \<not> is_in_active_weekdays today (lm_weekdays lm) then Some False
                           else Some True)))"

text \<open>\<open>insert_brushtask_torrent\<close>: the row is added unless it is there; the method returns nothing.\<close>

definition row_enclosure :: "string \<Rightarrow> string" where
  "row_enclosure enc =
     (if enc \<noteq> [] \<and> startswith enc ''magnet:'' then hd (split_on CHR ''&'' enc)
      else if enc \<noteq> [] \<and> length enc > 4000 then take 4000 enc else enc)"

definition torrent_exists :: "int \<Rightarrow> string \<Rightarrow> string \<Rightarrow> brush_row list \<Rightarrow> bool" where
  "torrent_exists brush_id title enc rows =
     (brush_id \<noteq> 0 \<and> list_ex (\<lambda>r. br_task r = brush_id \<and> br_title r = title \<and> br_enclosure r = enc \<and> br_download r \<noteq> ''0'') rows)"

definition insert_torrent_row ::
  "int \<Rightarrow> string \<Rightarrow> string \<Rightarrow> string \<Rightarrow> string \<Rightarrow> string \<Rightarrow> brush_row list \<Rightarrow> pyval \<times> brush_row list" where
  "insert_torrent_row brush_id title enc download_id size_text page rows =
     (if brush_id = 0 then (PNone, rows)
      else if torrent_exists brush_id title (row_enclosure enc) rows then (PNone, rows)
      else (PNone, rows @ [\<lparr>br_task = brush_id, br_title = title, br_size = size_text, br_enclosure = row_enclosure enc,
                             br_download = download_id, br_page = page, br_pause = []\<rparr>]))"

text \<open>The record kept at the end of \<open>download_torrent\<close>: the row, and the download count of the task.\<close>

definition record_download ::
  "int \<Rightarrow> string \<Rightarrow> string \<Rightarrow> string \<Rightarrow> string \<Rightarrow> string \<Rightarrow> brush_row list \<times> nat \<Rightarrow> brush_row list \<times> nat" where
  "record_download brush_id title enc download_id size_text page st =
     (if download_id = [] then st
      else let (inserted, rows) = insert_torrent_row brush_id title enc download_id size_text page (fst st)
           in (rows, if truthy inserted then snd st + 1 else snd st))"

section \<open>Lemmas\<close>

definition decided :: "'d remote \<Rightarrow> 'd \<Rightarrow> brush_task \<Rightarrow> (string, string) dict \<Rightarrow> (string, string) dict \<Rightarrow> torrent list \<Rightarrow> string set" where
  "decided rm d ti encs pages ts =
     {tr_id t |t. t \<in> set ts \<and> fst (removal_decision rm d ti encs pages (tr_progress t < 1) t)}"

lemma process_ids:
  assumes "\<forall>t \<in> set ts. fl = (tr_progress t < 1)"
  shows "set (pg_ids (process_torrents rm d ti encs pages fl ts p)) = set (pg_ids p) \<union> decided rm d ti encs pages ts"
  using assms
proof (induction ts arbitrary: p)
  case (Cons t ts)
  have "set (pg_ids (process_torrent rm d ti encs pages fl t p)) =
      set (pg_ids p) \<union> (if fst (removal_decision rm d ti encs pages fl t) then {tr_id t} else {})"
    by (auto simp: process_torrent_def Let_def split: prod.splits)
  with Cons show ?case by (auto simp: process_torrents_def decided_def)
qed (simp add: process_torrents_def decided_def)

lemma apply_daily_subset: "set (fst (snd (apply_daily_limit today k l ids daily))) \<subseteq> set ids"
  by (auto simp: apply_daily_limit_def Let_def split: option.splits prod.splits dest: in_set_takeD)

lemma finish_removal_remote:
  "bs_remote (finish_removal rm taskid ti p n s) = bs_remote s \<or>
   (\<exists>ids. set ids \<subseteq> set (pg_ids p) \<and> bs_remote (finish_removal rm taskid ti p n s) = rm_delete rm ids (bs_remote s))"
proof -
  obtain r ids daily where a: "apply_daily_limit (rm_today rm) taskid (tk_limit ti) (pg_ids p) (bs_daily s) = (r, ids, daily)"
    by (metis prod.collapse)
  have "set ids \<subseteq> set (pg_ids p)"
    using apply_daily_subset [of "rm_today rm" taskid "tk_limit ti" "pg_ids p" "bs_daily s"] a by simp
  with a show ?thesis by (auto simp: finish_removal_def add_total_def Let_def)
qed

definition daily_count :: "int \<Rightarrow> int \<Rightarrow> (int, int \<times> int) dict \<Rightarrow> int" where
  "daily_count today k daily = (case dget daily k of None \<Rightarrow> 0 | Some (d, n) \<Rightarrow> if d = today then n else 0)"

lemma apply_daily_spec:
  assumes "apply_daily_limit today k l ids daily = (r, kept, daily')" and "l \<noteq> []" "isdigit l" "py_int l = Some L" "0 < L"
  shows "kept = take (nat (L - daily_count today k daily)) ids"
    and "daily_count today k daily' = daily_count today k daily + int (length kept)"
    and "r \<longleftrightarrow> L \<le> daily_count today k daily"
proof -
  define c where "c = daily_count today k daily"
  have e: "(case dget daily k of None \<Rightarrow> (today, 0) | Some (d, n) \<Rightarrow> if d \<noteq> today then (today, 0) else (d, n)) = (today, c)"
    by (auto simp: c_def daily_count_def split: option.splits)
  have "apply_daily_limit today k l ids daily =
    (if L - c \<le> 0 then (True, [], dput k (today, c) daily)
     else (let ids = (if int (length ids) > L - c then take (nat (L - c)) ids else ids)
           in (False, ids, dput k (today, c + int (length ids)) daily)))"
    using assms(2-5) by (simp add: apply_daily_limit_def e Let_def)
  moreover have put: "daily_count today k (dput k (today, n) daily) = n" for n by (simp add: daily_count_def)
  ultimately show "kept = take (nat (L - daily_count today k daily)) ids"
    "daily_count today k daily' = daily_count today k daily + int (length kept)" "r \<longleftrightarrow> L \<le> daily_count today k daily"
    using assms(1) unfolding c_def [symmetric] by (auto simp: Let_def put split: if_splits)
qed

lemma apply_daily_other: "j \<noteq> k \<Longrightarrow> daily_count today k (snd (snd (apply_daily_limit today' j l ids daily))) = daily_count today k daily"
  by (auto simp: apply_daily_limit_def Let_def daily_count_def split: option.splits prod.splits)

text \<open>A day of removal runs: before a run the rows and the downloader are whatever they have become; a restart of the process
  forgets the counters. Counted is what the runs of task \<open>k\<close> ask the downloader to delete, by a measure \<open>f\<close> of the downloader.\<close>

datatype 'd day_step = Removal "brush_row list" 'd "'d remote" int brush_task | Restart

fun day_deletes :: "('d \<Rightarrow> nat) \<Rightarrow> int \<Rightarrow> 'd day_step list \<Rightarrow> 'd brush_state \<Rightarrow> nat" where
  "day_deletes f k [] s = 0"
| "day_deletes f k (Restart # steps) s = day_deletes f k steps (s\<lparr>bs_daily := []\<rparr>)"
| "day_deletes f k (Removal rows d rm taskid ti # steps) s =
     (let s' = remove_task_torrents rm taskid ti (s\<lparr>bs_rows := rows, bs_remote := d\<rparr>)
      in (if taskid = k then f (bs_remote s') - f d else 0) + day_deletes f k steps s')"

fun restarts_of :: "'d day_step list \<Rightarrow> nat" where
  "restarts_of [] = 0"
| "restarts_of (Restart # steps) = Suc (restarts_of steps)"
| "restarts_of (Removal _ _ _ _ _ # steps) = restarts_of steps"

lemma finish_removal_count:
  assumes l: "tk_limit ti \<noteq> []" "isdigit (tk_limit ti)" "py_int (tk_limit ti) = Some L" "0 < L"
    and f: "\<And>ids d. f (rm_delete rm ids d) = f d + length ids" and s': "s' = finish_removal rm k ti p n s"
  shows "int (f (bs_remote s')) - int (f (bs_remote s)) =
      daily_count (rm_today rm) k (bs_daily s') - daily_count (rm_today rm) k (bs_daily s)"
    and "daily_count (rm_today rm) k (bs_daily s) \<le> L \<Longrightarrow> daily_count (rm_today rm) k (bs_daily s') \<le> L"
    and "f (bs_remote s) \<le> f (bs_remote s')"
proof -
  let ?c = "\<lambda>s :: 'a brush_state. daily_count (rm_today rm) k (bs_daily s)"
  obtain r ids daily where a: "apply_daily_limit (rm_today rm) k (tk_limit ti) (pg_ids p) (bs_daily s) = (r, ids, daily)"
    by (metis prod.collapse)
  note spec = apply_daily_spec [OF a l]
  have "s' = add_total k (pg_up p) (pg_down p) (int n) s \<or>
      (ids = [] \<and> bs_remote s' = bs_remote s \<or> bs_remote s' = rm_delete rm ids (bs_remote s)) \<and> bs_daily s' = daily"
    using s' a by (auto simp: finish_removal_def add_total_def Let_def)
  then show "int (f (bs_remote s')) - int (f (bs_remote s)) = ?c s' - ?c s" "?c s \<le> L \<Longrightarrow> ?c s' \<le> L"
    "f (bs_remote s) \<le> f (bs_remote s')"
    using spec(1,2) by (auto simp: add_total_def f)
qed

lemma finish_removal_other: "j \<noteq> k \<Longrightarrow> daily_count today k (bs_daily (finish_removal rm j ti p n s)) = daily_count today k (bs_daily s)"
  using apply_daily_other [of j k today "rm_today rm" "tk_limit ti" "pg_ids p" "bs_daily s"]
  by (auto simp: finish_removal_def add_total_def Let_def split: prod.splits)

lemma removal_cases:
  obtains "remove_task_torrents rm k ti s = s"
  | p n s1 where "remove_task_torrents rm k ti s = finish_removal rm k ti p n s1" "bs_remote s1 = bs_remote s" "bs_daily s1 = bs_daily s"
proof (cases "tk_state ti \<noteq> ''Y'' \<or> \<not> rm_conf rm \<or> keys (row_map br_enclosure (get_torrent_rows k (bs_rows s))) = [] \<or>
    rm_get rm (keys (row_map br_enclosure (get_torrent_rows k (bs_rows s)))) (bs_remote s) = None")
  case True
  then show thesis by (intro that(1)) (auto simp: remove_task_torrents_def Let_def)
next
  case False
  then obtain ts where "rm_get rm (keys (row_map br_enclosure (get_torrent_rows k (bs_rows s)))) (bs_remote s) = Some ts" by blast
  with False have "\<exists>p n s1. remove_task_torrents rm k ti s = finish_removal rm k ti p n s1 \<and> bs_remote s1 = bs_remote s \<and> bs_daily s1 = bs_daily s"
    by (simp add: remove_task_torrents_def Let_def) (intro exI conjI, rule refl, simp_all)
  then show thesis using that(2) by blast
qed

lemma day_deletes_bound:
  assumes "l \<noteq> []" "isdigit l" "py_int l = Some L" "0 < L"
    and "\<And>rows d rm ti. Removal rows d rm k ti \<in> set steps \<Longrightarrow> tk_limit ti = l"
    and "\<And>rows d rm j ti. Removal rows d rm j ti \<in> set steps \<Longrightarrow>
      rm_today rm = today \<and> (\<forall>ids d. f (rm_delete rm ids d) = f d + length ids)"
  shows "daily_count today k (bs_daily s) \<le> L \<Longrightarrow>
    int (day_deletes f k steps s) \<le> L * (1 + int (restarts_of steps)) - daily_count today k (bs_daily s)"
  using assms(5,6)
proof (induction steps arbitrary: s)
  case Nil
  then show ?case by simp
next
  case (Cons x steps)
  have more: "\<And>rows d rm ti. Removal rows d rm k ti \<in> set steps \<Longrightarrow> tk_limit ti = l"
    "\<And>rows d rm j ti. Removal rows d rm j ti \<in> set steps \<Longrightarrow>
      rm_today rm = today \<and> (\<forall>ids d. f (rm_delete rm ids d) = f d + length ids)"
    using Cons.prems(2,3) by (meson list.set_intros(2))+
  have IH: "daily_count today k (bs_daily s) \<le> L \<Longrightarrow>
    int (day_deletes f k steps s) \<le> L * (1 + int (restarts_of steps)) - daily_count today k (bs_daily s)" for s
    by (rule Cons.IH) (use more in \<open>assumption | blast\<close>)+
  show ?case
  proof (cases x)
    case Restart
    have "daily_count today k (bs_daily (s\<lparr>bs_daily := []\<rparr>)) = 0" by (simp add: daily_count_def)
    with IH [of "s\<lparr>bs_daily := []\<rparr>"] Restart Cons.prems(1) assms(4) show ?thesis
      by (simp add: algebra_simps)
  next
    case (Removal rows d rm j ti)
    define s0 where "s0 = s\<lparr>bs_rows := rows, bs_remote := d\<rparr>"
    define s1 where "s1 = remove_task_torrents rm j ti s0"
    have s0: "bs_daily s0 = bs_daily s" "bs_remote s0 = d" by (simp_all add: s0_def)
    have today: "rm_today rm = today" and f: "\<And>ids d. f (rm_delete rm ids d) = f d + length ids"
      using Cons.prems(3) [of rows d rm j ti] Removal by simp_all
    have step: "daily_count today k (bs_daily s1) \<le> L \<and> (if j = k then int (f (bs_remote s1) - f d) else 0) =
        daily_count today k (bs_daily s1) - daily_count today k (bs_daily s)"
    proof (cases rule: removal_cases [of rm j ti s0])
      case 1
      then have "s1 = s0" by (simp add: s1_def)
      then show ?thesis using Cons.prems(1) s0 by simp
    next
      case (2 p n s2)
      show ?thesis
      proof (cases "j = k")
        case True
        then have lim: "tk_limit ti = l" using Cons.prems(2) [of rows d rm ti] Removal by simp
        note count = finish_removal_count [of ti L f rm s1 k p n s2, unfolded lim today, OF assms(1-4) f]
        have "s1 = finish_removal rm k ti p n s2" using 2 True by (simp add: s1_def)
        from count [OF this] show ?thesis using True Cons.prems(1) 2(2,3) s0 by simp
      next
        case False
        then show ?thesis using 2 s0 Cons.prems(1) finish_removal_other [OF False, of today rm ti p n s2] by (simp add: s1_def)
      qed
    qed
    have "day_deletes f k (x # steps) s = (if j = k then f (bs_remote s1) - f d else 0) + day_deletes f k steps s1"
      by (auto simp: Removal s1_def s0_def Let_def)
    with step IH [of s1] Removal show ?thesis by (simp split: if_splits)
  qed
qed

lemma digits_no_colon: "c \<in> set (nat_str n) \<Longrightarrow> c \<noteq> CHR '':'' \<and> c \<noteq> CHR ''-'' \<and> \<not> is_space c \<and> c \<noteq> CHR '',''"
  using nat_str_digits [of n] by (auto simp: list_all_iff is_digit_def is_space_def ord_def Let_def)

lemma clock_time_text:
  "h < 24 \<Longrightarrow> m < 60 \<Longrightarrow> clock_time (nat_str h @ CHR '':'' # nat_str m) = Some (of_nat ((h * 60 + m) * 60))"
proof -
  assume hm: "h < 24" "m < 60"
  have "split_on CHR '':'' (nat_str h @ CHR '':'' # nat_str m) = [nat_str h, nat_str m]"
    using digits_no_colon by (subst split_on_sep) (auto intro!: split_on_no_sep)
  with hm show ?thesis by (simp add: clock_time_def py_int_nat_str)
qed

definition period_text :: "nat \<Rightarrow> nat \<Rightarrow> nat \<Rightarrow> nat \<Rightarrow> string" where
  "period_text h1 m1 h2 m2 = nat_str h1 @ '':'' @ nat_str m1 @ ''-'' @ nat_str h2 @ '':'' @ nat_str m2"

lemma period_text_split:
  "split_on CHR '','' (period_text h1 m1 h2 m2) = [period_text h1 m1 h2 m2]"
  "split_on CHR ''-'' (period_text h1 m1 h2 m2) = [nat_str h1 @ CHR '':'' # nat_str m1, nat_str h2 @ CHR '':'' # nat_str m2]"
proof -
  show "split_on CHR '','' (period_text h1 m1 h2 m2) = [period_text h1 m1 h2 m2]"
    by (rule split_on_no_sep) (auto simp: period_text_def dest: digits_no_colon)
  have "period_text h1 m1 h2 m2 = (nat_str h1 @ CHR '':'' # nat_str m1) @ CHR ''-'' # (nat_str h2 @ CHR '':'' # nat_str m2)"
    by (simp add: period_text_def)
  moreover have "CHR ''-'' \<notin> set (nat_str h1 @ CHR '':'' # nat_str m1)" "CHR ''-'' \<notin> set (nat_str h2 @ CHR '':'' # nat_str m2)"
    by (auto dest: digits_no_colon)
  ultimately show "split_on CHR ''-'' (period_text h1 m1 h2 m2) = [nat_str h1 @ CHR '':'' # nat_str m1, nat_str h2 @ CHR '':'' # nat_str m2]"
    by (metis split_on_sep split_on_no_sep)
qed

lemma period_text_strip: "strip (period_text h1 m1 h2 m2) \<noteq> []"
proof -
  have "is_digit (hd (nat_str h1))" "nat_str h1 \<noteq> []" "is_digit (last (nat_str m2))" "nat_str m2 \<noteq> []"
    using nat_str_digits [of h1] nat_str_digits [of m2] by (auto simp: list_all_iff)
  then have "strip (period_text h1 m1 h2 m2) = period_text h1 m1 h2 m2"
    by (intro strip_id) (auto simp: period_text_def digit_not_space)
  then show ?thesis using \<open>nat_str h1 \<noteq> []\<close> by (simp add: period_text_def)
qed

section \<open>Properties\<close>

text \<open>A removal run deletes only what the rules decided: at most one deletion is asked of the
  downloader, and every torrent in it is one of the task's torrents that the downloader reported and
  for which the removal rules fire.\<close>

theorem removal_only_decided:
  assumes "s' = remove_task_torrents rm taskid ti s"
    and "rows = get_torrent_rows taskid (bs_rows s)" and "bs_remote s' \<noteq> bs_remote s"
  shows "\<exists>ts ids. rm_get rm (keys (row_map br_enclosure rows)) (bs_remote s) = Some ts \<and>
    bs_remote s' = rm_delete rm ids (bs_remote s) \<and>
    set ids \<subseteq> decided rm (bs_remote s) ti (row_map br_enclosure rows) (row_map br_page rows) ts"
proof -
  define encs where "encs = row_map br_enclosure rows"
  define pages where "pages = row_map br_page rows"
  obtain ts where ts: "rm_get rm (keys encs) (bs_remote s) = Some ts"
    using assms by (auto simp: remove_task_torrents_def encs_def Let_def split: if_splits option.splits)
  define p0 where "p0 = \<lparr>pg_up = 0, pg_down = 0, pg_ids = [], pg_updates = [], pg_events = [], pg_messages = []\<rparr>"
  define p1 where "p1 = process_torrents rm (bs_remote s) ti encs pages False (filter (\<lambda>t. tr_progress t \<ge> 1) ts) p0"
  define p2 where "p2 = process_torrents rm (bs_remote s) ti encs pages True (filter (\<lambda>t. tr_progress t < 1) ts) p1"
  have ids: "set (pg_ids p2) \<subseteq> decided rm (bs_remote s) ti encs pages ts"
    unfolding p2_def p1_def by (subst process_ids, force, subst process_ids, force) (auto simp: p0_def decided_def)
  obtain n s1 where s1: "s' = finish_removal rm taskid ti p2 n s1" "bs_remote s1 = bs_remote s"
    using assms(1,3) ts
    by (auto simp: remove_task_torrents_def assms(2) [symmetric] encs_def [symmetric] pages_def [symmetric] Let_def
        p0_def [symmetric] p1_def [symmetric] p2_def [symmetric] split: if_splits)
  from finish_removal_remote [of rm taskid ti p2 n s1] s1 assms(3) ids ts show ?thesis
    unfolding encs_def [symmetric] pages_def [symmetric] by (metis subset_trans)
qed

text \<open>A small downloader for the witnesses: the ids it holds, all seeding with a tracker error.\<close>

definition demo_torrent :: "string \<Rightarrow> torrent" where
  "demo_torrent i = \<lparr>tr_id = i, tr_name = i, tr_downloaded = 1, tr_uploaded = 2, tr_ratio = 2, tr_add_time = PNone,
     tr_seeding_time = 60, tr_download_time = 60, tr_avg_upspeed = 0, tr_upspeed = 0, tr_iatime = 0, tr_labels = [],
     tr_status = Uploading, tr_tracker_error = ''gone'', tr_progress = 1\<rparr>"

definition demo_remote :: "string list remote" where
  "demo_remote = \<lparr>rm_get = (\<lambda>ids d. Some (map demo_torrent (filter (\<lambda>i. i \<in> set ids) d))),
     rm_delete = (\<lambda>ids d. filter (\<lambda>i. i \<notin> set ids) d), rm_stop = (\<lambda>i d. d), rm_start = (\<lambda>i d. d),
     rm_free_space = (\<lambda>d. PNone), rm_attr = (\<lambda>u. Some [(''free'', PBool True)]), rm_alive = (\<lambda>v. None),
     rm_conf = True, rm_site = True, rm_today = 7, rm_weekday = 1, rm_time = 0\<rparr>"

definition demo_brush_task :: "string \<Rightarrow> brush_task" where
  "demo_brush_task limit = \<lparr>tk_id = 3, tk_state = ''Y'', tk_send = False, tk_remove = [(''tracker_error'', PStr ''Y'')],
     tk_stop = [], tk_limit = limit, tk_time_range = [], tk_weekdays = []\<rparr>"

definition demo_row :: "string \<Rightarrow> brush_row" where
  "demo_row i = \<lparr>br_task = 3, br_title = i, br_size = ''5'', br_enclosure = ''e'', br_download = i, br_page = [], br_pause = []\<rparr>"

definition demo_state :: "string list \<Rightarrow> (string list) brush_state" where
  "demo_state ids = \<lparr>bs_rows = map demo_row ids, bs_events = [], bs_messages = [], bs_daily = [], bs_totals = [],
     bs_remote = ids\<rparr>"

lemmas demo_defs = demo_torrent_def demo_remote_def demo_brush_task_def demo_row_def demo_state_def

lemma demo_decided: "removal_decision demo_remote d (demo_brush_task l) encs pages fl (demo_torrent i) =
    (True, Many [TrackerError])"
  by (auto simp: demo_defs removal_decision_def fetch_attr_def rule_needs_attr_def attr_rule_keys_def ignored_def
      check_remove_rule_def torrent_params_def torrent_attr_def remove_checks_def remove_values_def get_or_def pget_def
      split: prod.splits option.splits)

theorem removal_only_decided_witness:
  "\<exists>ts ids. rm_get demo_remote [''a''] [''a''] = Some ts \<and>
     bs_remote (remove_task_torrents demo_remote 3 (demo_brush_task []) (demo_state [''a''])) = rm_delete demo_remote ids [''a''] \<and>
     set ids \<subseteq> decided demo_remote [''a''] (demo_brush_task []) [(''a'', ''e'')] [(''a'', [])] ts"
proof -
  define rows where "rows = get_torrent_rows 3 (bs_rows (demo_state [''a'']))"
  define s' where "s' = remove_task_torrents demo_remote 3 (demo_brush_task []) (demo_state [''a''])"
  have rows: "rows = [demo_row ''a'']" by (simp add: rows_def get_torrent_rows_def demo_state_def demo_row_def)
  have maps: "row_map br_enclosure rows = [(''a'', ''e'')]" "row_map br_page rows = [(''a'', [])]"
    by (simp_all add: rows row_map_def demo_row_def)
  have get: "rm_get demo_remote ids d = Some (map demo_torrent (filter (\<lambda>i. i \<in> set ids) d))" for ids d
    by (simp add: demo_remote_def)
  have st: "tk_state (demo_brush_task []) = ''Y''" "rm_conf demo_remote" "bs_remote (demo_state [''a'']) = [''a'']"
    "tr_progress (demo_torrent i) = 1" "tr_id (demo_torrent i) = i" "tk_limit (demo_brush_task []) = []" for i
    by (simp_all add: demo_defs)
  have ne: "bs_remote s' \<noteq> bs_remote (demo_state [''a''])"
    by (simp add: s'_def remove_task_torrents_def rows_def [symmetric] maps get st Let_def process_torrents_def
        process_torrent_def demo_decided finish_removal_def apply_daily_limit_def add_total_def)
      (simp add: demo_remote_def)
  from removal_only_decided [OF s'_def rows_def ne] show ?thesis
    by (simp add: s'_def maps st)
qed

text \<open>C21: The daily limit: of all removal runs of one day, before which none was counted, those of a task ask the downloader to
  delete at most as many torrents as the limit of the task, a positive number that stays the same, says, once for the process and once more for each of its restarts, which forget the count; whatever
  the downloader answers, the rules decide, other tasks do and happens between the runs.\<close>

theorem daily_limit_total:
  assumes "l \<noteq> []" "isdigit l" "py_int l = Some L" "0 < L"
    and "\<And>rows d rm ti. Removal rows d rm k ti \<in> set steps \<Longrightarrow> tk_limit ti = l"
    and "\<And>rows d rm j ti. Removal rows d rm j ti \<in> set steps \<Longrightarrow>
      rm_today rm = today \<and> (\<forall>ids d. f (rm_delete rm ids d) = f d + length ids)"
    and "\<And>n. dget (bs_daily s) k \<noteq> Some (today, n)"
  shows "int (day_deletes f k steps s) \<le> L * (1 + int (restarts_of steps))"
proof -
  have "daily_count today k (bs_daily s) = 0"
    using assms(7) by (auto simp: daily_count_def split: option.split)
  moreover have "daily_count today k (bs_daily s) \<le> L \<Longrightarrow>
      int (day_deletes f k steps s) \<le> L * (1 + int (restarts_of steps)) - daily_count today k (bs_daily s)"
    by (rule day_deletes_bound [OF assms(1-4)]) (use assms(5,6) in \<open>assumption | blast\<close>)+
  ultimately show ?thesis using assms(4) by simp
qed

definition counted_remote :: "(string list \<times> nat) remote" where
  "counted_remote = \<lparr>rm_get = (\<lambda>ids d. Some (map demo_torrent (filter (\<lambda>i. i \<in> set ids) (fst d)))),
     rm_delete = (\<lambda>ids d. (filter (\<lambda>i. i \<notin> set ids) (fst d), snd d + length ids)), rm_stop = (\<lambda>i d. d), rm_start = (\<lambda>i d. d),
     rm_free_space = (\<lambda>d. PNone), rm_attr = (\<lambda>u. Some [(''free'', PBool True)]), rm_alive = (\<lambda>v. None),
     rm_conf = True, rm_site = True, rm_today = 7, rm_weekday = 1, rm_time = 0\<rparr>"

definition counted_run :: "string list \<Rightarrow> (string list \<times> nat) day_step" where
  "counted_run ids = Removal (map demo_row ids) (ids, 0) counted_remote 3 (demo_brush_task (nat_str 2))"

theorem daily_limit_total_witness:
  "int (day_deletes snd 3 [counted_run [''a'', ''b''], counted_run [''c'']]
     \<lparr>bs_rows = [], bs_events = [], bs_messages = [], bs_daily = [], bs_totals = [], bs_remote = ([], 0)\<rparr>) \<le> 2"
proof -
  have d: "nat_str 2 \<noteq> []" "isdigit (nat_str 2)" "py_int (nat_str 2) = Some 2"
    using nat_str_digits [of 2] by (simp_all add: isdigit_def py_int_nat_str)
  let ?s = "\<lparr>bs_rows = [], bs_events = [], bs_messages = [], bs_daily = [], bs_totals = [], bs_remote = ([], 0)\<rparr> :: (string list \<times> nat) brush_state"
  let ?steps = "[counted_run [''a'', ''b''], counted_run [''c'']]"
  have "int (day_deletes snd 3 ?steps ?s) \<le> 2 * (1 + int (restarts_of ?steps))"
    by (rule daily_limit_total [OF d, of 3 ?steps 7 snd])
       (auto simp: counted_run_def counted_remote_def demo_brush_task_def)
  then show ?thesis by (simp add: counted_run_def)
qed

text \<open>What the daily limit does to the record: when more torrents are due than the limit leaves and the
  downloader deletes what it is asked to, only the first ones are deleted, but the rows of all of them
  are marked as deleted, so the task loses track of torrents that are still there.\<close>

theorem daily_limit_marks_all:
  assumes "tk_limit ti \<noteq> []" "isdigit (tk_limit ti)" "py_int (tk_limit ti) = Some L"
    and "daily_count (rm_today rm) taskid (bs_daily s) < L" and "0 < L" and "pg_ids p \<noteq> []"
    and "\<And>ids d. rm_get rm ids (rm_delete rm ids d) = Some []"
  shows "bs_remote (finish_removal rm taskid ti p n s) =
      rm_delete rm (take (nat (L - daily_count (rm_today rm) taskid (bs_daily s))) (pg_ids p)) (bs_remote s) \<and>
    bs_rows (finish_removal rm taskid ti p n s) = update_torrent_state (pg_updates p) (bs_rows s)"
proof -
  obtain r ids daily where a: "apply_daily_limit (rm_today rm) taskid (tk_limit ti) (pg_ids p) (bs_daily s) = (r, ids, daily)"
    by (metis prod.collapse)
  note spec = apply_daily_spec [OF a assms(1-3,5)]
  have "filter (\<lambda>(_, _, i). True) (pg_updates p) = pg_updates p" by (simp add: split_def)
  with assms(4,6,7) spec(1,3) a show ?thesis
    by (simp add: finish_removal_def add_total_def Let_def)
qed

theorem daily_limit_marks_all_witness:
  "map br_download (bs_rows (remove_task_torrents demo_remote 3 (demo_brush_task (nat_str 1)) (demo_state [''a'', ''b'']))) = [''0'', ''0''] \<and>
   bs_remote (remove_task_torrents demo_remote 3 (demo_brush_task (nat_str 1)) (demo_state [''a'', ''b''])) = [''b'']"
proof -
  define p where "p = \<lparr>pg_up = 4, pg_down = 2, pg_ids = [''a'', ''b''],
    pg_updates = [(int_str 2 @ '','' @ int_str 1, 3, ''a''), (int_str 2 @ '','' @ int_str 1, 3, ''b'')],
    pg_events = [\<lparr>be_task = 3, be_torrent = ''a'', be_download = ''a'', be_action = ''delete'', be_reason = ByRule (Many [TrackerError])\<rparr>,
                 \<lparr>be_task = 3, be_torrent = ''b'', be_download = ''b'', be_action = ''delete'', be_reason = ByRule (Many [TrackerError])\<rparr>],
    pg_messages = []\<rparr>"
  define s where "s = (demo_state [''a'', ''b''])\<lparr>bs_events := pg_events p\<rparr>"
  define ti where "ti = demo_brush_task (nat_str 1)"
  have d: "tk_limit ti \<noteq> []" "isdigit (tk_limit ti)" "py_int (tk_limit ti) = Some 1"
    using nat_str_digits [of 1] by (simp_all add: ti_def demo_brush_task_def isdigit_def py_int_nat_str)
  have c: "daily_count (rm_today demo_remote) 3 (bs_daily s) = 0" by (simp add: s_def demo_state_def daily_count_def)
  have gone: "rm_get demo_remote ids (rm_delete demo_remote ids e) = Some []" for ids e
    by (auto simp: demo_remote_def filter_empty_conv)
  have rows: "get_torrent_rows 3 (bs_rows (demo_state [''a'', ''b''])) = [demo_row ''a'', demo_row ''b'']"
    by (simp add: get_torrent_rows_def demo_state_def demo_row_def)
  have maps: "row_map br_enclosure [demo_row ''a'', demo_row ''b''] = [(''a'', ''e''), (''b'', ''e'')]"
    by (simp add: row_map_def demo_row_def)
  have get: "rm_get demo_remote ids d = Some (map demo_torrent (filter (\<lambda>i. i \<in> set ids) d))" for ids d
    by (simp add: demo_remote_def)
  have st: "tk_state ti = ''Y''" "rm_conf demo_remote" "bs_remote (demo_state ids) = ids" "tr_progress (demo_torrent i) = 1"
    "tr_id (demo_torrent i) = i" "tr_name (demo_torrent i) = i" "tr_uploaded (demo_torrent i) = 2"
    "tr_downloaded (demo_torrent i) = 1" "tk_id ti = 3" "\<not> tk_send ti" "bs_events (demo_state ids) = []"
    "bs_messages (demo_state ids) = []" for i ids
    by (simp_all add: demo_defs ti_def)
  have tk: "tk_id (demo_brush_task l) = 3" for l by (simp add: demo_brush_task_def)
  have snd_flag: "\<not> tk_send (demo_brush_task l)" for l by (simp add: demo_brush_task_def)
  have dt: "tr_progress (demo_torrent i) = 1" "tr_id (demo_torrent i) = i" "tr_name (demo_torrent i) = i"
    "tr_uploaded (demo_torrent i) = 2" "tr_downloaded (demo_torrent i) = 1" for i by (simp_all add: demo_torrent_def)
  have run: "remove_task_torrents demo_remote 3 ti (demo_state [''a'', ''b'']) = finish_removal demo_remote 3 ti p 0 s"
    by (simp add: remove_task_torrents_def rows maps get st Let_def process_torrents_def process_torrent_def
        demo_decided [folded ti_def] ti_def [symmetric] demo_decided p_def s_def)
       (simp add: demo_state_def demo_decided ti_def tk dt snd_flag Let_def)
  have mark: "daily_count (rm_today demo_remote) 3 (bs_daily s) < 1" "pg_ids p \<noteq> []" by (simp_all add: c p_def)
  have "bs_remote (finish_removal demo_remote 3 ti p 0 s) = rm_delete demo_remote (take (nat (1 - 0)) (pg_ids p)) (bs_remote s) \<and>
      bs_rows (finish_removal demo_remote 3 ti p 0 s) = update_torrent_state (pg_updates p) (bs_rows s)"
    using daily_limit_marks_all [OF d mark(1) _ mark(2) gone, of 0] unfolding c by simp
  moreover have "take (nat (1 - 0)) (pg_ids p) = [''a'']" by (simp add: p_def)
  moreover have "bs_remote s = [''a'', ''b'']" by (simp add: s_def demo_state_def)
  moreover have "rm_delete demo_remote [''a''] [''a'', ''b''] = [''b'']" by (simp add: demo_remote_def)
  moreover have "map br_download (update_torrent_state (pg_updates p) (bs_rows s)) = [''0'', ''0'']"
    by (simp add: p_def s_def demo_state_def demo_row_def update_torrent_state_def)
  ultimately show ?thesis
    unfolding ti_def [symmetric] run by (simp only: simp_thms)
qed

lemma resume_fold:
  "\<exists>ids. bs_remote (fold (resume_torrent rm taskid encs pages reasons) ts s) = fold (rm_start rm) ids (bs_remote s) \<and>
     (\<forall>i \<in> set ids. \<exists>t \<in> set ts. tr_id t = i \<and> is_paused t \<and> dget reasons i = Some ''free_end'' \<and>
        (\<exists>attr. rm_attr rm (if get_or pages i [] \<noteq> [] then get_or pages i [] else get_or encs i []) = Some attr \<and>
           truthy (pget attr ''free'')))"
proof (induction ts arbitrary: s)
  case Nil
  show ?case by (rule exI [of _ "[]"]) simp
next
  case (Cons t ts)
  from Cons [of "resume_torrent rm taskid encs pages reasons t s"] obtain ids where
    ids: "bs_remote (fold (resume_torrent rm taskid encs pages reasons) (t # ts) s) =
        fold (rm_start rm) ids (bs_remote (resume_torrent rm taskid encs pages reasons t s))"
      "\<forall>i \<in> set ids. \<exists>t \<in> set ts. tr_id t = i \<and> is_paused t \<and> dget reasons i = Some ''free_end'' \<and>
        (\<exists>attr. rm_attr rm (if get_or pages i [] \<noteq> [] then get_or pages i [] else get_or encs i []) = Some attr \<and>
           truthy (pget attr ''free''))"
    by auto
  show ?case
  proof (cases "bs_remote (resume_torrent rm taskid encs pages reasons t s) = bs_remote s")
    case True
    with ids show ?thesis by (intro exI [of _ ids]) auto
  next
    case False
    then have "bs_remote (resume_torrent rm taskid encs pages reasons t s) = rm_start rm (tr_id t) (bs_remote s)"
      "is_paused t" "dget reasons (tr_id t) = Some ''free_end''"
      "\<exists>attr. rm_attr rm (if get_or pages (tr_id t) [] \<noteq> [] then get_or pages (tr_id t) [] else get_or encs (tr_id t) []) = Some attr \<and>
           truthy (pget attr ''free'')"
      by (auto simp: resume_torrent_def Let_def split: if_splits option.splits)
    with ids show ?thesis by (intro exI [of _ "tr_id t # ids"]) auto
  qed
qed

text \<open>Automatic resuming starts only torrents that are paused, that the task itself paused because their
  free period ended, and that the site now reports as free; outside the active hours and weekdays it
  starts nothing.\<close>

theorem resume_only_free_end:
  "\<exists>ids. bs_remote (resume_free_torrents rm taskid ti encs pages reasons s) = fold (rm_start rm) ids (bs_remote s) \<and>
     (\<forall>i \<in> set ids. dget reasons i = Some ''free_end'' \<and>
        (\<exists>ts t. rm_get rm (keys encs) (bs_remote s) = Some ts \<and> t \<in> set ts \<and> tr_id t = i \<and> is_paused t) \<and>
        (\<exists>attr. rm_attr rm (if get_or pages i [] \<noteq> [] then get_or pages i [] else get_or encs i []) = Some attr \<and>
           truthy (pget attr ''free''))) \<and>
     (ids \<noteq> [] \<longrightarrow> is_in_time_range (rm_time rm) (tk_time_range ti) \<and> is_in_active_weekdays (rm_weekday rm) (tk_weekdays ti))"
proof (cases "is_in_time_range (rm_time rm) (tk_time_range ti) \<and> is_in_active_weekdays (rm_weekday rm) (tk_weekdays ti)")
  case False
  then show ?thesis by (intro exI [of _ "[]"]) (auto simp: resume_free_torrents_def)
next
  case True
  show ?thesis
  proof (cases "rm_get rm (keys encs) (bs_remote s)")
    case None
    with True show ?thesis by (intro exI [of _ "[]"]) (auto simp: resume_free_torrents_def)
  next
    case (Some ts)
    from resume_fold [of rm taskid encs pages reasons ts s] obtain ids where
      ids: "bs_remote (fold (resume_torrent rm taskid encs pages reasons) ts s) = fold (rm_start rm) ids (bs_remote s)"
        "\<forall>i \<in> set ids. \<exists>t \<in> set ts. tr_id t = i \<and> is_paused t \<and> dget reasons i = Some ''free_end'' \<and>
        (\<exists>attr. rm_attr rm (if get_or pages i [] \<noteq> [] then get_or pages i [] else get_or encs i []) = Some attr \<and>
           truthy (pget attr ''free''))"
      by blast
    have "resume_free_torrents rm taskid ti encs pages reasons s = fold (resume_torrent rm taskid encs pages reasons) ts s"
      using True Some by (simp add: resume_free_torrents_def)
    with ids True Some show ?thesis by (intro exI [of _ ids]) auto
  qed
qed

theorem resume_only_free_end_witness:
  "\<exists>ids. fold (rm_start demo_remote) ids [''a''] = bs_remote (resume_free_torrents demo_remote 3 (demo_brush_task [])
     [(''a'', ''e'')] [] [(''a'', ''free_end'')] (demo_state [''a'']))"
proof -
  from resume_only_free_end [of demo_remote 3 "demo_brush_task []" "[(''a'', ''e'')]" "[]" "[(''a'', ''free_end'')]"
      "demo_state [''a'']"]
  obtain ids where ids: "bs_remote (resume_free_torrents demo_remote 3 (demo_brush_task []) [(''a'', ''e'')] []
      [(''a'', ''free_end'')] (demo_state [''a''])) = fold (rm_start demo_remote) ids (bs_remote (demo_state [''a'']))"
    by blast
  have "bs_remote (demo_state [''a'']) = [''a'']" by (simp add: demo_state_def)
  with ids show ?thesis by (intro exI [of _ ids]) simp
qed

text \<open>A period written \<open>HH:MM-HH:MM\<close>: inside when the time is between the two ends, or, when the first
  is not before the second, after the first or before the second (over midnight).\<close>

theorem time_range_text:
  assumes "h1 < 24" "m1 < 60" "h2 < 24" "m2 < 60"
  shows "is_in_time_range now (period_text h1 m1 h2 m2) =
    (let start = of_nat ((h1 * 60 + m1) * 60); stop = of_nat ((h2 * 60 + m2) * 60)
     in if start < stop then start \<le> now \<and> now \<le> stop else start \<le> now \<or> now \<le> stop)"
  using clock_time_text [OF assms(1,2)] clock_time_text [OF assms(3,4)] period_text_strip [of h1 m1 h2 m2]
  by (simp add: is_in_time_range_def period_text_split Let_def)

theorem time_range_text_witness:
  "is_in_time_range (23 * 3600) (period_text 22 0 6 30) \<and> \<not> is_in_time_range (12 * 3600) (period_text 22 0 6 30)"
  by (simp add: time_range_text Let_def)

text \<open>A task takes a new torrent only within all its limits: the downloader supports it and answers, the
  kept size and the new torrent fit the seeding size, the number of downloads, of torrents and of
  torrents under H and R are below their limits, and the time is in the active hours and weekdays.\<close>

theorem new_torrent_within_limits:
  assumes "is_allow_new_torrent supported kept lm dlcount size_opt stats now today = Some True"
  shows "supported \<and> is_in_time_range now (lm_range lm) \<and> is_in_active_weekdays today (lm_weekdays lm) \<and>
    (\<exists>st. stats = Some st \<and> \<not> over_limit (lm_max_seeding lm) (ds_total st) \<and> \<not> over_limit (lm_hr_limit lm) (ds_hr st) \<and>
      (truthy dlcount \<longrightarrow> (\<exists>n. pyval_int dlcount = Some n \<and> int (ds_downloading st) < n))) \<and>
    (\<forall>g. lm_seed_size lm \<noteq> [] \<and> py_float (lm_seed_size lm) = Some (Fin g) \<longrightarrow>
      of_int kept < g * of_nat gigabyte \<and>
      (\<forall>x. size_opt = Some x \<and> x \<noteq> 0 \<longrightarrow> x + of_int kept < (g + 5) * of_nat gigabyte))"
  using assms
  by (auto simp: is_allow_new_torrent_def Let_def not_le split: if_splits option.splits flt.splits)

theorem new_torrent_within_limits_witness:
  "is_allow_new_torrent True 0 \<lparr>lm_seed_size = [], lm_max_seeding = nat_str 2, lm_hr_limit = [], lm_range = [], lm_weekdays = []\<rparr>
     (PInt 1) None (Some \<lparr>ds_downloading = 0, ds_hr = 0, ds_total = 1\<rparr>) 0 1 = Some True \<and> \<not> over_limit (nat_str 2) 1"
proof -
  have lim: "\<not> over_limit (nat_str 2) 1" "\<not> over_limit [] 0"
    by (simp_all add: over_limit_def isdigit_def py_int_nat_str)
  have a: "is_allow_new_torrent True 0 \<lparr>lm_seed_size = [], lm_max_seeding = nat_str 2, lm_hr_limit = [], lm_range = [], lm_weekdays = []\<rparr>
     (PInt 1) None (Some \<lparr>ds_downloading = 0, ds_hr = 0, ds_total = 1\<rparr>) 0 1 = Some True"
    by (simp add: is_allow_new_torrent_def Let_def lim [simplified] is_in_time_range_def is_in_active_weekdays_def lim)
  from new_torrent_within_limits [OF a] a show ?thesis by simp
qed

text \<open>The download count of a task never moves: the method that inserts the row returns nothing, and the
  caller counts a download only when it returns something true.\<close>

theorem download_count_never_moves:
  "snd (record_download brush_id title enc download_id size_text page (rows, n)) = n"
  by (auto simp: record_download_def insert_torrent_row_def Let_def split: prod.splits if_splits)

end
