(* ===== verification/Rbac.thy ===== *)
theory Rbac
  imports CacheStore
begin

text \<open>
  Access control (\<open>services/rbac\<close>, \<open>services/site_grant_service.py\<close> and their repositories): users, roles and
  permissions in tables, the association tables between them, the site grants of roles and users, and the
  cache of permission snapshots and site grants that the checks read through. A repository method is a
  function on the tables; a service method answers an error or the new state; the facade adds the
  invalidation of the cache. Menus, password hashes and the audit log are left out.

  What the database does by itself is a parameter: which key it gives to a new row, and whether deleting a
  row deletes the association rows that name it. With SQLite, the default, a new key is one more than the
  largest key in use and associations stay (\<open>owned_data_cleanup.py\<close> says so).
\<close>

section \<open>Tables\<close>

record user_row =
  us_id :: int
  us_name :: string
  us_email :: "string option"
  us_status :: int

record role_row =
  rl_id :: int
  rl_name :: string
  rl_code :: string
  rl_status :: int

record perm_row =
  pm_id :: int
  pm_code :: string
  pm_status :: int

record rbac_db =
  db_users :: "user_row list"
  db_roles :: "role_row list"
  db_perms :: "perm_row list"
  db_user_roles :: "(int \<times> int) list"
  db_role_perms :: "(int \<times> int) list"
  db_role_sites :: "(int \<times> string \<times> string list) list"
  db_user_sites :: "(int \<times> string \<times> string list) list"

record db_engine =
  eng_alloc :: "int list \<Rightarrow> int"
  eng_cascade :: bool

datatype rbac_error = AlreadyExists | NotFound | Refused | Integrity

definition superadmin :: string where
  "superadmin = ''superadmin''"

section \<open>Repositories\<close>

definition find_user :: "rbac_db \<Rightarrow> int \<Rightarrow> user_row option" where
  "find_user db u = List.find (\<lambda>r. us_id r = u) (db_users db)"

definition find_role :: "rbac_db \<Rightarrow> int \<Rightarrow> role_row option" where
  "find_role db r = List.find (\<lambda>x. rl_id x = r) (db_roles db)"

definition find_perm :: "rbac_db \<Rightarrow> int \<Rightarrow> perm_row option" where
  "find_perm db p = List.find (\<lambda>x. pm_id x = p) (db_perms db)"

definition repo_user_roles :: "rbac_db \<Rightarrow> int \<Rightarrow> role_row list" where
  "repo_user_roles db u =
     (case find_user db u of None \<Rightarrow> [] | Some _ \<Rightarrow> filter (\<lambda>r. (u, rl_id r) \<in> set (db_user_roles db)) (db_roles db))"

definition repo_role_permissions :: "rbac_db \<Rightarrow> int \<Rightarrow> perm_row list" where
  "repo_role_permissions db r =
     (case find_role db r of None \<Rightarrow> [] | Some _ \<Rightarrow> filter (\<lambda>p. (r, pm_id p) \<in> set (db_role_perms db)) (db_perms db))"

text \<open>The association is replaced by the enabled roles, or permissions, among those named.\<close>

definition repo_assign_roles :: "int \<Rightarrow> int list \<Rightarrow> rbac_db \<Rightarrow> rbac_db" where
  "repo_assign_roles u ids db =
     db\<lparr>db_user_roles := filter (\<lambda>(x, _). x \<noteq> u) (db_user_roles db) @
        map (\<lambda>r. (u, rl_id r)) (filter (\<lambda>r. rl_id r \<in> set ids \<and> rl_status r = 1) (db_roles db))\<rparr>"

definition repo_assign_permissions :: "int \<Rightarrow> int list \<Rightarrow> rbac_db \<Rightarrow> rbac_db" where
  "repo_assign_permissions r ids db =
     db\<lparr>db_role_perms := filter (\<lambda>(x, _). x \<noteq> r) (db_role_perms db) @
        map (\<lambda>p. (r, pm_id p)) (filter (\<lambda>p. pm_id p \<in> set ids \<and> pm_status p = 1) (db_perms db))\<rparr>"

definition repo_delete_user :: "db_engine \<Rightarrow> int \<Rightarrow> rbac_db \<Rightarrow> rbac_db" where
  "repo_delete_user eng u db =
     db\<lparr>db_users := filter (\<lambda>r. us_id r \<noteq> u) (db_users db),
        db_user_roles := (if eng_cascade eng then filter (\<lambda>(x, _). x \<noteq> u) (db_user_roles db) else db_user_roles db)\<rparr>"

definition repo_delete_role :: "db_engine \<Rightarrow> int \<Rightarrow> rbac_db \<Rightarrow> rbac_db" where
  "repo_delete_role eng r db =
     db\<lparr>db_roles := filter (\<lambda>x. rl_id x \<noteq> r) (db_roles db),
        db_user_roles := (if eng_cascade eng then filter (\<lambda>(_, x). x \<noteq> r) (db_user_roles db) else db_user_roles db),
        db_role_perms := (if eng_cascade eng then filter (\<lambda>(x, _). x \<noteq> r) (db_role_perms db) else db_role_perms db)\<rparr>"

text \<open>The site grants of the account, which the services clear themselves.\<close>

definition purge_user :: "int \<Rightarrow> rbac_db \<Rightarrow> rbac_db" where
  "purge_user u db = db\<lparr>db_user_sites := filter (\<lambda>(x, _). x \<noteq> u) (db_user_sites db)\<rparr>"

definition purge_role :: "int \<Rightarrow> rbac_db \<Rightarrow> rbac_db" where
  "purge_role r db = db\<lparr>db_role_sites := filter (\<lambda>(x, _). x \<noteq> r) (db_role_sites db)\<rparr>"

section \<open>User, role and permission services\<close>

definition create_user :: "db_engine \<Rightarrow> string \<Rightarrow> string option \<Rightarrow> int list \<Rightarrow> rbac_db \<Rightarrow> rbac_error + (int \<times> rbac_db)" where
  "create_user eng username email role_ids db =
     (if \<exists>r \<in> set (db_users db). us_name r = username then Inl AlreadyExists
      else
        let given = (case email of None \<Rightarrow> False | Some e \<Rightarrow> strip e \<noteq> [])
        in if given \<and> (\<exists>r \<in> set (db_users db). us_email r = email) then Inl AlreadyExists
           else
             let uid = eng_alloc eng (map us_id (db_users db));
                 row = \<lparr>us_id = uid, us_name = username, us_email = (if given then email else None), us_status = 1\<rparr>;
                 db1 = db\<lparr>db_users := db_users db @ [row]\<rparr>
             in Inr (uid, if role_ids \<noteq> [] then repo_assign_roles uid role_ids db1 else db1))"

record user_changes =
  uch_name :: "string option option"
  uch_email :: "string option option"
  uch_status :: "int option"

text \<open>An absent name and a name that is blank or unchanged leave the name as it is.\<close>

definition update_user :: "int \<Rightarrow> user_changes \<Rightarrow> rbac_db \<Rightarrow> rbac_error + rbac_db" where
  "update_user u ch db =
     (case find_user db u of
        None \<Rightarrow> Inl NotFound
      | Some user \<Rightarrow>
          let wanted = (case uch_name ch of None \<Rightarrow> [] | Some None \<Rightarrow> [] | Some (Some s) \<Rightarrow> strip s);
              rename = (wanted \<noteq> [] \<and> wanted \<noteq> us_name user)
          in if rename \<and> (\<exists>r \<in> set (db_users db). us_name r = wanted) then Inl AlreadyExists
             else if (\<exists>e. uch_email ch = Some e \<and> e \<noteq> us_email user \<and> (\<exists>r \<in> set (db_users db). us_email r = e))
             then Inl AlreadyExists
             else Inr (db\<lparr>db_users := map (\<lambda>r. if us_id r = u then
                 r\<lparr>us_name := (if rename then wanted else us_name r),
                   us_email := (case uch_email ch of None \<Rightarrow> us_email r | Some e \<Rightarrow> e),
                   us_status := (case uch_status ch of None \<Rightarrow> us_status r | Some n \<Rightarrow> n)\<rparr> else r) (db_users db)\<rparr>))"

text \<open>An account that holds the administrator role goes only if another enabled account holds it too.\<close>

definition holds_superadmin :: "rbac_db \<Rightarrow> int \<Rightarrow> bool" where
  "holds_superadmin db u = (\<exists>r \<in> set (repo_user_roles db u). rl_code r = superadmin \<and> rl_status r = 1)"

definition last_superadmin :: "int \<Rightarrow> rbac_db \<Rightarrow> bool" where
  "last_superadmin u db =
     (holds_superadmin db u \<and>
      \<not> (\<exists>r \<in> set (db_users db). us_status r = 1 \<and> us_id r \<noteq> u \<and> holds_superadmin db (us_id r)))"

definition delete_user :: "db_engine \<Rightarrow> int \<Rightarrow> int option \<Rightarrow> rbac_db \<Rightarrow> rbac_error + rbac_db" where
  "delete_user eng u current db =
     (case find_user db u of
        None \<Rightarrow> Inl NotFound
      | Some _ \<Rightarrow>
          if current = Some u then Inl Refused
          else if last_superadmin u db then Inl Refused
          else Inr (repo_delete_user eng u (purge_user u db)))"

definition assign_roles_to_user :: "int \<Rightarrow> int list \<Rightarrow> rbac_db \<Rightarrow> rbac_error + rbac_db" where
  "assign_roles_to_user u ids db =
     (case find_user db u of None \<Rightarrow> Inl NotFound | Some _ \<Rightarrow> Inr (repo_assign_roles u ids db))"

definition create_role :: "db_engine \<Rightarrow> string \<Rightarrow> string \<Rightarrow> int list \<Rightarrow> rbac_db \<Rightarrow> rbac_error + (int \<times> rbac_db)" where
  "create_role eng name code perm_ids db =
     (if \<exists>r \<in> set (db_roles db). rl_code r = code then Inl AlreadyExists
      else if \<exists>r \<in> set (db_roles db). rl_name r = name then Inl AlreadyExists
      else
        let rid = eng_alloc eng (map rl_id (db_roles db));
            row = \<lparr>rl_id = rid, rl_name = name, rl_code = code, rl_status = 1\<rparr>;
            db1 = db\<lparr>db_roles := db_roles db @ [row]\<rparr>
        in Inr (rid, if perm_ids \<noteq> [] then repo_assign_permissions rid perm_ids db1 else db1))"

text \<open>Role names are unique in the table, so a rename onto another role fails in the database.\<close>

definition update_role :: "int \<Rightarrow> string option \<Rightarrow> int option \<Rightarrow> rbac_db \<Rightarrow> rbac_error + rbac_db" where
  "update_role r name status db =
     (case find_role db r of
        None \<Rightarrow> Inl NotFound
      | Some role \<Rightarrow>
          if rl_code role = superadmin \<and> status \<noteq> None \<and> status \<noteq> Some 1 then Inl Refused
          else if (\<exists>n. name = Some n \<and> (\<exists>x \<in> set (db_roles db). rl_id x \<noteq> r \<and> rl_name x = n)) then Inl Integrity
          else Inr (db\<lparr>db_roles := map (\<lambda>x. if rl_id x = r then
              x\<lparr>rl_name := (case name of None \<Rightarrow> rl_name x | Some n \<Rightarrow> n),
                rl_status := (case status of None \<Rightarrow> rl_status x | Some n \<Rightarrow> n)\<rparr> else x) (db_roles db)\<rparr>))"

definition delete_role :: "db_engine \<Rightarrow> int \<Rightarrow> rbac_db \<Rightarrow> rbac_error + rbac_db" where
  "delete_role eng r db =
     (case find_role db r of
        None \<Rightarrow> Inl NotFound
      | Some role \<Rightarrow>
          if rl_code role = superadmin then Inl Refused
          else Inr (repo_delete_role eng r (purge_role r db)))"

definition assign_permissions_to_role :: "int \<Rightarrow> int list \<Rightarrow> rbac_db \<Rightarrow> rbac_error + rbac_db" where
  "assign_permissions_to_role r ids db =
     (case find_role db r of None \<Rightarrow> Inl NotFound | Some _ \<Rightarrow> Inr (repo_assign_permissions r ids db))"

definition create_permission :: "db_engine \<Rightarrow> string \<Rightarrow> rbac_db \<Rightarrow> rbac_error + rbac_db" where
  "create_permission eng code db =
     (if \<exists>p \<in> set (db_perms db). pm_code p = code then Inl AlreadyExists
      else Inr (db\<lparr>db_perms := db_perms db @
        [\<lparr>pm_id = eng_alloc eng (map pm_id (db_perms db)), pm_code = code, pm_status = 1\<rparr>]\<rparr>))"

definition update_permission :: "int \<Rightarrow> int option \<Rightarrow> rbac_db \<Rightarrow> rbac_error + rbac_db" where
  "update_permission p status db =
     (case find_perm db p of
        None \<Rightarrow> Inl NotFound
      | Some _ \<Rightarrow> Inr (db\<lparr>db_perms := map (\<lambda>x. if pm_id x = p then
            x\<lparr>pm_status := (case status of None \<Rightarrow> pm_status x | Some n \<Rightarrow> n)\<rparr> else x) (db_perms db)\<rparr>))"

definition delete_permission :: "db_engine \<Rightarrow> int \<Rightarrow> rbac_db \<Rightarrow> rbac_error + rbac_db" where
  "delete_permission eng p db =
     (case find_perm db p of
        None \<Rightarrow> Inl NotFound
      | Some _ \<Rightarrow> Inr (db\<lparr>db_perms := filter (\<lambda>x. pm_id x \<noteq> p) (db_perms db),
            db_role_perms := (if eng_cascade eng then filter (\<lambda>(_, x). x \<noteq> p) (db_role_perms db) else db_role_perms db)\<rparr>))"

section \<open>Permission snapshots\<close>

definition user_permissions :: "rbac_db \<Rightarrow> int \<Rightarrow> string set" where
  "user_permissions db u =
     (case find_user db u of
        None \<Rightarrow> {}
      | Some _ \<Rightarrow> set (concat (map (\<lambda>r. map pm_code (filter (\<lambda>p. pm_status p = 1) (repo_role_permissions db (rl_id r))))
          (filter (\<lambda>r. rl_status r = 1) (repo_user_roles db u)))))"

definition user_role_codes :: "rbac_db \<Rightarrow> int \<Rightarrow> string set" where
  "user_role_codes db u =
     (case find_user db u of
        None \<Rightarrow> {}
      | Some _ \<Rightarrow> set (filter (\<lambda>c. c \<noteq> []) (map rl_code (filter (\<lambda>r. rl_status r = 1) (repo_user_roles db u)))))"

text \<open>One cache holds the snapshots and the site grants, under different keys.\<close>

datatype auth_value = Snapshot "string set" "string set" | Grants "(string, string set) dict"

record rbac_state =
  rb_db :: rbac_db
  rb_cache :: "auth_value mem_cache"

definition snapshot_key :: "int \<Rightarrow> string" where
  "snapshot_key u = ''rbac_snapshot:'' @ int_str u"

definition grants_key :: "int \<Rightarrow> string" where
  "grants_key u = ''site_grants:'' @ int_str u"

text \<open>\<open>RBACSnapshotCache.set\<close> writes with a time to live of 60 seconds. Where the result is \<open>None\<close> the write does not
  return, or the value found is of the other kind and its use raises.\<close>

definition snapshot_ttl :: "int option" where
  "snapshot_ttl = Some 60"

definition get_user_snapshot :: "time \<Rightarrow> int \<Rightarrow> rbac_state \<Rightarrow> (auth_value \<times> rbac_state) option" where
  "get_user_snapshot now u s =
     (case mem_get now (snapshot_key u) (rb_cache s) of
        (Some v, c) \<Rightarrow> Some (v, s\<lparr>rb_cache := c\<rparr>)
      | (None, c) \<Rightarrow>
          let v = Snapshot (user_permissions (rb_db s) u) (user_role_codes (rb_db s) u)
          in map_option (\<lambda>c'. (v, s\<lparr>rb_cache := c'\<rparr>)) (mem_put snapshot_ttl now (snapshot_key u) v c))"

definition with_permissions ::
  "(string set \<Rightarrow> bool) \<Rightarrow> time \<Rightarrow> int \<Rightarrow> rbac_state \<Rightarrow> (bool \<times> rbac_state) option" where
  "with_permissions test now u s =
     (case find_user (rb_db s) u of
        None \<Rightarrow> Some (False, s)
      | Some _ \<Rightarrow>
          (case get_user_snapshot now u s of
             Some (Snapshot perms _, s') \<Rightarrow> Some (test perms, s')
           | _ \<Rightarrow> None))"

definition check_permission :: "time \<Rightarrow> int \<Rightarrow> string \<Rightarrow> rbac_state \<Rightarrow> (bool \<times> rbac_state) option" where
  "check_permission now u code s = with_permissions (\<lambda>perms. code \<in> perms) now u s"

definition check_any_permission :: "time \<Rightarrow> int \<Rightarrow> string list \<Rightarrow> rbac_state \<Rightarrow> (bool \<times> rbac_state) option" where
  "check_any_permission now u codes s = with_permissions (\<lambda>perms. \<exists>c \<in> set codes. c \<in> perms) now u s"

definition check_all_permissions :: "time \<Rightarrow> int \<Rightarrow> string list \<Rightarrow> rbac_state \<Rightarrow> (bool \<times> rbac_state) option" where
  "check_all_permissions now u codes s = with_permissions (\<lambda>perms. \<forall>c \<in> set codes. c \<in> perms) now u s"

definition invalidate_user :: "int \<Rightarrow> rbac_state \<Rightarrow> rbac_state" where
  "invalidate_user u s = s\<lparr>rb_cache := snd (mem_delete (snapshot_key u) (rb_cache s))\<rparr>"

definition invalidate_all :: "rbac_state \<Rightarrow> rbac_state" where
  "invalidate_all s = s\<lparr>rb_cache := snd (mem_clear (rb_cache s))\<rparr>"

section \<open>Site grants\<close>

text \<open>The PERMISSIONS column, as the list it holds; anything but a list counts as the empty one.\<close>

definition normalize_permissions :: "string list option \<Rightarrow> string list" where
  "normalize_permissions raw =
     (let perms = filter (\<lambda>p. p \<in> set (case raw of None \<Rightarrow> [] | Some ps \<Rightarrow> ps)) [''rss'', ''search'']
      in if perms \<noteq> [] then perms else [''search''])"

text \<open>The rows a list of grants becomes: names are stripped and grants without a name are skipped. The index on
  owner and site name refuses a name that occurs twice.\<close>

definition grant_rows :: "int \<Rightarrow> (string \<times> string list option) list \<Rightarrow> (int \<times> string \<times> string list) list" where
  "grant_rows owner grants =
     map (\<lambda>(n, ps). (owner, strip n, normalize_permissions ps)) (filter (\<lambda>(n, _). strip n \<noteq> []) grants)"

definition repo_set_grants ::
  "int \<Rightarrow> (string \<times> string list option) list \<Rightarrow> (int \<times> string \<times> string list) list \<Rightarrow>
   rbac_error + (int \<times> string \<times> string list) list" where
  "repo_set_grants owner grants rows =
     (let added = grant_rows owner grants
      in if distinct (map (\<lambda>(_, n, _). n) added) then Inr (filter (\<lambda>(x, _). x \<noteq> owner) rows @ added) else Inl Integrity)"

definition add_grant :: "int \<times> string \<times> string list \<Rightarrow> (string, string set) dict \<Rightarrow> (string, string set) dict" where
  "add_grant row d = (case row of (_, n, ps) \<Rightarrow> dput n (get_or d n {} \<union> set (normalize_permissions (Some ps))) d)"

definition effective_grants :: "rbac_db \<Rightarrow> int \<Rightarrow> int list \<Rightarrow> (string, string set) dict" where
  "effective_grants db u role_ids =
     fold add_grant (filter (\<lambda>(x, _). x \<in> set role_ids) (db_role_sites db) @ filter (\<lambda>(x, _). x = u) (db_user_sites db)) []"

definition is_open_policy :: "string option \<Rightarrow> bool" where
  "is_open_policy policy = (lower (case policy of None \<Rightarrow> ''open'' | Some p \<Rightarrow> if p = [] then ''open'' else p) \<noteq> ''closed'')"

text \<open>\<open>Some None\<close>: every site is visible.\<close>

definition visible_for_user ::
  "time \<Rightarrow> string option \<Rightarrow> int \<Rightarrow> rbac_state \<Rightarrow> ((string, string set) dict option \<times> rbac_state) option" where
  "visible_for_user now policy u s =
     (if is_open_policy policy then Some (None, s)
      else case mem_get now (grants_key u) (rb_cache s) of
        (Some (Grants g), c) \<Rightarrow> Some (Some g, s\<lparr>rb_cache := c\<rparr>)
      | (Some _, c) \<Rightarrow> None
      | (None, c) \<Rightarrow>
          let g = effective_grants (rb_db s) u (map rl_id (repo_user_roles (rb_db s) u))
          in map_option (\<lambda>c'. (Some g, s\<lparr>rb_cache := c'\<rparr>)) (mem_put snapshot_ttl now (grants_key u) (Grants g) c))"

record user_context =
  uc_user :: int
  uc_role_codes :: "string list"

definition get_visible_sites ::
  "time \<Rightarrow> string option \<Rightarrow> user_context \<Rightarrow> rbac_state \<Rightarrow> ((string, string set) dict option \<times> rbac_state) option" where
  "get_visible_sites now policy user s =
     (if superadmin \<in> set (uc_role_codes user) then Some (None, s) else visible_for_user now policy (uc_user user) s)"

definition get_visible_sites_by_id ::
  "time \<Rightarrow> string option \<Rightarrow> int option \<Rightarrow> rbac_state \<Rightarrow> ((string, string set) dict option \<times> rbac_state) option" where
  "get_visible_sites_by_id now policy user s =
     (case user of
        None \<Rightarrow> Some (None, s)
      | Some u \<Rightarrow>
          if u = 0 then Some (None, s)
          else if superadmin \<in> user_role_codes (rb_db s) u then Some (None, s)
          else visible_for_user now policy u s)"

definition is_site_allowed :: "(string, string set) dict \<Rightarrow> string \<Rightarrow> string \<Rightarrow> string \<Rightarrow> bool" where
  "is_site_allowed visible site source usage =
     (\<exists>k \<in> set [source @ '':'' @ site, source @ '':*'', site]. case dget visible k of None \<Rightarrow> False | Some perms \<Rightarrow> usage \<in> perms)"

definition is_site_name_allowed :: "(string, string set) dict \<Rightarrow> string \<Rightarrow> string \<Rightarrow> bool" where
  "is_site_name_allowed visible site usage =
     (\<exists>(k, perms) \<in> set visible. usage \<in> perms \<and> (k = site \<or> endswith k ('':'' @ site) \<or> endswith k '':*''))"

definition can_access_site ::
  "time \<Rightarrow> string option \<Rightarrow> user_context \<Rightarrow> string \<Rightarrow> string \<Rightarrow> string \<Rightarrow> rbac_state \<Rightarrow> (bool \<times> rbac_state) option" where
  "can_access_site now policy user site source usage s =
     map_option (\<lambda>(visible, s'). (case visible of None \<Rightarrow> True | Some g \<Rightarrow> is_site_allowed g site source usage, s'))
       (get_visible_sites now policy user s)"

definition set_role_grants :: "int \<Rightarrow> (string \<times> string list option) list \<Rightarrow> rbac_state \<Rightarrow> rbac_error + rbac_state" where
  "set_role_grants r grants s =
     map_sum id (\<lambda>rows. invalidate_all (s\<lparr>rb_db := (rb_db s)\<lparr>db_role_sites := rows\<rparr>\<rparr>))
       (repo_set_grants r grants (db_role_sites (rb_db s)))"

definition drop_grants :: "int \<Rightarrow> rbac_state \<Rightarrow> rbac_state" where
  "drop_grants u s = s\<lparr>rb_cache := snd (mem_delete (grants_key u) (rb_cache s))\<rparr>"

definition set_user_grants :: "int \<Rightarrow> (string \<times> string list option) list \<Rightarrow> rbac_state \<Rightarrow> rbac_error + rbac_state" where
  "set_user_grants u grants s =
     map_sum id (\<lambda>rows. drop_grants u (s\<lparr>rb_db := (rb_db s)\<lparr>db_user_sites := rows\<rparr>\<rparr>))
       (repo_set_grants u grants (db_user_sites (rb_db s)))"

definition invalidate_grants :: "int option \<Rightarrow> rbac_state \<Rightarrow> rbac_state" where
  "invalidate_grants user s = (case user of None \<Rightarrow> invalidate_all s | Some u \<Rightarrow> drop_grants u s)"

section \<open>The facade\<close>

text \<open>An operation, and what it does: an error leaves the state as it was, and the methods that change roles or
  assignments invalidate snapshots. The methods on permissions do not.\<close>

datatype auth_op =
    CreateUser string "string option" "int list"
  | UpdateUser int user_changes
  | DeleteUser int "int option"
  | AssignRoles int "int list"
  | CreateRole string string "int list"
  | UpdateRole int "string option" "int option"
  | DeleteRole int
  | AssignPermissions int "int list"
  | CreatePermission string
  | UpdatePermission int "int option"
  | DeletePermission int
  | SetRoleGrants int "(string \<times> string list option) list"
  | SetUserGrants int "(string \<times> string list option) list"
  | InvalidateGrants "int option"
  | CheckPermission int string
  | AccessSite "string option" user_context string string string

definition on_db :: "(rbac_state \<Rightarrow> rbac_state) \<Rightarrow> rbac_error + rbac_db \<Rightarrow> rbac_state \<Rightarrow> rbac_state" where
  "on_db invalidate r s = (case r of Inl _ \<Rightarrow> s | Inr db \<Rightarrow> invalidate (s\<lparr>rb_db := db\<rparr>))"

fun auth_step :: "db_engine \<Rightarrow> time \<Rightarrow> auth_op \<Rightarrow> rbac_state \<Rightarrow> rbac_state option" where
  "auth_step eng now (CreateUser n e ids) s = Some (on_db id (map_sum id snd (create_user eng n e ids (rb_db s))) s)"
| "auth_step eng now (UpdateUser u ch) s = Some (on_db (invalidate_user u) (update_user u ch (rb_db s)) s)"
| "auth_step eng now (DeleteUser u cur) s = Some (on_db (invalidate_user u) (delete_user eng u cur (rb_db s)) s)"
| "auth_step eng now (AssignRoles u ids) s = Some (on_db (invalidate_user u) (assign_roles_to_user u ids (rb_db s)) s)"
| "auth_step eng now (CreateRole n c ids) s = Some (on_db invalidate_all (map_sum id snd (create_role eng n c ids (rb_db s))) s)"
| "auth_step eng now (UpdateRole r n st) s = Some (on_db invalidate_all (update_role r n st (rb_db s)) s)"
| "auth_step eng now (DeleteRole r) s = Some (on_db invalidate_all (delete_role eng r (rb_db s)) s)"
| "auth_step eng now (AssignPermissions r ids) s = Some (on_db invalidate_all (assign_permissions_to_role r ids (rb_db s)) s)"
| "auth_step eng now (CreatePermission c) s = Some (on_db id (create_permission eng c (rb_db s)) s)"
| "auth_step eng now (UpdatePermission p st) s = Some (on_db id (update_permission p st (rb_db s)) s)"
| "auth_step eng now (DeletePermission p) s = Some (on_db id (delete_permission eng p (rb_db s)) s)"
| "auth_step eng now (SetRoleGrants r g) s = Some (case set_role_grants r g s of Inl _ \<Rightarrow> s | Inr s' \<Rightarrow> s')"
| "auth_step eng now (SetUserGrants u g) s = Some (case set_user_grants u g s of Inl _ \<Rightarrow> s | Inr s' \<Rightarrow> s')"
| "auth_step eng now (InvalidateGrants u) s = Some (invalidate_grants u s)"
| "auth_step eng now (CheckPermission u c) s = map_option snd (check_permission now u c s)"
| "auth_step eng now (AccessSite p u n so us) s = map_option snd (can_access_site now p u n so us s)"

fun auth_run :: "db_engine \<Rightarrow> (time \<times> auth_op) list \<Rightarrow> rbac_state \<Rightarrow> rbac_state option" where
  "auth_run eng [] s = Some s"
| "auth_run eng ((now, op) # ops) s = Option.bind (auth_step eng now op s) (auth_run eng ops)"

text \<open>The operations that change permissions without invalidating.\<close>

fun changes_permissions :: "auth_op \<Rightarrow> bool" where
  "changes_permissions (CreatePermission c) = True"
| "changes_permissions (UpdatePermission p st) = True"
| "changes_permissions (DeletePermission p) = True"
| "changes_permissions _ = False"

section \<open>What a snapshot depends on\<close>

definition snapshot_of :: "rbac_db \<Rightarrow> int \<Rightarrow> auth_value" where
  "snapshot_of db u = Snapshot (user_permissions db u) (user_role_codes db u)"

lemma key_simps [simp]:
  "snapshot_key u = snapshot_key v \<longleftrightarrow> u = v" "grants_key u = grants_key v \<longleftrightarrow> u = v"
  "snapshot_key u \<noteq> grants_key v" "grants_key v \<noteq> snapshot_key u"
  by (auto simp: snapshot_key_def grants_key_def)

lemma user_roles_cong:
  assumes "db_roles db' = db_roles db" "find_user db' u = None \<longleftrightarrow> find_user db u = None"
    "\<And>r. (u, r) \<in> set (db_user_roles db') \<longleftrightarrow> (u, r) \<in> set (db_user_roles db)"
  shows "repo_user_roles db' u = repo_user_roles db u"
  using assms by (cases "find_user db u"; cases "find_user db' u") (simp_all add: repo_user_roles_def)

lemma snapshot_cong:
  assumes "db_roles db' = db_roles db" "db_perms db' = db_perms db" "db_role_perms db' = db_role_perms db"
    "find_user db' u = None \<longleftrightarrow> find_user db u = None"
    "\<And>r. (u, r) \<in> set (db_user_roles db') \<longleftrightarrow> (u, r) \<in> set (db_user_roles db)"
  shows "snapshot_of db' u = snapshot_of db u"
proof -
  have "repo_role_permissions db' r = repo_role_permissions db r" for r
    using assms(1-3) by (simp add: repo_role_permissions_def find_role_def split: option.split)
  with user_roles_cong [OF assms(1,4,5)] assms(4) show ?thesis
    by (cases "find_user db u"; cases "find_user db' u") (simp_all add: snapshot_of_def user_permissions_def user_role_codes_def)
qed

lemma find_user_None: "find_user db u = None \<longleftrightarrow> u \<notin> us_id ` set (db_users db)"
  by (auto simp: find_user_def find_None_iff)

text \<open>An entry of the cache is right: a snapshot is that of an account that exists, and under the key of the grants
  there are grants.\<close>

definition auth_truth :: "rbac_db \<Rightarrow> string \<Rightarrow> auth_value \<Rightarrow> bool" where
  "auth_truth db k v \<longleftrightarrow>
     (\<forall>u. k = snapshot_key u \<longrightarrow> v = snapshot_of db u \<and> find_user db u \<noteq> None) \<and>
     (\<forall>u. k = grants_key u \<longrightarrow> (\<exists>g. v = Grants g))"

definition auth_inv :: "rbac_state \<Rightarrow> bool" where
  "auth_inv s \<longleftrightarrow> mem_inv (rb_cache s) \<and> mem.agrees (auth_truth (rb_db s)) (rb_cache s)"

lemma truth_mono:
  assumes "\<And>u. k = snapshot_key u \<Longrightarrow> find_user db' u \<noteq> None \<Longrightarrow>
      snapshot_of db u = snapshot_of db' u \<and> find_user db u \<noteq> None"
    and "auth_truth db' k w"
  shows "auth_truth db k w"
  unfolding auth_truth_def
proof (intro conjI allI impI)
  fix u assume k: "k = snapshot_key u"
  with assms(2) have "w = snapshot_of db' u" "find_user db' u \<noteq> None" unfolding auth_truth_def by blast+
  with assms(1) [OF k] show "w = snapshot_of db u" "find_user db u \<noteq> None" by simp_all
next
  fix u assume "k = grants_key u"
  with assms(2) show "\<exists>g. w = Grants g" unfolding auth_truth_def by blast
qed

lemma truth_snapshot: "auth_truth db (snapshot_key u) v \<longleftrightarrow> v = snapshot_of db u \<and> find_user db u \<noteq> None"
  by (auto simp: auth_truth_def)

lemma truth_grants: "auth_truth db (grants_key u) v \<longleftrightarrow> (\<exists>g. v = Grants g)"
  by (auto simp: auth_truth_def)

text \<open>The reads are the read-through of the cache contract.\<close>

lemma get_user_snapshot_read:
  "get_user_snapshot now u s =
     map_option (\<lambda>(v, c). (v, s\<lparr>rb_cache := c\<rparr>))
       (mem.read_through snapshot_ttl now (snapshot_key u) (snapshot_of (rb_db s) u) (rb_cache s))"
  by (simp add: get_user_snapshot_def mem.read_through_def snapshot_of_def Let_def option.map_comp comp_def
      split: prod.splits option.splits)

lemma get_user_snapshot_current:
  assumes "auth_inv s" "find_user (rb_db s) u \<noteq> None"
  shows "\<exists>s'. get_user_snapshot now u s = Some (snapshot_of (rb_db s) u, s') \<and> rb_db s' = rb_db s \<and> auth_inv s'"
proof -
  have inv: "mem_inv (rb_cache s)" "mem.agrees (auth_truth (rb_db s)) (rb_cache s)"
    using assms(1) by (simp_all add: auth_inv_def)
  obtain v c where r: "mem.read_through snapshot_ttl now (snapshot_key u) (snapshot_of (rb_db s) u) (rb_cache s) = Some (v, c)"
    using mem.read_through_returns [OF inv(1)] by fastforce
  have "auth_truth (rb_db s) (snapshot_key u) (snapshot_of (rb_db s) u)" using assms(2) by (simp add: truth_snapshot)
  from mem.read_through_correct [OF inv this r] have "v = snapshot_of (rb_db s) u" "auth_inv (s\<lparr>rb_cache := c\<rparr>)"
    by (simp_all add: truth_snapshot auth_inv_def)
  with r show ?thesis by (simp add: get_user_snapshot_read)
qed

lemma check_permission_current:
  assumes "auth_inv s"
  shows "\<exists>s'. check_permission now u code s = Some (code \<in> user_permissions (rb_db s) u, s') \<and> rb_db s' = rb_db s \<and> auth_inv s'"
proof (cases "find_user (rb_db s) u")
  case None
  with assms show ?thesis by (simp add: check_permission_def with_permissions_def user_permissions_def)
next
  case (Some x)
  then obtain s' where "get_user_snapshot now u s = Some (snapshot_of (rb_db s) u, s')" "rb_db s' = rb_db s" "auth_inv s'"
    using get_user_snapshot_current [OF assms, of u now] by auto
  with Some show ?thesis by (simp add: check_permission_def with_permissions_def snapshot_of_def)
qed

lemma visible_for_user_inv:
  assumes "auth_inv s"
  shows "\<exists>r s'. visible_for_user now policy u s = Some (r, s') \<and> rb_db s' = rb_db s \<and> auth_inv s'"
proof (cases "is_open_policy policy")
  case True
  with assms show ?thesis by (simp add: visible_for_user_def)
next
  case False
  define g where "g = effective_grants (rb_db s) u (map rl_id (repo_user_roles (rb_db s) u))"
  have inv: "mem_inv (rb_cache s)" "mem.agrees (auth_truth (rb_db s)) (rb_cache s)"
    using assms by (simp_all add: auth_inv_def)
  obtain v c where r: "mem.read_through snapshot_ttl now (grants_key u) (Grants g) (rb_cache s) = Some (v, c)"
    using mem.read_through_returns [OF inv(1)] by fastforce
  have "auth_truth (rb_db s) (grants_key u) (Grants g)" by (simp add: truth_grants)
  from mem.read_through_correct [OF inv this r] obtain h where "v = Grants h" "auth_inv (s\<lparr>rb_cache := c\<rparr>)"
    by (auto simp: truth_grants auth_inv_def)
  with r False show ?thesis
    by (auto simp: visible_for_user_def g_def [symmetric] mem.read_through_def Let_def split: prod.splits option.splits auth_value.splits)
qed

section \<open>Invalidation keeps the cache right\<close>

lemma inv_clear: "auth_inv s \<Longrightarrow> auth_inv (invalidate_all (s\<lparr>rb_db := db\<rparr>))"
  using mem.agrees_clear [of "auth_truth db" "rb_cache s"]
  by (simp add: auth_inv_def invalidate_all_def mem_clear_inv)

lemma inv_drop_grants:
  assumes "auth_inv s" "\<And>u. snapshot_of db u = snapshot_of (rb_db s) u" "\<And>u. find_user db u = find_user (rb_db s) u"
  shows "auth_inv (drop_grants v (s\<lparr>rb_db := db\<rparr>))"
proof -
  have t: "auth_truth db = auth_truth (rb_db s)" by (simp add: fun_eq_iff auth_truth_def assms(2,3))
  have "mem.agrees (auth_truth (rb_db s)) (snd (mem_delete (grants_key v) (rb_cache s)))"
    using mem.agrees_delete [of "auth_truth (rb_db s)" "rb_cache s" "grants_key v" "auth_truth (rb_db s)"] assms(1)
    by (simp add: auth_inv_def)
  with assms(1) t show ?thesis by (simp add: auth_inv_def drop_grants_def mem_delete_inv)
qed

text \<open>After a change that touches no account but one, it is enough to invalidate that one.\<close>

lemma inv_user:
  assumes "auth_inv s" "db_roles db = db_roles (rb_db s)" "db_perms db = db_perms (rb_db s)" "db_role_perms db = db_role_perms (rb_db s)"
    "\<And>u. u \<noteq> v \<Longrightarrow> find_user db u = None \<longleftrightarrow> find_user (rb_db s) u = None"
    "\<And>u r. u \<noteq> v \<Longrightarrow> (u, r) \<in> set (db_user_roles db) \<longleftrightarrow> (u, r) \<in> set (db_user_roles (rb_db s))"
  shows "auth_inv (invalidate_user v (s\<lparr>rb_db := db\<rparr>))"
proof -
  have "snapshot_of db u = snapshot_of (rb_db s) u" if "u \<noteq> v" for u
    by (rule snapshot_cong [OF assms(2-4) assms(5) [OF that] assms(6) [OF that]])
  then have "auth_truth db k w" if "k \<noteq> snapshot_key v" "auth_truth (rb_db s) k w" for k w
    using that(1) assms(5) by (intro truth_mono [OF _ that(2)]) simp
  then have "mem.agrees (auth_truth db) (snd (mem_delete (snapshot_key v) (rb_cache s)))"
    using mem.agrees_delete [of "auth_truth (rb_db s)" "rb_cache s" "snapshot_key v" "auth_truth db"] assms(1)
    by (simp add: auth_inv_def)
  with assms(1) show ?thesis by (simp add: auth_inv_def invalidate_user_def mem_delete_inv)
qed

text \<open>A new account has no entry yet, because its key is new.\<close>

lemma inv_new_user:
  assumes "auth_inv s" "db_roles db = db_roles (rb_db s)" "db_perms db = db_perms (rb_db s)" "db_role_perms db = db_role_perms (rb_db s)"
    "find_user (rb_db s) v = None"
    "\<And>u. u \<noteq> v \<Longrightarrow> find_user db u = None \<longleftrightarrow> find_user (rb_db s) u = None"
    "\<And>u r. u \<noteq> v \<Longrightarrow> (u, r) \<in> set (db_user_roles db) \<longleftrightarrow> (u, r) \<in> set (db_user_roles (rb_db s))"
  shows "auth_inv (s\<lparr>rb_db := db\<rparr>)"
proof -
  have "snapshot_of db u = snapshot_of (rb_db s) u" if "u \<noteq> v" for u
    by (rule snapshot_cong [OF assms(2-4) assms(6) [OF that] assms(7) [OF that]])
  then have "auth_truth db k w" if "auth_truth (rb_db s) k w" for k w
    using assms(5,6) by (intro truth_mono [OF _ that]) (metis (full_types))
  then show ?thesis using assms(1) by (auto simp: auth_inv_def mem.agrees_def)
qed

lemma inv_same: "auth_inv s \<Longrightarrow> auth_inv (s\<lparr>rb_db := rb_db s\<rparr>)"
  by simp

lemma on_db_inv: "auth_inv s \<Longrightarrow> (\<And>db. r = Inr db \<Longrightarrow> auth_inv (f (s\<lparr>rb_db := db\<rparr>))) \<Longrightarrow> auth_inv (on_db f r s)"
  by (simp add: on_db_def split: sum.splits)

lemma assign_roles_other:
  "u \<noteq> v \<Longrightarrow> (u, r) \<in> set (db_user_roles (repo_assign_roles v ids db)) \<longleftrightarrow> (u, r) \<in> set (db_user_roles db)"
  by (auto simp: repo_assign_roles_def)

lemma assign_roles_simps [simp]:
  "db_users (repo_assign_roles v ids db) = db_users db" "db_roles (repo_assign_roles v ids db) = db_roles db"
  "db_perms (repo_assign_roles v ids db) = db_perms db" "db_role_perms (repo_assign_roles v ids db) = db_role_perms db"
  "find_user (repo_assign_roles v ids db) = find_user db"
  by (simp_all add: repo_assign_roles_def find_user_def fun_eq_iff)

lemma update_user_known:
  assumes "update_user v ch db = Inr db'"
  shows "db_roles db' = db_roles db \<and> db_perms db' = db_perms db \<and> db_role_perms db' = db_role_perms db \<and>
    db_user_roles db' = db_user_roles db \<and> us_id ` set (db_users db') = us_id ` set (db_users db)"
proof -
  obtain f where f: "db' = db\<lparr>db_users := map f (db_users db)\<rparr>" "us_id (f r) = us_id r" for r
    using assms by (auto simp: update_user_def Let_def split: option.splits if_splits)
  then show ?thesis by (simp add: image_image)
qed

lemma delete_user_known:
  assumes "delete_user eng v cur db = Inr db'"
  shows "db_roles db' = db_roles db \<and> db_perms db' = db_perms db \<and> db_role_perms db' = db_role_perms db \<and>
    (\<forall>u r. u \<noteq> v \<longrightarrow> ((u, r) \<in> set (db_user_roles db') \<longleftrightarrow> (u, r) \<in> set (db_user_roles db))) \<and>
    us_id ` set (db_users db') = us_id ` set (db_users db) - {v}"
  using assms by (auto simp: delete_user_def repo_delete_user_def purge_user_def split: option.splits if_splits)

lemma create_user_known:
  assumes "create_user eng n e ids db = Inr (v, db')" and "\<And>ids. eng_alloc eng ids \<notin> set ids"
  shows "db_roles db' = db_roles db" "db_perms db' = db_perms db" "db_role_perms db' = db_role_perms db"
    "find_user db v = None" "us_id ` set (db_users db') = insert v (us_id ` set (db_users db))"
    "u \<noteq> v \<Longrightarrow> (u, r) \<in> set (db_user_roles db') \<longleftrightarrow> (u, r) \<in> set (db_user_roles db)"
  using assms(1) assms(2) [of "map us_id (db_users db)"]
  by (auto simp: create_user_def Let_def find_user_None assign_roles_other split: option.splits if_splits)

lemma grants_step_inv:
  assumes "auth_inv s"
  shows "set_role_grants r g s = Inr s' \<Longrightarrow> auth_inv s'" and "set_user_grants u g s = Inr s' \<Longrightarrow> auth_inv s'"
proof -
  show "auth_inv s'" if "set_role_grants r g s = Inr s'"
    using that inv_clear [OF assms] by (cases "repo_set_grants r g (db_role_sites (rb_db s))") (auto simp: set_role_grants_def)
  show "auth_inv s'" if set: "set_user_grants u g s = Inr s'"
  proof -
    obtain rows where s': "s' = drop_grants u (s\<lparr>rb_db := (rb_db s)\<lparr>db_user_sites := rows\<rparr>\<rparr>)"
      using set by (cases "repo_set_grants u g (db_user_sites (rb_db s))") (auto simp: set_user_grants_def)
    have "snapshot_of ((rb_db s)\<lparr>db_user_sites := rows\<rparr>) v = snapshot_of (rb_db s) v" for v
      by (rule snapshot_cong) (simp_all add: find_user_def)
    then show ?thesis unfolding s' by (intro inv_drop_grants [OF assms]) (simp_all add: find_user_def)
  qed
qed

lemma access_site_inv:
  assumes "auth_inv s"
  shows "\<exists>r s'. can_access_site now p user n so us s = Some (r, s') \<and> rb_db s' = rb_db s \<and> auth_inv s'"
  using visible_for_user_inv [OF assms, of now p "uc_user user"] assms
  by (cases "superadmin \<in> set (uc_role_codes user)") (auto simp: can_access_site_def get_visible_sites_def)

lemma auth_step_inv:
  assumes "auth_inv s" "\<not> changes_permissions op" "\<And>ids. eng_alloc eng ids \<notin> set ids"
  shows "\<exists>s'. auth_step eng now op s = Some s' \<and> auth_inv s'"
proof (cases op)
  case (CreateUser n e ids)
  have "auth_inv (id (s\<lparr>rb_db := db\<rparr>))" if r: "map_sum id snd (create_user eng n e ids (rb_db s)) = Inr db" for db
  proof -
    obtain v where v: "create_user eng n e ids (rb_db s) = Inr (v, db)"
      using r by (cases "create_user eng n e ids (rb_db s)") auto
    note known = create_user_known [OF v assms(3)]
    show ?thesis unfolding id_def
      by (rule inv_new_user [OF assms(1) known(1-4)]) (auto simp: find_user_None known(5) known(6))
  qed
  with CreateUser on_db_inv [OF assms(1)] show ?thesis by simp
next
  case (UpdateUser u ch)
  have "auth_inv (invalidate_user u (s\<lparr>rb_db := db\<rparr>))" if "update_user u ch (rb_db s) = Inr db" for db
    using update_user_known [OF that] by (intro inv_user [OF assms(1)]) (auto simp: find_user_None)
  with UpdateUser on_db_inv [OF assms(1)] show ?thesis by simp
next
  case (DeleteUser u cur)
  have "auth_inv (invalidate_user u (s\<lparr>rb_db := db\<rparr>))" if "delete_user eng u cur (rb_db s) = Inr db" for db
    using delete_user_known [OF that] by (intro inv_user [OF assms(1)]) (auto simp: find_user_None)
  with DeleteUser on_db_inv [OF assms(1)] show ?thesis by simp
next
  case (AssignRoles u ids)
  have "auth_inv (invalidate_user u (s\<lparr>rb_db := db\<rparr>))" if "assign_roles_to_user u ids (rb_db s) = Inr db" for db
    using that by (intro inv_user [OF assms(1)]) (auto simp: assign_roles_to_user_def assign_roles_other split: option.splits)
  with AssignRoles on_db_inv [OF assms(1)] show ?thesis by simp
next
  case (InvalidateGrants w)
  with inv_clear [OF assms(1), of "rb_db s"] inv_drop_grants [OF assms(1), of "rb_db s"] show ?thesis
    by (cases w) (simp_all add: invalidate_grants_def)
next
  case (CheckPermission u c)
  with check_permission_current [OF assms(1), of now u c] show ?thesis by auto
next
  case (AccessSite p user n so us)
  with access_site_inv [OF assms(1), of now p user n so us] show ?thesis by auto
qed (use assms(1,2) on_db_inv [OF assms(1)] inv_clear [OF assms(1)] grants_step_inv [OF assms(1)] in \<open>auto split: sum.splits\<close>)

lemma auth_run_inv:
  assumes "auth_inv s" "list_all (\<lambda>(_, op). \<not> changes_permissions op) ops" "\<And>ids. eng_alloc eng ids \<notin> set ids"
  shows "\<exists>s'. auth_run eng ops s = Some s' \<and> auth_inv s'"
  using assms(1,2)
proof (induction ops arbitrary: s)
  case Nil
  then show ?case by simp
next
  case (Cons x ops)
  obtain now op where x: "x = (now, op)" by fastforce
  with Cons.prems auth_step_inv [OF Cons.prems(1) _ assms(3), of op now] obtain s1 where
    s1: "auth_step eng now op s = Some s1" "auth_inv s1" by auto
  from Cons.IH [OF s1(2)] Cons.prems(2) s1 x show ?case by simp
qed

definition fresh_state :: "rbac_db \<Rightarrow> rbac_state" where
  "fresh_state db = \<lparr>rb_db = db, rb_cache = new_mem_cache 1024 ''rbac_auth_snapshot'' (Some 60)\<rparr>"

lemma fresh_inv: "auth_inv (fresh_state db)"
  by (simp add: auth_inv_def fresh_state_def mem_inv_new mem.agrees_def mem_holds_def)
    (simp add: new_mem_cache_def)

lemma fold_max_upper: "x \<in> set xs \<Longrightarrow> x \<le> fold max xs (a :: int)" "a \<le> fold max xs a"
  by (induction xs arbitrary: a) (auto intro: order_trans [OF max.cobounded1] order_trans [OF max.cobounded2])

lemma fold_max_least: "a \<le> b \<Longrightarrow> (\<And>x. x \<in> set xs \<Longrightarrow> x \<le> b) \<Longrightarrow> fold max xs (a :: int) \<le> b"
  by (induction xs arbitrary: a) auto

lemma normalize_normalized [simp]: "normalize_permissions (Some (normalize_permissions raw)) = normalize_permissions raw"
  by (cases raw) (auto simp: normalize_permissions_def Let_def)

lemma dget_add_grant:
  "(\<exists>p. dget (add_grant row d) k = Some p \<and> x \<in> p) \<longleftrightarrow>
     (\<exists>p. dget d k = Some p \<and> x \<in> p) \<or> (fst (snd row) = k \<and> x \<in> set (normalize_permissions (Some (snd (snd row)))))"
  by (cases row; cases "dget d k") (auto simp: add_grant_def get_or_def)

lemma dget_add_grants:
  "(\<exists>p. dget (fold add_grant rows d) k = Some p \<and> x \<in> p) \<longleftrightarrow>
     (\<exists>p. dget d k = Some p \<and> x \<in> p) \<or>
     (\<exists>(_, n, ps) \<in> set rows. n = k \<and> x \<in> set (normalize_permissions (Some ps)))"
proof (induction rows arbitrary: d)
  case Nil
  then show ?case by simp
next
  case (Cons row rows)
  show ?case by (simp add: Cons dget_add_grant split_def)
qed

lemma allowed_effective:
  "is_site_allowed (effective_grants db u ids) site source usage \<longleftrightarrow>
     (\<exists>(x, n, ps) \<in> set (filter (\<lambda>(x, _). x \<in> set ids) (db_role_sites db) @ filter (\<lambda>(x, _). x = u) (db_user_sites db)).
        n \<in> {source @ '':'' @ site, source @ '':*'', site} \<and> usage \<in> set (normalize_permissions (Some ps)))"
proof -
  define rows where "rows = filter (\<lambda>(x, _). x \<in> set ids) (db_role_sites db) @ filter (\<lambda>(x, _). x = u) (db_user_sites db)"
  have one: "(case dget (fold add_grant rows []) k of None \<Rightarrow> False | Some perms \<Rightarrow> usage \<in> perms) \<longleftrightarrow>
      (\<exists>(_, n, ps) \<in> set rows. n = k \<and> usage \<in> set (normalize_permissions (Some ps)))" for k
    using dget_add_grants [of rows "[]" k usage] by (auto split: option.split)
  show ?thesis
    unfolding effective_grants_def rows_def [symmetric] is_site_allowed_def one by (auto simp: split_def)
qed

section \<open>Properties\<close>

definition demo_engine :: db_engine where
  "demo_engine = \<lparr>eng_alloc = \<lambda>ids. fold max ids 0 + 1, eng_cascade = False\<rparr>"

definition demo_db :: rbac_db where
  "demo_db = \<lparr>db_users = [\<lparr>us_id = 1, us_name = ''a'', us_email = None, us_status = 1\<rparr>,
                        \<lparr>us_id = 2, us_name = ''b'', us_email = None, us_status = 1\<rparr>],
     db_roles = [\<lparr>rl_id = 1, rl_name = ''A'', rl_code = superadmin, rl_status = 1\<rparr>],
     db_perms = [\<lparr>pm_id = 1, pm_code = ''p'', pm_status = 1\<rparr>],
     db_user_roles = [(1, 1), (2, 1)], db_role_perms = [(1, 1)],
     db_role_sites = [], db_user_sites = []\<rparr>"

lemmas demo_rbac = demo_engine_def demo_db_def superadmin_def find_user_def find_role_def find_perm_def repo_user_roles_def
  repo_role_permissions_def user_permissions_def

lemma demo_fresh: "eng_alloc demo_engine ids \<notin> set ids"
proof
  assume "eng_alloc demo_engine ids \<in> set ids"
  from fold_max_upper(1) [OF this, of 0] show False by (simp add: demo_engine_def)
qed

lemma demo_delete: "delete_user demo_engine 2 (Some 1) demo_db = Inr (repo_delete_user demo_engine 2 (purge_user 2 demo_db))"
proof -
  have "find_user demo_db 2 \<noteq> None" "holds_superadmin demo_db 1" by (simp_all add: holds_superadmin_def demo_rbac)
  moreover have "\<lparr>us_id = 1, us_name = ''a'', us_email = None, us_status = 1\<rparr> \<in> set (db_users demo_db)" by (simp add: demo_db_def)
  ultimately show ?thesis by (force simp: delete_user_def last_superadmin_def)
qed

text \<open>C4: No stale permission: whatever users, roles, assignments and site grants are created, changed and deleted, with
  checks in between filling the cache, a permission check always answers, and answers what the tables say
  at that moment. (Keys of new rows are not in use.)\<close>

theorem permission_checks_current:
  assumes "\<And>ids. eng_alloc eng ids \<notin> set ids" and "list_all (\<lambda>(_, op). \<not> changes_permissions op) ops"
  shows "\<exists>s s'. auth_run eng ops (fresh_state db) = Some s \<and>
    check_permission now u code s = Some (code \<in> user_permissions (rb_db s) u, s')"
proof -
  obtain s where "auth_run eng ops (fresh_state db) = Some s" "auth_inv s"
    using auth_run_inv [OF fresh_inv assms(2,1)] by blast
  with check_permission_current [of s now u code] show ?thesis by auto
qed

theorem permission_checks_current_witness:
  "\<exists>s s'. auth_run demo_engine [(0, CheckPermission 2 ''p''), (1, AssignRoles 2 [])] (fresh_state demo_db) = Some s \<and>
    check_permission 2 2 ''p'' s = Some (''p'' \<in> user_permissions (rb_db s) 2, s')"
  by (rule permission_checks_current [OF demo_fresh]) simp

text \<open>The methods on permissions do not invalidate: while a snapshot with a permission is cached, deleting or
  disabling that permission, or any other, leaves the check true.\<close>

theorem permission_change_unseen:
  assumes "mem_get now (snapshot_key u) (rb_cache s) = (Some (Snapshot perms roles), c)" "code \<in> perms"
    and "find_user (rb_db s) u \<noteq> None" and "changes_permissions op" and "auth_step eng t op s = Some s2"
  shows "\<exists>s'. check_permission now u code s2 = Some (True, s')"
proof -
  have "rb_cache s2 = rb_cache s \<and> db_users (rb_db s2) = db_users (rb_db s)"
    using assms(4,5)
    by (cases op) (auto simp: on_db_def create_permission_def update_permission_def delete_permission_def
        split: option.splits sum.splits if_splits)
  then have "find_user (rb_db s2) u = find_user (rb_db s) u" "mem_get now (snapshot_key u) (rb_cache s2) = (Some (Snapshot perms roles), c)"
    using assms(1) by (simp_all add: find_user_def)
  with assms(2,3) show ?thesis
    by (auto simp: check_permission_def with_permissions_def get_user_snapshot_def)
qed

theorem permission_change_unseen_witness:
  "\<exists>s s2 s'. auth_run demo_engine [(0, CheckPermission 2 ''p'')] (fresh_state demo_db) = Some s \<and>
     auth_step demo_engine 1 (DeletePermission 1) s = Some s2 \<and> user_permissions (rb_db s2) 2 = {} \<and>
     check_permission 2 2 ''p'' s2 = Some (True, s')"
proof -
  define v where "v = Snapshot {''p''} (user_role_codes demo_db 2)"
  have snap: "Snapshot (user_permissions demo_db 2) (user_role_codes demo_db 2) = v" by (simp add: v_def demo_rbac)
  have miss: "mem_get 0 (snapshot_key 2) (rb_cache (fresh_state demo_db)) =
      (None, emit (EvMiss (snapshot_key 2)) ((rb_cache (fresh_state demo_db))\<lparr>mc_misses := 1\<rparr>))"
    by (simp add: mem_get_def fresh_state_def new_mem_cache_def)
  define c0 where "c0 = emit (EvMiss (snapshot_key 2)) ((rb_cache (fresh_state demo_db))\<lparr>mc_misses := 1\<rparr>)"
  have c0: "mem_inv c0"
    using fresh_inv [of demo_db] by (simp add: c0_def auth_inv_def) (simp add: mem_inv_def)
  then obtain c1 where c1: "mem_set 0 (snapshot_key 2) (Some v) snapshot_ttl c0 = Some (True, c1)"
    using mem_set_result [of c0 0 "snapshot_key 2" "Some v" snapshot_ttl] by (auto simp: mem_inv_def)
  define s where "s = (fresh_state demo_db)\<lparr>rb_cache := c1\<rparr>"
  have user: "find_user demo_db 2 \<noteq> None" by (simp add: demo_rbac)
  have db0: "rb_db (fresh_state demo_db) = demo_db" by (simp add: fresh_state_def)
  have run: "auth_run demo_engine [(0, CheckPermission 2 ''p'')] (fresh_state demo_db) = Some s"
    using user db0 by (auto simp: check_permission_def with_permissions_def get_user_snapshot_def miss [folded c0_def] snap
        mem_put_def c1 s_def Let_def) (simp add: v_def)
  have hit: "mem_get 2 (snapshot_key 2) (rb_cache s) = (Some v, snd (mem_get 2 (snapshot_key 2) (rb_cache s)))"
    using mem_set_dget(1) [OF c0 c1] by (simp add: s_def mem_get_def is_expired_def snapshot_ttl_def)
  have db: "rb_db s = demo_db" by (simp add: s_def fresh_state_def)
  define s2 where "s2 = s\<lparr>rb_db := demo_db\<lparr>db_perms := []\<rparr>\<rparr>"
  have del: "delete_permission demo_engine 1 demo_db = Inr (demo_db\<lparr>db_perms := []\<rparr>)"
    by (simp add: delete_permission_def find_perm_def) (simp add: demo_db_def demo_engine_def)
  have step: "auth_step demo_engine 1 (DeletePermission 1) s = Some s2"
    by (simp add: db del on_db_def s2_def)
  have "user_permissions (rb_db s2) 2 = {}" by (simp add: s2_def demo_rbac)
  with permission_change_unseen [OF hit [unfolded v_def] _ _ _ step, of "''p''"] user run step show ?thesis
    by (auto simp: db)
qed

text \<open>Deleting a user never leaves the system without an enabled administrator account, if it had one.\<close>

theorem superadmin_survives_deletion:
  assumes "delete_user eng u current db = Inr db'"
    and "\<exists>r \<in> set (db_users db). us_status r = 1 \<and> holds_superadmin db (us_id r)"
  shows "\<exists>r \<in> set (db_users db'). us_status r = 1 \<and> holds_superadmin db' (us_id r)"
proof -
  obtain r where r: "r \<in> set (db_users db)" "us_status r = 1" "us_id r \<noteq> u" "holds_superadmin db (us_id r)"
    using assms by (auto simp: delete_user_def last_superadmin_def split: option.splits if_splits)
  note known = delete_user_known [OF assms(1)]
  have "repo_user_roles db' (us_id r) = repo_user_roles db (us_id r)"
    using known r(3) by (intro user_roles_cong) (auto simp: find_user_None)
  with r(4) have "holds_superadmin db' (us_id r)" by (simp add: holds_superadmin_def)
  moreover have "r \<in> set (db_users db')"
    using assms(1) r(1,3) by (auto simp: delete_user_def repo_delete_user_def purge_user_def split: option.splits if_splits)
  ultimately show ?thesis using r(2) by blast
qed

theorem superadmin_survives_deletion_witness:
  "\<exists>db'. delete_user demo_engine 2 (Some 1) demo_db = Inr db' \<and>
     (\<exists>r \<in> set (db_users db'). us_status r = 1 \<and> holds_superadmin db' (us_id r))"
proof -
  have "holds_superadmin demo_db 1" by (simp add: holds_superadmin_def demo_rbac)
  then have d: "\<exists>r \<in> set (db_users demo_db). us_status r = 1 \<and> holds_superadmin demo_db (us_id r)"
    by (auto simp: demo_db_def)
  from superadmin_survives_deletion [OF demo_delete d] demo_delete show ?thesis by blast
qed

text \<open>With SQLite a deleted account leaves its role associations behind and its key is given out again: the next
  account created, without any role, has the permissions of the deleted one.\<close>

theorem reused_account_inherits:
  assumes "\<not> eng_cascade eng" and "\<And>ids. eng_alloc eng ids = fold max ids 0 + 1"
    and "\<And>x. x \<in> set (db_users db) \<Longrightarrow> us_id x \<le> u" and "u = 1 \<or> u - 1 \<in> us_id ` set (db_users db)" and "0 < u"
    and "delete_user eng u current db = Inr db1" and "create_user eng name email [] db1 = Inr (v, db2)"
  shows "v = u \<and> user_permissions db2 v = user_permissions db u"
proof -
  have db1: "db1 = repo_delete_user eng u (purge_user u db)" and u: "find_user db u \<noteq> None"
    using assms(6) by (auto simp: delete_user_def split: option.splits if_splits)
  have ids: "us_id ` set (db_users db1) = us_id ` set (db_users db) - {u}"
    using delete_user_known [OF assms(6)] by simp
  obtain row where v: "v = eng_alloc eng (map us_id (db_users db1))" and db2: "db2 = db1\<lparr>db_users := db_users db1 @ [row]\<rparr>" "us_id row = v"
    using assms(7) by (auto simp: create_user_def Let_def split: if_splits)
  have "fold max (map us_id (db_users db1)) 0 \<le> u - 1"
    using assms(3,5) ids by (intro fold_max_least) fastforce+
  moreover have "u - 1 \<le> fold max (map us_id (db_users db1)) 0"
    using assms(4) fold_max_upper(1) [of "u - 1" "map us_id (db_users db1)" 0] fold_max_upper(2) [of 0 "map us_id (db_users db1)"] ids
    by auto
  ultimately have vu: "v = u" using v assms(2) by simp
  have known: "find_user db2 u = None \<longleftrightarrow> find_user db u = None" using db2 vu u by (simp add: find_user_None)
  have "snapshot_of db2 u = snapshot_of db u"
    by (rule snapshot_cong [OF _ _ _ known])
       (use assms(1) in \<open>simp_all add: db1 db2(1) repo_delete_user_def purge_user_def\<close>)
  with vu show ?thesis by (simp add: snapshot_of_def)
qed

theorem reused_account_inherits_witness:
  "\<exists>db1 db2. delete_user demo_engine 2 (Some 1) demo_db = Inr db1 \<and> create_user demo_engine ''c'' None [] db1 = Inr (2, db2) \<and>
     user_permissions db2 2 = {''p''}"
proof -
  define db1 where d2: "db1 = repo_delete_user demo_engine 2 (purge_user 2 demo_db)"
  have d: "delete_user demo_engine 2 (Some 1) demo_db = Inr db1" by (simp add: d2 demo_delete)
  have "\<not> (\<exists>r \<in> set (db_users db1). us_name r = ''c'')"
    by (auto simp: d2 repo_delete_user_def purge_user_def) (auto simp: demo_db_def)
  then obtain v db2 where c: "create_user demo_engine ''c'' None [] db1 = Inr (v, db2)"
    by (auto simp: create_user_def Let_def)
  have "v = 2 \<and> user_permissions db2 v = user_permissions demo_db 2"
    by (rule reused_account_inherits [OF _ _ _ _ _ d c]) (auto simp: demo_engine_def demo_db_def)
  moreover have "user_permissions demo_db 2 = {''p''}" by (simp add: demo_rbac)
  ultimately show ?thesis using d c by auto
qed

text \<open>Site access, on tables not read before: an administrator and everybody under an open policy may use every site;
  under the closed policy a user may use a site for a purpose exactly when a grant of the user or of
  one of the roles of the user, enabled or not, names the site, the site at its source or the whole
  source, and allows the purpose.\<close>

theorem site_access_iff:
  "\<exists>s'. can_access_site now policy user site source usage (fresh_state db) =
     Some (superadmin \<in> set (uc_role_codes user) \<or> is_open_policy policy \<or>
       (\<exists>(x, n, ps) \<in> set (filter (\<lambda>(x, _). x \<in> rl_id ` set (repo_user_roles db (uc_user user))) (db_role_sites db) @
            filter (\<lambda>(x, _). x = uc_user user) (db_user_sites db)).
          n \<in> {source @ '':'' @ site, source @ '':*'', site} \<and> usage \<in> set (normalize_permissions (Some ps))), s')"
proof (cases "superadmin \<in> set (uc_role_codes user) \<or> is_open_policy policy")
  case True
  then show ?thesis by (auto simp: can_access_site_def get_visible_sites_def visible_for_user_def)
next
  case False
  define g where "g = effective_grants db (uc_user user) (map rl_id (repo_user_roles db (uc_user user)))"
  define c where "c = snd (mem_get now (grants_key (uc_user user)) (rb_cache (fresh_state db)))"
  have db0: "rb_db (fresh_state db) = db" by (simp add: fresh_state_def)
  have miss: "mem_get now (grants_key (uc_user user)) (rb_cache (fresh_state db)) = (None, c)"
    by (simp add: c_def mem_get_def fresh_state_def new_mem_cache_def)
  have "mem_inv c" using fresh_inv [of db] mem_get_inv [of "rb_cache (fresh_state db)"] by (simp add: c_def auth_inv_def)
  then obtain c' where "mem_put snapshot_ttl now (grants_key (uc_user user)) (Grants g) c = Some c'"
    using mem.set_returns [of c] by blast
  then obtain s' where "can_access_site now policy user site source usage (fresh_state db) = Some (is_site_allowed g site source usage, s')"
    using False db0 by (auto simp: can_access_site_def get_visible_sites_def visible_for_user_def miss Let_def g_def)
  with False show ?thesis by (simp add: g_def allowed_effective)
qed

end
