(* ===== verification/Identity.thy ===== *)
theory Identity
  imports CacheStore "HOL-Library.Multiset"
begin

text \<open>
  Media identity (\<open>media/identity\<close>): the index from aliases to works, the graph of editions inside a
  franchise, built breadth first from the relations a catalogue gives, the choice of an edition by the
  markers of a title, and the match of a medium against a target. The index keeps its entries in caches
  given to its constructor, here memory caches. The text normalisation, the hash of alias keys and the
  catalogue (relations, names) are parameters; the file of franchise overrides is the list it holds.
\<close>

section \<open>Data\<close>

datatype alias_kind = Official | Translation | Romanization | Fan | OtherKind string

record alias_text =
  at_text :: string
  at_lang :: string
  at_kind :: alias_kind

record work =
  wk_source :: string
  wk_id :: int
  wk_titles :: "string list"
  wk_aliases :: "alias_text list"
  wk_franchise :: "string option"

record alias_entry =
  ae_source :: string
  ae_work :: int
  ae_kind :: alias_kind
  ae_lang :: string

text \<open>An entry as the index stores it: with the number of hits.\<close>

record alias_rec =
  al_source :: string
  al_work :: int
  al_kind :: alias_kind
  al_lang :: string
  al_hits :: int

record franchise =
  fr_key :: string
  fr_name :: string
  fr_members :: "(string \<times> int) list"

record edition_edge =
  ed_source :: string
  ed_target :: int
  ed_relation :: string
  ed_title :: string

datatype graph_value = GFranchise franchise | GEdges "edition_edge list"

record ident_env =
  ie_norm :: "string \<Rightarrow> string"
  ie_md5 :: "string \<Rightarrow> string"

definition alias_key :: "ident_env \<Rightarrow> string \<Rightarrow> string" where
  "alias_key ev text =
     (let t = ie_norm ev text in ''identity:v1:alias:'' @ (if t = [] then [] else ie_md5 ev t))"

definition work_key :: "string \<Rightarrow> int \<Rightarrow> string" where
  "work_key source w = ''identity:v1:work:'' @ source @ '':'' @ int_str w"

definition franchise_key :: "string \<Rightarrow> string" where
  "franchise_key k = ''identity:v1:franchise:'' @ k"

definition edition_key :: "string \<Rightarrow> int \<Rightarrow> string" where
  "edition_key source w = ''identity:v1:edition:'' @ source @ '':'' @ int_str w"

text \<open>All names, official ones first, without repetition and without the empty one.\<close>

definition all_name_strings :: "work \<Rightarrow> string list" where
  "all_name_strings w =
     fold (\<lambda>n ret. if n \<noteq> [] \<and> n \<notin> set ret then ret @ [n] else ret) (wk_titles w @ map at_text (wk_aliases w)) []"

definition al_ref :: "alias_rec \<Rightarrow> string \<times> int" where
  "al_ref e = (al_source e, al_work e)"

section \<open>The alias index\<close>

record ident_index =
  ix_alias :: "alias_rec list mem_cache"
  ix_work :: "work mem_cache"
  ix_graph :: "graph_value mem_cache"

definition ident_ttl :: "int option" where
  "ident_ttl = Some (7 * 24 * 3600)"

text \<open>\<open>FAN_PROMOTE_HITS\<close>\<close>

definition fan_promote_hits :: int where
  "fan_promote_hits = 2"

definition get_alias :: "time \<Rightarrow> string \<Rightarrow> ident_index \<Rightarrow> alias_rec list \<times> ident_index" where
  "get_alias now key ix =
     (let (r, c) = mem_get now key (ix_alias ix)
      in (case r of None \<Rightarrow> [] | Some d \<Rightarrow> d, ix\<lparr>ix_alias := c\<rparr>))"

definition set_alias :: "time \<Rightarrow> string \<Rightarrow> alias_rec list \<Rightarrow> ident_index \<Rightarrow> ident_index option" where
  "set_alias now key d ix = map_option (\<lambda>c. ix\<lparr>ix_alias := c\<rparr>) (mem_put ident_ttl now key d (ix_alias ix))"

definition lookup :: "ident_env \<Rightarrow> time \<Rightarrow> string \<Rightarrow> ident_index \<Rightarrow> alias_rec list \<times> ident_index" where
  "lookup ev now name ix = (if strip name = [] then ([], ix) else get_alias now (alias_key ev name) ix)"

text \<open>A further hit of a fan alias counts, and enough hits make it a translation.\<close>

definition hit :: "alias_rec \<Rightarrow> alias_rec" where
  "hit e =
     (let n = (if al_hits e = 0 then 1 else al_hits e) + 1
      in e\<lparr>al_hits := n, al_kind := (if n \<ge> fan_promote_hits then Translation else al_kind e)\<rparr>)"

definition merge_entry :: "alias_entry \<Rightarrow> alias_rec \<Rightarrow> alias_rec" where
  "merge_entry entry e =
     (if al_kind e = Fan then
        (if ae_kind entry = Fan then hit e else e\<lparr>al_kind := ae_kind entry, al_lang := ae_lang entry\<rparr>)
      else e)"

fun merge_alias :: "alias_entry \<Rightarrow> alias_rec list \<Rightarrow> alias_rec list" where
  "merge_alias entry [] =
     [\<lparr>al_source = ae_source entry, al_work = ae_work entry, al_kind = ae_kind entry, al_lang = ae_lang entry, al_hits = 1\<rparr>]"
| "merge_alias entry (e # es) =
     (if al_ref e = (ae_source entry, ae_work entry) then merge_entry entry e # es else e # merge_alias entry es)"

definition add_alias :: "ident_env \<Rightarrow> time \<Rightarrow> string \<Rightarrow> alias_entry \<Rightarrow> ident_index \<Rightarrow> ident_index option" where
  "add_alias ev now name entry ix =
     (if strip name = [] \<or> ae_work entry = 0 then Some ix
      else
        let (d, ix1) = get_alias now (alias_key ev name) ix
        in set_alias now (alias_key ev name) (merge_alias entry d) ix1)"

definition record_hit :: "ident_env \<Rightarrow> time \<Rightarrow> string \<Rightarrow> string \<Rightarrow> int \<Rightarrow> ident_index \<Rightarrow> ident_index option" where
  "record_hit ev now name source w ix =
     (if strip name = [] then Some ix
      else
        let (d, ix1) = get_alias now (alias_key ev name) ix;
            counts = (\<lambda>e. al_ref e = (source, w) \<and> al_kind e = Fan)
        in if list_ex counts d
           then set_alias now (alias_key ev name) (map (\<lambda>e. if counts e then hit e else e) d) ix1
           else Some ix1)"

definition invalidate_alias :: "ident_env \<Rightarrow> string \<Rightarrow> ident_index \<Rightarrow> ident_index" where
  "invalidate_alias ev name ix =
     (if strip name = [] then ix else ix\<lparr>ix_alias := snd (mem_delete (alias_key ev name) (ix_alias ix))\<rparr>)"

definition invalidate_mapping ::
  "ident_env \<Rightarrow> time \<Rightarrow> string \<Rightarrow> string \<Rightarrow> int \<Rightarrow> ident_index \<Rightarrow> (bool \<times> ident_index) option" where
  "invalidate_mapping ev now name source w ix =
     (if strip name = [] then Some (False, ix)
      else
        let (d, ix1) = get_alias now (alias_key ev name) ix;
            kept = filter (\<lambda>e. al_ref e \<noteq> (source, w)) d
        in if length kept = length d then Some (False, ix1)
           else if kept \<noteq> [] then map_option (\<lambda>ix2. (True, ix2)) (set_alias now (alias_key ev name) kept ix1)
           else Some (True, ix1\<lparr>ix_alias := snd (mem_delete (alias_key ev name) (ix_alias ix1))\<rparr>))"

section \<open>Works, edges and franchises in the index\<close>

definition get_work :: "time \<Rightarrow> string \<Rightarrow> int \<Rightarrow> ident_index \<Rightarrow> work option \<times> ident_index" where
  "get_work now source w ix =
     (let (r, c) = mem_get now (work_key source w) (ix_work ix) in (r, ix\<lparr>ix_work := c\<rparr>))"

fun add_aliases :: "ident_env \<Rightarrow> time \<Rightarrow> (string \<times> alias_entry) list \<Rightarrow> ident_index \<Rightarrow> ident_index option" where
  "add_aliases ev now [] ix = Some ix"
| "add_aliases ev now ((name, entry) # rest) ix = Option.bind (add_alias ev now name entry ix) (add_aliases ev now rest)"

definition put_work :: "ident_env \<Rightarrow> time \<Rightarrow> work \<Rightarrow> ident_index \<Rightarrow> ident_index option" where
  "put_work ev now w ix =
     (if wk_id w = 0 then Some ix
      else Option.bind (mem_put ident_ttl now (work_key (wk_source w) (wk_id w)) w (ix_work ix))
        (\<lambda>c. add_aliases ev now
           (map (\<lambda>n. (n, \<lparr>ae_source = wk_source w, ae_work = wk_id w, ae_kind = Official, ae_lang = ''unknown''\<rparr>)) (wk_titles w) @
            map (\<lambda>a. (at_text a, \<lparr>ae_source = wk_source w, ae_work = wk_id w, ae_kind = at_kind a, ae_lang = at_lang a\<rparr>)) (wk_aliases w))
           (ix\<lparr>ix_work := c\<rparr>)))"

definition get_work_names :: "time \<Rightarrow> string \<Rightarrow> int \<Rightarrow> ident_index \<Rightarrow> string list option \<times> ident_index" where
  "get_work_names now source w ix = (let (r, ix1) = get_work now source w ix in (map_option all_name_strings r, ix1))"

definition get_edges :: "time \<Rightarrow> string \<Rightarrow> int \<Rightarrow> ident_index \<Rightarrow> edition_edge list \<times> ident_index" where
  "get_edges now source w ix =
     (let (r, c) = mem_get now (edition_key source w) (ix_graph ix)
      in (case r of Some (GEdges es) \<Rightarrow> es | _ \<Rightarrow> [], ix\<lparr>ix_graph := c\<rparr>))"

definition put_edges :: "time \<Rightarrow> string \<Rightarrow> int \<Rightarrow> edition_edge list \<Rightarrow> ident_index \<Rightarrow> ident_index option" where
  "put_edges now source w es ix =
     map_option (\<lambda>c. ix\<lparr>ix_graph := c\<rparr>) (mem_put ident_ttl now (edition_key source w) (GEdges es) (ix_graph ix))"

definition index_franchise :: "time \<Rightarrow> string \<Rightarrow> ident_index \<Rightarrow> franchise option \<times> ident_index" where
  "index_franchise now k ix =
     (let (r, c) = mem_get now (franchise_key k) (ix_graph ix)
      in (case r of Some (GFranchise f) \<Rightarrow> Some f | _ \<Rightarrow> None, ix\<lparr>ix_graph := c\<rparr>))"

definition put_franchise :: "time \<Rightarrow> franchise \<Rightarrow> ident_index \<Rightarrow> ident_index option" where
  "put_franchise now f ix =
     map_option (\<lambda>c. ix\<lparr>ix_graph := c\<rparr>) (mem_put ident_ttl now (franchise_key (fr_key f)) (GFranchise f) (ix_graph ix))"

section \<open>The edition graph\<close>

record relation =
  rel_type :: int
  rel_id :: int
  rel_name :: string
  rel_cn :: string
  rel_kind :: string

text \<open>What the catalogue answers: \<open>None\<close> when the request fails.\<close>

record catalogue =
  ct_relations :: "int \<Rightarrow> relation list option"
  ct_detail :: "int \<Rightarrow> (string \<times> string) option"

text \<open>\<open>_RELATION_MAP\<close>: the Chinese names of the relations, in UTF-8.\<close>

definition relation_map :: "(string, string) dict" where
  "relation_map = [
   (u8 [0xe7, 0xbb, 0xad, 0xe9, 0x9b, 0x86], ''sequel''),
   (u8 [0xe5, 0x89, 0x8d, 0xe4, 0xbc, 0xa0], ''prequel''),
   (u8 [0xe8, 0xa1, 0x8d, 0xe7, 0x94, 0x9f], ''spinoff''),
   (u8 [0xe7, 0x95, 0xaa, 0xe5, 0xa4, 0x96, 0xe7, 0xaf, 0x87], ''special''),
   (u8 [0xe4, 0xb8, 0xbb, 0xe7, 0xba, 0xbf, 0xe6, 0x95, 0x85, 0xe4, 0xba, 0x8b], ''main_story''),
   (u8 [0xe6, 0x80, 0xbb, 0xe9, 0x9b, 0x86, 0xe7, 0xaf, 0x87], ''compilation''),
   (u8 [0xe9, 0x87, 0x8d, 0xe5, 0x88, 0xb6], ''remake''),
   (u8 [0xe4, 0xb8, 0x8d, 0xe5, 0x90, 0x8c, 0xe7, 0x89, 0x88, 0xe6, 0x9c, 0xac], ''alt_version'')]"

text \<open>\<open>_MAX_DEPTH\<close> and \<open>_MAX_MEMBERS\<close>\<close>

definition max_depth :: nat where "max_depth = 2"
definition max_members :: nat where "max_members = 30"

definition edge_of :: "relation \<Rightarrow> edition_edge" where
  "edge_of r = \<lparr>ed_source = ''bgm'', ed_target = rel_id r, ed_relation = get_or relation_map (rel_kind r) ''other'',
     ed_title = (if rel_cn r \<noteq> [] then rel_cn r else rel_name r)\<rparr>"

definition counted :: "relation \<Rightarrow> bool" where
  "counted r = (rel_type r = 2 \<and> rel_id r \<noteq> 0)"

text \<open>The loop over the relations of one subject: members, edges and the subjects to visit next.\<close>

definition expand :: "int \<Rightarrow> nat \<Rightarrow> int list \<Rightarrow> relation list \<Rightarrow>
    (int \<times> nat) list \<times> int list \<times> (int, edition_edge list) dict \<Rightarrow>
    (int \<times> nat) list \<times> int list \<times> (int, edition_edge list) dict" where
  "expand current depth seen rels st =
     fold (\<lambda>r (queue, members, edges).
        (if depth + 1 \<le> max_depth \<and> rel_id r \<notin> set seen then queue @ [(rel_id r, depth + 1)] else queue,
         if rel_id r \<in> set members then members else members @ [rel_id r],
         dput current (get_or edges current [] @ [edge_of r]) edges))
       (filter counted rels) st"

lemma expand_queue:
  "expand current depth seen rels (queue, members, edges) = (queue', members', edges') \<Longrightarrow>
     queue' = queue @ (if depth + 1 \<le> max_depth then map (\<lambda>r. (rel_id r, depth + 1))
        (filter (\<lambda>r. counted r \<and> rel_id r \<notin> set seen) rels) else [])"
proof -
  have "fst (fold (\<lambda>r (queue, members, edges).
        (if depth + 1 \<le> max_depth \<and> rel_id r \<notin> set seen then queue @ [(rel_id r, depth + 1)] else queue,
         if rel_id r \<in> set members then members else members @ [rel_id r],
         dput current (get_or edges current [] @ [edge_of r]) edges)) rs (queue, members, edges)) =
      queue @ (if depth + 1 \<le> max_depth then map (\<lambda>r. (rel_id r, depth + 1)) (filter (\<lambda>r. rel_id r \<notin> set seen) rs) else [])" for rs
    by (induction rs arbitrary: queue members edges) auto
  from this [of "filter counted rels"]
  show "expand current depth seen rels (queue, members, edges) = (queue', members', edges') \<Longrightarrow> ?thesis"
    by (simp add: expand_def conj_commute split: if_splits)
qed

text \<open>The loop over the queue: \<open>None\<close> when the first subject has no relations. It ends because what a subject puts in
  the queue lies one level deeper.\<close>

function bfs :: "catalogue \<Rightarrow> int \<Rightarrow> (int \<times> nat) list \<Rightarrow> int list \<Rightarrow> int list \<Rightarrow> (int, edition_edge list) dict \<Rightarrow>
    (int list \<times> (int, edition_edge list) dict) option" where
  "bfs ct bid [] seen members edges = Some (members, edges)"
| "bfs ct bid ((current, depth) # queue) seen members edges =
     (if length members \<ge> max_members then Some (members, edges)
      else if current \<in> set seen \<or> depth > max_depth then bfs ct bid queue seen members edges
      else case ct_relations ct current of
        None \<Rightarrow> bfs ct bid queue (current # seen) members edges
      | Some rels \<Rightarrow>
          if current = bid \<and> rels = [] then None
          else
            let st = expand current depth (current # seen) rels (queue, members, edges)
            in bfs ct bid (fst st) (current # seen) (fst (snd st)) (snd (snd st)))"
  by pat_completeness auto

termination
proof (relation "inv_image (mult less_than)
    (\<lambda>(ct, bid, queue, seen, members, edges). image_mset (\<lambda>(c, d). Suc max_depth - d) (mset queue))", goal_cases)
  case 1
  show ?case by (simp add: wf_mult)
next
  case (2 ct bid current depth queue seen members edges)
  show ?case using one_step_implies_mult [of "{#Suc max_depth - depth#}" "{#}" less_than] by simp
next
  case (3 ct bid current depth queue seen members edges)
  show ?case using one_step_implies_mult [of "{#Suc max_depth - depth#}" "{#}" less_than] by simp
next
  case (4 ct bid current depth queue seen members edges rels st)
  define new where "new = map (\<lambda>r. (rel_id r, depth + 1)) (filter (\<lambda>r. counted r \<and> rel_id r \<notin> set (current # seen)) rels)"
  obtain q m e where st: "expand current depth (current # seen) rels (queue, members, edges) = (q, m, e)" by (metis prod_cases3)
  have q: "q = queue @ (if depth + 1 \<le> max_depth then new else [])"
    unfolding new_def by (rule expand_queue [OF st])
  have "\<forall>k \<in># image_mset (\<lambda>(c, d). Suc max_depth - d) (mset (if depth + 1 \<le> max_depth then new else [])). (k, Suc max_depth - depth) \<in> less_than"
    by (auto simp: new_def)
  then have "(image_mset (\<lambda>(c, d). Suc max_depth - d) (mset queue) + image_mset (\<lambda>(c, d). Suc max_depth - d) (mset (if depth + 1 \<le> max_depth then new else [])),
      image_mset (\<lambda>(c, d). Suc max_depth - d) (mset queue) + {#Suc max_depth - depth#}) \<in> mult less_than"
    by (intro one_step_implies_mult) auto
  then show ?case using 4 st q by simp
qed

text \<open>The key under which the franchise of a subject is kept, from the name of the subject.\<close>

definition franchise_key_of :: "ident_env \<Rightarrow> string \<Rightarrow> string" where
  "franchise_key_of ev name = lower (filter (\<lambda>c. c \<noteq> CHR '' '') (ie_norm ev name))"

fun put_all_edges :: "time \<Rightarrow> (int, edition_edge list) dict \<Rightarrow> ident_index \<Rightarrow> ident_index option" where
  "put_all_edges now [] ix = Some ix"
| "put_all_edges now ((w, es) # rest) ix = Option.bind (put_edges now ''bgm'' w es ix) (put_all_edges now rest)"

definition root_name :: "catalogue \<Rightarrow> int \<Rightarrow> string" where
  "root_name ct bid =
     (let n = (case ct_detail ct bid of None \<Rightarrow> [] | Some (cn, name) \<Rightarrow> if cn \<noteq> [] then cn else name)
      in if n \<noteq> [] then n else ''bgm:'' @ int_str bid)"

definition ensure_bgm_franchise ::
  "ident_env \<Rightarrow> time \<Rightarrow> catalogue \<Rightarrow> int \<Rightarrow> ident_index \<Rightarrow> (string option \<times> ident_index) option" where
  "ensure_bgm_franchise ev now ct bid ix =
     (case bfs ct bid [(bid, 0)] [] [] [] of
        None \<Rightarrow> Some (None, ix)
      | Some (members, edges) \<Rightarrow>
          if members = [] then Some (None, ix)
          else
            let f = \<lparr>fr_key = franchise_key_of ev (root_name ct bid), fr_name = root_name ct bid,
                     fr_members = map (\<lambda>m. (''bgm'', m)) members\<rparr>
            in map_option (\<lambda>ix2. (Some (fr_key f), ix2))
                 (Option.bind (put_franchise now f ix) (put_all_edges now edges)))"

record edition_graph =
  eg_index :: ident_index
  eg_loaded :: bool

fun load_overrides :: "time \<Rightarrow> franchise list \<Rightarrow> ident_index \<Rightarrow> ident_index option" where
  "load_overrides now [] ix = Some ix"
| "load_overrides now (f # fs) ix =
     (if fr_key f = [] \<or> fr_members f = [] then load_overrides now fs ix
      else Option.bind
        (put_franchise now (f\<lparr>fr_name := (if fr_name f \<noteq> [] then fr_name f else fr_key f),
            fr_members := filter (\<lambda>(_, w). w \<noteq> 0) (fr_members f)\<rparr>) ix)
        (load_overrides now fs))"

definition ensure_overrides :: "time \<Rightarrow> franchise list \<Rightarrow> edition_graph \<Rightarrow> edition_graph option" where
  "ensure_overrides now file g =
     (if eg_loaded g then Some g
      else map_option (\<lambda>ix. \<lparr>eg_index = ix, eg_loaded = True\<rparr>) (load_overrides now file (eg_index g)))"

definition get_franchise :: "time \<Rightarrow> franchise list \<Rightarrow> string \<Rightarrow> edition_graph \<Rightarrow> (franchise option \<times> edition_graph) option" where
  "get_franchise now file k g =
     map_option (\<lambda>g1. let (f, ix) = index_franchise now k (eg_index g1) in (f, g1\<lparr>eg_index := ix\<rparr>)) (ensure_overrides now file g)"

text \<open>\<open>len\<close> of a text counts its characters: the bytes that do not continue one.\<close>

definition char_len :: "string \<Rightarrow> nat" where
  "char_len s = length (filter (\<lambda>c. \<not> (128 \<le> ord c \<and> ord c < 192)) s)"

definition squeeze :: "ident_env \<Rightarrow> string \<Rightarrow> string" where
  "squeeze ev s = filter (\<lambda>c. c \<noteq> CHR '' '') (ie_norm ev s)"

definition edition_score :: "ident_env \<Rightarrow> string list \<Rightarrow> work \<Rightarrow> nat" where
  "edition_score ev markers w =
     sum_list (map char_len (filter (\<lambda>m. \<exists>n \<in> set (all_name_strings w). contains (squeeze ev n) m) markers))"

text \<open>The loop over the members: the best so far and its score.\<close>

fun best_edition :: "ident_env \<Rightarrow> time \<Rightarrow> string list \<Rightarrow> (string \<times> int) list \<Rightarrow> (string \<times> int) option \<Rightarrow> nat \<Rightarrow> ident_index \<Rightarrow>
    (string \<times> int) option \<times> ident_index" where
  "best_edition ev now markers [] best score ix = (best, ix)"
| "best_edition ev now markers ((source, w) # ms) best score ix =
     (case get_work now source w ix of
        (None, ix1) \<Rightarrow> best_edition ev now markers ms best score ix1
      | (Some wk, ix1) \<Rightarrow>
          if edition_score ev markers wk > score
          then best_edition ev now markers ms (Some (source, w)) (edition_score ev markers wk) ix1
          else best_edition ev now markers ms best score ix1)"

definition find_edition ::
  "ident_env \<Rightarrow> time \<Rightarrow> franchise list \<Rightarrow> string \<Rightarrow> string list \<Rightarrow> edition_graph \<Rightarrow> ((string \<times> int) option \<times> edition_graph) option" where
  "find_edition ev now file k markers g =
     map_option (\<lambda>(f, g1).
       case f of
         None \<Rightarrow> (None, g1)
       | Some fr \<Rightarrow>
           let norm = map (squeeze ev) (filter (\<lambda>m. m \<noteq> []) markers)
           in if norm = [] then (None, g1)
              else let (best, ix) = best_edition ev now norm (fr_members fr) None 0 (eg_index g1)
                   in (best, g1\<lparr>eg_index := ix\<rparr>))
       (get_franchise now file k g)"

section \<open>Matching a target\<close>

record media =
  md_tmdb :: pyval
  md_title :: string

datatype match_reason = NoTarget | NoIdentity | IdMatch | SameFranchise string | OtherWork

definition shared_franchise :: "time \<Rightarrow> pyval \<Rightarrow> pyval \<Rightarrow> ident_index \<Rightarrow> string option \<times> ident_index" where
  "shared_franchise now a b ix =
     (case (pyval_int a, pyval_int b) of
        (Some m, Some n) \<Rightarrow>
          let (wa, ix1) = get_work now ''tmdb'' m ix;
              (wb, ix2) = get_work now ''tmdb'' n ix1
          in (case (wa, wb) of
                (Some x, Some y) \<Rightarrow>
                  (case (wk_franchise x, wk_franchise y) of
                     (Some f, Some g) \<Rightarrow> if f \<noteq> [] \<and> f = g then Some f else None
                   | _ \<Rightarrow> None)
              | _ \<Rightarrow> None, ix2)
      | _ \<Rightarrow> (None, ix))"

text \<open>The target may be missing; the texts of the reasons are presentation.\<close>

definition match_target ::
  "(pyval \<Rightarrow> string) \<Rightarrow> time \<Rightarrow> media option \<Rightarrow> media option \<Rightarrow> ident_index \<Rightarrow> (bool \<times> match_reason) \<times> ident_index" where
  "match_target repr now medium target ix =
     (case target of
        None \<Rightarrow> ((True, NoTarget), ix)
      | Some t \<Rightarrow>
          if \<not> truthy (md_tmdb t) then ((True, NoTarget), ix)
          else case medium of
            None \<Rightarrow> ((False, NoIdentity), ix)
          | Some m \<Rightarrow>
              if \<not> truthy (md_tmdb m) then ((False, NoIdentity), ix)
              else if py_str repr (md_tmdb m) = py_str repr (md_tmdb t) then ((True, IdMatch), ix)
              else case shared_franchise now (md_tmdb m) (md_tmdb t) ix of
                (Some f, ix1) \<Rightarrow> ((False, SameFranchise f), ix1)
              | (None, ix1) \<Rightarrow> ((False, OtherWork), ix1))"

section \<open>The entries of the index\<close>

lemma al_ref_hit [simp]: "al_ref (hit e) = al_ref e"
  by (simp add: al_ref_def hit_def Let_def)

lemma al_ref_new [simp]: "al_ref \<lparr>al_source = s, al_work = w, al_kind = k, al_lang = l, al_hits = h\<rparr> = (s, w)"
  by (simp add: al_ref_def)

lemma al_ref_merge [simp]: "al_ref (merge_entry entry e) = al_ref e"
  by (simp add: al_ref_def merge_entry_def hit_def Let_def)

lemma refs_merge: "set (map al_ref (merge_alias entry d)) = insert (ae_source entry, ae_work entry) (set (map al_ref d))"
  by (induction d) auto

lemma distinct_merge: "distinct (map al_ref d) \<Longrightarrow> distinct (map al_ref (merge_alias entry d))"
proof (induction d)
  case (Cons e d)
  then show ?case using refs_merge [of entry d] by (auto simp: image_iff)
qed simp

text \<open>What holds of a stored entry list: one entry for a work, and a fan alias has one hit.\<close>

definition alias_ok :: "string \<Rightarrow> alias_rec list \<Rightarrow> bool" where
  "alias_ok k d \<longleftrightarrow> distinct (map al_ref d) \<and> (\<forall>e \<in> set d. al_kind e = Fan \<longrightarrow> al_hits e = 1)"

lemma hit_kind: "al_hits e = 1 \<Longrightarrow> al_kind (hit e) = Translation"
  by (simp add: hit_def Let_def fan_promote_hits_def)

lemma alias_ok_merge: "alias_ok k d \<Longrightarrow> alias_ok k (merge_alias entry d)"
proof -
  assume ok: "alias_ok k d"
  have "\<forall>e \<in> set (merge_alias entry d). al_kind e = Fan \<longrightarrow> al_hits e = 1"
    if "\<forall>e \<in> set d. al_kind e = Fan \<longrightarrow> al_hits e = 1"
    using that by (induction d) (auto simp: merge_entry_def hit_kind split: if_splits)
  with ok distinct_merge [of d entry] show ?thesis by (simp add: alias_ok_def)
qed

lemma alias_ok_hits: "alias_ok k d \<Longrightarrow> alias_ok k (map (\<lambda>e. if al_ref e = r \<and> al_kind e = Fan then hit e else e) d)"
  by (auto simp: alias_ok_def hit_kind distinct_map_filter intro: subst [of "map al_ref d" _ distinct])

definition index_inv :: "ident_index \<Rightarrow> bool" where
  "index_inv ix \<longleftrightarrow> mem_inv (ix_alias ix) \<and> mem_inv (ix_work ix) \<and> mem.agrees alias_ok (ix_alias ix)"

lemma get_alias_ok:
  assumes "index_inv ix" and "get_alias now k ix = (d, ix1)"
  shows "alias_ok k d \<and> index_inv ix1"
proof -
  obtain r c where g: "mem_get now k (ix_alias ix) = (r, c)" by fastforce
  have inv: "mem_inv (ix_alias ix)" "mem.agrees alias_ok (ix_alias ix)" using assms(1) by (simp_all add: index_inv_def)
  have "alias_ok k d"
  proof (cases r)
    case None
    with g assms(2) show ?thesis by (simp add: get_alias_def alias_ok_def)
  next
    case (Some v)
    with g mem.get_value [OF inv(1), of now k v] inv(2) have "alias_ok k v" by (simp add: mem.agrees_def)
    with Some g assms(2) show ?thesis by (simp add: get_alias_def)
  qed
  moreover have "index_inv ix1"
    using g assms mem.agrees_get [OF inv, of now k] mem_get_inv [OF inv(1), of now k]
    by (auto simp: get_alias_def index_inv_def)
  ultimately show ?thesis ..
qed

lemma set_alias_ok:
  assumes "index_inv ix" and "alias_ok k d"
  shows "\<exists>ix'. set_alias now k d ix = Some ix' \<and> index_inv ix'"
proof -
  obtain c where c: "mem_put ident_ttl now k d (ix_alias ix) = Some c"
    using mem.set_returns [of "ix_alias ix" ident_ttl now k d] assms(1) by (auto simp: index_inv_def)
  have "mem_inv c" "mem.agrees alias_ok c"
    using mem.set_inv [OF _ c] mem.agrees_set [OF _ _ c] assms by (auto simp: index_inv_def)
  with c assms(1) show ?thesis by (simp add: set_alias_def index_inv_def)
qed

datatype ident_op =
    AddAlias string alias_entry
  | RecordHit string string int
  | InvalidateAlias string
  | InvalidateMapping string string int
  | PutWork work
  | LookupAlias string
  | GetWork string int

fun ident_step :: "ident_env \<Rightarrow> time \<Rightarrow> ident_op \<Rightarrow> ident_index \<Rightarrow> ident_index option" where
  "ident_step ev now (AddAlias n e) ix = add_alias ev now n e ix"
| "ident_step ev now (RecordHit n s w) ix = record_hit ev now n s w ix"
| "ident_step ev now (InvalidateAlias n) ix = Some (invalidate_alias ev n ix)"
| "ident_step ev now (InvalidateMapping n s w) ix = map_option snd (invalidate_mapping ev now n s w ix)"
| "ident_step ev now (PutWork w) ix = put_work ev now w ix"
| "ident_step ev now (LookupAlias n) ix = Some (snd (lookup ev now n ix))"
| "ident_step ev now (GetWork s w) ix = Some (snd (get_work now s w ix))"

fun ident_run :: "ident_env \<Rightarrow> (time \<times> ident_op) list \<Rightarrow> ident_index \<Rightarrow> ident_index option" where
  "ident_run ev [] ix = Some ix"
| "ident_run ev ((now, op) # ops) ix = Option.bind (ident_step ev now op ix) (ident_run ev ops)"

definition new_index :: "int \<Rightarrow> int \<Rightarrow> int \<Rightarrow> ident_index" where
  "new_index na nw ng = \<lparr>ix_alias = new_mem_cache na ''identity_alias'' ident_ttl,
     ix_work = new_mem_cache nw ''identity_work'' ident_ttl, ix_graph = new_mem_cache ng ''identity_graph'' ident_ttl\<rparr>"

lemma new_index_inv: "0 < na \<Longrightarrow> 0 < nw \<Longrightarrow> index_inv (new_index na nw ng)"
  by (simp add: index_inv_def new_index_def mem_inv_new mem.agrees_def mem_holds_def) (simp add: new_mem_cache_def)

lemma add_alias_inv:
  assumes "index_inv ix"
  shows "\<exists>ix'. add_alias ev now name entry ix = Some ix' \<and> index_inv ix'"
proof -
  obtain d ix1 where g: "get_alias now (alias_key ev name) ix = (d, ix1)" by fastforce
  from get_alias_ok [OF assms g] set_alias_ok [of ix1 "alias_key ev name" "merge_alias entry d" now]
  obtain ix2 where "set_alias now (alias_key ev name) (merge_alias entry d) ix1 = Some ix2" "index_inv ix2"
    by (auto simp: alias_ok_merge)
  with assms g show ?thesis by (simp add: add_alias_def)
qed

lemma add_aliases_inv: "index_inv ix \<Longrightarrow> \<exists>ix'. add_aliases ev now xs ix = Some ix' \<and> index_inv ix'"
proof (induction xs arbitrary: ix)
  case (Cons x xs)
  obtain name entry where x: "x = (name, entry)" by fastforce
  from add_alias_inv [OF Cons.prems, of ev now name entry] obtain ix1 where
    "add_alias ev now name entry ix = Some ix1" "index_inv ix1" by blast
  with Cons.IH [of ix1] x show ?case by simp
qed simp

lemma ident_step_inv:
  assumes "index_inv ix"
  shows "\<exists>ix'. ident_step ev now op ix = Some ix' \<and> index_inv ix'"
proof (cases op)
  case (AddAlias n e)
  with add_alias_inv [OF assms] show ?thesis by simp
next
  case (RecordHit n s w)
  obtain d ix1 where g: "get_alias now (alias_key ev n) ix = (d, ix1)" by fastforce
  from get_alias_ok [OF assms g]
    set_alias_ok [of ix1 "alias_key ev n" "map (\<lambda>e. if al_ref e = (s, w) \<and> al_kind e = Fan then hit e else e) d" now]
  show ?thesis using RecordHit assms g by (auto simp: record_hit_def alias_ok_hits Let_def)
next
  case (InvalidateAlias n)
  have "mem.agrees alias_ok (snd (mem_delete (alias_key ev n) (ix_alias ix)))"
    using mem.agrees_delete [of alias_ok "ix_alias ix" "alias_key ev n" alias_ok] assms by (simp add: index_inv_def)
  with InvalidateAlias assms show ?thesis by (simp add: invalidate_alias_def index_inv_def mem_delete_inv)
next
  case (InvalidateMapping n s w)
  obtain d ix1 where g: "get_alias now (alias_key ev n) ix = (d, ix1)" by fastforce
  note ok = get_alias_ok [OF assms g]
  have "alias_ok (alias_key ev n) (filter (\<lambda>e. al_ref e \<noteq> (s, w)) d)"
    using ok by (auto simp: alias_ok_def distinct_map_filter)
  moreover have "mem.agrees alias_ok (snd (mem_delete (alias_key ev n) (ix_alias ix1)))"
    using mem.agrees_delete [of alias_ok "ix_alias ix1" "alias_key ev n" alias_ok] ok by (simp add: index_inv_def)
  ultimately show ?thesis
    using InvalidateMapping assms g ok set_alias_ok [of ix1 "alias_key ev n" "filter (\<lambda>e. al_ref e \<noteq> (s, w)) d" now]
    by (auto simp: invalidate_mapping_def Let_def index_inv_def mem_delete_inv)
next
  case (PutWork w)
  obtain c where c: "mem_put ident_ttl now (work_key (wk_source w) (wk_id w)) w (ix_work ix) = Some c"
    using mem.set_returns [of "ix_work ix" ident_ttl now "work_key (wk_source w) (wk_id w)" w] assms by (auto simp: index_inv_def)
  have "index_inv (ix\<lparr>ix_work := c\<rparr>)" using mem.set_inv [OF _ c] assms by (simp add: index_inv_def)
  from add_aliases_inv [OF this] PutWork c assms show ?thesis by (simp add: put_work_def)
next
  case (LookupAlias n)
  with assms get_alias_ok [OF assms, of now "alias_key ev n"] show ?thesis
    by (cases "get_alias now (alias_key ev n) ix") (simp add: lookup_def)
next
  case (GetWork s w)
  with assms show ?thesis
    by (cases "mem_get now (work_key s w) (ix_work ix)") (auto simp: get_work_def index_inv_def dest: mem_get_inv [of _ now "work_key s w"])
qed

lemma ident_run_inv: "index_inv ix \<Longrightarrow> \<exists>ix'. ident_run ev ops ix = Some ix' \<and> index_inv ix'"
proof (induction ops arbitrary: ix)
  case (Cons x ops)
  obtain now op where x: "x = (now, op)" by fastforce
  from ident_step_inv [OF Cons.prems, of ev now op] obtain ix1 where "ident_step ev now op ix = Some ix1" "index_inv ix1" by blast
  with Cons.IH [of ix1] x show ?case by simp
qed simp

text \<open>What is written is read while its time to live lasts.\<close>

lemma get_set_alias:
  assumes "index_inv ix" "set_alias t0 k d ix = Some ix'" "t - t0 \<le> 7 * 24 * 3600"
  shows "fst (get_alias t k ix') = d"
proof -
  obtain r c' where c: "mem_set t0 k (Some d) ident_ttl (ix_alias ix) = Some (r, c')" "ix' = ix\<lparr>ix_alias := c'\<rparr>"
    using assms(2) by (auto simp: set_alias_def mem_put_def)
  have "dget (mc_cache c') k = Some \<lparr>ce_value = Some d, ce_created = t0, ce_ttl = ident_ttl\<rparr>"
    using mem_set_dget(1) [OF _ c(1)] assms(1) by (simp add: index_inv_def ident_ttl_def)
  with c(2) assms(3) show ?thesis
    by (simp add: get_alias_def mem_get_def is_expired_def ident_ttl_def split_def)
qed

section \<open>The breadth-first construction\<close>

fun related :: "catalogue \<Rightarrow> nat \<Rightarrow> int \<Rightarrow> int \<Rightarrow> bool" where
  "related ct 0 a b \<longleftrightarrow> a = b"
| "related ct (Suc n) a b \<longleftrightarrow> (\<exists>c rels r. related ct n a c \<and> ct_relations ct c = Some rels \<and> r \<in> set rels \<and> counted r \<and> rel_id r = b)"

definition bfs_member :: "catalogue \<Rightarrow> int \<Rightarrow> int \<Rightarrow> bool" where
  "bfs_member ct bid m \<longleftrightarrow> (\<exists>n. 1 \<le> n \<and> n \<le> Suc max_depth \<and> related ct n bid m)"

lemma expand_members:
  "expand current depth seen rels (queue, members, edges) = (queue', members', edges') \<Longrightarrow>
     set members' = set members \<union> rel_id ` set (filter counted rels) \<and> (distinct members \<longrightarrow> distinct members') \<and>
     length members' \<le> length members + length rels"
proof -
  define f where "f = (\<lambda>r (queue, members, edges).
        (if depth + 1 \<le> max_depth \<and> rel_id r \<notin> set seen then queue @ [(rel_id r, depth + 1)] else queue,
         if rel_id r \<in> set members then members else members @ [rel_id r],
         dput current (get_or edges current [] @ [edge_of r]) edges))"
  have "fold f rs (queue, members, edges) = (queue', members', edges') \<Longrightarrow>
      set members' = set members \<union> rel_id ` set rs \<and> (distinct members \<longrightarrow> distinct members') \<and>
      length members' \<le> length members + length rs" for rs
  proof (induction rs arbitrary: queue members edges)
    case (Cons r rs)
    obtain q m e where f: "f r (queue, members, edges) = (q, m, e)" by (metis prod_cases3)
    have m: "set m = insert (rel_id r) (set members)" "distinct members \<longrightarrow> distinct m" "length m \<le> Suc (length members)"
      using f by (auto simp: f_def split: if_splits)
    from Cons.IH [of q m e] Cons.prems f m show ?case by auto
  qed simp
  from this [of "filter counted rels"] add_left_mono [OF length_filter_le [of counted rels], of "length members"]
  show "expand current depth seen rels (queue, members, edges) = (queue', members', edges') \<Longrightarrow> ?thesis"
    unfolding expand_def f_def [symmetric] using order_trans by blast
qed

lemma bfs_members:
  assumes "bfs ct bid queue seen members edges = Some (ms, es)"
    and "\<forall>(q, d) \<in> set queue. related ct d bid q" and "\<forall>m \<in> set members. bfs_member ct bid m" and "distinct members"
    and "length members < max_members + W" and "\<And>c rels. ct_relations ct c = Some rels \<Longrightarrow> length rels \<le> W"
  shows "(\<forall>m \<in> set ms. bfs_member ct bid m) \<and> distinct ms \<and> length ms < max_members + W"
  using assms
proof (induction ct bid queue seen members edges arbitrary: rule: bfs.induct)
  case (1 ct bid seen members edges)
  then show ?case by simp
next
  case (2 ct bid current depth queue seen members edges)
  show ?case
  proof (cases "length members \<ge> max_members")
    case True
    with "2.prems" show ?thesis by simp
  next
    case few: False
    show ?thesis
    proof (cases "current \<in> set seen \<or> depth > max_depth")
      case True
      with few "2.prems" "2.IH"(1) show ?thesis by simp
    next
      case False
      show ?thesis
      proof (cases "ct_relations ct current")
        case None
        with few False "2.prems" "2.IH"(2) show ?thesis by simp
      next
        case (Some rels)
        obtain q m e where st: "expand current depth (current # seen) rels (queue, members, edges) = (q, m, e)" by (metis prod_cases3)
        have step: "related ct (Suc depth) bid (rel_id r)" if "r \<in> set rels" "counted r" for r
          using "2.prems"(2) Some that by auto
        have new: "bfs_member ct bid (rel_id r)" if "r \<in> set rels" "counted r" for r
          unfolding bfs_member_def using step [OF that] False by (intro exI [of _ "Suc depth"]) simp
        have q: "\<forall>(x, d) \<in> set q. related ct d bid x"
          using expand_queue [OF st] "2.prems"(2) step by (auto split: if_splits)
        have m: "\<forall>x \<in> set m. bfs_member ct bid x" "distinct m"
          using expand_members [OF st] "2.prems"(3,4) new by auto
        have "length m < max_members + W"
          using expand_members [OF st] few "2.prems"(6) [OF Some] by linarith
        with "2.IH"(3) [OF few False Some _ refl] "2.prems" few False Some st q m show ?thesis
          by (auto split: if_splits)
      qed
    qed
  qed
qed

section \<open>The choice of an edition\<close>

lemma mem_get_again: "fst (mem_get now k (snd (mem_get now k' c))) = fst (mem_get now k c)"
  by (cases "dget (mc_cache c) k'"; cases "k = k'")
     (auto simp: mem_get_def dget_move_to_end split: option.splits)

lemma get_work_again: "fst (get_work now s w (snd (get_work now s' w' ix))) = fst (get_work now s w ix)"
  by (simp add: get_work_def Let_def split_def mem_get_again)

text \<open>The score of a member; a work that is not indexed has none.\<close>

definition member_score :: "ident_env \<Rightarrow> time \<Rightarrow> string list \<Rightarrow> ident_index \<Rightarrow> string \<times> int \<Rightarrow> nat" where
  "member_score ev now markers ix m =
     (case fst (get_work now (fst m) (snd m) ix) of None \<Rightarrow> 0 | Some wk \<Rightarrow> edition_score ev markers wk)"

lemma member_score_again:
  "member_score ev now markers (snd (get_work now s w ix)) m = member_score ev now markers ix m"
  by (simp add: member_score_def get_work_again)

lemma best_edition_max:
  "fst (best_edition ev now markers ms best score ix) =
     (if \<exists>m \<in> set ms. member_score ev now markers ix m > score
      then List.find (\<lambda>m. member_score ev now markers ix m = Max (member_score ev now markers ix ` set ms)) ms
      else best)"
proof (induction ms arbitrary: best score ix)
  case Nil
  then show ?case by simp
next
  case (Cons m ms)
  obtain s w where m: "m = (s, w)" by fastforce
  obtain r ix1 where g: "get_work now s w ix = (r, ix1)" by fastforce
  define f where "f = member_score ev now markers ix"
  have f1: "member_score ev now markers ix1 = f"
    using member_score_again [of ev now markers s w ix] g by (simp add: fun_eq_iff f_def)
  have step: "fst (best_edition ev now markers (m # ms) best score ix) =
      (if f m > score then fst (best_edition ev now markers ms (Some m) (f m) ix1)
       else fst (best_edition ev now markers ms best score ix1))"
    by (simp add: m g f_def member_score_def split: option.split)
  have "(if f m > score
         then if \<exists>x \<in> set ms. f x > f m then List.find (\<lambda>x. f x = Max (f ` set ms)) ms else Some m
         else if \<exists>x \<in> set ms. f x > score then List.find (\<lambda>x. f x = Max (f ` set ms)) ms else best) =
      (if \<exists>x \<in> set (m # ms). f x > score then List.find (\<lambda>x. f x = Max (f ` set (m # ms))) (m # ms) else best)"
  proof (cases "\<exists>x \<in> set ms. f x > f m")
    case True
    then obtain x where x: "x \<in> set ms" "f m < f x" by blast
    have le: "f x \<le> Max (f ` set ms)" using x(1) by simp
    have ge: "f m \<le> Max (f ` set ms)" using x(2) le by linarith
    have "Max (f ` set (m # ms)) = Max (f ` set ms)" using x ge by (cases "ms = []") (auto simp: max_absorb2)
    moreover have "f m \<noteq> Max (f ` set ms)" using x(2) le by linarith
    moreover have "f m > score \<Longrightarrow> \<exists>x \<in> set ms. f x > score" using x by (meson less_trans)
    ultimately show ?thesis using True by auto
  next
    case False
    then have le: "\<And>x. x \<in> set ms \<Longrightarrow> f x \<le> f m" by (meson not_less)
    then have "Max (f ` set (m # ms)) = f m" by (intro Max_eqI) auto
    moreover have "f m \<le> score \<Longrightarrow> \<not> (\<exists>x \<in> set ms. f x > score)" using le by fastforce
    ultimately show ?thesis using False by auto
  qed
  then show ?case unfolding step Cons f1 f_def [symmetric] .
qed

section \<open>Properties\<close>

definition demo_ident :: ident_env where
  "demo_ident = \<lparr>ie_norm = id, ie_md5 = id\<rparr>"

definition demo_cache :: "'v list \<Rightarrow> string list \<Rightarrow> 'v mem_cache" where
  "demo_cache vs ks = \<lparr>mc_cache = map (\<lambda>(k, v). (k, \<lparr>ce_value = Some v, ce_created = 0, ce_ttl = ident_ttl\<rparr>)) (zip ks vs),
     mc_maxsize = 9, mc_name = ''m'', mc_default_ttl = None, mc_hits = 0, mc_misses = 0, mc_sets = 0, mc_deletes = 0,
     mc_evictions = 0, mc_events = []\<rparr>"

definition demo_alias :: "int \<Rightarrow> alias_rec" where
  "demo_alias w = \<lparr>al_source = ''t'', al_work = w, al_kind = Official, al_lang = ''en'', al_hits = 1\<rparr>"

definition demo_work :: "int \<Rightarrow> string \<Rightarrow> work" where
  "demo_work w n = \<lparr>wk_source = ''t'', wk_id = w, wk_titles = [n], wk_aliases = [], wk_franchise = None\<rparr>"

definition demo_index :: ident_index where
  "demo_index = \<lparr>ix_alias = demo_cache [[demo_alias 1, demo_alias 2]] [''identity:v1:alias:x''],
     ix_work = demo_cache [demo_work 1 ''a'', demo_work 2 ''ab''] [work_key ''t'' 1, work_key ''t'' 2],
     ix_graph = demo_cache [GFranchise \<lparr>fr_key = ''f'', fr_name = ''f'', fr_members = [(''t'', 1), (''t'', 2)]\<rparr>] [franchise_key ''f'']\<rparr>"

lemma work_key_inject [simp]: "work_key s m = work_key s n \<longleftrightarrow> m = n"
  by (simp add: work_key_def)

lemma demo_index_inv: "index_inv demo_index"
  by (auto simp: index_inv_def demo_index_def demo_cache_def mem_inv_def mem.agrees_def mem_holds_def alias_ok_def
      demo_alias_def split: if_splits)

text \<open>C32: After any run of additions, hits, evictions and stored works on an index whose caches have room, everything
  returns, an alias lists a work at most once, and no alias stays fan-made with the two hits that promote it.\<close>

theorem alias_entries_sound:
  assumes "0 < na" "0 < nw"
  shows "\<exists>ix. ident_run ev ops (new_index na nw ng) = Some ix \<and>
    (let d = fst (lookup ev now name ix)
     in distinct (map al_ref d) \<and> (\<forall>e \<in> set d. al_kind e = Fan \<longrightarrow> al_hits e < fan_promote_hits))"
proof -
  obtain ix where ix: "ident_run ev ops (new_index na nw ng) = Some ix" "index_inv ix"
    using ident_run_inv [OF new_index_inv [OF assms], of ev ops ng] by blast
  obtain d ix1 where g: "get_alias now (alias_key ev name) ix = (d, ix1)" by fastforce
  from get_alias_ok [OF ix(2) g] g ix(1) show ?thesis
    by (auto simp: lookup_def alias_ok_def fan_promote_hits_def Let_def)
qed

theorem alias_entries_sound_witness:
  "\<exists>ix. ident_run demo_ident [(0, AddAlias ''x'' \<lparr>ae_source = ''tmdb'', ae_work = 1, ae_kind = Fan, ae_lang = ''en''\<rparr>),
        (1, RecordHit ''x'' ''tmdb'' 1)] (new_index 2 2 2) = Some ix \<and>
    (let d = fst (lookup demo_ident 2 ''x'' ix)
     in distinct (map al_ref d) \<and> (\<forall>e \<in> set d. al_kind e = Fan \<longrightarrow> al_hits e < fan_promote_hits))"
  by (rule alias_entries_sound) simp_all

text \<open>Evicting one mapping of an alias removes exactly that work: for the life of the entry the alias lists the works
  it listed before, in order, without it.\<close>

theorem mapping_evicted:
  assumes "index_inv ix" and "strip name \<noteq> []" and "invalidate_mapping ev t0 name source w ix = Some (b, ix')"
    and "t0 \<le> t" "t - t0 \<le> 7 * 24 * 3600" and "b"
  shows "fst (lookup ev t name ix') = filter (\<lambda>e. al_ref e \<noteq> (source, w)) (fst (lookup ev t0 name ix))"
proof -
  obtain d ix1 where g: "get_alias t0 (alias_key ev name) ix = (d, ix1)" by fastforce
  define kept where "kept = filter (\<lambda>e. al_ref e \<noteq> (source, w)) d"
  have ok: "index_inv ix1" using get_alias_ok [OF assms(1) g] ..
  have "fst (get_alias t (alias_key ev name) ix') = kept"
  proof (cases "kept = []")
    case True
    then have "ix' = ix1\<lparr>ix_alias := snd (mem_delete (alias_key ev name) (ix_alias ix1))\<rparr>"
      using assms(2,3,6) g by (auto simp: invalidate_mapping_def kept_def [symmetric] Let_def split: if_splits)
    then have "mem_holds (ix_alias ix') (alias_key ev name) = None" by (simp add: mem_delete_holds)
    moreover have "mem_inv (ix_alias ix')"
      using \<open>ix' = _\<close> ok by (simp add: index_inv_def mem_delete_inv)
    ultimately have "fst (mem_get t (alias_key ev name) (ix_alias ix')) = None"
      using mem.get_value [of "ix_alias ix'" t "alias_key ev name"] by (cases "fst (mem_get t (alias_key ev name) (ix_alias ix'))") auto
    with True show ?thesis by (simp add: get_alias_def split_def)
  next
    case False
    then have "set_alias t0 (alias_key ev name) kept ix1 = Some ix'"
      using assms(2,3,6) g by (auto simp: invalidate_mapping_def kept_def [symmetric] Let_def split: if_splits)
    from get_set_alias [OF ok this assms(5)] show ?thesis .
  qed
  with assms(2) g show ?thesis by (simp add: lookup_def kept_def)
qed

theorem mapping_evicted_witness:
  "\<exists>ix'. invalidate_mapping demo_ident 1 ''x'' ''t'' 1 demo_index = Some (True, ix') \<and>
     map al_ref (fst (lookup demo_ident 2 ''x'' ix')) = [(''t'', 2)]"
proof -
  have inv: "index_inv demo_index" by (simp add: demo_index_inv)
  have key: "alias_key demo_ident ''x'' = ''identity:v1:alias:x''" "strip ''x'' = ''x''"
    by (simp_all add: alias_key_def demo_ident_def strip_def lstrip_def is_space_def ord_def)
  define d where "d = fst (lookup demo_ident 1 ''x'' demo_index)"
  have d: "map al_ref d = [(''t'', 1), (''t'', 2)]"
    by (simp add: d_def lookup_def key get_alias_def demo_index_def demo_cache_def mem_get_def is_expired_def ident_ttl_def demo_alias_def)
  obtain ix' where ix': "invalidate_mapping demo_ident 1 ''x'' ''t'' 1 demo_index = Some (True, ix')"
  proof -
    obtain d1 ix1 where g: "get_alias 1 (alias_key demo_ident ''x'') demo_index = (d1, ix1)" by fastforce
    have "d1 = d" using g by (simp add: d_def lookup_def key)
    then obtain e1 e2 where e: "d1 = [e1, e2]" "al_ref e1 = (''t'', 1)" "al_ref e2 = (''t'', 2)" using d by auto
    obtain ix2 where "set_alias 1 (alias_key demo_ident ''x'') [e2] ix1 = Some ix2"
      using set_alias_ok [of ix1 "alias_key demo_ident ''x''" "[e2]" 1] get_alias_ok [OF inv g] e(1)
      by (auto simp: alias_ok_def)
    with g e have "invalidate_mapping demo_ident 1 ''x'' ''t'' 1 demo_index = Some (True, ix2)"
      by (simp add: invalidate_mapping_def key)
    then show thesis by (rule that)
  qed
  have "fst (lookup demo_ident 2 ''x'' ix') = filter (\<lambda>e. al_ref e \<noteq> (''t'', 1)) d"
    unfolding d_def by (rule mapping_evicted [OF inv _ ix']) (simp_all add: key)
  moreover have "map al_ref (filter (\<lambda>e. al_ref e \<noteq> (''t'', 1)) d) = [(''t'', 2)]"
    using d by (auto simp: map_eq_Cons_conv)
  ultimately show ?thesis using ix' by auto
qed

text \<open>The construction of a franchise graph ends for every catalogue. Its members are distinct subjects within three
  relations of the first one, and they exceed the limit of thirty by less than the relations of one
  subject.\<close>

theorem franchise_members:
  assumes "bfs ct bid [(bid, 0)] [] [] [] = Some (ms, es)"
    and "\<And>c rels. ct_relations ct c = Some rels \<Longrightarrow> length rels \<le> W"
  shows "(\<forall>m \<in> set ms. bfs_member ct bid m) \<and> distinct ms \<and> length ms < max_members + W"
  by (rule bfs_members [OF assms(1)]) (use assms(2) in \<open>auto simp: max_members_def\<close>)

theorem franchise_members_witness:
  "\<exists>ms es. bfs \<lparr>ct_relations = \<lambda>c. Some (if c = 1 then [\<lparr>rel_type = 2, rel_id = 2, rel_name = [], rel_cn = [], rel_kind = []\<rparr>] else []),
        ct_detail = \<lambda>_. None\<rparr> 1 [(1, 0)] [] [] [] = Some (ms, es) \<and> ms = [2] \<and> length ms < max_members + 1"
proof -
  define ct where "ct = \<lparr>ct_relations = \<lambda>c. Some (if c = 1 then [\<lparr>rel_type = 2, rel_id = 2, rel_name = [], rel_cn = [], rel_kind = []\<rparr>] else []),
        ct_detail = \<lambda>_. None\<rparr>"
  obtain es where b: "bfs ct 1 [(1, 0)] [] [] [] = Some ([2], es)"
    by (simp add: ct_def max_members_def max_depth_def expand_def counted_def)
  have "length rels \<le> 1" if "ct_relations ct c = Some rels" for c rels using that by (auto simp: ct_def)
  from franchise_members [OF b this] b show ?thesis by (simp add: ct_def)
qed

text \<open>The edition chosen for the markers of a title is the first member of the franchise with the highest score, and
  none is chosen when no member has a marker in its names.\<close>

theorem find_edition_best:
  assumes "get_franchise now file k g = Some (Some fr, g1)" and "markers \<noteq> []" "\<And>m. m \<in> set markers \<Longrightarrow> m \<noteq> []"
    and "find_edition ev now file k markers g = Some (best, g2)"
  shows "best = (let f = member_score ev now (map (squeeze ev) markers) (eg_index g1); ms = fr_members fr
     in if \<exists>m \<in> set ms. 0 < f m then List.find (\<lambda>m. f m = Max (f ` set ms)) ms else None)"
proof -
  have "filter (\<lambda>m. m \<noteq> []) markers = markers" using assms(3) by (simp add: filter_id_conv)
  with assms(1,2,4) have "best = fst (best_edition ev now (map (squeeze ev) markers) (fr_members fr) None 0 (eg_index g1))"
    by (auto simp: find_edition_def Let_def split: prod.splits)
  then show ?thesis unfolding best_edition_max Let_def .
qed

theorem find_edition_best_witness:
  "\<exists>g2. find_edition demo_ident 1 [] ''f'' [''b''] \<lparr>eg_index = demo_index, eg_loaded = True\<rparr> = Some (Some (''t'', 2), g2)"
proof -
  define g where "g = \<lparr>eg_index = demo_index, eg_loaded = True\<rparr>"
  define fr where "fr = \<lparr>fr_key = ''f'', fr_name = ''f'', fr_members = [(''t'', 1), (''t'', 2)]\<rparr>"
  obtain g1 where f: "get_franchise 1 [] ''f'' g = Some (Some fr, g1)" and works: "ix_work (eg_index g1) = ix_work demo_index"
    by (simp add: get_franchise_def ensure_overrides_def g_def index_franchise_def demo_index_def demo_cache_def mem_get_def
        is_expired_def ident_ttl_def fr_def)
  obtain best g2 where e: "find_edition demo_ident 1 [] ''f'' [''b''] g = Some (best, g2)"
    using f by (simp add: find_edition_def Let_def split_def)
  define sc where "sc = member_score demo_ident 1 (map (squeeze demo_ident) [''b'']) (eg_index g1)"
  have sc: "sc (''t'', 1) = 0" "sc (''t'', 2) = 1"
    by (simp_all add: sc_def member_score_def get_work_def works demo_index_def demo_cache_def mem_get_def is_expired_def
        ident_ttl_def edition_score_def demo_work_def all_name_strings_def squeeze_def demo_ident_def contains_def
        char_len_def ord_def sublist_Cons_right)
  have "best = (if \<exists>m \<in> set (fr_members fr). 0 < sc m then List.find (\<lambda>m. sc m = Max (sc ` set (fr_members fr))) (fr_members fr) else None)"
    using find_edition_best [OF f _ _ e] by (simp add: sc_def Let_def)
  then have "best = Some (''t'', 2)" by (simp add: fr_def sc)
  with e show ?thesis by (simp add: g_def)
qed

end
