(* ===== verification/Paths.thy ===== *)
theory Paths
  imports PyVal
begin

text \<open>
  File paths as the modelled services use them: the functions of the standard library's \<open>posixpath\<close>
  (\<open>dirname\<close>, \<open>basename\<close>, \<open>join\<close>, \<open>splitext\<close>, \<open>normpath\<close>) and the helpers of
  \<open>utils/path_utils.py\<close> and \<open>services/transfer/library_rename_backend.py\<close> over them. A path is a byte
  string. A component is \<open>plain\<close> when it names an entry of a directory.
\<close>

section \<open>Parts of a path\<close>

definition rstrip_slash :: "string \<Rightarrow> string" where
  "rstrip_slash s = rev (dropWhile (\<lambda>c. c = CHR ''/'') (rev s))"

definition os_join :: "string \<Rightarrow> string \<Rightarrow> string" where
  "os_join a b = (if startswith b ''/'' then b else if a = [] \<or> endswith a ''/'' then a @ b else a @ ''/'' @ b)"

definition basename :: "string \<Rightarrow> string" where
  "basename p = rev (takeWhile (\<lambda>c. c \<noteq> CHR ''/'') (rev p))"

definition dirname :: "string \<Rightarrow> string" where
  "dirname p =
     (let head = rev (dropWhile (\<lambda>c. c \<noteq> CHR ''/'') (rev p))
      in if rstrip_slash head = [] then head else rstrip_slash head)"

text \<open>\<open>PathUtils.join_path\<close> of a POSIX base and one part.\<close>

definition join_path :: "string \<Rightarrow> string \<Rightarrow> string" where
  "join_path base part =
     (if base = [] then []
      else if part = [] then base
      else (if endswith base ''/'' \<or> endswith base [CHR 0x5C] then base else base @ ''/'') @
           dropWhile (\<lambda>c. c = CHR ''/'' \<or> c = CHR 0x5C) part)"

text \<open>\<open>os.path.splitext\<close>: the last dot of the last component, unless only dots precede it.\<close>

definition splitext :: "string \<Rightarrow> string \<times> string" where
  "splitext p =
     (let b = basename p; n = length (takeWhile (\<lambda>c. c \<noteq> CHR ''.'') (rev b)); stem = take (length b - n - 1) b
      in if CHR ''.'' \<in> set b \<and> (\<exists>c \<in> set stem. c \<noteq> CHR ''.'')
         then (take (length p - n - 1) p, drop (length p - n - 1) p) else (p, []))"

section \<open>Normal form\<close>

text \<open>One step of the loop of \<open>normpath\<close> over the components, the result so far in reverse order.\<close>

definition norm_step :: "bool \<Rightarrow> string \<Rightarrow> string list \<Rightarrow> string list" where
  "norm_step rooted c acc =
     (if c = [] \<or> c = ''.'' then acc
      else if c \<noteq> ''..'' \<or> (\<not> rooted \<and> acc = []) \<or> (acc \<noteq> [] \<and> hd acc = ''..'') then c # acc
      else tl acc)"

definition norm_comps :: "bool \<Rightarrow> string \<Rightarrow> string list" where
  "norm_comps rooted p = rev (fold (norm_step rooted) (split_on (CHR ''/'') p) [])"

definition slashes :: "string \<Rightarrow> string" where
  "slashes p = (if startswith p ''//'' \<and> \<not> startswith p ''///'' then ''//'' else if startswith p ''/'' then ''/'' else [])"

definition normpath :: "string \<Rightarrow> string" where
  "normpath p =
     (let r = slashes p @ join ''/'' (norm_comps (slashes p \<noteq> []) p) in if r = [] then ''.'' else r)"

text \<open>\<open>norm_path\<close> of the library rename, and \<open>PathUtils.is_path_in_path\<close>: the search climbs from the second path and stops
  short of the root.\<close>

definition norm_path :: "string \<Rightarrow> string" where
  "norm_path p = normpath (replace_char (CHR 0x5C) (CHR ''/'') p)"

lemma rstrip_slash_length: "length (rstrip_slash s) \<le> length s"
  using length_dropWhile_le [of _ "rev s"] by (simp add: rstrip_slash_def)

lemma rstrip_slash_prefix: "\<exists>t. s = rstrip_slash s @ t \<and> set t \<subseteq> {CHR ''/''}"
proof -
  let ?P = "\<lambda>c. c = CHR ''/''"
  have "s = rev (dropWhile ?P (rev s)) @ rev (takeWhile ?P (rev s))"
    by (metis rev_append rev_rev_ident takeWhile_dropWhile_id)
  moreover have "set (rev (takeWhile ?P (rev s))) \<subseteq> {CHR ''/''}" by (auto dest: set_takeWhileD)
  ultimately show ?thesis unfolding rstrip_slash_def by blast
qed

lemma head_basename: "\<exists>h. p = h @ basename p \<and> (h = [] \<or> last h = CHR ''/'') \<and>
    dirname p = (if rstrip_slash h = [] then h else rstrip_slash h)"
proof -
  let ?P = "\<lambda>c. c \<noteq> CHR ''/''"
  let ?h = "rev (dropWhile ?P (rev p))"
  have "p = ?h @ basename p"
    unfolding basename_def by (metis rev_append rev_rev_ident takeWhile_dropWhile_id)
  moreover have "?h = [] \<or> last ?h = CHR ''/''"
    by (cases "dropWhile ?P (rev p)") (auto simp: last_rev dest: dropWhile_eq_Cons_conv [THEN iffD1])
  moreover have "dirname p = (if rstrip_slash ?h = [] then ?h else rstrip_slash ?h)"
    by (simp add: dirname_def Let_def)
  ultimately show ?thesis by blast
qed

lemma dirname_length: "length (dirname p) \<le> length p"
proof -
  obtain h where "p = h @ basename p" "dirname p = (if rstrip_slash h = [] then h else rstrip_slash h)"
    using head_basename by blast
  then have "length (dirname p) \<le> length h" "length h \<le> length p"
    using rstrip_slash_length [of h] by (simp_all, metis le_add1 length_append)
  then show ?thesis by linarith
qed

lemma dirname_shrinks: "length (dirname p) = length p \<Longrightarrow> dirname p = p"
proof -
  assume len: "length (dirname p) = length p"
  obtain h where p: "p = h @ basename p" and d: "dirname p = (if rstrip_slash h = [] then h else rstrip_slash h)"
    using head_basename by blast
  have "length h \<le> length p" by (subst p) simp
  with len d rstrip_slash_length [of h] have "length h = length p" by (simp split: if_splits)
  with p have "h = p" by (metis append_Nil2 append_eq_append_conv length_append_singleton length_0_conv self_append_conv add_cancel_left_right length_append)
  with d len rstrip_slash_prefix [of p] show "dirname p = p"
    by (metis append_Nil2 append_eq_append_conv length_append add_cancel_right_right length_0_conv)
qed

function climb :: "string \<Rightarrow> string \<Rightarrow> bool" where
  "climb target path =
     (if path = target then True
      else let up = dirname path in if up = dirname up then False else climb target up)"
  by pat_completeness auto
termination
proof (relation "measure (\<lambda>(target, path). length path)")
  fix target path up
  assume "path \<noteq> target" and up: "up = dirname path" and "up \<noteq> dirname up"
  then have "dirname path \<noteq> path" by auto
  with dirname_length [of path] dirname_shrinks [of path] have "length (dirname path) < length path" by fastforce
  with up show "((target, up), target, path) \<in> measure (\<lambda>(target, path). length path)" by simp
qed simp

declare climb.simps [simp del]

definition is_path_in_path :: "string \<Rightarrow> string \<Rightarrow> bool" where
  "is_path_in_path path1 path2 =
     (if path1 = [] \<or> path2 = [] then False
      else let a = replace_char (CHR 0x5C) (CHR ''/'') (normpath path1);
               b = replace_char (CHR 0x5C) (CHR ''/'') (normpath path2)
           in a = b \<or> climb a (dirname b))"

text \<open>\<open>os.path.relpath\<close>; the working directory is the root.\<close>

fun common_length :: "'a list \<Rightarrow> 'a list \<Rightarrow> nat" where
  "common_length (x # xs) (y # ys) = (if x = y then Suc (common_length xs ys) else 0)"
| "common_length _ _ = 0"

definition relpath :: "string \<Rightarrow> string \<Rightarrow> string" where
  "relpath p start =
     (let s = norm_comps True start; t = norm_comps True p; i = common_length s t;
          parts = replicate (length s - i) ''..'' @ drop i t
      in if parts = [] then ''.'' else join ''/'' parts)"

section \<open>Components\<close>

definition plain :: "string \<Rightarrow> bool" where
  "plain n \<longleftrightarrow> n \<noteq> [] \<and> n \<noteq> ''.'' \<and> n \<noteq> ''..'' \<and> CHR ''/'' \<notin> set n"

lemma norm_step_plain [simp]: "plain n \<Longrightarrow> norm_step rooted n acc = n # acc"
  by (simp add: norm_step_def plain_def)

lemma norm_step_Nil [simp]: "norm_step rooted [] acc = acc"
  by (simp add: norm_step_def)

lemma split_on_append:
  "split_on c (a @ c # b) = split_on c a @ split_on c b"
proof (induction a)
  case (Cons x a)
  then show ?case by (cases "split_on c a") auto
qed simp

lemma split_on_join:
  "ps \<noteq> [] \<Longrightarrow> \<forall>p \<in> set ps. c \<notin> set p \<Longrightarrow> split_on c (join [c] ps) = ps"
proof (induction "[c]" ps rule: join.induct)
  case (2 p)
  then show ?case by (simp add: split_on_no_sep)
next
  case (3 p q ps)
  then show ?case by (simp add: split_on_sep)
qed simp

lemma split_on_parts: "p \<in> set (split_on c s) \<Longrightarrow> c \<notin> set p"
  by (induction c s arbitrary: p rule: split_on.induct) (auto split: list.splits if_splits)

lemma basename_no_slash: "CHR ''/'' \<notin> set (basename p)"
  by (auto simp: basename_def dest: set_takeWhileD)

lemma basename_append: "h = [] \<or> last h = CHR ''/'' \<Longrightarrow> CHR ''/'' \<notin> set b \<Longrightarrow> basename (h @ b) = b"
proof -
  assume h: "h = [] \<or> last h = CHR ''/''" and b: "CHR ''/'' \<notin> set b"
  have "takeWhile (\<lambda>c. c \<noteq> CHR ''/'') (rev b @ rev h) = rev b @ takeWhile (\<lambda>c. c \<noteq> CHR ''/'') (rev h)"
    using b by (intro takeWhile_append2) auto
  moreover have "takeWhile (\<lambda>c. c \<noteq> CHR ''/'') (rev h) = []" using h by (cases h rule: rev_cases) auto
  ultimately show ?thesis by (simp add: basename_def)
qed

lemma fold_norm_slashes:
  "set t \<subseteq> {CHR ''/''} \<Longrightarrow> fold (norm_step rooted) (split_on (CHR ''/'') (s @ t)) acc =
     fold (norm_step rooted) (split_on (CHR ''/'') s) acc"
proof (induction t rule: rev_induct)
  case (snoc x t)
  then have "x = CHR ''/''" and "fold (norm_step rooted) (split_on (CHR ''/'') (s @ t)) acc =
     fold (norm_step rooted) (split_on (CHR ''/'') s) acc" by auto
  then show ?case using split_on_append [of "CHR ''/''" "s @ t" "[]"] by simp
qed simp

text \<open>The last component goes on top of what the directory has.\<close>

lemma norm_comps_last:
  assumes "plain (basename p)"
  shows "norm_comps rooted p = norm_comps rooted (dirname p) @ [basename p]"
proof -
  obtain h where p: "p = h @ basename p" and h: "h = [] \<or> last h = CHR ''/''"
    and d: "dirname p = (if rstrip_slash h = [] then h else rstrip_slash h)"
    using head_basename by blast
  let ?b = "basename p"
  have b: "CHR ''/'' \<notin> set ?b" by (rule basename_no_slash)
  have "norm_comps rooted (h @ ?b) = norm_comps rooted h @ [?b]"
  proof (cases "h = []")
    case True
    then show ?thesis using assms b by (simp add: norm_comps_def split_on_no_sep)
  next
    case False
    with h obtain g where g: "h = g @ [CHR ''/'']" by (metis append_butlast_last_id)
    have "split_on (CHR ''/'') (h @ ?b) = split_on (CHR ''/'') g @ [?b]"
      using split_on_append [of "CHR ''/''" g "?b"] b by (simp add: g split_on_no_sep)
    moreover have "split_on (CHR ''/'') h = split_on (CHR ''/'') g @ [[]]"
      using split_on_append [of "CHR ''/''" g "[]"] by (simp add: g)
    ultimately show ?thesis using assms by (simp add: norm_comps_def)
  qed
  moreover have "norm_comps rooted (dirname p) = norm_comps rooted h"
  proof (cases "rstrip_slash h = []")
    case False
    obtain t where "h = rstrip_slash h @ t" "set t \<subseteq> {CHR ''/''}" using rstrip_slash_prefix by blast
    then show ?thesis using d False fold_norm_slashes [of t rooted "rstrip_slash h"] by (simp add: norm_comps_def)
  qed (simp add: d)
  ultimately show ?thesis using p by simp
qed

lemma os_join_parts:
  assumes "plain n"
  shows "basename (os_join d n) = n" and "norm_comps rooted (os_join d n) = norm_comps rooted d @ [n]"
proof -
  have n: "CHR ''/'' \<notin> set n" "n \<noteq> []" "\<not> startswith n ''/''"
    using assms by (auto simp: plain_def startswith_def prefix_def)
  define h where "h = (if d = [] \<or> endswith d ''/'' then d else d @ ''/'')"
  have j: "os_join d n = h @ n" using n by (simp add: os_join_def h_def)
  have h: "h = [] \<or> last h = CHR ''/''" by (auto simp: h_def endswith_def suffix_def)
  show b: "basename (os_join d n) = n" unfolding j by (rule basename_append [OF h n(1)])
  have "norm_comps rooted (h @ n) = norm_comps rooted h @ [n]"
  proof (cases "h = []")
    case True
    then show ?thesis using assms n by (simp add: norm_comps_def split_on_no_sep)
  next
    case False
    with h obtain g where g: "h = g @ [CHR ''/'']" by (metis append_butlast_last_id)
    have "split_on (CHR ''/'') (h @ n) = split_on (CHR ''/'') g @ [n]"
      using split_on_append [of "CHR ''/''" g n] n by (simp add: g split_on_no_sep)
    moreover have "split_on (CHR ''/'') h = split_on (CHR ''/'') g @ [[]]"
      using split_on_append [of "CHR ''/''" g "[]"] by (simp add: g)
    ultimately show ?thesis using assms by (simp add: norm_comps_def)
  qed
  moreover have "norm_comps rooted h = norm_comps rooted d"
    using fold_norm_slashes [of "''/''" rooted d] by (auto simp: h_def norm_comps_def)
  ultimately show "norm_comps rooted (os_join d n) = norm_comps rooted d @ [n]" by (simp add: j)
qed

text \<open>What the components of a normal form look like: plain ones after a run of \<open>..\<close>, which a rooted path does not
  have.\<close>

definition normal_stack :: "bool \<Rightarrow> string list \<Rightarrow> bool" where
  "normal_stack rooted acc \<longleftrightarrow>
     (\<exists>ns k. acc = ns @ replicate k ''..'' \<and> (\<forall>n \<in> set ns. plain n) \<and> (rooted \<longrightarrow> k = 0))"

lemma normal_stack_step:
  assumes "normal_stack rooted acc" and "CHR ''/'' \<notin> set c"
  shows "normal_stack rooted (norm_step rooted c acc)"
proof -
  from assms(1) obtain ns k where a: "acc = ns @ replicate k ''..''" "\<forall>n \<in> set ns. plain n" "rooted \<longrightarrow> k = 0"
    by (auto simp: normal_stack_def)
  show ?thesis
  proof (cases "c = [] \<or> c = ''.''")
    case True
    then show ?thesis using assms(1) by (auto simp: norm_step_def)
  next
    case nontrivial: False
    show ?thesis
    proof (cases "c = ''..''")
      case False
      with nontrivial assms(2) have "plain c" by (simp add: plain_def)
      with a show ?thesis unfolding normal_stack_def
        by (intro exI [of _ "c # ns"] exI [of _ k]) simp
    next
      case True
      show ?thesis
      proof (cases ns)
        case Nil
        then show ?thesis
        proof (cases "k = 0")
          case True
          with a Nil \<open>c = ''..''\<close> have "norm_step rooted c acc = [] @ replicate (if rooted then 0 else 1) ''..''"
            by (simp add: norm_step_def)
          then show ?thesis unfolding normal_stack_def
            by (intro exI [of _ "[]"] exI [of _ "if rooted then 0 else 1"]) simp
        next
          case False
          with a Nil \<open>c = ''..''\<close> have "norm_step rooted c acc = replicate (Suc k) ''..''" "\<not> rooted"
            by (auto simp: norm_step_def hd_replicate)
          then show ?thesis unfolding normal_stack_def by (intro exI [of _ "[]"] exI [of _ "Suc k"]) simp
        qed
      next
        case (Cons n ms)
        with a have "n \<noteq> ''..''" by (auto simp: plain_def)
        with a Cons \<open>c = ''..''\<close> have "norm_step rooted c acc = ms @ replicate k ''..''" by (auto simp: norm_step_def)
        with a Cons show ?thesis unfolding normal_stack_def by (intro exI [of _ ms] exI [of _ k]) simp
      qed
    qed
  qed
qed

lemma normal_stack_fold:
  "normal_stack rooted acc \<Longrightarrow> \<forall>c \<in> set cs. CHR ''/'' \<notin> set c \<Longrightarrow> normal_stack rooted (fold (norm_step rooted) cs acc)"
  by (induction cs arbitrary: acc) (simp_all add: normal_stack_step)

lemma norm_comps_shape:
  obtains ns k where "norm_comps rooted p = replicate k ''..'' @ ns" "\<forall>n \<in> set ns. plain n" "rooted \<longrightarrow> k = 0"
proof -
  have "normal_stack rooted []" by (auto simp: normal_stack_def)
  then have "normal_stack rooted (fold (norm_step rooted) (split_on (CHR ''/'') p) [])"
    by (rule normal_stack_fold) (auto dest: split_on_parts)
  then obtain ns k where "fold (norm_step rooted) (split_on (CHR ''/'') p) [] = ns @ replicate k ''..''"
    "\<forall>n \<in> set ns. plain n" "rooted \<longrightarrow> k = 0" by (auto simp: normal_stack_def)
  then show thesis by (intro that [of k "rev ns"]) (simp_all add: norm_comps_def)
qed

lemma fold_dots: "(norm_step True ''..'' ^^ k) [] = []"
  by (induction k) (simp_all add: norm_step_def)

lemma join_no_slash_last:
  assumes "ps \<noteq> []"
  shows "\<exists>h. join ''/'' ps = h @ last ps \<and> (h = [] \<or> last h = CHR ''/'')"
  using assms
proof (induction "''/''" ps rule: join.induct)
  case (3 p q ps)
  then obtain h where "join ''/'' (q # ps) = h @ last (q # ps)" "h = [] \<or> last h = CHR ''/''" by auto
  then show ?case by (intro exI [of _ "p @ ''/'' @ h"]) auto
qed auto

text \<open>A path in normal form either names an entry of its directory or is the root, seen from the root.\<close>

lemma normpath_cases: "plain (basename (normpath p)) \<or> norm_comps True (normpath p) = []"
proof -
  define s where "s = slashes p"
  obtain ns k where cs: "norm_comps (s \<noteq> []) p = replicate k ''..'' @ ns" and ns: "\<forall>n \<in> set ns. plain n"
    and k: "s \<noteq> [] \<longrightarrow> k = 0" by (rule norm_comps_shape)
  have s: "s = [] \<or> last s = CHR ''/''" "set s \<subseteq> {CHR ''/''}" by (auto simp: s_def slashes_def)
  define r where "r = s @ join ''/'' (replicate k ''..'' @ ns)"
  have np: "normpath p = (if r = [] then ''.'' else r)"
    using cs by (simp add: normpath_def Let_def r_def s_def)
  show ?thesis
  proof (cases "ns = []")
    case False
    then obtain h where j: "join ''/'' (replicate k ''..'' @ ns) = h @ last ns" "h = [] \<or> last h = CHR ''/''"
      using join_no_slash_last [of "replicate k ''..'' @ ns"] by auto
    have pl: "plain (last ns)" using ns False by simp
    have "basename ((s @ h) @ last ns) = last ns"
    proof (rule basename_append)
      show "s @ h = [] \<or> last (s @ h) = CHR ''/''" using s(1) j(2) by (cases "h = []") auto
    qed (use pl in \<open>simp add: plain_def\<close>)
    moreover have r: "r = (s @ h) @ last ns" by (simp add: r_def j)
    moreover have "normpath p = r" using pl np by (simp add: r plain_def)
    ultimately have "basename (normpath p) = last ns" by simp
    then show ?thesis using pl by simp
  next
    case True
    have "norm_comps True (normpath p) = []"
    proof (cases "k = 0")
      case True
      with \<open>ns = []\<close> have r: "r = s" by (simp add: r_def)
      have "norm_comps True s = []" using fold_norm_slashes [OF s(2), of True "[]" "[]"] by (simp add: norm_comps_def)
      then show ?thesis using np r by (auto simp: norm_comps_def norm_step_def)
    next
      case False
      with k True have r: "r = join ''/'' (replicate k ''..'')" by (auto simp: r_def)
      have "split_on (CHR ''/'') (join ''/'' (replicate k ''..'')) = replicate k ''..''"
        by (rule split_on_join) (use False in auto)
      then have "norm_comps True r = []" by (simp add: norm_comps_def r fold_dots)
      moreover have "r \<noteq> []" using False by (cases k rule: nat.exhaust; cases "k - 1") (auto simp: r)
      ultimately show ?thesis using np by simp
    qed
    then show ?thesis ..
  qed
qed

lemma normpath_nonempty [simp]: "normpath p \<noteq> []"
  by (simp add: normpath_def Let_def)

lemma norm_path_nonempty [simp]: "norm_path p \<noteq> []"
  by (simp add: norm_path_def)

section \<open>Places\<close>

text \<open>Seen from the root, a path and its normal form are the same place.\<close>

definition undotted :: "string list \<Rightarrow> string list" where
  "undotted acc = takeWhile (\<lambda>n. n \<noteq> ''..'') acc"

lemma undotted_stack: "\<forall>n \<in> set ns. plain n \<Longrightarrow> undotted (ns @ replicate k ''..'') = ns"
  unfolding undotted_def by (subst takeWhile_append2) (auto simp: plain_def takeWhile_replicate)

lemma norm_step_rooted:
  assumes "normal_stack False acc" and "CHR ''/'' \<notin> set c"
  shows "norm_step True c (undotted acc) = undotted (norm_step False c acc)"
proof -
  from assms(1) obtain ns k where a: "acc = ns @ replicate k ''..''" "\<forall>n \<in> set ns. plain n"
    by (auto simp: normal_stack_def)
  show ?thesis
  proof (cases "c = [] \<or> c = ''.''")
    case False
    show ?thesis
    proof (cases "c = ''..''")
      case True
      show ?thesis
      proof (cases ns)
        case Nil
        then show ?thesis using a True by (cases k) (simp_all add: norm_step_def undotted_def)
      next
        case (Cons n ms)
        then have "n \<noteq> ''..''" using a by (auto simp: plain_def)
        then show ?thesis using a True Cons by (auto simp: norm_step_def undotted_def)
      qed
    next
      case False
      with \<open>\<not> (c = [] \<or> c = ''.'')\<close> assms(2) have "plain c" by (simp add: plain_def)
      then show ?thesis using \<open>c \<noteq> ''..''\<close> by (simp add: undotted_def)
    qed
  qed (auto simp: norm_step_def)
qed

lemma fold_rooted:
  "normal_stack False acc \<Longrightarrow> \<forall>c \<in> set cs. CHR ''/'' \<notin> set c \<Longrightarrow>
     fold (norm_step True) cs (undotted acc) = undotted (fold (norm_step False) cs acc)"
  by (induction cs arbitrary: acc) (simp_all add: norm_step_rooted normal_stack_step)

lemma fold_plain: "\<forall>n \<in> set ns. plain n \<Longrightarrow> fold (norm_step rooted) ns acc = rev ns @ acc"
  by (induction ns arbitrary: acc) simp_all

lemma fold_slashes_first:
  "set t \<subseteq> {CHR ''/''} \<Longrightarrow> fold (norm_step rooted) (split_on (CHR ''/'') (t @ q)) acc =
     fold (norm_step rooted) (split_on (CHR ''/'') q) acc"
  by (induction t) simp_all

lemma norm_comps_normpath: "norm_comps True (normpath p) = norm_comps True p"
proof -
  define s where "s = slashes p"
  obtain ns k where cs: "norm_comps (s \<noteq> []) p = replicate k ''..'' @ ns" and ns: "\<forall>n \<in> set ns. plain n"
    and k: "s \<noteq> [] \<longrightarrow> k = 0" by (rule norm_comps_shape)
  let ?r = "s @ join ''/'' (replicate k ''..'' @ ns)"
  have np: "normpath p = (if ?r = [] then ''.'' else ?r)" using cs by (simp add: normpath_def Let_def s_def)
  have s: "set s \<subseteq> {CHR ''/''}" by (auto simp: s_def slashes_def)
  have r: "norm_comps True ?r = ns"
  proof (cases "replicate k ''..'' @ ns = []")
    case True
    then have "ns = []" "?r = s @ []" by simp_all
    with fold_slashes_first [OF s, of True "[]" "[]"] show ?thesis by (simp add: norm_comps_def)
  next
    case False
    have parts: "\<forall>c \<in> set (replicate k ''..'' @ ns). CHR ''/'' \<notin> set c"
    proof
      fix c assume "c \<in> set (replicate k ''..'' @ ns)"
      then have "c = ''..'' \<or> c \<in> set ns" unfolding set_append Un_iff in_set_replicate by blast
      then show "CHR ''/'' \<notin> set c" using ns unfolding plain_def by fastforce
    qed
    have sp: "split_on (CHR ''/'') (join ''/'' (replicate k ''..'' @ ns)) = replicate k ''..'' @ ns"
      by (rule split_on_join [OF False parts])
    have "fold (norm_step True) (split_on (CHR ''/'') ?r) [] = fold (norm_step True) (replicate k ''..'' @ ns) []"
      unfolding fold_slashes_first [OF s] sp ..
    also have "\<dots> = rev ns" using ns by (simp add: fold_dots fold_plain)
    finally show ?thesis unfolding norm_comps_def by simp
  qed
  have p: "norm_comps True p = ns"
  proof (cases "s = []")
    case True
    have "fold (norm_step True) (split_on (CHR ''/'') p) (undotted []) =
        undotted (fold (norm_step False) (split_on (CHR ''/'') p) [])"
      by (rule fold_rooted) (auto simp: normal_stack_def dest: split_on_parts)
    moreover have "fold (norm_step False) (split_on (CHR ''/'') p) [] = rev (replicate k ''..'' @ ns)"
    proof -
      have "rev (rev (fold (norm_step False) (split_on (CHR ''/'') p) [])) = rev (replicate k ''..'' @ ns)"
        using cs True unfolding norm_comps_def by (simp only: refl simp_thms)
      then show ?thesis unfolding rev_rev_ident .
    qed
    moreover have "undotted (rev (replicate k ''..'' @ ns)) = rev ns" using undotted_stack [of "rev ns" k] ns by simp
    moreover have "undotted [] = []" by (simp add: undotted_def)
    ultimately have "fold (norm_step True) (split_on (CHR ''/'') p) [] = rev ns" by (simp only:)
    then show ?thesis unfolding norm_comps_def by (simp only: rev_rev_ident)
  next
    case False
    then have "(s \<noteq> []) = True" and "k = 0" using k by simp_all
    with cs show ?thesis by (simp only: replicate_0 append_Nil)
  qed
  have "norm_comps True ''.'' = []" "norm_comps True [] = []" by (simp_all add: norm_comps_def norm_step_def)
  note dots = this
  have "norm_comps True (normpath p) = norm_comps True ?r"
  proof (cases "?r = []")
    case True
    then have "normpath p = ''.''" using np by (simp only: if_True refl)
    then show ?thesis unfolding True by (simp only: dots)
  next
    case False
    then have "normpath p = ?r" using np by (simp only: if_False)
    then show ?thesis by (rule arg_cong)
  qed
  then show ?thesis unfolding p r .
qed

lemma replace_char_id: "a \<notin> set s \<Longrightarrow> replace_char a b s = s"
  by (induction s) auto

lemma replace_char_gone: "a \<noteq> b \<Longrightarrow> a \<notin> set (replace_char a b s)"
  by (induction s) auto

lemma norm_comps_norm_path: "CHR 0x5C \<notin> set p \<Longrightarrow> norm_comps True (norm_path p) = norm_comps True p"
  by (simp add: norm_path_def norm_comps_normpath replace_char_id)

text \<open>Normalising makes no backslash.\<close>

lemma set_join: "set (join sep ps) \<subseteq> set sep \<union> \<Union> (set ` set ps)"
  by (induction sep ps rule: join.induct) auto

lemma split_on_set: "p \<in> set (split_on c s) \<Longrightarrow> set p \<subseteq> set s"
  by (induction c s arbitrary: p rule: split_on.induct) (auto split: list.splits if_splits, blast+)

lemma norm_step_set: "set (norm_step rooted c acc) \<subseteq> insert c (set acc)"
  by (cases acc) (auto simp: norm_step_def)

lemma fold_norm_set: "set (fold (norm_step rooted) cs acc) \<subseteq> set cs \<union> set acc"
proof (induction cs arbitrary: acc)
  case (Cons c cs)
  then show ?case using norm_step_set [of rooted c acc] by fastforce
qed simp

lemma normpath_set: "set (normpath p) \<subseteq> set p \<union> {CHR ''/'', CHR ''.''}"
proof -
  have "set (slashes p) \<subseteq> {CHR ''/''}" by (auto simp: slashes_def)
  moreover have "set c \<subseteq> set p" if "c \<in> set (norm_comps rooted p)" for c rooted
    using that fold_norm_set [of rooted "split_on (CHR ''/'') p" "[]"] split_on_set
    by (auto simp: norm_comps_def dest!: subsetD)
  moreover have "set (join ''/'' cs) \<subseteq> {CHR ''/''} \<union> \<Union> (set ` set cs)" for cs
    using set_join [of "''/''" cs] by simp
  ultimately have "set (slashes p @ join ''/'' (norm_comps (slashes p \<noteq> []) p)) \<subseteq> set p \<union> {CHR ''/''}"
    unfolding set_append by blast
  then show ?thesis unfolding normpath_def Let_def by auto
qed

lemma norm_path_no_backslash: "CHR 0x5C \<notin> set (norm_path p)"
  using normpath_set [of "replace_char (CHR 0x5C) (CHR ''/'') p"] replace_char_gone [of "CHR 0x5C" "CHR ''/''" p]
  by (auto simp: norm_path_def)

section \<open>Containment\<close>

text \<open>An absolute path by its components.\<close>

definition rooted_path :: "string list \<Rightarrow> string" where
  "rooted_path ns = ''/'' @ join ''/'' ns"

lemma join_snoc: "join sep (ns @ [n]) = (if ns = [] then n else join sep ns @ sep @ n)"
proof (induction sep ns rule: join.induct)
  case (3 sep p q ps)
  then show ?case by simp
qed simp_all

lemma rooted_path_snoc: "rooted_path (ns @ [n]) = (if ns = [] then ''/'' @ n else rooted_path ns @ ''/'' @ n)"
  by (simp add: rooted_path_def join_snoc)

lemma rooted_path_last: "ns \<noteq> [] \<Longrightarrow> \<forall>n \<in> set ns. plain n \<Longrightarrow> rooted_path ns \<noteq> [] \<and> last (rooted_path ns) \<noteq> CHR ''/''"
proof (cases ns rule: rev_cases)
  case (snoc ms n)
  assume "\<forall>n \<in> set ns. plain n"
  with snoc have n: "n \<noteq> []" "CHR ''/'' \<notin> set n" by (auto simp: plain_def)
  then have "last n \<noteq> CHR ''/''" using last_in_set by metis
  with n snoc show ?thesis by (simp add: rooted_path_snoc)
qed simp

lemma dirname_root: "dirname ''/'' = ''/''"
  by (simp add: dirname_def rstrip_slash_def)

lemma dirname_rooted_path:
  assumes "\<forall>m \<in> set (ns @ [n]). plain m"
  shows "dirname (rooted_path (ns @ [n])) = rooted_path ns"
proof -
  have n: "\<forall>c \<in> set (rev n). c \<noteq> CHR ''/''" using assms by (auto simp: plain_def)
  let ?h = "if ns = [] then ''/'' else rooted_path ns @ ''/''"
  have "rooted_path (ns @ [n]) = ?h @ n" by (simp add: rooted_path_snoc)
  then have "rev (dropWhile (\<lambda>c. c \<noteq> CHR ''/'') (rev (rooted_path (ns @ [n])))) = ?h"
    using dropWhile_append2 [of "rev n" "\<lambda>c. c \<noteq> CHR ''/''" "rev ?h"] n by simp
  moreover have "rstrip_slash ?h = (if ns = [] then [] else rooted_path ns)"
  proof (cases "ns = []")
    case False
    have "\<forall>n \<in> set ns. plain n" using assms by simp
    with rooted_path_last [OF False this] show ?thesis
      by (cases "rooted_path ns" rule: rev_cases) (simp_all add: rstrip_slash_def)
  qed (simp add: rstrip_slash_def)
  ultimately show ?thesis by (simp add: dirname_def Let_def rooted_path_def)
qed

lemma rooted_path_inj:
  assumes "\<forall>n \<in> set as. plain n" and "\<forall>n \<in> set bs. plain n" and "rooted_path as = rooted_path bs"
  shows "as = bs"
proof -
  have parts: "split_on (CHR ''/'') (join ''/'' ns) = (if ns = [] then [[]] else ns)" if "\<forall>n \<in> set ns. plain n" for ns
  proof (cases "ns = []")
    case False
    have "\<forall>n \<in> set ns. CHR ''/'' \<notin> set n" using that by (simp add: plain_def)
    from split_on_join [OF False this] False show ?thesis by simp
  qed simp
  have "join ''/'' as = join ''/'' bs" using assms(3) by (simp add: rooted_path_def)
  then have same: "(if as = [] then [[]] else as) = (if bs = [] then [[]] else bs)"
    using parts [OF assms(1)] parts [OF assms(2)] by simp
  have "\<not> plain []" by (simp add: plain_def)
  then have ne: "as \<noteq> [[]]" "bs \<noteq> [[]]" using assms(1,2) by auto
  show ?thesis
  proof (cases "as = []")
    case True
    with same ne(2) show ?thesis by (cases "bs = []") simp_all
  next
    case False
    with same ne(1) show ?thesis by (cases "bs = []") simp_all
  qed
qed

text \<open>The climb from a path sees every directory above it but the root.\<close>

lemma climb_rooted_path:
  "\<forall>n \<in> set as. plain n \<Longrightarrow> \<forall>n \<in> set ns. plain n \<Longrightarrow>
     climb (rooted_path as) (rooted_path ns) = (if ns = [] then as = [] else as \<noteq> [] \<and> prefix as ns)"
proof (induction ns rule: rev_induct)
  case Nil
  then show ?case
    using dirname_root rooted_path_inj [of as "[]"] by (subst climb.simps) (auto simp: rooted_path_def)
next
  case (snoc n ns)
  have plain_ns: "\<forall>m \<in> set ns. plain m" using snoc.prems(2) by simp
  have eq: "rooted_path (ns @ [n]) = rooted_path as \<longleftrightarrow> ns @ [n] = as"
    using rooted_path_inj [OF snoc.prems(2,1)] by blast
  have up: "dirname (rooted_path (ns @ [n])) = rooted_path ns" by (rule dirname_rooted_path [OF snoc.prems(2)])
  show ?case
  proof (cases "ns @ [n] = as")
    case True
    then show ?thesis using eq by (subst climb.simps) auto
  next
    case False
    have rest: "climb (rooted_path as) (rooted_path (ns @ [n])) =
        (if rooted_path ns = dirname (rooted_path ns) then False else climb (rooted_path as) (rooted_path ns))"
      using False eq up by (subst climb.simps) (simp add: Let_def)
    have pre: "prefix as (ns @ [n]) \<longleftrightarrow> prefix as ns" using False by (auto simp: prefix_snoc)
    show ?thesis
    proof (cases ns rule: rev_cases)
      case Nil
      then have "rooted_path ns = dirname (rooted_path ns)" by (simp add: rooted_path_def dirname_root)
      with rest Nil pre False show ?thesis by (auto simp: prefix_Nil)
    next
      case (snoc ms m)
      have "dirname (rooted_path ns) = rooted_path ms" using dirname_rooted_path [of ms m] plain_ns snoc by simp
      moreover have "ms \<noteq> ns" using snoc by auto
      then have "rooted_path ms \<noteq> rooted_path ns" using rooted_path_inj [of ms ns] plain_ns snoc by auto
      ultimately show ?thesis using rest pre snoc snoc.IH [OF snoc.prems(1)] plain_ns by auto
    qed
  qed
qed

lemma normpath_rooted: "slashes p = ''/'' \<Longrightarrow> normpath p = rooted_path (norm_comps True p)"
  by (simp add: normpath_def rooted_path_def)

lemma norm_comps_plain: "\<forall>n \<in> set (norm_comps True p). plain n"
  by (rule norm_comps_shape [of True p]) simp

text \<open>For absolute paths \<open>is_path_in_path\<close> answers whether the components of the first begin those of the second,
  except for the root: it contains itself and its entries, and nothing below them.\<close>

theorem path_containment:
  assumes "slashes a = ''/''" and "slashes p = ''/''" and "CHR 0x5C \<notin> set a" and "CHR 0x5C \<notin> set p"
  shows "is_path_in_path a p =
     (if norm_comps True a = [] then length (norm_comps True p) \<le> 1 else prefix (norm_comps True a) (norm_comps True p))"
proof -
  let ?as = "norm_comps True a" and ?ns = "norm_comps True p"
  have ne: "a \<noteq> []" "p \<noteq> []" using assms(1,2) by (auto simp: slashes_def startswith_def)
  have same: "replace_char (CHR 0x5C) (CHR ''/'') (normpath q) = normpath q" if "CHR 0x5C \<notin> set q" for q
    using that normpath_set [of q] by (intro replace_char_id) auto
  have "is_path_in_path a p \<longleftrightarrow> rooted_path ?as = rooted_path ?ns \<or> climb (rooted_path ?as) (dirname (rooted_path ?ns))"
    unfolding is_path_in_path_def Let_def same [OF assms(3)] same [OF assms(4)]
    unfolding normpath_rooted [OF assms(1)] normpath_rooted [OF assms(2)]
    using ne by simp
  also have "\<dots> \<longleftrightarrow> (if ?as = [] then length ?ns \<le> 1 else prefix ?as ?ns)"
  proof (cases ?ns rule: rev_cases)
    case Nil
    have "climb (rooted_path ?as) (rooted_path []) = (?as = [])"
      using climb_rooted_path [of ?as "[]"] norm_comps_plain by simp
    with Nil show ?thesis using rooted_path_inj [of ?as "[]"] norm_comps_plain [of a] dirname_root
      by (auto simp: rooted_path_def prefix_Nil)
  next
    case (snoc ms m)
    have pl: "\<forall>n \<in> set (ms @ [m]). plain n" using norm_comps_plain [of p] snoc by simp
    have "climb (rooted_path ?as) (rooted_path ms) = (if ms = [] then ?as = [] else ?as \<noteq> [] \<and> prefix ?as ms)"
      using climb_rooted_path [of ?as ms] norm_comps_plain [of a] pl by simp
    moreover have "rooted_path ?as = rooted_path ?ns \<longleftrightarrow> ?as = ?ns"
      using rooted_path_inj [OF norm_comps_plain norm_comps_plain] by auto
    ultimately show ?thesis using snoc dirname_rooted_path [OF pl] by (auto simp: prefix_snoc)
  qed
  finally show ?thesis .
qed

theorem path_containment_witness:
  "is_path_in_path ''/m'' ''/m/a/b'' \<and> \<not> is_path_in_path ''/'' ''/m/a/b'' \<and> is_path_in_path ''/'' ''/m'' \<and>
   \<not> is_path_in_path ''/m'' ''/mm/a''"
proof -
  have c: "norm_comps True ''/m'' = [''m'']" "norm_comps True ''/'' = []" "norm_comps True ''/m/a/b'' = [''m'', ''a'', ''b'']"
    "norm_comps True ''/mm/a'' = [''mm'', ''a'']" by code_simp+
  have s: "slashes ''/m'' = ''/''" "slashes ''/'' = ''/''" "slashes ''/m/a/b'' = ''/''" "slashes ''/mm/a'' = ''/''"
    by code_simp+
  show ?thesis
    using path_containment [OF s(1,3)] path_containment [OF s(2,3)] path_containment [OF s(2,1)] path_containment [OF s(1,4)]
    by (simp add: c)
qed

end
