(* ===== verification/Retention.thy ===== *)
theory Retention
  imports Paths
begin

text \<open>
  Retention of library files (\<open>services/transfer/retention_service.py\<close> with the queries of the transfer
  history and the deletion service behind it): the policy of a record decides whether the file it put
  into the library goes when its source has gone (\<open>sync_delete\<close>), when a newer record of the same episode
  exists (\<open>replace\<close>), or never (\<open>keep\<close>). The storage backends are a parameter: which exist, whether a path
  exists in one, and removal, which may raise. Paths are POSIX paths; the database answers.
\<close>

section \<open>Records and storage\<close>

record trans_row =
  th_id :: int
  th_identity :: "string option"
  th_tmdb :: int
  th_episode :: string
  th_src_path :: string
  th_src_name :: string
  th_dst_path :: string
  th_dst_name :: string
  th_backend :: "string option"
  th_src_state :: "string option"
  th_dst_state :: "string option"
  th_policy :: "string option"

record 'f storage =
  st_known :: "string \<Rightarrow> bool"
  st_exists :: "string \<Rightarrow> string \<Rightarrow> 'f \<Rightarrow> bool"
  st_remove :: "string \<Rightarrow> string \<Rightarrow> 'f \<Rightarrow> 'f option"

record 'f ret_state =
  rt_rows :: "trans_row list"
  rt_files :: 'f

text \<open>\<open>RetentionPolicy.normalize\<close>\<close>

definition all_policies :: "string list" where
  "all_policies = [''keep'', ''sync_delete'', ''replace'']"

definition normalize_policy :: "string option \<Rightarrow> string" where
  "normalize_policy v = (let t = lower (strip (opt_text v)) in if t \<in> set all_policies then t else ''keep'')"

definition get_policy :: "trans_row \<Rightarrow> string" where
  "get_policy r = normalize_policy (th_policy r)"

section \<open>The transfer history\<close>

definition update_policy :: "int \<Rightarrow> string \<Rightarrow> trans_row list \<Rightarrow> bool \<times> trans_row list" where
  "update_policy i policy rows =
     (if i = 0 then (False, rows)
      else (\<exists>r \<in> set rows. th_id r = i, map (\<lambda>r. if th_id r = i then r\<lparr>th_policy := Some policy\<rparr> else r) rows))"

definition mark_source :: "int \<Rightarrow> string \<Rightarrow> trans_row list \<Rightarrow> trans_row list" where
  "mark_source i v rows = map (\<lambda>r. if th_id r = i then r\<lparr>th_src_state := Some v\<rparr> else r) rows"

definition mark_dest :: "int \<Rightarrow> string \<Rightarrow> trans_row list \<Rightarrow> trans_row list" where
  "mark_dest i v rows = map (\<lambda>r. if th_id r = i then r\<lparr>th_dst_state := Some v\<rparr> else r) rows"

definition delete_log :: "int \<Rightarrow> trans_row list \<Rightarrow> trans_row list" where
  "delete_log i rows = filter (\<lambda>r. th_id r \<noteq> i) rows"

definition same_episode_records :: "trans_row \<Rightarrow> trans_row list \<Rightarrow> trans_row list" where
  "same_episode_records rec rows =
     (let found = (if opt_text (th_identity rec) \<noteq> [] then filter (\<lambda>r. th_dst_path r \<noteq> [] \<and> th_identity r = th_identity rec) rows
                   else if th_tmdb rec \<noteq> 0 then filter (\<lambda>r. th_dst_path r \<noteq> [] \<and> th_tmdb r = th_tmdb rec) rows
                   else [])
      in filter (\<lambda>r. th_dst_name r \<noteq> [] \<and> (th_episode rec = [] \<or> th_episode r = th_episode rec)) found)"

definition records_for_retention :: "int \<Rightarrow> trans_row list \<Rightarrow> trans_row list" where
  "records_for_retention n rows =
     take (nat (max 1 n)) (rev (sort_key th_id (filter (\<lambda>r. th_src_path r \<noteq> [] \<and> th_dst_name r \<noteq> []) rows)))"

definition episode_key :: "trans_row \<Rightarrow> string \<times> string" where
  "episode_key r = (opt_text (th_identity r), th_episode r)"

definition latest_ids :: "trans_row list \<Rightarrow> (string \<times> string, int) dict" where
  "latest_ids rows = fold (\<lambda>r d. dput (episode_key r) (max (get_or d (episode_key r) 0) (th_id r)) d) rows []"

definition replace_candidates :: "trans_row list \<Rightarrow> trans_row list" where
  "replace_candidates rows =
     (let olds = filter (\<lambda>r. th_policy r = Some ''replace'' \<and> th_dst_name r \<noteq> []) rows;
          latest = latest_ids (filter (\<lambda>r. th_dst_name r \<noteq> [] \<and> th_identity r \<noteq> None) rows)
      in filter (\<lambda>r. get_or latest (episode_key r) 0 > th_id r) olds)"

section \<open>Deleting a library file\<close>

datatype del_error = Invalid | NoBackend | NotThere | RemoveFailed

definition delete_media_file :: "'f storage \<Rightarrow> string \<Rightarrow> string \<Rightarrow> string \<Rightarrow> 'f \<Rightarrow> del_error + 'f" where
  "delete_media_file st filedir filename backend fs =
     (let file = rstrip_slash (os_join filedir filename)
      in if basename file = [] then Inl Invalid
         else if dirname file = [] \<or> dirname file = ''/'' \<or> dirname file = [CHR 0x5C] then Inl Invalid
         else if file = dirname file then Inl Invalid
         else if \<not> (backend = [] \<or> backend = ''local'' \<or> st_known st backend) then Inl NoBackend
         else if \<not> st_exists st backend file fs then Inl NotThere
         else (case st_remove st backend file fs of None \<Rightarrow> Inl RemoveFailed | Some fs' \<Rightarrow> Inr fs'))"

definition backend_of :: "trans_row \<Rightarrow> string" where
  "backend_of r = (if opt_text (th_backend r) = [] then ''local'' else opt_text (th_backend r))"

definition dest_file :: "trans_row \<Rightarrow> string" where
  "dest_file r = rstrip_slash (os_join (th_dst_path r) (th_dst_name r))"

definition delete_dest :: "'f storage \<Rightarrow> trans_row \<Rightarrow> 'f ret_state \<Rightarrow> bool \<times> 'f ret_state" where
  "delete_dest st r s =
     (if th_dst_path r = [] \<or> th_dst_name r = [] then (False, s)
      else case delete_media_file st (th_dst_path r) (th_dst_name r) (backend_of r) (rt_files s) of
        Inl NotThere \<Rightarrow> (True, s\<lparr>rt_rows := mark_dest (th_id r) ''deleted'' (rt_rows s)\<rparr>)
      | Inl _ \<Rightarrow> (False, s)
      | Inr fs \<Rightarrow> (True, s\<lparr>rt_rows := mark_dest (th_id r) ''deleted'' (rt_rows s), rt_files := fs\<rparr>))"

section \<open>The service and the sweep\<close>

definition set_policy :: "int list \<Rightarrow> string \<Rightarrow> trans_row list \<Rightarrow> nat \<times> trans_row list" where
  "set_policy ids policy rows =
     fold (\<lambda>i (n, rows). case update_policy i (normalize_policy (Some policy)) rows of
        (True, rows') \<Rightarrow> (n + 1, rows') | (False, rows') \<Rightarrow> (n, rows')) ids (0, rows)"

record ret_stats =
  rs_marked :: nat
  rs_deleted :: nat
  rs_failed :: nat

definition source_missing_step ::
  "'f storage \<Rightarrow> (trans_row \<Rightarrow> 'f \<Rightarrow> bool) \<Rightarrow> trans_row \<Rightarrow> ret_stats \<times> 'f ret_state \<Rightarrow> ret_stats \<times> 'f ret_state" where
  "source_missing_step st exists r p =
     (case p of (stats, s) \<Rightarrow>
        if exists r (rt_files s) then (stats, s)
        else if th_src_state r = Some ''missing'' then (stats, s)
        else
          let s1 = s\<lparr>rt_rows := mark_source (th_id r) ''missing'' (rt_rows s)\<rparr>;
              stats1 = stats\<lparr>rs_marked := rs_marked stats + 1\<rparr>
          in if get_policy r \<noteq> ''sync_delete'' then (stats1, s1)
             else case delete_dest st r s1 of
               (True, s2) \<Rightarrow> (stats1\<lparr>rs_deleted := rs_deleted stats1 + 1\<rparr>, s2)
             | (False, s2) \<Rightarrow> (stats1\<lparr>rs_failed := rs_failed stats1 + 1\<rparr>, s2))"

definition no_stats :: ret_stats where
  "no_stats = \<lparr>rs_marked = 0, rs_deleted = 0, rs_failed = 0\<rparr>"

definition apply_source_missing ::
  "'f storage \<Rightarrow> (trans_row \<Rightarrow> 'f \<Rightarrow> bool) \<Rightarrow> trans_row list \<Rightarrow> 'f ret_state \<Rightarrow> ret_stats \<times> 'f ret_state" where
  "apply_source_missing st exists records s =
     fold (source_missing_step st exists) records (no_stats, s)"

text \<open>\<open>_source_exists\<close>: the sources are local files.\<close>

definition source_exists :: "'f storage \<Rightarrow> trans_row \<Rightarrow> 'f \<Rightarrow> bool" where
  "source_exists st r fs =
     (let p = join_path (th_src_path r) (th_src_name r) in p \<noteq> [] \<and> st_exists st ''local'' p fs)"

definition replace_step :: "'f storage \<Rightarrow> trans_row \<Rightarrow> nat \<times> 'f ret_state \<Rightarrow> nat \<times> 'f ret_state" where
  "replace_step st r p =
     (case p of (n, s) \<Rightarrow>
        case delete_dest st r s of
          (False, s1) \<Rightarrow> (n, s1)
        | (True, s1) \<Rightarrow> (n + 1, s1\<lparr>rt_rows := delete_log (th_id r) (rt_rows s1)\<rparr>))"

definition replace_older_versions :: "'f storage \<Rightarrow> trans_row \<Rightarrow> 'f ret_state \<Rightarrow> nat \<times> 'f ret_state" where
  "replace_older_versions st new s =
     fold (replace_step st)
       (filter (\<lambda>r. th_id r \<noteq> th_id new \<and> get_policy r = ''replace'') (same_episode_records new (rt_rows s))) (0, s)"

definition replace_superseded :: "'f storage \<Rightarrow> 'f ret_state \<Rightarrow> nat \<times> 'f ret_state" where
  "replace_superseded st s = fold (replace_step st) (replace_candidates (rt_rows s)) (0, s)"

text \<open>A sweep: the numbers of records scanned, marked, deleted, failed and replaced.\<close>

definition sweep :: "'f storage \<Rightarrow> int \<Rightarrow> 'f ret_state \<Rightarrow> (nat \<times> ret_stats \<times> nat) \<times> 'f ret_state" where
  "sweep st n s =
     (let records = records_for_retention n (rt_rows s);
          (stats, s1) = apply_source_missing st (source_exists st) records s;
          (replaced, s2) = replace_superseded st s1
      in ((length records, stats, replaced), s2))"

section \<open>What deletion touches\<close>

definition under :: "string \<Rightarrow> string \<Rightarrow> bool" where
  "under p q \<longleftrightarrow> q = p \<or> startswith q (p @ ''/'')"

text \<open>A storage removes the path it is asked to, with all below it, and nothing else.\<close>

definition removes_exactly :: "'f storage \<Rightarrow> bool" where
  "removes_exactly st \<longleftrightarrow>
     (\<forall>b p fs fs' c q. st_remove st b p fs = Some fs' \<longrightarrow> st_exists st c q fs' = (st_exists st c q fs \<and> \<not> (c = b \<and> under p q)))"

text \<open>From one state of the files to another, files only go, and those that go satisfy a predicate.\<close>

definition only_removed :: "'f storage \<Rightarrow> (string \<Rightarrow> string \<Rightarrow> bool) \<Rightarrow> 'f \<Rightarrow> 'f \<Rightarrow> bool" where
  "only_removed st P fs fs' \<longleftrightarrow>
     (\<forall>c q. (st_exists st c q fs' \<longrightarrow> st_exists st c q fs) \<and> (st_exists st c q fs \<and> \<not> st_exists st c q fs' \<longrightarrow> P c q))"

lemma only_removed_refl [simp]: "only_removed st P fs fs"
  by (simp add: only_removed_def)

lemma only_removed_trans: "only_removed st P fs fs' \<Longrightarrow> only_removed st P fs' fs'' \<Longrightarrow> only_removed st P fs fs''"
  unfolding only_removed_def by meson

lemma only_removed_mono: "only_removed st P fs fs' \<Longrightarrow> (\<And>c q. P c q \<Longrightarrow> Q c q) \<Longrightarrow> only_removed st Q fs fs'"
  unfolding only_removed_def by meson

definition at_dest :: "trans_row \<Rightarrow> string \<Rightarrow> string \<Rightarrow> bool" where
  "at_dest r c q \<longleftrightarrow> c = backend_of r \<and> under (dest_file r) q"

lemma delete_dest_files:
  assumes "removes_exactly st" "delete_dest st r s = (ok, s')"
  shows "only_removed st (at_dest r) (rt_files s) (rt_files s')"
  using assms
  by (auto simp: delete_dest_def delete_media_file_def removes_exactly_def dest_file_def only_removed_def at_dest_def Let_def
      split: if_splits sum.splits option.splits del_error.splits)

lemma delete_dest_gone:
  assumes "removes_exactly st" "delete_dest st r s = (True, s')"
  shows "\<not> st_exists st (backend_of r) (dest_file r) (rt_files s')"
  using assms
  by (auto simp: delete_dest_def delete_media_file_def removes_exactly_def dest_file_def under_def Let_def
      split: if_splits sum.splits option.splits del_error.splits)

text \<open>The columns that say what a record is, which marking leaves alone.\<close>

definition core :: "trans_row \<Rightarrow> trans_row" where
  "core r = r\<lparr>th_src_state := None, th_dst_state := None\<rparr>"

lemma core_mark [simp]: "map core (mark_source i v rows) = map core rows" "map core (mark_dest i v rows) = map core rows"
  by (simp_all add: mark_source_def mark_dest_def core_def)

lemma delete_dest_core: "delete_dest st r s = (ok, s') \<Longrightarrow> map core (rt_rows s') = map core (rt_rows s)"
  by (auto simp: delete_dest_def split: if_splits sum.splits del_error.splits)

text \<open>What one step of the source check does: nothing, a mark, or a mark and the deletion of the library file.\<close>

lemma source_step_cases:
  assumes "source_missing_step st ex r (stats, s) = (stats', s')"
  obtains (same) "s' = s"
  | (mark) "s' = s\<lparr>rt_rows := mark_source (th_id r) ''missing'' (rt_rows s)\<rparr>"
  | (delete) ok where "delete_dest st r (s\<lparr>rt_rows := mark_source (th_id r) ''missing'' (rt_rows s)\<rparr>) = (ok, s')"
      "\<not> ex r (rt_files s)" "get_policy r = ''sync_delete''"
proof (cases "ex r (rt_files s) \<or> th_src_state r = Some ''missing'' \<or> get_policy r \<noteq> ''sync_delete''")
  case True
  with assms same mark show thesis by (auto simp: source_missing_step_def Let_def split: if_splits)
next
  case False
  define s1 where "s1 = s\<lparr>rt_rows := mark_source (th_id r) ''missing'' (rt_rows s)\<rparr>"
  obtain ok s2 where d: "delete_dest st r s1 = (ok, s2)" by fastforce
  have "s' = s2" using assms False d by (cases ok) (simp_all add: source_missing_step_def s1_def [symmetric] Let_def)
  with d False delete show thesis by (simp add: s1_def)
qed

lemma source_step_core:
  assumes "source_missing_step st ex r (stats, s) = (stats', s')"
  shows "map core (rt_rows s') = map core (rt_rows s)"
  using assms by (cases rule: source_step_cases) (simp_all add: delete_dest_core)

lemma source_step_files:
  assumes "removes_exactly st" "source_missing_step st ex r (stats, s) = (stats', s')"
  shows "only_removed st (\<lambda>c q. at_dest r c q \<and> get_policy r = ''sync_delete'' \<and> \<not> ex r (rt_files s)) (rt_files s) (rt_files s')"
  using assms(2)
proof (cases rule: source_step_cases)
  case (delete ok)
  with delete_dest_files [OF assms(1) delete(1)] show ?thesis by simp
qed simp_all

lemma apply_core: "map core (rt_rows (snd (fold (source_missing_step st ex) rs p))) = map core (rt_rows (snd p))"
proof (induction rs arbitrary: p)
  case (Cons r rs)
  obtain stats s where p: "p = (stats, s)" by fastforce
  obtain stats' s' where q: "source_missing_step st ex r p = (stats', s')" by fastforce
  show ?case using Cons [of "(stats', s')"] source_step_core [of st ex r stats s stats' s'] p q by simp
qed simp

text \<open>A test for a source is only ever lost when files only go.\<close>

definition stays_missing :: "'f storage \<Rightarrow> (trans_row \<Rightarrow> 'f \<Rightarrow> bool) \<Rightarrow> bool" where
  "stays_missing st ex \<longleftrightarrow> (\<forall>r P fs fs'. only_removed st P fs fs' \<longrightarrow> ex r fs' \<longrightarrow> ex r fs)"

lemma source_stays_missing: "stays_missing st (source_exists st)"
  by (auto simp: stays_missing_def source_exists_def only_removed_def Let_def)

lemma apply_files:
  assumes "removes_exactly st" "stays_missing st ex"
  shows "only_removed st (\<lambda>c q. \<exists>r \<in> set rs. at_dest r c q \<and> get_policy r = ''sync_delete'' \<and>
        \<not> ex r (rt_files (snd (fold (source_missing_step st ex) rs p))))
    (rt_files (snd p)) (rt_files (snd (fold (source_missing_step st ex) rs p)))"
proof (induction rs arbitrary: p)
  case (Cons r rs)
  obtain stats s where p: "p = (stats, s)" by fastforce
  obtain stats' s' where q: "source_missing_step st ex r p = (stats', s')" by fastforce
  define F where "F = rt_files (snd (fold (source_missing_step st ex) rs (stats', s')))"
  have rest: "only_removed st (\<lambda>c q. \<exists>r \<in> set rs. at_dest r c q \<and> get_policy r = ''sync_delete'' \<and> \<not> ex r F) (rt_files s') F"
    using Cons [of "(stats', s')"] by (simp only: F_def snd_conv)
  note first = source_step_files [OF assms(1) q [unfolded p]]
  have "\<not> ex r F" if "\<not> ex r (rt_files s)"
    using that assms(2) rest first unfolding stays_missing_def by blast
  then have "only_removed st (\<lambda>c q. \<exists>r \<in> set (r # rs). at_dest r c q \<and> get_policy r = ''sync_delete'' \<and> \<not> ex r F) (rt_files s) (rt_files s')"
    by (intro only_removed_mono [OF first]) simp
  moreover have "only_removed st (\<lambda>c q. \<exists>r \<in> set (r # rs). at_dest r c q \<and> get_policy r = ''sync_delete'' \<and> \<not> ex r F) (rt_files s') F"
    by (rule only_removed_mono [OF rest]) simp
  ultimately show ?case unfolding p snd_conv fold.simps comp_def q [unfolded p] F_def by (rule only_removed_trans)
qed simp

lemma replace_step_files:
  assumes "removes_exactly st" "replace_step st r (n, s) = (n', s')"
  shows "only_removed st (at_dest r) (rt_files s) (rt_files s')"
proof -
  obtain ok s1 where d: "delete_dest st r s = (ok, s1)" by fastforce
  with assms(2) have "rt_files s' = rt_files s1" by (cases ok) (auto simp: replace_step_def)
  with delete_dest_files [OF assms(1) d] show ?thesis by simp
qed

lemma replace_files:
  assumes "removes_exactly st"
  shows "only_removed st (\<lambda>c q. \<exists>r \<in> set rs. at_dest r c q) (rt_files (snd p)) (rt_files (snd (fold (replace_step st) rs p)))"
proof (induction rs arbitrary: p)
  case (Cons r rs)
  obtain n s where p: "p = (n, s)" by fastforce
  obtain n' s' where q: "replace_step st r p = (n', s')" by fastforce
  have "only_removed st (\<lambda>c q. \<exists>x \<in> set (r # rs). at_dest x c q) (rt_files s) (rt_files s')"
    by (rule only_removed_mono [OF replace_step_files [OF assms q [unfolded p]]]) auto
  moreover have "only_removed st (\<lambda>c q. \<exists>x \<in> set (r # rs). at_dest x c q) (rt_files s')
      (rt_files (snd (fold (replace_step st) rs (n', s'))))"
    by (rule only_removed_mono [OF Cons [of "(n', s')", unfolded snd_conv]]) simp
  ultimately show ?case unfolding p snd_conv fold.simps comp_def q [unfolded p] by (rule only_removed_trans)
qed simp

section \<open>The candidates for replacement\<close>

lemma latest_ids_get:
  "get_or (fold (\<lambda>r d. dput (episode_key r) (max (get_or d (episode_key r) 0) (th_id r)) d) rows d) k 0 > i \<longleftrightarrow>
     get_or d k 0 > i \<or> (\<exists>r \<in> set rows. episode_key r = k \<and> th_id r > i)"
  by (induction rows arbitrary: d) auto

text \<open>A record is superseded: it asks to be replaced, and a record with the same key has a greater number.\<close>

definition superseded :: "trans_row list \<Rightarrow> trans_row \<Rightarrow> bool" where
  "superseded rows r \<longleftrightarrow> th_policy r = Some ''replace'' \<and>
     (\<exists>x \<in> set rows. th_identity x \<noteq> None \<and> th_dst_name x \<noteq> [] \<and> episode_key x = episode_key r \<and> th_id x > th_id r)"

lemma replace_candidates_iff:
  assumes "\<forall>r \<in> set rows. 0 \<le> th_id r"
  shows "set (replace_candidates rows) = {r \<in> set rows. th_dst_name r \<noteq> [] \<and> superseded rows r}"
proof -
  have "get_or (latest_ids (filter (\<lambda>r. th_dst_name r \<noteq> [] \<and> th_identity r \<noteq> None) rows)) (episode_key r) 0 > th_id r \<longleftrightarrow>
      (\<exists>x \<in> set rows. th_identity x \<noteq> None \<and> th_dst_name x \<noteq> [] \<and> episode_key x = episode_key r \<and> th_id x > th_id r)"
    if "r \<in> set rows" for r
    using that assms latest_ids_get [of "th_id r" _ "[]" "episode_key r"] by (auto simp: latest_ids_def get_or_def)
  then show ?thesis by (auto simp: replace_candidates_def superseded_def Let_def)
qed

lemma superseded_core: "superseded rows r \<longleftrightarrow> superseded (map core rows) (core r)"
  by (auto simp: superseded_def core_def episode_key_def)

lemma core_simps [simp]:
  "th_id (core r) = th_id r" "th_dst_name (core r) = th_dst_name r" "th_dst_path (core r) = th_dst_path r"
  "backend_of (core r) = backend_of r" "dest_file (core r) = dest_file r" "get_policy (core r) = get_policy r"
  by (simp_all add: core_def backend_of_def dest_file_def get_policy_def)

lemma replace_step_rows:
  assumes "replace_step st r (n, s) = (n', s')" and "x \<in> set (rt_rows s)" "th_id x \<noteq> th_id r"
  shows "\<exists>y \<in> set (rt_rows s'). core y = core x"
proof -
  obtain ok s1 where d: "delete_dest st r s = (ok, s1)" by fastforce
  have "core x \<in> core ` set (rt_rows s1)" using assms(2) delete_dest_core [OF d] by (metis image_eqI list.set_map)
  then obtain y where y: "y \<in> set (rt_rows s1)" "core y = core x" by auto
  then have "th_id y \<noteq> th_id r" using assms(3) by (metis core_simps(1))
  with y assms(1) d show ?thesis by (cases ok) (auto simp: replace_step_def delete_log_def)
qed

lemma replace_rows:
  assumes "x \<in> set (rt_rows (snd p))" "\<And>r. r \<in> set rs \<Longrightarrow> th_id r \<noteq> th_id x"
  shows "\<exists>y \<in> set (rt_rows (snd (fold (replace_step st) rs p))). core y = core x"
  using assms
proof (induction rs arbitrary: p x)
  case Nil
  then show ?case by auto
next
  case (Cons r rs)
  obtain n s where p: "p = (n, s)" by fastforce
  obtain n' s' where q: "replace_step st r p = (n', s')" by fastforce
  obtain y where y: "y \<in> set (rt_rows s')" "core y = core x"
    using replace_step_rows [of st r n s n' s' x] Cons.prems p q by force
  have "th_id y = th_id x" using y(2) by (metis core_simps(1))
  with Cons.IH [of y "(n', s')"] Cons.prems(2) y p q show ?case by force
qed

text \<open>The deletion of the file of a record succeeds, or the file is not there.\<close>

definition deletable :: "'f storage \<Rightarrow> trans_row \<Rightarrow> bool" where
  "deletable st r \<longleftrightarrow> th_dst_path r \<noteq> [] \<and> th_dst_name r \<noteq> [] \<and>
     (\<forall>fs e. delete_media_file st (th_dst_path r) (th_dst_name r) (backend_of r) fs = Inl e \<longrightarrow> e = NotThere)"

lemma deletable_core [simp]: "deletable st (core r) = deletable st r"
  by (simp add: deletable_def)

text \<open>Records with the same core agree on everything that matters here.\<close>

lemma core_eq:
  assumes "core x = core y"
  shows "th_id x = th_id y" "th_policy x = th_policy y" "th_dst_name x = th_dst_name y" "dest_file x = dest_file y"
    "backend_of x = backend_of y" "deletable st x = deletable st y"
proof -
  show "th_id x = th_id y" "th_dst_name x = th_dst_name y" "dest_file x = dest_file y" "backend_of x = backend_of y"
    "deletable st x = deletable st y"
    using assms core_simps [of x] core_simps [of y] deletable_core [of st x] deletable_core [of st y] by simp_all
  have "th_policy (core r) = th_policy r" for r by (simp add: core_def)
  then show "th_policy x = th_policy y" using assms by metis
qed

text \<open>Tables with the same cores have the same records, up to the marks.\<close>

lemma core_rows:
  assumes "map core rows = map core rows'" "r \<in> set rows"
  obtains x where "x \<in> set rows'" "core x = core r"
proof -
  have "core r \<in> core ` set rows'" using assms by (metis imageI list.set_map)
  then show thesis using that by auto
qed

lemma candidate_core:
  assumes "map core rows = map core rows'" "x \<in> set rows" "core x = core r" "superseded rows' r" "th_dst_name r \<noteq> []"
    "\<forall>r \<in> set rows. 0 \<le> th_id r"
  shows "x \<in> set (replace_candidates rows)"
proof -
  have "superseded rows x" using assms(1,3,4) superseded_core [of rows x] superseded_core [of rows' r] by simp
  with assms(2,5) core_eq(3) [OF assms(3)] show ?thesis by (simp add: replace_candidates_iff [OF assms(6)])
qed

lemma delete_dest_deletable: "deletable st r \<Longrightarrow> fst (delete_dest st r s)"
  by (auto simp: deletable_def delete_dest_def split: sum.splits del_error.splits)

lemma replace_gone:
  assumes "removes_exactly st" "r \<in> set rs" "deletable st r"
  shows "\<not> st_exists st (backend_of r) (dest_file r) (rt_files (snd (fold (replace_step st) rs p)))"
  using assms(2)
proof (induction rs arbitrary: p)
  case (Cons x rs)
  obtain n s where p: "p = (n, s)" by fastforce
  obtain n' s' where q: "replace_step st x p = (n', s')" by fastforce
  show ?case
  proof (cases "r = x")
    case False
    with Cons p q show ?thesis by simp
  next
    case True
    obtain s1 where d: "delete_dest st r s = (True, s1)" using delete_dest_deletable [OF assms(3), of s] by (cases "delete_dest st r s") auto
    have "rt_files s' = rt_files s1" using d q p True by (auto simp: replace_step_def)
    with delete_dest_gone [OF assms(1) d] have "\<not> st_exists st (backend_of r) (dest_file r) (rt_files s')" by simp
    moreover have "only_removed st (\<lambda>c q. \<exists>r \<in> set rs. at_dest r c q) (rt_files s') (rt_files (snd (fold (replace_step st) rs (n', s'))))"
      using replace_files [OF assms(1), of rs "(n', s')"] by simp
    ultimately show ?thesis using p q by (auto simp: only_removed_def)
  qed
qed simp

text \<open>A sweep in two parts.\<close>

lemma sweep_parts:
  assumes "sweep st n s = (numbers, s')"
  obtains s1 where "snd (apply_source_missing st (source_exists st) (records_for_retention n (rt_rows s)) s) = s1"
    "s' = snd (fold (replace_step st) (replace_candidates (rt_rows s1)) (0, s1))"
    "map core (rt_rows s1) = map core (rt_rows s)"
proof (rule that [OF refl])
  show "s' = snd (fold (replace_step st) (replace_candidates (rt_rows (snd (apply_source_missing st (source_exists st)
      (records_for_retention n (rt_rows s)) s)))) (0, snd (apply_source_missing st (source_exists st) (records_for_retention n (rt_rows s)) s)))"
    using assms by (auto simp: sweep_def replace_superseded_def Let_def split: prod.splits)
  show "map core (rt_rows (snd (apply_source_missing st (source_exists st) (records_for_retention n (rt_rows s)) s))) = map core (rt_rows s)"
    using apply_core [of st "source_exists st" "records_for_retention n (rt_rows s)" "(no_stats, s)"] by (simp add: apply_source_missing_def)
qed

lemma records_for_retention_subset: "set (records_for_retention n rows) \<subseteq> set rows"
  by (auto simp: records_for_retention_def dest: in_set_takeD)

section \<open>Properties\<close>

definition demo_storage :: "(string \<times> string) list storage" where
  "demo_storage = \<lparr>st_known = \<lambda>_. False, st_exists = \<lambda>b p fs. (b, p) \<in> set fs,
     st_remove = \<lambda>b p fs. Some (filter (\<lambda>(c, q). \<not> (c = b \<and> under p q)) fs)\<rparr>"

lemma demo_removes: "removes_exactly demo_storage"
  by (auto simp: removes_exactly_def demo_storage_def)

definition demo_trans :: "int \<Rightarrow> string option \<Rightarrow> trans_row" where
  "demo_trans i policy = \<lparr>th_id = i, th_identity = Some ''w'', th_tmdb = 1, th_episode = ''S01E01'', th_src_path = ''/d'',
     th_src_name = nat_str (nat i), th_dst_path = ''/m'', th_dst_name = ''x.mkv'', th_backend = None, th_src_state = Some ''present'',
     th_dst_state = Some ''present'', th_policy = policy\<rparr>"

definition demo_ret :: "string option \<Rightarrow> (string \<times> string) list ret_state" where
  "demo_ret policy = \<lparr>rt_rows = [demo_trans 1 policy, demo_trans 2 None], rt_files = [(''local'', ''/m/x.mkv'')]\<rparr>"

lemma demo_dest: "dest_file (demo_trans i p) = ''/m/x.mkv''" "backend_of (demo_trans i p) = ''local''"
  by (simp_all add: dest_file_def demo_trans_def rstrip_slash_def os_join_def startswith_def endswith_def suffix_def backend_of_def opt_text_def)

lemma demo_deletable: "deletable demo_storage (demo_trans i p)"
proof -
  have "th_dst_path (demo_trans i p) = ''/m''" "th_dst_name (demo_trans i p) = ''x.mkv''" by (simp_all add: demo_trans_def)
  moreover have "rstrip_slash (os_join ''/m'' ''x.mkv'') = ''/m/x.mkv''"
    by (simp add: rstrip_slash_def os_join_def startswith_def endswith_def suffix_def)
  moreover have "basename ''/m/x.mkv'' = ''x.mkv''" "dirname ''/m/x.mkv'' = ''/m''"
    by (simp_all add: basename_def dirname_def rstrip_slash_def)
  ultimately show ?thesis
    by (auto simp: deletable_def delete_media_file_def demo_dest demo_storage_def Let_def)
qed

text \<open>C19: A sweep deletes no file of the library but those the users gave up: every file that goes is the library file of a
  record that asks for deletion with its source and has none, or of one that asks to be replaced and
  has a newer record of the same work and episode.\<close>

theorem sweep_deletes_only_decided:
  assumes "removes_exactly st" and "\<And>r. r \<in> set (rt_rows s) \<Longrightarrow> 0 \<le> th_id r" and "sweep st n s = (numbers, s')"
    and "st_exists st c q (rt_files s)" "\<not> st_exists st c q (rt_files s')"
  shows "\<exists>r \<in> set (rt_rows s). at_dest r c q \<and>
    ((get_policy r = ''sync_delete'' \<and> \<not> source_exists st r (rt_files s')) \<or> superseded (rt_rows s) r)"
proof -
  obtain s1 where s1: "snd (apply_source_missing st (source_exists st) (records_for_retention n (rt_rows s)) s) = s1"
    "s' = snd (fold (replace_step st) (replace_candidates (rt_rows s1)) (0, s1))" "map core (rt_rows s1) = map core (rt_rows s)"
    by (rule sweep_parts [OF assms(3)])
  have after: "only_removed st (\<lambda>c q. \<exists>r \<in> set (replace_candidates (rt_rows s1)). at_dest r c q) (rt_files s1) (rt_files s')"
    using replace_files [OF assms(1), of "replace_candidates (rt_rows s1)" "(0, s1)"] s1(2) by simp
  show ?thesis
  proof (cases "st_exists st c q (rt_files s1)")
    case False
    have "only_removed st (\<lambda>c q. \<exists>r \<in> set (records_for_retention n (rt_rows s)). at_dest r c q \<and>
        get_policy r = ''sync_delete'' \<and> \<not> source_exists st r (rt_files s1)) (rt_files s) (rt_files s1)"
      using apply_files [OF assms(1) source_stays_missing, of "records_for_retention n (rt_rows s)" "(no_stats, s)"] s1(1)
      by (simp add: apply_source_missing_def)
    with False assms(4) obtain r where r: "r \<in> set (records_for_retention n (rt_rows s))" "at_dest r c q"
      "get_policy r = ''sync_delete''" "\<not> source_exists st r (rt_files s1)"
      by (auto simp: only_removed_def)
    moreover have "\<not> source_exists st r (rt_files s')"
      using r(4) after source_stays_missing [of st] unfolding stays_missing_def by blast
    ultimately show ?thesis using records_for_retention_subset by blast
  next
    case True
    with after assms(5) obtain r where r: "r \<in> set (replace_candidates (rt_rows s1))" "at_dest r c q"
      by (auto simp: only_removed_def)
    have ids: "\<forall>r \<in> set (rt_rows s1). 0 \<le> th_id r"
      using assms(2) s1(3) by (metis core_simps(1) image_iff list.set_map)
    have "core r \<in> core ` set (rt_rows s)"
      using r(1) replace_candidates_iff [OF ids] s1(3) by (metis (no_types, lifting) image_eqI list.set_map mem_Collect_eq)
    then obtain x where x: "x \<in> set (rt_rows s)" "core x = core r" by auto
    have "superseded (rt_rows s) x"
      using r(1) replace_candidates_iff [OF ids] superseded_core [of "rt_rows s1" r] superseded_core [of "rt_rows s" x] s1(3) x(2)
      by simp
    moreover have "at_dest x c q"
      using r(2) x(2) by (metis at_dest_def core_simps(4,5))
    ultimately show ?thesis using x(1) by blast
  qed
qed

theorem sweep_deletes_only_decided_witness:
  "\<exists>numbers s'. sweep demo_storage 10 (demo_ret (Some ''replace'')) = (numbers, s') \<and>
     (\<exists>r \<in> set (rt_rows (demo_ret (Some ''replace''))). at_dest r ''local'' ''/m/x.mkv'' \<and>
      ((get_policy r = ''sync_delete'' \<and> \<not> source_exists demo_storage r (rt_files s')) \<or> superseded (rt_rows (demo_ret (Some ''replace''))) r))"
proof -
  define s where "s = demo_ret (Some ''replace'')"
  obtain numbers s' where sw: "sweep demo_storage 10 s = (numbers, s')" by fastforce
  obtain s1 where s1: "s' = snd (fold (replace_step demo_storage) (replace_candidates (rt_rows s1)) (0, s1))"
    "map core (rt_rows s1) = map core (rt_rows s)"
    by (rule sweep_parts [OF sw])
  have ids: "0 \<le> th_id r" if "r \<in> set (rt_rows s)" for r using that by (auto simp: s_def demo_ret_def demo_trans_def)
  have ids1: "\<forall>r \<in> set (rt_rows s1). 0 \<le> th_id r"
  proof
    fix r assume "r \<in> set (rt_rows s1)"
    with core_rows [OF s1(2)] obtain x where "x \<in> set (rt_rows s)" "core x = core r" by blast
    with ids core_eq(1) show "0 \<le> th_id r" by metis
  qed
  have old: "demo_trans 1 (Some ''replace'') \<in> set (rt_rows s)" by (simp add: s_def demo_ret_def)
  then obtain x where x: "x \<in> set (rt_rows s1)" "core x = core (demo_trans 1 (Some ''replace''))"
    using core_rows [OF s1(2) [symmetric]] by blast
  have "superseded (rt_rows s) (demo_trans 1 (Some ''replace''))" "th_dst_name (demo_trans 1 (Some ''replace'')) \<noteq> []"
    by (simp add: superseded_def s_def demo_ret_def) (simp_all add: demo_trans_def episode_key_def)
  then have "x \<in> set (replace_candidates (rt_rows s1))" using candidate_core [OF s1(2) x _ _ ids1] by blast
  then have "\<not> st_exists demo_storage ''local'' ''/m/x.mkv'' (rt_files s')"
    using replace_gone [OF demo_removes, of x "replace_candidates (rt_rows s1)" "(0, s1)"] s1(1)
      core_eq(4,5) [OF x(2)] core_eq(6) [OF x(2), of demo_storage] by (simp add: demo_dest demo_deletable)
  moreover have "st_exists demo_storage ''local'' ''/m/x.mkv'' (rt_files s)" by (simp add: s_def demo_ret_def demo_storage_def)
  ultimately show ?thesis
    using sweep_deletes_only_decided [OF demo_removes ids sw, of "''local''" "''/m/x.mkv''"] sw unfolding s_def by blast
qed

text \<open>Replacement does not look at where the newer version is: when the new version of an episode was put under the same
  path as the old one, which asks to be replaced, the sweep deletes that path, and the record of the new
  version stays although its file has gone.\<close>

theorem replacement_deletes_new_version:
  assumes "removes_exactly st" and "\<And>r. r \<in> set (rt_rows s) \<Longrightarrow> 0 \<le> th_id r"
    and "old \<in> set (rt_rows s)" "new \<in> set (rt_rows s)" and "th_policy old = Some ''replace''" "th_policy new = None"
    and "th_identity new = Some w" "th_identity old = Some w" "th_episode new = th_episode old" "th_id old < th_id new"
    and "dest_file new = dest_file old" "backend_of new = backend_of old" "deletable st old" "deletable st new"
    and "\<And>r. r \<in> set (rt_rows s) \<Longrightarrow> th_id r = th_id new \<Longrightarrow> r = new"
    and "sweep st n s = (numbers, s')"
  shows "\<not> st_exists st (backend_of new) (dest_file new) (rt_files s') \<and> (\<exists>r \<in> set (rt_rows s'). core r = core new)"
proof -
  obtain s1 where s1: "s' = snd (fold (replace_step st) (replace_candidates (rt_rows s1)) (0, s1))"
    "map core (rt_rows s1) = map core (rt_rows s)"
    by (rule sweep_parts [OF assms(16)])
  have ids: "\<forall>r \<in> set (rt_rows s1). 0 \<le> th_id r"
  proof
    fix r assume "r \<in> set (rt_rows s1)"
    with core_rows [OF s1(2)] obtain x where "x \<in> set (rt_rows s)" "core x = core r" by blast
    with assms(2) [of x] core_eq(1) [of x r] show "0 \<le> th_id r" by simp
  qed
  obtain x where x: "x \<in> set (rt_rows s1)" "core x = core old" using core_rows [OF s1(2) [symmetric] assms(3)] by blast
  have names: "th_dst_name old \<noteq> []" "th_dst_name new \<noteq> []" using assms(13,14) by (simp_all add: deletable_def)
  have key: "episode_key new = episode_key old" using assms(7-9) by (simp add: episode_key_def)
  have "superseded (rt_rows s) old"
    unfolding superseded_def using assms(4,5,7,10) names(2) key by auto
  then have cand: "x \<in> set (replace_candidates (rt_rows s1))" using candidate_core [OF s1(2) x _ names(1) ids] by blast
  have gone: "\<not> st_exists st (backend_of new) (dest_file new) (rt_files s')"
    using replace_gone [OF assms(1) cand, of "(0, s1)"] s1(1) core_eq(4,5) [OF x(2)] core_eq(6) [OF x(2), of st] assms(11-13) by simp
  obtain y where y: "y \<in> set (rt_rows s1)" "core y = core new" using core_rows [OF s1(2) [symmetric] assms(4)] by blast
  have "th_id r \<noteq> th_id y" if "r \<in> set (replace_candidates (rt_rows s1))" for r
  proof
    assume eq: "th_id r = th_id y"
    have r: "r \<in> set (rt_rows s1)" "superseded (rt_rows s1) r" using that by (simp_all add: replace_candidates_iff [OF ids])
    obtain z where z: "z \<in> set (rt_rows s)" "core z = core r" using core_rows [OF s1(2) r(1)] by blast
    have "z = new" using assms(15) [OF z(1)] core_eq(1) [OF z(2)] core_eq(1) [OF y(2)] eq by simp
    with core_eq(2) [OF z(2)] assms(6) r(2) show False by (simp add: superseded_def)
  qed
  then obtain u where "u \<in> set (rt_rows s')" "core u = core y"
    using replace_rows [of y "(0, s1)" "replace_candidates (rt_rows s1)" st] y(1) s1(1) by auto
  with y(2) gone show ?thesis by auto
qed

theorem replacement_deletes_new_version_witness:
  "\<exists>numbers s'. sweep demo_storage 10 (demo_ret (Some ''replace'')) = (numbers, s') \<and>
     (''local'', ''/m/x.mkv'') \<notin> set (rt_files s') \<and> (\<exists>r \<in> set (rt_rows s'). core r = core (demo_trans 2 None))"
proof -
  define s where "s = demo_ret (Some ''replace'')"
  have rows: "rt_rows s = [demo_trans 1 (Some ''replace''), demo_trans 2 None]" by (simp add: s_def demo_ret_def)
  have cols: "th_id (demo_trans i p) = i" "th_policy (demo_trans i p) = p" "th_identity (demo_trans i p) = Some ''w''"
    "th_episode (demo_trans i p) = ''S01E01''" for i p by (simp_all add: demo_trans_def)
  obtain numbers s' where sw: "sweep demo_storage 10 s = (numbers, s')" by fastforce
  have "\<not> st_exists demo_storage (backend_of (demo_trans 2 None)) (dest_file (demo_trans 2 None)) (rt_files s') \<and>
      (\<exists>r \<in> set (rt_rows s'). core r = core (demo_trans 2 None))"
    by (rule replacement_deletes_new_version [OF demo_removes _ _ _ _ _ _ _ _ _ _ _ _ _ _ sw, where old = "demo_trans 1 (Some ''replace'')"])
       (auto simp: rows cols demo_dest demo_deletable)
  moreover have "st_exists demo_storage b q fs = ((b, q) \<in> set fs)" for b q fs by (simp add: demo_storage_def)
  ultimately show ?thesis using sw unfolding s_def demo_dest by blast
qed

text \<open>A deletion that fails once is never tried again: the step that fails has already marked the source of the record
  as missing, and the source check passes over such a record from then on.\<close>

theorem failed_deletion_not_retried:
  assumes "distinct (map th_id (rt_rows s))" and "r \<in> set (rt_rows s)" and "\<not> ex r (rt_files s)" and "get_policy r = ''sync_delete''"
    and "th_src_state r \<noteq> Some ''missing''" and "source_missing_step st ex r (stats, s) = (stats', s')"
    and "rs_failed stats' = rs_failed stats + 1" and "r' \<in> set (rt_rows s')" "th_id r' = th_id r"
  shows "source_missing_step st2 ex2 r' (stats2, s2) = (stats2, s2)"
proof -
  define s1 where "s1 = s\<lparr>rt_rows := mark_source (th_id r) ''missing'' (rt_rows s)\<rparr>"
  obtain ok s3 where d: "delete_dest st r s1 = (ok, s3)" by fastforce
  have "\<not> ok" "s' = s3"
    using assms(3-7) d by (cases ok; simp add: source_missing_step_def s1_def [symmetric] Let_def; auto)+
  then have "s' = s1" using d by (auto simp: delete_dest_def split: if_splits sum.splits del_error.splits)
  then have "th_src_state r' = Some ''missing''"
    using assms(8,9) by (auto simp: s1_def mark_source_def split: if_splits)
  then show ?thesis by (simp add: source_missing_step_def)
qed

theorem failed_deletion_not_retried_witness:
  "\<exists>stats s'. source_missing_step (demo_storage\<lparr>st_remove := \<lambda>_ _ _. None\<rparr>) (\<lambda>_ _. False) (demo_trans 1 (Some ''sync_delete''))
      (no_stats, demo_ret (Some ''sync_delete'')) = (stats, s') \<and> rs_failed stats = 1 \<and>
    (\<forall>r' \<in> set (rt_rows s'). th_id r' = 1 \<longrightarrow> source_missing_step demo_storage (\<lambda>_ _. False) r' (no_stats, s') = (no_stats, s'))"
proof -
  define st where "st = demo_storage\<lparr>st_remove := \<lambda>_ _ _. None\<rparr>"
  define r where "r = demo_trans 1 (Some ''sync_delete'')"
  define s where "s = demo_ret (Some ''sync_delete'')"
  have cols: "th_id r = 1" "th_src_state r = Some ''present''" "th_dst_path r = ''/m''" "th_dst_name r = ''x.mkv''"
    "get_policy r = ''sync_delete''" "backend_of r = ''local''"
    by (simp_all add: r_def demo_dest) (simp_all add: demo_trans_def get_policy_def normalize_policy_def opt_text_def all_policies_def
        strip_def lstrip_def is_space_def ord_def lower_def lower_char_def Let_def)
  have del: "delete_media_file st ''/m'' ''x.mkv'' ''local'' [(''local'', ''/m/x.mkv'')] = Inl RemoveFailed"
    by (simp add: delete_media_file_def st_def demo_storage_def rstrip_slash_def os_join_def startswith_def endswith_def
        suffix_def basename_def dirname_def Let_def)
  obtain stats s' where step: "source_missing_step st (\<lambda>_ _. False) r (no_stats, s) = (stats, s')" by fastforce
  have "rs_failed stats = 1"
    using step by (simp add: source_missing_step_def cols delete_dest_def Let_def)
      (auto simp: s_def demo_ret_def del no_stats_def)
  moreover have "source_missing_step demo_storage (\<lambda>_ _. False) r' (no_stats, s') = (no_stats, s')"
    if "r' \<in> set (rt_rows s')" "th_id r' = 1" for r'
    by (rule failed_deletion_not_retried [OF _ _ _ _ _ step _ that(1)])
       (use that cols \<open>rs_failed stats = 1\<close> in \<open>auto simp: s_def demo_ret_def r_def demo_trans_def no_stats_def\<close>)
  ultimately show ?thesis using step unfolding st_def r_def s_def by blast
qed

end
