(* ===== verification/MediaItem.thy ===== *)
theory MediaItem
  imports PyVal
begin

text \<open>
  Media items and the keys that say which media they are (\<open>domain/mediatypes.py\<close>,
  \<open>domain/media_ref.py\<close>, \<open>media/models.py\<close>): a subscription's missing seasons are filed under a key, and a
  candidate release belongs to it when its own key is the same after normalisation. Text
  functions read ASCII letters and digits. \<open>mi_name\<close> is what \<open>get_name()\<close> answers, \<open>mi_rest\<close>
  stands for the fields not modelled, which the equality of items compares too.
\<close>

datatype media_type = TV | MOVIE | ANIME | UNKNOWN

record item =
  mi_type :: media_type
  mi_title :: string
  mi_name :: string
  mi_year :: string
  mi_identity_id :: "string option"
  mi_series_key :: "string option"
  mi_anchor_provider :: "string option"
  mi_anchor_external_id :: "string option"
  mi_tmdb_id :: pyval
  mi_douban_id :: pyval
  mi_begin_season :: "int option"
  mi_end_season :: "int option"
  mi_begin_episode :: "int option"
  mi_end_episode :: "int option"
  mi_enclosure :: "string option"
  mi_page_url :: "string option"
  mi_rest :: nat

record media_ref =
  mr_provider :: string
  mr_external_id :: string

section \<open>Seasons, episodes, titles\<close>

definition get_season_list :: "'a item_scheme \<Rightarrow> int list" where
  "get_season_list m =
     (case mi_begin_season m of
        None \<Rightarrow> if mi_type m = MOVIE then [] else [1]
      | Some b \<Rightarrow> (case mi_end_season m of Some e \<Rightarrow> [b..e] | None \<Rightarrow> [b]))"

definition get_season_seq :: "'a item_scheme \<Rightarrow> string" where
  "get_season_seq m =
     (case mi_begin_season m of
        Some b \<Rightarrow> int_str b
      | None \<Rightarrow> if mi_type m = MOVIE then [] else ''1'')"

definition get_episode_list :: "'a item_scheme \<Rightarrow> int list" where
  "get_episode_list m =
     (case mi_begin_episode m of
        None \<Rightarrow> []
      | Some b \<Rightarrow> (case mi_end_episode m of Some e \<Rightarrow> [b..e] | None \<Rightarrow> [b]))"

definition get_title_string :: "'a item_scheme \<Rightarrow> string" where
  "get_title_string m =
     (let titled = (\<lambda>t. if mi_year m \<noteq> [] then t @ '' ('' @ mi_year m @ '')'' else t)
      in if mi_title m \<noteq> [] then titled (mi_title m)
         else if mi_name m \<noteq> [] then titled (mi_name m) else [])"

section \<open>Media keys\<close>

text \<open>\<open>str(value or "").strip()\<close>, for values that are texts or numbers.\<close>

definition id_text :: "pyval \<Rightarrow> string" where
  "id_text v = (if truthy v then strip (py_str (\<lambda>_. []) v) else [])"

definition normalize_identity_key :: "pyval \<Rightarrow> string" where
  "normalize_identity_key value =
     (let text = id_text value; up = upper text
      in if text = [] then []
         else if startswith up ''DB:'' then ''douban:'' @ drop 3 text
         else if startswith up ''BG:'' then ''bangumi:'' @ drop 3 text
         else if startswith up ''TMDB:'' then ''tmdb:'' @ drop 5 text
         else if startswith text ''id:'' then text
         else (case split_first (CHR '':'') text of
                 Some (provider, external) \<Rightarrow> lower (strip provider) @ '':'' @ strip external
               | None \<Rightarrow> if isdigit text then ''tmdb:'' @ text else text))"

definition identity_keys_match :: "string \<Rightarrow> string \<Rightarrow> bool" where
  "identity_keys_match left right =
     (normalize_identity_key (PStr left) \<noteq> [] \<and>
      normalize_identity_key (PStr left) = normalize_identity_key (PStr right))"

definition get_media_ref :: "'a item_scheme \<Rightarrow> media_ref option" where
  "get_media_ref m =
     (let provider = opt_text (mi_anchor_provider m);
          external = opt_text (mi_anchor_external_id m);
          raw = id_text (mi_tmdb_id m); up = upper raw;
          ref = (\<lambda>p x. Some \<lparr>mr_provider = p, mr_external_id = x\<rparr>)
      in if provider \<noteq> [] \<and> external \<noteq> [] then ref provider external
         else if startswith up ''DB:'' \<and> drop 3 raw \<noteq> [] then ref ''douban'' (drop 3 raw)
         else if startswith up ''BG:'' \<and> drop 3 raw \<noteq> [] then ref ''bangumi'' (drop 3 raw)
         else if startswith up ''TMDB:'' \<and> drop 5 raw \<noteq> [] then ref ''tmdb'' (drop 5 raw)
         else if isdigit raw then ref ''tmdb'' raw
         else if truthy (mi_douban_id m) then ref ''douban'' (py_str (\<lambda>_. []) (mi_douban_id m))
         else None)"

definition media_identity_key :: "'a item_scheme \<Rightarrow> string" where
  "media_identity_key m =
     (let identity = strip (opt_text (mi_identity_id m));
          keyed = (\<lambda>p x. normalize_identity_key (PStr (p @ '':'' @ x)));
          anchored =
            (let provider = opt_text (mi_anchor_provider m); external = opt_text (mi_anchor_external_id m)
             in if strip provider \<noteq> [] \<and> strip external \<noteq> [] then keyed provider external
                else (case mi_tmdb_id m of
                        PStr s \<Rightarrow> normalize_identity_key (PStr s)
                      | PInt n \<Rightarrow> normalize_identity_key (PInt n)
                      | PBool b \<Rightarrow> normalize_identity_key (PBool b)
                      | _ \<Rightarrow> []))
      in if identity \<noteq> [] then ''id:'' @ identity
         else (case get_media_ref m of
                 Some r \<Rightarrow> if mr_provider r \<noteq> [] \<and> mr_external_id r \<noteq> []
                           then keyed (mr_provider r) (mr_external_id r) else anchored
               | None \<Rightarrow> anchored))"

text \<open>\<open>f"{n:02d}"\<close>.\<close>

definition two_digits :: "int \<Rightarrow> string" where
  "two_digits n = (if 0 \<le> n \<and> n < 10 then ''0'' @ int_str n else int_str n)"

definition media_series_scope_key :: "'a item_scheme \<Rightarrow> string" where
  "media_series_scope_key m =
     (let series_key = strip (opt_text (mi_series_key m));
          season = (case mi_begin_season m of
                      Some b \<Rightarrow> Some b
                    | None \<Rightarrow> py_int (get_season_seq m))
      in if series_key = [] then media_identity_key m
         else (case season of
                 None \<Rightarrow> series_key
               | Some n \<Rightarrow> series_key @ '':S'' @ two_digits n))"

section \<open>Facts about keys\<close>

lemma identity_keys_match_sym: "identity_keys_match a b = identity_keys_match b a"
  by (auto simp: identity_keys_match_def)

lemma identity_keys_match_trans:
  "identity_keys_match a b \<Longrightarrow> identity_keys_match b c \<Longrightarrow> identity_keys_match a c"
  by (auto simp: identity_keys_match_def)

lemma identity_keys_match_unique:
  assumes "distinct (map (\<lambda>k. normalize_identity_key (PStr k)) ks)"
    and "k \<in> set ks" "k' \<in> set ks" "identity_keys_match k x" "identity_keys_match k' x"
  shows "k = k'"
proof -
  have "normalize_identity_key (PStr k) = normalize_identity_key (PStr k')"
    using assms(4,5) by (simp add: identity_keys_match_def)
  with assms(1-3) show ?thesis by (auto simp: distinct_map dest: inj_onD)
qed

end
