(* ===== verification/DownloadBatch.thy ===== *)
theory DownloadBatch
  imports MediaItem
begin

text \<open>
  Batch downloading (\<open>services/download_strategies.py\<close> and \<open>batch_download\<close> of
  \<open>services/download_core.py\<close>): candidates are tried as movies, as season packs, as single
  episodes and at last as packs from which only the missing episodes are taken, while the record
  of missing seasons shrinks.

  Candidates and entries of missing seasons are mutable objects that several lists share, so both
  are kept in stores under references. Everything outside (sites, torrent files, downloaders) is the
  record \<open>dl_outside\<close>: each of its operations sees the log of all calls made so far, so nothing is
  assumed about its answers. \<open>None\<close> as a result state is an exception that leaves the batch. The sets
  of ints that the code turns back into lists have no order in Python; the model writes some list
  of their elements and no statement depends on it.
\<close>

section \<open>State\<close>

record need =
  nd_season :: "int option"
  nd_episodes :: "int list option"
  nd_total :: "int option"
  nd_offset :: pyval

datatype dl_event =
    UrlOf "string option" "string option"
  | Parsed "string option" "int list" "string option"
  | Download nat item "string option" "bool option" "string option" "string option"
  | ParsedTask string "string option" "int list"
  | HistoryUpdated string nat
  | FilesSelected string "int list" "string option"
  | Started string "string option"
  | Removed string "string option"

type_synonym dl_log = "dl_event list"

text \<open>The answers of the callbacks. A download answers a downloader and an id, \<open>None\<close> when it raises; of
  the others \<open>None\<close> and \<open>False\<close> say that the call raises.\<close>

record dl_outside =
  os_url :: "dl_log \<Rightarrow> string option \<Rightarrow> string option option"
  os_episodes :: "dl_log \<Rightarrow> string option \<Rightarrow> string option \<Rightarrow> (int list \<times> string option) option"
  os_download :: "dl_log \<Rightarrow> item \<Rightarrow> string option \<Rightarrow> bool option \<Rightarrow> (string option \<times> string option) option"
  os_task_episodes :: "dl_log \<Rightarrow> string \<Rightarrow> string option \<Rightarrow> int list option"
  os_select_files :: "dl_log \<Rightarrow> string \<Rightarrow> int list \<Rightarrow> bool"
  os_start :: "dl_log \<Rightarrow> string \<Rightarrow> bool"

record dl_state =
  st_items :: "nat \<Rightarrow> item"
  st_failed :: "nat set"
  st_tvs :: "nat \<Rightarrow> need"
  st_need :: "(string, nat list) dict"
  st_done :: "nat list"
  st_log :: dl_log

definition put_log :: "dl_event \<Rightarrow> dl_state \<Rightarrow> dl_state" where
  "put_log e s = s\<lparr>st_log := st_log s @ [e]\<rparr>"

definition put_item :: "nat \<Rightarrow> item \<Rightarrow> dl_state \<Rightarrow> dl_state" where
  "put_item i m s = s\<lparr>st_items := (st_items s)(i := m)\<rparr>"

definition mark_download_failed :: "nat \<Rightarrow> dl_state \<Rightarrow> dl_state" where
  "mark_download_failed i s = s\<lparr>st_failed := insert i (st_failed s)\<rparr>"

definition is_download_failed :: "nat \<Rightarrow> dl_state \<Rightarrow> bool" where
  "is_download_failed i s = (i \<in> st_failed s)"

text \<open>\<open>item in items\<close>: equality of items, not identity; the failure flag is no field.\<close>

definition in_items :: "dl_state \<Rightarrow> nat \<Rightarrow> nat list \<Rightarrow> bool" where
  "in_items s i is = list_ex (\<lambda>r. st_items s r = st_items s i) is"

definition append_new :: "dl_state \<Rightarrow> nat \<Rightarrow> nat list \<Rightarrow> nat list" where
  "append_new s i is = (if in_items s i is then is else is @ [i])"

section \<open>Episode numbers\<close>

definition infer_offset :: "int set \<Rightarrow> int set \<Rightarrow> int \<Rightarrow> int \<Rightarrow> int" where
  "infer_offset release need offset season =
     (if offset > 0 \<or> season \<le> 1 \<or> release = {} \<or> need = {} \<or> release \<inter> need \<noteq> {} then offset
      else if Min release \<le> Max need then offset
      else let candidate = Min release - Min need
           in if candidate > 0 \<and> (\<lambda>e. e - candidate) ` release \<subseteq> need then candidate else offset)"

definition episode_offset :: "need \<Rightarrow> int" where
  "episode_offset entry =
     (case pyval_int (py_or (nd_offset entry) (PInt 0)) of Some n \<Rightarrow> max 0 n | None \<Rightarrow> 0)"

definition match_release_episodes :: "int list \<Rightarrow> int list \<Rightarrow> int \<Rightarrow> int \<Rightarrow> int list \<times> int list" where
  "match_release_episodes release_episodes need_episodes offset season =
     (let release = set release_episodes; need = set need_episodes;
          offset = infer_offset release need offset season;
          selected_absolute = release \<inter> (\<lambda>e. e + offset) ` need;
          selected = release \<inter> need
      in if offset > 0 \<and> selected_absolute \<noteq> {} then
           (sorted_list_of_set selected_absolute,
            sorted_list_of_set ((\<lambda>e. e - offset) ` {e \<in> selected_absolute. e > offset}))
         else (sorted_list_of_set selected, sorted_list_of_set selected))"

definition relative_release_episodes :: "int list \<Rightarrow> int list \<Rightarrow> int \<Rightarrow> int \<Rightarrow> int list option" where
  "relative_release_episodes release_episodes need_episodes offset season =
     (let release = set release_episodes; need = set need_episodes;
          offset = infer_offset release need offset season
      in if release = {} then None
         else if offset > 0 \<and> release \<subseteq> (\<lambda>e. e + offset) ` need then
           Some (sorted_list_of_set ((\<lambda>e. e - offset) ` {e \<in> release. e > offset}))
         else if release \<subseteq> need then Some (sorted_list_of_set release)
         else None)"

section \<open>The callbacks\<close>

text \<open>\<open>if not item.enclosure: item.enclosure = get_download_url_callback(item.page_url)\<close>\<close>

definition fill_enclosure :: "dl_outside \<Rightarrow> nat \<Rightarrow> dl_state \<Rightarrow> dl_state option" where
  "fill_enclosure out i s =
     (let m = st_items s i
      in if opt_text (mi_enclosure m) \<noteq> [] then Some s
         else map_option (\<lambda>url. put_item i (m\<lparr>mi_enclosure := url\<rparr>) (put_log (UrlOf (mi_page_url m) url) s))
                (os_url out (st_log s) (mi_page_url m)))"

definition torrent_episodes :: "dl_outside \<Rightarrow> nat \<Rightarrow> dl_state \<Rightarrow> ((int list \<times> string option) \<times> dl_state) option" where
  "torrent_episodes out i s =
     (let m = st_items s i
      in map_option (\<lambda>(eps, path). ((eps, path), put_log (Parsed (mi_enclosure m) eps path) s))
           (os_episodes out (st_log s) (mi_enclosure m) (mi_page_url m)))"

text \<open>\<open>_download_callback\<close> of \<open>batch_download\<close>: a download that raises counts as a failure, and an
  accepted candidate enters the list \<open>download_items\<close> of the batch at once.\<close>

definition download_callback ::
  "dl_outside \<Rightarrow> nat \<Rightarrow> string option \<Rightarrow> bool option \<Rightarrow> dl_state \<Rightarrow> (string option \<times> string option) \<times> dl_state" where
  "download_callback out i torrent_file is_paused s =
     (let (downloader_id, download_id) =
            (case os_download out (st_log s) (st_items s i) torrent_file is_paused of
               Some r \<Rightarrow> r | None \<Rightarrow> (None, None));
          s1 = put_log (Download i (st_items s i) torrent_file is_paused downloader_id download_id) s;
          s2 = (if download_id \<noteq> None then s1\<lparr>st_done := append_new s1 i (st_done s1)\<rparr>
                else mark_download_failed i s1)
      in ((downloader_id, download_id), s2))"

section \<open>Movies\<close>

text \<open>The name under which at most one candidate is downloaded.\<close>

definition movie_name :: "item \<Rightarrow> string" where
  "movie_name m =
     (let movie_key = media_series_scope_key m in if movie_key \<noteq> [] then movie_key else get_title_string m)"

type_synonym movie_run = "string set \<times> nat list \<times> dl_state"

definition movie_step :: "dl_outside \<Rightarrow> nat \<Rightarrow> movie_run \<Rightarrow> movie_run option" where
  "movie_step out i = (\<lambda>(downloaded_names, return_items, s).
     let m = st_items s i
     in if mi_type m \<noteq> MOVIE \<or> is_download_failed i s then Some (downloaded_names, return_items, s)
        else if movie_name m \<in> downloaded_names then Some (downloaded_names, return_items, s)
        else (case fill_enclosure out i s of
                None \<Rightarrow> None
              | Some s1 \<Rightarrow>
                  let ((_, did), s2) = download_callback out i None None s1
                  in if did \<noteq> None then
                       Some (insert (movie_name m) downloaded_names, append_new s2 i return_items, s2)
                     else Some (downloaded_names, return_items, mark_download_failed i s2)))"

definition download_movies :: "dl_outside \<Rightarrow> nat list \<Rightarrow> dl_state \<Rightarrow> (nat list \<times> dl_state) option" where
  "download_movies out download_list s =
     map_option snd (for_each (movie_step out) download_list ({}, [], s))"

section \<open>Missing seasons\<close>

definition season_of :: "need \<Rightarrow> int" where
  "season_of tv = (case nd_season tv of None \<Rightarrow> 1 | Some n \<Rightarrow> if n = 0 then 1 else n)"

definition episodes_of :: "need \<Rightarrow> int list" where
  "episodes_of tv = (case nd_episodes tv of None \<Rightarrow> [] | Some es \<Rightarrow> es)"

definition total_of :: "need \<Rightarrow> int" where
  "total_of tv = (case nd_total tv of None \<Rightarrow> 0 | Some n \<Rightarrow> n)"

text \<open>\<open>need_tvs.get(key, [])\<close>\<close>

definition entries :: "dl_state \<Rightarrow> string \<Rightarrow> nat list" where
  "entries s key = (case dget (st_need s) key of None \<Rightarrow> [] | Some rs \<Rightarrow> rs)"

definition build_need_seasons :: "dl_state \<Rightarrow> (string, int list) dict" where
  "build_need_seasons s =
     List.map_filter (\<lambda>(key, rs).
       let whole = map (\<lambda>r. season_of (st_tvs s r)) (filter (\<lambda>r. episodes_of (st_tvs s r) = []) rs)
       in if whole = [] then None else Some (key, whole)) (st_need s)"

definition get_season_episodes :: "dl_state \<Rightarrow> string \<Rightarrow> int \<Rightarrow> int" where
  "get_season_episodes s key season =
     (case find (\<lambda>r. nd_season (st_tvs s r) = Some season) (entries s key) of
        None \<Rightarrow> 0 | Some r \<Rightarrow> total_of (st_tvs s r))"

text \<open>\<open>list.remove(nt)\<close>: the first entry with the same fields goes.\<close>

fun remove_first :: "('a \<Rightarrow> bool) \<Rightarrow> 'a list \<Rightarrow> 'a list" where
  "remove_first P [] = []"
| "remove_first P (x # xs) = (if P x then xs else x # remove_first P xs)"

definition put_entries :: "string \<Rightarrow> nat list \<Rightarrow> dl_state \<Rightarrow> dl_state" where
  "put_entries key rs s = s\<lparr>st_need := dput key rs (st_need s)\<rparr>"

definition pop_if_empty :: "string \<Rightarrow> dl_state \<Rightarrow> dl_state" where
  "pop_if_empty key s = (if entries s key = [] then s\<lparr>st_need := dpop key (st_need s)\<rparr> else s)"

text \<open>The entries of the seasons of a downloaded pack are removed.\<close>

definition remove_season :: "string \<Rightarrow> int \<Rightarrow> dl_state \<Rightarrow> dl_state" where
  "remove_season key cur s =
     fold (\<lambda>nt s.
         let season = nd_season (st_tvs s nt)
         in if season = Some cur \<or> cur = 1 \<and> (season = None \<or> season = Some 0) then
              put_entries key (remove_first (\<lambda>r. st_tvs s r = st_tvs s nt) (entries s key)) s
            else s) (entries s key) s"

section \<open>Season packs\<close>

type_synonym pack_run = "int list \<times> (string, int list) dict \<times> nat list \<times> dl_state"

text \<open>What a candidate that passed the tests is handed over with: \<open>None\<close> says that it is skipped.\<close>

definition check_coverage ::
  "dl_outside \<Rightarrow> nat \<Rightarrow> int \<Rightarrow> dl_state \<Rightarrow> (string option option \<times> dl_state) option" where
  "check_coverage out i total_eps s =
     map_option (\<lambda>((eps, path), s1).
         let covered = set eps
         in if covered = {} then (None, s1)
            else if (if total_eps \<noteq> 0 then int (card covered) \<ge> total_eps else card covered \<ge> 2)
            then (Some path, s1) else (None, s1))
       (torrent_episodes out i s)"

definition pack_offer ::
  "dl_outside \<Rightarrow> string \<Rightarrow> nat \<Rightarrow> int list \<Rightarrow> dl_state \<Rightarrow> (string option option \<times> dl_state) option" where
  "pack_offer out key i item_season s =
     (if length item_season = 1 then check_coverage out i (get_season_episodes s key (hd item_season)) s
      else if startswith (opt_text (mi_enclosure (st_items s i))) ''magnet:'' then Some (Some None, s)
      else check_coverage out i (sum_list (map (get_season_episodes s key) item_season)) s)"

definition pack_step :: "dl_outside \<Rightarrow> string \<Rightarrow> nat \<Rightarrow> pack_run \<Rightarrow> pack_run option" where
  "pack_step out key i = (\<lambda>(need_season, need_seasons, return_items, s).
     let m = st_items s i; item_season = get_season_list m;
         skip = (\<lambda>s. Some (need_season, need_seasons, return_items, s))
     in if mi_type m = MOVIE \<or> is_download_failed i s \<or> get_episode_list m \<noteq> [] \<or>
           \<not> identity_keys_match key (media_series_scope_key m) then skip s
        else (case fill_enclosure out i s of
          None \<Rightarrow> None
        | Some s1 \<Rightarrow>
            if \<not> set item_season \<subseteq> set need_season then skip s1
            else (case pack_offer out key i item_season s1 of
              None \<Rightarrow> None
            | Some (None, s2) \<Rightarrow> skip s2
            | Some (Some torrent_file, s2) \<Rightarrow>
                let ((_, did), s3) = download_callback out i torrent_file None s2
                in if did = None then skip s3
                   else
                     let need_season' = remdups (filter (\<lambda>n. n \<notin> set item_season) need_season);
                         s4 = pop_if_empty key (fold (remove_season key) item_season s3)
                     in Some (need_season', dput key need_season' need_seasons,
                              append_new s3 i return_items, s4))))"

definition find_packs_of ::
  "dl_outside \<Rightarrow> nat list \<Rightarrow> string \<times> int list \<Rightarrow> (string, int list) dict \<times> nat list \<times> dl_state \<Rightarrow>
   ((string, int list) dict \<times> nat list \<times> dl_state) option" where
  "find_packs_of out download_list = (\<lambda>(key, need_season) (need_seasons, return_items, s).
     map_option (\<lambda>(left, need_seasons, return_items, s).
         (if left = [] then dpop key need_seasons else need_seasons, return_items, s))
       (for_each (pack_step out key) download_list (need_season, need_seasons, return_items, s)))"

definition find_season_packs ::
  "dl_outside \<Rightarrow> nat list \<Rightarrow> (string, int list) dict \<Rightarrow> dl_state \<Rightarrow>
   (nat list \<times> (string, int list) dict \<times> dl_state) option" where
  "find_season_packs out download_list need_seasons s =
     map_option (\<lambda>(need_seasons, return_items, s). (return_items, need_seasons, s))
       (for_each (find_packs_of out download_list) need_seasons (need_seasons, [], s))"

section \<open>Single episodes\<close>

text \<open>\<open>_update_episodes\<close>: the first entry of the season takes the episodes still missing, or goes.\<close>

definition update_episodes :: "string \<Rightarrow> int list \<Rightarrow> int list \<Rightarrow> int \<Rightarrow> dl_state \<Rightarrow> int list \<times> dl_state" where
  "update_episodes key need current season s =
     (let left = remdups (filter (\<lambda>e. e \<notin> set current) need); tv_list = entries s key
      in case find (\<lambda>r. nd_season (st_tvs s r) = Some season) tv_list of
           None \<Rightarrow> (left, s)
         | Some r \<Rightarrow>
             if left \<noteq> [] then
               (left, s\<lparr>st_tvs := (st_tvs s)(r := (st_tvs s r)\<lparr>nd_episodes := Some left\<rparr>)\<rparr>)
             else
               (left, pop_if_empty key
                  (put_entries key (remove_first (\<lambda>r. nd_season (st_tvs s r) = Some season) tv_list) s)))"

definition set_episodes :: "int list \<Rightarrow> item \<Rightarrow> item" where
  "set_episodes es m =
     (if es = [] then m
      else m\<lparr>mi_begin_episode := Some (hd es), mi_end_episode := (if length es > 1 then Some (last es) else None)\<rparr>)"

text \<open>The episodes of a candidate: those of its title, or of its torrent file. An enclosure that stays
  \<open>None\<close> raises at \<open>startswith\<close>.\<close>

definition item_episodes :: "dl_outside \<Rightarrow> nat \<Rightarrow> dl_state \<Rightarrow> (int list \<times> dl_state) option" where
  "item_episodes out i s =
     (let eps = get_episode_list (st_items s i)
      in if eps \<noteq> [] then Some (eps, s)
         else (case fill_enclosure out i s of
           None \<Rightarrow> None
         | Some s1 \<Rightarrow>
             (case mi_enclosure (st_items s1 i) of
                None \<Rightarrow> None
              | Some url \<Rightarrow>
                  if startswith url ''magnet'' then Some ([], s1)
                  else map_option (\<lambda>((eps, _), s2). (eps, s2)) (torrent_episodes out i s1))))"

type_synonym episode_run = "int list \<times> dl_state"

definition episode_step :: "dl_outside \<Rightarrow> string \<Rightarrow> int \<Rightarrow> int \<Rightarrow> nat \<Rightarrow> episode_run \<Rightarrow> episode_run option" where
  "episode_step out key need_season offset i = (\<lambda>(need_episodes, s).
     let m = st_items s i; skip = (\<lambda>s. Some (need_episodes, s))
     in if mi_type m = MOVIE \<or> \<not> identity_keys_match key (media_series_scope_key m) \<or>
           in_items s i (st_done s) \<or> is_download_failed i s \<or> get_season_list m \<noteq> [need_season] then skip s
        else (case item_episodes out i s of
          None \<Rightarrow> None
        | Some (eps, s1) \<Rightarrow>
            if eps = [] then skip s1
            else (case relative_release_episodes eps need_episodes offset need_season of
              None \<Rightarrow> skip s1
            | Some relative \<Rightarrow>
                let s2 = put_item i (set_episodes relative (st_items s1 i)) s1;
                    ((_, did), s3) = download_callback out i None None s2
                in if did = None then skip s3
                   else
                     let s4 = s3\<lparr>st_done := append_new s3 i (st_done s3)\<rparr>
                     in Some (update_episodes key need_episodes relative need_season s4))))"

definition episodes_of_entry ::
  "dl_outside \<Rightarrow> nat list \<Rightarrow> string \<Rightarrow> nat \<Rightarrow> dl_state \<Rightarrow> dl_state option" where
  "episodes_of_entry out download_list key r s =
     (let tv = st_tvs s r; total = total_of tv;
          run = (\<lambda>need. map_option snd
                   (for_each (episode_step out key (season_of tv) (episode_offset tv)) download_list (need, s)))
      in if episodes_of tv \<noteq> [] then run (episodes_of tv)
         else if total = 0 then Some s
         else run [1..total])"

definition download_episodes :: "dl_outside \<Rightarrow> nat list \<Rightarrow> dl_state \<Rightarrow> dl_state option" where
  "download_episodes out download_list s =
     for_each (\<lambda>key s. for_each (episodes_of_entry out download_list key) (entries s key) s)
       (keys (st_need s)) s"

section \<open>Episodes out of season packs\<close>

text \<open>The part after the task was added paused: the missing episodes are struck off, the files are
  selected and the task is started. \<open>None\<close> as the result stands for the exception that is caught; the
  state then still holds what was done before it.\<close>

definition take_episodes ::
  "dl_outside \<Rightarrow> string \<Rightarrow> int \<Rightarrow> nat \<Rightarrow> string \<Rightarrow> string option \<Rightarrow> int list \<Rightarrow> int list \<Rightarrow> episode_run \<Rightarrow>
   bool \<times> episode_run" where
  "take_episodes out key need_season i download_id downloader_id release_episodes relative_episodes =
     (\<lambda>(need_episodes, s).
       let s1 = (if relative_episodes = [] then s
                 else put_log (HistoryUpdated download_id i)
                        (put_item i (set_episodes relative_episodes (st_items s i)) s));
           (need', s2) = update_episodes key need_episodes relative_episodes need_season s1;
           selected = os_select_files out (st_log s2) download_id release_episodes
       in (selected, need', put_log (FilesSelected download_id release_episodes downloader_id) s2))"

definition start_task :: "dl_outside \<Rightarrow> nat \<Rightarrow> string \<Rightarrow> string option \<Rightarrow> dl_state \<Rightarrow> dl_state" where
  "start_task out i download_id downloader_id s =
     (let s1 = put_log (Started download_id downloader_id) s
      in if os_start out (st_log s) download_id then s1\<lparr>st_done := append_new s1 i (st_done s1)\<rparr>
         else put_log (Removed download_id downloader_id) s1)"

definition rollback :: "string \<Rightarrow> string option \<Rightarrow> dl_state \<Rightarrow> dl_state" where
  "rollback download_id downloader_id s = put_log (Removed download_id downloader_id) s"

definition magnet_step ::
  "dl_outside \<Rightarrow> string \<Rightarrow> int \<Rightarrow> int \<Rightarrow> nat \<Rightarrow> episode_run \<Rightarrow> episode_run" where
  "magnet_step out key need_season offset i = (\<lambda>(need_episodes, s).
     let ((downloader_id, download_id), s1) = download_callback out i None (Some True) s
     in case download_id of
          None \<Rightarrow> (need_episodes, s1)
        | Some did \<Rightarrow>
            (case os_task_episodes out (st_log s1) did downloader_id of
               None \<Rightarrow> (need_episodes, rollback did downloader_id s1)
             | Some eps \<Rightarrow>
                 let s2 = put_log (ParsedTask did downloader_id eps) s1
                 in if eps = [] then (need_episodes, start_task out i did downloader_id s2)
                    else
                      let (release_episodes, relative_episodes) = match_release_episodes eps need_episodes offset 1
                      in if release_episodes = [] then (need_episodes, rollback did downloader_id s2)
                         else
                           let (ok, need', s3) =
                                 take_episodes out key need_season i did downloader_id
                                   release_episodes relative_episodes (need_episodes, s2)
                           in (need', if ok then start_task out i did downloader_id s3
                                      else rollback did downloader_id s3)))"

definition torrent_step ::
  "dl_outside \<Rightarrow> string \<Rightarrow> int \<Rightarrow> int \<Rightarrow> nat \<Rightarrow> episode_run \<Rightarrow> episode_run option" where
  "torrent_step out key need_season offset i = (\<lambda>(need_episodes, s).
     map_option (\<lambda>((eps, path), s1).
         let (release_episodes, relative_episodes) = match_release_episodes eps need_episodes offset 1
         in if release_episodes = [] then (need_episodes, s1)
            else
              let ((downloader_id, download_id), s2) = download_callback out i path (Some True) s1
              in case download_id of
                   None \<Rightarrow> (need_episodes, s2)
                 | Some did \<Rightarrow>
                     let (ok, need', s3) =
                           take_episodes out key need_season i did downloader_id
                             release_episodes relative_episodes (need_episodes, s2)
                     in (need', if ok then start_task out i did downloader_id s3
                                else rollback did downloader_id s3))
       (torrent_episodes out i s))"

text \<open>The \<open>break\<close> on an empty list of episodes is a skip of the rest of the candidates.\<close>

definition pack_episode_step ::
  "dl_outside \<Rightarrow> string \<Rightarrow> int \<Rightarrow> int \<Rightarrow> nat \<Rightarrow> episode_run \<Rightarrow> episode_run option" where
  "pack_episode_step out key need_season offset i = (\<lambda>(need_episodes, s).
     let m = st_items s i; eps = get_episode_list m
     in if mi_type m = MOVIE \<or> in_items s i (st_done s) \<or> is_download_failed i s \<or> need_episodes = [] \<or>
           \<not> identity_keys_match key (media_series_scope_key m) \<or>
           eps \<noteq> [] \<and> fst (match_release_episodes eps need_episodes offset need_season) = [] \<or>
           get_season_list m \<noteq> [need_season] then Some (need_episodes, s)
        else (case fill_enclosure out i s of
          None \<Rightarrow> None
        | Some s1 \<Rightarrow>
            if startswith (opt_text (mi_enclosure (st_items s1 i))) ''magnet:''
            then Some (magnet_step out key need_season offset i (need_episodes, s1))
            else torrent_step out key need_season offset i (need_episodes, s1)))"

definition pack_episodes_of_entry ::
  "dl_outside \<Rightarrow> nat list \<Rightarrow> string \<Rightarrow> nat \<Rightarrow> dl_state \<Rightarrow> dl_state option" where
  "pack_episodes_of_entry out download_list key r s =
     (let tv = st_tvs s r
      in if episodes_of tv = [] then Some s
         else map_option snd
           (for_each (pack_episode_step out key (season_of tv) (episode_offset tv)) download_list
              (episodes_of tv, s)))"

definition download_from_season_pack :: "dl_outside \<Rightarrow> nat list \<Rightarrow> dl_state \<Rightarrow> dl_state option" where
  "download_from_season_pack out download_list s =
     for_each (\<lambda>key s. for_each (pack_episodes_of_entry out download_list key) (entries s key) s)
       (keys (st_need s)) s"

section \<open>The batch\<close>

text \<open>\<open>if need_tvs:\<close> before each of the three phases for series.\<close>

definition when_missing :: "(dl_state \<Rightarrow> dl_state option) \<Rightarrow> dl_state \<Rightarrow> dl_state option" where
  "when_missing phase s = (if st_need s = [] then Some s else phase s)"

definition season_phase :: "dl_outside \<Rightarrow> nat list \<Rightarrow> dl_state \<Rightarrow> dl_state option" where
  "season_phase out download_list s =
     map_option (\<lambda>(pack_items, _, s1). s1\<lparr>st_done := fold (append_new s1) pack_items (st_done s1)\<rparr>)
       (find_season_packs out download_list (build_need_seasons s) s)"

text \<open>The result: the items reported as downloaded, and those of \<open>media_list\<close> that were not.\<close>

definition batch_download ::
  "dl_outside \<Rightarrow> nat list \<Rightarrow> nat list \<Rightarrow> dl_state \<Rightarrow> ((nat list \<times> nat list) \<times> dl_state) option" where
  "batch_download out media_list download_list s =
     Option.bind (download_movies out download_list (s\<lparr>st_done := []\<rparr>)) (\<lambda>(got, s1).
     Option.bind (when_missing (season_phase out download_list) (s1\<lparr>st_done := got\<rparr>)) (\<lambda>s2.
     Option.bind (when_missing (download_episodes out download_list) s2) (\<lambda>s3.
     Option.bind (when_missing (download_from_season_pack out download_list) s3) (\<lambda>s4.
       Some ((st_done s4, filter (\<lambda>i. \<not> in_items s4 i (st_done s4)) media_list), s4)))))"

end
