(* ===== verification/DownloadBatchProofs.thy ===== *)
theory DownloadBatchProofs
  imports DownloadBatch
begin

text \<open>
  What the batch of \<^verbatim>\<open>DownloadBatch\<close> guarantees. Steps are classified by what they may change
  (\<open>calm\<close>: no call of the downloader; \<open>called\<close>: one call for one candidate; \<open>untouched\<close>: the record of missing
  seasons is left alone); on top of that, no candidate is called twice, no missing episode is struck off
  without a download in the phase of single episodes, and the candidates of a movie are tried in order. Two theorems
  state what the code does wrong: the guessed offset and the rollback.
\<close>

section \<open>What a step may change\<close>

text \<open>The candidates handed to the downloader so far, and the part of an item no step changes.\<close>

definition calls :: "dl_log \<Rightarrow> nat list" where
  "calls l = List.map_filter (\<lambda>e. case e of Download i _ _ _ _ _ \<Rightarrow> Some i | _ \<Rightarrow> None) l"

definition item_core :: "item \<Rightarrow> item" where
  "item_core m = m\<lparr>mi_begin_episode := None, mi_end_episode := None, mi_enclosure := None\<rparr>"

definition calm :: "dl_state \<Rightarrow> dl_state \<Rightarrow> bool" where
  "calm s s' \<longleftrightarrow> calls (st_log s') = calls (st_log s) \<and> item_core \<circ> st_items s' = item_core \<circ> st_items s \<and>
     st_failed s' = st_failed s \<and> st_done s' = st_done s"

definition called :: "nat \<Rightarrow> dl_state \<Rightarrow> dl_state \<Rightarrow> bool" where
  "called i s s' \<longleftrightarrow> calls (st_log s') = calls (st_log s) @ [i] \<and> item_core \<circ> st_items s' = item_core \<circ> st_items s \<and>
     (st_failed s' = insert i (st_failed s) \<and> st_done s' = st_done s \<or>
      st_failed s' = st_failed s \<and> set (st_done s') = insert i (set (st_done s)))"

text \<open>Candidates are told apart by more than their link and their episodes.\<close>

definition told_apart :: "nat list \<Rightarrow> dl_state \<Rightarrow> bool" where
  "told_apart dl s \<longleftrightarrow> inj_on (item_core \<circ> st_items s) (set dl) \<and> set (st_done s) \<subseteq> set dl"

lemma calls_Nil [simp]: "calls [] = []"
  by (simp add: calls_def List.map_filter_def)

lemma calls_append [simp]: "calls (l @ l') = calls l @ calls l'"
  by (simp add: calls_def List.map_filter_def)

lemma calls_event [simp]:
  "calls [UrlOf a b] = []" "calls [Parsed c d e] = []" "calls [ParsedTask f g h] = []"
  "calls [HistoryUpdated j k] = []" "calls [FilesSelected l m n] = []" "calls [Started p q] = []"
  "calls [Removed r t] = []" "calls [Download i u v w x y] = [i]"
  by (simp_all add: calls_def List.map_filter_def)

lemma core_update [simp]:
  "item_core (m\<lparr>mi_enclosure := u\<rparr>) = item_core m" "item_core (set_episodes es m) = item_core m"
  by (simp_all add: item_core_def set_episodes_def)

lemma core_select [simp]:
  "mi_type (item_core m) = mi_type m" "mi_title (item_core m) = mi_title m" "mi_name (item_core m) = mi_name m"
  "mi_year (item_core m) = mi_year m" "mi_identity_id (item_core m) = mi_identity_id m"
  "mi_series_key (item_core m) = mi_series_key m" "mi_anchor_provider (item_core m) = mi_anchor_provider m"
  "mi_anchor_external_id (item_core m) = mi_anchor_external_id m" "mi_tmdb_id (item_core m) = mi_tmdb_id m"
  "mi_douban_id (item_core m) = mi_douban_id m" "mi_begin_season (item_core m) = mi_begin_season m"
  "mi_end_season (item_core m) = mi_end_season m"
  by (simp_all add: item_core_def)

lemma core_seasons [simp]: "get_season_list (item_core m) = get_season_list m"
  unfolding get_season_list_def core_select by (rule refl)

lemma core_title [simp]: "get_title_string (item_core m) = get_title_string m"
  unfolding get_title_string_def core_select by (rule refl)

lemma core_scope [simp]: "media_series_scope_key (item_core m) = media_series_scope_key m"
  unfolding media_series_scope_key_def media_identity_key_def get_media_ref_def get_season_seq_def core_select
  by (rule refl)

lemma core_fields:
  assumes "item_core m = item_core m'"
  shows "mi_type m = mi_type m'" "media_series_scope_key m = media_series_scope_key m'"
    "get_season_list m = get_season_list m'" "movie_name m = movie_name m'"
  using arg_cong [OF assms, of mi_type] arg_cong [OF assms, of media_series_scope_key]
    arg_cong [OF assms, of get_season_list] arg_cong [OF assms, of get_title_string]
  by (simp_all add: movie_name_def Let_def)

lemma calm_refl [simp]: "calm s s"
  by (simp add: calm_def)

lemma calm_trans: "calm s s1 \<Longrightarrow> calm s1 s2 \<Longrightarrow> calm s s2"
  by (simp add: calm_def)

lemma called_calm: "called i s s1 \<Longrightarrow> calm s1 s2 \<Longrightarrow> called i s s2"
  by (simp add: called_def calm_def)

lemma calm_called: "calm s s1 \<Longrightarrow> called i s1 s2 \<Longrightarrow> called i s s2"
  by (simp add: called_def calm_def)

lemma told_apart_calm: "told_apart dl s \<Longrightarrow> calm s s' \<Longrightarrow> told_apart dl s'"
  by (simp add: told_apart_def calm_def)

lemma told_apart_called: "told_apart dl s \<Longrightarrow> called i s s' \<Longrightarrow> i \<in> set dl \<Longrightarrow> told_apart dl s'"
  by (auto simp: told_apart_def called_def)

lemma in_items_told_apart:
  assumes "told_apart dl s" "i \<in> set dl" "set is \<subseteq> set dl"
  shows "in_items s i is \<longleftrightarrow> i \<in> set is"
proof
  assume "in_items s i is"
  then obtain r where r: "r \<in> set is" "item_core (st_items s r) = item_core (st_items s i)"
    by (auto simp: in_items_def list_ex_iff)
  with assms(3) have "r \<in> set dl" by blast
  with r assms(1,2) have "r = i" by (auto simp: told_apart_def inj_on_def)
  with r(1) show "i \<in> set is" by simp
qed (auto simp: in_items_def list_ex_iff)

lemma append_new_told_apart:
  "told_apart dl s \<Longrightarrow> i \<in> set dl \<Longrightarrow> set is \<subseteq> set dl \<Longrightarrow> append_new s i is = (if i \<in> set is then is else is @ [i])"
  by (simp add: append_new_def in_items_told_apart)

named_theorems calm_rules \<open>steps that make no call of the downloader\<close>

lemma calm_put_item [calm_rules]: "item_core m = item_core (st_items s i) \<Longrightarrow> calm s (put_item i m s)"
  by (auto simp: calm_def put_item_def fun_eq_iff)

lemma calm_put_log [calm_rules]: "calls [e] = [] \<Longrightarrow> calm s (put_log e s)"
  by (simp add: calm_def put_log_def)

lemma calm_tvs [calm_rules]: "calm s (s\<lparr>st_tvs := t\<rparr>)" "calm s (s\<lparr>st_need := n\<rparr>)"
  by (simp_all add: calm_def)

lemma calm_fill_enclosure: "fill_enclosure out i s = Some s' \<Longrightarrow> calm s s'"
  by (auto simp: fill_enclosure_def Let_def calm_def put_item_def put_log_def fun_eq_iff split: if_splits)

lemma calm_torrent_episodes: "torrent_episodes out i s = Some (r, s') \<Longrightarrow> calm s s'"
  by (auto simp: torrent_episodes_def Let_def intro: calm_rules)

lemma calm_pop_if_empty [simp]: "calm s (pop_if_empty key s)"
  by (simp add: pop_if_empty_def calm_rules)

lemma calm_put_entries [simp]: "calm s (put_entries key rs s)"
  by (simp add: put_entries_def calm_rules)

lemma calm_fold: "(\<And>x s. x \<in> set xs \<Longrightarrow> calm s (f x s)) \<Longrightarrow> calm s (fold f xs s)"
  by (induction xs arbitrary: s) (auto intro: calm_trans)

lemma calm_remove_season [simp]: "calm s (remove_season key cur s)"
  by (auto simp: remove_season_def Let_def intro!: calm_fold)

lemma calm_update_episodes: "update_episodes key need cur season s = (need', s') \<Longrightarrow> calm s s'"
  by (auto simp: update_episodes_def Let_def calm_rules split: option.splits if_splits
      intro: calm_trans [OF calm_put_entries calm_pop_if_empty])

lemma called_download_callback:
  assumes "download_callback out i f p s = ((dler, did), s')" and "told_apart dl s" and "i \<in> set dl"
  shows "called i s s'" "did \<noteq> None \<Longrightarrow> i \<in> set (st_done s')"
    "did = None \<Longrightarrow> i \<in> st_failed s' \<and> st_done s' = st_done s"
proof -
  define l where "l = st_log s @ [Download i (st_items s i) f p dler did]"
  have "told_apart dl (s\<lparr>st_log := l\<rparr>)" using assms(2) by (simp add: told_apart_def)
  then have app: "append_new (s\<lparr>st_log := l\<rparr>) i (st_done s) = (if i \<in> set (st_done s) then st_done s else st_done s @ [i])"
    using assms(2,3) by (intro append_new_told_apart) (auto simp: told_apart_def)
  have s': "s' = (if did \<noteq> None then s\<lparr>st_log := l, st_done := append_new (s\<lparr>st_log := l\<rparr>) i (st_done s)\<rparr>
                  else s\<lparr>st_log := l, st_failed := insert i (st_failed s)\<rparr>)"
    using assms(1)
    by (auto simp: download_callback_def Let_def mark_download_failed_def put_log_def l_def split: prod.splits)
  show "called i s s'" by (auto simp: s' called_def app) (simp_all add: l_def)
  show "did \<noteq> None \<Longrightarrow> i \<in> set (st_done s')" "did = None \<Longrightarrow> i \<in> st_failed s' \<and> st_done s' = st_done s"
    by (auto simp: s' app)
qed

section \<open>One call per candidate\<close>

definition handled :: "dl_state \<Rightarrow> nat \<Rightarrow> bool" where
  "handled s i \<longleftrightarrow> mi_type (st_items s i) = MOVIE \<or> i \<in> st_failed s \<or> i \<in> set (st_done s)"

text \<open>Candidates are told apart, none was called twice, and those called need no second call.\<close>

definition orderly :: "nat list \<Rightarrow> dl_state \<Rightarrow> bool" where
  "orderly dl s \<longleftrightarrow> told_apart dl s \<and> distinct (calls (st_log s)) \<and> set (calls (st_log s)) \<subseteq> set dl \<and>
     (\<forall>i \<in> set (calls (st_log s)). handled s i)"

definition guarded_call :: "nat \<Rightarrow> dl_state \<Rightarrow> dl_state \<Rightarrow> bool" where
  "guarded_call i s s' \<longleftrightarrow> calm s s' \<or> called i s s' \<and> i \<notin> set (calls (st_log s))"

lemma calm_item: "calm s s' \<Longrightarrow> item_core (st_items s' j) = item_core (st_items s j)"
  by (simp add: calm_def fun_eq_iff)

lemma called_item: "called i s s' \<Longrightarrow> item_core (st_items s' j) = item_core (st_items s j)"
  by (simp add: called_def fun_eq_iff)

lemma handled_calm: "calm s s' \<Longrightarrow> handled s' j = handled s j"
  using core_fields(1) [OF calm_item [of s s' j]] by (simp add: handled_def) (simp add: calm_def)

lemma called_mono:
  assumes "called i s s'"
  shows "st_failed s \<subseteq> st_failed s'" "set (st_done s) \<subseteq> set (st_done s')"
    "i \<in> st_failed s' \<or> i \<in> set (st_done s')"
proof -
  from assms have "st_failed s' = insert i (st_failed s) \<and> st_done s' = st_done s \<or>
      st_failed s' = st_failed s \<and> set (st_done s') = insert i (set (st_done s))"
    unfolding called_def by blast
  then show "st_failed s \<subseteq> st_failed s'" "set (st_done s) \<subseteq> set (st_done s')"
    "i \<in> st_failed s' \<or> i \<in> set (st_done s')"
    by (elim disjE; simp add: subset_insertI)+
qed

lemma handled_called:
  assumes "called i s s'" "handled s j \<or> j = i"
  shows "handled s' j"
proof -
  have ty: "mi_type (st_items s' j) = mi_type (st_items s j)"
    by (rule core_fields(1) [OF called_item [OF assms(1)]])
  from assms(2) called_mono [OF assms(1)] show ?thesis unfolding handled_def ty by blast
qed

lemma orderly_guarded:
  assumes "orderly dl s" "i \<in> set dl" "guarded_call i s s'"
  shows "orderly dl s'"
proof (cases "calm s s'")
  case True
  with assms(1) have "told_apart dl s'" by (auto simp: orderly_def intro: told_apart_calm)
  moreover have "calls (st_log s') = calls (st_log s)" using True by (simp add: calm_def)
  ultimately show ?thesis using assms(1) True by (simp add: orderly_def handled_calm)
next
  case False
  with assms(3) have c: "called i s s'" "i \<notin> set (calls (st_log s))" by (simp_all add: guarded_call_def)
  have "told_apart dl s'" using assms(1,2) c(1) by (auto simp: orderly_def intro: told_apart_called)
  moreover have cs: "calls (st_log s') = calls (st_log s) @ [i]" using c(1) by (simp add: called_def)
  moreover have "\<forall>j \<in> set (calls (st_log s')). handled s' j"
    using assms(1) unfolding cs by (auto simp: orderly_def intro: handled_called [OF c(1)])
  ultimately show ?thesis using assms(1,2) c(2) by (simp add: orderly_def)
qed

lemma calm_item_episodes: "item_episodes out i s = Some (eps, s') \<Longrightarrow> calm s s'"
  by (auto simp: item_episodes_def Let_def split: option.splits if_splits
      dest!: calm_fill_enclosure calm_torrent_episodes intro: calm_trans)

text \<open>After the callback accepted a candidate, appending it again changes nothing.\<close>

lemma append_again:
  assumes "told_apart dl s" "i \<in> set (st_done s)"
  shows "s\<lparr>st_done := append_new s i (st_done s)\<rparr> = s"
proof -
  have "append_new s i (st_done s) = st_done s"
    using assms append_new_told_apart [OF assms(1), of i "st_done s"] by (auto simp: told_apart_def)
  then show ?thesis by simp
qed

lemma guarded_episode_step:
  assumes "episode_step out key season offset i (need, s) = Some (need', s')"
    and "orderly dl s" "i \<in> set dl"
  shows "guarded_call i s s'"
proof -
  have ta: "told_apart dl s" using assms(2) by (simp add: orderly_def)
  let ?m = "st_items s i"
  show ?thesis
  proof (cases "mi_type ?m = MOVIE \<or> \<not> identity_keys_match key (media_series_scope_key ?m) \<or>
      in_items s i (st_done s) \<or> is_download_failed i s \<or> get_season_list ?m \<noteq> [season]")
    case True
    with assms(1) have "s' = s" by (simp add: episode_step_def Let_def)
    then show ?thesis by (simp add: guarded_call_def)
  next
    case False
    then have fresh: "i \<notin> set (calls (st_log s))"
      using assms(2,3) ta by (auto simp: orderly_def handled_def is_download_failed_def in_items_told_apart told_apart_def)
    from False assms(1) obtain eps s1 where eps: "item_episodes out i s = Some (eps, s1)"
      by (auto simp: episode_step_def Let_def split: option.splits)
    have c1: "calm s s1" using eps by (rule calm_item_episodes)
    show ?thesis
    proof (cases "eps = [] \<or> relative_release_episodes eps need offset season = None")
      case True
      with False assms(1) eps have "s' = s1" by (auto simp: episode_step_def Let_def split: if_splits)
      with c1 show ?thesis by (simp add: guarded_call_def)
    next
      case skip: False
      then obtain rel where rel: "relative_release_episodes eps need offset season = Some rel" by blast
      define s2 where "s2 = put_item i (set_episodes rel (st_items s1 i)) s1"
      have c2: "calm s s2" unfolding s2_def by (rule calm_trans [OF c1 calm_put_item]) simp
      obtain dler did s3 where cb: "download_callback out i None None s2 = ((dler, did), s3)"
        by (metis prod.exhaust)
      have ta2: "told_apart dl s2" by (rule told_apart_calm [OF ta c2])
      note cb' = called_download_callback [OF cb ta2 assms(3)]
      have c3: "called i s s3" by (rule calm_called [OF c2 cb'(1)])
      show ?thesis
      proof (cases did)
        case None
        with False assms(1) eps skip rel cb have "s' = s3"
          by (simp add: episode_step_def Let_def s2_def [symmetric])
        with c3 fresh show ?thesis by (simp add: guarded_call_def)
      next
        case (Some d)
        have "told_apart dl s3" by (rule told_apart_called [OF ta c3 assms(3)])
        with cb'(2) Some have again: "s3\<lparr>st_done := append_new s3 i (st_done s3)\<rparr> = s3" by (intro append_again) simp_all
        from False assms(1) eps skip rel cb Some again have "update_episodes key need rel season s3 = (need', s')"
          by (simp add: episode_step_def Let_def s2_def [symmetric])
        then have "called i s s'" using c3 by (blast intro: called_calm calm_update_episodes)
        with fresh show ?thesis by (simp add: guarded_call_def)
      qed
    qed
  qed
qed

lemma calm_take_episodes:
  assumes "take_episodes out key season i did dler rels relative (need, s) = (ok, need', s')"
  shows "calm s s'"
proof -
  define s1 where "s1 = (if relative = [] then s
     else put_log (HistoryUpdated did i) (put_item i (set_episodes relative (st_items s i)) s))"
  have c1: "calm s s1"
    unfolding s1_def by (auto intro: calm_trans [OF calm_put_item calm_put_log])
  obtain need2 s2 where up: "update_episodes key need relative season s1 = (need2, s2)" by (metis prod.exhaust)
  have "s' = put_log (FilesSelected did rels dler) s2"
    using assms by (simp add: take_episodes_def Let_def s1_def [symmetric] up)
  then have "calm s2 s'" by (simp add: calm_rules)
  with c1 calm_update_episodes [OF up] show ?thesis by (blast intro: calm_trans)
qed

lemma calm_start_task:
  assumes "told_apart dl s" "i \<in> set (st_done s)"
  shows "calm s (start_task out i did dler s)"
proof -
  let ?s1 = "put_log (Started did dler) s"
  have "told_apart dl ?s1" "i \<in> set (st_done ?s1)" using assms by (simp_all add: told_apart_def put_log_def)
  then have "?s1\<lparr>st_done := append_new ?s1 i (st_done ?s1)\<rparr> = ?s1" by (rule append_again)
  then show ?thesis
    by (simp add: start_task_def Let_def calm_rules calm_trans [OF calm_put_log calm_put_log])
qed

lemma calm_rollback: "calm s (rollback did dler s)"
  by (simp add: rollback_def calm_rules)

lemma calm_finish:
  assumes "take_episodes out key season i did dler rels relative (need, s) = (ok, need', s1)"
    and "told_apart dl s" "i \<in> set (st_done s)"
  shows "calm s (if ok then start_task out i did dler s1 else rollback did dler s1)"
proof -
  have c: "calm s s1" using assms(1) by (rule calm_take_episodes)
  have "told_apart dl s1" using assms(2) c by (rule told_apart_calm)
  moreover have "i \<in> set (st_done s1)" using assms(3) c by (simp add: calm_def)
  ultimately show ?thesis
    using calm_trans [OF c calm_start_task] calm_trans [OF c calm_rollback] by simp
qed

lemma called_magnet_step:
  assumes "magnet_step out key season offset i (need, s) = (need', s')"
    and "told_apart dl s" "i \<in> set dl"
  shows "called i s s'"
proof -
  obtain dler did s1 where cb: "download_callback out i None (Some True) s = ((dler, did), s1)"
    by (metis prod.exhaust)
  note cb' = called_download_callback [OF cb assms(2,3)]
  have ta1: "told_apart dl s1" by (rule told_apart_called [OF assms(2) cb'(1) assms(3)])
  show ?thesis
  proof (cases did)
    case None
    with assms(1) cb cb' show ?thesis by (simp add: magnet_step_def)
  next
    case (Some d)
    with cb'(2) have done1: "i \<in> set (st_done s1)" by simp
    show ?thesis
    proof (cases "os_task_episodes out (st_log s1) d dler")
      case None
      with assms(1) cb Some have "s' = rollback d dler s1" by (simp add: magnet_step_def)
      with cb'(1) show ?thesis by (auto intro: called_calm calm_rollback)
    next
      case e: (Some eps)
      define s2 where "s2 = put_log (ParsedTask d dler eps) s1"
      have c2: "calm s1 s2" by (simp add: s2_def calm_rules)
      have ta2: "told_apart dl s2" "i \<in> set (st_done s2)"
        using told_apart_calm [OF ta1 c2] done1 by (simp_all add: s2_def put_log_def)
      obtain rels relative where m: "match_release_episodes eps need offset 1 = (rels, relative)"
        by (metis prod.exhaust)
      obtain ok need3 s3 where t: "take_episodes out key season i d dler rels relative (need, s2) = (ok, need3, s3)"
        by (metis prod.exhaust)
      have "s' = start_task out i d dler s2 \<or> s' = rollback d dler s2 \<or>
            s' = (if ok then start_task out i d dler s3 else rollback d dler s3)"
        using assms(1) cb Some e m t by (auto simp: magnet_step_def Let_def s2_def [symmetric] split: if_splits)
      then have "calm s2 s'" using calm_start_task [OF ta2] calm_rollback calm_finish [OF t ta2] by auto
      then show ?thesis using cb'(1) c2 by (blast intro: called_calm calm_trans)
    qed
  qed
qed

lemma torrent_step_cases:
  assumes "torrent_step out key season offset i (need, s) = Some (need', s')"
    and "told_apart dl s" "i \<in> set dl"
  shows "calm s s' \<or> called i s s'"
proof -
  from assms(1) obtain eps path s1 where te: "torrent_episodes out i s = Some ((eps, path), s1)"
    by (auto simp: torrent_step_def)
  have c1: "calm s s1" using te by (rule calm_torrent_episodes)
  have ta1: "told_apart dl s1" using assms(2) c1 by (rule told_apart_calm)
  obtain rels relative where m: "match_release_episodes eps need offset 1 = (rels, relative)" by (metis prod.exhaust)
  obtain dler did s2 where cb: "download_callback out i path (Some True) s1 = ((dler, did), s2)"
    by (metis prod.exhaust)
  note cb' = called_download_callback [OF cb ta1 assms(3)]
  show ?thesis
  proof (cases "rels = []")
    case True
    with assms(1) te m have "s' = s1" by (simp add: torrent_step_def)
    with c1 show ?thesis by simp
  next
    case rels: False
    show ?thesis
    proof (cases did)
      case None
      with assms(1) te m rels cb have "s' = s2" by (simp add: torrent_step_def)
      with c1 cb'(1) show ?thesis by (blast intro: calm_called)
    next
      case (Some d)
      obtain ok need3 s3 where t: "take_episodes out key season i d dler rels relative (need, s2) = (ok, need3, s3)"
        by (metis prod.exhaust)
      have "told_apart dl s2" "i \<in> set (st_done s2)"
        using told_apart_called [OF ta1 cb'(1) assms(3)] cb'(2) Some by simp_all
      from calm_finish [OF t this] assms(1) te m rels cb Some t have "calm s2 s'"
        by (simp add: torrent_step_def)
      with c1 cb'(1) show ?thesis by (blast intro: calm_called called_calm)
    qed
  qed
qed

lemma guarded_pack_episode_step:
  assumes "pack_episode_step out key season offset i (need, s) = Some (need', s')"
    and "orderly dl s" "i \<in> set dl"
  shows "guarded_call i s s'"
proof (cases "mi_type (st_items s i) = MOVIE \<or> in_items s i (st_done s) \<or> is_download_failed i s")
  case True
  with assms(1) have "s' = s" by (auto simp: pack_episode_step_def Let_def)
  then show ?thesis by (simp add: guarded_call_def)
next
  case False
  have ta: "told_apart dl s" using assms(2) by (simp add: orderly_def)
  have fresh: "i \<notin> set (calls (st_log s))"
    using False assms(2,3) ta
    by (auto simp: orderly_def handled_def is_download_failed_def in_items_told_apart told_apart_def)
  show ?thesis
  proof (cases "s' = s")
    case False
    with assms(1) obtain s1 where fill: "fill_enclosure out i s = Some s1"
      and rest: "magnet_step out key season offset i (need, s1) = (need', s') \<or>
                 torrent_step out key season offset i (need, s1) = Some (need', s')"
      by (auto simp: pack_episode_step_def Let_def split: if_splits option.splits)
    have c1: "calm s s1" using fill by (rule calm_fill_enclosure)
    have "told_apart dl s1" by (rule told_apart_calm [OF ta c1])
    with rest have "calm s1 s' \<or> called i s1 s'"
      using called_magnet_step torrent_step_cases assms(3) by blast
    with c1 fresh show ?thesis unfolding guarded_call_def by (blast intro: calm_trans calm_called)
  qed (simp add: guarded_call_def)
qed

text \<open>The two episode phases keep the batch orderly.\<close>

lemma orderly_candidates:
  assumes "for_each f dl (need, s) = Some (need', s')" and "orderly dl s"
    and "\<And>i need s need' s'. f i (need, s) = Some (need', s') \<Longrightarrow> orderly dl s \<Longrightarrow> i \<in> set dl \<Longrightarrow> guarded_call i s s'"
  shows "orderly dl s'"
proof -
  have "(\<lambda>(_, s). orderly dl s) (need', s')"
    using assms(1)
  proof (rule for_each_inv)
    fix i :: nat and r r' :: "'a \<times> dl_state"
    assume i: "i \<in> set dl" and P: "(\<lambda>(_, s). orderly dl s) r" and f: "f i r = Some r'"
    obtain n s where r: "r = (n, s)" by (cases r)
    obtain n' s' where r': "r' = (n', s')" by (cases r')
    from f r r' have "f i (n, s) = Some (n', s')" by simp
    from assms(3) [OF this _ i] P r r' orderly_guarded [OF _ i] show "(\<lambda>(_, s). orderly dl s) r'" by auto
  qed (use assms(2) in simp)
  then show ?thesis by simp
qed

lemma orderly_episodes_of_entry:
  assumes "episodes_of_entry out dl key r s = Some s'" "orderly dl s"
  shows "orderly dl s'"
proof -
  have "s' = s \<or> (\<exists>need need'. for_each (episode_step out key (season_of (st_tvs s r)) (episode_offset (st_tvs s r)))
      dl (need, s) = Some (need', s'))"
    using assms(1) by (auto simp: episodes_of_entry_def Let_def split: if_splits)
  then show ?thesis using assms(2) by (blast intro: orderly_candidates guarded_episode_step)
qed

lemma orderly_pack_episodes_of_entry:
  assumes "pack_episodes_of_entry out dl key r s = Some s'" "orderly dl s"
  shows "orderly dl s'"
proof -
  have "s' = s \<or> (\<exists>need need'. for_each (pack_episode_step out key (season_of (st_tvs s r)) (episode_offset (st_tvs s r)))
      dl (need, s) = Some (need', s'))"
    using assms(1) by (auto simp: pack_episodes_of_entry_def Let_def split: if_splits)
  then show ?thesis using assms(2) by (blast intro: orderly_candidates guarded_pack_episode_step)
qed

lemma orderly_episode_phases:
  "download_episodes out dl s = Some s' \<Longrightarrow> orderly dl s \<Longrightarrow> orderly dl s'"
  "download_from_season_pack out dl s = Some s' \<Longrightarrow> orderly dl s \<Longrightarrow> orderly dl s'"
  unfolding download_episodes_def download_from_season_pack_def
  by (erule (1) for_each_inv, erule (1) for_each_inv,
      erule (1) orderly_episodes_of_entry orderly_pack_episodes_of_entry)+

section \<open>Season packs call a candidate once\<close>

text \<open>A candidate that \<open>key\<close> may still pick was not called before, unless it is skipped anyway.\<close>

definition untried :: "string \<Rightarrow> dl_state \<Rightarrow> nat \<Rightarrow> bool" where
  "untried key s i \<longleftrightarrow> (identity_keys_match key (media_series_scope_key (st_items s i)) \<longrightarrow>
     i \<in> set (calls (st_log s)) \<longrightarrow> mi_type (st_items s i) = MOVIE \<or> i \<in> st_failed s)"

lemma untried_calm: "calm s s' \<Longrightarrow> untried key s j \<Longrightarrow> untried key s' j"
  using core_fields(1,2) [OF calm_item [of s s' j]] by (simp add: untried_def) (simp add: calm_def)

lemma untried_called:
  assumes "called i s s'" "untried key s j"
    and "j \<noteq> i \<or> \<not> identity_keys_match key (media_series_scope_key (st_items s i))"
  shows "untried key s' j"
proof -
  have ty: "mi_type (st_items s' j) = mi_type (st_items s j)"
    and sc: "media_series_scope_key (st_items s' j) = media_series_scope_key (st_items s j)"
    using core_fields(1,2) [OF called_item [OF assms(1), of j]] by simp_all
  have cs: "set (calls (st_log s')) = insert i (set (calls (st_log s)))" using assms(1) by (simp add: called_def)
  show ?thesis
    using assms(2,3) called_mono(1) [OF assms(1)] unfolding untried_def ty sc cs by auto
qed

lemma calm_check_coverage: "check_coverage out i n s = Some (r, s') \<Longrightarrow> calm s s'"
  by (auto simp: check_coverage_def Let_def dest: calm_torrent_episodes split: if_splits)

lemma calm_pack_offer: "pack_offer out key i seasons s = Some (r, s') \<Longrightarrow> calm s s'"
  by (auto simp: pack_offer_def dest: calm_check_coverage split: if_splits)

lemma calm_pack_end: "calm s (pop_if_empty key (fold (remove_season key) seasons s))"
  by (rule calm_trans [OF calm_fold calm_pop_if_empty]) simp

lemma pack_step_cases:
  assumes "pack_step out key i (need, ns, ret, s) = Some (need', ns', ret', s')"
    and "told_apart dl s" "i \<in> set dl"
  obtains "calm s s'" "ret' = ret"
  | "called i s s'" "identity_keys_match key (media_series_scope_key (st_items s i))"
    "mi_type (st_items s i) \<noteq> MOVIE" "i \<notin> st_failed s"
    "ret' = ret \<or> i \<in> set (st_done s') \<and> set ret' \<subseteq> insert i (set ret)"
proof (cases "mi_type (st_items s i) = MOVIE \<or> is_download_failed i s \<or> get_episode_list (st_items s i) \<noteq> [] \<or>
    \<not> identity_keys_match key (media_series_scope_key (st_items s i))")
  case True
  with assms(1) have "s' = s \<and> ret' = ret" by (simp add: pack_step_def Let_def)
  then show thesis using that(1) by simp
next
  case False
  let ?seasons = "get_season_list (st_items s i)"
  from False assms(1) obtain s1 where fill: "fill_enclosure out i s = Some s1"
    by (auto simp: pack_step_def Let_def split: option.splits)
  have c1: "calm s s1" using fill by (rule calm_fill_enclosure)
  show thesis
  proof (cases "set ?seasons \<subseteq> set need")
    case nosub: False
    with False assms(1) fill have "s' = s1 \<and> ret' = ret" by (simp add: pack_step_def Let_def)
    with c1 that(1) show thesis by simp
  next
    case sub: True
    obtain offer s2 where off: "pack_offer out key i ?seasons s1 = Some (offer, s2)"
      using False assms(1) fill sub by (auto simp: pack_step_def Let_def split: option.splits)
    have c2: "calm s s2" using c1 calm_pack_offer [OF off] by (rule calm_trans)
    show thesis
    proof (cases offer)
      case None
      with False assms(1) fill sub off have "s' = s2 \<and> ret' = ret" by (simp add: pack_step_def Let_def)
      with c2 that(1) show thesis by simp
    next
      case (Some path)
      obtain dler did s3 where cb: "download_callback out i path None s2 = ((dler, did), s3)" by (metis prod.exhaust)
      note cb' = called_download_callback [OF cb told_apart_calm [OF assms(2) c2] assms(3)]
      have c3: "called i s s3" by (rule calm_called [OF c2 cb'(1)])
      have facts: "identity_keys_match key (media_series_scope_key (st_items s i))"
        "mi_type (st_items s i) \<noteq> MOVIE" "i \<notin> st_failed s"
        using False by (simp_all add: is_download_failed_def)
      show thesis
      proof (cases did)
        case None
        with False assms(1) fill sub off Some cb have "s' = s3 \<and> ret' = ret"
          by (simp add: pack_step_def Let_def)
        with c3 facts that(2) show thesis by simp
      next
        case did: (Some d)
        with False assms(1) fill sub off Some cb
        have s': "s' = pop_if_empty key (fold (remove_season key) ?seasons s3)" "ret' = append_new s3 i ret"
          by (simp_all add: pack_step_def Let_def)
        have "called i s s'" unfolding s'(1) by (rule called_calm [OF c3 calm_pack_end])
        moreover have "st_done s' = st_done s3" using calm_pack_end [of s3 key ?seasons] unfolding s'(1) calm_def by blast
        then have "i \<in> set (st_done s')" using cb'(2) did by simp
        moreover have "set ret' \<subseteq> insert i (set ret)" unfolding s'(2) by (auto simp: append_new_def)
        ultimately show thesis using facts that(2) by blast
      qed
    qed
  qed
qed

lemma keys_map_filter:
  "keys (List.map_filter (\<lambda>(k, v). if P k v then None else Some (k, g k v)) d) =
     map fst (filter (\<lambda>(k, v). \<not> P k v) d)"
  by (induction d) (auto simp: List.map_filter_simps)

lemma build_need_seasons_keys:
  "keys (build_need_seasons s) =
     map fst (filter (\<lambda>(key, rs). \<not> map (\<lambda>r. season_of (st_tvs s r)) (filter (\<lambda>r. episodes_of (st_tvs s r) = []) rs) = [])
       (st_need s))"
  unfolding build_need_seasons_def Let_def by (rule keys_map_filter)

text \<open>The state of the pack phase while \<open>ks\<close> are the keys to come: nothing was called in vain.\<close>

definition pack_inv :: "nat list \<Rightarrow> string list \<Rightarrow> nat list \<Rightarrow> dl_state \<Rightarrow> bool" where
  "pack_inv dl ks ret s \<longleftrightarrow> orderly dl s \<and> set ret \<subseteq> set (st_done s) \<and>
     (\<forall>k \<in> set ks. \<forall>i \<in> set dl. untried k s i)"

lemma pack_inv_key:
  assumes "for_each (pack_step out key) xs (need, ns, ret, s) = Some (need', ns', ret', s')"
    and "pack_inv dl ks ret s" "\<forall>i \<in> set xs. untried key s i" "set xs \<subseteq> set dl" "distinct xs"
    and "\<forall>k \<in> set ks. normalize_identity_key (PStr k) \<noteq> normalize_identity_key (PStr key)"
  shows "pack_inv dl ks ret' s'"
  using assms
proof (induction xs arbitrary: need ns ret s)
  case Nil
  then show ?case by simp
next
  case (Cons i xs)
  from Cons.prems(1) obtain need1 ns1 ret1 s1 where
    step: "pack_step out key i (need, ns, ret, s) = Some (need1, ns1, ret1, s1)"
    and rest: "for_each (pack_step out key) xs (need1, ns1, ret1, s1) = Some (need', ns', ret', s')"
    by (auto split: option.splits)
  have i: "i \<in> set dl" "i \<notin> set xs" using Cons.prems(4,5) by auto
  have od: "orderly dl s" and ret: "set ret \<subseteq> set (st_done s)"
    and un: "\<And>k j. k \<in> set ks \<Longrightarrow> j \<in> set dl \<Longrightarrow> untried k s j"
    using Cons.prems(2) by (auto simp: pack_inv_def)
  have ta: "told_apart dl s" using od by (simp add: orderly_def)
  show ?case
  proof (rule pack_step_cases [OF step ta i(1)])
    assume c: "calm s s1" and "ret1 = ret"
    moreover have "orderly dl s1" by (rule orderly_guarded [OF od i(1)]) (simp add: guarded_call_def c)
    ultimately have "pack_inv dl ks ret1 s1" using ret un untried_calm by (auto simp: pack_inv_def calm_def)
    moreover have "\<forall>j \<in> set xs. untried key s1 j" using Cons.prems(3) c by (auto intro: untried_calm)
    ultimately show ?thesis using Cons.IH [OF rest] Cons.prems(4,5,6) by simp
  next
    assume c: "called i s s1" and m: "identity_keys_match key (media_series_scope_key (st_items s i))"
      and tv: "mi_type (st_items s i) \<noteq> MOVIE" "i \<notin> st_failed s"
      and ret1: "ret1 = ret \<or> i \<in> set (st_done s1) \<and> set ret1 \<subseteq> insert i (set ret)"
    have "untried key s i" using Cons.prems(3) by simp
    with m tv have "i \<notin> set (calls (st_log s))" by (simp add: untried_def)
    with c have "orderly dl s1" by (intro orderly_guarded [OF od i(1)]) (simp add: guarded_call_def)
    moreover have "set ret1 \<subseteq> set (st_done s1)" using ret1 ret called_mono(2) [OF c] by auto
    moreover have "untried k s1 j" if "k \<in> set ks" "j \<in> set dl" for k j
    proof (rule untried_called [OF c un [OF that]])
      have "normalize_identity_key (PStr k) \<noteq> normalize_identity_key (PStr key)" using Cons.prems(6) that(1) by blast
      with m show "j \<noteq> i \<or> \<not> identity_keys_match k (media_series_scope_key (st_items s i))"
        by (auto simp: identity_keys_match_def)
    qed
    ultimately have "pack_inv dl ks ret1 s1" by (simp add: pack_inv_def)
    moreover have "\<forall>j \<in> set xs. untried key s1 j"
      using Cons.prems(3) i(2) by (auto intro: untried_called [OF c])
    ultimately show ?thesis using Cons.IH [OF rest] Cons.prems(4,5,6) by simp
  qed
qed

lemma pack_inv_keys:
  assumes "for_each (find_packs_of out dl) needs (ns, ret, s) = Some (ns', ret', s')"
    and "pack_inv dl (keys needs) ret s" "distinct dl"
    and "distinct (map (\<lambda>k. normalize_identity_key (PStr k)) (keys needs))"
  shows "pack_inv dl [] ret' s'"
  using assms
proof (induction needs arbitrary: ns ret s)
  case Nil
  then show ?case by simp
next
  case (Cons x needs)
  obtain key need where x: "x = (key, need)" by (cases x)
  from Cons.prems(1) x obtain need1 ns0 ns1 ret1 s1 where
    step: "for_each (pack_step out key) dl (need, ns, ret, s) = Some (need1, ns0, ret1, s1)"
    and rest: "for_each (find_packs_of out dl) needs (ns1, ret1, s1) = Some (ns', ret', s')"
    by (auto simp: find_packs_of_def split: option.splits)
  have "normalize_identity_key (PStr key) \<notin> set (map (\<lambda>k. normalize_identity_key (PStr k)) (keys needs))"
    using Cons.prems(4) x by simp
  then have "\<forall>k \<in> set (keys needs). normalize_identity_key (PStr k) \<noteq> normalize_identity_key (PStr key)"
    by (metis imageI list.set_map)
  then have "pack_inv dl (keys needs) ret1 s1"
    using Cons.prems(2,3) x by (intro pack_inv_key [OF step]) (auto simp: pack_inv_def)
  from Cons.IH [OF rest this Cons.prems(3)] Cons.prems(4) show ?case by simp
qed

lemma fold_append_again:
  assumes "told_apart dl s" "set is \<subseteq> set (st_done s)"
  shows "s\<lparr>st_done := fold (append_new s) is (st_done s)\<rparr> = s"
proof -
  have "fold (append_new s) is (st_done s) = st_done s"
    using assms(2)
  proof (induction "is")
    case (Cons i rest)
    then have "append_new s i (st_done s) = st_done s"
      using assms(1) append_new_told_apart [OF assms(1), of i "st_done s"] by (auto simp: told_apart_def)
    with Cons show ?case by simp
  qed simp
  then show ?thesis by simp
qed

text \<open>Before the pack phase only movies were called, so every candidate is open to every key.\<close>

lemma orderly_season_phase:
  assumes "season_phase out dl s = Some s'" "orderly dl s" "distinct dl"
    and "distinct (map (\<lambda>k. normalize_identity_key (PStr k)) (keys (st_need s)))"
    and "\<forall>i \<in> set (calls (st_log s)). mi_type (st_items s i) = MOVIE"
  shows "orderly dl s'"
proof -
  define needs where "needs = build_need_seasons s"
  obtain ns ret s1 where r: "for_each (find_packs_of out dl) needs (needs, [], s) = Some (ns, ret, s1)"
    and s': "s' = s1\<lparr>st_done := fold (append_new s1) ret (st_done s1)\<rparr>"
    using assms(1) by (auto simp: season_phase_def find_season_packs_def needs_def)
  have "distinct (map (\<lambda>k. normalize_identity_key (PStr k)) (keys needs))"
    using assms(4) unfolding needs_def build_need_seasons_keys map_map by (rule distinct_map_filter)
  moreover have "pack_inv dl (keys needs) [] s"
    using assms(2,5) by (simp add: pack_inv_def untried_def)
  ultimately have inv: "pack_inv dl [] ret s1" by (intro pack_inv_keys [OF r _ assms(3)])
  then have "s' = s1" unfolding s' pack_inv_def orderly_def by (blast intro: fold_append_again)
  with inv show ?thesis by (simp add: pack_inv_def)
qed

section \<open>Movies\<close>

lemma movie_step_cases:
  assumes "movie_step out i (names, got, s) = Some (names', got', s')"
    and "told_apart dl s" "i \<in> set dl" "set got \<subseteq> set dl"
  obtains "s' = s" "names' = names" "got' = got" "mi_type (st_items s i) \<noteq> MOVIE \<or> i \<in> st_failed s \<or> movie_name (st_items s i) \<in> names"
  | s2 dler where "download_callback out i None None s2 = ((dler, None), s')" "calm s s2" "called i s s'" "names' = names" "got' = got"
    "mi_type (st_items s i) = MOVIE" "i \<notin> st_failed s" "movie_name (st_items s i) \<notin> names" "i \<in> st_failed s'"
  | s2 dler did where "download_callback out i None None s2 = ((dler, Some did), s')" "calm s s2" "called i s s'"
    "names' = insert (movie_name (st_items s i)) names" "got' = (if i \<in> set got then got else got @ [i])"
    "mi_type (st_items s i) = MOVIE" "i \<notin> st_failed s" "movie_name (st_items s i) \<notin> names"
proof (cases "mi_type (st_items s i) \<noteq> MOVIE \<or> is_download_failed i s \<or> movie_name (st_items s i) \<in> names")
  case True
  with assms(1) have "s' = s \<and> names' = names \<and> got' = got" by (auto simp: movie_step_def Let_def split: if_splits)
  with True that(1) show thesis by (auto simp: is_download_failed_def)
next
  case False
  with assms(1) obtain s1 where fill: "fill_enclosure out i s = Some s1"
    by (auto simp: movie_step_def Let_def split: option.splits)
  have c1: "calm s s1" using fill by (rule calm_fill_enclosure)
  obtain dler did s2 where cb: "download_callback out i None None s1 = ((dler, did), s2)" by (metis prod.exhaust)
  note cb' = called_download_callback [OF cb told_apart_calm [OF assms(2) c1] assms(3)]
  have c2: "called i s s2" by (rule calm_called [OF c1 cb'(1)])
  show thesis
  proof (cases did)
    case None
    then have "mark_download_failed i s2 = s2"
      using cb'(3) by (simp add: mark_download_failed_def insert_absorb)
    with False assms(1) fill cb None have "s' = s2 \<and> names' = names \<and> got' = got"
      by (simp add: movie_step_def Let_def)
    with that(2) [of s1 dler] c1 c2 cb cb'(3) None False show thesis by (simp add: is_download_failed_def)
  next
    case (Some d)
    have "told_apart dl s2" by (rule told_apart_called [OF assms(2) c2 assms(3)])
    then have "append_new s2 i got = (if i \<in> set got then got else got @ [i])"
      using assms(3,4) by (rule append_new_told_apart)
    with False assms(1) fill cb Some
    have "s' = s2 \<and> names' = insert (movie_name (st_items s i)) names \<and> got' = (if i \<in> set got then got else got @ [i])"
      by (simp add: movie_step_def Let_def)
    with that(3) [of s1 dler d] c1 c2 cb Some False show thesis by (simp add: is_download_failed_def)
  qed
qed

definition movie_inv :: "nat list \<Rightarrow> nat list \<Rightarrow> movie_run \<Rightarrow> bool" where
  "movie_inv dl ys = (\<lambda>(names, got, s). told_apart dl s \<and> distinct (calls (st_log s)) \<and>
     set (calls (st_log s)) \<subseteq> set dl \<and> set (calls (st_log s)) \<inter> set ys = {} \<and> distinct ys \<and> set ys \<subseteq> set dl \<and>
     set got \<subseteq> set dl \<and> (\<forall>i \<in> set (calls (st_log s)). mi_type (st_items s i) = MOVIE))"

lemma movie_inv_step:
  assumes "movie_inv dl (i # ys) r" "movie_step out i r = Some r'"
  shows "movie_inv dl ys r'"
proof -
  obtain names got s where r: "r = (names, got, s)" by (cases r)
  obtain names' got' s' where r': "r' = (names', got', s')" by (cases r')
  from assms(1) r have inv: "told_apart dl s" "distinct (calls (st_log s))" "set (calls (st_log s)) \<subseteq> set dl"
    "i \<notin> set (calls (st_log s))" "set (calls (st_log s)) \<inter> set ys = {}" "i \<notin> set ys" "distinct ys"
    "i \<in> set dl" "set ys \<subseteq> set dl" "set got \<subseteq> set dl" "\<forall>j \<in> set (calls (st_log s)). mi_type (st_items s j) = MOVIE"
    by (auto simp: movie_inv_def)
  have after: "movie_inv dl ys (n, g, s')" if c: "called i s s'" and g: "set g \<subseteq> insert i (set got)"
    and ty: "mi_type (st_items s i) = MOVIE" for n g
  proof -
    have cs: "calls (st_log s') = calls (st_log s) @ [i]" using c by (simp add: called_def)
    have "mi_type (st_items s' j) = mi_type (st_items s j)" for j by (rule core_fields(1) [OF called_item [OF c]])
    with inv g ty told_apart_called [OF inv(1) c inv(8)] show ?thesis by (auto simp: movie_inv_def cs)
  qed
  have step: "movie_step out i (names, got, s) = Some (names', got', s')" using assms(2) r r' by simp
  show ?thesis unfolding r'
  proof (rule movie_step_cases [OF step inv(1,8,10)])
    assume "s' = s" "got' = got"
    with inv show "movie_inv dl ys (names', got', s')" by (simp add: movie_inv_def)
  qed (auto intro!: after split: if_splits)
qed

lemma fill_enclosure_need: "fill_enclosure out i s = Some s' \<Longrightarrow> st_need s' = st_need s"
  by (auto simp: fill_enclosure_def Let_def put_item_def put_log_def split: if_splits)

lemma download_callback_need: "download_callback out i p q s = (r, s') \<Longrightarrow> st_need s' = st_need s"
  by (auto simp: download_callback_def Let_def put_log_def mark_download_failed_def split: prod.splits if_splits)

lemma movie_step_need: "movie_step out i (names, got, s) = Some (names', got', s') \<Longrightarrow> st_need s' = st_need s"
  by (auto simp: movie_step_def Let_def mark_download_failed_def split: if_splits option.splits prod.splits
      dest!: fill_enclosure_need download_callback_need)

lemma download_movies_need:
  assumes "download_movies out dl s = Some (got, s')"
  shows "st_need s' = st_need s"
proof -
  from assms obtain names where "for_each (movie_step out) dl ({}, [], s) = Some (names, got, s')"
    by (auto simp: download_movies_def)
  then have "(\<lambda>(_, _, t). st_need t = st_need s) (names, got, s')"
  proof (rule for_each_inv)
    fix i :: nat and r r' :: movie_run
    assume "(\<lambda>(_, _, t). st_need t = st_need s) r" "movie_step out i r = Some r'"
    then show "(\<lambda>(_, _, t). st_need t = st_need s) r'"
      by (cases r; cases r') (auto dest: movie_step_need)
  qed simp
  then show ?thesis by simp
qed

lemma orderly_movies:
  assumes "download_movies out dl s = Some (got, s')"
    and "inj_on (item_core \<circ> st_items s) (set dl)" "distinct dl" "calls (st_log s) = []" "st_done s = []"
  shows "orderly dl (s'\<lparr>st_done := got\<rparr>) \<and> (\<forall>i \<in> set (calls (st_log s')). mi_type (st_items s' i) = MOVIE)"
proof -
  from assms(1) obtain names where run: "for_each (movie_step out) dl ({}, [], s) = Some (names, got, s')"
    by (auto simp: download_movies_def)
  have "movie_inv dl dl ({}, [], s)" using assms by (simp add: movie_inv_def told_apart_def)
  then have "movie_inv dl [] (names, got, s')"
    by (rule for_each_rule [where P = "movie_inv dl", OF run]) (rule movie_inv_step)
  then show ?thesis by (auto simp: movie_inv_def orderly_def handled_def told_apart_def)
qed

section \<open>Properties of the batch\<close>

text \<open>C6: A batch hands no candidate to the downloader twice, however its phases overlap: if the
  candidates differ in more than link and episodes and the missing seasons are filed under keys that
  normalise differently, then the candidates of all download calls are distinct. So a candidate that
  failed is not retried, and one that was taken in one phase is not taken again in the next.\<close>

theorem candidate_called_once:
  assumes "batch_download out media_list dl s = Some (r, s')"
    and "inj_on (item_core \<circ> st_items s) (set dl)" "distinct dl" "st_log s = []"
    and "distinct (map (\<lambda>k. normalize_identity_key (PStr k)) (keys (st_need s)))"
  shows "distinct (calls (st_log s'))"
proof -
  from assms(1) obtain got s1 s2 s3 where
    m: "download_movies out dl (s\<lparr>st_done := []\<rparr>) = Some (got, s1)" and
    p2: "when_missing (season_phase out dl) (s1\<lparr>st_done := got\<rparr>) = Some s2" and
    p3: "when_missing (download_episodes out dl) s2 = Some s3" and
    p4: "when_missing (download_from_season_pack out dl) s3 = Some s'"
    by (auto simp: batch_download_def bind_eq_Some_conv)
  have start: "orderly dl (s1\<lparr>st_done := got\<rparr>)"
    "\<forall>i \<in> set (calls (st_log s1)). mi_type (st_items s1 i) = MOVIE"
    using orderly_movies [OF m] assms(2-4) by simp_all
  have need: "st_need s1 = st_need s" using download_movies_need [OF m] by simp
  have "orderly dl s2"
    using p2 start assms(3,5) need orderly_season_phase [of out dl "s1\<lparr>st_done := got\<rparr>" s2]
    by (auto simp: when_missing_def split: if_splits)
  then have "orderly dl s3"
    using p3 orderly_episode_phases(1) by (auto simp: when_missing_def split: if_splits)
  then have "orderly dl s'"
    using p4 orderly_episode_phases(2) by (auto simp: when_missing_def split: if_splits)
  then show ?thesis by (simp add: orderly_def)
qed

section \<open>Episode numbers of a release\<close>

text \<open>Whatever the offset, the numbers taken from a release belong to it, and what they stand for was asked
  for.\<close>

lemma relative_within_need:
  assumes "relative_release_episodes release need offset season = Some rel"
  shows "set rel \<subseteq> set need"
proof -
  define off where "off = infer_offset (set release) (set need) offset season"
  have shift: "set release \<subseteq> (\<lambda>m. m + off) ` set need \<Longrightarrow> (\<lambda>e. e - off) ` {e \<in> set release. e > off} \<subseteq> set need"
    by auto
  have "rel = sorted_list_of_set ((\<lambda>e. e - off) ` {e \<in> set release. e > off}) \<and>
        set release \<subseteq> (\<lambda>m. m + off) ` set need \<or> rel = sorted_list_of_set (set release) \<and> set release \<subseteq> set need"
    using assms by (auto simp: relative_release_episodes_def Let_def off_def [symmetric] split: if_splits)
  then show ?thesis by (elim disjE conjE) (simp_all only: set_sorted_list_of_set finite_imageI finite_Collect_conjI
      finite_set shift Collect_mem_eq simp_thms disj_not1)
qed

lemma relative_sorted:
  "relative_release_episodes release need offset season = Some rel \<Longrightarrow> sorted rel \<and> distinct rel"
  by (auto simp: relative_release_episodes_def Let_def split: if_splits)

lemma match_within:
  assumes "match_release_episodes release need offset season = (sel, rel)"
  shows "set sel \<subseteq> set release" "set rel \<subseteq> set need"
proof -
  define off where "off = infer_offset (set release) (set need) offset season"
  have "e - off \<in> set need" if "e \<in> (\<lambda>m. m + off) ` set need" for e using that by auto
  then show "set sel \<subseteq> set release" "set rel \<subseteq> set need" using assms
    by (auto simp: match_release_episodes_def Let_def off_def [symmetric] split: if_splits)
qed

text \<open>A later episode is taken for a missing one: from the second season on, when no
  offset is configured, a release of one episode numbered after everything that is missing is read as
  the first missing episode, whatever its number. So when only episode 5 of season 2 is missing,
  the release of episode 10 is downloaded as episode 5.\<close>

theorem later_episode_taken_for_missing:
  assumes "need \<noteq> []" and "1 < season" and "\<forall>m \<in> set need. 0 < m \<and> m < e"
  shows "relative_release_episodes [e] need 0 season = Some [Min (set need)]"
proof -
  let ?c = "e - Min (set need)"
  have min: "Min (set need) \<in> set need" using assms(1) by simp
  have "\<not> e \<le> Max (set need)" using assms(1,3) by (simp add: not_le)
  moreover have "e \<notin> set need" using assms(3) by blast
  moreover have c: "0 < ?c" "0 < Min (set need)" using min assms(3) by auto
  ultimately have off: "infer_offset (set [e]) (set need) 0 season = ?c"
    using assms(1,2) min by (simp only: infer_offset_def Let_def) simp
  have "e = Min (set need) + ?c" by simp
  then have sub: "set [e] \<subseteq> (\<lambda>m. m + ?c) ` set need" using min by auto
  have "(\<lambda>x. x - ?c) ` {x \<in> set [e]. x > ?c} = {Min (set need)}" using c by auto
  then show ?thesis
    unfolding relative_release_episodes_def Let_def off using sub c by simp
qed

theorem later_episode_taken_for_missing_witness:
  "relative_release_episodes [10] [5] 0 2 = Some [5]"
  using later_episode_taken_for_missing [of "[5]" 2 10] by simp

section \<open>No missing episode is lost\<close>

text \<open>The episodes an entry asks for; what is missing of a media; the releases that were accepted.\<close>

definition wanted :: "need \<Rightarrow> int set" where
  "wanted tv = (if episodes_of tv = [] then {1..total_of tv} else set (episodes_of tv))"

definition missing :: "dl_state \<Rightarrow> string \<Rightarrow> (int \<times> int) set" where
  "missing s key = {(season, e). \<exists>r \<in> set (entries s key). season = season_of (st_tvs s r) \<and> e \<in> wanted (st_tvs s r)}"

text \<open>The numbers of the episodes of a candidate: those of its item when the phase starts, or, when it names none, those read from
  the torrent file it was downloaded by.\<close>

definition numbered_as :: "dl_state \<Rightarrow> dl_log \<Rightarrow> nat \<Rightarrow> item \<Rightarrow> int list \<Rightarrow> bool" where
  "numbered_as z l i m eps \<longleftrightarrow>
     (if get_episode_list (st_items z i) \<noteq> [] then eps = get_episode_list (st_items z i)
      else \<exists>path. Parsed (mi_enclosure m) eps path \<in> set l)"

text \<open>The distance \<open>d\<close> by which a release may be numbered above what is missing: none when it asks for missing numbers only;
  the offset of the entry; or, when the entry has none, from the second season on, the distance of the first numbers of a
  release that lies wholly after what is missing.\<close>

definition stands_for :: "int set \<Rightarrow> int set \<Rightarrow> int \<Rightarrow> int \<Rightarrow> int \<Rightarrow> bool" where
  "stands_for release need offset season d \<longleftrightarrow>
     release \<subseteq> (\<lambda>e. e + d) ` need \<and>
     (d = 0 \<or> 0 < d \<and> d = offset \<or>
      offset = 0 \<and> 1 < season \<and> (\<forall>x \<in> release. \<forall>n \<in> need. n < x) \<and> d = Min release - Min need)"

text \<open>An episode that was missing when the phase started is covered by an accepted candidate of the media and the season.\<close>

definition covered :: "dl_state \<Rightarrow> dl_log \<Rightarrow> string \<Rightarrow> int \<Rightarrow> int \<Rightarrow> bool" where
  "covered z l key season e \<longleftrightarrow>
     (\<exists>i m path paused dler did eps r need d. Download i m path paused dler (Some did) \<in> set l \<and>
        identity_keys_match key (media_series_scope_key m) \<and> get_season_list m = [season] \<and> numbered_as z l i m eps \<and>
        r \<in> set (entries z key) \<and> season_of (st_tvs z r) = season \<and> need \<subseteq> wanted (st_tvs z r) \<and> e \<in> need \<and>
        e + d \<in> set eps \<and> stands_for (set eps) need (episode_offset (st_tvs z r)) season d)"

lemma relative_stands_for:
  assumes rel: "relative_release_episodes eps need offset season = Some rel" and e: "e \<in> set rel" and off: "0 \<le> offset"
  shows "e \<in> set need" and "\<exists>d. e + d \<in> set eps \<and> stands_for (set eps) (set need) offset season d"
proof -
  show "e \<in> set need" using relative_within_need [OF rel] e by blast
  define o' where "o' = infer_offset (set eps) (set need) offset season"
  have ne: "set eps \<noteq> {}" using rel by (auto simp: relative_release_episodes_def Let_def split: if_splits)
  have kind: "o' = 0 \<or> 0 < o' \<and> o' = offset \<or>
      offset = 0 \<and> 1 < season \<and> (\<forall>x \<in> set eps. \<forall>n \<in> set need. n < x) \<and> o' = Min (set eps) - Min (set need)"
  proof (cases "offset > 0 \<or> season \<le> 1 \<or> set eps = {} \<or> set need = {} \<or> set eps \<inter> set need \<noteq> {} \<or> Min (set eps) \<le> Max (set need)")
    case True
    then have "o' = offset" unfolding o'_def infer_offset_def Let_def by (simp only: if_True if_False simp_thms split: if_splits) auto
    with off show ?thesis by auto
  next
    case False
    have after: "\<forall>x \<in> set eps. \<forall>n \<in> set need. n < x"
    proof (intro ballI)
      fix x n assume "x \<in> set eps" "n \<in> set need"
      then have "n \<le> Max (set need)" and "Min (set eps) \<le> x" by (simp_all add: Min_le Max_ge)
      moreover have "Max (set need) < Min (set eps)" using False by linarith
      ultimately show "n < x" by linarith
    qed
    have "o' = offset \<or> o' = Min (set eps) - Min (set need)" unfolding o'_def infer_offset_def Let_def by meson
    moreover have "offset = 0" "1 < season" using False off by simp_all
    ultimately show ?thesis using after by blast
  qed
  have "(0 < o' \<and> set eps \<subseteq> (\<lambda>x. x + o') ` set need \<and> set rel = (\<lambda>x. x - o') ` {x \<in> set eps. x > o'}) \<or>
      (set eps \<subseteq> set need \<and> set rel = set eps)"
    using rel by (auto simp: relative_release_episodes_def Let_def o'_def [symmetric] split: if_splits)
  then show "\<exists>d. e + d \<in> set eps \<and> stands_for (set eps) (set need) offset season d"
  proof (elim disjE conjE)
    assume o: "0 < o'" "set eps \<subseteq> (\<lambda>x. x + o') ` set need" "set rel = (\<lambda>x. x - o') ` {x \<in> set eps. x > o'}"
    then have "e + o' \<in> set eps" using e by auto
    moreover have "stands_for (set eps) (set need) offset season o'" unfolding stands_for_def using kind o(2) by blast
    ultimately show ?thesis by blast
  next
    assume "set eps \<subseteq> set need" "set rel = set eps"
    then show ?thesis using e by (intro exI [of _ 0]) (auto simp: stands_for_def)
  qed
qed

text \<open>Entries are shared by no two keys, and a key has one entry per season.\<close>

definition tidy :: "dl_state \<Rightarrow> bool" where
  "tidy s \<longleftrightarrow> (\<forall>k. distinct (map (\<lambda>r. season_of (st_tvs s r)) (entries s k))) \<and>
     (\<forall>k k'. k \<noteq> k' \<longrightarrow> set (entries s k) \<inter> set (entries s k') = {})"

text \<open>Steps that leave the record of missing seasons alone.\<close>

definition untouched :: "dl_state \<Rightarrow> dl_state \<Rightarrow> bool" where
  "untouched s s' \<longleftrightarrow> st_tvs s' = st_tvs s \<and> st_need s' = st_need s \<and> set (st_log s) \<subseteq> set (st_log s')"

lemma idle_refl [simp]: "untouched s s"
  by (simp add: untouched_def)

lemma idle_trans: "untouched s s1 \<Longrightarrow> untouched s1 s2 \<Longrightarrow> untouched s s2"
  by (auto simp: untouched_def)

lemma idle_put: "untouched s (put_log e s)" "untouched s (put_item i m s)" "untouched s (s\<lparr>st_done := d\<rparr>)"
  by (auto simp: untouched_def put_log_def put_item_def)

lemma idle_fill_enclosure: "fill_enclosure out i s = Some s' \<Longrightarrow> untouched s s'"
  by (auto simp: fill_enclosure_def Let_def untouched_def put_item_def put_log_def split: if_splits)

lemma idle_item_episodes: "item_episodes out i s = Some (eps, s') \<Longrightarrow> untouched s s'"
  by (auto simp: item_episodes_def torrent_episodes_def Let_def split: option.splits if_splits
      dest!: idle_fill_enclosure intro: idle_put idle_trans)

lemma idle_download_callback: "download_callback out i p q s = (r, s') \<Longrightarrow> untouched s s'"
  by (auto simp: download_callback_def Let_def untouched_def put_log_def mark_download_failed_def
      split: prod.splits if_splits)

lemma download_callback_logs:
  "download_callback out i p q s = ((dler, did), s') \<Longrightarrow> Download i (st_items s i) p q dler did \<in> set (st_log s')"
  by (auto simp: download_callback_def Let_def put_log_def mark_download_failed_def split: prod.splits if_splits)

lemma entries_idle: "untouched s s' \<Longrightarrow> entries s' k = entries s k"
  by (simp add: untouched_def entries_def)

lemma missing_idle: "untouched s s' \<Longrightarrow> missing s' k = missing s k"
  by (simp add: missing_def entries_idle) (simp add: untouched_def)

lemma tidy_idle: "untouched s s' \<Longrightarrow> tidy s' = tidy s"
  by (simp add: tidy_def entries_idle) (simp add: untouched_def)

lemma numbered_as_mono: "numbered_as z l i m eps \<Longrightarrow> set l \<subseteq> set l' \<Longrightarrow> numbered_as z l' i m eps"
  unfolding numbered_as_def by (simp split: if_splits) blast

lemma covered_mono:
  assumes "covered z l k season e" and "set l \<subseteq> set l'"
  shows "covered z l' k season e"
  using assms numbered_as_mono [OF _ assms(2)] unfolding covered_def by blast

lemma season_of_nonzero: "season_of tv \<noteq> 0"
  by (simp add: season_of_def split: option.split)

lemma season_of_named: "nd_season tv = Some n \<Longrightarrow> n \<noteq> 0 \<Longrightarrow> season_of tv = n"
  by (simp add: season_of_def)

lemma entries_put [simp]: "entries (put_entries key rs s) k = (if k = key then rs else entries s k)"
  by (simp add: entries_def put_entries_def)

lemma entries_pop [simp]: "entries (pop_if_empty key s) k = entries s k"
  by (auto simp: pop_if_empty_def entries_def)

lemma put_pop_frame [simp]:
  "st_tvs (pop_if_empty key s) = st_tvs s" "st_log (pop_if_empty key s) = st_log s"
  "st_tvs (put_entries key rs s) = st_tvs s" "st_log (put_entries key rs s) = st_log s"
  by (simp_all add: pop_if_empty_def put_entries_def)

lemma remove_first_unique:
  assumes "distinct xs" "r \<in> set xs" "\<And>x. x \<in> set xs \<Longrightarrow> P x \<longleftrightarrow> x = r"
  shows "remove_first P xs = remove1 r xs"
  using assms by (induction xs) (auto intro: remove1_idem [symmetric])

lemma update_episodes_left:
  assumes "update_episodes key need current season s = (left, s')"
  shows "set left = set need - set current"
proof -
  have "left = remdups (filter (\<lambda>e. e \<notin> set current) need)"
    using assms by (auto simp: update_episodes_def Let_def split: option.splits if_splits)
  then show ?thesis by auto
qed

text \<open>Updating an entry of a tidy record touches this entry only.\<close>

lemma update_episodes_effect:
  assumes up: "update_episodes key need current (season_of (st_tvs s r)) s = (left, s')"
    and tidy: "tidy s" and r: "r \<in> set (entries s key)"
  shows "set left = set need - set current" "st_log s' = st_log s" "tidy s'"
    "\<And>x. season_of (st_tvs s' x) = season_of (st_tvs s x)"
    "\<And>x. x \<noteq> r \<Longrightarrow> st_tvs s' x = st_tvs s x"
    "\<And>k. set (entries s k) - {r} \<subseteq> set (entries s' k)" "\<And>k. set (entries s' k) \<subseteq> set (entries s k)"
    "r \<in> set (entries s' key) \<Longrightarrow> st_tvs s' r = st_tvs s r \<or> wanted (st_tvs s' r) = set left"
    "r \<notin> set (entries s' key) \<Longrightarrow> left = []"
    "st_items s' = st_items s" "st_failed s' = st_failed s" "st_done s' = st_done s"
    "\<And>x. nd_offset (st_tvs s' x) = nd_offset (st_tvs s x)"
    "wanted (st_tvs s' r) = wanted (st_tvs s r) \<or> wanted (st_tvs s' r) = set left"
proof -
  let ?P = "\<lambda>x. nd_season (st_tvs s x) = Some (season_of (st_tvs s r))"
  have dm: "distinct (map (\<lambda>x. season_of (st_tvs s x)) (entries s key))" using tidy by (simp add: tidy_def)
  have de: "distinct (entries s key)" using dm by (simp add: distinct_map)
  have only: "x = r" if "x \<in> set (entries s key)" "?P x" for x
    using season_of_named [OF that(2) season_of_nonzero] dm that(1) r
    by (auto simp: distinct_map dest: inj_onD)
  have left: "left = remdups (filter (\<lambda>e. e \<notin> set current) need)"
    using up by (auto simp: update_episodes_def Let_def split: option.splits if_splits)
  show "set left = set need - set current" using up by (rule update_episodes_left)
  have cases: "s' = s \<or> left \<noteq> [] \<and> s' = s\<lparr>st_tvs := (st_tvs s)(r := (st_tvs s r)\<lparr>nd_episodes := Some left\<rparr>)\<rparr> \<or>
      left = [] \<and> s' = pop_if_empty key (put_entries key (remove1 r (entries s key)) s)"
  proof (cases "find ?P (entries s key)")
    case None
    with up show ?thesis by (simp add: update_episodes_def Let_def)
  next
    case (Some x)
    then have x: "x \<in> set (entries s key)" "?P x" by (auto simp: find_Some_iff)
    then have xr: "x = r" by (rule only)
    have "remove_first ?P (entries s key) = remove1 r (entries s key)"
      by (rule remove_first_unique [OF de r]) (use only x xr in auto)
    with up Some xr left show ?thesis
      unfolding update_episodes_def Let_def by (simp split: if_splits)
  qed
  have wl: "wanted ((st_tvs s r)\<lparr>nd_episodes := Some left\<rparr>) = set left" if "left \<noteq> []"
    using that by (simp add: wanted_def episodes_of_def)
  have so: "season_of (tv\<lparr>nd_episodes := es\<rparr>) = season_of tv" for tv es by (simp add: season_of_def)
  have ent: "entries (s\<lparr>st_tvs := t\<rparr>) k = entries s k" for t k by (simp add: entries_def)
  have rm: "set (remove1 r (entries s key)) = set (entries s key) - {r}"
    using de by simp
  show "st_log s' = st_log s" using cases by (elim disjE conjE) simp_all
  show "st_items s' = st_items s" "st_failed s' = st_failed s" "st_done s' = st_done s"
    using cases by (elim disjE conjE; simp add: pop_if_empty_def put_entries_def)+
  show "nd_offset (st_tvs s' x) = nd_offset (st_tvs s x)" for x using cases by (elim disjE conjE) simp_all
  show "wanted (st_tvs s' r) = wanted (st_tvs s r) \<or> wanted (st_tvs s' r) = set left"
    using cases wl by (elim disjE conjE) simp_all
  show seas: "season_of (st_tvs s' x) = season_of (st_tvs s x)" for x
    using cases by (elim disjE conjE) (simp_all add: so)
  show "x \<noteq> r \<Longrightarrow> st_tvs s' x = st_tvs s x" for x using cases by (elim disjE conjE) simp_all
  show sub1: "set (entries s k) - {r} \<subseteq> set (entries s' k)" for k
    using cases rm by (elim disjE conjE) (auto simp: ent)
  show sub2: "set (entries s' k) \<subseteq> set (entries s k)" for k
    using cases rm by (elim disjE conjE) (auto simp: ent)
  show "r \<in> set (entries s' key) \<Longrightarrow> st_tvs s' r = st_tvs s r \<or> wanted (st_tvs s' r) = set left"
    using cases wl by (elim disjE conjE) simp_all
  show "r \<notin> set (entries s' key) \<Longrightarrow> left = []"
    using cases r by (elim disjE conjE) (simp_all add: ent)
  have "distinct (map (\<lambda>x. season_of (st_tvs s x)) (entries s' k))" for k
    using cases tidy by (elim disjE conjE) (auto simp: tidy_def ent distinct_map distinct_remove1 intro: inj_on_subset dest: notin_set_remove1)
  then show "tidy s'" using tidy sub2 unfolding tidy_def seas by blast
qed

text \<open>Since the state \<open>z\<close> in which the phase started: no entry is new, wants more or lies elsewhere, and a candidate
  that may still be tried has the numbers it had.\<close>

definition same_entries :: "dl_state \<Rightarrow> dl_state \<Rightarrow> bool" where
  "same_entries z s \<longleftrightarrow> (\<forall>k. set (entries s k) \<subseteq> set (entries z k)) \<and>
     (\<forall>x. season_of (st_tvs s x) = season_of (st_tvs z x) \<and> nd_offset (st_tvs s x) = nd_offset (st_tvs z x) \<and>
          wanted (st_tvs s x) \<subseteq> wanted (st_tvs z x))"

definition same_numbers :: "dl_state \<Rightarrow> dl_state \<Rightarrow> bool" where
  "same_numbers z s \<longleftrightarrow>
     (\<forall>i. get_episode_list (st_items s i) = get_episode_list (st_items z i) \<or> is_download_failed i s \<or> in_items s i (st_done s))"

lemma same_refl [simp]: "same_entries z z" "same_numbers z z"
  by (simp_all add: same_entries_def same_numbers_def)

lemma same_entries_idle: "untouched s s' \<Longrightarrow> same_entries z s' = same_entries z s"
  by (simp add: same_entries_def entries_idle) (simp add: untouched_def)

lemma in_items_self: "i \<in> set is \<Longrightarrow> in_items s i is"
  by (auto simp: in_items_def list_ex_iff)

text \<open>A step that changes one candidate, which then is done or has failed, and at most adds to those.\<close>

lemma same_numbers_step:
  assumes z: "same_numbers z s" and fresh: "\<not> in_items s i (st_done s)"
    and other: "\<And>j. j \<noteq> i \<Longrightarrow> st_items s' j = st_items s j"
    and grow: "st_failed s \<subseteq> st_failed s'" "set (st_done s) \<subseteq> set (st_done s')"
    and one: "get_episode_list (st_items s' i) = get_episode_list (st_items z i) \<or> is_download_failed i s' \<or> in_items s' i (st_done s')"
  shows "same_numbers z s'"
proof -
  have "get_episode_list (st_items s' j) = get_episode_list (st_items z j) \<or> is_download_failed j s' \<or> in_items s' j (st_done s')"
    if j: "j \<noteq> i" for j
  proof (cases "in_items s j (st_done s)")
    case True
    then obtain x where x: "x \<in> set (st_done s)" "st_items s x = st_items s j" by (auto simp: in_items_def list_ex_iff)
    have "x \<noteq> i" using in_items_self [of i "st_done s" s] fresh x(1) by blast
    then have "st_items s' x = st_items s' j" using other x(2) j by simp
    with x(1) grow(2) show ?thesis by (auto simp: in_items_def list_ex_iff)
  next
    case False
    then have "get_episode_list (st_items s j) = get_episode_list (st_items z j) \<or> is_download_failed j s"
      using z by (auto simp: same_numbers_def)
    then show ?thesis using grow(1) other [OF j] by (auto simp: is_download_failed_def)
  qed
  with one show ?thesis unfolding same_numbers_def by metis
qed

definition tracked :: "dl_state \<Rightarrow> dl_state \<Rightarrow> dl_state \<Rightarrow> bool" where
  "tracked z s0 s \<longleftrightarrow> (\<forall>k season e. (season, e) \<in> missing s0 k \<longrightarrow> (season, e) \<in> missing s k \<or> covered z (st_log s) k season e)"

lemma tracked_refl [simp]: "tracked z s s"
  by (simp add: tracked_def)

lemma tracked_trans:
  assumes "tracked z s0 s" "tracked z s s'" "set (st_log s) \<subseteq> set (st_log s')"
  shows "tracked z s0 s'"
  using assms covered_mono unfolding tracked_def by blast

lemma tracked_idle: "untouched s s' \<Longrightarrow> tracked z s s'"
  by (simp add: tracked_def missing_idle)

text \<open>What one entry still wants is in the local list, or was accepted.\<close>

definition followed :: "dl_state \<Rightarrow> string \<Rightarrow> int \<Rightarrow> nat \<Rightarrow> int list \<Rightarrow> dl_state \<Rightarrow> bool" where
  "followed z key season r need s \<longleftrightarrow> tidy s \<and> season_of (st_tvs s r) = season \<and> set need \<subseteq> wanted (st_tvs z r) \<and>
     (if r \<in> set (entries s key) then \<forall>e \<in> wanted (st_tvs s r). e \<in> set need \<or> covered z (st_log s) key season e
      else need = [])"

lemma followed_idle:
  assumes i: "untouched s s'" and f: "followed z key season r need s"
  shows "followed z key season r need s'"
proof -
  have t: "st_tvs s' = st_tvs s" and l: "set (st_log s) \<subseteq> set (st_log s')" using i by (simp_all add: untouched_def)
  have "covered z (st_log s') key season e" if "covered z (st_log s) key season e" for e
    using covered_mono [OF that l] .
  with f show ?thesis
    unfolding followed_def tidy_idle [OF i] entries_idle [OF i] t by (auto split: if_splits)
qed

lemma followed_update:
  assumes up: "update_episodes key need rel season s = (left, s')"
    and f: "followed z key season r need s" and r: "r \<in> set (entries s key)"
    and cov: "\<forall>e \<in> set rel. covered z (st_log s) key season e"
  shows "followed z key season r left s'" "tracked z s s'" "\<And>k. set (entries s k) - {r} \<subseteq> set (entries s' k)"
proof -
  from f r have tidy: "tidy s" and seas: "season_of (st_tvs s r) = season"
    and want: "\<And>e. e \<in> wanted (st_tvs s r) \<Longrightarrow> e \<in> set need \<or> covered z (st_log s) key season e"
    by (simp_all add: followed_def)
  note eff = update_episodes_effect [OF up [folded seas] tidy r]
  have rest: "e \<in> set left \<or> covered z (st_log s) key season e" if "e \<in> wanted (st_tvs s r)" for e
    using want [OF that] cov eff(1) by blast
  have "e \<in> set left \<or> covered z (st_log s) key season e"
    if "r \<in> set (entries s' key)" "e \<in> wanted (st_tvs s' r)" for e
    using eff(8) [OF that(1)] rest [of e] that(2) by auto
  then show "followed z key season r left s'"
    using eff(1,9) f unfolding followed_def eff(2) eff(4) seas by (auto simp: eff(3))
  show "set (entries s k) - {r} \<subseteq> set (entries s' k)" for k by (rule eff(6))
  have "(sn, e) \<in> missing s' k \<or> covered z (st_log s') k sn e" if m: "(sn, e) \<in> missing s k" for k sn e
  proof -
    from m obtain x where x: "x \<in> set (entries s k)" "sn = season_of (st_tvs s x)" "e \<in> wanted (st_tvs s x)"
      by (auto simp: missing_def)
    show ?thesis
    proof (cases "x = r")
      case False
      then have "st_tvs s' x = st_tvs s x" "x \<in> set (entries s' k)" using eff(5) eff(6) [of k] x(1) by auto
      with x(2,3) show ?thesis by (auto simp: missing_def intro!: bexI [of _ x])
    next
      case True
      with x(1) r tidy have k: "k = key" by (auto simp: tidy_def)
      from True x seas have sn: "sn = season" "e \<in> wanted (st_tvs s r)" by simp_all
      show ?thesis
      proof (cases "e \<in> set left")
        case False
        with rest [OF sn(2)] k sn(1) eff(2) show ?thesis by simp
      next
        case True
        with eff(9) have rin: "r \<in> set (entries s' key)" by (cases "r \<in> set (entries s' key)") auto
        with eff(8) True sn(2) have "e \<in> wanted (st_tvs s' r)" by auto
        with rin k sn(1) seas eff(4) [of r] show ?thesis by (auto simp: missing_def intro!: bexI [of _ r])
      qed
    qed
  qed
  then show "tracked z s s'" by (simp add: tracked_def)
qed

text \<open>What a candidate says of itself, before it is tried.\<close>

lemma episode_list_enclosure: "get_episode_list (m\<lparr>mi_enclosure := u\<rparr>) = get_episode_list m"
  by (cases "mi_begin_episode m"; cases "mi_end_episode m") (simp_all add: get_episode_list_def)

lemma item_episodes_numbers:
  assumes "item_episodes out i s = Some (eps, s1)"
  shows "(if get_episode_list (st_items s i) \<noteq> [] then eps = get_episode_list (st_items s i)
      else eps = [] \<or> (\<exists>path. Parsed (mi_enclosure (st_items s1 i)) eps path \<in> set (st_log s1)))"
    and "get_episode_list (st_items s1 i) = get_episode_list (st_items s i)" and "\<And>j. j \<noteq> i \<Longrightarrow> st_items s1 j = st_items s j"
    and "st_failed s1 = st_failed s" "st_done s1 = st_done s"
proof -
  have f: "(\<forall>j. j \<noteq> i \<longrightarrow> st_items t j = st_items s j) \<and> get_episode_list (st_items t i) = get_episode_list (st_items s i) \<and>
      st_failed t = st_failed s \<and> st_done t = st_done s" if "fill_enclosure out i s = Some t" for t
    using that by (auto simp: fill_enclosure_def Let_def put_item_def put_log_def episode_list_enclosure split: if_splits)
  have t: "st_items u = st_items t \<and> st_failed u = st_failed t \<and> st_done u = st_done t \<and>
      Parsed (mi_enclosure (st_items u i)) es path \<in> set (st_log u)" if "torrent_episodes out i t = Some ((es, path), u)" for t u es path
    using that by (auto simp: torrent_episodes_def Let_def put_log_def)
  show "(if get_episode_list (st_items s i) \<noteq> [] then eps = get_episode_list (st_items s i)
      else eps = [] \<or> (\<exists>path. Parsed (mi_enclosure (st_items s1 i)) eps path \<in> set (st_log s1)))"
    using assms t by (fastforce simp: item_episodes_def Let_def split: if_splits option.splits)
  show "get_episode_list (st_items s1 i) = get_episode_list (st_items s i)" "\<And>j. j \<noteq> i \<Longrightarrow> st_items s1 j = st_items s j"
    "st_failed s1 = st_failed s" "st_done s1 = st_done s"
    using assms f t by (fastforce simp: item_episodes_def Let_def split: if_splits option.splits)+
qed

lemma callback_settles:
  assumes "download_callback out i p q s = ((dler, did), s')"
  shows "st_items s' = st_items s" "st_failed s \<subseteq> st_failed s'" "set (st_done s) \<subseteq> set (st_done s')"
    "did = None \<Longrightarrow> is_download_failed i s'" "did \<noteq> None \<Longrightarrow> in_items s' i (st_done s')"
proof -
  define s1 where "s1 = put_log (Download i (st_items s i) p q dler did) s"
  have s': "s' = (if did \<noteq> None then s1\<lparr>st_done := append_new s1 i (st_done s1)\<rparr> else mark_download_failed i s1)"
    using assms by (auto simp: download_callback_def Let_def s1_def split: prod.splits)
  have s1: "st_items s1 = st_items s" "st_failed s1 = st_failed s" "st_done s1 = st_done s" by (simp_all add: s1_def put_log_def)
  show "st_items s' = st_items s" "st_failed s \<subseteq> st_failed s'" "set (st_done s) \<subseteq> set (st_done s')"
    "did = None \<Longrightarrow> is_download_failed i s'" "did \<noteq> None \<Longrightarrow> in_items s' i (st_done s')"
    by (auto simp: s' s1 mark_download_failed_def is_download_failed_def append_new_def in_items_def list_ex_iff)
qed

lemma same_entries_update:
  assumes up: "update_episodes key need rel (season_of (st_tvs s r)) s = (left, s')" and tidy: "tidy s"
    and r: "r \<in> set (entries s key)" and z: "same_entries z s" and need: "set need \<subseteq> wanted (st_tvs z r)"
  shows "same_entries z s'"
proof -
  note eff = update_episodes_effect [OF up tidy r]
  have wz: "wanted (st_tvs s x) \<subseteq> wanted (st_tvs z x)" for x using z by (simp add: same_entries_def)
  have "wanted (st_tvs s' r) \<subseteq> wanted (st_tvs z r)" using eff(1,14) need wz [of r] by blast
  then have "wanted (st_tvs s' x) \<subseteq> wanted (st_tvs z x)" for x using eff(5) [of x] wz [of x] by (cases "x = r") simp_all
  then show ?thesis using z eff(7) unfolding same_entries_def eff(4,13) by (meson subset_trans)
qed

lemma followed_episode_step:
  assumes step: "episode_step out key season (episode_offset (st_tvs z r)) i (need, s) = Some (need', s')"
    and f: "followed z key season r need s" and z: "same_entries z s" "same_numbers z s"
    and rz: "r \<in> set (entries z key)" "season_of (st_tvs z r) = season"
  shows "followed z key season r need' s' \<and> tracked z s s' \<and> set (st_log s) \<subseteq> set (st_log s') \<and>
     (\<forall>k. set (entries s k) - {r} \<subseteq> set (entries s' k)) \<and> same_entries z s' \<and> same_numbers z s'"
proof -
  have quiet: ?thesis if "untouched s s'" "need' = need" "same_numbers z s'"
    using that f z followed_idle tracked_idle same_entries_idle by (auto simp: entries_idle) (auto simp: untouched_def)
  let ?m = "st_items s i" and ?off = "episode_offset (st_tvs z r)"
  show ?thesis
  proof (cases "mi_type ?m = MOVIE \<or> \<not> identity_keys_match key (media_series_scope_key ?m) \<or>
      in_items s i (st_done s) \<or> is_download_failed i s \<or> get_season_list ?m \<noteq> [season]")
    case True
    with step quiet z show ?thesis by (auto simp: episode_step_def Let_def)
  next
    case False
    then have fresh: "\<not> in_items s i (st_done s)" "\<not> is_download_failed i s" by simp_all
    from False step obtain eps s1 where eps: "item_episodes out i s = Some (eps, s1)"
      by (auto simp: episode_step_def Let_def split: option.splits)
    have i1: "untouched s s1" using eps by (rule idle_item_episodes)
    note num = item_episodes_numbers [OF eps]
    have old: "get_episode_list (st_items s i) = get_episode_list (st_items z i)"
      using z(2) fresh by (auto simp: same_numbers_def)
    have n1: "same_numbers z s1" by (rule same_numbers_step [OF z(2) fresh(1)]) (simp_all add: num(2-5) old)
    show ?thesis
    proof (cases "eps = [] \<or> relative_release_episodes eps need ?off season = None")
      case True
      with False step eps have "s' = s1 \<and> need' = need" by (auto simp: episode_step_def Let_def split: if_splits)
      with i1 n1 quiet show ?thesis by simp
    next
      case skip: False
      then obtain rel where rel: "relative_release_episodes eps need ?off season = Some rel" by blast
      define s2 where "s2 = put_item i (set_episodes rel (st_items s1 i)) s1"
      obtain dler did s3 where cb: "download_callback out i None None s2 = ((dler, did), s3)"
        by (metis prod.exhaust)
      have i3: "untouched s s3"
        using i1 idle_put(2) idle_download_callback [OF cb] unfolding s2_def by (blast intro: idle_trans)
      note cbs = callback_settles [OF cb]
      have n3: "same_numbers z s3"
        by (rule same_numbers_step [OF z(2) fresh(1)])
           (use cbs num(3-5) in \<open>auto simp: s2_def put_item_def\<close>)
      show ?thesis
      proof (cases did)
        case None
        with False step eps skip rel cb have "s' = s3 \<and> need' = need"
          by (simp add: episode_step_def Let_def s2_def [symmetric])
        with i3 n3 quiet show ?thesis by simp
      next
        case (Some d)
        have again: "s3\<lparr>st_done := append_new s3 i (st_done s3)\<rparr> = s3" using cbs(5) Some by (simp add: append_new_def)
        from False step eps skip rel cb Some again have up: "update_episodes key need rel season s3 = (need', s')"
          by (simp add: episode_step_def Let_def s2_def [symmetric])
        have core1: "item_core (st_items s1 i) = item_core ?m" using calm_item_episodes [OF eps] by (rule calm_item)
        let ?m2 = "set_episodes rel (st_items s1 i)"
        have m2: "media_series_scope_key ?m2 = media_series_scope_key ?m" "get_season_list ?m2 = get_season_list ?m"
          using core_fields(2,3) [of ?m2 ?m] core1 by simp_all
        have enc: "mi_enclosure ?m2 = mi_enclosure (st_items s1 i)" by (simp add: set_episodes_def)
        have log: "Download i ?m2 None None dler (Some d) \<in> set (st_log s3)" "set (st_log s1) \<subseteq> set (st_log s3)"
          using download_callback_logs [OF cb] idle_download_callback [OF cb] Some
          by (simp_all add: s2_def put_item_def untouched_def)
        have nums: "numbered_as z (st_log s3) i ?m2 eps"
          using num(1) skip log(2) unfolding numbered_as_def old [symmetric] enc by (auto split: if_splits)
        have want: "set need \<subseteq> wanted (st_tvs z r)" using f by (simp add: followed_def)
        have "0 \<le> ?off" by (simp add: episode_offset_def split: option.split)
        then have cov: "\<forall>e \<in> set rel. covered z (st_log s3) key season e"
          using False m2 log(1) nums want rz relative_stands_for [OF rel] unfolding covered_def by fastforce
        have f4: "followed z key season r need s3" by (rule followed_idle [OF i3 f])
        have "need \<noteq> []" using rel skip by (auto simp: relative_release_episodes_def Let_def split: if_splits)
        then have r4: "r \<in> set (entries s3 key)" using f4
          by (cases "r \<in> set (entries s3 key)") (simp_all add: followed_def)
        note upd = followed_update [OF up f4 r4 cov]
        have tidy: "tidy s3" "season_of (st_tvs s3 r) = season" using f4 by (simp_all add: followed_def)
        note eff = update_episodes_effect [OF up [folded tidy(2)] tidy(1) r4]
        have e3: "same_entries z s3" using same_entries_idle [OF i3] z(1) by simp
        have "same_entries z s'" by (rule same_entries_update [OF up [folded tidy(2)] tidy(1) r4 e3 want])
        moreover have "same_numbers z s'" using n3 by (simp add: same_numbers_def eff(10-12) is_download_failed_def in_items_def)
        moreover have "tracked z s s'" by (rule tracked_trans [OF tracked_idle [OF i3] upd(2)]) (simp add: eff(2))
        moreover have "set (st_log s) \<subseteq> set (st_log s')" using i3 by (simp add: untouched_def eff(2))
        ultimately show ?thesis using upd(1,3) by (simp add: entries_idle [OF i3])
      qed
    qed
  qed
qed

lemma followed_candidates:
  assumes "for_each (episode_step out key season (episode_offset (st_tvs z r))) is (need, s) = Some (need', s')"
    and "followed z key season r need s" and "same_entries z s" "same_numbers z s"
    and "r \<in> set (entries z key)" "season_of (st_tvs z r) = season"
  shows "tidy s' \<and> tracked z s s' \<and> set (st_log s) \<subseteq> set (st_log s') \<and>
     (\<forall>k. set (entries s k) - {r} \<subseteq> set (entries s' k)) \<and> same_entries z s' \<and> same_numbers z s'"
  using assms(1-4)
proof (induction "is" arbitrary: need s)
  case Nil
  then show ?case by (auto simp: followed_def)
next
  case (Cons i rest)
  from Cons.prems(1) obtain need1 s1
    where one: "episode_step out key season (episode_offset (st_tvs z r)) i (need, s) = Some (need1, s1)"
      and more: "for_each (episode_step out key season (episode_offset (st_tvs z r))) rest (need1, s1) = Some (need', s')"
    by (auto split: option.splits)
  note st = followed_episode_step [OF one Cons.prems(2-4) assms(5,6)]
  with Cons.IH [OF more] have r: "tidy s'" "tracked z s1 s'" "set (st_log s1) \<subseteq> set (st_log s')"
    "\<forall>k. set (entries s1 k) - {r} \<subseteq> set (entries s' k)" "same_entries z s'" "same_numbers z s'" by blast+
  have "tracked z s s'" using st r(2,3) by (blast intro: tracked_trans)
  moreover have "set (entries s k) - {r} \<subseteq> set (entries s' k)" for k using st r(4) by blast
  ultimately show ?case using st r by blast
qed

lemma followed_entry:
  assumes "episodes_of_entry out dl key r s = Some s'" "tidy s" "r \<in> set (entries s key)"
    and z: "same_entries z s" "same_numbers z s"
  shows "tidy s' \<and> tracked z s s' \<and> set (st_log s) \<subseteq> set (st_log s') \<and>
     (\<forall>k. set (entries s k) - {r} \<subseteq> set (entries s' k)) \<and> same_entries z s' \<and> same_numbers z s'"
proof -
  have rz: "r \<in> set (entries z key)" "season_of (st_tvs z r) = season_of (st_tvs s r)"
    "episode_offset (st_tvs s r) = episode_offset (st_tvs z r)" "wanted (st_tvs s r) \<subseteq> wanted (st_tvs z r)"
    using z(1) assms(3) by (auto simp: same_entries_def episode_offset_def)
  have f: "followed z key (season_of (st_tvs s r)) r need s" if "set need = wanted (st_tvs s r)" for need
    using assms(2,3) rz(4) that by (simp add: followed_def)
  show ?thesis
  proof (cases "episodes_of (st_tvs s r) = [] \<and> total_of (st_tvs s r) = 0")
    case True
    with assms show ?thesis by (auto simp: episodes_of_entry_def)
  next
    case False
    define need where "need = (if episodes_of (st_tvs s r) = [] then [1..total_of (st_tvs s r)] else episodes_of (st_tvs s r))"
    have "set need = wanted (st_tvs s r)" by (simp add: need_def wanted_def)
    moreover from False assms(1) obtain need' where
      "for_each (episode_step out key (season_of (st_tvs s r)) (episode_offset (st_tvs z r))) dl (need, s) = Some (need', s')"
      unfolding rz(3) [symmetric] by (auto simp: episodes_of_entry_def Let_def need_def split: if_splits)
    ultimately show ?thesis using followed_candidates [OF _ f z rz(1,2)] by blast
  qed
qed

lemma followed_entries:
  assumes "for_each (episodes_of_entry out dl key) rs s = Some s'" "tidy s" "set rs \<subseteq> set (entries s key)" "distinct rs"
    and "same_entries z s" "same_numbers z s"
  shows "tidy s' \<and> tracked z s s' \<and> set (st_log s) \<subseteq> set (st_log s') \<and> same_entries z s' \<and> same_numbers z s'"
  using assms
proof (induction rs arbitrary: s)
  case Nil
  then show ?case by simp
next
  case (Cons r rs)
  from Cons.prems(1) obtain s1 where one: "episodes_of_entry out dl key r s = Some s1"
    and more: "for_each (episodes_of_entry out dl key) rs s1 = Some s'"
    by (auto split: option.splits)
  from followed_entry [OF one Cons.prems(2) _ Cons.prems(5,6)] Cons.prems(3)
  have st: "tidy s1" "tracked z s s1" "set (st_log s) \<subseteq> set (st_log s1)" "set (entries s key) - {r} \<subseteq> set (entries s1 key)"
    "same_entries z s1" "same_numbers z s1"
    by auto
  have "set rs \<subseteq> set (entries s1 key)" using Cons.prems(3,4) st(4) by auto
  from Cons.IH [OF more st(1) this _ st(5,6)] Cons.prems(4) st show ?case by (auto intro: tracked_trans)
qed

text \<open>C15: In the phase of single episodes no missing episode is struck off without a download: with one entry per season and
  no entry under two keys, whatever was missing is still missing afterwards, or a downloader accepted a candidate of this media
  and season whose own numbers (of its item when the phase starts, or of its torrent file) contain it: as the missing number
  itself, as that number shifted by the offset of the entry, or, from the second season on and without an offset, shifted by
  the distance of a release that is numbered wholly after what is missing; and all numbers of that release stand for missing
  episodes in the same way.\<close>

theorem missing_episodes_kept:
  assumes "download_episodes out dl s = Some s'" and "tidy s" and "(season, e) \<in> missing s key"
  shows "(season, e) \<in> missing s' key \<or>
    (\<exists>i m path paused dler did eps r need d. Download i m path paused dler (Some did) \<in> set (st_log s') \<and>
        identity_keys_match key (media_series_scope_key m) \<and> get_season_list m = [season] \<and>
        numbered_as s (st_log s') i m eps \<and>
        r \<in> set (entries s key) \<and> season_of (st_tvs s r) = season \<and> need \<subseteq> wanted (st_tvs s r) \<and> e \<in> need \<and>
        e + d \<in> set eps \<and> stands_for (set eps) need (episode_offset (st_tvs s r)) season d)"
proof -
  have "tidy s' \<and> tracked s s s' \<and> same_entries s s' \<and> same_numbers s s'"
    using assms(1) unfolding download_episodes_def
  proof (rule for_each_inv)
    show "tidy s \<and> tracked s s s \<and> same_entries s s \<and> same_numbers s s" using assms(2) by simp
  next
    fix k t t' assume t: "tidy t \<and> tracked s s t \<and> same_entries s t \<and> same_numbers s t"
      and run: "for_each (episodes_of_entry out dl k) (entries t k) t = Some t'"
    have "distinct (entries t k)" using t by (auto simp: tidy_def distinct_map)
    then have "tidy t' \<and> tracked s t t' \<and> set (st_log t) \<subseteq> set (st_log t') \<and> same_entries s t' \<and> same_numbers s t'"
      using t by (intro followed_entries [OF run]) auto
    with t show "tidy t' \<and> tracked s s t' \<and> same_entries s t' \<and> same_numbers s t'" by (blast intro: tracked_trans)
  qed
  then have "(season, e) \<in> missing s' key \<or> covered s (st_log s') key season e"
    using assms(3) by (simp add: tracked_def)
  then show ?thesis unfolding covered_def .
qed

text \<open>A series of which episodes 2 and 3 of the first season are missing, one candidate, and a downloader
  that takes everything.\<close>

definition demo_item :: item where
  "demo_item = \<lparr>mi_type = TV, mi_title = ''t'', mi_name = [], mi_year = [], mi_identity_id = Some ''a'',
     mi_series_key = None, mi_anchor_provider = None, mi_anchor_external_id = None, mi_tmdb_id = PNone,
     mi_douban_id = PNone, mi_begin_season = Some 1, mi_end_season = None, mi_begin_episode = Some 2,
     mi_end_episode = None, mi_enclosure = Some ''u'', mi_page_url = None, mi_rest = 0\<rparr>"

definition demo_dl :: dl_outside where
  "demo_dl = \<lparr>os_url = (\<lambda>_ _. None), os_episodes = (\<lambda>_ _ _. Some ([1, 2, 3], Some ''f'')),
     os_download = (\<lambda>_ _ _ _. Some (Some ''d'', Some ''task'')), os_task_episodes = (\<lambda>_ _ _. Some []),
     os_select_files = (\<lambda>_ _ _. True), os_start = (\<lambda>_ _. True)\<rparr>"

definition demo_batch :: "item \<Rightarrow> dl_state" where
  "demo_batch m = \<lparr>st_items = (\<lambda>i. m\<lparr>mi_rest := i\<rparr>), st_failed = {},
     st_tvs = (\<lambda>_. \<lparr>nd_season = Some 1, nd_episodes = Some [2, 3], nd_total = Some 3, nd_offset = PNone\<rparr>),
     st_need = [(''id:a'', [0])], st_done = [], st_log = []\<rparr>"

theorem missing_episodes_kept_witness:
  "\<exists>s' i m path paused dler did. download_episodes demo_dl [0] (demo_batch demo_item) = Some s' \<and>
     (1, 2) \<notin> missing s' ''id:a'' \<and> Download i m path paused dler (Some did) \<in> set (st_log s')"
proof -
  have "map_option (\<lambda>s'. map (episodes_of \<circ> st_tvs s') (entries s' ''id:a'')) (download_episodes demo_dl [0] (demo_batch demo_item)) = Some [[3]]"
    by code_simp
  then obtain s' where s': "download_episodes demo_dl [0] (demo_batch demo_item) = Some s'"
    and left: "map (episodes_of \<circ> st_tvs s') (entries s' ''id:a'') = [[3]]" by auto
  have "tidy (demo_batch demo_item)" by (simp add: tidy_def entries_def demo_batch_def)
  moreover have "(1, 2) \<in> missing (demo_batch demo_item) ''id:a''"
    by (simp add: missing_def entries_def demo_batch_def season_of_def wanted_def episodes_of_def)
  moreover have "(1, 2) \<notin> missing s' ''id:a''" using left by (auto simp: missing_def wanted_def)
  ultimately show ?thesis using missing_episodes_kept [OF s', of 1 2 "''id:a''"] s' by blast
qed

theorem candidate_called_once_witness:
  "\<exists>r s'. batch_download demo_dl [0, 1] [0, 1] (demo_batch demo_item) = Some (r, s') \<and>
     distinct (calls (st_log s'))"
proof -
  have "batch_download demo_dl [0, 1] [0, 1] (demo_batch demo_item) \<noteq> None" by code_simp
  then obtain r s' where r: "batch_download demo_dl [0, 1] [0, 1] (demo_batch demo_item) = Some (r, s')" by force
  have "inj_on (item_core \<circ> st_items (demo_batch demo_item)) (set [0, 1])"
    by (simp add: demo_batch_def demo_item_def item_core_def)
  moreover have "distinct (map (\<lambda>k. normalize_identity_key (PStr k)) (keys (st_need (demo_batch demo_item))))"
    by (simp add: demo_batch_def)
  ultimately show ?thesis using candidate_called_once [OF r] r by (simp add: demo_batch_def)
qed

section \<open>Movies in order\<close>

text \<open>Of the candidates \<open>cs\<close> of one name, \<open>ts\<close> were tried; \<open>taken\<close> says that the last one was accepted.\<close>

definition in_turn :: "bool \<Rightarrow> nat list \<Rightarrow> nat list \<Rightarrow> nat set \<Rightarrow> nat set \<Rightarrow> bool" where
  "in_turn taken cs ts got failed \<longleftrightarrow>
     (if taken then (\<exists>left. cs = ts @ left) \<and> ts \<noteq> [] \<and> last ts \<in> got \<and> set (butlast ts) \<subseteq> failed
      else ts = cs \<and> set ts \<subseteq> failed)"

lemma butlast_subset: "set xs \<subseteq> A \<Longrightarrow> set (butlast xs) \<subseteq> A"
  by (meson in_set_butlastD subset_eq)

lemma in_turn_mono: "in_turn b cs ts g f \<Longrightarrow> g \<subseteq> g' \<Longrightarrow> f \<subseteq> f' \<Longrightarrow> in_turn b cs ts g' f'"
  by (auto simp: in_turn_def split: if_splits)

lemma in_turn_skip: "in_turn True cs ts g f \<Longrightarrow> in_turn True (cs @ [i]) ts g f"
  by (auto simp: in_turn_def)

lemma in_turn_fail: "in_turn False cs ts g f \<Longrightarrow> i \<in> f \<Longrightarrow> in_turn False (cs @ [i]) (ts @ [i]) g f"
  by (auto simp: in_turn_def)

lemma in_turn_take: "in_turn False cs ts g f \<Longrightarrow> i \<in> g \<Longrightarrow> in_turn True (cs @ [i]) (ts @ [i]) g f"
  by (auto simp: in_turn_def)

definition named :: "(nat \<Rightarrow> item) \<Rightarrow> string \<Rightarrow> nat list \<Rightarrow> nat list" where
  "named m0 n is = filter (\<lambda>i. movie_name (m0 i) = n) is"

definition movies_named :: "(nat \<Rightarrow> item) \<Rightarrow> string \<Rightarrow> nat list \<Rightarrow> nat list" where
  "movies_named m0 n is = filter (\<lambda>i. mi_type (m0 i) = MOVIE \<and> movie_name (m0 i) = n) is"

lemma named_append:
  "named m0 n (is @ [i]) = (if movie_name (m0 i) = n then named m0 n is @ [i] else named m0 n is)"
  "movies_named m0 n (is @ [i]) =
     (if mi_type (m0 i) = MOVIE \<and> movie_name (m0 i) = n then movies_named m0 n is @ [i] else movies_named m0 n is)"
  by (simp_all add: named_def movies_named_def)

text \<open>The loop over movies has passed the candidates \<open>xs\<close>.\<close>

definition movie_order :: "(nat \<Rightarrow> item) \<Rightarrow> nat list \<Rightarrow> nat list \<Rightarrow> movie_run \<Rightarrow> bool" where
  "movie_order m0 dl xs = (\<lambda>(names, got, s). told_apart dl s \<and> item_core \<circ> st_items s = item_core \<circ> m0 \<and> set got \<subseteq> set dl \<and>
     st_failed s \<subseteq> set xs \<and>
     (\<forall>n. in_turn (n \<in> names) (movies_named m0 n xs) (named m0 n (calls (st_log s))) (set got) (st_failed s)))"

lemma movie_order_step:
  assumes inv: "movie_order m0 dl xs (names, got, s)" and step: "movie_step out i (names, got, s) = Some (names', got', s')"
    and i: "i \<in> set dl" "i \<notin> set xs"
  shows "movie_order m0 dl (xs @ [i]) (names', got', s')"
proof -
  have ta: "told_apart dl s" and co: "item_core \<circ> st_items s = item_core \<circ> m0" and got: "set got \<subseteq> set dl"
    and fl: "st_failed s \<subseteq> set xs"
    and turn: "\<And>n. in_turn (n \<in> names) (movies_named m0 n xs) (named m0 n (calls (st_log s))) (set got) (st_failed s)"
    using inv by (simp_all add: movie_order_def)
  have "item_core (st_items s i) = item_core (m0 i)" using co by (metis comp_apply)
  from core_fields(1,4) [OF this]
  have mi: "mi_type (st_items s i) = mi_type (m0 i)" "movie_name (st_items s i) = movie_name (m0 i)" .
  have fresh: "i \<notin> st_failed s" using fl i(2) by blast
  show ?thesis
  proof (rule movie_step_cases [OF step ta i(1) got])
    assume eq: "s' = s" "names' = names" "got' = got"
      and skip: "mi_type (st_items s i) \<noteq> MOVIE \<or> i \<in> st_failed s \<or> movie_name (st_items s i) \<in> names"
    have "in_turn (n \<in> names) (movies_named m0 n (xs @ [i])) (named m0 n (calls (st_log s))) (set got) (st_failed s)" for n
      using turn [of n] skip fresh in_turn_skip unfolding mi by (auto simp: named_append)
    then show ?thesis using ta co got fl unfolding eq by (auto simp: movie_order_def)
  next
    assume c: "called i s s'" and eq: "names' = names" "got' = got" and new: "movie_name (st_items s i) \<notin> names"
      and ty: "mi_type (st_items s i) = MOVIE" and f: "i \<in> st_failed s'"
    have cs: "calls (st_log s') = calls (st_log s) @ [i]" "item_core \<circ> st_items s' = item_core \<circ> m0"
      using c co by (simp_all add: called_def)
    have "in_turn (n \<in> names) (movies_named m0 n (xs @ [i])) (named m0 n (calls (st_log s'))) (set got) (st_failed s')" for n
      using in_turn_mono [OF turn [of n] subset_refl called_mono(1) [OF c]] new ty f in_turn_fail
      unfolding mi cs(1) by (auto simp: named_append)
    moreover have "st_failed s' \<subseteq> set (xs @ [i])" using c fl by (auto simp: called_def)
    ultimately show ?thesis using told_apart_called [OF ta c i(1)] cs(2) got unfolding eq by (simp add: movie_order_def)
  next
    assume c: "called i s s'" and eq: "names' = insert (movie_name (st_items s i)) names"
        "got' = (if i \<in> set got then got else got @ [i])"
      and new: "movie_name (st_items s i) \<notin> names" and ty: "mi_type (st_items s i) = MOVIE"
    have cs: "calls (st_log s') = calls (st_log s) @ [i]" "item_core \<circ> st_items s' = item_core \<circ> m0"
      using c co by (simp_all add: called_def)
    have g: "set got' \<subseteq> set dl" "set got \<subseteq> set got'" "i \<in> set got'" using got i(1) by (auto simp: eq(2))
    have "in_turn (n \<in> names') (movies_named m0 n (xs @ [i])) (named m0 n (calls (st_log s'))) (set got') (st_failed s')" for n
      using in_turn_mono [OF turn [of n] g(2) called_mono(1) [OF c]] new ty g(3) in_turn_take
      unfolding mi cs(1) eq(1) by (auto simp: named_append)
    moreover have "st_failed s' \<subseteq> set (xs @ [i])" using c fl by (auto simp: called_def)
    ultimately show ?thesis using told_apart_called [OF ta c i(1)] cs(2) g(1) by (simp add: movie_order_def)
  qed
qed

lemma movie_order_run:
  assumes "for_each (movie_step out) ys r = Some r'" "movie_order m0 dl xs r" "distinct (xs @ ys)" "set ys \<subseteq> set dl"
  shows "movie_order m0 dl (xs @ ys) r'"
  using assms
proof (induction ys arbitrary: xs r)
  case Nil
  then show ?case by simp
next
  case (Cons i ys)
  obtain names got s where r: "r = (names, got, s)" by (cases r)
  from Cons.prems(1) r obtain names1 got1 s1 where one: "movie_step out i (names, got, s) = Some (names1, got1, s1)"
    and more: "for_each (movie_step out) ys (names1, got1, s1) = Some r'"
    by (auto split: option.splits)
  have "movie_order m0 dl (xs @ [i]) (names1, got1, s1)"
    by (rule movie_order_step [OF _ one]) (use Cons.prems r in auto)
  from Cons.IH [OF more this] Cons.prems(3,4) show ?case by simp
qed

text \<open>Of the candidates of one movie the downloader is offered the best first and the next one only after a
  failure: those offered are an initial part of the candidates in their order, all of them but the last
  failed, and when candidates are left then the last one offered was downloaded.\<close>

theorem movies_tried_in_order:
  assumes "download_movies out dl s = Some (got, s')" and "inj_on (item_core \<circ> st_items s) (set dl)" "distinct dl"
    and "st_log s = []" "st_done s = []" "st_failed s = {}"
  shows "\<exists>left. movies_named (st_items s) name dl = named (st_items s) name (calls (st_log s')) @ left \<and>
     set (butlast (named (st_items s) name (calls (st_log s')))) \<subseteq> st_failed s' \<and>
     (left \<noteq> [] \<longrightarrow> last (named (st_items s) name (calls (st_log s'))) \<in> set got)"
proof -
  from assms(1) obtain names where run: "for_each (movie_step out) dl ({}, [], s) = Some (names, got, s')"
    by (auto simp: download_movies_def)
  have "movie_order (st_items s) dl [] ({}, [], s)"
    using assms by (simp add: movie_order_def told_apart_def in_turn_def named_def movies_named_def)
  from movie_order_run [OF run this] assms(3)
  have "in_turn (name \<in> names) (movies_named (st_items s) name dl) (named (st_items s) name (calls (st_log s')))
      (set got) (st_failed s')" by (simp add: movie_order_def)
  then show ?thesis unfolding in_turn_def
    by (cases "name \<in> names") (simp, metis butlast_subset append_Nil2)
qed

theorem movies_tried_in_order_witness:
  "\<exists>got s'. download_movies demo_dl [0, 1] (demo_batch (demo_item\<lparr>mi_type := MOVIE\<rparr>)) = Some (got, s') \<and>
     calls (st_log s') = [0] \<and> 0 \<in> set got"
proof -
  let ?s = "demo_batch (demo_item\<lparr>mi_type := MOVIE\<rparr>)"
  have "download_movies demo_dl [0, 1] ?s \<noteq> None" by code_simp
  then obtain got s' where r: "download_movies demo_dl [0, 1] ?s = Some (got, s')" by force
  have "map_option (\<lambda>r. calls (st_log (snd r))) (download_movies demo_dl [0, 1] ?s) = Some [0]" by code_simp
  with r have cs: "calls (st_log s') = [0]" by simp
  have name: "movie_name (st_items ?s 0) = ''id:a''" "movie_name (st_items ?s 1) = ''id:a''" by code_simp+
  have "inj_on (item_core \<circ> st_items ?s) (set [0, 1])" by (simp add: demo_batch_def demo_item_def item_core_def)
  from movies_tried_in_order [OF r this, of "''id:a''"] cs name have "0 \<in> set got"
    by (auto simp: demo_batch_def demo_item_def named_def movies_named_def)
  with r cs show ?thesis by simp
qed

section \<open>A rollback forgets half\<close>

text \<open>When the files of a pack cannot be selected after the downloader accepted it, the task is removed
  again, but the batch keeps the candidate among its downloads and the episodes of the pack stay struck off
  the missing ones.\<close>

theorem rolled_back_pack_counts:
  assumes "os_episodes out (st_log s) (mi_enclosure (st_items s i)) (mi_page_url (st_items s i)) = Some (eps, path)"
    and "match_release_episodes eps need offset 1 = (sel, rel)" "sel \<noteq> []"
    and "\<forall>l m p q. os_download out l m p q = Some (dler, Some task)" "\<forall>l t es. \<not> os_select_files out l t es"
    and "told_apart dl s" "i \<in> set dl"
  shows "\<exists>need' s'. torrent_step out key season offset i (need, s) = Some (need', s') \<and>
     last (st_log s') = Removed task dler \<and> i \<in> set (st_done s') \<and> set need' = set need - set rel"
proof -
  define s1 where "s1 = put_log (Parsed (mi_enclosure (st_items s i)) eps path) s"
  have te: "torrent_episodes out i s = Some ((eps, path), s1)" using assms(1) by (simp add: torrent_episodes_def Let_def s1_def)
  obtain d did s2 where cb: "download_callback out i path (Some True) s1 = ((d, did), s2)" by (metis prod.exhaust)
  then have d: "d = dler" "did = Some task" using assms(4) by (auto simp: download_callback_def Let_def)
  have ta: "told_apart dl s1" using told_apart_calm [OF assms(6) calm_torrent_episodes [OF te]] .
  have dn: "i \<in> set (st_done s2)" using called_download_callback(2) [OF cb ta assms(7)] d(2) by simp
  obtain ok need' s3 where t: "take_episodes out key season i task dler sel rel (need, s2) = (ok, need', s3)"
    by (metis prod.exhaust)
  have ok: "\<not> ok" using t assms(5) by (auto simp: take_episodes_def Let_def split: prod.splits)
  have left: "set need' = set need - set rel"
    using t by (auto simp: take_episodes_def Let_def split: prod.splits dest!: update_episodes_left)
  have "torrent_step out key season offset i (need, s) = Some (need', rollback task dler s3)"
    using te assms(2,3) cb d t ok by (simp add: torrent_step_def)
  moreover have "i \<in> set (st_done s3)" using dn calm_take_episodes [OF t] by (simp add: calm_def)
  ultimately show ?thesis using left by (simp add: rollback_def put_log_def)
qed

theorem rolled_back_pack_counts_witness:
  "\<exists>need' s'. torrent_step (demo_dl\<lparr>os_select_files := \<lambda>_ _ _. False\<rparr>) ''id:a'' 1 0 0 ([2, 3], demo_batch demo_item) =
       Some (need', s') \<and> last (st_log s') = Removed ''task'' (Some ''d'') \<and> 0 \<in> set (st_done s') \<and> set need' = {}"
proof -
  have m: "match_release_episodes [1, 2, 3] [2, 3] 0 1 = ([2, 3], [2, 3])" by code_simp
  show ?thesis
    using rolled_back_pack_counts [where out = "demo_dl\<lparr>os_select_files := \<lambda>_ _ _. False\<rparr>" and i = 0 and
        s = "demo_batch demo_item" and dl = "[0]" and key = "''id:a''" and season = 1 and dler = "Some ''d''", OF _ m]
    by (simp add: demo_dl_def told_apart_def demo_batch_def)
qed

end
