(* ===== verification/FilterEngine.thy ===== *)
theory FilterEngine
  imports MediaItem
begin

text \<open>
  The filter that decides whether a release may be downloaded (\<open>indexer/core/filter_engine.py\<close>, and its
  older twin \<open>services/filter_service.py\<close>): the conditions of a subscription or search, and the rules of a
  rule group, of which the first that matches gives the priority.

  A check that raises is \<open>None\<close>. Parameters in \<open>filter_env\<close>: regular expressions of the standard library,
  ignoring case (\<open>None\<close> for a pattern that raises), the release group matcher, texts of floats
  and compound values, and the configured minimum size in MB. The messages that explain a rejection are
  replaced by their kind. Sizes are computed exactly, where Python computes with floats.
\<close>

section \<open>Releases\<close>

record release = item +
  rl_org_string :: string
  rl_rev_string :: "string option"
  rl_subtitle :: string
  rl_description :: string
  rl_language :: string
  rl_size :: pyval
  rl_total_episodes :: int
  rl_upload_factor :: "flt option"
  rl_download_factor :: "flt option"
  rl_pix :: string
  rl_resource_type :: string
  rl_resource_effect :: string
  rl_team :: string
  rl_site :: string

record filter_env =
  fe_search :: "string \<Rightarrow> string \<Rightarrow> bool option"
  fe_team_match :: "string option \<Rightarrow> string \<Rightarrow> string"
  fe_repr :: "pyval \<Rightarrow> string"
  fe_min_filesize :: int

text \<open>\<open>re.search(pattern, None)\<close> raises \<open>TypeError\<close>.\<close>

definition search_in :: "filter_env \<Rightarrow> string \<Rightarrow> string option \<Rightarrow> bool option" where
  "search_in ev pattern text = (case text of None \<Rightarrow> None | Some t \<Rightarrow> fe_search ev pattern t)"

definition get_edtion_string :: "release \<Rightarrow> string" where
  "get_edtion_string m =
     join '' '' ((if rl_resource_type m \<noteq> [] then [rl_resource_type m] else []) @
                 (if rl_resource_effect m \<noteq> [] then [rl_resource_effect m] else []))"

section \<open>Texts of sizes\<close>

definition is_unit :: "char \<Rightarrow> bool" where
  "is_unit c = (c \<in> set ''KMGTPI'')"

text \<open>The number of a text of the form \<open>\d+(\.\d+)?[KMGTPI]*B?\<close>, a final newline allowed.\<close>

definition scan_size :: "string \<Rightarrow> rat option" where
  "scan_size text =
     (let ip = takeWhile is_digit text; r = dropWhile is_digit text;
          fp = (case r of [] \<Rightarrow> [] | c # cs \<Rightarrow> if c = CHR ''.'' then takeWhile is_digit cs else []);
          r' = (if fp = [] then r else dropWhile is_digit (tl r));
          u = dropWhile is_unit r';
          rest = (case u of [] \<Rightarrow> [] | c # cs \<Rightarrow> if c = CHR ''B'' then cs else u)
      in if ip = [] \<or> \<not> (rest = [] \<or> rest = [CHR 0x0A]) then None
         else Some (of_nat (digits_val (map digit_of (ip @ fp))) / 10 ^ length fp))"

definition size_unit :: "string \<Rightarrow> rat" where
  "size_unit text =
     (if contains text ''PB'' \<or> contains text ''PIB'' \<or> endswith text ''P'' then 1024 ^ 5
      else if contains text ''TB'' \<or> contains text ''TIB'' \<or> endswith text ''T'' then 1024 ^ 4
      else if contains text ''GB'' \<or> contains text ''GIB'' \<or> endswith text ''G'' then 1024 ^ 3
      else if contains text ''MB'' \<or> contains text ''MIB'' \<or> endswith text ''M'' then 1024 ^ 2
      else if contains text ''KB'' \<or> contains text ''KIB'' \<or> endswith text ''K'' then 1024
      else 1)"

definition num_filesize :: "filter_env \<Rightarrow> pyval \<Rightarrow> int" where
  "num_filesize ev v =
     (if \<not> truthy v then 0
      else let text = py_str (fe_repr ev) v
        in if isdigit text then int (digits_val (map digit_of text))
           else let text = upper (filter (\<lambda>c. c \<noteq> CHR '','' \<and> c \<noteq> CHR '' '') text)
             in case scan_size text of
                  None \<Rightarrow> 0
                | Some x \<Rightarrow> round_half_even (x * size_unit text))"

text \<open>\<open>is_numeric\<close>: \<open>^[-+]?[0-9]+(\.[0-9]+)?$\<close>, a final newline allowed.\<close>

definition is_numeric :: "string \<Rightarrow> bool" where
  "is_numeric s =
     (let t = (case s of [] \<Rightarrow> [] | c # cs \<Rightarrow> if c = CHR ''-'' \<or> c = CHR ''+'' then cs else s);
          r = dropWhile is_digit t;
          rest = (case r of [] \<Rightarrow> []
                  | c # cs \<Rightarrow> if c = CHR ''.'' \<and> takeWhile is_digit cs \<noteq> [] then dropWhile is_digit cs else r)
      in takeWhile is_digit t \<noteq> [] \<and> (rest = [] \<or> rest = [CHR 0x0A]))"

text \<open>\<open>s.split()\<close>: the parts between runs of white space.\<close>

fun split_words :: "string \<Rightarrow> string \<Rightarrow> string list" where
  "split_words w [] = (if w = [] then [] else [rev w])"
| "split_words w (c # cs) =
     (if is_space c then (if w = [] then split_words [] cs else rev w # split_words [] cs)
      else split_words (c # w) cs)"

section \<open>Rules of a group\<close>

record filter_rule =
  fr_include :: "string list"
  fr_exclude :: "string list"
  fr_size :: string
  fr_free :: string
  fr_pri :: pyval
  fr_language :: string

text \<open>A rule as it is stored.\<close>

record rule_entity =
  re_include :: string
  re_exclude :: string
  re_size_limit :: string
  re_note :: string
  re_priority :: pyval
  re_language :: string

fun drop_cr :: "string \<Rightarrow> string" where
  "drop_cr (c # d # cs) = (if c = CHR 0x0D \<and> d = CHR 0x0A then d # drop_cr cs else c # drop_cr (d # cs))"
| "drop_cr cs = cs"

text \<open>The empty list stands for \<open>None\<close>.\<close>

definition split_rule_patterns :: "string \<Rightarrow> string list" where
  "split_rule_patterns raw =
     (if raw = [] then []
      else map strip (filter (\<lambda>x. strip x \<noteq> []) (split_on (CHR 0x0A) (drop_cr raw))))"

definition is_default_filter_rule :: "pyval \<Rightarrow> bool" where
  "is_default_filter_rule rule =
     (rule = PNone \<or> rule = PStr [] \<or> as_number rule = Some (Fin 0) \<or> rule = PStr ''0'')"

definition is_disabled_filter_rule :: "filter_env \<Rightarrow> pyval \<Rightarrow> bool" where
  "is_disabled_filter_rule ev rule = (py_str (fe_repr ev) rule = ''-1'')"

definition filters_from_rule_entities :: "rule_entity list \<Rightarrow> filter_rule list" where
  "filters_from_rule_entities =
     map (\<lambda>e. \<lparr>fr_include = split_rule_patterns (re_include e), fr_exclude = split_rule_patterns (re_exclude e),
               fr_size = re_size_limit e, fr_free = re_note e, fr_pri = re_priority e,
               fr_language = re_language e\<rparr>)"

definition filter_language_options :: "string list" where
  "filter_language_options = [''zh'', ''en'', ''ja'', ''ko'', ''fr'', ''de'', ''ru'', ''hi'']"

definition rule_language :: "filter_rule \<Rightarrow> release \<Rightarrow> bool" where
  "rule_language r m =
     (if fr_language r = [] \<or> rl_language m = [] then True
      else let lang = strip (rl_language m)
        in if fr_language r = ''other'' then take 2 lang \<notin> set filter_language_options
           else take 2 (fr_language r) = take 2 lang)"

text \<open>Every pattern to include has to be found; the search stops at the first that is not.\<close>

fun includes_found :: "filter_env \<Rightarrow> string option \<Rightarrow> string list \<Rightarrow> bool option" where
  "includes_found ev title [] = Some True"
| "includes_found ev title (p # ps) =
     (if p = [] then includes_found ev title ps
      else case search_in ev (strip p) title of
             None \<Rightarrow> None
           | Some b \<Rightarrow> if b then includes_found ev title ps else Some False)"

text \<open>\<open>(exclude_count, exclude_flag)\<close> after the loop: the flag says that some pattern was not found.\<close>

fun excludes_missed :: "filter_env \<Rightarrow> string option \<Rightarrow> string list \<Rightarrow> (nat \<times> bool) option" where
  "excludes_missed ev title [] = Some (0, False)"
| "excludes_missed ev title (p # ps) =
     (if p = [] then excludes_missed ev title ps
      else case search_in ev (strip p) title of
             None \<Rightarrow> None
           | Some b \<Rightarrow> map_option (\<lambda>(n, f). (Suc n, f \<or> \<not> b)) (excludes_missed ev title ps))"

definition rule_exclude :: "filter_env \<Rightarrow> string option \<Rightarrow> filter_rule \<Rightarrow> bool option" where
  "rule_exclude ev title r =
     (if fr_exclude r = [] then Some True
      else map_option (\<lambda>(n, f). \<not> (n > 0 \<and> \<not> f)) (excludes_missed ev title (fr_exclude r)))"

text \<open>The bounds in GB; a part that is not numeric reads as 0.\<close>

definition size_bound :: "string \<Rightarrow> rat" where
  "size_bound s = (if is_numeric s then (case py_float (strip s) of Some (Fin x) \<Rightarrow> x | _ \<Rightarrow> 0) else 0)"

definition size_range :: "string \<Rightarrow> rat \<times> rat" where
  "size_range sizes =
     (let parts = split_on (CHR '','') sizes
      in if CHR '','' \<in> set sizes then (size_bound (parts ! 0), size_bound (parts ! 1))
         else (0, size_bound sizes))"

definition rule_size :: "filter_rule \<Rightarrow> release \<Rightarrow> int \<Rightarrow> bool" where
  "rule_size r m bytes =
     (let (lo, hi) = size_range (fr_size r); gb = 1024 ^ 3
      in if mi_type m = MOVIE then lo * gb \<le> of_int bytes \<and> of_int bytes \<le> hi * gb
         else rl_total_episodes m = 0 \<or>
              lo * gb \<le> of_int bytes / of_int (rl_total_episodes m) \<and>
              of_int bytes / of_int (rl_total_episodes m) \<le> hi * gb)"

definition rule_free :: "filter_rule \<Rightarrow> release \<Rightarrow> bool option" where
  "rule_free r m =
     (case (rl_upload_factor m, rl_download_factor m) of
        (Some ul, Some dl) \<Rightarrow>
          if fr_free r = [] then Some True
          else (case split_words [] (fr_free r) of
            [a, b] \<Rightarrow>
              (case py_float a of
                 None \<Rightarrow> None
               | Some x \<Rightarrow>
                   if flt_less ul x then Some False
                   else (case py_float b of None \<Rightarrow> None | Some y \<Rightarrow> Some (\<not> flt_less y dl)))
          | _ \<Rightarrow> None)
      | _ \<Rightarrow> Some True)"

text \<open>Language, patterns to include and patterns to exclude.\<close>

definition rule_texts :: "filter_env \<Rightarrow> string option \<Rightarrow> filter_rule \<Rightarrow> release \<Rightarrow> bool option" where
  "rule_texts ev title r m =
     (let lang = rule_language r m;
          inc = (if fr_include r \<noteq> [] \<and> lang then includes_found ev title (fr_include r) else Some lang)
      in case inc of
           None \<Rightarrow> None
         | Some b \<Rightarrow> if b then rule_exclude ev title r else Some False)"

text \<open>One pass of the loop: whether the rule matches (\<open>None\<close>: it raised), and the item, whose size is
  rewritten as a number once a rule tests it.\<close>

definition rule_match :: "filter_env \<Rightarrow> string option \<Rightarrow> filter_rule \<Rightarrow> release \<Rightarrow> bool option \<times> release" where
  "rule_match ev title r m =
     (case rule_texts ev title r m of
        None \<Rightarrow> (None, m)
      | Some b \<Rightarrow>
          let sized = fr_size r \<noteq> [] \<and> b \<and> truthy (rl_size m);
              bytes = num_filesize ev (rl_size m);
              m' = (if sized then m\<lparr>rl_size := PInt bytes\<rparr> else m);
              ok = (if sized then rule_size r m bytes else b)
          in (map_option (\<lambda>f. ok \<and> f) (rule_free r m'), m'))"

text \<open>The loop over the rules with \<open>order_seq\<close> and \<open>group_match\<close>.\<close>

fun rules_loop ::
  "filter_env \<Rightarrow> string option \<Rightarrow> filter_rule list \<Rightarrow> int \<Rightarrow> bool \<Rightarrow> release \<Rightarrow> (bool \<times> int) \<times> release" where
  "rules_loop ev title [] order_seq group_match m = (if group_match then (True, order_seq) else (False, 0), m)"
| "rules_loop ev title (r # rs) order_seq group_match m =
     (case pyval_int (fr_pri r) of
        None \<Rightarrow> rules_loop ev title rs order_seq group_match m
      | Some pri \<Rightarrow>
          let order_seq = 100 - pri
          in case rule_match ev title r m of
               (None, m') \<Rightarrow> rules_loop ev title rs order_seq group_match m'
             | (Some b, m') \<Rightarrow>
                 if b then ((True, order_seq), m') else rules_loop ev title rs order_seq False m')"

text \<open>\<open>f"{title} {more}"\<close>: the text of \<open>None\<close> is \<open>None\<close>.\<close>

definition add_text :: "string \<Rightarrow> string option \<Rightarrow> string option" where
  "add_text t title =
     (if t = [] then title
      else Some ((case title of None \<Rightarrow> ''None'' | Some s \<Rightarrow> s) @ '' '' @ t))"

text \<open>The result is the decision with the priority; the name of the group comes from the caller.\<close>

definition check_rules :: "filter_env \<Rightarrow> filter_rule list \<Rightarrow> release \<Rightarrow> (bool \<times> int) \<times> release" where
  "check_rules ev filters m =
     rules_loop ev (add_text (rl_description m) (add_text (rl_subtitle m) (rl_rev_string m))) filters 0 True m"

text \<open>The check of \<open>FilterRuleEngine\<close>, which does not read the description.\<close>

definition service_check_rules :: "filter_env \<Rightarrow> filter_rule list \<Rightarrow> release \<Rightarrow> (bool \<times> int) \<times> release" where
  "service_check_rules ev filters m =
     rules_loop ev (add_text (rl_subtitle m) (rl_rev_string m)) filters 0 True m"

section \<open>Conditions\<close>

definition media_type_from_string :: "string \<Rightarrow> media_type" where
  "media_type_from_string v =
     (let n = lower (strip v)
      in if n = ''movie'' \<or> n = (u8 [231, 148, 181, 229, 189, 177]) then MOVIE
         else if n = ''tv'' \<or> n = ''series'' \<or> n = ''show'' \<or> n = (u8 [231, 148, 181, 232, 167, 134, 229, 137, 167]) then TV
         else if n = ''anime'' \<or> n = (u8 [229, 138, 168, 230, 188, 171]) then ANIME
         else UNKNOWN)"

text \<open>The conditions of a search or subscription; the empty text is a condition that is not set.\<close>

record filter_args =
  fa_type :: "(string + media_type) option"
  fa_restype :: string
  fa_pix :: string
  fa_team :: string
  fa_sp_state :: string
  fa_free :: pyval
  fa_include :: string
  fa_exclude :: string
  fa_key :: string

datatype reject =
    Audio | Book | Small | Quality | Pixels | Team | Promotion | NotFree | Include | Exclude | Keyword

text \<open>\<open>any(re.search(pat, text) for pat in patterns)\<close>\<close>

fun any_found :: "filter_env \<Rightarrow> string list \<Rightarrow> string option \<Rightarrow> bool option" where
  "any_found ev [] text = Some False"
| "any_found ev (p # ps) text =
     (case search_in ev p text of None \<Rightarrow> None | Some b \<Rightarrow> if b then Some True else any_found ev ps text)"

definition video_markers :: string where
  "video_markers = ''(?i)(?:2160p|1080p|720p|4k|bdrip|bluray|web-?dl|webrip|hdtv|dvdrip|hevc|avc|x264|x265|h'' @
     [CHR 0x5C] @ ''.?264|h'' @ [CHR 0x5C] @ ''.?265|'' @ [CHR 0x5C] @ ''.mkv|'' @ [CHR 0x5C] @ ''.mp4|'' @
     [CHR 0x5C] @ ''.avi)''"

text \<open>A tag in escaped brackets, an escaped extension.\<close>

definition bracketed :: "string \<Rightarrow> string" where
  "bracketed t = [CHR 0x5C] @ ''['' @ t @ [CHR 0x5C] @ '']''"

definition audio_tags :: "string list" where
  "audio_tags = map bracketed [''FLAC'', ''MP3'', ''AAC'', ''WAV'', ''OGG'', ''ALAC'', ''OST'', ''Soundtrack'', ''Music'', ''Audio''] @
     [(u8 [79, 80, 227, 131, 134, 227, 131, 188, 227, 131, 158]), (u8 [69, 68, 227, 131, 134, 227, 131, 188, 227, 131, 158]), (u8 [228, 184, 187, 233, 161, 140, 230, 173, 140]), (u8 [227, 130, 173, 227, 131, 163, 227, 131, 169, 227, 130, 189, 227, 131, 179])]"

definition audio_extensions :: "string list" where
  "audio_extensions = map (\<lambda>e. [CHR 0x5C] @ ''.'' @ e) [''flac'', ''mp3'', ''m4a'', ''wav'', ''ogg'']"

definition book_patterns :: "string list" where
  "book_patterns =
     [(u8 [40, 63, 58, 230, 188, 171, 231, 148, 187, 124, 227, 130, 179, 227, 131, 159, 227, 131, 131, 227, 130, 175, 124, 229, 141, 149, 232, 161, 140, 230, 156, 172, 124, 77, 97, 110, 103, 97, 124, 67, 111, 109, 105, 99, 124, 229, 183, 187, 231, 155, 184, 229, 189, 147, 124, 71, 114, 97, 112, 104, 105, 99, 32, 78, 111, 118, 101, 108, 41]),
      ''(?:raw|RAW)'' @ [CHR 0x5C] @ ''b.*'' @ (u8 [231, 172, 172]) @ [CHR 0x5C] @ ''s*'' @ [CHR 0x5C] @ ''d+'' @ [CHR 0x5C] @ ''s*'' @ (u8 [229, 183, 187]),
      (u8 [231, 172, 172]) @ [CHR 0x5C] @ ''s*'' @ [CHR 0x5C] @ ''d+'' @ [CHR 0x5C] @ ''s*'' @ (u8 [229, 183, 187]) @ ''.*(?:raw|RAW)'' @ [CHR 0x5C] @ ''b'']"

definition restype_params :: "(string, string) dict" where
  "restype_params =
     (let bs = [CHR 0x5C] in
      [(''BLURAY'', ''Blu-?Ray|BD|BDRIP''), (''REMUX'', ''REMUX''),
       (''DOLBY'', ''DOLBY|DOVI|'' @ bs @ ''s+DV$|'' @ bs @ ''s+DV'' @ bs @ ''s+''), (''WEB'', ''WEB-?DL|WEBRIP''),
       (''WEB-DL'', ''WEB-?DL|WEBRIP''), (''HDTV'', ''U?HDTV''), (''UHD'', ''UHD''), (''HDR'', ''HDR''), (''3D'', ''3D''),
       (''H265'', ''H'' @ bs @ ''.?265|HEVC|X265''), (''H264'', ''H'' @ bs @ ''.?264|AVC|X264'')])"

definition pix_params :: "(string, string) dict" where
  "pix_params = [(''8k'', ''8K''), (''4k'', ''4K|2160P|X2160''), (''1080p'', ''1080[PIX]|X1080''), (''720p'', ''720P'')]"

text \<open>The patterns that the known names of a comma separated condition stand for.\<close>

definition condition_patterns :: "(string, string) dict \<Rightarrow> (string \<Rightarrow> string) \<Rightarrow> string \<Rightarrow> string list" where
  "condition_patterns params conv v =
     List.map_filter (dget params) (map (\<lambda>s. conv (strip s)) (filter (\<lambda>s. strip s \<noteq> []) (split_on (CHR '','') v)))"

definition reject_if :: "reject \<Rightarrow> bool option \<Rightarrow> reject option option" where
  "reject_if r b = map_option (\<lambda>b. if b then Some r else None) b"

text \<open>The first test that rejects or raises decides.\<close>

fun first_reject :: "reject option option list \<Rightarrow> reject option option" where
  "first_reject [] = Some None"
| "first_reject (None # ts) = None"
| "first_reject (Some (Some r) # ts) = Some (Some r)"
| "first_reject (Some None # ts) = first_reject ts"

definition negated :: "bool option \<Rightarrow> bool option" where
  "negated b = map_option Not b"

definition check_audio :: "filter_env \<Rightarrow> string option \<Rightarrow> reject option option" where
  "check_audio ev text =
     (case search_in ev video_markers text of
        None \<Rightarrow> None
      | Some video \<Rightarrow>
          first_reject [if video then Some None else reject_if Audio (any_found ev audio_tags text),
                        reject_if Audio (any_found ev audio_extensions text)])"

definition target_type :: "filter_args \<Rightarrow> media_type option" where
  "target_type args =
     (case fa_type args of None \<Rightarrow> None | Some (Inl s) \<Rightarrow> Some (media_type_from_string s) | Some (Inr t) \<Rightarrow> Some t)"

definition wants_video :: "filter_args \<Rightarrow> bool" where
  "wants_video args = (target_type args \<in> {Some TV, Some MOVIE, Some ANIME})"

definition check_book :: "filter_env \<Rightarrow> filter_args \<Rightarrow> release \<Rightarrow> reject option option" where
  "check_book ev args m =
     (if \<not> wants_video args then Some None
      else reject_if Book (any_found ev book_patterns
             (Some (if rl_org_string m \<noteq> [] then rl_org_string m else opt_text (rl_rev_string m)))))"

definition check_small :: "filter_env \<Rightarrow> filter_args \<Rightarrow> release \<Rightarrow> reject option option" where
  "check_small ev args m =
     (let bytes = num_filesize ev (rl_size m)
      in if wants_video args \<and> fe_min_filesize ev \<noteq> 0 \<and> truthy (rl_size m) \<and> bytes \<noteq> 0 \<and>
            bytes < fe_min_filesize ev * 1024 * 1024 then Some (Some Small) else Some None)"

definition check_patterns :: "filter_env \<Rightarrow> reject \<Rightarrow> string list \<Rightarrow> string \<Rightarrow> reject option option" where
  "check_patterns ev kind patterns value =
     (if patterns = [] then Some None
      else if value = [] then Some (Some kind)
      else reject_if kind (negated (fe_search ev (join ''|'' patterns) value)))"

definition check_quality :: "filter_env \<Rightarrow> filter_args \<Rightarrow> release \<Rightarrow> reject option option" where
  "check_quality ev args m =
     (if fa_restype args = [] then Some None
      else check_patterns ev Quality (condition_patterns restype_params upper (fa_restype args)) (get_edtion_string m))"

definition check_pix :: "filter_env \<Rightarrow> filter_args \<Rightarrow> release \<Rightarrow> reject option option" where
  "check_pix ev args m =
     (if fa_pix args = [] then Some None
      else check_patterns ev Pixels (condition_patterns pix_params lower (fa_pix args)) (rl_pix m))"

text \<open>A release without a team takes the one that the matcher finds.\<close>

definition check_team :: "filter_env \<Rightarrow> filter_args \<Rightarrow> release \<Rightarrow> (reject option \<times> release) option" where
  "check_team ev args m =
     (if fa_team args = [] then Some (None, m)
      else if rl_team m = [] then
        (let found = fe_team_match ev (rl_rev_string m) (fa_team args)
         in if found = [] then Some (Some Team, m) else Some (None, m\<lparr>rl_team := found\<rparr>))
      else map_option (\<lambda>r. (r, m)) (reject_if Team (negated (fe_search ev (fa_team args) (rl_team m)))))"

text \<open>\<open>ul_factor, dl_factor = sp_state.split()\<close> raises unless there are two parts.\<close>

definition check_promotion :: "filter_env \<Rightarrow> filter_args \<Rightarrow> pyval \<Rightarrow> pyval \<Rightarrow> reject option option" where
  "check_promotion ev args ul dl =
     (if fa_sp_state args = [] then Some None
      else case split_words [] (fa_sp_state args) of
             [a, b] \<Rightarrow>
               if truthy ul \<and> a \<noteq> ''*'' \<and> a \<noteq> py_str (fe_repr ev) ul then Some (Some Promotion)
               else if truthy dl \<and> b \<noteq> ''*'' \<and> b \<noteq> py_str (fe_repr ev) dl then Some (Some Promotion)
               else Some None
           | _ \<Rightarrow> None)"

definition check_free :: "filter_args \<Rightarrow> pyval \<Rightarrow> reject option option" where
  "check_free args dl =
     (if \<not> truthy (fa_free args) then Some None
      else if dl = PNone then Some (Some NotFree)
      else reject_if NotFree (map_option (\<lambda>x. x \<noteq> Fin 0) (pyval_float dl)))"

definition check_text :: "filter_env \<Rightarrow> reject \<Rightarrow> bool \<Rightarrow> string \<Rightarrow> string option \<Rightarrow> reject option option" where
  "check_text ev kind wanted pattern text =
     (if pattern = [] then Some None
      else reject_if kind (map_option (\<lambda>b. b \<noteq> wanted) (search_in ev pattern text)))"

text \<open>\<open>None\<close> as the rejection is the acceptance; the priority of this check is always 0.\<close>

definition check_torrent_filter ::
  "filter_env \<Rightarrow> filter_args \<Rightarrow> pyval \<Rightarrow> pyval \<Rightarrow> release \<Rightarrow> (reject option \<times> release) option" where
  "check_torrent_filter ev args ul dl m =
     (let text = Some (the (add_text (rl_subtitle m) (Some (opt_text (rl_rev_string m)))))
      in case first_reject [check_audio ev text, check_book ev args m, check_small ev args m,
                            check_quality ev args m, check_pix ev args m] of
           None \<Rightarrow> None
         | Some (Some r) \<Rightarrow> Some (Some r, m)
         | Some None \<Rightarrow>
             (case check_team ev args m of
                None \<Rightarrow> None
              | Some (Some r, m') \<Rightarrow> Some (Some r, m')
              | Some (None, m') \<Rightarrow>
                  map_option (\<lambda>r. (r, m'))
                    (first_reject [check_promotion ev args ul dl, check_free args dl,
                                   check_text ev Include True (fa_include args) text,
                                   check_text ev Exclude False (fa_exclude args) text,
                                   check_text ev Keyword True (fa_key args) text])))"

text \<open>The check of \<open>FilterRuleEngine\<close> knows no audio, no books, no minimum size and no free releases.\<close>

definition service_torrent_filter ::
  "filter_env \<Rightarrow> filter_args \<Rightarrow> pyval \<Rightarrow> pyval \<Rightarrow> release \<Rightarrow> (reject option \<times> release) option" where
  "service_torrent_filter ev args ul dl m =
     (let text = add_text (rl_subtitle m) (rl_rev_string m)
      in case first_reject [check_quality ev args m, check_pix ev args m] of
           None \<Rightarrow> None
         | Some (Some r) \<Rightarrow> Some (Some r, m)
         | Some None \<Rightarrow>
             (case check_team ev args m of
                None \<Rightarrow> None
              | Some (Some r, m') \<Rightarrow> Some (Some r, m')
              | Some (None, m') \<Rightarrow>
                  map_option (\<lambda>r. (r, m'))
                    (first_reject [check_promotion ev args ul dl,
                                   check_text ev Include True (fa_include args) text,
                                   check_text ev Exclude False (fa_exclude args) text,
                                   check_text ev Keyword True (fa_key args) text])))"

section \<open>Season, episode and year of a search\<close>

text \<open>One number stands for the list of it, and the empty list for no condition.\<close>

definition year_apart :: "string \<Rightarrow> string \<Rightarrow> bool" where
  "year_apart a b =
     (isdigit a \<and> isdigit b \<and>
      (let m = int (digits_val (map digit_of a)); n = int (digits_val (map digit_of b))
       in m > 0 \<and> n > 0 \<and> \<bar>m - n\<bar> > 1))"

definition is_torrent_match_sey :: "release \<Rightarrow> int list \<Rightarrow> int list \<Rightarrow> string \<Rightarrow> bool" where
  "is_torrent_match_sey m s_num e_num year_str =
     (if s_num \<noteq> [] \<and> (get_season_list m = [] \<or> \<not> set (get_season_list m) \<subseteq> set s_num) then False
      else if e_num \<noteq> [] \<and> \<not> set (get_episode_list m) \<subseteq> set e_num then False
      else \<not> (year_str \<noteq> [] \<and> year_apart (mi_year m) year_str))"

section \<open>The groups of the filter service\<close>

record group_row =
  gr_id :: int
  gr_name :: string
  gr_is_default :: string

record rule_row =
  rr_id :: int
  rr_group :: int
  rr_include :: "string option"
  rr_exclude :: "string option"
  rr_size :: string
  rr_note :: string
  rr_priority :: pyval
  rr_language :: string

record filter_tables =
  ft_groups :: "group_row list"
  ft_rules :: "rule_row list"

text \<open>\<open>get_rule_groups(groupid=g)\<close> and \<open>get_rule_groups(default=True)\<close>; \<open>None\<close> is the empty dictionary.\<close>

definition group_by_id :: "filter_env \<Rightarrow> filter_tables \<Rightarrow> pyval \<Rightarrow> group_row option" where
  "group_by_id ev ft gid = find (\<lambda>g. py_str (fe_repr ev) gid = int_str (gr_id g)) (ft_groups ft)"

definition default_group :: "filter_tables \<Rightarrow> group_row option" where
  "default_group ft = find (\<lambda>g. gr_is_default g = ''Y'') (ft_groups ft)"

definition stored_patterns :: "string option \<Rightarrow> string list" where
  "stored_patterns v = (case v of None \<Rightarrow> [] | Some s \<Rightarrow> split_on (CHR 0x0A) s)"

definition get_rules :: "filter_tables \<Rightarrow> int option \<Rightarrow> filter_rule list" where
  "get_rules ft gid =
     (case gid of
        None \<Rightarrow> []
      | Some g \<Rightarrow>
          if g = 0 then []
          else map (\<lambda>r. \<lparr>fr_include = stored_patterns (rr_include r), fr_exclude = stored_patterns (rr_exclude r),
                          fr_size = rr_size r, fr_free = rr_note r, fr_pri = py_or (rr_priority r) (PInt 0),
                          fr_language = rr_language r\<rparr>)
                 (filter (\<lambda>r. rr_group r = g) (ft_rules ft)))"

definition get_rule_first_order :: "filter_tables \<Rightarrow> group_row option \<Rightarrow> int option" where
  "get_rule_first_order ft chosen =
     (let g = (case chosen of None \<Rightarrow> default_group ft | Some x \<Rightarrow> Some x);
          pris = map (\<lambda>r. pyval_int (fr_pri r)) (get_rules ft (map_option gr_id g))
      in if None \<in> set pris then None
         else Some (100 - (if pris = [] then 0 else Min (set (map the pris)))))"

text \<open>\<open>FilterService.check_rules\<close>: \<open>None\<close> is a rule group that \<open>int\<close> cannot read.\<close>

definition service_check ::
  "filter_env \<Rightarrow> filter_tables \<Rightarrow> pyval \<Rightarrow> release \<Rightarrow> ((bool \<times> int) \<times> release) option" where
  "service_check ev ft rulegroup m =
     (if truthy rulegroup then
        (case pyval_int rulegroup of
           None \<Rightarrow> None
         | Some n \<Rightarrow>
             if n = -1 then Some ((True, 0), m)
             else Some (service_check_rules ev
                    (get_rules ft (map_option gr_id (group_by_id ev ft rulegroup))) m))
      else (case default_group ft of
              None \<Rightarrow> Some ((True, 0), m)
            | Some g \<Rightarrow> Some (service_check_rules ev (get_rules ft (Some (gr_id g))) m)))"

definition is_rule_free :: "filter_env \<Rightarrow> filter_tables \<Rightarrow> pyval \<Rightarrow> bool" where
  "is_rule_free ev ft rulegroup =
     (let g = (if truthy rulegroup then group_by_id ev ft rulegroup else default_group ft)
      in list_ex (\<lambda>r. fr_free r \<noteq> []) (get_rules ft (map_option gr_id g)))"

section \<open>The loop over the rules\<close>

definition readable :: "filter_rule \<Rightarrow> bool" where
  "readable r \<longleftrightarrow> pyval_int (fr_pri r) \<noteq> None"

text \<open>What a rule says of an item: \<open>None\<close> when it raises.\<close>

definition verdict :: "filter_env \<Rightarrow> string option \<Rightarrow> release \<Rightarrow> filter_rule \<Rightarrow> bool option" where
  "verdict ev title m r = (if readable r then fst (rule_match ev title r m) else None)"

definition priority_of :: "filter_rule \<Rightarrow> int" where
  "priority_of r = 100 - the (pyval_int (fr_pri r))"

text \<open>The priority of the last rule whose priority can be read.\<close>

fun last_priority :: "filter_rule list \<Rightarrow> int \<Rightarrow> int" where
  "last_priority [] seq = seq"
| "last_priority (r # rs) seq = last_priority rs (if readable r then priority_of r else seq)"

text \<open>A size that is set but cannot be read, as a number of bytes other than 0.\<close>

definition size_unreadable :: "filter_env \<Rightarrow> release \<Rightarrow> bool" where
  "size_unreadable ev m \<longleftrightarrow> truthy (rl_size m) \<and> num_filesize ev (rl_size m) = 0"

text \<open>A rule that gets as far as the size: its priority and its patterns raise nothing, the patterns hold, and it has a range.\<close>

definition tests_size :: "filter_env \<Rightarrow> string option \<Rightarrow> release \<Rightarrow> filter_rule \<Rightarrow> bool" where
  "tests_size ev title m r \<longleftrightarrow> readable r \<and> rule_texts ev title r m = Some True \<and> fr_size r \<noteq> []"

text \<open>The item as a rule sees it after the rules before it: an unreadable size counts for the first rule that tests it and is
  no size for the others.\<close>

definition seen_item :: "filter_env \<Rightarrow> string option \<Rightarrow> release \<Rightarrow> filter_rule list \<Rightarrow> release" where
  "seen_item ev title m before =
     (if size_unreadable ev m \<and> list_ex (tests_size ev title m) before then m\<lparr>rl_size := PInt 0\<rparr> else m)"

lemma digits_val_nonneg [simp]: "0 \<le> int (digits_val ds)"
  by simp

lemma scan_size_nonneg: "scan_size t = Some x \<Longrightarrow> 0 \<le> x"
  by (auto simp: scan_size_def Let_def split: if_splits)

lemma size_unit_pos: "0 < size_unit t"
  by (simp add: size_unit_def)

lemma num_filesize_nonneg: "0 \<le> num_filesize ev v"
  using round_half_even_nonneg mult_nonneg_nonneg [OF scan_size_nonneg less_imp_le [OF size_unit_pos]]
  by (auto simp: num_filesize_def Let_def split: option.split)

text \<open>Reading a size that was read before gives the same number.\<close>

lemma num_filesize_again: "num_filesize ev (PInt (num_filesize ev v)) = num_filesize ev v"
proof (cases "num_filesize ev v")
  case (nonneg n)
  have "isdigit (nat_str n)" using nat_str_digits [of n] by (auto simp: isdigit_def)
  with nonneg show ?thesis by (simp add: num_filesize_def int_str_def digits_val_nat_str)
next
  case (neg n)
  then show ?thesis using num_filesize_nonneg [of ev v] by simp
qed

lemma rule_match_item:
  "snd (rule_match ev title r m) = m \<or>
   truthy (rl_size m) \<and> snd (rule_match ev title r m) = m\<lparr>rl_size := PInt (num_filesize ev (rl_size m))\<rparr>"
  by (cases "rule_texts ev title r m") (simp_all add: rule_match_def Let_def)

lemma size_irrelevant [simp]:
  "rule_texts ev title r (m\<lparr>rl_size := v\<rparr>) = rule_texts ev title r m"
  "rule_size r (m\<lparr>rl_size := v\<rparr>) n = rule_size r m n"
  "rule_free r (m\<lparr>rl_size := v\<rparr>) = rule_free r m"
  by (simp_all add: rule_texts_def rule_language_def rule_size_def rule_free_def)

text \<open>Rewriting the size of an item changes no verdict when the size can be read.\<close>

lemma rule_match_again:
  assumes "truthy (rl_size m)" "num_filesize ev (rl_size m) \<noteq> 0"
  shows "fst (rule_match ev title r (m\<lparr>rl_size := PInt (num_filesize ev (rl_size m))\<rparr>)) = fst (rule_match ev title r m)"
  using assms
  by (cases "rule_texts ev title r m") (simp_all add: rule_match_def Let_def num_filesize_again)

lemma rule_match_sized:
  assumes "readable r"
  shows "snd (rule_match ev title r m) =
    (if tests_size ev title m r \<and> truthy (rl_size m) then m\<lparr>rl_size := PInt (num_filesize ev (rl_size m))\<rparr> else m)"
  using assms by (cases "rule_texts ev title r m") (auto simp: rule_match_def tests_size_def Let_def)

text \<open>An item that the loop has reached after the rules in \<open>before\<close>.\<close>

definition reached :: "filter_env \<Rightarrow> string option \<Rightarrow> release \<Rightarrow> filter_rule list \<Rightarrow> release \<Rightarrow> bool" where
  "reached ev title m before m' \<longleftrightarrow>
     m' = (if truthy (rl_size m) \<and> list_ex (tests_size ev title m) before
           then m\<lparr>rl_size := PInt (num_filesize ev (rl_size m))\<rparr> else m)"

lemma tests_size_size [simp]: "tests_size ev title (m\<lparr>rl_size := v\<rparr>) r = tests_size ev title m r"
  by (simp add: tests_size_def)

lemma reached_verdict:
  assumes "reached ev title m before m'"
  shows "fst (rule_match ev title r m') = fst (rule_match ev title r (seen_item ev title m before))"
  using assms by (auto simp: reached_def seen_item_def size_unreadable_def rule_match_again)

lemma reached_next:
  assumes "reached ev title m before m'" and "readable r"
  shows "reached ev title m (before @ [r]) (snd (rule_match ev title r m'))"
proof -
  let ?t = "list_ex (tests_size ev title m) before" and ?n = "num_filesize ev (rl_size m)"
  show ?thesis
  proof (cases "truthy (rl_size m) \<and> ?t")
    case True
    then have m': "m' = m\<lparr>rl_size := PInt ?n\<rparr>" using assms(1) by (simp add: reached_def)
    then have "num_filesize ev (rl_size m') = ?n" by (simp add: num_filesize_again)
    then have "snd (rule_match ev title r m') = m'" using rule_match_sized [OF assms(2), of ev title m'] m' by simp
    then show ?thesis using m' True by (simp add: reached_def)
  next
    case False
    then have m': "m' = m" using assms(1) unfolding reached_def by (rule subst [OF if_not_P])
    have "(tests_size ev title m r \<and> truthy (rl_size m)) = (truthy (rl_size m) \<and> list_ex (tests_size ev title m) (before @ [r]))"
      using False by (simp add: conj_commute) blast
    then show ?thesis unfolding reached_def m' rule_match_sized [OF assms(2)] by (simp only:)
  qed
qed

lemma reached_skip: "reached ev title m before m' \<Longrightarrow> \<not> readable r \<Longrightarrow> reached ev title m (before @ [r]) m'"
  by (simp add: reached_def tests_size_def)

text \<open>The verdict of a rule in its place.\<close>

definition verdict_after :: "filter_env \<Rightarrow> string option \<Rightarrow> release \<Rightarrow> filter_rule list \<Rightarrow> filter_rule \<Rightarrow> bool option" where
  "verdict_after ev title m before r = verdict ev title (seen_item ev title m before) r"

fun verdicts_from :: "filter_env \<Rightarrow> string option \<Rightarrow> release \<Rightarrow> filter_rule list \<Rightarrow> filter_rule list \<Rightarrow> (filter_rule \<times> bool option) list" where
  "verdicts_from ev title m before [] = []"
| "verdicts_from ev title m before (r # rs) = (r, verdict_after ev title m before r) # verdicts_from ev title m (before @ [r]) rs"

lemma verdicts_from_nth:
  "verdicts_from ev title m before rs = map (\<lambda>i. (rs ! i, verdict_after ev title m (before @ take i rs) (rs ! i))) [0..<length rs]"
proof (induction rs arbitrary: before)
  case (Cons r rs)
  have "[0..<length (r # rs)] = 0 # map Suc [0..<length rs]" by (simp add: upt_conv_Cons map_Suc_upt del: upt_Suc)
  with Cons.IH [of "before @ [r]"] show ?case by simp
qed simp

lemma rules_loop_result:
  assumes "reached ev title m before m'"
  shows "fst (rules_loop ev title rs seq gm m') =
     (case find (\<lambda>(r, v). v = Some True) (verdicts_from ev title m before rs) of
        Some (r, _) \<Rightarrow> (True, priority_of r)
      | None \<Rightarrow> if \<not> gm \<or> Some False \<in> snd ` set (verdicts_from ev title m before rs) then (False, 0)
                else (True, last_priority rs seq))"
  using assms
proof (induction rs arbitrary: seq gm m' before)
  case Nil
  then show ?case by simp
next
  case (Cons r rs)
  let ?vs = "verdicts_from ev title m (before @ [r]) rs"
  show ?case
  proof (cases "pyval_int (fr_pri r)")
    case None
    then have n: "verdict_after ev title m before r = None" "\<not> readable r"
      by (simp_all add: verdict_after_def verdict_def readable_def)
    with Cons.IH [OF reached_skip [OF Cons.prems n(2)]] None show ?thesis
      by (cases "find (\<lambda>(r, v). v = Some True) ?vs") simp_all
  next
    case (Some pri)
    obtain v m1 where v: "rule_match ev title r m' = (v, m1)" by fastforce
    have rd: "readable r" using Some by (simp add: readable_def)
    have vm: "verdict_after ev title m before r = v"
      using reached_verdict [OF Cons.prems, of r] rd v by (simp add: verdict_after_def verdict_def)
    note IH = Cons.IH [OF reached_next [OF Cons.prems rd, unfolded v snd_conv]]
    show ?thesis
    proof (cases v)
      case None
      with Some v vm IH show ?thesis
        by (cases "find (\<lambda>(r, v). v = Some True) ?vs") (simp_all add: readable_def priority_of_def)
    next
      case b: (Some b)
      show ?thesis
      proof (cases b)
        case True
        with Some v vm b show ?thesis by (simp add: priority_of_def)
      next
        case False
        with Some v vm b IH show ?thesis
          by (cases "find (\<lambda>(r, v). v = Some True) ?vs") simp_all
      qed
    qed
  qed
qed

lemma find_map_pair: "find (\<lambda>(r, v). P v) (map (\<lambda>i. (f i, g i)) is) = map_option (\<lambda>i. (f i, g i)) (find (\<lambda>i. P (g i)) is)"
  by (induction "is") simp_all

section \<open>Properties\<close>

text \<open>C8: A rule group decides by its first matching rule: the loop, which rewrites the size of the item as it goes, finds
  the first rule that matches the item and answers its priority; without one, the group rejects when some rule said no, and
  lets the item pass when every rule raised. Each rule is asked about the untouched item, with one exception: a size that
  cannot be read counts for the first rule that tests it and is no size for the rules after it.\<close>

theorem check_rules_first_match:
  "fst (check_rules ev rules m) =
     (let title = add_text (rl_description m) (add_text (rl_subtitle m) (rl_rev_string m));
          verdict_of = (\<lambda>i. verdict ev title (seen_item ev title m (take i rules)) (rules ! i))
      in case find (\<lambda>i. verdict_of i = Some True) [0..<length rules] of
           Some i \<Rightarrow> (True, priority_of (rules ! i))
         | None \<Rightarrow> if Some False \<in> verdict_of ` {0..<length rules} then (False, 0)
                   else (True, last_priority rules 0))"
proof -
  define title where "title = add_text (rl_description m) (add_text (rl_subtitle m) (rl_rev_string m))"
  let ?v = "\<lambda>i. verdict_after ev title m (take i rules) (rules ! i)"
  have vs: "verdicts_from ev title m [] rules = map (\<lambda>i. (rules ! i, ?v i)) [0..<length rules]"
    using verdicts_from_nth [of ev title m "[]" rules] by simp
  have "reached ev title m [] m" by (simp add: reached_def)
  from rules_loop_result [OF this, of rules 0 True] show ?thesis
    unfolding check_rules_def title_def [symmetric] vs find_map_pair [of "\<lambda>v. v = Some True"] Let_def verdict_after_def
    by (cases "find (\<lambda>i. verdict ev title (seen_item ev title m (take i rules)) (rules ! i) = Some True) [0..<length rules]")
      (simp_all add: image_image)
qed

definition demo_release :: release where
  "demo_release = \<lparr>mi_type = MOVIE, mi_title = ''t'', mi_name = [], mi_year = ''2024'', mi_identity_id = None,
     mi_series_key = None, mi_anchor_provider = None, mi_anchor_external_id = None, mi_tmdb_id = PInt 9,
     mi_douban_id = PNone, mi_begin_season = None, mi_end_season = None, mi_begin_episode = None,
     mi_end_episode = None, mi_enclosure = None, mi_page_url = None, mi_rest = 0,
     rl_org_string = ''t'', rl_rev_string = Some ''t 1080p'', rl_subtitle = [], rl_description = [], rl_language = [],
     rl_size = PStr ''2 GB'', rl_total_episodes = 0, rl_upload_factor = None, rl_download_factor = None,
     rl_pix = ''1080p'', rl_resource_type = [], rl_resource_effect = [], rl_team = [], rl_site = []\<rparr>"

definition demo_filter :: filter_env where
  "demo_filter = \<lparr>fe_search = (\<lambda>p t. Some (contains t p)), fe_team_match = (\<lambda>_ _. []), fe_repr = (\<lambda>_. []),
     fe_min_filesize = 150\<rparr>"

definition demo_rule :: "string \<Rightarrow> string \<Rightarrow> int \<Rightarrow> filter_rule" where
  "demo_rule inc sizes pri = \<lparr>fr_include = [inc], fr_exclude = [], fr_size = sizes, fr_free = [], fr_pri = PInt pri,
     fr_language = []\<rparr>"

theorem check_rules_first_match_witness:
  "fst (check_rules demo_filter [demo_rule ''x'' [] 1, demo_rule ''t'' ''1,3'' 2, demo_rule ''t'' [] 3] demo_release) = (True, 98)"
  unfolding check_rules_first_match by code_simp

text \<open>An unreadable size is tested once only: the first rule with a size range rewrites the size to 0, and every later
  rule skips its range because 0 is no size. So a release of unreadable size that a rule rejects passes when
  the same rule is listed twice.\<close>

theorem size_tested_once:
  assumes "truthy (rl_size m)" "num_filesize ev (rl_size m) = 0"
    and "title = add_text (rl_description m) (add_text (rl_subtitle m) (rl_rev_string m))"
    and "rule_texts ev title r m = Some True" "rule_free r m = Some True"
    and "fr_size r \<noteq> []" "\<not> rule_size r m 0" "pyval_int (fr_pri r) = Some pri"
  shows "fst (check_rules ev [r] m) = (False, 0) \<and> fst (check_rules ev [r, r] m) = (True, 100 - pri)"
  unfolding check_rules_def assms(3) [symmetric] using assms by (simp add: rule_match_def Let_def)

theorem size_tested_once_witness:
  "fst (check_rules demo_filter [demo_rule ''t'' ''1,3'' 1] (demo_release\<lparr>rl_size := PStr ''big''\<rparr>)) = (False, 0) \<and>
   fst (check_rules demo_filter [demo_rule ''t'' ''1,3'' 1, demo_rule ''t'' ''1,3'' 1] (demo_release\<lparr>rl_size := PStr ''big''\<rparr>)) =
     (True, 99)"
proof -
  let ?m = "demo_release\<lparr>rl_size := PStr ''big''\<rparr>" and ?r = "demo_rule ''t'' ''1,3'' 1"
  have "truthy (rl_size ?m)" "num_filesize demo_filter (rl_size ?m) = 0" by code_simp+
  moreover have "rule_texts demo_filter (add_text (rl_description ?m) (add_text (rl_subtitle ?m) (rl_rev_string ?m))) ?r ?m = Some True"
    "rule_free ?r ?m = Some True" by code_simp+
  moreover have "fr_size ?r \<noteq> []" "\<not> rule_size ?r ?m 0" "pyval_int (fr_pri ?r) = Some 1" by code_simp+
  ultimately show ?thesis using size_tested_once [OF _ _ refl, of ?m demo_filter ?r 1] by simp
qed

lemma is_numeric_space: "\<not> is_numeric (CHR '' '' # s)"
  by (simp add: is_numeric_def Let_def is_digit_def ord_def)

lemma split_on_two: "c \<notin> set a \<Longrightarrow> c \<notin> set b \<Longrightarrow> split_on c (a @ c # b) = [a, b]"
  by (simp add: split_on_sep split_on_no_sep)

text \<open>A size range with a space after the comma blocks every movie: the upper bound is not numeric before it is
  stripped and reads as 0, so no movie of a known size matches such a rule.\<close>

theorem size_range_with_space_blocks:
  assumes "fr_size r = lo @ '', '' @ hi" "CHR '','' \<notin> set lo" "CHR '','' \<notin> set hi"
    and "mi_type m = MOVIE" "truthy (rl_size m)" "num_filesize ev (rl_size m) \<noteq> 0"
  shows "verdict ev title m r \<noteq> Some True"
proof -
  have eq: "fr_size r = lo @ CHR '','' # (CHR '' '' # hi)" using assms(1) by simp
  have "split_on (CHR '','') (fr_size r) = [lo, CHR '' '' # hi]"
    unfolding eq using assms(2,3) by (intro split_on_two) auto
  then have "snd (size_range (fr_size r)) = 0"
    by (simp add: size_range_def Let_def size_bound_def is_numeric_space eq)
  moreover have "0 < num_filesize ev (rl_size m)" using num_filesize_nonneg [of ev "rl_size m"] assms(6) by simp
  ultimately have "\<not> rule_size r m (num_filesize ev (rl_size m))"
    using assms(4) by (simp add: rule_size_def split_beta)
  moreover have "fr_size r \<noteq> []" using eq by simp
  ultimately show ?thesis
    using assms(5) by (cases "rule_texts ev title r m") (auto simp: verdict_def rule_match_def Let_def)
qed

theorem size_range_with_space_blocks_witness:
  "verdict demo_filter (Some ''t'') demo_release (demo_rule ''t'' ''1, 10'' 1) \<noteq> Some True"
proof (rule size_range_with_space_blocks [where lo = "''1''" and hi = "''10''"])
  show "num_filesize demo_filter (rl_size demo_release) \<noteq> 0" by code_simp
qed (simp_all add: demo_rule_def demo_release_def)

section \<open>The conditions\<close>

lemma first_reject_accepts: "first_reject ts = Some None \<longleftrightarrow> (\<forall>t \<in> set ts. t = Some None)"
  by (induction ts rule: first_reject.induct) auto

lemma reject_if_accepts [simp]: "reject_if k b = Some None \<longleftrightarrow> b = Some False"
  by (cases b) (auto simp: reject_if_def)

lemma negated_False [simp]: "negated b = Some False \<longleftrightarrow> b = Some True"
  by (cases b) (auto simp: negated_def)

lemma check_text_accepts:
  "check_text ev k wanted p text = Some None \<longleftrightarrow> p = [] \<or> search_in ev p text = Some wanted"
  by (cases "search_in ev p text") (auto simp: check_text_def)

lemma torrent_filter_accepts:
  "check_torrent_filter ev args ul dl m = Some (None, m') \<longleftrightarrow>
     (let text = Some (the (add_text (rl_subtitle m) (Some (opt_text (rl_rev_string m))))) in
      check_audio ev text = Some None \<and> check_book ev args m = Some None \<and> check_small ev args m = Some None \<and>
      check_quality ev args m = Some None \<and> check_pix ev args m = Some None \<and>
      check_team ev args m = Some (None, m') \<and> check_promotion ev args ul dl = Some None \<and>
      check_free args dl = Some None \<and>
      (fa_include args = [] \<or> search_in ev (fa_include args) text = Some True) \<and>
      (fa_exclude args = [] \<or> search_in ev (fa_exclude args) text = Some False) \<and>
      (fa_key args = [] \<or> search_in ev (fa_key args) text = Some True))"
  by (auto simp: check_torrent_filter_def Let_def first_reject_accepts check_text_accepts
      split: option.splits prod.splits)

lemma service_filter_accepts:
  "service_torrent_filter ev args ul dl m = Some (None, m') \<longleftrightarrow>
     (let text = add_text (rl_subtitle m) (rl_rev_string m) in
      check_quality ev args m = Some None \<and> check_pix ev args m = Some None \<and>
      check_team ev args m = Some (None, m') \<and> check_promotion ev args ul dl = Some None \<and>
      (fa_include args = [] \<or> search_in ev (fa_include args) text = Some True) \<and>
      (fa_exclude args = [] \<or> search_in ev (fa_exclude args) text = Some False) \<and>
      (fa_key args = [] \<or> search_in ev (fa_key args) text = Some True))"
  by (auto simp: service_torrent_filter_def Let_def first_reject_accepts check_text_accepts
      split: option.splits prod.splits)

text \<open>A release that passes the conditions meets them: it is free when only free releases are wanted, its title
  and subtitle contain what must be included and not what must be excluded, a video of known size is not below the
  minimum, and it carries a team when one is demanded.\<close>

theorem conditions_met:
  assumes "check_torrent_filter ev args ul dl m = Some (None, m')"
    and "text = opt_text (rl_rev_string m) @ (if rl_subtitle m = [] then [] else '' '' @ rl_subtitle m)"
  shows "(truthy (fa_free args) \<longrightarrow> pyval_float dl = Some (Fin 0)) \<and>
     (fa_include args \<noteq> [] \<longrightarrow> fe_search ev (fa_include args) text = Some True) \<and>
     (fa_exclude args \<noteq> [] \<longrightarrow> fe_search ev (fa_exclude args) text = Some False) \<and>
     (fa_key args \<noteq> [] \<longrightarrow> fe_search ev (fa_key args) text = Some True) \<and>
     (wants_video args \<and> truthy (rl_size m) \<and> num_filesize ev (rl_size m) \<noteq> 0 \<longrightarrow>
        fe_min_filesize ev * 1048576 \<le> num_filesize ev (rl_size m)) \<and>
     (fa_team args \<noteq> [] \<longrightarrow> rl_team m' \<noteq> [])"
proof -
  have t: "Some (the (add_text (rl_subtitle m) (Some (opt_text (rl_rev_string m))))) = Some text"
    by (simp add: add_text_def assms(2))
  from assms(1) have acc: "check_small ev args m = Some None" "check_team ev args m = Some (None, m')"
    "check_free args dl = Some None"
    "fa_include args = [] \<or> search_in ev (fa_include args) (Some text) = Some True"
    "fa_exclude args = [] \<or> search_in ev (fa_exclude args) (Some text) = Some False"
    "fa_key args = [] \<or> search_in ev (fa_key args) (Some text) = Some True"
    unfolding torrent_filter_accepts Let_def t by blast+
  have "truthy (fa_free args) \<longrightarrow> pyval_float dl = Some (Fin 0)"
    using acc(3) by (cases "pyval_float dl") (auto simp: check_free_def split: if_splits)
  moreover have "fe_min_filesize ev * 1048576 \<le> num_filesize ev (rl_size m)"
    if "wants_video args" "truthy (rl_size m)" "num_filesize ev (rl_size m) \<noteq> 0"
    using acc(1) that num_filesize_nonneg [of ev "rl_size m"]
    by (cases "fe_min_filesize ev = 0") (auto simp: check_small_def Let_def split: if_splits)
  moreover have "fa_team args \<noteq> [] \<longrightarrow> rl_team m' \<noteq> []"
    using acc(2) by (auto simp: check_team_def Let_def split: if_splits)
  ultimately show ?thesis using acc(4-6) by (auto simp: search_in_def)
qed

definition demo_args :: filter_args where
  "demo_args = \<lparr>fa_type = Some (Inr MOVIE), fa_restype = [], fa_pix = [], fa_team = [], fa_sp_state = [],
     fa_free = PBool True, fa_include = ''1080'', fa_exclude = ''cam'', fa_key = []\<rparr>"

lemma demo_accepted: "check_torrent_filter demo_filter demo_args PNone (PFloat (Fin 0)) demo_release = Some (None, demo_release)"
  by code_simp

theorem conditions_met_witness:
  "check_torrent_filter demo_filter demo_args PNone (PFloat (Fin 0)) demo_release = Some (None, demo_release) \<and>
   fe_search demo_filter ''1080'' ''t 1080p'' = Some True \<and> fe_search demo_filter ''cam'' ''t 1080p'' = Some False"
  using conditions_met [OF demo_accepted refl] demo_accepted by (simp add: demo_args_def demo_release_def opt_text_def)

text \<open>C33: The filter of the indexer is the stricter one: what it accepts, the older filter of the service accepts with
  the same result, when the release has a title.\<close>

theorem indexer_filter_stricter:
  assumes "check_torrent_filter ev args ul dl m = Some (None, m')" and "rl_rev_string m \<noteq> None"
  shows "service_torrent_filter ev args ul dl m = Some (None, m')"
proof -
  have t: "add_text (rl_subtitle m) (rl_rev_string m) =
      Some (the (add_text (rl_subtitle m) (Some (opt_text (rl_rev_string m)))))"
    using assms(2) by (auto simp: add_text_def opt_text_def)
  show ?thesis using assms(1) unfolding torrent_filter_accepts service_filter_accepts Let_def t by blast
qed

theorem indexer_filter_stricter_witness:
  "service_torrent_filter demo_filter demo_args PNone (PFloat (Fin 0)) demo_release = Some (None, demo_release)"
  by (rule indexer_filter_stricter [OF demo_accepted]) (simp add: demo_release_def)

text \<open>A rule group that no longer exists lets everything pass in the filter service: its number is not
  replaced by the default group, and no rules reject nothing.\<close>

theorem deleted_group_passes:
  assumes "pyval_int rulegroup = Some n" "n \<noteq> -1" "truthy rulegroup" "group_by_id ev ft rulegroup = None"
  shows "service_check ev ft rulegroup m = Some ((True, 0), m)"
  using assms by (simp add: service_check_def get_rules_def service_check_rules_def)

theorem deleted_group_passes_witness:
  "service_check demo_filter
     \<lparr>ft_groups = [\<lparr>gr_id = 1, gr_name = ''g'', gr_is_default = ''Y''\<rparr>],
      ft_rules = [\<lparr>rr_id = 1, rr_group = 1, rr_include = Some ''x'', rr_exclude = None, rr_size = [], rr_note = [],
                   rr_priority = PInt 1, rr_language = []\<rparr>]\<rparr> (PStr ''7'') demo_release = Some ((True, 0), demo_release)"
proof (rule deleted_group_passes)
  show "group_by_id demo_filter
     \<lparr>ft_groups = [\<lparr>gr_id = 1, gr_name = ''g'', gr_is_default = ''Y''\<rparr>],
      ft_rules = [\<lparr>rr_id = 1, rr_group = 1, rr_include = Some ''x'', rr_exclude = None, rr_size = [], rr_note = [],
                   rr_priority = PInt 1, rr_language = []\<rparr>]\<rparr> (PStr ''7'') = None" by code_simp
  show "pyval_int (PStr ''7'') = Some 7" by code_simp
qed simp_all

end
