(* ===== verification/SubscribeMatch.thy ===== *)
theory SubscribeMatch
  imports FilterEngine Identity
begin

text \<open>
  Matching releases against subscriptions (\<open>services/subscribe/matcher.py\<close>): the subscriptions that a
  release meets, the first of them as the main one and its siblings, then the promotion of the site, the
  conditions and the rule group. A subscription is a dictionary that the feed keeps for all releases of a round, and a
  match writes its results into it, so the list of subscriptions is part of the state.

  Results: \<open>None\<close> is an exception. Parameters: the site (its rate limit and the attributes of the release),
  the repositories of rule groups, and what \<^verbatim>\<open>FilterEngine\<close> and \<^verbatim>\<open>Identity\<close> take as parameters. The
  empty text stands for an absent one.
\<close>

section \<open>Subscriptions\<close>

record subscription =
  sb_id :: "int option"
  sb_sites :: "string list"
  sb_name :: string
  sb_year :: string
  sb_season :: string
  sb_tmdbid :: pyval
  sb_fuzzy :: bool
  sb_metadata_ref :: string
  sb_anchor_provider :: string
  sb_anchor_external_id :: string
  sb_type :: string
  sb_over_edition :: bool
  sb_restype :: string
  sb_pix :: string
  sb_team :: string
  sb_rule :: pyval
  sb_include :: string
  sb_exclude :: string
  sb_free :: pyval
  sb_res_order :: "int option"
  sb_upload_factor :: pyval
  sb_download_factor :: pyval
  sb_siblings :: "int list"

record group_entity =
  ge_id :: int
  ge_default :: bool

record match_env =
  me_filter :: filter_env
  me_repr :: "pyval \<Rightarrow> string"
  me_unified :: bool
  me_now :: time
  me_group_by_id :: "int \<Rightarrow> group_entity option option"
  me_groups :: "group_entity list option"
  me_rules :: "int \<Rightarrow> rule_entity list"

text \<open>What the site says of the release: not asked, over its limit, a failed request, or free, double
  upload.\<close>

datatype site_attr = NotAsked | OverLimit | RequestFailed | Attr (attr_free: bool) (attr_2xfree: bool)

datatype match_result =
    OutOfRange | SiteLimited | AttrFailed | ByCondition reject | ByRules
  | Matched subscription

section \<open>Does a release meet a subscription?\<close>

definition match_identity :: "release \<Rightarrow> subscription \<Rightarrow> bool" where
  "match_identity m sub =
     (let ref = strip (sb_metadata_ref sub);
          provider = strip (sb_anchor_provider sub); external = strip (sb_anchor_external_id sub);
          target = (if ref \<noteq> [] then ref
                    else if provider \<noteq> [] \<and> external \<noteq> [] then provider @ '':'' @ external
                    else if isdigit (id_text (sb_tmdbid sub)) then ''tmdb:'' @ py_str (\<lambda>_. []) (sb_tmdbid sub)
                    else [])
      in target \<noteq> [] \<and>
         normalize_identity_key (PStr (media_identity_key m)) = normalize_identity_key (PStr target))"

text \<open>With the unified match the decision is that of the target matcher, which reads the identity index.\<close>

definition match_tmdb :: "match_env \<Rightarrow> release \<Rightarrow> subscription \<Rightarrow> ident_index \<Rightarrow> bool \<times> ident_index" where
  "match_tmdb ev m sub ix =
     (if sb_metadata_ref sub \<noteq> [] \<or> sb_anchor_provider sub \<noteq> [] then (match_identity m sub, ix)
      else if \<not> me_unified ev then (py_str (me_repr ev) (mi_tmdb_id m) = py_str (me_repr ev) (sb_tmdbid sub), ix)
      else let ((matched, _), ix') =
                 match_target (me_repr ev) (me_now ev)
                   (Some \<lparr>md_tmdb = mi_tmdb_id m, md_title = mi_title m\<rparr>)
                   (Some \<lparr>md_tmdb = sb_tmdbid sub, md_title = sb_name sub\<rparr>) ix
           in (matched, ix'))"

definition special_chars :: "string list" where
  "special_chars =
     [u8 [227, 128, 129], [CHR 0x2E], u8 [227, 128, 130], [CHR 0x2C],
      u8 [239, 188, 140], u8 [194, 183], [CHR 0x3A], u8 [239, 188, 154],
      [CHR 0x3B], u8 [239, 188, 155], [CHR 0x21], u8 [239, 188, 129],
      [CHR 0x27], u8 [226, 128, 153], [CHR 0x22], u8 [226, 128, 156],
      u8 [226, 128, 157], [CHR 0x28], [CHR 0x29], u8 [239, 188, 136],
      u8 [239, 188, 137], [CHR 0x5B], [CHR 0x5D], u8 [227, 128, 144],
      u8 [227, 128, 145], u8 [227, 128, 140], u8 [227, 128, 141], [CHR 0x2D],
      u8 [226, 128, 148], [CHR 0x2B], [CHR 0x7C], [CHR 0x5C],
      [CHR 0x5F], [CHR 0x2F], [CHR 0x26], [CHR 0x23],
      u8 [239, 189, 158], [CHR 0x7E]]"

definition zero_width_chars :: "string list" where
  "zero_width_chars = [u8 [226, 128, 139], u8 [226, 128, 140], u8 [226, 128, 141], u8 [239, 187, 191]]"

text \<open>Every occurrence of one of the characters \<open>cs\<close> is removed.\<close>

function remove_chars :: "string list \<Rightarrow> string \<Rightarrow> string" where
  "remove_chars cs s =
     (case s of
        [] \<Rightarrow> []
      | c # rest \<Rightarrow>
          (case find (\<lambda>p. p \<noteq> [] \<and> prefix p s) cs of
             Some p \<Rightarrow> remove_chars cs (drop (length p) s)
           | None \<Rightarrow> c # remove_chars cs rest))"
  by pat_completeness auto
termination
  by (relation "measure (\<lambda>(cs, s). length s)") (auto simp: find_Some_iff)

declare remove_chars.simps [simp del]

definition handler_special_chars :: "string \<Rightarrow> string" where
  "handler_special_chars text =
     filter (\<lambda>c. \<not> is_space c) (remove_chars zero_width_chars (remove_chars special_chars text))"

text \<open>The text of an absent title or year in an f-string.\<close>

definition shown :: "string \<Rightarrow> string" where
  "shown s = (if s = [] then ''None'' else s)"

definition fuzzy_name_match :: "string \<Rightarrow> release \<Rightarrow> bool" where
  "fuzzy_name_match name m =
     (if name = [] then True
      else let search_title = opt_text (rl_rev_string m) @ '' '' @ shown (mi_title m) @ '' '' @ shown (mi_year m);
               n = strip (upper (handler_special_chars name));
               t = strip (upper (handler_special_chars search_title))
           in n \<noteq> [] \<and> contains t n)"

definition pad2 :: "int \<Rightarrow> string" where
  "pad2 n = (let s = int_str n in if length s = 1 then ''0'' @ s else s)"

definition get_season_string :: "release \<Rightarrow> string" where
  "get_season_string m =
     (if mi_type m = MOVIE then []
      else case mi_begin_season m of
             None \<Rightarrow> ''S01''
           | Some b \<Rightarrow>
               (case mi_end_season m of
                  None \<Rightarrow> ''S'' @ pad2 b
                | Some e \<Rightarrow> if e = b then ''S'' @ pad2 b else ''S'' @ pad2 b @ ''-S'' @ pad2 e))"

text \<open>A subscription that names its media is met by identity.\<close>

definition by_identity :: "match_env \<Rightarrow> subscription \<Rightarrow> bool" where
  "by_identity ev sub =
     (sb_metadata_ref sub \<noteq> [] \<or> sb_anchor_provider sub \<noteq> [] \<or>
      truthy (sb_tmdbid sub) \<and> \<not> startswith (py_str (me_repr ev) (sb_tmdbid sub)) ''DB:'')"

definition movie_hit ::
  "match_env \<Rightarrow> release \<Rightarrow> subscription \<Rightarrow> ident_index \<Rightarrow> (bool \<times> ident_index) option" where
  "movie_hit ev m sub ix =
     (if sb_sites sub \<noteq> [] \<and> rl_site m \<notin> set (sb_sites sub) then Some (False, ix)
      else if \<not> sb_fuzzy sub then
        (if by_identity ev sub then Some (match_tmdb ev m sub ix)
         else if sb_year sub = [] then Some (sb_name sub = mi_title m, ix)
         else (case py_int (sb_year sub) of
                 None \<Rightarrow> None
               | Some y \<Rightarrow>
                   Some (shown (mi_year m) \<in> {sb_year sub, int_str (y + 1), int_str (y - 1)} \<and>
                         sb_name sub = mi_title m, ix)))
      else Some ((sb_year sub = [] \<or> sb_year sub = shown (mi_year m)) \<and> fuzzy_name_match (sb_name sub) m, ix))"

definition tv_hit ::
  "match_env \<Rightarrow> release \<Rightarrow> subscription \<Rightarrow> ident_index \<Rightarrow> (bool \<times> ident_index) option" where
  "tv_hit ev m sub ix =
     (let season_ok = (sb_season sub = [] \<or> sb_season sub = get_season_string m)
      in if sb_sites sub \<noteq> [] \<and> rl_site m \<notin> set (sb_sites sub) then Some (False, ix)
         else if \<not> sb_fuzzy sub then
           (if by_identity ev sub then
              (let (same, ix') = match_tmdb ev m sub ix in Some (same \<and> season_ok, ix'))
            else Some ((sb_year sub = [] \<or> sb_year sub = shown (mi_year m)) \<and> sb_name sub = mi_title m \<and> season_ok, ix))
         else Some ((season_ok \<or> sb_season sub = ''S00'') \<and>
                    (sb_year sub = [] \<or> sb_year sub = shown (mi_year m)) \<and>
                    fuzzy_name_match (sb_name sub) m, ix))"

text \<open>The positions of the subscriptions that are met, in order.\<close>

fun collect ::
  "(subscription \<Rightarrow> ident_index \<Rightarrow> (bool \<times> ident_index) option) \<Rightarrow> nat \<Rightarrow> subscription list \<Rightarrow> ident_index \<Rightarrow>
   (nat list \<times> ident_index) option" where
  "collect meets n [] ix = Some ([], ix)"
| "collect meets n (sub # subs) ix =
     (case meets sub ix of
        None \<Rightarrow> None
      | Some (b, ix1) \<Rightarrow>
          map_option (apfst (\<lambda>ns. if b then n # ns else ns)) (collect meets (Suc n) subs ix1))"

section \<open>The main subscription and its siblings\<close>

definition filter_signature :: "match_env \<Rightarrow> subscription \<Rightarrow> string list" where
  "filter_signature ev sub =
     [sb_restype sub, sb_pix sub, sb_team sub, py_str (me_repr ev) (py_or (sb_rule sub) (PStr [])),
      sb_include sub, sb_exclude sub, py_str (me_repr ev) (py_or (sb_free sub) (PStr []))]"

definition sibling_ids :: "match_env \<Rightarrow> subscription \<Rightarrow> subscription list \<Rightarrow> int list" where
  "sibling_ids ev main others =
     List.map_filter (\<lambda>c. case sb_id c of
         None \<Rightarrow> None
       | Some i \<Rightarrow> if i \<noteq> 0 \<and> \<not> sb_over_edition c \<and> filter_signature ev c = filter_signature ev main
                  then Some i else None) others"

text \<open>A series takes the type of its subscription, but an anime does not become a plain series; a missing year
  is filled in.\<close>

definition adopt :: "subscription \<Rightarrow> release \<Rightarrow> release" where
  "adopt sub m =
     (if mi_type m = MOVIE then m
      else let t = media_type_from_string (sb_type sub);
               m1 = (if t \<noteq> UNKNOWN \<and> \<not> (mi_type m = ANIME \<and> t = TV) then m\<lparr>mi_type := t\<rparr> else m)
           in if sb_year sub \<noteq> [] \<and> mi_year m1 = [] then m1\<lparr>mi_year := sb_year sub\<rparr> else m1)"

section \<open>Promotion, conditions, rules\<close>

definition site_factors :: "site_attr \<Rightarrow> (pyval \<times> pyval) option" where
  "site_factors attr =
     (case attr of
        Attr free twice \<Rightarrow>
          Some (if twice then (PFloat (Fin 2), PFloat (Fin 0))
                else if free then (PFloat (Fin 1), PFloat (Fin 0))
                else (PFloat (Fin 1), PFloat (Fin 1)))
      | _ \<Rightarrow> None)"

definition set_factors :: "pyval \<Rightarrow> pyval \<Rightarrow> release \<Rightarrow> release" where
  "set_factors ul dl m =
     (case (ul, dl) of
        (PFloat u, PFloat d) \<Rightarrow> m\<lparr>rl_upload_factor := Some u, rl_download_factor := Some d\<rparr>
      | _ \<Rightarrow> m)"

definition conditions_of :: "subscription \<Rightarrow> filter_args" where
  "conditions_of sub =
     \<lparr>fa_type = None, fa_restype = sb_restype sub, fa_pix = sb_pix sub, fa_team = sb_team sub, fa_sp_state = [],
      fa_free = sb_free sub, fa_include = sb_include sub, fa_exclude = sb_exclude sub, fa_key = []\<rparr>"

text \<open>The rule of the subscription, or that of the site.\<close>

definition effective_rule :: "subscription \<Rightarrow> pyval \<Rightarrow> pyval" where
  "effective_rule sub site_rule = (if is_default_filter_rule (sb_rule sub) then site_rule else sb_rule sub)"

text \<open>The group of a rule; a repository that raises means no group.\<close>

definition find_group :: "match_env \<Rightarrow> pyval \<Rightarrow> group_entity option" where
  "find_group ev rule =
     (let text = py_str (me_repr ev) rule; n = int (digits_val (map digit_of text));
          default_of = (case me_groups ev of None \<Rightarrow> None | Some gs \<Rightarrow> find ge_default gs)
      in if truthy rule \<and> isdigit text \<and> n > 0 then
           (case me_group_by_id ev n of
              None \<Rightarrow> None
            | Some (Some g) \<Rightarrow> Some g
            | Some None \<Rightarrow> default_of)
         else default_of)"

text \<open>The decision on a release that meets subscriptions: \<open>Inl\<close> a rejection, \<open>Inr\<close> the priority.\<close>

definition apply_filters ::
  "match_env \<Rightarrow> subscription \<Rightarrow> pyval \<Rightarrow> pyval \<Rightarrow> pyval \<Rightarrow> release \<Rightarrow> ((match_result + int) \<times> release) option" where
  "apply_filters ev sub rule ul dl m =
     (case check_torrent_filter (me_filter ev) (conditions_of sub) ul dl m of
        None \<Rightarrow> None
      | Some (Some r, m1) \<Rightarrow> Some (Inl (ByCondition r), m1)
      | Some (None, m1) \<Rightarrow>
          if is_disabled_filter_rule (me_filter ev) rule then Some (Inr 0, m1)
          else (case find_group ev rule of
                  None \<Rightarrow> Some (Inr 0, m1)
                | Some g \<Rightarrow>
                    let ((ok, order), m2) = check_rules (me_filter ev) (filters_from_rule_entities (me_rules ev (ge_id g))) m1
                    in Some (if ok then Inr order else Inl ByRules, m2)))"

text \<open>The entry of the match written back: into the shared dictionary, unless it was copied for the siblings.\<close>

definition matched_entry :: "subscription \<Rightarrow> int \<Rightarrow> pyval \<Rightarrow> pyval \<Rightarrow> pyval \<Rightarrow> subscription" where
  "matched_entry sub order rule ul dl =
     sub\<lparr>sb_res_order := Some order, sb_rule := rule, sb_upload_factor := ul, sb_download_factor := dl\<rparr>"

record match_state =
  ms_subs :: "subscription list"
  ms_index :: ident_index

text \<open>The test that the kind of the release selects.\<close>

definition meets :: "match_env \<Rightarrow> release \<Rightarrow> subscription \<Rightarrow> ident_index \<Rightarrow> (bool \<times> ident_index) option" where
  "meets ev m = (if mi_type m = MOVIE then movie_hit ev m else tv_hit ev m)"

text \<open>The decision once the main subscription is known: the site's answer, then the filters. \<open>Inl\<close> is a
  rejection.\<close>

definition judge ::
  "match_env \<Rightarrow> pyval \<Rightarrow> site_attr \<Rightarrow> subscription \<Rightarrow> release \<Rightarrow> ((match_result + subscription) \<times> release) option"
  where
  "judge ev site_rule attr info m =
     (if attr = OverLimit then Some (Inl SiteLimited, m)
      else if attr = RequestFailed then Some (Inl AttrFailed, m)
      else
        (case (case site_factors attr of Some f \<Rightarrow> f | None \<Rightarrow> (PNone, PNone)) of
           (ul, dl) \<Rightarrow>
             (case apply_filters ev info (effective_rule info site_rule) ul dl (set_factors ul dl m) of
                None \<Rightarrow> None
              | Some (Inl r, m1) \<Rightarrow> Some (Inl r, m1)
              | Some (Inr order, m1) \<Rightarrow>
                  Some (Inr (matched_entry info order (effective_rule info site_rule) ul dl), m1))))"

text \<open>\<open>match\<close>, for the subscriptions of the release's kind; \<open>attr\<close> is what the site answers when it is asked.\<close>

definition match_release ::
  "match_env \<Rightarrow> pyval \<Rightarrow> site_attr \<Rightarrow> release \<Rightarrow> match_state \<Rightarrow>
   (match_result \<times> release \<times> match_state) option" where
  "match_release ev site_rule attr m st =
     (case collect (meets ev m) 0 (ms_subs st) (ms_index st) of
        None \<Rightarrow> None
      | Some ([], ix) \<Rightarrow> Some (OutOfRange, m, st\<lparr>ms_index := ix\<rparr>)
      | Some (n # ns, ix) \<Rightarrow>
          let main = ms_subs st ! n;
              siblings = sibling_ids ev main (map ((!) (ms_subs st)) ns);
              info = (if siblings = [] then main else main\<lparr>sb_siblings := siblings\<rparr>)
          in (case judge ev site_rule attr info (adopt main m) of
                None \<Rightarrow> None
              | Some (Inl r, m1) \<Rightarrow> Some (r, m1, st\<lparr>ms_index := ix\<rparr>)
              | Some (Inr entry, m1) \<Rightarrow>
                  Some (Matched entry, m1,
                        \<lparr>ms_subs = (if siblings = [] then (ms_subs st)[n := entry] else ms_subs st),
                         ms_index = ix\<rparr>)))"

section \<open>Facts about a match\<close>

lemma collect_sound:
  "collect f n subs ix = Some (ns, ix') \<Longrightarrow> i \<in> set ns \<Longrightarrow>
     n \<le> i \<and> i < n + length subs \<and> (\<exists>jx jx'. f (subs ! (i - n)) jx = Some (True, jx'))"
proof (induction f n subs ix arbitrary: ns ix' rule: collect.induct)
  case (1 f n ix)
  then show ?case by simp
next
  case (2 f n sub subs ix)
  from "2.prems"(1) obtain b ix1 ms where f: "f sub ix = Some (b, ix1)"
    and rest: "collect f (Suc n) subs ix1 = Some (ms, ix')" and ns: "ns = (if b then n # ms else ms)"
    by (auto split: option.splits)
  show ?case
  proof (cases "i \<in> set ms")
    case True
    from "2.IH" [OF f _ rest this] have r: "Suc n \<le> i" "i < Suc n + length subs"
      "\<exists>jx jx'. f (subs ! (i - Suc n)) jx = Some (True, jx')" by auto
    then have "(sub # subs) ! (i - n) = subs ! (i - Suc n)" by (simp add: nth_Cons' Suc_diff_le)
    with r show ?thesis by simp
  next
    case False
    with ns "2.prems"(2) f show ?thesis by (auto split: if_splits)
  qed
qed

text \<open>Everything a successful match went through.\<close>

lemma apply_filters_no_match: "apply_filters ev sub rule ul dl m \<noteq> Some (Inl (Matched e), m')"
  by (auto simp: apply_filters_def split: option.splits prod.splits if_splits)

lemma judge_no_match: "judge ev site_rule attr info m \<noteq> Some (Inl (Matched e), m')"
  using apply_filters_no_match
  by (auto simp: judge_def split: option.splits prod.splits if_splits sum.splits)

lemma judge_accepts:
  assumes "judge ev site_rule attr info m = Some (Inr e, m')"
  obtains ul dl order where
    "attr \<noteq> OverLimit" "attr \<noteq> RequestFailed"
    "(case site_factors attr of Some f \<Rightarrow> f | None \<Rightarrow> (PNone, PNone)) = (ul, dl)"
    "apply_filters ev info (effective_rule info site_rule) ul dl (set_factors ul dl m) = Some (Inr order, m')"
    "e = matched_entry info order (effective_rule info site_rule) ul dl"
proof -
  obtain ul dl where f: "(case site_factors attr of Some f \<Rightarrow> f | None \<Rightarrow> (PNone, PNone)) = (ul, dl)"
    by fastforce
  have ok: "attr \<noteq> OverLimit" "attr \<noteq> RequestFailed" using assms by (auto simp: judge_def)
  from assms show thesis
  proof (cases "apply_filters ev info (effective_rule info site_rule) ul dl (set_factors ul dl m)")
    case (Some a)
    with assms ok that [OF ok f] show thesis by (cases a, cases "fst a") (auto simp: judge_def f)
  qed (use ok in \<open>simp add: judge_def f\<close>)
qed

lemma matched_cases:
  assumes "match_release ev site_rule attr m st = Some (Matched e, m', st')"
  obtains n ns ix main siblings info where
    "collect (meets ev m) 0 (ms_subs st) (ms_index st) = Some (n # ns, ix)" "main = ms_subs st ! n"
    "siblings = sibling_ids ev main (map ((!) (ms_subs st)) ns)"
    "info = (if siblings = [] then main else main\<lparr>sb_siblings := siblings\<rparr>)"
    "judge ev site_rule attr info (adopt main m) = Some (Inr e, m')"
    "st' = \<lparr>ms_subs = (if siblings = [] then (ms_subs st)[n := e] else ms_subs st), ms_index = ix\<rparr>"
proof -
  obtain n ns ix where c: "collect (meets ev m) 0 (ms_subs st) (ms_index st) = Some (n # ns, ix)"
    using assms by (auto simp: match_release_def split: option.splits list.splits)
  define main siblings where "main = ms_subs st ! n" and "siblings = sibling_ids ev main (map ((!) (ms_subs st)) ns)"
  define info where "info = (if siblings = [] then main else main\<lparr>sb_siblings := siblings\<rparr>)"
  have r: "match_release ev site_rule attr m st =
     (case judge ev site_rule attr info (adopt main m) of
                None \<Rightarrow> None
              | Some (Inl r, m1) \<Rightarrow> Some (r, m1, st\<lparr>ms_index := ix\<rparr>)
              | Some (Inr entry, m1) \<Rightarrow>
                  Some (Matched entry, m1,
                        \<lparr>ms_subs = (if siblings = [] then (ms_subs st)[n := entry] else ms_subs st),
                         ms_index = ix\<rparr>))"
    unfolding match_release_def c main_def siblings_def info_def Let_def by simp
  from assms[unfolded r] judge_no_match obtain entry where
    j: "judge ev site_rule attr info (adopt main m) = Some (Inr entry, m')" and "e = entry"
    and "st' = \<lparr>ms_subs = (if siblings = [] then (ms_subs st)[n := entry] else ms_subs st), ms_index = ix\<rparr>"
    by (fastforce split: option.splits prod.splits sum.splits)
  then show thesis using that [OF c main_def siblings_def info_def] by blast
qed

text \<open>The positions come in ascending order.\<close>

lemma collect_sorted: "collect f n subs ix = Some (ns, ix') \<Longrightarrow> sorted_wrt (<) ns"
proof (induction f n subs ix arbitrary: ns ix' rule: collect.induct)
  case (1 f n ix)
  then show ?case by simp
next
  case (2 f n sub subs ix)
  from "2.prems" obtain b ix1 ms where f: "f sub ix = Some (b, ix1)"
    and rest: "collect f (Suc n) subs ix1 = Some (ms, ix')" and ns: "ns = (if b then n # ms else ms)"
    by (auto split: option.splits)
  have "n < i" if "i \<in> set ms" for i using collect_sound [OF rest that] by simp
  with "2.IH" [OF f _ rest] ns show ?case by auto
qed

lemma sibling_idsD:
  "i \<in> set (sibling_ids ev main others) \<Longrightarrow>
     \<exists>c \<in> set others. sb_id c = Some i \<and> \<not> sb_over_edition c \<and> filter_signature ev c = filter_signature ev main"
  by (auto simp: sibling_ids_def List.map_filter_def split: option.splits if_splits)

text \<open>What a match keeps of the main subscription.\<close>

lemma matched_entry_simps [simp]:
  "sb_id (matched_entry s order rule ul dl) = sb_id s" "sb_siblings (matched_entry s order rule ul dl) = sb_siblings s"
  "sb_free (matched_entry s order rule ul dl) = sb_free s" "sb_rule (matched_entry s order rule ul dl) = rule"
  by (simp_all add: matched_entry_def)

lemma judge_keeps:
  assumes "judge ev site_rule attr info m = Some (Inr e, m')"
  shows "sb_id e = sb_id info \<and> sb_siblings e = sb_siblings info \<and> sb_free e = sb_free info \<and>
    sb_rule e = effective_rule info site_rule"
  by (rule judge_accepts [OF assms]) simp

text \<open>The siblings that a match carries, to be counted as fulfilled by its download, are further
  subscriptions of the feed that the release meets, that do not look for a better edition, and whose quality and rule
  requirements are those of the subscription that was matched.\<close>

theorem siblings_same_requirements:
  assumes "match_release ev site_rule attr m st = Some (Matched e, m', st')"
    and "\<forall>s \<in> set (ms_subs st). sb_siblings s = []" and "i \<in> set (sb_siblings e)"
  shows "\<exists>k j. k < j \<and> j < length (ms_subs st) \<and> sb_id e = sb_id (ms_subs st ! k) \<and>
     sb_id (ms_subs st ! j) = Some i \<and> \<not> sb_over_edition (ms_subs st ! j) \<and>
     filter_signature ev (ms_subs st ! j) = filter_signature ev (ms_subs st ! k) \<and>
     (\<exists>jx jx'. meets ev m (ms_subs st ! j) jx = Some (True, jx'))"
proof -
  from assms(1) obtain n ns ix main siblings info
    where c: "collect (meets ev m) 0 (ms_subs st) (ms_index st) = Some (n # ns, ix)" and main: "main = ms_subs st ! n"
      and sib: "siblings = sibling_ids ev main (map ((!) (ms_subs st)) ns)"
      and info: "info = (if siblings = [] then main else main\<lparr>sb_siblings := siblings\<rparr>)"
      and j: "judge ev site_rule attr info (adopt main m) = Some (Inr e, m')"
    by (rule matched_cases)
  note sound = collect_sound [OF c] and sorted = collect_sorted [OF c]
  have "n < length (ms_subs st)" using sound [of n] by simp
  then have "sb_siblings main = []" using assms(2) main by simp
  then have "i \<in> set siblings" using assms(3) judge_keeps [OF j] info by (simp split: if_splits)
  from sibling_idsD [OF this [unfolded sib]] obtain k where k: "k \<in> set ns" "sb_id (ms_subs st ! k) = Some i"
    "\<not> sb_over_edition (ms_subs st ! k)" "filter_signature ev (ms_subs st ! k) = filter_signature ev main" by auto
  moreover have "n < k" using sorted k(1) by auto
  moreover have "k < length (ms_subs st)" "\<exists>jx jx'. meets ev m (ms_subs st ! k) jx = Some (True, jx')"
    using sound [of k] k(1) by auto
  moreover have "sb_id e = sb_id main" using judge_keeps [OF j] info by simp
  ultimately show ?thesis using main by (intro exI [of _ n] exI [of _ k]) simp
qed

definition demo_sub :: "int \<Rightarrow> subscription" where
  "demo_sub i = \<lparr>sb_id = Some i, sb_sites = [], sb_name = ''t'', sb_year = [], sb_season = [], sb_tmdbid = PNone,
     sb_fuzzy = False, sb_metadata_ref = [], sb_anchor_provider = [], sb_anchor_external_id = [], sb_type = [],
     sb_over_edition = False, sb_restype = [], sb_pix = [], sb_team = [], sb_rule = PNone, sb_include = [],
     sb_exclude = [], sb_free = PBool True, sb_res_order = None, sb_upload_factor = PNone,
     sb_download_factor = PNone, sb_siblings = []\<rparr>"

definition demo_match :: match_env where
  "demo_match = \<lparr>me_filter = demo_filter, me_repr = (\<lambda>_. []), me_unified = False, me_now = 0,
     me_group_by_id = (\<lambda>_. Some None), me_groups = Some [], me_rules = (\<lambda>_. [])\<rparr>"

definition demo_feed :: "subscription list \<Rightarrow> match_state" where
  "demo_feed subs = \<lparr>ms_subs = subs, ms_index = new_index 10 10 10\<rparr>"

text \<open>A free release in a feed of two subscriptions of the same requirements.\<close>

lemma demo_two_matched:
  "case match_release demo_match (PStr ''-1'') (Attr True False) demo_release (demo_feed [demo_sub 1, demo_sub 2]) of
     Some (Matched e, _, st') \<Rightarrow> sb_siblings e = [2] \<and> ms_subs st' = [demo_sub 1, demo_sub 2]
   | _ \<Rightarrow> False"
  by code_simp

lemma demo_one_matched:
  "case match_release demo_match (PStr ''-1'') (Attr True False) demo_release (demo_feed [demo_sub 1]) of
     Some (Matched e, _, st') \<Rightarrow> truthy (sb_free e) \<and> sb_rule e = PStr ''-1''
   | _ \<Rightarrow> False"
  by code_simp

lemma matched_of:
  assumes "case x of Some (Matched e, m', st') \<Rightarrow> P e m' st' | _ \<Rightarrow> False"
  obtains e m' st' where "x = Some (Matched e, m', st')" "P e m' st'"
  using assms by (auto split: option.splits prod.splits match_result.splits)

theorem siblings_same_requirements_witness:
  "\<exists>k j. k < j \<and> j < length [demo_sub 1, demo_sub 2] \<and> sb_id ([demo_sub 1, demo_sub 2] ! j) = Some 2 \<and>
     filter_signature demo_match ([demo_sub 1, demo_sub 2] ! j) =
       filter_signature demo_match ([demo_sub 1, demo_sub 2] ! k)"
proof -
  obtain e m' st' where
    "match_release demo_match (PStr ''-1'') (Attr True False) demo_release (demo_feed [demo_sub 1, demo_sub 2]) =
       Some (Matched e, m', st')" "sb_siblings e = [2] \<and> ms_subs st' = [demo_sub 1, demo_sub 2]"
    by (rule matched_of [OF demo_two_matched])
  from siblings_same_requirements [OF this(1), of 2] this(2) show ?thesis
    by (simp add: demo_feed_def demo_sub_def) blast
qed

text \<open>A subscription that wants free releases only is matched by a release only after the site was asked and
  said that the release is free.\<close>

theorem free_only_from_free_site:
  assumes "match_release ev site_rule attr m st = Some (Matched e, m', st')" and "truthy (sb_free e)"
  shows "attr_free attr \<or> attr_2xfree attr"
proof -
  from assms(1) obtain info m0 where j: "judge ev site_rule attr info m0 = Some (Inr e, m')"
    by (rule matched_cases)
  from j obtain ul dl order
    where f: "(case site_factors attr of Some f \<Rightarrow> f | None \<Rightarrow> (PNone, PNone)) = (ul, dl)"
      and a: "apply_filters ev info (effective_rule info site_rule) ul dl (set_factors ul dl m0) = Some (Inr order, m')"
    by (rule judge_accepts)
  from a obtain m1 where "check_torrent_filter (me_filter ev) (conditions_of info) ul dl (set_factors ul dl m0) = Some (None, m1)"
    by (auto simp: apply_filters_def split: option.splits prod.splits)
  then have "check_free (conditions_of info) dl = Some None" by (simp add: torrent_filter_accepts Let_def)
  moreover have "truthy (fa_free (conditions_of info))" using assms(2) judge_keeps [OF j] by (simp add: conditions_of_def)
  ultimately have "pyval_float dl = Some (Fin 0)"
    by (cases "pyval_float dl") (auto simp: check_free_def split: if_splits)
  with f show ?thesis by (cases attr) (auto simp: site_factors_def split: if_splits)
qed

theorem free_only_from_free_site_witness: "attr_free (Attr True False) \<or> attr_2xfree (Attr True False)"
proof -
  obtain e m' st' where
    m: "match_release demo_match (PStr ''-1'') (Attr True False) demo_release (demo_feed [demo_sub 1]) =
       Some (Matched e, m', st')" "truthy (sb_free e)"
    by (rule matched_of [OF demo_one_matched]) simp
  show ?thesis by (rule free_only_from_free_site [OF m])
qed

lemma is_default_filter_rule_stays:
  "\<not> is_default_filter_rule r \<Longrightarrow> \<not> is_default_filter_rule (effective_rule sub r)"
  by (simp add: effective_rule_def)

lemma sibling_ids_Nil: "sibling_ids ev main [] = []"
  by (simp add: sibling_ids_def List.map_filter_def)

lemma collect_single: "collect f n [s] ix = map_option (\<lambda>(b, jx). (if b then [n] else [], jx)) (f s ix)"
  by (auto split: option.splits)

text \<open>The rule of the site on which a subscription was first matched is written into the subscription of the
  feed, so for the rest of the round it replaces the rules of all other sites.\<close>

theorem rule_sticks:
  assumes "match_release ev rule1 attr1 m1 st = Some (Matched e, m1', st')" and "ms_subs st = [sub]"
    and "\<not> is_default_filter_rule rule1"
  shows "match_release ev rule2 attr2 m2 st' = match_release ev rule3 attr2 m2 st'"
proof -
  from assms(1) obtain n ns ix' main siblings info
    where c: "collect (meets ev m1) 0 [sub] (ms_index st) = Some (n # ns, ix')"
      and sib: "siblings = sibling_ids ev main (map ((!) [sub]) ns)"
      and j: "judge ev rule1 attr1 info (adopt main m1) = Some (Inr e, m1')"
      and st: "st' = \<lparr>ms_subs = (if siblings = [] then [sub][n := e] else [sub]), ms_index = ix'\<rparr>"
    by (rule matched_cases) (simp add: assms(2))
  have n: "n = 0" using collect_sound [OF c, of n] by simp
  have ns: "ns = []"
  proof (rule ccontr)
    assume "ns \<noteq> []"
    then obtain k where "k \<in> set ns" by (cases ns) auto
    with collect_sorted [OF c] collect_sound [OF c, of k] n show False by auto
  qed
  have st': "ms_subs st' = [e]" using st sib n ns by (simp add: sibling_ids_Nil)
  have "\<not> is_default_filter_rule (sb_rule e)"
    using judge_keeps [OF j] is_default_filter_rule_stays [OF assms(3)] by simp
  then have rule: "effective_rule e r = sb_rule e" for r by (simp add: effective_rule_def)
  have judge: "judge ev rule2 attr2 e x = judge ev rule3 attr2 e x" for x
    unfolding judge_def rule ..
  show ?thesis
  proof (cases "meets ev m2 e (ms_index st')")
    case None
    then show ?thesis by (simp add: match_release_def st' collect_single)
  next
    case (Some a)
    then show ?thesis
      by (cases a) (simp add: match_release_def st' collect_single sibling_ids_Nil judge Let_def)
  qed
qed

theorem rule_sticks_witness:
  "\<exists>e m' st'. match_release demo_match (PStr ''-1'') (Attr True False) demo_release (demo_feed [demo_sub 1]) =
     Some (Matched e, m', st') \<and>
   match_release demo_match (PStr ''7'') (Attr True False) demo_release st' =
   match_release demo_match (PStr ''8'') (Attr True False) demo_release st'"
proof -
  obtain e m' st' where
    m: "match_release demo_match (PStr ''-1'') (Attr True False) demo_release (demo_feed [demo_sub 1]) =
       Some (Matched e, m', st')"
    by (rule matched_of [OF demo_one_matched])
  have "\<not> is_default_filter_rule (PStr ''-1'')" by code_simp
  from rule_sticks [OF m _ this, of "demo_sub 1" "PStr ''7''" "Attr True False" demo_release "PStr ''8''"] m
  show ?thesis by (auto simp: demo_feed_def)
qed

end
