(* ===== verification/LibraryStore.thy ===== *)
theory LibraryStore
  imports Paths "HOL-Library.Multiset"
begin

text \<open>
  Storage backends (\<open>storage/backends/base.py\<close>, \<open>local.py\<close>): the operations that the library
  services call, the laws they rely on (locale \<open>library_storage\<close>), and \<open>LocalStorageBackend\<close> over a model of a
  POSIX file system, which is their interpretation.

  An operation takes the backend's id and a path, and answers with the new world; \<open>None\<close> is an
  exception. The disk keeps the nodes of every backend under their components; the working
  directory is the root, symbolic links are left out, and \<open>faults\<close> says which calls fail for reasons outside the model
  (the network, permissions), then without an effect.
\<close>

section \<open>The interface\<close>

record file_info =
  fi_path :: string
  fi_size :: int
  fi_mtime :: rat
  fi_dir :: bool

record 'w library_ops =
  lb_known :: "string \<Rightarrow> bool"
  lb_exists :: "string \<Rightarrow> string \<Rightarrow> 'w \<Rightarrow> bool option \<times> 'w"
  lb_stat :: "string \<Rightarrow> string \<Rightarrow> 'w \<Rightarrow> file_info option option \<times> 'w"
  lb_list :: "string \<Rightarrow> string \<Rightarrow> 'w \<Rightarrow> file_info list option \<times> 'w"
  lb_mkdir :: "string \<Rightarrow> string \<Rightarrow> 'w \<Rightarrow> unit option \<times> 'w"
  lb_move :: "string \<Rightarrow> string \<Rightarrow> string \<Rightarrow> 'w \<Rightarrow> unit option \<times> 'w"
  lb_remove :: "string \<Rightarrow> string \<Rightarrow> 'w \<Rightarrow> unit option \<times> 'w"

text \<open>The contents that a world of files holds, however they are named.\<close>

definition contents :: "('l \<Rightarrow> 'c option) \<Rightarrow> 'c multiset" where
  "contents f = image_mset (\<lambda>l. the (f l)) (mset_set (dom f))"

lemma contents_move:
  assumes "finite (dom f)" and "f src = Some c" and "f dst = None"
  shows "contents (f(src := None, dst \<mapsto> c)) = contents f"
proof -
  let ?g = "f(src := None, dst \<mapsto> c)" and ?D = "dom f - {src}"
  have ne: "src \<noteq> dst" using assms by auto
  have d: "dom f = insert src ?D" "dom ?g = insert dst ?D" using assms ne by auto
  have same: "image_mset (\<lambda>l. the (?g l)) (mset_set ?D) = image_mset (\<lambda>l. the (f l)) (mset_set ?D)"
    using assms by (intro image_mset_cong) auto
  have fin: "finite ?D" "dst \<notin> ?D" "src \<notin> ?D" using assms by auto
  have "contents ?g = image_mset (\<lambda>l. the (?g l)) (mset_set (insert dst ?D))"
    unfolding contents_def d(2) ..
  also have "\<dots> = add_mset c (image_mset (\<lambda>l. the (f l)) (mset_set ?D))"
    using fin by (simp add: same del: fun_upd_apply) simp
  also have "\<dots> = image_mset (\<lambda>l. the (f l)) (mset_set (insert src ?D))"
    unfolding mset_set.insert [OF fin(1) fin(3)] by (simp add: assms)
  also have "\<dots> = contents f" unfolding contents_def using d(1) by simp
  finally show ?thesis .
qed

text \<open>What the services rely on: only a move changes files, and it loses none unless there is a file at its
  target. \<open>loc\<close> is the place a path denotes, \<open>files\<close> the regular files, \<open>present\<close> the places that exist, \<open>good\<close> the
  well-formed worlds.\<close>

locale library_storage =
  fixes ops :: "'w library_ops"
    and loc :: "string \<Rightarrow> string \<Rightarrow> 'l"
    and files :: "'w \<Rightarrow> 'l \<Rightarrow> 'c option"
    and present :: "'w \<Rightarrow> 'l \<Rightarrow> bool"
    and good :: "'w \<Rightarrow> bool"
  assumes file_present: "good w \<Longrightarrow> files w l \<noteq> None \<Longrightarrow> present w l"
    and exists_law: "good w \<Longrightarrow> lb_exists ops b p w = (r, w') \<Longrightarrow>
      good w' \<and> files w' = files w \<and> present w' = present w \<and> (\<forall>x. r = Some x \<longrightarrow> x = present w (loc b p))"
    and stat_law: "good w \<Longrightarrow> lb_stat ops b p w = (i, w') \<Longrightarrow>
      good w' \<and> files w' = files w \<and> present w' = present w \<and> (\<forall>x. i = Some x \<longrightarrow> (x \<noteq> None) = present w (loc b p))"
    and list_law: "good w \<Longrightarrow> lb_list ops b p w = (es, w') \<Longrightarrow>
      good w' \<and> files w' = files w \<and> present w' = present w"
    and mkdir_law: "good w \<Longrightarrow> lb_mkdir ops b p w = (u, w') \<Longrightarrow> good w' \<and> files w' = files w"
    and move_law: "good w \<Longrightarrow> lb_move ops b s d w = (v, w') \<Longrightarrow> files w (loc b d) = None \<Longrightarrow>
      good w' \<and> contents (files w') = contents (files w)"
    and remove_law: "good w \<Longrightarrow> lb_list ops b p w = (Some [], w1) \<Longrightarrow> lb_remove ops b p w1 = (u, w') \<Longrightarrow>
      good w' \<and> files w' = files w"
begin

text \<open>Two worlds with the same contents, the later one well-formed.\<close>

definition keeps :: "'w \<Rightarrow> 'w \<Rightarrow> bool" where
  "keeps w w' \<longleftrightarrow> good w' \<and> contents (files w') = contents (files w)"

lemma keeps_refl [simp]: "good w \<Longrightarrow> keeps w w"
  by (simp add: keeps_def)

lemma keeps_trans [trans]: "keeps w w' \<Longrightarrow> keeps w' w'' \<Longrightarrow> keeps w w''"
  by (simp add: keeps_def)

lemma keeps_good: "keeps w w' \<Longrightarrow> good w'"
  by (simp add: keeps_def)

lemma exists_keeps: "good w \<Longrightarrow> lb_exists ops b p w = (r, w') \<Longrightarrow> keeps w w'"
  using exists_law by (simp add: keeps_def)

lemma stat_keeps: "good w \<Longrightarrow> lb_stat ops b p w = (r, w') \<Longrightarrow> keeps w w'"
  using stat_law by (simp add: keeps_def)

lemma list_keeps: "good w \<Longrightarrow> lb_list ops b p w = (r, w') \<Longrightarrow> keeps w w'"
  using list_law by (simp add: keeps_def)

lemma mkdir_keeps: "good w \<Longrightarrow> lb_mkdir ops b p w = (r, w') \<Longrightarrow> keeps w w'"
  using mkdir_law by (simp add: keeps_def)

lemma remove_keeps: "good w \<Longrightarrow> lb_list ops b p w = (Some [], w1) \<Longrightarrow> lb_remove ops b p w1 = (r, w') \<Longrightarrow> keeps w w'"
  using remove_law by (simp add: keeps_def)

text \<open>The pattern of the services: a target is seen to be free, its directory is made, the file moves.\<close>

lemma checked_move_keeps:
  assumes "good w" and ex: "lb_exists ops b p w = (Some False, w1)"
    and mk: "lb_mkdir ops b q w1 = (u, w2)" and mv: "lb_move ops b s p w2 = (r, w')"
  shows "keeps w w'"
proof -
  have e: "good w1" "files w1 = files w" "\<not> present w (loc b p)" using exists_law [OF assms(1) ex] by auto
  then have "files w (loc b p) = None" using file_present [OF assms(1)] by blast
  moreover have m: "good w2" "files w2 = files w1" using mkdir_law [OF e(1) mk] by auto
  ultimately show ?thesis using move_law [OF m(1) mv] e(2) by (simp add: keeps_def)
qed

end

section \<open>The local backend\<close>

datatype node = Directory | Regular (nd_data: string) (nd_size: int) (nd_mtime: rat)

type_synonym place = "string \<times> string list"

record disk =
  dk_nodes :: "(place, node) dict"
  dk_calls :: nat

text \<open>\<open>_resolve\<close>: the absolute path, here as its components.\<close>

definition resolve_place :: "string \<Rightarrow> string \<Rightarrow> place" where
  "resolve_place b p = (b, norm_comps True p)"

definition node_at :: "disk \<Rightarrow> place \<Rightarrow> node option" where
  "node_at d l = (if snd l = [] then Some Directory else dget (dk_nodes d) l)"

definition disk_call :: "(nat \<Rightarrow> bool) \<Rightarrow> (disk \<Rightarrow> 'a option \<times> disk) \<Rightarrow> disk \<Rightarrow> 'a option \<times> disk" where
  "disk_call faults f d =
     (let d' = d\<lparr>dk_calls := Suc (dk_calls d)\<rparr> in if faults (dk_calls d) then (None, d') else f d')"

definition local_exists :: "string \<Rightarrow> string \<Rightarrow> disk \<Rightarrow> bool option \<times> disk" where
  "local_exists b p d = (Some (node_at d (resolve_place b p) \<noteq> None), d)"

definition info_of :: "string \<Rightarrow> node \<Rightarrow> file_info" where
  "info_of p nd =
     (case nd of
        Directory \<Rightarrow> \<lparr>fi_path = p, fi_size = 0, fi_mtime = 0, fi_dir = True\<rparr>
      | Regular _ n t \<Rightarrow> \<lparr>fi_path = p, fi_size = n, fi_mtime = t, fi_dir = False\<rparr>)"

definition local_stat :: "string \<Rightarrow> string \<Rightarrow> disk \<Rightarrow> file_info option option \<times> disk" where
  "local_stat b p d = (Some (map_option (info_of p) (node_at d (resolve_place b p))), d)"

text \<open>The entries of a directory, under their absolute paths.\<close>

definition child_of :: "place \<Rightarrow> place \<Rightarrow> bool" where
  "child_of l k \<longleftrightarrow> fst k = fst l \<and> snd k \<noteq> [] \<and> butlast (snd k) = snd l"

definition local_list :: "string \<Rightarrow> string \<Rightarrow> disk \<Rightarrow> file_info list option \<times> disk" where
  "local_list b p d =
     (if node_at d (resolve_place b p) = Some Directory then
        (Some (map (\<lambda>(k, nd). info_of (''/'' @ join ''/'' (snd k)) nd)
           (filter (\<lambda>e. child_of (resolve_place b p) (fst e)) (dk_nodes d))), d)
      else (None, d))"

text \<open>\<open>os.makedirs(exist_ok=True)\<close>: the place and those above it, from the top.\<close>

definition dirs_to :: "place \<Rightarrow> place list" where
  "dirs_to l = map (\<lambda>n. (fst l, take n (snd l))) [1..<Suc (length (snd l))]"

definition make_dirs :: "place \<Rightarrow> disk \<Rightarrow> disk option" where
  "make_dirs l d =
     (if \<exists>u \<in> set (dirs_to l). node_at d u \<noteq> None \<and> node_at d u \<noteq> Some Directory then None
      else Some (d\<lparr>dk_nodes := dk_nodes d @ map (\<lambda>u. (u, Directory)) (filter (\<lambda>u. node_at d u = None) (dirs_to l))\<rparr>))"

definition local_mkdir :: "string \<Rightarrow> string \<Rightarrow> disk \<Rightarrow> unit option \<times> disk" where
  "local_mkdir b p d = (case make_dirs (resolve_place b p) d of None \<Rightarrow> (None, d) | Some d' \<Rightarrow> (Some (), d'))"

text \<open>\<open>os.rename\<close>: everything at or below the source moves.\<close>

definition moved_place :: "place \<Rightarrow> place \<Rightarrow> place \<Rightarrow> place" where
  "moved_place s t k = (if fst k = fst s \<and> prefix (snd s) (snd k) then (fst t, snd t @ drop (length (snd s)) (snd k)) else k)"

text \<open>\<open>shutil.move\<close>: into the target when that is a directory; a file takes the place of a file.\<close>

definition shutil_move :: "place \<Rightarrow> place \<Rightarrow> disk \<Rightarrow> disk option" where
  "shutil_move s t d =
     (if snd s = [] then None
      else let into = (node_at d t = Some Directory); real = (if into then (fst t, snd t @ [last (snd s)]) else t)
        in if into \<and> s = t then Some d
           else if into \<and> node_at d real \<noteq> None then None
           else case node_at d s of
                  None \<Rightarrow> None
                | Some Directory \<Rightarrow>
                    if (fst real = fst s \<and> prefix (snd s) (snd real)) \<or> node_at d real \<noteq> None then None
                    else Some (d\<lparr>dk_nodes := map (apfst (moved_place s real)) (dk_nodes d)\<rparr>)
                | Some nd \<Rightarrow>
                    if s = real then Some d
                    else Some (d\<lparr>dk_nodes := dput real nd (dpop s (dk_nodes d))\<rparr>))"

definition local_move :: "string \<Rightarrow> string \<Rightarrow> string \<Rightarrow> disk \<Rightarrow> unit option \<times> disk" where
  "local_move b src dst d =
     (let s = resolve_place b src; t = resolve_place b dst
      in case make_dirs (b, butlast (snd t)) d of
           None \<Rightarrow> (None, d)
         | Some d1 \<Rightarrow> (case shutil_move s t d1 of None \<Rightarrow> (None, d1) | Some d2 \<Rightarrow> (Some (), d2)))"

definition local_remove :: "string \<Rightarrow> string \<Rightarrow> disk \<Rightarrow> unit option \<times> disk" where
  "local_remove b p d =
     (let l = resolve_place b p
      in if snd l = [] \<or> node_at d l = None \<or>
            (node_at d l = Some Directory \<and> (\<exists>e \<in> set (dk_nodes d). child_of l (fst e))) then (None, d)
         else (Some (), d\<lparr>dk_nodes := dpop l (dk_nodes d)\<rparr>))"

definition local_ops :: "(nat \<Rightarrow> bool) \<Rightarrow> (string \<Rightarrow> bool) \<Rightarrow> disk library_ops" where
  "local_ops faults known =
     \<lparr>lb_known = known,
      lb_exists = (\<lambda>b p. disk_call faults (local_exists b p)), lb_stat = (\<lambda>b p. disk_call faults (local_stat b p)),
      lb_list = (\<lambda>b p. disk_call faults (local_list b p)), lb_mkdir = (\<lambda>b p. disk_call faults (local_mkdir b p)),
      lb_move = (\<lambda>b s t. disk_call faults (local_move b s t)), lb_remove = (\<lambda>b p. disk_call faults (local_remove b p))\<rparr>"

text \<open>A disk is a tree: no place twice, every place below a directory.\<close>

definition disk_inv :: "disk \<Rightarrow> bool" where
  "disk_inv d \<longleftrightarrow>
     distinct (map fst (dk_nodes d)) \<and>
     (\<forall>k \<in> fst ` set (dk_nodes d). snd k \<noteq> [] \<and> (\<forall>n \<in> set (snd k). plain n) \<and>
        node_at d (fst k, butlast (snd k)) = Some Directory)"

definition disk_files :: "disk \<Rightarrow> place \<Rightarrow> node option" where
  "disk_files d l = (case node_at d l of Some (Regular a n t) \<Rightarrow> Some (Regular a n t) | _ \<Rightarrow> None)"

definition disk_present :: "disk \<Rightarrow> place \<Rightarrow> bool" where
  "disk_present d l \<longleftrightarrow> node_at d l \<noteq> None"

subsection \<open>Well-formed disks\<close>

lemma resolve_plain: "n \<in> set (snd (resolve_place b p)) \<Longrightarrow> plain n"
  using norm_comps_shape [of True p] by (auto simp: resolve_place_def)

lemma node_at_root [simp]: "node_at d (b, []) = Some Directory"
  by (simp add: node_at_def)

lemma node_at_calls [simp]: "node_at (d\<lparr>dk_calls := n\<rparr>) l = node_at d l"
  by (simp add: node_at_def)

lemma disk_inv_calls [simp]: "disk_inv (d\<lparr>dk_calls := n\<rparr>) = disk_inv d"
  by (simp add: disk_inv_def)

lemma disk_files_calls [simp]: "disk_files (d\<lparr>dk_calls := n\<rparr>) = disk_files d"
  by (simp add: disk_files_def fun_eq_iff)

lemma disk_present_calls [simp]: "disk_present (d\<lparr>dk_calls := n\<rparr>) = disk_present d"
  by (simp add: disk_present_def fun_eq_iff)

lemma disk_inv_node:
  assumes "disk_inv d" and "node_at d k \<noteq> None" and "snd k \<noteq> []"
  shows "node_at d (fst k, butlast (snd k)) = Some Directory" "\<forall>n \<in> set (snd k). plain n"
    "k \<in> fst ` set (dk_nodes d)"
proof -
  show k: "k \<in> fst ` set (dk_nodes d)"
    using assms(2,3) by (auto simp: node_at_def dest: map_of_SomeD split: if_splits intro: rev_image_eqI)
  show "node_at d (fst k, butlast (snd k)) = Some Directory" "\<forall>n \<in> set (snd k). plain n"
    using assms(1) k by (auto simp: disk_inv_def)
qed

text \<open>Every place above a node is a directory.\<close>

lemma disk_inv_above:
  assumes "disk_inv d" and "node_at d (b, cs @ ds) \<noteq> None" and "ds \<noteq> []"
  shows "node_at d (b, cs) = Some Directory"
  using assms(2,3)
proof (induction ds rule: rev_induct)
  case (snoc x ds)
  have "node_at d (b, cs @ ds) = Some Directory"
    using disk_inv_node(1) [OF assms(1) snoc.prems(1)] by (simp add: butlast_append)
  then show ?case using snoc.IH by (cases "ds = []") auto
qed simp

lemma map_of_filter_value:
  assumes "distinct (map fst es)"
  shows "map_of (filter Q es) l =
     (case map_of es l of Some nd \<Rightarrow> (if Q (l, nd) then Some nd else None) | None \<Rightarrow> None)"
  using assms by (induction es) (auto split: option.splits dest: map_of_SomeD intro: rev_image_eqI)

lemma contents_map_of: "distinct (map fst xs) \<Longrightarrow> contents (map_of xs) = mset (map snd xs)"
proof (induction xs)
  case (Cons e xs)
  obtain k v where e: "e = (k, v)" by force
  with Cons.prems have k: "k \<notin> dom (map_of xs)" by (simp add: dom_map_of_conv_image_fst)
  have "image_mset (\<lambda>l. the (map_of (e # xs) l)) (mset_set (dom (map_of xs))) =
      image_mset (\<lambda>l. the (map_of xs l)) (mset_set (dom (map_of xs)))"
    using k e by (intro image_mset_cong) (auto simp: finite_dom_map_of)
  moreover have "dom (map_of (e # xs)) = insert k (dom (map_of xs))" by (simp add: e)
  ultimately have "contents (map_of (e # xs)) = add_mset v (contents (map_of xs))"
    unfolding contents_def using k by (simp add: finite_dom_map_of e del: fun_upd_apply map_of.simps) (simp add: e)
  then show ?case using Cons by (simp add: e del: fun_upd_apply)
qed (simp add: contents_def)

definition regular_nodes :: "disk \<Rightarrow> node list" where
  "regular_nodes d = filter (\<lambda>n. n \<noteq> Directory) (map snd (dk_nodes d))"

lemma contents_nodes:
  assumes "disk_inv d"
  shows "contents (disk_files d) = mset (regular_nodes d)"
proof -
  let ?xs = "filter (\<lambda>e. snd e \<noteq> Directory) (dk_nodes d)"
  have dist: "distinct (map fst (dk_nodes d))" and ne: "\<forall>k \<in> fst ` set (dk_nodes d). snd k \<noteq> []"
    using assms by (auto simp: disk_inv_def)
  have "disk_files d = map_of ?xs"
  proof
    fix l
    have "snd l = [] \<Longrightarrow> map_of (dk_nodes d) l = None" using ne by (auto simp: map_of_eq_None_iff)
    then show "disk_files d l = map_of ?xs l"
      using map_of_filter_value [OF dist, of "\<lambda>e. snd e \<noteq> Directory" l]
      by (auto simp: disk_files_def node_at_def split: option.splits node.splits)
  qed
  moreover have "distinct (map fst ?xs)" using dist by (rule distinct_map_filter)
  ultimately have "contents (disk_files d) = mset (map snd ?xs)" by (simp add: contents_map_of)
  also have "map snd ?xs = regular_nodes d" by (simp add: regular_nodes_def filter_map comp_def)
  finally show ?thesis .
qed

subsection \<open>Making directories\<close>

lemma map_of_same: "map_of (map (\<lambda>u. (u, v)) us) k = (if k \<in> set us then Some v else None)"
  by (induction us) auto

lemma dirs_to_set: "k \<in> set (dirs_to (b, cs)) \<longleftrightarrow> fst k = b \<and> snd k \<noteq> [] \<and> prefix (snd k) cs"
proof
  assume "k \<in> set (dirs_to (b, cs))"
  then obtain n where "1 \<le> n" "n \<le> length cs" "k = (b, take n cs)" by (auto simp: dirs_to_def)
  then show "fst k = b \<and> snd k \<noteq> [] \<and> prefix (snd k) cs" by (cases cs) (auto simp: take_is_prefix)
next
  assume k: "fst k = b \<and> snd k \<noteq> [] \<and> prefix (snd k) cs"
  then obtain zs where "cs = snd k @ zs" by (auto simp: prefix_def)
  then have "snd k = take (length (snd k)) cs" "length (snd k) \<le> length cs" by auto
  moreover have "1 \<le> length (snd k)" using k by (cases "snd k") auto
  ultimately have "k = (\<lambda>n. (b, take n cs)) (length (snd k))" "length (snd k) \<in> set [1..<Suc (length cs)]"
    using k by (auto simp: prod_eq_iff)
  then show "k \<in> set (dirs_to (b, cs))" unfolding dirs_to_def fst_conv snd_conv set_map by blast
qed

lemma distinct_dirs_to: "distinct (dirs_to l)"
proof -
  have "inj_on (\<lambda>n. (fst l, take n (snd l))) {1..<Suc (length (snd l))}"
  proof (rule inj_onI)
    fix m n assume "m \<in> {1..<Suc (length (snd l))}" "n \<in> {1..<Suc (length (snd l))}"
      "(fst l, take m (snd l)) = (fst l, take n (snd l))"
    then have "length (take m (snd l)) = length (take n (snd l))" "m \<le> length (snd l)" "n \<le> length (snd l)" by auto
    then show "m = n" by simp
  qed
  then show ?thesis by (simp add: dirs_to_def distinct_map del: upt_Suc)
qed

lemma make_dirs_cases:
  assumes "make_dirs l d = Some d'"
  shows "dk_nodes d' = dk_nodes d @ map (\<lambda>u. (u, Directory)) (filter (\<lambda>u. node_at d u = None) (dirs_to l))"
    and "\<forall>u \<in> set (dirs_to l). node_at d u = None \<or> node_at d u = Some Directory"
  using assms by (auto simp: make_dirs_def split: if_splits)

lemma make_dirs_node:
  assumes "make_dirs (b, cs) d = Some d'"
  shows "node_at d' k = (if node_at d k \<noteq> None then node_at d k
     else if fst k = b \<and> prefix (snd k) cs then Some Directory else None)"
proof (cases "snd k = []")
  case False
  have "map_of (map (\<lambda>u. (u, Directory)) (filter (\<lambda>u. node_at d u = None) (dirs_to (b, cs)))) k =
      (if fst k = b \<and> prefix (snd k) cs \<and> node_at d k = None then Some Directory else None)"
    unfolding map_of_same using dirs_to_set [of k b cs] False by simp
  with False show ?thesis
    unfolding node_at_def make_dirs_cases(1) [OF assms] by (simp add: map_add_def split: option.splits)
qed (simp add: node_at_def)

lemma make_dirs_directory:
  assumes "make_dirs (b, cs) d = Some d'" and "prefix c cs"
  shows "node_at d' (b, c) = Some Directory"
proof (cases "c = []")
  case False
  with assms(2) have "(b, c) \<in> set (dirs_to (b, cs))" by (simp add: dirs_to_set)
  then have "node_at d (b, c) = None \<or> node_at d (b, c) = Some Directory" using make_dirs_cases(2) [OF assms(1)] by blast
  then show ?thesis using make_dirs_node [OF assms(1), of "(b, c)"] assms(2) by auto
qed simp

lemma make_dirs_files: "make_dirs l d = Some d' \<Longrightarrow> disk_files d' = disk_files d"
proof
  fix k assume m: "make_dirs l d = Some d'"
  then have "make_dirs (fst l, snd l) d = Some d'" by simp
  from make_dirs_node [OF this, of k] show "disk_files d' k = disk_files d k"
    by (simp add: disk_files_def split: option.splits)
qed

lemma make_dirs_inv:
  assumes inv: "disk_inv d" and m: "make_dirs (b, cs) d = Some d'" and pl: "\<forall>n \<in> set cs. plain n"
  shows "disk_inv d'"
proof -
  let ?new = "filter (\<lambda>u. node_at d u = None) (dirs_to (b, cs))"
  have keys: "map fst (dk_nodes d') = map fst (dk_nodes d) @ ?new"
    unfolding make_dirs_cases(1) [OF m] by (simp add: comp_def)
  have new: "snd u \<noteq> [] \<and> fst u = b \<and> prefix (snd u) cs \<and> node_at d u = None" if "u \<in> set ?new" for u
    using that dirs_to_set [of u b cs] by simp
  have "set (map fst (dk_nodes d)) \<inter> set ?new = {}"
  proof (rule ccontr)
    assume "set (map fst (dk_nodes d)) \<inter> set ?new \<noteq> {}"
    then obtain u where "u \<in> set ?new" "u \<in> set (map fst (dk_nodes d))" by blast
    with new [of u] show False by (auto simp: node_at_def map_of_eq_None_iff)
  qed
  then have "distinct (map fst (dk_nodes d'))"
    unfolding keys using inv distinct_dirs_to by (simp add: disk_inv_def)
  moreover have "snd k \<noteq> [] \<and> (\<forall>n \<in> set (snd k). plain n) \<and> node_at d' (fst k, butlast (snd k)) = Some Directory"
    if "k \<in> set (map fst (dk_nodes d'))" for k
  proof (cases "k \<in> set ?new")
    case True
    with new have k: "snd k \<noteq> []" "fst k = b" "prefix (snd k) cs" by auto
    then have "prefix (butlast (snd k)) cs" using prefix_order.trans prefixeq_butlast by blast
    then have "node_at d' (fst k, butlast (snd k)) = Some Directory" using make_dirs_directory [OF m] k(2) by simp
    then show ?thesis using k pl set_mono_prefix [OF k(3)] by blast
  next
    case False
    with that have "k \<in> fst ` set (dk_nodes d)" unfolding keys by auto
    with inv have "snd k \<noteq> [] \<and> (\<forall>n \<in> set (snd k). plain n)" "node_at d (fst k, butlast (snd k)) = Some Directory"
      by (auto simp: disk_inv_def)
    then show ?thesis using make_dirs_node [OF m, of "(fst k, butlast (snd k))"] by simp
  qed
  ultimately show ?thesis by (auto simp: disk_inv_def)
qed

subsection \<open>Moving\<close>

lemma node_at_key: "disk_inv d \<Longrightarrow> k \<in> fst ` set (dk_nodes d) \<Longrightarrow> node_at d k \<noteq> None \<and> snd k \<noteq> []"
  by (auto simp: disk_inv_def node_at_def map_of_eq_None_iff)

lemma regular_no_child:
  assumes "disk_inv d" and "node_at d k = Some nd" and "nd \<noteq> Directory" and "k' \<in> fst ` set (dk_nodes d)"
  shows "(fst k', butlast (snd k')) \<noteq> k"
  using assms by (auto simp: disk_inv_def)

lemma places_dpop: "fst ` set (dpop k xs) = fst ` set xs - {k}"
proof -
  have "set (map fst (dpop k xs)) = set (map fst xs) - {k}" unfolding delete_keys by auto
  then show ?thesis by simp
qed

lemma mset_dpop:
  "distinct (keys xs) \<Longrightarrow> dget xs k = Some v \<Longrightarrow> mset (map snd xs) = add_mset v (mset (map snd (dpop k xs)))"
proof (induction xs)
  case (Cons e xs)
  show ?case
  proof (cases "fst e = k")
    case True
    with Cons.prems have "k \<notin> fst ` set xs" "snd e = v" by auto
    then show ?thesis using True by (cases e) simp
  next
    case False
    with Cons show ?thesis by (cases e) auto
  qed
qed simp

text \<open>A file moves to a place that is free.\<close>

lemma move_file:
  assumes inv: "disk_inv d" and s: "node_at d s = Some nd" "nd \<noteq> Directory"
    and t: "node_at d t = None" "node_at d (fst t, butlast (snd t)) = Some Directory" "\<forall>n \<in> set (snd t). plain n"
    and d': "d' = d\<lparr>dk_nodes := dput t nd (dpop s (dk_nodes d))\<rparr>"
  shows "disk_inv d'" and "mset (regular_nodes d') = mset (regular_nodes d)"
    and "node_at d' = (node_at d)(s := None, t \<mapsto> nd)"
proof -
  have sk: "snd s \<noteq> []" "dget (dk_nodes d) s = Some nd" using s by (auto simp: node_at_def split: if_splits)
  have tk: "snd t \<noteq> []" "dget (dk_nodes d) t = None" using t(1) by (auto simp: node_at_def split: if_splits)
  then have st: "s \<noteq> t" using sk by auto
  have dist: "distinct (keys (dk_nodes d))" using inv by (simp add: disk_inv_def)
  have nodes: "dk_nodes d' = dpop s (dk_nodes d) @ [(t, nd)]"
  proof -
    have "dget (dpop s (dk_nodes d)) t = None" using tk st by simp
    then have "t \<notin> set (keys (dpop s (dk_nodes d)))" by (simp only: dget_None_keys not_False_eq_True)
    then show ?thesis unfolding d' by (simp add: keys_dput_new)
  qed
  show node: "node_at d' = (node_at d)(s := None, t \<mapsto> nd)"
    using sk tk st by (auto simp: fun_eq_iff node_at_def d')
  have keys: "fst ` set (dk_nodes d') = insert t (fst ` set (dk_nodes d) - {s})"
    unfolding nodes by (simp add: places_dpop)
  have "snd k \<noteq> [] \<and> (\<forall>n \<in> set (snd k). plain n) \<and> node_at d' (fst k, butlast (snd k)) = Some Directory"
    if "k \<in> fst ` set (dk_nodes d')" for k
  proof (cases "k = t")
    case True
    have "(fst t, butlast (snd t)) \<noteq> s" using t(2) s by auto
    moreover have "(fst t, butlast (snd t)) \<noteq> t" using t by auto
    ultimately show ?thesis using True t tk node by simp
  next
    case False
    with that keys have k: "k \<in> fst ` set (dk_nodes d)" by auto
    then have "snd k \<noteq> []" "\<forall>n \<in> set (snd k). plain n" "node_at d (fst k, butlast (snd k)) = Some Directory"
      using inv by (auto simp: disk_inv_def)
    moreover have "(fst k, butlast (snd k)) \<noteq> s" by (rule regular_no_child [OF inv s k])
    moreover have "(fst k, butlast (snd k)) \<noteq> t" using calculation(3) t(1) by auto
    ultimately show ?thesis using node by simp
  qed
  moreover have "distinct (keys (dk_nodes d'))"
    unfolding d' using dist by (simp add: distinct_delete)
  ultimately show "disk_inv d'" by (simp add: disk_inv_def)
  have "mset (map snd (dk_nodes d)) = add_mset nd (mset (map snd (dpop s (dk_nodes d))))"
    by (rule mset_dpop [OF dist sk(2)])
  then have "mset (map snd (dk_nodes d')) = mset (map snd (dk_nodes d))" unfolding nodes by simp
  then show "mset (regular_nodes d') = mset (regular_nodes d)" unfolding regular_nodes_def by (simp only: mset_filter)
qed

text \<open>A directory moves, with everything below it, to a place that is free and not inside it.\<close>

lemma move_directory:
  assumes inv: "disk_inv d" and s: "node_at d s = Some Directory" "snd s \<noteq> []"
    and t: "node_at d t = None" "node_at d (fst t, butlast (snd t)) = Some Directory" "\<forall>n \<in> set (snd t). plain n"
      "\<not> (fst t = fst s \<and> prefix (snd s) (snd t))"
    and d': "d' = d\<lparr>dk_nodes := map (apfst (moved_place s t)) (dk_nodes d)\<rparr>"
  shows "disk_inv d'" and "mset (regular_nodes d') = mset (regular_nodes d)"
proof -
  let ?f = "moved_place s t" and ?K = "fst ` set (dk_nodes d)"
  have tk: "snd t \<noteq> []" using t(1) by (auto simp: node_at_def)
  have free: "node_at d (fst t, snd t @ c) = None" for c
    using disk_inv_above [OF inv, of "fst t" "snd t" c] t(1) by (cases "c = []") fastforce+
  have inj: "inj_on ?f ?K"
  proof (rule inj_onI)
    fix k k' assume k: "k \<in> ?K" "k' \<in> ?K" and eq: "?f k = ?f k'"
    have out: "?f x \<noteq> y" if "fst x = fst s \<and> prefix (snd s) (snd x)" "y \<in> ?K" for x y
    proof
      assume "?f x = y"
      then have "y = (fst t, snd t @ drop (length (snd s)) (snd x))" using that(1) by (simp add: moved_place_def)
      then show False using node_at_key [OF inv that(2)] free by simp
    qed
    show "k = k'"
    proof (cases "fst k = fst s \<and> prefix (snd s) (snd k)")
      case True
      then have b: "fst k' = fst s \<and> prefix (snd s) (snd k')"
        using out [OF True k(2)] eq by (auto simp: moved_place_def split: if_splits)
      with True eq have "drop (length (snd s)) (snd k) = drop (length (snd s)) (snd k')" by (simp add: moved_place_def)
      then have "snd k = snd k'" using True b by (auto simp: prefix_def)
      with True b show ?thesis by (simp add: prod_eq_iff)
    next
      case False
      then have fk: "?f k = k" by (auto simp: moved_place_def)
      have "\<not> (fst k' = fst s \<and> prefix (snd s) (snd k'))" using out [of k' k] k eq fk by auto
      then show ?thesis using fk eq by (auto simp: moved_place_def)
    qed
  qed
  have nodes: "dk_nodes d' = map (apfst ?f) (dk_nodes d)" by (simp add: d')
  have keys: "map fst (dk_nodes d') = map ?f (map fst (dk_nodes d))" by (simp add: nodes comp_def)
  have dist: "distinct (map fst (dk_nodes d'))"
    unfolding keys using inv inj distinct_map [of ?f "map fst (dk_nodes d)"] by (simp only: disk_inv_def set_map)
  have moved: "node_at d' (?f k) = node_at d k" if k: "k \<in> ?K" for k
  proof -
    obtain nd where "(k, nd) \<in> set (dk_nodes d)" using k by force
    then have "(?f k, nd) \<in> set (dk_nodes d')" unfolding nodes by force
    then have "dget (dk_nodes d') (?f k) = Some nd" using dist by simp
    moreover have "dget (dk_nodes d) k = Some nd" using \<open>(k, nd) \<in> set (dk_nodes d)\<close> inv by (simp add: disk_inv_def)
    moreover have "snd k \<noteq> []" using node_at_key [OF inv k] by simp
    moreover have "snd (?f k) \<noteq> []" using \<open>snd k \<noteq> []\<close> tk by (auto simp: moved_place_def)
    ultimately show ?thesis by (simp add: node_at_def)
  qed
  have up: "node_at d' (fst (?f k), butlast (snd (?f k))) = Some Directory" if k: "k \<in> ?K" for k
  proof -
    have par: "node_at d (fst k, butlast (snd k)) = Some Directory" using inv k by (auto simp: disk_inv_def)
    let ?p = "(fst k, butlast (snd k))"
    have same: "node_at d' x = Some Directory"
      if "node_at d x = Some Directory" "\<not> (fst x = fst s \<and> prefix (snd s) (snd x))" for x
    proof (cases "snd x = []")
      case False
      then have "x \<in> ?K" using disk_inv_node(3) [OF inv] that(1) by simp
      moreover have "?f x = x" using that(2) by (auto simp: moved_place_def)
      ultimately show ?thesis using moved [of x] that(1) by simp
    qed (simp add: node_at_def)
    show ?thesis
    proof (cases "fst k = fst s \<and> prefix (snd s) (snd k)")
      case True
      then obtain zs where zs: "snd k = snd s @ zs" by (auto simp: prefix_def)
      have fk: "?f k = (fst t, snd t @ zs)" using True zs by (simp add: moved_place_def)
      show ?thesis
      proof (cases "zs = []")
        case True
        have "\<not> prefix (snd s) (butlast (snd t))" if "fst t = fst s"
          using that t(4) prefix_order.trans [OF _ prefixeq_butlast] by blast
        then show ?thesis using same [OF t(2)] fk True by auto
      next
        case False
        have "?p = (fst k, snd s @ butlast zs)" using False zs by (simp add: butlast_append)
        moreover have "?p \<in> ?K" using disk_inv_node(3) [OF inv] par \<open>?p = (fst k, snd s @ butlast zs)\<close> s(2) by auto
        moreover have "?f ?p = (fst t, butlast (snd t @ zs))" using calculation(1) True False
          by (simp add: moved_place_def butlast_append)
        ultimately show ?thesis using moved [of ?p] par fk by simp
      qed
    next
      case False
      then have "?f k = k" by (auto simp: moved_place_def)
      moreover have "\<not> (fst ?p = fst s \<and> prefix (snd s) (snd ?p))"
        using False prefix_order.trans [OF _ prefixeq_butlast] by auto
      ultimately show ?thesis using same [OF par] by simp
    qed
  qed
  have pl: "snd (?f k) \<noteq> [] \<and> (\<forall>n \<in> set (snd (?f k)). plain n)" if k: "k \<in> ?K" for k
  proof -
    have "snd k \<noteq> []" "\<forall>n \<in> set (snd k). plain n" using inv k by (auto simp: disk_inv_def)
    then show ?thesis using t(3) tk by (auto simp: moved_place_def dest: in_set_dropD)
  qed
  show "disk_inv d'"
    unfolding disk_inv_def
  proof (intro conjI ballI)
    show "distinct (map fst (dk_nodes d'))" by (rule dist)
    fix k' assume "k' \<in> fst ` set (dk_nodes d')"
    then have "k' \<in> ?f ` ?K" using keys by (metis set_map)
    then obtain k where "k \<in> ?K" "k' = ?f k" by blast
    then show "snd k' \<noteq> []" "node_at d' (fst k', butlast (snd k')) = Some Directory" using pl up by simp_all
    show "plain n" if "n \<in> set (snd k')" for n using pl \<open>k \<in> ?K\<close> \<open>k' = ?f k\<close> that by blast
  qed
  show "mset (regular_nodes d') = mset (regular_nodes d)" by (simp add: regular_nodes_def nodes comp_def)
qed

text \<open>What a move of the local backend does to the files when there is none at the target.\<close>

lemma contents_eq: "disk_inv d \<Longrightarrow> disk_inv d' \<Longrightarrow> mset (regular_nodes d') = mset (regular_nodes d) \<Longrightarrow>
    contents (disk_files d') = contents (disk_files d)"
  by (simp add: contents_nodes)

lemma shutil_move_law:
  assumes inv: "disk_inv d" and m: "shutil_move s t d = Some d'" and t: "disk_files d t = None"
    "\<forall>n \<in> set (snd s) \<union> set (snd t). plain n" "node_at d (fst t, butlast (snd t)) = Some Directory"
  shows "disk_inv d' \<and> contents (disk_files d') = contents (disk_files d)"
proof -
  define into where "into = (node_at d t = Some Directory)"
  define real where "real = (if into then (fst t, snd t @ [last (snd s)]) else t)"
  have s: "snd s \<noteq> []" using m by (auto simp: shutil_move_def)
  have free: "node_at d real = None" if "\<not> (into \<and> s = t)"
    using m that t(1) s by (auto simp: shutil_move_def into_def [symmetric] real_def [symmetric] Let_def split: if_splits)
      (auto simp: real_def into_def disk_files_def split: option.splits node.splits)
  have up: "node_at d (fst real, butlast (snd real)) = Some Directory" using t(3) by (simp add: real_def into_def)
  have pl: "\<forall>n \<in> set (snd real). plain n" using t(2) s by (auto simp: real_def)
  show ?thesis
  proof (cases "into \<and> s = t")
    case True
    then have "d' = d" using m s by (simp add: shutil_move_def into_def [symmetric] Let_def)
    then show ?thesis using inv by simp
  next
    case False
    have "(into \<and> node_at d real \<noteq> None) = False" using free [OF False] by simp
    with False have m': "Some d' = (case node_at d s of
                  None \<Rightarrow> None
                | Some Directory \<Rightarrow>
                    if (fst real = fst s \<and> prefix (snd s) (snd real)) \<or> node_at d real \<noteq> None then None
                    else Some (d\<lparr>dk_nodes := map (apfst (moved_place s real)) (dk_nodes d)\<rparr>)
                | Some nd \<Rightarrow>
                    if s = real then Some d
                    else Some (d\<lparr>dk_nodes := dput real nd (dpop s (dk_nodes d))\<rparr>))"
      using m s unfolding shutil_move_def into_def [symmetric] Let_def real_def [symmetric]
      by (simp only: if_False refl)
    show ?thesis
    proof (cases "node_at d s")
      case None
      then show ?thesis using m' by simp
    next
      case (Some nd)
      show ?thesis
      proof (cases "nd = Directory")
        case True
        with Some m' have "\<not> (fst real = fst s \<and> prefix (snd s) (snd real))"
          and d': "d' = d\<lparr>dk_nodes := map (apfst (moved_place s real)) (dk_nodes d)\<rparr>" by (auto split: if_splits)
        from move_directory [OF inv _ s free [OF False] up pl this] Some True contents_eq [OF inv]
        show ?thesis by simp
      next
        case dir: False
        have ne: "s \<noteq> real" using free [OF False] Some by auto
        with Some m' dir have d': "d' = d\<lparr>dk_nodes := dput real nd (dpop s (dk_nodes d))\<rparr>" by (cases nd) auto
        from move_file [OF inv Some dir free [OF False] up pl this] contents_eq [OF inv] show ?thesis by simp
      qed
    qed
  qed
qed

lemma local_move_law:
  assumes inv: "disk_inv d" and m: "local_move b s t d = (v, d')" and free: "disk_files d (resolve_place b t) = None"
  shows "disk_inv d' \<and> contents (disk_files d') = contents (disk_files d)"
proof -
  let ?s = "resolve_place b s" and ?t = "resolve_place b t"
  have pl: "\<forall>n \<in> set (snd ?s) \<union> set (snd ?t). plain n" using resolve_plain by blast
  have b: "fst ?t = b" by (simp add: resolve_place_def)
  show ?thesis
  proof (cases "make_dirs (b, butlast (snd ?t)) d")
    case None
    then show ?thesis using m inv by (simp add: local_move_def Let_def)
  next
    case (Some d1)
    have "\<forall>n \<in> set (butlast (snd ?t)). plain n" using pl by (auto dest: in_set_butlastD)
    then have i1: "disk_inv d1" and f1: "disk_files d1 = disk_files d"
      using make_dirs_inv [OF inv Some] make_dirs_files [OF Some] by auto
    have up: "node_at d1 (fst ?t, butlast (snd ?t)) = Some Directory" using make_dirs_directory [OF Some] b by simp
    show ?thesis
    proof (cases "shutil_move ?s ?t d1")
      case None
      then show ?thesis using m i1 f1 \<open>make_dirs _ d = Some d1\<close> by (simp add: local_move_def Let_def)
    next
      case (Some d2)
      from shutil_move_law [OF i1 Some _ pl up] free f1 m \<open>make_dirs _ d = Some d1\<close> Some show ?thesis
        by (simp add: local_move_def Let_def)
    qed
  qed
qed

lemma local_mkdir_law:
  assumes "disk_inv d" and "local_mkdir b p d = (u, d')"
  shows "disk_inv d' \<and> disk_files d' = disk_files d"
proof (cases "make_dirs (resolve_place b p) d")
  case (Some d1)
  have "make_dirs (b, snd (resolve_place b p)) d = Some d1" using Some by (simp add: resolve_place_def)
  from make_dirs_inv [OF assms(1) this] make_dirs_files [OF this] resolve_plain Some assms(2) show ?thesis
    by (auto simp: local_mkdir_def)
qed (use assms in \<open>simp add: local_mkdir_def\<close>)

lemma local_remove_law:
  assumes inv: "disk_inv d" and l: "local_list b p d = (Some [], d)" and r: "local_remove b p d = (u, d')"
  shows "disk_inv d' \<and> disk_files d' = disk_files d"
proof -
  let ?l = "resolve_place b p"
  have dir: "node_at d ?l = Some Directory" and leaf: "\<not> (\<exists>e \<in> set (dk_nodes d). child_of ?l (fst e))"
    using l by (auto simp: local_list_def filter_empty_conv split: if_splits)
  show ?thesis
  proof (cases "snd ?l = []")
    case False
    then have d': "d' = d\<lparr>dk_nodes := dpop ?l (dk_nodes d)\<rparr>"
      using r dir leaf by (auto simp: local_remove_def Let_def)
    have node: "node_at d' k = (if k = ?l then None else node_at d k)" for k
      using False by (auto simp: d' node_at_def)
    have "disk_files d' = disk_files d" using node dir by (auto simp: disk_files_def fun_eq_iff)
    moreover have "disk_inv d'"
      unfolding disk_inv_def
    proof (intro conjI ballI)
      show "distinct (map fst (dk_nodes d'))" using inv by (simp add: disk_inv_def d' distinct_delete)
      fix k assume "k \<in> fst ` set (dk_nodes d')"
      then have k: "k \<in> fst ` set (dk_nodes d)" by (simp add: d' places_dpop)
      with inv show ne: "snd k \<noteq> []" by (auto simp: disk_inv_def)
      have "(fst k, butlast (snd k)) \<noteq> ?l"
      proof
        assume "(fst k, butlast (snd k)) = ?l"
        then have "child_of ?l k" using ne by (simp add: child_of_def prod_eq_iff)
        with k leaf show False by blast
      qed
      then show "node_at d' (fst k, butlast (snd k)) = Some Directory" using inv k node by (auto simp: disk_inv_def)
      show "plain n" if "n \<in> set (snd k)" for n using inv k that by (auto simp: disk_inv_def)
    qed
    ultimately show ?thesis by simp
  qed (use r inv in \<open>simp add: local_remove_def Let_def\<close>)
qed

lemma disk_call_cases:
  assumes "disk_call faults f d = (r, d')"
  obtains "r = None" "d' = d\<lparr>dk_calls := Suc (dk_calls d)\<rparr>" | "f (d\<lparr>dk_calls := Suc (dk_calls d)\<rparr>) = (r, d')"
proof (cases "faults (dk_calls d)")
  case True
  with assms that(1) show thesis by (simp add: disk_call_def)
next
  case False
  with assms that(2) show thesis by (simp add: disk_call_def)
qed

lemma local_ops_simps [simp]:
  "lb_known (local_ops faults known) = known"
  "lb_exists (local_ops faults known) b p = disk_call faults (local_exists b p)"
  "lb_stat (local_ops faults known) b p = disk_call faults (local_stat b p)"
  "lb_list (local_ops faults known) b p = disk_call faults (local_list b p)"
  "lb_mkdir (local_ops faults known) b p = disk_call faults (local_mkdir b p)"
  "lb_move (local_ops faults known) b s t = disk_call faults (local_move b s t)"
  "lb_remove (local_ops faults known) b p = disk_call faults (local_remove b p)"
  by (simp_all add: local_ops_def)

lemma local_list_Nil:
  "local_list b p d = (Some [], d') \<Longrightarrow> d' = d \<and> local_list b p (d\<lparr>dk_calls := n\<rparr>) = (Some [], d\<lparr>dk_calls := n\<rparr>)"
  by (auto simp: local_list_def split: if_splits)

interpretation local_disk: library_storage "local_ops faults known" resolve_place disk_files disk_present disk_inv
  for faults known
proof
  fix d d' :: disk and b p s t :: string and l :: place
  show "disk_files d l \<noteq> None \<Longrightarrow> disk_present d l"
    by (cases "node_at d l") (auto simp: disk_files_def disk_present_def)
  show "disk_inv d' \<and> disk_files d' = disk_files d \<and> disk_present d' = disk_present d \<and>
      (\<forall>x. r = Some x \<longrightarrow> x = disk_present d (resolve_place b p))"
    if "disk_inv d" "lb_exists (local_ops faults known) b p d = (r, d')" for r
    using that(2) unfolding local_ops_simps
    by (rule disk_call_cases) (use that(1) in \<open>auto simp: local_exists_def disk_present_def\<close>)
  show "disk_inv d' \<and> disk_files d' = disk_files d \<and> disk_present d' = disk_present d \<and>
      (\<forall>x. i = Some x \<longrightarrow> (x \<noteq> None) = disk_present d (resolve_place b p))"
    if "disk_inv d" "lb_stat (local_ops faults known) b p d = (i, d')" for i
    using that(2) unfolding local_ops_simps
    by (rule disk_call_cases) (use that(1) in \<open>auto simp: local_stat_def disk_present_def\<close>)
  show "disk_inv d' \<and> disk_files d' = disk_files d \<and> disk_present d' = disk_present d"
    if "disk_inv d" "lb_list (local_ops faults known) b p d = (es, d')" for es
    using that(2) unfolding local_ops_simps
    by (rule disk_call_cases) (use that(1) in \<open>auto simp: local_list_def split: if_splits\<close>)
  show "disk_inv d' \<and> disk_files d' = disk_files d"
    if "disk_inv d" "lb_mkdir (local_ops faults known) b p d = (u, d')" for u
    using that(2) unfolding local_ops_simps
  proof (rule disk_call_cases)
    assume "local_mkdir b p (d\<lparr>dk_calls := Suc (dk_calls d)\<rparr>) = (u, d')"
    from local_mkdir_law [OF _ this] that(1) show ?thesis by simp
  qed (use that(1) in simp)
  show "disk_inv d' \<and> contents (disk_files d') = contents (disk_files d)"
    if "disk_inv d" "lb_move (local_ops faults known) b s t d = (v, d')" "disk_files d (resolve_place b t) = None" for v
    using that(2) unfolding local_ops_simps
  proof (rule disk_call_cases)
    assume "local_move b s t (d\<lparr>dk_calls := Suc (dk_calls d)\<rparr>) = (v, d')"
    from local_move_law [OF _ this] that(1,3) show ?thesis by simp
  qed (use that(1) in simp)
  show "disk_inv d' \<and> disk_files d' = disk_files d"
    if "disk_inv d" "lb_list (local_ops faults known) b p d = (Some [], d1)"
      "lb_remove (local_ops faults known) b p d1 = (u, d')" for d1 u
  proof -
    from that(2) have d1: "d1 = d\<lparr>dk_calls := Suc (dk_calls d)\<rparr>" and l: "local_list b p d1 = (Some [], d1)"
      unfolding local_ops_simps by (auto elim!: disk_call_cases dest: local_list_Nil)
    have inv: "disk_inv d1" using that(1) d1 by simp
    show ?thesis using that(3) unfolding local_ops_simps
    proof (rule disk_call_cases)
      assume r: "local_remove b p (d1\<lparr>dk_calls := Suc (dk_calls d1)\<rparr>) = (u, d')"
      have "local_list b p (d1\<lparr>dk_calls := Suc (dk_calls d1)\<rparr>) = (Some [], d1\<lparr>dk_calls := Suc (dk_calls d1)\<rparr>)"
        using local_list_Nil [OF l] by blast
      from local_remove_law [OF _ this r] inv d1 show ?thesis by simp
    qed (use inv d1 in simp)
  qed
qed

end
