(* ===== verification/LibraryRename.thy ===== *)
theory LibraryRename
  imports LibraryStore
begin

text \<open>
  Renaming the files of a library (\<open>services/transfer/library_rename_executor.py\<close>,
  \<open>library_rename_service.py\<close>, \<open>library_rename_backend.py\<close>,
  \<open>db/repositories/library_rename_repository.py\<close>): a confirmed plan is run item by item, with the files that belong to
  a video and, at the end, those of emptied directories; a run can be cancelled, rolled back, or recovered after a
  restart.

  The database and the world of files are one state, the storage backends the parameter \<open>library_ops\<close>. A call that
  raises is \<open>None\<close>; functions that let an exception pass return \<open>True\<close> with the state reached. \<open>rename_env\<close>
  fixes what other processes do: which lock keys are held, whether the n-th extension of the job lock
  succeeds, whether a cancellation arrives before the n-th item. JSON columns are the values they encode,
  the repository itself does not raise, and the refresh of media servers is left out.
\<close>

section \<open>The tables\<close>

datatype rename_action = ASkip | ANeedsMetadata | AUnchanged | AConflict | ARename

datatype item_status = IPlanned | IRunning | IDone | IFailed | IManual | IRolledBack

datatype job_status =
    JPlanned | JRunning | JCancelling | JCancelled | JCompleted | JInterrupted | JFailed | JRolledBack

datatype rename_error = Reason string | Raised

text \<open>The part of the snapshot of an item that the executor reads; \<open>sn_data\<close> is the rest.\<close>

record rename_snapshot =
  sn_update_category :: bool
  sn_target_category :: string
  sn_category :: string
  sn_confidence :: string
  sn_manual :: bool
  sn_data :: string

record rename_item =
  ri_id :: int
  ri_job :: int
  ri_backend :: string
  ri_root :: string
  ri_old :: string
  ri_new :: "string option"
  ri_size :: "int option"
  ri_mtime :: "rat option"
  ri_snapshot :: "rename_snapshot option"
  ri_action :: rename_action
  ri_status :: item_status
  ri_aux :: "(string \<times> string) list"
  ri_reason :: "string option"
  ri_error :: "rename_error option"
  ri_rollback :: "string option"

record rename_counters =
  rc_total :: nat
  rc_changed :: nat
  rc_unchanged :: nat
  rc_skipped :: nat
  rc_conflict :: nat
  rc_needs :: nat
  rc_failed :: nat
  rc_done :: nat
  rc_rolled_back :: nat

record rename_job =
  rj_id :: int
  rj_plan :: string
  rj_status :: job_status
  rj_created :: "int option"
  rj_counters :: "rename_counters option"

record dest_row =
  dr_path :: string
  dr_name :: string
  dr_category :: string

record library_meta =
  lm_backend :: string
  lm_path :: string
  lm_manual :: bool
  lm_confidence :: string
  lm_size :: "int option"
  lm_mtime :: "rat option"
  lm_data :: string

record 'w rename_state =
  rn_world :: 'w
  rn_jobs :: "rename_job list"
  rn_items :: "rename_item list"
  rn_history :: "dest_row list"
  rn_meta :: "library_meta list"

record rename_env =
  rv_locked :: "string \<Rightarrow> bool"
  rv_extend :: "nat \<Rightarrow> bool"
  rv_cancel :: "nat \<Rightarrow> bool"

section \<open>Paths and keys\<close>

definition normalize_backend :: "string \<Rightarrow> string" where
  "normalize_backend b =
     (let v = strip (if b = [] then ''local'' else b)
      in if lower v \<in> {[], ''local'', ''none'', ''0''} then ''local'' else v)"

definition lib_dirname :: "string \<Rightarrow> string" where
  "lib_dirname p = dirname (norm_path p)"

definition lib_basename :: "string \<Rightarrow> string" where
  "lib_basename p = basename (norm_path p)"

definition target_dir_lock_key :: "string \<Rightarrow> string \<Rightarrow> string" where
  "target_dir_lock_key b d = ''library:target:dir:'' @ normalize_backend b @ '':'' @ norm_path d"

definition job_lock_key :: "int \<Rightarrow> string" where
  "job_lock_key j = ''library:rename:job:'' @ int_str j"

text \<open>\<open>norm_path(item.get("NEW_PATH") or "")\<close>\<close>

definition new_path_of :: "rename_item \<Rightarrow> string" where
  "new_path_of it = norm_path (case ri_new it of None \<Rightarrow> [] | Some p \<Rightarrow> p)"

section \<open>The repository\<close>

definition update_item :: "int \<Rightarrow> (rename_item \<Rightarrow> rename_item) \<Rightarrow> 'w rename_state \<Rightarrow> 'w rename_state" where
  "update_item i f st = st\<lparr>rn_items := map (\<lambda>it. if ri_id it = i then f it else it) (rn_items st)\<rparr>"

definition get_job :: "int \<Rightarrow> 'w rename_state \<Rightarrow> rename_job option" where
  "get_job j st = find (\<lambda>r. rj_id r = j) (rn_jobs st)"

definition get_job_by_plan :: "string \<Rightarrow> 'w rename_state \<Rightarrow> rename_job option" where
  "get_job_by_plan p st = (if p = [] then None else find (\<lambda>r. rj_plan r = p) (rn_jobs st))"

definition update_job_status :: "int \<Rightarrow> job_status \<Rightarrow> 'w rename_state \<Rightarrow> 'w rename_state" where
  "update_job_status j s st = st\<lparr>rn_jobs := map (\<lambda>r. if rj_id r = j then r\<lparr>rj_status := s\<rparr> else r) (rn_jobs st)\<rparr>"

definition list_all_items :: "int \<Rightarrow> 'w rename_state \<Rightarrow> rename_item list" where
  "list_all_items j st = sort_key ri_id (filter (\<lambda>it. ri_job it = j) (rn_items st))"

definition list_planned_items :: "int \<Rightarrow> 'w rename_state \<Rightarrow> rename_item list" where
  "list_planned_items j st = filter (\<lambda>it. ri_status it = IPlanned \<and> ri_action it = ARename) (list_all_items j st)"

definition list_running_items :: "int \<Rightarrow> 'w rename_state \<Rightarrow> rename_item list" where
  "list_running_items j st = filter (\<lambda>it. ri_status it = IRunning) (list_all_items j st)"

definition list_done_items :: "int \<Rightarrow> 'w rename_state \<Rightarrow> rename_item list" where
  "list_done_items j st = rev (filter (\<lambda>it. ri_status it = IDone \<or> ri_status it = IFailed) (list_all_items j st))"

definition list_running_jobs :: "'w rename_state \<Rightarrow> rename_job list" where
  "list_running_jobs st = sort_key rj_id (filter (\<lambda>r. rj_status r = JRunning) (rn_jobs st))"

definition count_items :: "(rename_item \<Rightarrow> bool) \<Rightarrow> rename_item list \<Rightarrow> nat" where
  "count_items P its = length (filter P its)"

definition job_counters :: "rename_item list \<Rightarrow> rename_counters" where
  "job_counters its =
     \<lparr>rc_total = length its, rc_changed = count_items (\<lambda>i. ri_action i = ARename) its,
      rc_unchanged = count_items (\<lambda>i. ri_action i = AUnchanged) its,
      rc_skipped = count_items (\<lambda>i. ri_action i = ASkip) its,
      rc_conflict = count_items (\<lambda>i. ri_action i = AConflict) its,
      rc_needs = count_items (\<lambda>i. ri_action i = ANeedsMetadata) its,
      rc_failed = count_items (\<lambda>i. ri_status i = IFailed \<or> ri_status i = IManual) its,
      rc_done = count_items (\<lambda>i. ri_status i = IDone) its,
      rc_rolled_back = count_items (\<lambda>i. ri_status i = IRolledBack) its\<rparr>"

definition refresh_job_counters :: "int \<Rightarrow> 'w rename_state \<Rightarrow> 'w rename_state" where
  "refresh_job_counters j st =
     st\<lparr>rn_jobs := map (\<lambda>r. if rj_id r = j
          then r\<lparr>rj_counters := Some (job_counters (filter (\<lambda>it. ri_job it = j) (rn_items st)))\<rparr> else r) (rn_jobs st)\<rparr>"

definition update_history_dest ::
  "string \<Rightarrow> string \<Rightarrow> string \<Rightarrow> string \<Rightarrow> string option \<Rightarrow> 'w rename_state \<Rightarrow> 'w rename_state" where
  "update_history_dest p n p' n' category st =
     st\<lparr>rn_history := map (\<lambda>r. if dr_path r = p \<and> dr_name r = n
          then r\<lparr>dr_path := p', dr_name := n',
                 dr_category := (case category of None \<Rightarrow> dr_category r | Some c \<Rightarrow> c)\<rparr> else r) (rn_history st)\<rparr>"

text \<open>The first row of a key is changed.\<close>

fun update_first :: "('a \<Rightarrow> bool) \<Rightarrow> ('a \<Rightarrow> 'a) \<Rightarrow> 'a list \<Rightarrow> 'a list" where
  "update_first P f [] = []"
| "update_first P f (x # xs) = (if P x then f x # xs else x # update_first P f xs)"

definition update_metadata_path ::
  "string \<Rightarrow> string \<Rightarrow> string \<Rightarrow> int option \<Rightarrow> rat option \<Rightarrow> 'w rename_state \<Rightarrow> 'w rename_state" where
  "update_metadata_path b old new bytes mtime st =
     st\<lparr>rn_meta := update_first (\<lambda>r. lm_backend r = b \<and> lm_path r = old)
          (\<lambda>r. r\<lparr>lm_path := new, lm_size := bytes, lm_mtime := mtime\<rparr>) (rn_meta st)\<rparr>"

definition upsert_metadata :: "bool \<Rightarrow> library_meta \<Rightarrow> 'w rename_state \<Rightarrow> 'w rename_state" where
  "upsert_metadata manual row st =
     (let same = (\<lambda>r. lm_backend r = lm_backend row \<and> lm_path r = lm_path row)
      in case find same (rn_meta st) of
           None \<Rightarrow> st\<lparr>rn_meta := rn_meta st @ [row]\<rparr>
         | Some r \<Rightarrow>
             if lm_manual r \<and> \<not> manual then st
             else if \<not> manual \<and> lm_confidence r = ''high'' \<and> lm_confidence row \<noteq> ''high'' then st
             else st\<lparr>rn_meta := update_first same (\<lambda>_. row) (rn_meta st)\<rparr>)"

section \<open>Files that go with a video\<close>

definition subtitle_exts :: "string set" where
  "subtitle_exts = {''.srt'', ''.ass'', ''.ssa'', ''.vtt'', ''.sup'', ''.sub'', ''.idx''}"

definition media_exts :: "string list" where
  "media_exts = [''.mp4'', ''.mkv'', ''.ts'', ''.iso'', ''.rmvb'', ''.avi'', ''.mov'', ''.mpeg'', ''.mpg'', ''.wmv'', ''.3gp'',
     ''.asf'', ''.m4v'', ''.flv'', ''.m2ts'', ''.strm'', ''.tp'']"

text \<open>The name an entry of the directory gets, when it belongs to the video.\<close>

definition aux_target :: "string \<Rightarrow> string \<Rightarrow> file_info \<Rightarrow> string option" where
  "aux_target old_base new_base e =
     (let name = lib_basename (fi_path e); stem = fst (splitext name); ext = lower (snd (splitext name))
      in if fi_dir e then None
         else if ext \<in> subtitle_exts \<and> (stem = old_base \<or> startswith stem (old_base @ ''.'')) then
           Some (new_base @ drop (length old_base) stem @ ext)
         else if ext = ''.mka'' \<and> stem = old_base then Some (new_base @ ext)
         else if ext = ''.nfo'' \<and> stem = old_base \<and> lower name \<notin> {''movie.nfo'', ''tvshow.nfo'', ''season.nfo''} then
           Some (new_base @ ''.nfo'')
         else None)"

text \<open>One file to its target unless that exists: \<open>None\<close> when the test raises; a failing move is logged.\<close>

definition try_move ::
  "'w library_ops \<Rightarrow> string \<Rightarrow> string \<Rightarrow> string \<Rightarrow> string \<Rightarrow> 'w \<Rightarrow> bool option \<times> 'w" where
  "try_move ops b src new_dir target w =
     (case lb_exists ops b target w of
        (None, w1) \<Rightarrow> (None, w1)
      | (Some True, w1) \<Rightarrow> (Some False, w1)
      | (Some False, w1) \<Rightarrow>
          (case lb_mkdir ops b new_dir w1 of
             (None, w2) \<Rightarrow> (Some False, w2)
           | (Some _, w2) \<Rightarrow>
               (case lb_move ops b src target w2 of
                  (None, w3) \<Rightarrow> (Some False, w3)
                | (Some _, w3) \<Rightarrow> (Some True, w3))))"

text \<open>The loop over the entries; the moves made so far are lost when it raises.\<close>

fun move_entries ::
  "'w library_ops \<Rightarrow> string \<Rightarrow> (file_info \<Rightarrow> string option) \<Rightarrow> string \<Rightarrow> file_info list \<Rightarrow> 'w \<Rightarrow>
   (string \<times> string) list option \<times> 'w" where
  "move_entries ops b target_of new_dir [] w = (Some [], w)"
| "move_entries ops b target_of new_dir (e # es) w =
     (case target_of e of
        None \<Rightarrow> move_entries ops b target_of new_dir es w
      | Some name \<Rightarrow>
          (case try_move ops b (fi_path e) new_dir (os_join new_dir name) w of
             (None, w1) \<Rightarrow> (None, w1)
           | (Some moved, w1) \<Rightarrow>
               (case move_entries ops b target_of new_dir es w1 of
                  (None, w2) \<Rightarrow> (None, w2)
                | (Some ms, w2) \<Rightarrow>
                    (Some (if moved then (norm_path (fi_path e), norm_path (os_join new_dir name)) # ms else ms), w2))))"

definition move_aux ::
  "'w library_ops \<Rightarrow> string \<Rightarrow> string \<Rightarrow> string \<Rightarrow> 'w \<Rightarrow> (string \<times> string) list option \<times> 'w" where
  "move_aux ops b old new w =
     (case lb_list ops b (lib_dirname old) w of
        (None, w1) \<Rightarrow> (Some [], w1)
      | (Some es, w1) \<Rightarrow>
          move_entries ops b (aux_target (fst (splitext (lib_basename old))) (fst (splitext (lib_basename new))))
            (lib_dirname new) es w1)"

section \<open>Undoing\<close>

text \<open>One move undone; \<open>main\<close> is the video itself, whose loss is a failure.\<close>

definition restore :: "'w library_ops \<Rightarrow> string \<Rightarrow> bool \<Rightarrow> string \<Rightarrow> string \<Rightarrow> 'w \<Rightarrow> bool option \<times> 'w" where
  "restore ops b main old new w =
     (case lb_exists ops b new w of
        (None, w1) \<Rightarrow> (None, w1)
      | (Some new_exists, w1) \<Rightarrow>
          (case lb_exists ops b old w1 of
             (None, w2) \<Rightarrow> (None, w2)
           | (Some old_exists, w2) \<Rightarrow>
               if new_exists \<and> old_exists then (Some False, w2)
               else if new_exists then
                 (case lb_mkdir ops b (lib_dirname old) w2 of
                    (None, w3) \<Rightarrow> (Some False, w3)
                  | (Some _, w3) \<Rightarrow>
                      (case lb_move ops b new old w3 of
                         (None, w4) \<Rightarrow> (Some False, w4)
                       | (Some _, w4) \<Rightarrow> (Some True, w4)))
               else (Some (\<not> main \<or> old_exists), w2)))"

fun restore_aux :: "'w library_ops \<Rightarrow> string \<Rightarrow> (string \<times> string) list \<Rightarrow> 'w \<Rightarrow> bool option \<times> 'w" where
  "restore_aux ops b [] w = (Some True, w)"
| "restore_aux ops b ((old, new) # ms) w =
     (case restore ops b False old new w of
        (None, w1) \<Rightarrow> (None, w1)
      | (Some ok, w1) \<Rightarrow>
          (case restore_aux ops b ms w1 of
             (None, w2) \<Rightarrow> (None, w2)
           | (Some rest, w2) \<Rightarrow> (Some (ok \<and> rest), w2)))"

definition rollback_paths ::
  "'w library_ops \<Rightarrow> string \<Rightarrow> string \<Rightarrow> string \<Rightarrow> (string \<times> string) list \<Rightarrow> 'w \<Rightarrow> bool option \<times> 'w" where
  "rollback_paths ops b old new aux w =
     (case restore_aux ops b (rev aux) w of
        (None, w1) \<Rightarrow> (None, w1)
      | (Some ok, w1) \<Rightarrow>
          (case restore ops b True old new w1 of
             (None, w2) \<Rightarrow> (None, w2)
           | (Some main_ok, w2) \<Rightarrow> (Some (ok \<and> main_ok), w2)))"

section \<open>One item\<close>

definition history_category :: "bool \<Rightarrow> rename_item \<Rightarrow> string option" where
  "history_category target it =
     (case ri_snapshot it of
        None \<Rightarrow> None
      | Some sn \<Rightarrow>
          if \<not> sn_update_category sn then None
          else Some (if target then sn_target_category sn else sn_category sn))"

definition metadata_row :: "rename_item \<Rightarrow> string \<Rightarrow> file_info option \<Rightarrow> library_meta" where
  "metadata_row it new info =
     \<lparr>lm_backend = normalize_backend (ri_backend it), lm_path = new,
      lm_manual = (case ri_snapshot it of None \<Rightarrow> False | Some sn \<Rightarrow> sn_manual sn),
      lm_confidence = (case ri_snapshot it of None \<Rightarrow> ''medium''
                       | Some sn \<Rightarrow> if sn_confidence sn = [] then ''medium'' else sn_confidence sn),
      lm_size = map_option fi_size info, lm_mtime = map_option fi_mtime info,
      lm_data = (case ri_snapshot it of None \<Rightarrow> [] | Some sn \<Rightarrow> sn_data sn)\<rparr>"

text \<open>The history rows of the video follow it, there and back.\<close>

definition history_to_new :: "rename_item \<Rightarrow> 'w rename_state \<Rightarrow> 'w rename_state" where
  "history_to_new it =
     update_history_dest (lib_dirname (ri_old it)) (lib_basename (ri_old it))
       (lib_dirname (new_path_of it)) (lib_basename (new_path_of it)) (history_category True it)"

definition history_to_old :: "rename_item \<Rightarrow> 'w rename_state \<Rightarrow> 'w rename_state" where
  "history_to_old it =
     update_history_dest (lib_dirname (new_path_of it)) (lib_basename (new_path_of it))
       (lib_dirname (ri_old it)) (lib_basename (ri_old it)) (history_category False it)"

definition metadata_to_old :: "rename_item \<Rightarrow> 'w rename_state \<Rightarrow> 'w rename_state" where
  "metadata_to_old it =
     update_metadata_path (normalize_backend (ri_backend it)) (new_path_of it) (norm_path (ri_old it)) None None"

text \<open>The tests before anything is touched: \<open>Some (Some reason)\<close> is a refusal.\<close>

definition file_changed :: "rename_item \<Rightarrow> file_info \<Rightarrow> bool" where
  "file_changed it info =
     ((case ri_size it of None \<Rightarrow> False | Some n \<Rightarrow> n \<noteq> fi_size info) \<or>
      (case ri_mtime it of None \<Rightarrow> False | Some t \<Rightarrow> \<bar>t - fi_mtime info\<bar> > 2))"

definition check_item :: "'w library_ops \<Rightarrow> rename_item \<Rightarrow> 'w \<Rightarrow> string option option \<times> 'w" where
  "check_item ops it w =
     (let b = normalize_backend (ri_backend it); old = norm_path (ri_old it); new = new_path_of it; root = norm_path (ri_root it)
      in if \<not> lb_known ops b then (Some (Some ''backend_unavailable''), w)
         else if new = [] then (Some (Some ''missing_new_path''), w)
         else if root = [] \<or> \<not> is_path_in_path root old \<or> \<not> is_path_in_path root new
           then (Some (Some ''outside_library_root''), w)
         else case lb_stat ops b old w of
                (None, w1) \<Rightarrow> (None, w1)
              | (Some None, w1) \<Rightarrow> (Some (Some ''source_missing''), w1)
              | (Some (Some info), w1) \<Rightarrow>
                  if file_changed it info then (Some (Some ''file_changed''), w1)
                  else (case lb_exists ops b new w1 of
                          (None, w2) \<Rightarrow> (None, w2)
                        | (Some True, w2) \<Rightarrow> (Some (Some ''target_exists''), w2)
                        | (Some False, w2) \<Rightarrow> (Some None, w2)))"

definition fail_item :: "int \<Rightarrow> string \<Rightarrow> 'w rename_state \<Rightarrow> 'w rename_state" where
  "fail_item i reason = update_item i (\<lambda>it. it\<lparr>ri_status := IFailed, ri_error := Some (Reason reason)\<rparr>)"

text \<open>The body of the \<open>try\<close>: \<open>Inr aux\<close> when it comes to its end, otherwise \<open>Inl aux\<close> with the moves recorded when it
  raised (those of an interrupted \<open>_move_aux\<close> are not).\<close>

definition attempt ::
  "'w library_ops \<Rightarrow> rename_item \<Rightarrow> 'w rename_state \<Rightarrow> ((string \<times> string) list + (string \<times> string) list) \<times> 'w rename_state"
  where
  "attempt ops it st =
     (let b = normalize_backend (ri_backend it); old = norm_path (ri_old it); new = new_path_of it
      in case lb_mkdir ops b (lib_dirname new) (rn_world st) of
           (None, w1) \<Rightarrow> (Inl [], st\<lparr>rn_world := w1\<rparr>)
         | (Some _, w1) \<Rightarrow>
             (case lb_move ops b old new w1 of
                (None, w2) \<Rightarrow> (Inl [], st\<lparr>rn_world := w2\<rparr>)
              | (Some _, w2) \<Rightarrow>
                  (case move_aux ops b old new w2 of
                     (None, w3) \<Rightarrow> (Inl [], st\<lparr>rn_world := w3\<rparr>)
                   | (Some aux, w3) \<Rightarrow>
                       let st1 = history_to_new it (st\<lparr>rn_world := w3\<rparr>)
                       in (case lb_stat ops b new w3 of
                             (None, w4) \<Rightarrow> (Inl aux, st1\<lparr>rn_world := w4\<rparr>)
                           | (Some info, w4) \<Rightarrow>
                               let st2 = update_metadata_path b old new (map_option fi_size info)
                                           (map_option fi_mtime info) (st1\<lparr>rn_world := w4\<rparr>)
                               in (case lb_stat ops b new w4 of
                                     (None, w5) \<Rightarrow> (Inl aux, st2\<lparr>rn_world := w5\<rparr>)
                                   | (Some info', w5) \<Rightarrow>
                                       (Inr aux, upsert_metadata False (metadata_row it new info') (st2\<lparr>rn_world := w5\<rparr>)))))))"

text \<open>The \<open>except\<close> branch; the tests of the rollback may raise again.\<close>

definition undo_item :: "'w library_ops \<Rightarrow> rename_item \<Rightarrow> (string \<times> string) list \<Rightarrow> 'w rename_state \<Rightarrow> bool \<times> 'w rename_state"
  where
  "undo_item ops it aux st =
     (let b = normalize_backend (ri_backend it); old = norm_path (ri_old it); new = new_path_of it;
          st1 = metadata_to_old it (history_to_old it st)
      in case rollback_paths ops b old new aux (rn_world st1) of
           (None, w1) \<Rightarrow> (True, st1\<lparr>rn_world := w1\<rparr>)
         | (Some ok, w1) \<Rightarrow>
             (False, update_item (ri_id it) (\<lambda>i. i\<lparr>ri_status := (if ok then IFailed else IManual), ri_error := Some Raised,
                       ri_rollback := Some (if ok then ''done'' else ''failed'')\<rparr>) (st1\<lparr>rn_world := w1\<rparr>)))"

definition execute_item :: "'w library_ops \<Rightarrow> rename_env \<Rightarrow> rename_item \<Rightarrow> 'w rename_state \<Rightarrow> bool \<times> 'w rename_state" where
  "execute_item ops ev it st =
     (let b = normalize_backend (ri_backend it); i = ri_id it; new = new_path_of it
      in case check_item ops it (rn_world st) of
           (None, w1) \<Rightarrow> (True, st\<lparr>rn_world := w1\<rparr>)
         | (Some (Some reason), w1) \<Rightarrow> (False, fail_item i reason (st\<lparr>rn_world := w1\<rparr>))
         | (Some None, w1) \<Rightarrow>
             let st1 = st\<lparr>rn_world := w1\<rparr>
             in if rv_locked ev (target_dir_lock_key (ri_backend it) (lib_dirname (ri_old it))) \<or>
                   rv_locked ev (target_dir_lock_key (ri_backend it) (lib_dirname new))
                then (False, fail_item i ''target_locked'' st1)
                else (case lb_exists ops b new w1 of
                        (None, w2) \<Rightarrow> undo_item ops it [] (st1\<lparr>rn_world := w2\<rparr>)
                      | (Some True, w2) \<Rightarrow> (False, fail_item i ''target_exists'' (st1\<lparr>rn_world := w2\<rparr>))
                      | (Some False, w2) \<Rightarrow>
                          (case attempt ops it (update_item i (\<lambda>x. x\<lparr>ri_status := IRunning\<rparr>) (st1\<lparr>rn_world := w2\<rparr>)) of
                             (Inl aux, st2) \<Rightarrow> undo_item ops it aux st2
                           | (Inr aux, st2) \<Rightarrow>
                               (False, update_item i (\<lambda>x. x\<lparr>ri_status := IDone, ri_new := Some new, ri_aux := aux\<rparr>) st2))))"

section \<open>Emptied directories\<close>

text \<open>The renamed items by the directory they left.\<close>

definition directory_groups :: "rename_item list \<Rightarrow> (string, rename_item list) dict" where
  "directory_groups its =
     fold (\<lambda>it d. if ri_action it \<noteq> ARename \<or> ri_new it = None \<or> ri_new it = Some [] then d
             else dput (lib_dirname (ri_old it)) (get_or d (lib_dirname (ri_old it)) [] @ [it]) d) its []"

definition asset_target :: "file_info \<Rightarrow> string option" where
  "asset_target e = (if fi_dir e then None else Some (lib_basename (fi_path e)))"

definition is_media_entry :: "file_info \<Rightarrow> bool" where
  "is_media_entry e = (\<not> fi_dir e \<and> lower (snd (splitext (lib_basename (fi_path e)))) \<in> set media_exts)"

text \<open>One directory: what is left of it follows its videos when all of them went to one place, and the empty directory is
  removed.\<close>

definition finish_group ::
  "'w library_ops \<Rightarrow> string \<Rightarrow> rename_item list \<Rightarrow> 'w rename_state \<Rightarrow> bool \<times> 'w rename_state" where
  "finish_group ops old_dir its st =
     (let new_dirs = remdups (map (\<lambda>it. dirname (new_path_of it)) its); new_dir = hd new_dirs;
          b = normalize_backend (ri_backend (hd its))
      in if length new_dirs \<noteq> 1 \<or> norm_path old_dir = norm_path new_dir \<or> (\<exists>it \<in> set its. ri_status it \<noteq> IDone) \<or>
            \<not> lb_known ops b then (False, st)
         else case lb_list ops b old_dir (rn_world st) of
                (None, w1) \<Rightarrow> (False, st\<lparr>rn_world := w1\<rparr>)
              | (Some es, w1) \<Rightarrow>
                  if \<exists>e \<in> set es. is_media_entry e then (False, st\<lparr>rn_world := w1\<rparr>)
                  else (case move_entries ops b asset_target new_dir es w1 of
                          (None, w2) \<Rightarrow> (True, st\<lparr>rn_world := w2\<rparr>)
                        | (Some moved, w2) \<Rightarrow>
                            let first = hd its; st1 = st\<lparr>rn_world := w2\<rparr>;
                                st2 = (if moved = [] then st1
                                       else update_item (ri_id first) (\<lambda>x. x\<lparr>ri_aux := ri_aux first @ moved\<rparr>) st1)
                            in (case lb_list ops b old_dir w2 of
                                  (Some [], w3) \<Rightarrow> (False, st2\<lparr>rn_world := snd (lb_remove ops b old_dir w3)\<rparr>)
                                | (_, w3) \<Rightarrow> (False, st2\<lparr>rn_world := w3\<rparr>))))"

text \<open>A test that raises ends the whole loop; the caller only logs it.\<close>

fun finish_directory_assets ::
  "'w library_ops \<Rightarrow> (string, rename_item list) dict \<Rightarrow> 'w rename_state \<Rightarrow> 'w rename_state" where
  "finish_directory_assets ops [] st = st"
| "finish_directory_assets ops ((old_dir, its) # groups) st =
     (case finish_group ops old_dir its st of
        (True, st1) \<Rightarrow> st1
      | (False, st1) \<Rightarrow> finish_directory_assets ops groups st1)"

section \<open>Jobs\<close>

definition cancel_job :: "int \<Rightarrow> 'w rename_state \<Rightarrow> bool \<times> 'w rename_state" where
  "cancel_job j st =
     (case get_job j st of
        None \<Rightarrow> (False, st)
      | Some job \<Rightarrow>
          if rj_status job = JPlanned then (True, update_job_status j JCancelled st)
          else if rj_status job = JRunning then (True, update_job_status j JCancelling st)
          else (False, st))"

text \<open>A cancellation by somebody else may arrive before the n-th look at the job.\<close>

definition poll_job :: "rename_env \<Rightarrow> int \<Rightarrow> nat \<Rightarrow> 'w rename_state \<Rightarrow> job_status option \<times> 'w rename_state" where
  "poll_job ev j n st =
     (let st1 = (if rv_cancel ev n then snd (cancel_job j st) else st)
      in (map_option rj_status (get_job j st1), st1))"

datatype loop_end = LoopDone | LockLost | LoopRaised

fun run_items ::
  "'w library_ops \<Rightarrow> rename_env \<Rightarrow> int \<Rightarrow> nat \<Rightarrow> rename_item list \<Rightarrow> 'w rename_state \<Rightarrow> loop_end \<times> 'w rename_state" where
  "run_items ops ev j n [] st = (LoopDone, st)"
| "run_items ops ev j n (it # its) st =
     (case poll_job ev j n st of
        (status, st1) \<Rightarrow>
          if status = Some JCancelling \<or> status = Some JCancelled then (LoopDone, st1)
          else (case execute_item ops ev it st1 of
                  (True, st2) \<Rightarrow> (LoopRaised, st2)
                | (False, st2) \<Rightarrow> if \<not> rv_extend ev n then (LockLost, st2) else run_items ops ev j (Suc n) its st2))"

definition end_job :: "int \<Rightarrow> job_status \<Rightarrow> 'w rename_state \<Rightarrow> 'w rename_state" where
  "end_job j s st = update_job_status j s (refresh_job_counters j st)"

definition run_job :: "'w library_ops \<Rightarrow> rename_env \<Rightarrow> int \<Rightarrow> 'w rename_state \<Rightarrow> 'w rename_state" where
  "run_job ops ev j st =
     (case get_job j st of
        None \<Rightarrow> st
      | Some job \<Rightarrow>
          if rj_status job \<noteq> JPlanned \<or> rv_locked ev (job_lock_key j) then st
          else
            let its = list_planned_items j st
            in (case run_items ops ev j 0 its (update_job_status j JRunning st) of
                  (LoopRaised, st1) \<Rightarrow> end_job j JFailed st1
                | (LockLost, st1) \<Rightarrow> end_job j JInterrupted st1
                | (LoopDone, st1) \<Rightarrow>
                    (case poll_job ev j (length its)
                            (finish_directory_assets ops (directory_groups (list_all_items j st1)) st1) of
                       (status, st2) \<Rightarrow>
                         end_job j (if status = Some JCancelling \<or> status = Some JCancelled then JCancelled else JCompleted) st2)))"

section \<open>Rolling back\<close>

definition rollback_item :: "'w library_ops \<Rightarrow> rename_item \<Rightarrow> 'w rename_state \<Rightarrow> bool option \<times> 'w rename_state" where
  "rollback_item ops it st =
     (let b = normalize_backend (ri_backend it); old = norm_path (ri_old it); new = new_path_of it;
          give_up = update_item (ri_id it) (\<lambda>x. x\<lparr>ri_status := IManual, ri_rollback := Some ''failed''\<rparr>)
      in if new = [] then (Some True, st)
         else if \<not> lb_known ops b then (Some False, give_up st)
         else case rollback_paths ops b old new (ri_aux it) (rn_world st) of
                (None, w1) \<Rightarrow> (None, st\<lparr>rn_world := w1\<rparr>)
              | (Some ok, w1) \<Rightarrow>
                  let st1 = st\<lparr>rn_world := w1\<rparr>
                  in if ok then
                       (Some True, update_item (ri_id it) (\<lambda>x. x\<lparr>ri_status := IRolledBack, ri_rollback := Some ''done''\<rparr>)
                          (metadata_to_old it (history_to_old it st1)))
                     else (Some False, give_up st1))"

fun rollback_items ::
  "'w library_ops \<Rightarrow> rename_item list \<Rightarrow> nat \<times> nat \<Rightarrow> 'w rename_state \<Rightarrow> (nat \<times> nat) option \<times> 'w rename_state" where
  "rollback_items ops [] counts st = (Some counts, st)"
| "rollback_items ops (it # its) (good, bad) st =
     (if ri_status it \<noteq> IDone then rollback_items ops its (good, bad) st
      else case rollback_item ops it st of
             (None, st1) \<Rightarrow> (None, st1)
           | (Some ok, st1) \<Rightarrow> rollback_items ops its (if ok then (Suc good, bad) else (good, Suc bad)) st1)"

datatype rollback_result = Refused string | RolledBack nat nat | RollbackRaised

definition rollback_job ::
  "'w library_ops \<Rightarrow> rename_env \<Rightarrow> int \<Rightarrow> 'w rename_state \<Rightarrow> rollback_result \<times> 'w rename_state" where
  "rollback_job ops ev j st =
     (case get_job j st of
        None \<Rightarrow> (Refused ''job_not_found'', st)
      | Some job \<Rightarrow>
          if rj_status job = JRunning then (Refused ''job_running'', st)
          else if rv_locked ev (job_lock_key j) then (Refused ''job_locked'', st)
          else (case rollback_items ops (list_done_items j st) (0, 0) st of
                  (None, st1) \<Rightarrow> (RollbackRaised, st1)
                | (Some (good, bad), st1) \<Rightarrow>
                    (RolledBack good bad, refresh_job_counters j (update_job_status j JRolledBack st1))))"

section \<open>Starting and recovering\<close>

datatype service_error = NotFound | NotExecutable | Expired

definition plan_ttl :: int where
  "plan_ttl = 24 * 3600"

definition plan_expired :: "int \<Rightarrow> int option \<Rightarrow> bool" where
  "plan_expired now created = (case created of None \<Rightarrow> True | Some t \<Rightarrow> now - t > plan_ttl)"

text \<open>\<open>execute\<close> with the run it submits.\<close>

definition execute_plan ::
  "'w library_ops \<Rightarrow> rename_env \<Rightarrow> int \<Rightarrow> string \<Rightarrow> 'w rename_state \<Rightarrow> service_error + 'w rename_state" where
  "execute_plan ops ev now plan st =
     (case get_job_by_plan plan st of
        None \<Rightarrow> Inl NotFound
      | Some job \<Rightarrow>
          if rj_status job \<noteq> JPlanned then Inl NotExecutable
          else if plan_expired now (rj_created job) then Inl Expired
          else Inr (run_job ops ev (rj_id job) st))"

text \<open>An item that was running when the process ended is settled by where its file is.\<close>

definition recover_item :: "'w library_ops \<Rightarrow> rename_item \<Rightarrow> 'w rename_state \<Rightarrow> bool \<times> 'w rename_state" where
  "recover_item ops it st =
     (let b = normalize_backend (ri_backend it); old = norm_path (ri_old it); new = new_path_of it;
          interrupted = (\<lambda>s. update_item (ri_id it) (\<lambda>x. x\<lparr>ri_status := s, ri_error := Some (Reason ''interrupted'')\<rparr>))
      in if \<not> lb_known ops b \<or> new = [] then (False, interrupted IManual st)
         else case lb_exists ops b old (rn_world st) of
                (None, w1) \<Rightarrow> (True, st\<lparr>rn_world := w1\<rparr>)
              | (Some old_exists, w1) \<Rightarrow>
                  (case lb_exists ops b new w1 of
                     (None, w2) \<Rightarrow> (True, st\<lparr>rn_world := w2\<rparr>)
                   | (Some new_exists, w2) \<Rightarrow>
                       let st1 = st\<lparr>rn_world := w2\<rparr>
                       in if new_exists \<and> \<not> old_exists then
                            (case lb_stat ops b new w2 of
                               (None, w3) \<Rightarrow> (True, update_metadata_path b old new None None
                                                   (history_to_new it (st1\<lparr>rn_world := w3\<rparr>)))
                             | (Some info, w3) \<Rightarrow>
                                 (False, update_item (ri_id it) (\<lambda>x. x\<lparr>ri_status := IDone, ri_rollback := Some ''recoverable''\<rparr>)
                                    (upsert_metadata False (metadata_row it new info)
                                      (update_metadata_path b old new None None (history_to_new it (st1\<lparr>rn_world := w3\<rparr>))))))
                          else if old_exists \<and> \<not> new_exists then (False, interrupted IFailed st1)
                          else (False, interrupted IManual st1)))"

fun recover_items :: "'w library_ops \<Rightarrow> rename_item list \<Rightarrow> 'w rename_state \<Rightarrow> bool \<times> 'w rename_state" where
  "recover_items ops [] st = (False, st)"
| "recover_items ops (it # its) st =
     (case recover_item ops it st of
        (True, st1) \<Rightarrow> (True, st1)
      | (False, st1) \<Rightarrow> recover_items ops its st1)"

definition recover_job :: "'w library_ops \<Rightarrow> int \<Rightarrow> 'w rename_state \<Rightarrow> bool \<times> 'w rename_state" where
  "recover_job ops j st =
     (case recover_items ops (list_running_items j st) st of
        (True, st1) \<Rightarrow> (True, st1)
      | (False, st1) \<Rightarrow> (False, refresh_job_counters j (update_job_status j JInterrupted st1)))"

text \<open>\<open>recover_interrupted_jobs\<close>: the number of jobs recovered, \<open>None\<close> when an exception ends it.\<close>

fun recover_jobs :: "'w library_ops \<Rightarrow> rename_env \<Rightarrow> rename_job list \<Rightarrow> nat \<Rightarrow> 'w rename_state \<Rightarrow> nat option \<times> 'w rename_state"
  where
  "recover_jobs ops ev [] n st = (Some n, st)"
| "recover_jobs ops ev (job # jobs) n st =
     (if rv_locked ev (job_lock_key (rj_id job)) then recover_jobs ops ev jobs n st
      else case recover_job ops (rj_id job) st of
             (True, st1) \<Rightarrow> (None, st1)
           | (False, st1) \<Rightarrow> recover_jobs ops ev jobs (Suc n) st1)"

definition recover_interrupted_jobs ::
  "'w library_ops \<Rightarrow> rename_env \<Rightarrow> 'w rename_state \<Rightarrow> nat option \<times> 'w rename_state" where
  "recover_interrupted_jobs ops ev st = recover_jobs ops ev (list_running_jobs st) 0 st"

end
