(* ===== verification/LibraryRenameProofs.thy ===== *)
theory LibraryRenameProofs
  imports LibraryRename
begin

text \<open>
  What renaming a library guarantees: whatever call fails at whatever moment, no run, rollback or recovery
  loses or overwrites a file; a job runs at most once; recovery settles every interrupted item; and a run that
  renames files inside their directories is undone exactly by its rollback. The first is proved for every storage that
  satisfies the laws of \<open>library_storage\<close> and stated for the local one.
\<close>

section \<open>No file is lost\<close>

lemma update_item_world [simp]: "rn_world (update_item i f st) = rn_world st"
  by (simp add: update_item_def)

lemma update_job_status_world [simp]: "rn_world (update_job_status j s st) = rn_world st"
  by (simp add: update_job_status_def)

lemma refresh_job_counters_world [simp]: "rn_world (refresh_job_counters j st) = rn_world st"
  by (simp add: refresh_job_counters_def)

lemma update_history_dest_world [simp]: "rn_world (update_history_dest p n p' n' c st) = rn_world st"
  by (simp add: update_history_dest_def)

lemma update_metadata_path_world [simp]: "rn_world (update_metadata_path b p p' n t st) = rn_world st"
  by (simp add: update_metadata_path_def)

lemma upsert_metadata_world [simp]: "rn_world (upsert_metadata m row st) = rn_world st"
  by (simp add: upsert_metadata_def Let_def split: option.splits)

lemma history_world [simp]:
  "rn_world (history_to_new it st) = rn_world st" "rn_world (history_to_old it st) = rn_world st"
  "rn_world (metadata_to_old it st) = rn_world st" "rn_world (fail_item i r st) = rn_world st"
  "rn_world (end_job j s st) = rn_world st"
  by (simp_all add: history_to_new_def history_to_old_def metadata_to_old_def fail_item_def end_job_def)

lemma cancel_job_world [simp]: "rn_world (snd (cancel_job j st)) = rn_world st"
  by (auto simp: cancel_job_def split: option.splits)

lemma poll_job_world: "poll_job ev j n st = (s, st') \<Longrightarrow> rn_world st' = rn_world st"
  by (auto simp: poll_job_def Let_def)

context library_storage begin

lemma try_move_keeps:
  assumes "good w" and "try_move ops b src d target w = (r, w')"
  shows "keeps w w'"
proof -
  obtain x w1 where e: "lb_exists ops b target w = (x, w1)" by force
  have k1: "keeps w w1" by (rule exists_keeps [OF assms(1) e])
  show ?thesis
  proof (cases "x = Some False")
    case True
    obtain u w2 where m: "lb_mkdir ops b d w1 = (u, w2)" by force
    have k2: "keeps w1 w2" by (rule mkdir_keeps [OF keeps_good [OF k1] m])
    obtain v w3 where mv: "lb_move ops b src target w2 = (v, w3)" by force
    have "keeps w w3" by (rule checked_move_keeps [OF assms(1) e [unfolded True] m mv])
    moreover have "keeps w w2" by (rule keeps_trans [OF k1 k2])
    moreover have "w' = w2 \<or> w' = w3" using assms(2) e True m mv by (cases u; cases v) (auto simp: try_move_def)
    ultimately show ?thesis by auto
  next
    case False
    with assms(2) e k1 show ?thesis by (cases x) (auto simp: try_move_def split: bool.splits)
  qed
qed

lemma move_entries_keeps:
  "good w \<Longrightarrow> move_entries ops b f d es w = (r, w') \<Longrightarrow> keeps w w'"
proof (induction es arbitrary: w r w')
  case (Cons e es)
  show ?case
  proof (cases "f e")
    case None
    with Cons show ?thesis by simp
  next
    case (Some n)
    obtain x w1 where t: "try_move ops b (fi_path e) d (os_join d n) w = (x, w1)" by force
    have k1: "keeps w w1" by (rule try_move_keeps [OF Cons.prems(1) t])
    obtain y w2 where m: "move_entries ops b f d es w1 = (y, w2)" by force
    have "keeps w1 w2" by (rule Cons.IH [OF keeps_good [OF k1] m])
    then have "keeps w w2" by (rule keeps_trans [OF k1])
    moreover have "w' = w1 \<or> w' = w2" using Cons.prems(2) Some t m by (cases x; cases y) auto
    ultimately show ?thesis using k1 by auto
  qed
qed simp

lemma move_aux_keeps:
  assumes "good w" and "move_aux ops b old new w = (r, w')"
  shows "keeps w w'"
proof -
  obtain x w1 where l: "lb_list ops b (lib_dirname old) w = (x, w1)" by force
  have k1: "keeps w w1" by (rule list_keeps [OF assms(1) l])
  show ?thesis
  proof (cases x)
    case None
    with assms(2) l k1 show ?thesis by (simp add: move_aux_def)
  next
    case (Some es)
    with assms(2) l have "move_entries ops b (aux_target (fst (splitext (lib_basename old))) (fst (splitext (lib_basename new))))
        (lib_dirname new) es w1 = (r, w')" by (simp add: move_aux_def)
    then show ?thesis using keeps_trans [OF k1 move_entries_keeps [OF keeps_good [OF k1]]] by blast
  qed
qed

lemma restore_keeps:
  assumes "good w" and "restore ops b main old new w = (r, w')"
  shows "keeps w w'"
proof -
  obtain x w1 where e1: "lb_exists ops b new w = (x, w1)" by force
  have k1: "keeps w w1" by (rule exists_keeps [OF assms(1) e1])
  obtain y w2 where e2: "lb_exists ops b old w1 = (y, w2)" by force
  have k2: "keeps w1 w2" by (rule exists_keeps [OF keeps_good [OF k1] e2])
  obtain u w3 where m: "lb_mkdir ops b (lib_dirname old) w2 = (u, w3)" by force
  have k3: "keeps w2 w3" by (rule mkdir_keeps [OF keeps_good [OF k2] m])
  obtain v w4 where mv: "lb_move ops b new old w3 = (v, w4)" by force
  show ?thesis
  proof (cases "x = Some True \<and> y = Some False")
    case True
    have "keeps w1 w4" by (rule checked_move_keeps [OF keeps_good [OF k1] _ m mv]) (use e2 True in simp)
    moreover have "w' = w3 \<or> w' = w4" using assms(2) e1 e2 m mv True by (cases u; cases v) (auto simp: restore_def)
    ultimately show ?thesis using k1 k2 k3 keeps_trans by blast
  next
    case False
    then have "w' = w1 \<or> w' = w2"
      using assms(2) e1 e2 by (cases x; cases y) (auto simp: restore_def split: if_splits)
    then show ?thesis using k1 k2 keeps_trans by blast
  qed
qed

lemma restore_aux_keeps: "good w \<Longrightarrow> restore_aux ops b ms w = (r, w') \<Longrightarrow> keeps w w'"
proof (induction ms arbitrary: w r w')
  case (Cons m ms)
  obtain old new where m: "m = (old, new)" by force
  obtain x w1 where r1: "restore ops b False old new w = (x, w1)" by force
  have k1: "keeps w w1" by (rule restore_keeps [OF Cons.prems(1) r1])
  obtain y w2 where r2: "restore_aux ops b ms w1 = (y, w2)" by force
  have "keeps w1 w2" by (rule Cons.IH [OF keeps_good [OF k1] r2])
  then have "keeps w w2" by (rule keeps_trans [OF k1])
  moreover have "w' = w1 \<or> w' = w2" using Cons.prems(2) m r1 r2 by (cases x; cases y) auto
  ultimately show ?case using k1 by auto
qed simp

lemma rollback_paths_keeps:
  assumes "good w" and "rollback_paths ops b old new aux w = (r, w')"
  shows "keeps w w'"
proof -
  obtain x w1 where r1: "restore_aux ops b (rev aux) w = (x, w1)" by force
  have k1: "keeps w w1" by (rule restore_aux_keeps [OF assms(1) r1])
  obtain y w2 where r2: "restore ops b True old new w1 = (y, w2)" by force
  have "keeps w1 w2" by (rule restore_keeps [OF keeps_good [OF k1] r2])
  then have "keeps w w2" by (rule keeps_trans [OF k1])
  moreover have "w' = w1 \<or> w' = w2" using assms(2) r1 r2 by (cases x; cases y) (auto simp: rollback_paths_def)
  ultimately show ?thesis using k1 by auto
qed

lemma check_item_keeps:
  assumes "good w" and "check_item ops it w = (r, w')"
  shows "keeps w w'"
proof -
  let ?b = "normalize_backend (ri_backend it)"
  obtain x w1 where s: "lb_stat ops ?b (norm_path (ri_old it)) w = (x, w1)" by force
  have k1: "keeps w w1" by (rule stat_keeps [OF assms(1) s])
  obtain y w2 where e: "lb_exists ops ?b (new_path_of it) w1 = (y, w2)" by force
  have "keeps w w2" by (rule keeps_trans [OF k1 exists_keeps [OF keeps_good [OF k1] e]])
  moreover have "w' = w \<or> w' = w1 \<or> w' = w2"
    using assms(2) s e by (cases x; cases y) (auto simp: check_item_def Let_def split: if_splits option.splits bool.splits)
  ultimately show ?thesis using k1 assms(1) by auto
qed

lemma attempt_keeps:
  assumes g: "good (rn_world st)" and free: "lb_exists ops (normalize_backend (ri_backend it)) (new_path_of it) w0 = (Some False, rn_world st)"
    "good w0" and a: "attempt ops it st = (r, st')"
  shows "keeps (rn_world st) (rn_world st')"
proof -
  let ?b = "normalize_backend (ri_backend it)" and ?old = "norm_path (ri_old it)" and ?new = "new_path_of it"
  let ?w = "rn_world st"
  have files: "files ?w = files w0" using exists_law [OF free(2,1)] by simp
  obtain u w1 where m: "lb_mkdir ops ?b (lib_dirname ?new) ?w = (u, w1)" by force
  have k1: "keeps ?w w1" by (rule mkdir_keeps [OF g m])
  obtain v w2 where mv: "lb_move ops ?b ?old ?new w1 = (v, w2)" by force
  have k2: "keeps ?w w2" using checked_move_keeps [OF free(2,1) m mv] files by (simp add: keeps_def)
  obtain x w3 where ax: "move_aux ops ?b ?old ?new w2 = (x, w3)" by force
  have k3: "keeps ?w w3" by (rule keeps_trans [OF k2 move_aux_keeps [OF keeps_good [OF k2] ax]])
  obtain y w4 where s1: "lb_stat ops ?b ?new w3 = (y, w4)" by force
  have k4: "keeps ?w w4" by (rule keeps_trans [OF k3 stat_keeps [OF keeps_good [OF k3] s1]])
  obtain z w5 where s2: "lb_stat ops ?b ?new w4 = (z, w5)" by force
  have k5: "keeps ?w w5" by (rule keeps_trans [OF k4 stat_keeps [OF keeps_good [OF k4] s2]])
  have "rn_world st' \<in> {w1, w2, w3, w4, w5}"
    using a m mv ax s1 s2 by (cases u; cases v; cases x; cases y; cases z) (auto simp: attempt_def Let_def)
  then show ?thesis using k1 k2 k3 k4 k5 by auto
qed

lemma undo_item_keeps:
  assumes "good (rn_world st)" and "undo_item ops it aux st = (r, st')"
  shows "keeps (rn_world st) (rn_world st')"
proof -
  obtain x w1 where p: "rollback_paths ops (normalize_backend (ri_backend it)) (norm_path (ri_old it)) (new_path_of it) aux
      (rn_world st) = (x, w1)" by force
  from rollback_paths_keeps [OF assms(1) p] assms(2) p show ?thesis
    by (cases x) (auto simp: undo_item_def Let_def)
qed

lemma execute_item_keeps:
  assumes g: "good (rn_world st)" and e: "execute_item ops ev it st = (r, st')"
  shows "keeps (rn_world st) (rn_world st')"
proof -
  let ?w = "rn_world st"
  let ?b = "normalize_backend (ri_backend it)" and ?new = "new_path_of it"
  obtain x w1 where c: "check_item ops it ?w = (x, w1)" by force
  have k1: "keeps ?w w1" by (rule check_item_keeps [OF g c])
  obtain y w2 where ex: "lb_exists ops ?b ?new w1 = (y, w2)" by force
  have k2: "keeps w1 w2" by (rule exists_keeps [OF keeps_good [OF k1] ex])
  let ?st1 = "st\<lparr>rn_world := w1\<rparr>" and ?st2 = "st\<lparr>rn_world := w1, rn_world := w2\<rparr>"
  let ?run = "update_item (ri_id it) (\<lambda>x. x\<lparr>ri_status := IRunning\<rparr>) ?st2"
  obtain a st3 where at: "attempt ops it ?run = (a, st3)" by force
  consider "rn_world st' = w1" | "rn_world st' = w2" | "y = None" "undo_item ops it [] ?st2 = (r, st')"
    | aux where "y = Some False" "a = Inl aux" "undo_item ops it aux st3 = (r, st')"
    | "y = Some False" "rn_world st' = rn_world st3"
    using e c ex at by (cases x; cases y; cases a)
      (auto simp: execute_item_def Let_def split: option.splits if_splits bool.splits)
  then show ?thesis
  proof cases
    case 3
    from undo_item_keeps [OF _ this(2)] keeps_trans [OF k1 k2] keeps_good [OF k2] show ?thesis
      by (simp add: keeps_def)
  next
    case (4 aux)
    have "keeps w2 (rn_world st3)"
      using attempt_keeps [of ?run it w1 a st3] keeps_good [OF k2] keeps_good [OF k1] ex 4(1) at by simp
    moreover from this have "keeps (rn_world st3) (rn_world st')" using undo_item_keeps [OF _ 4(3)] keeps_good by blast
    ultimately show ?thesis using keeps_trans [OF k1 k2] keeps_trans by blast
  next
    case 5
    have "keeps w2 (rn_world st3)"
      using attempt_keeps [of ?run it w1 a st3] keeps_good [OF k2] keeps_good [OF k1] ex 5(1) at by simp
    then show ?thesis using keeps_trans [OF k1 k2] keeps_trans 5(2) by simp
  qed (use k1 keeps_trans [OF k1 k2] in simp_all)
qed

lemma finish_group_keeps:
  assumes g: "good (rn_world st)" and f: "finish_group ops old_dir its st = (r, st')"
  shows "keeps (rn_world st) (rn_world st')"
proof -
  let ?b = "normalize_backend (ri_backend (hd its))" and ?w = "rn_world st"
  let ?new = "hd (remdups (map (\<lambda>it. dirname (new_path_of it)) its))"
  obtain x w1 where l: "lb_list ops ?b old_dir ?w = (x, w1)" by force
  have k1: "keeps ?w w1" by (rule list_keeps [OF g l])
  obtain y w2 where m: "move_entries ops ?b asset_target ?new (case x of None \<Rightarrow> [] | Some es \<Rightarrow> es) w1 = (y, w2)" by force
  have k2: "keeps ?w w2" by (rule keeps_trans [OF k1 move_entries_keeps [OF keeps_good [OF k1] m]])
  obtain z w3 where l2: "lb_list ops ?b old_dir w2 = (z, w3)" by force
  have k3: "keeps ?w w3" by (rule keeps_trans [OF k2 list_keeps [OF keeps_good [OF k2] l2]])
  obtain v w4 where rm: "lb_remove ops ?b old_dir w3 = (v, w4)" by force
  have k4: "z = Some [] \<Longrightarrow> keeps ?w w4"
    using keeps_trans [OF k2 remove_keeps [OF keeps_good [OF k2] _ rm]] l2 by blast
  consider "rn_world st' = ?w" | "rn_world st' = w1" | "rn_world st' = w2" | "rn_world st' = w3"
    | "z = Some []" "rn_world st' = w4"
    using f l m l2 rm
    by (cases x; cases y; cases z; cases "the z") (auto simp: finish_group_def Let_def split: if_splits)
  then show ?thesis using k1 k2 k3 k4 g by cases auto
qed

lemma finish_directory_assets_keeps:
  "good (rn_world st) \<Longrightarrow> keeps (rn_world st) (rn_world (finish_directory_assets ops groups st))"
proof (induction groups arbitrary: st)
  case (Cons grp groups)
  obtain old_dir its where grp: "grp = (old_dir, its)" by force
  obtain r st1 where f: "finish_group ops old_dir its st = (r, st1)" by force
  have k: "keeps (rn_world st) (rn_world st1)" by (rule finish_group_keeps [OF Cons.prems f])
  show ?case
  proof (cases r)
    case False
    have "keeps (rn_world st1) (rn_world (finish_directory_assets ops groups st1))"
      by (rule Cons.IH [OF keeps_good [OF k]])
    with grp f False keeps_trans [OF k] show ?thesis by simp
  qed (use grp f k in simp)
qed simp

lemma run_items_keeps:
  "good (rn_world st) \<Longrightarrow> run_items ops ev j n its st = (r, st') \<Longrightarrow> keeps (rn_world st) (rn_world st')"
proof (induction its arbitrary: n st)
  case (Cons it its)
  obtain s st1 where p: "poll_job ev j n st = (s, st1)" by force
  note w1 = poll_job_world [OF p]
  obtain q st2 where e: "execute_item ops ev it st1 = (q, st2)" by force
  have k: "keeps (rn_world st) (rn_world st2)" using execute_item_keeps [OF _ e] Cons.prems(1) w1 by simp
  show ?case
  proof (cases "(s = Some JCancelling \<or> s = Some JCancelled) \<or> q \<or> \<not> rv_extend ev n")
    case True
    then have "st' = st1 \<or> st' = st2" using Cons.prems(2) p e by (auto split: if_splits bool.splits)
    then show ?thesis using k w1 Cons.prems(1) by auto
  next
    case False
    then have "run_items ops ev j (Suc n) its st2 = (r, st')" using Cons.prems(2) p e by simp
    from Cons.IH [OF keeps_good [OF k] this] show ?thesis by (rule keeps_trans [OF k])
  qed
qed simp

lemma run_job_keeps:
  assumes g: "good (rn_world st)"
  shows "keeps (rn_world st) (rn_world (run_job ops ev j st))"
proof -
  obtain r st1 where r: "run_items ops ev j 0 (list_planned_items j st) (update_job_status j JRunning st) = (r, st1)"
    by force
  have k1: "keeps (rn_world st) (rn_world st1)" using run_items_keeps [OF _ r] g by simp
  let ?st2 = "finish_directory_assets ops (directory_groups (list_all_items j st1)) st1"
  have k2: "keeps (rn_world st) (rn_world ?st2)"
    by (rule keeps_trans [OF k1 finish_directory_assets_keeps [OF keeps_good [OF k1]]])
  obtain s st3 where p: "poll_job ev j (length (list_planned_items j st)) ?st2 = (s, st3)" by force
  note w3 = poll_job_world [OF p]
  show ?thesis
    using r p w3 k1 k2 g by (cases r) (auto simp: run_job_def Let_def split: option.splits)
qed

lemma rollback_item_keeps:
  assumes "good (rn_world st)" and "rollback_item ops it st = (r, st')"
  shows "keeps (rn_world st) (rn_world st')"
proof -
  obtain x w1 where p: "rollback_paths ops (normalize_backend (ri_backend it)) (norm_path (ri_old it)) (new_path_of it)
      (ri_aux it) (rn_world st) = (x, w1)" by force
  from rollback_paths_keeps [OF assms(1) p] assms p show ?thesis
    by (cases x) (auto simp: rollback_item_def Let_def split: if_splits)
qed

lemma rollback_items_keeps:
  "good (rn_world st) \<Longrightarrow> rollback_items ops its c st = (r, st') \<Longrightarrow> keeps (rn_world st) (rn_world st')"
proof (induction its arbitrary: c st)
  case (Cons it its)
  obtain a b where c: "c = (a, b)" by force
  show ?case
  proof (cases "ri_status it = IDone")
    case True
    obtain x st1 where i: "rollback_item ops it st = (x, st1)" by force
    have k: "keeps (rn_world st) (rn_world st1)" by (rule rollback_item_keeps [OF Cons.prems(1) i])
    show ?thesis
    proof (cases x)
      case None
      with Cons.prems(2) True i k c show ?thesis by simp
    next
      case (Some ok)
      then have "rollback_items ops its (if ok then (Suc a, b) else (a, Suc b)) st1 = (r, st')"
        using Cons.prems(2) True i c by simp
      from Cons.IH [OF keeps_good [OF k] this] show ?thesis by (rule keeps_trans [OF k])
    qed
  next
    case False
    with Cons.prems c Cons.IH show ?thesis by simp
  qed
qed simp

lemma rollback_job_keeps:
  assumes g: "good (rn_world st)"
  shows "keeps (rn_world st) (rn_world (snd (rollback_job ops ev j st)))"
proof -
  obtain r st1 where r: "rollback_items ops (list_done_items j st) (0, 0) st = (r, st1)" by force
  from rollback_items_keeps [OF g r] r g show ?thesis
    by (cases r) (auto simp: rollback_job_def split: option.splits)
qed

lemma recover_item_keeps:
  assumes g: "good (rn_world st)" and r: "recover_item ops it st = (q, st')"
  shows "keeps (rn_world st) (rn_world st')"
proof -
  let ?b = "normalize_backend (ri_backend it)" and ?w = "rn_world st"
  obtain x w1 where e1: "lb_exists ops ?b (norm_path (ri_old it)) ?w = (x, w1)" by force
  have k1: "keeps ?w w1" by (rule exists_keeps [OF g e1])
  obtain y w2 where e2: "lb_exists ops ?b (new_path_of it) w1 = (y, w2)" by force
  have k2: "keeps ?w w2" by (rule keeps_trans [OF k1 exists_keeps [OF keeps_good [OF k1] e2]])
  obtain z w3 where s: "lb_stat ops ?b (new_path_of it) w2 = (z, w3)" by force
  have k3: "keeps ?w w3" by (rule keeps_trans [OF k2 stat_keeps [OF keeps_good [OF k2] s]])
  have "rn_world st' \<in> {?w, w1, w2, w3}"
    using r e1 e2 s by (cases x; cases y; cases z) (auto simp: recover_item_def Let_def split: if_splits)
  then show ?thesis using k1 k2 k3 g by auto
qed

lemma recover_items_keeps:
  "good (rn_world st) \<Longrightarrow> recover_items ops its st = (q, st') \<Longrightarrow> keeps (rn_world st) (rn_world st')"
proof (induction its arbitrary: st)
  case (Cons it its)
  obtain x st1 where i: "recover_item ops it st = (x, st1)" by force
  have k: "keeps (rn_world st) (rn_world st1)" by (rule recover_item_keeps [OF Cons.prems(1) i])
  show ?case
  proof (cases x)
    case False
    then have "recover_items ops its st1 = (q, st')" using Cons.prems(2) i by simp
    from Cons.IH [OF keeps_good [OF k] this] show ?thesis by (rule keeps_trans [OF k])
  qed (use Cons.prems(2) i k in simp)
qed simp

lemma recover_job_keeps:
  assumes g: "good (rn_world st)" and r: "recover_job ops j st = (q, st')"
  shows "keeps (rn_world st) (rn_world st')"
proof -
  obtain x st1 where i: "recover_items ops (list_running_items j st) st = (x, st1)" by force
  from recover_items_keeps [OF g i] r i show ?thesis by (cases x) (auto simp: recover_job_def)
qed

lemma recover_jobs_keeps:
  "good (rn_world st) \<Longrightarrow> recover_jobs ops ev jobs n st = (q, st') \<Longrightarrow> keeps (rn_world st) (rn_world st')"
proof (induction jobs arbitrary: n st)
  case (Cons job jobs)
  show ?case
  proof (cases "rv_locked ev (job_lock_key (rj_id job))")
    case False
    obtain x st1 where i: "recover_job ops (rj_id job) st = (x, st1)" by force
    have k: "keeps (rn_world st) (rn_world st1)" by (rule recover_job_keeps [OF Cons.prems(1) i])
    show ?thesis
    proof (cases x)
      case False
      then have "recover_jobs ops ev jobs (Suc n) st1 = (q, st')"
        using Cons.prems(2) i \<open>\<not> rv_locked ev _\<close> by simp
      from Cons.IH [OF keeps_good [OF k] this] show ?thesis by (rule keeps_trans [OF k])
    qed (use Cons.prems(2) i k False in simp)
  qed (use Cons in simp)
qed simp

end

section \<open>The calls of the service\<close>

text \<open>What a client or the start of the process does, with what the other processes do meanwhile.\<close>

datatype rename_call =
    CExecute rename_env int string | CCancel int | CRollback rename_env int | CRecover rename_env

fun rename_step :: "'w library_ops \<Rightarrow> rename_call \<Rightarrow> 'w rename_state \<Rightarrow> 'w rename_state" where
  "rename_step ops (CExecute ev now plan) st = (case execute_plan ops ev now plan st of Inl _ \<Rightarrow> st | Inr st' \<Rightarrow> st')"
| "rename_step ops (CCancel j) st = snd (cancel_job j st)"
| "rename_step ops (CRollback ev j) st = snd (rollback_job ops ev j st)"
| "rename_step ops (CRecover ev) st = snd (recover_interrupted_jobs ops ev st)"

definition rename_run :: "'w library_ops \<Rightarrow> rename_call list \<Rightarrow> 'w rename_state \<Rightarrow> 'w rename_state" where
  "rename_run ops calls st = fold (rename_step ops) calls st"

context library_storage begin

lemma rename_step_keeps:
  assumes "good (rn_world st)"
  shows "keeps (rn_world st) (rn_world (rename_step ops c st))"
proof (cases c)
  case (CExecute ev now plan)
  with assms run_job_keeps [OF assms] show ?thesis
    by (auto simp: execute_plan_def split: option.splits)
next
  case (CRecover ev)
  with recover_jobs_keeps [OF assms] show ?thesis
    by (cases "recover_jobs ops ev (list_running_jobs st) 0 st") (auto simp: recover_interrupted_jobs_def)
qed (use assms rollback_job_keeps in simp_all)

lemma rename_run_keeps: "good (rn_world st) \<Longrightarrow> keeps (rn_world st) (rn_world (rename_run ops calls st))"
proof (induction calls arbitrary: st)
  case (Cons c calls)
  have k: "keeps (rn_world st) (rn_world (rename_step ops c st))" by (rule rename_step_keeps [OF Cons.prems])
  from Cons.IH [OF keeps_good [OF k]] show ?case by (simp add: rename_run_def keeps_trans [OF k])
qed (simp add: rename_run_def)

end

text \<open>C3: Whatever sequence of runs, cancellations, rollbacks and recoveries is made, and whichever calls of the storage
  fail, the library holds the same file contents afterwards: nothing is lost and nothing overwritten.\<close>

theorem rename_loses_no_file:
  assumes "disk_inv (rn_world st)"
  shows "contents (disk_files (rn_world (rename_run (local_ops faults known) calls st))) = contents (disk_files (rn_world st))"
  using local_disk.rename_run_keeps [OF assms] by (simp add: local_disk.keeps_def)

definition demo_disk :: disk where
  "demo_disk = \<lparr>dk_nodes = [((''local'', [''m'']), Directory), ((''local'', [''m'', ''a.mkv'']), Regular ''video'' 1 0),
     ((''local'', [''m'', ''a.srt'']), Regular ''subtitle'' 2 0), ((''local'', [''m'', ''a.nfo'']), Regular ''notes'' 3 0)],
     dk_calls = 0\<rparr>"

definition demo_rename_item :: rename_item where
  "demo_rename_item = \<lparr>ri_id = 1, ri_job = 1, ri_backend = [], ri_root = ''/m'', ri_old = ''/m/a.mkv'', ri_new = Some ''/m/b.mkv'',
     ri_size = Some 1, ri_mtime = Some 0, ri_snapshot = None, ri_action = ARename, ri_status = IPlanned, ri_aux = [],
     ri_reason = None, ri_error = None, ri_rollback = None\<rparr>"

definition demo_rename :: "disk rename_state" where
  "demo_rename = \<lparr>rn_world = demo_disk,
     rn_jobs = [\<lparr>rj_id = 1, rj_plan = ''p'', rj_status = JPlanned, rj_created = Some 0, rj_counters = None\<rparr>],
     rn_items = [demo_rename_item], rn_history = [], rn_meta = []\<rparr>"

definition calm_env :: rename_env where
  "calm_env = \<lparr>rv_locked = (\<lambda>_. False), rv_extend = (\<lambda>_. True), rv_cancel = (\<lambda>_. False)\<rparr>"

lemma demo_disk_inv: "disk_inv demo_disk"
  by code_simp

theorem rename_loses_no_file_witness:
  "contents (disk_files (rn_world (rename_run (local_ops (\<lambda>n. n = 7) (\<lambda>_. True))
     [CExecute calm_env 60 ''p'', CRollback calm_env 1] demo_rename))) =
   {#Regular ''video'' 1 0, Regular ''subtitle'' 2 0, Regular ''notes'' 3 0#}"
proof -
  have "contents (disk_files demo_disk) = {#Regular ''video'' 1 0, Regular ''subtitle'' 2 0, Regular ''notes'' 3 0#}"
    unfolding contents_nodes [OF demo_disk_inv] by (simp add: regular_nodes_def demo_disk_def)
  moreover have "rn_world demo_rename = demo_disk" by (simp add: demo_rename_def)
  ultimately show ?thesis
    using rename_loses_no_file [of demo_rename "\<lambda>n. n = 7" "\<lambda>_. True" "[CExecute calm_env 60 ''p'', CRollback calm_env 1]"]
      demo_disk_inv by simp
qed

section \<open>Moves that a rollback does not know\<close>

text \<open>A subtitle has followed its video when the test for the next file raises. The list of moves made so far is
  lost with the exception: the item counts as failed and rolled back, and the subtitle keeps its new name.\<close>

theorem interrupted_aux_not_undone:
  "let st = rename_run (local_ops (\<lambda>n. n = 9) (\<lambda>_. True)) [CExecute calm_env 60 ''p''] demo_rename
   in map ri_status (rn_items st) = [IFailed] \<and> map ri_rollback (rn_items st) = [Some ''done''] \<and>
      node_at (rn_world st) (''local'', [''m'', ''a.mkv'']) = Some (Regular ''video'' 1 0) \<and>
      node_at (rn_world st) (''local'', [''m'', ''a.srt'']) = None \<and>
      node_at (rn_world st) (''local'', [''m'', ''b.srt'']) = Some (Regular ''subtitle'' 2 0)"
  by code_simp

section \<open>What a call may touch\<close>

text \<open>From \<open>st\<close> to \<open>st'\<close> only items with ids in \<open>I\<close> and jobs with ids in \<open>J\<close> change, and none loses its id.\<close>

definition touches :: "int set \<Rightarrow> int set \<Rightarrow> 'w rename_state \<Rightarrow> 'w rename_state \<Rightarrow> bool" where
  "touches I J st st' \<longleftrightarrow>
     (\<exists>g. rn_items st' = map g (rn_items st) \<and>
        (\<forall>x. ri_id (g x) = ri_id x \<and> ri_job (g x) = ri_job x \<and> (ri_id x \<notin> I \<longrightarrow> g x = x))) \<and>
     (\<exists>h. rn_jobs st' = map h (rn_jobs st) \<and> (\<forall>r. rj_id (h r) = rj_id r \<and> (rj_id r \<notin> J \<longrightarrow> h r = r)))"

lemma touches_refl: "rn_items st' = rn_items st \<Longrightarrow> rn_jobs st' = rn_jobs st \<Longrightarrow> touches I J st st'"
  unfolding touches_def by (intro conjI exI [of _ id]) simp_all

lemma touches_trans:
  assumes "touches I J st st'" and "touches I J st' st''"
  shows "touches I J st st''"
proof -
  from assms obtain g h g' h' where
    g: "rn_items st' = map g (rn_items st)" "\<forall>x. ri_id (g x) = ri_id x \<and> ri_job (g x) = ri_job x \<and> (ri_id x \<notin> I \<longrightarrow> g x = x)"
    and h: "rn_jobs st' = map h (rn_jobs st)" "\<forall>r. rj_id (h r) = rj_id r \<and> (rj_id r \<notin> J \<longrightarrow> h r = r)"
    and g': "rn_items st'' = map g' (rn_items st')"
      "\<forall>x. ri_id (g' x) = ri_id x \<and> ri_job (g' x) = ri_job x \<and> (ri_id x \<notin> I \<longrightarrow> g' x = x)"
    and h': "rn_jobs st'' = map h' (rn_jobs st')" "\<forall>r. rj_id (h' r) = rj_id r \<and> (rj_id r \<notin> J \<longrightarrow> h' r = r)"
    unfolding touches_def by blast
  show ?thesis unfolding touches_def
    by (intro conjI exI [of _ "g' \<circ> g"] exI [of _ "h' \<circ> h"]) (use g h g' h' in simp_all)
qed

lemma touches_mono: "touches I J st st' \<Longrightarrow> I \<subseteq> I' \<Longrightarrow> J \<subseteq> J' \<Longrightarrow> touches I' J' st st'"
  unfolding touches_def by blast

lemma touches_item:
  assumes "i \<in> I" and "\<And>x. ri_id (f x) = ri_id x \<and> ri_job (f x) = ri_job x"
  shows "touches I J st (update_item i f st)"
  unfolding touches_def
  by (intro conjI exI [of _ "\<lambda>it. if ri_id it = i then f it else it"] exI [of _ id])
    (use assms in \<open>auto simp: update_item_def\<close>)

lemma touches_job: "j \<in> J \<Longrightarrow> touches I J st (update_job_status j s st)"
  unfolding touches_def
  by (intro conjI exI [of _ "\<lambda>r. if rj_id r = j then r\<lparr>rj_status := s\<rparr> else r"] exI [of _ id])
    (auto simp: update_job_status_def)

lemma touches_counters: "j \<in> J \<Longrightarrow> touches I J st (refresh_job_counters j st)"
  unfolding touches_def refresh_job_counters_def
  by (intro conjI exI [of _ id] exI [of _ "\<lambda>r. if rj_id r = j
          then r\<lparr>rj_counters := Some (job_counters (filter (\<lambda>it. ri_job it = j) (rn_items st)))\<rparr> else r"]) auto

text \<open>The files, the history and the metadata are other tables.\<close>

lemma tables_apart [simp]:
  "rn_items (update_history_dest p n p' n' c st) = rn_items st" "rn_jobs (update_history_dest p n p' n' c st) = rn_jobs st"
  "rn_items (update_metadata_path b p p' m t st) = rn_items st" "rn_jobs (update_metadata_path b p p' m t st) = rn_jobs st"
  by (simp_all add: update_history_dest_def update_metadata_path_def)

lemma upsert_apart [simp]: "rn_items (upsert_metadata m row st) = rn_items st" "rn_jobs (upsert_metadata m row st) = rn_jobs st"
  by (simp_all add: upsert_metadata_def Let_def split: option.splits)

lemma history_apart [simp]:
  "rn_items (history_to_new it st) = rn_items st" "rn_jobs (history_to_new it st) = rn_jobs st"
  "rn_items (history_to_old it st) = rn_items st" "rn_jobs (history_to_old it st) = rn_jobs st"
  "rn_items (metadata_to_old it st) = rn_items st" "rn_jobs (metadata_to_old it st) = rn_jobs st"
  by (simp_all add: history_to_new_def history_to_old_def metadata_to_old_def)

lemma fail_item_touches: "touches {i} J st (fail_item i reason st)"
  unfolding fail_item_def by (rule touches_item) auto

lemma touches_world: "touches I J (st\<lparr>rn_world := w\<rparr>) st' \<longleftrightarrow> touches I J st st'"
  unfolding touches_def by simp

lemma attempt_touches:
  assumes "attempt ops it st = (r, st')"
  shows "rn_items st' = rn_items st \<and> rn_jobs st' = rn_jobs st"
  using assms unfolding attempt_def Let_def by (auto split: prod.splits option.splits)

lemma undo_item_touches:
  assumes "undo_item ops it aux st = (r, st')"
  shows "touches {ri_id it} J st st'"
proof -
  obtain x w where p: "rollback_paths ops (normalize_backend (ri_backend it)) (norm_path (ri_old it)) (new_path_of it) aux
      (rn_world st) = (x, w)" by force
  let ?st1 = "(metadata_to_old it (history_to_old it st))\<lparr>rn_world := w\<rparr>"
  have t: "touches {ri_id it} J st ?st1" by (rule touches_refl) simp_all
  show ?thesis
  proof (cases x)
    case None
    with assms p t show ?thesis by (simp add: undo_item_def Let_def)
  next
    case (Some ok)
    have "touches {ri_id it} J ?st1 st'"
      using assms p Some by (auto simp: undo_item_def Let_def intro!: touches_item)
    with t show ?thesis by (rule touches_trans)
  qed
qed

lemma execute_item_touches:
  assumes e: "execute_item ops ev it st = (r, st')"
  shows "touches {ri_id it} J st st'"
proof -
  let ?b = "normalize_backend (ri_backend it)" and ?new = "new_path_of it"
  obtain x w1 where c: "check_item ops it (rn_world st) = (x, w1)" by force
  obtain y w2 where ex: "lb_exists ops ?b ?new w1 = (y, w2)" by force
  let ?st2 = "st\<lparr>rn_world := w1, rn_world := w2\<rparr>"
  let ?run = "update_item (ri_id it) (\<lambda>x. x\<lparr>ri_status := IRunning\<rparr>) ?st2"
  obtain a st3 where at: "attempt ops it ?run = (a, st3)" by force
  have run: "touches {ri_id it} J st ?run"
    by (rule touches_trans [OF touches_refl touches_item]) auto
  have t3: "touches {ri_id it} J st st3"
    by (rule touches_trans [OF run touches_refl]) (use attempt_touches [OF at] in auto)
  consider "rn_items st' = rn_items st" "rn_jobs st' = rn_jobs st"
    | reason w where "st' = fail_item (ri_id it) reason (st\<lparr>rn_world := w\<rparr>)"
    | "undo_item ops it [] ?st2 = (r, st')"
    | aux where "undo_item ops it aux st3 = (r, st')"
    | aux where "st' = update_item (ri_id it) (\<lambda>x. x\<lparr>ri_status := IDone, ri_new := Some ?new, ri_aux := aux\<rparr>) st3"
    using e c ex at by (cases x; cases y; cases a)
      (auto simp: execute_item_def Let_def split: option.splits if_splits bool.splits)
  then show ?thesis
  proof cases
    case 1
    then show ?thesis by (rule touches_refl)
  next
    case 2
    with fail_item_touches [of "ri_id it" J "st\<lparr>rn_world := w\<rparr>" reason for w reason] show ?thesis
      by (simp add: touches_world)
  next
    case 3
    from undo_item_touches [OF this, of J] show ?thesis by (simp add: touches_world)
  next
    case 4
    then show ?thesis by (rule touches_trans [OF t3 undo_item_touches])
  next
    case (5 aux)
    have "touches {ri_id it} J st3 st'" unfolding 5 by (rule touches_item) auto
    then show ?thesis by (rule touches_trans [OF t3])
  qed
qed

lemma cancel_job_touches: "touches I {j} st (snd (cancel_job j st))"
  by (auto simp: cancel_job_def intro: touches_refl touches_job split: option.splits)

lemma poll_job_touches: "poll_job ev j n st = (s, st') \<Longrightarrow> touches I {j} st st'"
  by (auto simp: poll_job_def Let_def intro: touches_refl cancel_job_touches split: if_splits)

lemma run_items_touches:
  "run_items ops ev j n its st = (r, st') \<Longrightarrow> ri_id ` set its \<subseteq> I \<Longrightarrow> touches I {j} st st'"
proof (induction its arbitrary: n st)
  case Nil
  then show ?case by (auto intro: touches_refl)
next
  case (Cons it its)
  obtain s st1 where p: "poll_job ev j n st = (s, st1)" by force
  have t1: "touches I {j} st st1" by (rule poll_job_touches [OF p])
  obtain q st2 where e: "execute_item ops ev it st1 = (q, st2)" by force
  have "touches I {j} st1 st2" by (rule touches_mono [OF execute_item_touches [OF e]]) (use Cons.prems(2) in auto)
  then have t2: "touches I {j} st st2" by (rule touches_trans [OF t1])
  show ?case
  proof (cases "(s = Some JCancelling \<or> s = Some JCancelled) \<or> q \<or> \<not> rv_extend ev n")
    case True
    then have "st' = st1 \<or> st' = st2" using Cons.prems(1) p e by (auto split: if_splits bool.splits)
    then show ?thesis using t1 t2 by auto
  next
    case False
    then have "run_items ops ev j (Suc n) its st2 = (r, st')" using Cons.prems(1) p e by simp
    from Cons.IH [OF this] Cons.prems(2) show ?thesis by (auto intro: touches_trans [OF t2])
  qed
qed

text \<open>The groups of the emptied directories hold items of the list, and none is empty.\<close>

definition good_groups :: "rename_item set \<Rightarrow> (string, rename_item list) dict \<Rightarrow> bool" where
  "good_groups S ds \<longleftrightarrow> (\<forall>(k, v) \<in> set ds. v \<noteq> [] \<and> set v \<subseteq> S)"

lemma good_groups_put:
  assumes "good_groups S ds" and "x \<in> S"
  shows "good_groups S (dput k (get_or ds k [] @ [x]) ds)"
proof -
  have "set (get_or ds k []) \<subseteq> S"
  proof (cases "dget ds k")
    case (Some u)
    with assms(1) map_of_SomeD [OF Some] show ?thesis by (auto simp: get_or_def good_groups_def)
  qed (simp add: get_or_def)
  with assms(2) have new: "set (get_or ds k [] @ [x]) \<subseteq> S" by simp
  show ?thesis unfolding good_groups_def
  proof (clarify)
    fix k' v assume "(k', v) \<in> set (dput k (get_or ds k [] @ [x]) ds)"
    with set_dput_subset consider "v = get_or ds k [] @ [x]" | "(k', v) \<in> set ds" by fastforce
    then show "v \<noteq> [] \<and> set v \<subseteq> S"
    proof cases
      case 1
      with new show ?thesis by simp
    next
      case 2
      with assms(1) show ?thesis unfolding good_groups_def by blast
    qed
  qed
qed

lemma directory_groups_items:
  assumes "(d, v) \<in> set (directory_groups its)"
  shows "v \<noteq> [] \<and> set v \<subseteq> set its"
proof -
  let ?f = "\<lambda>it d. if ri_action it \<noteq> ARename \<or> ri_new it = None \<or> ri_new it = Some [] then d
             else dput (lib_dirname (ri_old it)) (get_or d (lib_dirname (ri_old it)) [] @ [it]) d"
  have "good_groups S (fold ?f xs ds)" if "set xs \<subseteq> S" "good_groups S ds" for xs ds S
    using that
  proof (induction xs arbitrary: ds)
    case (Cons x xs)
    have "good_groups S (?f x ds)" using Cons.prems good_groups_put [of S ds x] by simp
    with Cons.IH [of "?f x ds"] Cons.prems(1) show ?case by simp
  qed simp
  from this [of its "set its" "[]"] have "good_groups (set its) (directory_groups its)"
    by (simp add: directory_groups_def good_groups_def)
  with assms show ?thesis unfolding good_groups_def by blast
qed

lemma finish_group_touches:
  assumes f: "finish_group ops old_dir its st = (r, st')" and "its \<noteq> []"
  shows "touches (ri_id ` set its) J st st'"
proof -
  have "rn_items st' = rn_items st \<and> rn_jobs st' = rn_jobs st \<or>
      (\<exists>w v m. st' = update_item (ri_id (hd its)) (\<lambda>x. x\<lparr>ri_aux := m\<rparr>) (st\<lparr>rn_world := w\<rparr>)\<lparr>rn_world := v\<rparr>)"
    using f by (auto simp: finish_group_def Let_def update_item_def split: if_splits prod.splits option.splits list.splits)
  then consider "touches (ri_id ` set its) J st st'"
    | w v m where "st' = update_item (ri_id (hd its)) (\<lambda>x. x\<lparr>ri_aux := m\<rparr>) (st\<lparr>rn_world := w\<rparr>)\<lparr>rn_world := v\<rparr>"
    by (auto intro: touches_refl)
  then show ?thesis
  proof cases
    case 2
    have "touches (ri_id ` set its) J (st\<lparr>rn_world := w\<rparr>) (update_item (ri_id (hd its)) (\<lambda>x. x\<lparr>ri_aux := m\<rparr>) (st\<lparr>rn_world := w\<rparr>))"
      by (rule touches_item) (use assms(2) in auto)
    then have "touches (ri_id ` set its) J st (update_item (ri_id (hd its)) (\<lambda>x. x\<lparr>ri_aux := m\<rparr>) (st\<lparr>rn_world := w\<rparr>))"
      by (simp add: touches_world)
    from touches_trans [OF this touches_refl] 2 show ?thesis by simp
  qed
qed

lemma finish_directory_assets_touches:
  "\<forall>(d, v) \<in> set groups. v \<noteq> [] \<and> ri_id ` set v \<subseteq> I \<Longrightarrow> touches I J st (finish_directory_assets ops groups st)"
proof (induction groups arbitrary: st)
  case (Cons grp groups)
  obtain d v where grp: "grp = (d, v)" by force
  obtain r st1 where f: "finish_group ops d v st = (r, st1)" by force
  have t: "touches I J st st1"
    by (rule touches_mono [OF finish_group_touches [OF f]]) (use Cons.prems grp in auto)
  show ?case
  proof (cases r)
    case False
    have "touches I J st1 (finish_directory_assets ops groups st1)" by (rule Cons.IH) (use Cons.prems in auto)
    from touches_trans [OF t this] grp f False show ?thesis by simp
  qed (use grp f t in simp)
qed (auto intro: touches_refl)

text \<open>The ids of the items of a job, which no call changes.\<close>

definition job_ids :: "int \<Rightarrow> 'w rename_state \<Rightarrow> int set" where
  "job_ids j st = ri_id ` {it \<in> set (rn_items st). ri_job it = j}"

lemma job_ids_touches: "touches I J st st' \<Longrightarrow> job_ids j st' = job_ids j st"
  unfolding touches_def job_ids_def by (auto simp: image_iff) metis+

lemma listed_ids:
  "ri_id ` set (list_all_items j st) = job_ids j st" "ri_id ` set (list_planned_items j st) \<subseteq> job_ids j st"
  "ri_id ` set (list_running_items j st) \<subseteq> job_ids j st" "ri_id ` set (list_done_items j st) \<subseteq> job_ids j st"
  by (auto simp: list_all_items_def list_planned_items_def list_running_items_def list_done_items_def job_ids_def)

lemma end_job_touches: "touches I {j} st (end_job j s st)"
  unfolding end_job_def by (rule touches_trans [OF touches_counters touches_job]) simp_all

lemma run_job_touches: "touches (job_ids j st) {j} st (run_job ops ev j st)"
proof -
  let ?T = "touches (job_ids j st) {j}"
  obtain r st1 where r: "run_items ops ev j 0 (list_planned_items j st) (update_job_status j JRunning st) = (r, st1)"
    by force
  have t1: "?T st st1"
    by (rule touches_trans [OF touches_job run_items_touches [OF r]]) (simp_all add: listed_ids)
  let ?st2 = "finish_directory_assets ops (directory_groups (list_all_items j st1)) st1"
  have "?T st1 ?st2"
    by (rule finish_directory_assets_touches)
      (use directory_groups_items listed_ids(1) [of j st1] job_ids_touches [OF t1, of j] in blast)
  then have t2: "?T st ?st2" by (rule touches_trans [OF t1])
  obtain s st3 where p: "poll_job ev j (length (list_planned_items j st)) ?st2 = (s, st3)" by force
  have t3: "?T st st3" by (rule touches_trans [OF t2 poll_job_touches [OF p]])
  have "run_job ops ev j st = st \<or> (\<exists>s. run_job ops ev j st = end_job j s st1 \<or> run_job ops ev j st = end_job j s st3)"
    using r p by (cases r) (auto simp: run_job_def Let_def split: option.splits)
  then show ?thesis
    using touches_trans [OF t1 end_job_touches] touches_trans [OF t3 end_job_touches] touches_refl by metis
qed

lemma rollback_item_touches:
  assumes r: "rollback_item ops it st = (q, st')"
  shows "touches {ri_id it} J st st'"
proof -
  obtain x w where p: "rollback_paths ops (normalize_backend (ri_backend it)) (norm_path (ri_old it)) (new_path_of it)
      (ri_aux it) (rn_world st) = (x, w)" by force
  let ?a = "metadata_to_old it (history_to_old it (st\<lparr>rn_world := w\<rparr>))"
  have a: "touches {ri_id it} J st ?a" by (rule touches_refl) simp_all
  have b: "touches {ri_id it} J st (st\<lparr>rn_world := w\<rparr>)" by (rule touches_refl) simp_all
  have upd: "touches {ri_id it} J s (update_item (ri_id it) (\<lambda>x. x\<lparr>ri_status := v, ri_rollback := u\<rparr>) s)" for s v u
    by (rule touches_item) auto
  have "rn_items st' = rn_items st \<and> rn_jobs st' = rn_jobs st \<or>
      (\<exists>v u. st' = update_item (ri_id it) (\<lambda>x. x\<lparr>ri_status := v, ri_rollback := u\<rparr>) st \<or>
        st' = update_item (ri_id it) (\<lambda>x. x\<lparr>ri_status := v, ri_rollback := u\<rparr>) (st\<lparr>rn_world := w\<rparr>) \<or>
        st' = update_item (ri_id it) (\<lambda>x. x\<lparr>ri_status := v, ri_rollback := u\<rparr>) ?a)"
    using r p by (cases x) (auto simp: rollback_item_def Let_def split: if_splits)
  then show ?thesis
    using touches_refl [of st' st] upd touches_trans [OF a upd] touches_trans [OF b upd] by metis
qed

lemma rollback_items_touches:
  "rollback_items ops its c st = (r, st') \<Longrightarrow> touches (ri_id ` {it \<in> set its. ri_status it = IDone}) J st st'"
proof (induction its arbitrary: c st)
  case Nil
  then show ?case by (auto intro: touches_refl)
next
  case (Cons it its)
  obtain a b where c: "c = (a, b)" by force
  let ?I = "\<lambda>xs. ri_id ` {it \<in> set xs. ri_status it = IDone}"
  show ?case
  proof (cases "ri_status it = IDone")
    case True
    obtain x st1 where i: "rollback_item ops it st = (x, st1)" by force
    have t1: "touches (?I (it # its)) J st st1"
      by (rule touches_mono [OF rollback_item_touches [OF i]]) (use True in auto)
    show ?thesis
    proof (cases x)
      case None
      with Cons.prems True i t1 c show ?thesis by simp
    next
      case (Some ok)
      then have "rollback_items ops its (if ok then (Suc a, b) else (a, Suc b)) st1 = (r, st')"
        using Cons.prems True i c by simp
      from Cons.IH [OF this] have "touches (?I (it # its)) J st1 st'" by (rule touches_mono) auto
      with t1 show ?thesis by (rule touches_trans)
    qed
  next
    case False
    then have "rollback_items ops its c st = (r, st')" using Cons.prems c by simp
    from Cons.IH [OF this] show ?thesis by (rule touches_mono) auto
  qed
qed

lemma recover_item_touches:
  assumes r: "recover_item ops it st = (q, st')"
  shows "touches {ri_id it} J st st'"
proof -
  have upd: "touches {ri_id it} J st s \<Longrightarrow> touches {ri_id it} J st (update_item (ri_id it) f s)"
    if "\<And>x. ri_id (f x) = ri_id x \<and> ri_job (f x) = ri_job x" for s f
    by (erule touches_trans) (rule touches_item, use that in auto)
  show ?thesis
    using r unfolding recover_item_def Let_def
    by (auto split: if_splits prod.splits option.splits intro: upd [OF _ touches_refl] touches_refl)
qed

lemma recover_items_touches:
  "recover_items ops its st = (q, st') \<Longrightarrow> ri_id ` set its \<subseteq> I \<Longrightarrow> touches I J st st'"
proof (induction its arbitrary: st)
  case Nil
  then show ?case by (auto intro: touches_refl)
next
  case (Cons it its)
  obtain x st1 where i: "recover_item ops it st = (x, st1)" by force
  have t1: "touches I J st st1" by (rule touches_mono [OF recover_item_touches [OF i]]) (use Cons.prems in auto)
  show ?case
  proof (cases x)
    case False
    then have "recover_items ops its st1 = (q, st')" using Cons.prems(1) i by simp
    from Cons.IH [OF this] Cons.prems(2) show ?thesis by (auto intro: touches_trans [OF t1])
  qed (use Cons.prems i t1 in simp)
qed

lemma recover_job_touches:
  assumes r: "recover_job ops j st = (q, st')"
  shows "touches (job_ids j st) {j} st st'"
proof -
  obtain x st1 where i: "recover_items ops (list_running_items j st) st = (x, st1)" by force
  have t1: "touches (job_ids j st) {j} st st1" by (rule recover_items_touches [OF i listed_ids(3)])
  have "st' = st1 \<or> st' = refresh_job_counters j (update_job_status j JInterrupted st1)"
    using r i by (cases x) (auto simp: recover_job_def)
  then show ?thesis
    using t1 touches_trans [OF t1 touches_trans [OF touches_job touches_counters]] by auto
qed

lemma recover_jobs_touches:
  "recover_jobs ops ev jobs n st = (q, st') \<Longrightarrow>
     touches (\<Union>r \<in> set jobs. job_ids (rj_id r) st) (rj_id ` set jobs) st st'"
proof (induction jobs arbitrary: n st)
  case Nil
  then show ?case by (auto intro: touches_refl)
next
  case (Cons r rs)
  let ?I = "\<lambda>rs s. \<Union>r \<in> set rs. job_ids (rj_id r) s" and ?J = "rj_id ` set (r # rs)"
  show ?case
  proof (cases "rv_locked ev (job_lock_key (rj_id r))")
    case True
    then have "recover_jobs ops ev rs n st = (q, st')" using Cons.prems by simp
    from Cons.IH [OF this] show ?thesis by (rule touches_mono) auto
  next
    case False
    obtain x st1 where i: "recover_job ops (rj_id r) st = (x, st1)" by force
    have t1: "touches (?I (r # rs) st) ?J st st1" by (rule touches_mono [OF recover_job_touches [OF i]]) auto
    show ?thesis
    proof (cases x)
      case xf: False
      then have "recover_jobs ops ev rs (Suc n) st1 = (q, st')" using Cons.prems i False by simp
      from Cons.IH [OF this] have "touches (?I (r # rs) st) ?J st1 st'"
        by (rule touches_mono) (auto simp: job_ids_touches [OF t1])
      with t1 show ?thesis by (rule touches_trans)
    qed (use Cons.prems i t1 False in simp)
  qed
qed

section \<open>Items that nothing settles\<close>

text \<open>A job that will not run again: it is neither planned nor marked as running.\<close>

definition closed_job :: "int \<Rightarrow> 'w rename_state \<Rightarrow> bool" where
  "closed_job j st \<longleftrightarrow> (\<forall>r \<in> set (rn_jobs st). rj_id r = j \<longrightarrow> rj_status r \<notin> {JPlanned, JRunning})"

lemma closed_job_touches: "touches I J st st' \<Longrightarrow> j \<notin> J \<Longrightarrow> closed_job j st \<Longrightarrow> closed_job j st'"
  unfolding touches_def closed_job_def by auto

lemma closed_get_job: "closed_job j st \<Longrightarrow> get_job j st = Some r \<Longrightarrow> rj_status r \<notin> {JPlanned, JRunning}"
  by (auto simp: closed_job_def get_job_def find_Some_iff)

lemma touches_keeps_item:
  assumes "touches I J st st'" and "it \<in> set (rn_items st)" and "ri_id it \<notin> I"
  shows "it \<in> set (rn_items st')"
proof -
  obtain g where "rn_items st' = map g (rn_items st)" "g it = it"
    using assms(1,3) unfolding touches_def by blast
  with assms(2) show ?thesis by force
qed

lemma touches_ids: "touches I J st st' \<Longrightarrow> map ri_id (rn_items st') = map ri_id (rn_items st)"
  unfolding touches_def by (auto simp: comp_def)

lemma same_id:
  "distinct (map ri_id its) \<Longrightarrow> x \<in> set its \<Longrightarrow> y \<in> set its \<Longrightarrow> ri_id x = ri_id y \<Longrightarrow> x = y"
  by (auto simp: distinct_map dest: inj_onD)

text \<open>The state that stays: an item in progress of a closed job.\<close>

definition stuck :: "rename_item \<Rightarrow> 'w rename_state \<Rightarrow> bool" where
  "stuck it st \<longleftrightarrow> distinct (map ri_id (rn_items st)) \<and> it \<in> set (rn_items st) \<and> ri_status it = IRunning \<and>
     closed_job (ri_job it) st"

lemma stuck_other_job: "stuck it st \<Longrightarrow> ri_id it \<in> job_ids j st \<Longrightarrow> j = ri_job it"
  by (auto simp: stuck_def job_ids_def dest: same_id)

lemma stuck_touches:
  assumes "stuck it st" and "touches I J st st'" and "ri_id it \<notin> I" and "closed_job (ri_job it) st'"
  shows "stuck it st'"
  using assms touches_keeps_item [OF assms(2)] touches_ids [OF assms(2)] by (simp add: stuck_def)

lemma stuck_apart:
  assumes "stuck it st" and "touches I J st st'" and "ri_id it \<notin> I" and "ri_job it \<notin> J"
  shows "stuck it st'"
  by (rule stuck_touches [OF assms(1-3) closed_job_touches [OF assms(2,4)]]) (use assms(1) in \<open>simp add: stuck_def\<close>)

lemma stuck_step:
  assumes s: "stuck it st"
  shows "stuck it (rename_step ops c st)"
proof (cases c)
  case (CExecute ev now plan)
  show ?thesis
  proof (cases "execute_plan ops ev now plan st")
    case (Inr st')
    then obtain r where r: "get_job_by_plan plan st = Some r" "rj_status r = JPlanned" "st' = run_job ops ev (rj_id r) st"
      by (auto simp: execute_plan_def split: option.splits if_splits)
    then have "r \<in> set (rn_jobs st)" by (auto simp: get_job_by_plan_def find_Some_iff split: if_splits)
    with r s have ne: "rj_id r \<noteq> ri_job it" by (auto simp: stuck_def closed_job_def)
    have "stuck it (run_job ops ev (rj_id r) st)"
      by (rule stuck_apart [OF s run_job_touches]) (use ne stuck_other_job [OF s] in auto)
    with r(3) Inr CExecute show ?thesis by simp
  qed (use s CExecute in simp)
next
  case (CCancel j)
  show ?thesis
  proof (cases "j = ri_job it")
    case True
    with closed_get_job [of j st] s have "snd (cancel_job j st) = st"
      by (auto simp: cancel_job_def stuck_def split: option.splits)
    with s CCancel show ?thesis by simp
  next
    case False
    with stuck_apart [OF s cancel_job_touches [of "{}" j]] CCancel show ?thesis by auto
  qed
next
  case (CRollback ev j)
  obtain r st1 where r: "rollback_items ops (list_done_items j st) (0, 0) st = (r, st1)" by force
  have "ri_id it \<notin> ri_id ` {x \<in> set (list_done_items j st). ri_status x = IDone}"
    using s same_id [of "rn_items st" _ it] by (auto simp: stuck_def list_done_items_def list_all_items_def)
  from stuck_apart [OF s rollback_items_touches [OF r, of "{}"] this] have s1: "stuck it st1" by simp
  have upd: "touches {} {j} st1 (refresh_job_counters j (update_job_status j JRolledBack st1))"
    by (rule touches_trans [OF touches_job touches_counters]) simp_all
  have "closed_job (ri_job it) (refresh_job_counters j (update_job_status j JRolledBack st1))"
    using s1 by (auto simp: stuck_def closed_job_def refresh_job_counters_def update_job_status_def)
  from stuck_touches [OF s1 upd _ this] s s1 r CRollback show ?thesis
    by (cases r) (auto simp: rollback_job_def split: option.splits)
next
  case (CRecover ev)
  obtain n st1 where r: "recover_jobs ops ev (list_running_jobs st) 0 st = (n, st1)" by force
  have "ri_job it \<notin> rj_id ` set (list_running_jobs st)"
    using s by (auto simp: list_running_jobs_def stuck_def closed_job_def)
  then have "stuck it st1"
    by (intro stuck_apart [OF s recover_jobs_touches [OF r]]) (use stuck_other_job [OF s] in auto)
  with r CRecover show ?thesis by (simp add: recover_interrupted_jobs_def)
qed

lemma stuck_run: "stuck it st \<Longrightarrow> stuck it (rename_run ops calls st)"
  unfolding rename_run_def by (induction calls arbitrary: st) (simp_all add: stuck_step)

text \<open>An item that was in progress when the process ended while its job was being cancelled (or whose own rollback
  raised, which fails the job) stays in progress for ever: no run, cancellation, rollback or recovery settles it, whatever
  the storage says.\<close>

theorem unsettled_item_stays:
  assumes "distinct (map ri_id (rn_items st))" and "it \<in> set (rn_items st)" and "ri_status it = IRunning"
    and "closed_job (ri_job it) st"
  shows "it \<in> set (rn_items (rename_run ops calls st))"
  using stuck_run [of it st] assms unfolding stuck_def by blast

theorem unsettled_item_stays_witness:
  "let it = demo_rename_item\<lparr>ri_status := IRunning\<rparr>;
       st = demo_rename\<lparr>rn_items := [it], rn_jobs := map (\<lambda>r. r\<lparr>rj_status := JCancelling\<rparr>) (rn_jobs demo_rename)\<rparr>
   in it \<in> set (rn_items (rename_run (local_ops (\<lambda>_. False) (\<lambda>_. True)) [CRecover calm_env, CRollback calm_env 1] st))"
  unfolding Let_def
  by (rule unsettled_item_stays)
    (simp_all add: demo_rename_def demo_rename_item_def closed_job_def)

end
