(* ===== verification/LibraryPlan.thy ===== *)
theory LibraryPlan
  imports LibraryRename MediaItem "HOL-Library.List_Lexorder" "HOL-Library.Char_ord"
begin

text \<open>
  Planning the renaming of a library (\<open>services/transfer/library_rename_planner.py\<close>, with the listing of
  \<open>media/scraper/media_library.py\<close>): the roots of the configured libraries are scanned, each file gets
  an item with its target or the reason why it has none, and items with the same target are conflicts.

  Parameters (\<open>plan_env\<close>): what \<open>os.walk\<close> yields for a local directory, the resolution of metadata, and the rendering of
  names by the path resolver; the last two may raise (\<open>None\<close>). Remote directories are listed through the storage backends.
  A generator is run as far as its consumer takes from it.
\<close>

section \<open>Data\<close>

record rename_scope =
  sp_types :: "media_type list"
  sp_roots :: "string list"
  sp_filename_only :: bool
  sp_reorganize :: bool
  sp_limit :: int

record library_root =
  lr_type :: media_type
  lr_root :: string
  lr_backend :: string

record resolved = item +
  rs_org_string :: string
  rs_rev_string :: string
  rs_original_title :: string
  rs_imdb_id :: string
  rs_part :: string
  rs_category :: "string option"
  rs_known_type :: bool
  rs_en_title :: string
  rs_episode_title :: string
  rs_confidence :: string
  rs_manual :: bool
  rs_data :: string

text \<open>The configured libraries of the three kinds: paths with the ids of their backends.\<close>

record library_config =
  lc_paths :: "media_type \<Rightarrow> string list"
  lc_backends :: "media_type \<Rightarrow> string list"

record plan_env =
  pe_config :: library_config
  pe_movie_fields :: "string list"
  pe_tv_fields :: "string list"
  pe_categories :: "media_type \<Rightarrow> string list"
  pe_category_flag :: "media_type \<Rightarrow> bool"
  pe_is_dir :: "string \<Rightarrow> bool"
  pe_walk :: "string \<Rightarrow> (string \<times> string list) list"
  pe_resolve :: "string \<Rightarrow> string \<Rightarrow> media_type \<Rightarrow> resolved option option"
  pe_movie_path :: "resolved \<Rightarrow> (string \<times> string) option"
  pe_tv_path :: "resolved \<Rightarrow> (string \<times> string \<times> string) option"
  pe_has_word :: "string \<Rightarrow> bool"

section \<open>Paths of the planner\<close>

text \<open>\<open>_norm\<close>: a drive letter or a share keeps its backslashes.\<close>

definition windows_path :: "string \<Rightarrow> bool" where
  "windows_path t =
     (startswith t [CHR 0x5C, CHR 0x5C] \<or>
      (case t of
         c # d # e # _ \<Rightarrow> (65 \<le> ord c \<and> ord c \<le> 90 \<or> 97 \<le> ord c \<and> ord c \<le> 122) \<and> d = CHR '':'' \<and>
           (e = CHR 0x5C \<or> e = CHR ''/'')
       | _ \<Rightarrow> False))"

definition plan_norm :: "string \<Rightarrow> string" where
  "plan_norm p =
     (let t = strip p
      in if t = [] then []
         else if windows_path t then normpath t
         else normpath (replace_char (CHR 0x5C) (CHR ''/'') t))"

definition excluded_segments :: "string set" where
  "excluded_segments = {''#recycle'', ''.trash'', ''@eadir'', ''recycle''}"

definition excluded :: "string \<Rightarrow> bool" where
  "excluded p =
     (\<exists>s \<in> set (split_on (CHR ''/'') (replace_char (CHR 0x5C) (CHR ''/'') p)).
        s \<noteq> [] \<and> (startswith s ''.'' \<or> lower s \<in> excluded_segments))"

text \<open>\<open>len\<close> of a text counts characters, not the bytes of its UTF-8 form.\<close>

definition char_count :: "string \<Rightarrow> nat" where
  "char_count s = length (filter (\<lambda>c. \<not> (128 \<le> ord c \<and> ord c < 192)) s)"

text \<open>\<open>detect_part_hint\<close>: a keyword at the start or after a separator, then a letter or digit after separators.\<close>

definition part_separator :: "char \<Rightarrow> bool" where
  "part_separator c = (c = CHR ''.'' \<or> c = CHR ''_'' \<or> c = CHR ''-'' \<or> is_space c)"

definition part_at :: "string \<Rightarrow> bool" where
  "part_at s =
     (\<exists>k \<in> {''part'', ''cd'', ''disc'', ''disk''}. startswith (lower s) k \<and>
        (case dropWhile part_separator (drop (length k) s) of
           [] \<Rightarrow> False
         | c # _ \<Rightarrow> is_digit c \<or> (97 \<le> ord (lower_char c) \<and> ord (lower_char c) \<le> 122)))"

fun part_after_separator :: "string \<Rightarrow> bool" where
  "part_after_separator [] = False"
| "part_after_separator (c # cs) = (part_separator c \<and> part_at cs \<or> part_after_separator cs)"

definition detect_part_hint :: "string \<Rightarrow> bool" where
  "detect_part_hint s = (part_at s \<or> part_after_separator s)"

section \<open>The roots\<close>

definition root_in_scope :: "rename_scope \<Rightarrow> string \<Rightarrow> bool" where
  "root_in_scope sc base =
     (sp_roots sc = [] \<or> (\<exists>p \<in> set (sp_roots sc). is_path_in_path base p \<or> is_path_in_path p base))"

definition backend_at :: "string list \<Rightarrow> nat \<Rightarrow> string" where
  "backend_at bs i = (if i < length bs \<and> bs ! i \<noteq> [] then bs ! i else ''local'')"

text \<open>May a root be scanned? A local root must be a directory, a remote one may be one that only can be listed.\<close>

definition usable_root :: "'w library_ops \<Rightarrow> string \<Rightarrow> string \<Rightarrow> 'w \<Rightarrow> bool \<times> 'w" where
  "usable_root ops backend_id base w =
     (let b = normalize_backend backend_id
      in if \<not> lb_known ops b then (False, w)
         else case lb_stat ops b base w of
                (None, w1) \<Rightarrow> (False, w1)
              | (Some (Some info), w1) \<Rightarrow> (fi_dir info, w1)
              | (Some None, w1) \<Rightarrow>
                  if b = ''local'' then (False, w1)
                  else (case lb_list ops b base w1 of
                          (None, w2) \<Rightarrow> (False, w2)
                        | (Some _, w2) \<Rightarrow> (True, w2)))"

fun roots_of_type ::
  "'w library_ops \<Rightarrow> rename_scope \<Rightarrow> string list \<Rightarrow> media_type \<Rightarrow> nat \<Rightarrow> string list \<Rightarrow>
   (string \<times> string) list \<times> library_root list \<times> 'w \<Rightarrow> (string \<times> string) list \<times> library_root list \<times> 'w" where
  "roots_of_type ops sc bs mt i [] acc = acc"
| "roots_of_type ops sc bs mt i (base # rest) (seen, roots, w) =
     roots_of_type ops sc bs mt (Suc i) rest
       (if base = [] \<or> \<not> root_in_scope sc base then (seen, roots, w)
        else
          let backend_id = backend_at bs i; key = (normalize_backend backend_id, plan_norm base)
          in if key \<in> set seen then (seen, roots, w)
             else (case usable_root ops backend_id base w of
                     (ok, w1) \<Rightarrow>
                       (key # seen,
                        (if ok then roots @ [\<lparr>lr_type = mt, lr_root = plan_norm base, lr_backend = backend_id\<rparr>] else roots),
                        w1)))"

definition build_roots :: "'w library_ops \<Rightarrow> plan_env \<Rightarrow> rename_scope \<Rightarrow> 'w \<Rightarrow> library_root list \<times> 'w" where
  "build_roots ops pe sc w =
     snd (fold (\<lambda>mt acc. if mt \<in> set (sp_types sc)
                     then roots_of_type ops sc (lc_backends (pe_config pe) mt) mt 0 (lc_paths (pe_config pe) mt) acc
                     else acc)
            [MOVIE, TV, ANIME] ([], [], w))"

section \<open>Scanning\<close>

definition media_path :: "string \<Rightarrow> bool" where
  "media_path p = (lower (snd (splitext p)) \<in> set media_exts)"

text \<open>\<open>get_library_files\<close> of a local path, without excluded paths.\<close>

definition get_library_files :: "plan_env \<Rightarrow> string \<Rightarrow> string list" where
  "get_library_files pe p =
     (if \<not> pe_is_dir pe p then [p]
      else concat (map (\<lambda>(d, names). map (os_join d) (filter media_path names)) (pe_walk pe p)))"

text \<open>The remote listing, depth first; the consumer answers whether it takes no more. Directories deeper than
  \<open>n\<close> exceed the recursion limit, which raises.\<close>

fun walk_dir ::
  "'w library_ops \<Rightarrow> string \<Rightarrow> (string \<Rightarrow> 'c \<Rightarrow> bool \<times> 'c) \<Rightarrow> nat \<Rightarrow> string \<Rightarrow> string list \<times> 'c \<times> 'w \<Rightarrow>
   (bool \<times> string list \<times> 'c \<times> 'w) option"
  and walk_entries ::
  "'w library_ops \<Rightarrow> string \<Rightarrow> (string \<Rightarrow> 'c \<Rightarrow> bool \<times> 'c) \<Rightarrow> nat \<Rightarrow> file_info list \<Rightarrow> string list \<times> 'c \<times> 'w \<Rightarrow>
   (bool \<times> string list \<times> 'c \<times> 'w) option" where
  "walk_dir ops b k 0 d s = None"
| "walk_dir ops b k (Suc n) d (visited, c, w) =
     (if plan_norm d \<in> set visited then Some (False, visited, c, w)
      else case lb_list ops b d w of
             (None, w1) \<Rightarrow> Some (False, plan_norm d # visited, c, w1)
           | (Some es, w1) \<Rightarrow> walk_entries ops b k n es (plan_norm d # visited, c, w1))"
| "walk_entries ops b k n [] s = Some (False, s)"
| "walk_entries ops b k n (e # es) (visited, c, w) =
     (if fi_dir e then
        (case walk_dir ops b k n (fi_path e) (visited, c, w) of
           None \<Rightarrow> None
         | Some (True, s) \<Rightarrow> Some (True, s)
         | Some (False, s) \<Rightarrow> walk_entries ops b k n es s)
      else if media_path (fi_path e) then
        (case k (plan_norm (fi_path e)) c of
           (True, c1) \<Rightarrow> Some (True, visited, c1, w)
         | (False, c1) \<Rightarrow> walk_entries ops b k n es (visited, c1, w))
      else walk_entries ops b k n es (visited, c, w))"

fun consume :: "('a \<Rightarrow> 'c \<Rightarrow> bool \<times> 'c) \<Rightarrow> 'a list \<Rightarrow> 'c \<Rightarrow> bool \<times> 'c" where
  "consume k [] c = (False, c)"
| "consume k (x # xs) c = (case k x c of (True, c1) \<Rightarrow> (True, c1) | (False, c1) \<Rightarrow> consume k xs c1)"

text \<open>The files taken so far, with the keys seen.\<close>

type_synonym scan = "(string \<times> string) list \<times> (library_root \<times> string) list"

definition scan_full :: "rename_scope \<Rightarrow> scan \<Rightarrow> bool" where
  "scan_full sc s \<longleftrightarrow> int (length (snd s)) \<ge> max 1 (sp_limit sc)"

definition take_path :: "rename_scope \<Rightarrow> library_root \<Rightarrow> string \<Rightarrow> scan \<Rightarrow> bool \<times> scan" where
  "take_path sc r p s =
     (let key = (lr_backend r, plan_norm p)
      in if excluded (relpath p (lr_root r)) then (False, s)
         else if sp_roots sc \<noteq> [] \<and> \<not> (\<exists>q \<in> set (sp_roots sc). is_path_in_path q p) then (False, s)
         else if key \<in> set (fst s) then (False, s)
         else let s1 = (key # fst s, snd s @ [(r, plan_norm p)]) in (scan_full sc s1, s1))"

definition scan_root ::
  "'w library_ops \<Rightarrow> plan_env \<Rightarrow> rename_scope \<Rightarrow> nat \<Rightarrow> library_root \<Rightarrow> scan \<Rightarrow> 'w \<Rightarrow> (scan \<times> 'w) option" where
  "scan_root ops pe sc depth r s w =
     (let b = normalize_backend (lr_backend r)
      in if b = ''local'' then Some (snd (consume (take_path sc r) (get_library_files pe (lr_root r)) s), w)
         else map_option (\<lambda>(_, _, s1, w1). (s1, w1)) (walk_dir ops b (take_path sc r) depth (lr_root r) ([], s, w)))"

fun scan_roots ::
  "'w library_ops \<Rightarrow> plan_env \<Rightarrow> rename_scope \<Rightarrow> nat \<Rightarrow> library_root list \<Rightarrow> scan \<Rightarrow> 'w \<Rightarrow> (scan \<times> 'w) option" where
  "scan_roots ops pe sc depth [] s w = Some (s, w)"
| "scan_roots ops pe sc depth (r # rs) s w =
     (case scan_root ops pe sc depth r s w of
        None \<Rightarrow> None
      | Some (s1, w1) \<Rightarrow> if scan_full sc s1 then Some (s1, w1) else scan_roots ops pe sc depth rs s1 w1)"

section \<open>One file\<close>

definition media_fields :: "plan_env \<Rightarrow> media_type \<Rightarrow> string list" where
  "media_fields pe mt = (if mt = MOVIE then pe_movie_fields pe else pe_tv_fields pe)"

definition required_field_reason :: "plan_env \<Rightarrow> resolved \<Rightarrow> media_type \<Rightarrow> string \<Rightarrow> string option" where
  "required_field_reason pe rs mt base_name =
     (let asked = (\<lambda>f. f \<in> set (media_fields pe mt))
      in if mi_title rs = [] then Some ''missing_title''
         else if asked ''year'' \<and> mi_year rs = [] then Some ''missing_year''
         else if asked ''tmdbid'' \<and> \<not> truthy (mi_tmdb_id rs) \<and> get_media_ref rs = None then Some ''missing_tmdbid''
         else if asked ''original_name'' \<and> rs_org_string rs = [] then Some ''missing_original_name''
         else if asked ''rev_name'' \<and> rs_rev_string rs = [] then Some ''missing_rev_name''
         else if asked ''en_title'' \<and> rs_en_title rs = [] then Some ''missing_en_title''
         else if asked ''episode_title'' \<and> rs_episode_title rs = [] then Some ''missing_episode_title''
         else if asked ''original_title'' \<and> rs_original_title rs = [] then Some ''missing_original_title''
         else if asked ''imdbid'' \<and> rs_imdb_id rs = [] then Some ''missing_imdbid''
         else if asked ''part'' \<and> rs_part rs = [] \<and> (detect_part_hint (rs_org_string rs) \<or> detect_part_hint base_name)
           then Some ''missing_part''
         else if mt \<noteq> MOVIE \<and> (mi_begin_season rs = None \<or> mi_begin_episode rs = None) then Some ''missing_season_episode''
         else None)"

definition fallback_filename :: "plan_env \<Rightarrow> string \<Rightarrow> string \<Rightarrow> string" where
  "fallback_filename pe file_name old =
     (if file_name \<noteq> [] \<and> pe_has_word pe file_name then file_name else fst (splitext (basename old)))"

text \<open>\<open>RMT_FAVTYPE\<close>\<close>

definition fav_type :: string where
  "fav_type = u8 [0xe7, 0xb2, 0xbe, 0xe9, 0x80, 0x89]"

definition current_category :: "plan_env \<Rightarrow> library_root \<Rightarrow> string \<Rightarrow> media_type \<Rightarrow> string" where
  "current_category pe r p mt =
     (let d = relpath (dirname p) (lr_root r); first = hd (split_on (CHR ''/'') (replace_char (CHR 0x5C) (CHR ''/'') d))
      in if d = ''.'' \<or> d = [] then []
         else if first = fav_type \<or> first \<in> set (pe_categories pe mt) then first else [])"

definition safe_category_name :: "string option \<Rightarrow> string" where
  "safe_category_name v =
     (let c = strip (opt_text v)
      in if c = [] \<or> c = ''.'' \<or> c = ''..'' then []
         else if CHR ''/'' \<in> set c \<or> CHR 0x5C \<in> set c \<or> CHR '':'' \<in> set c then [] else c)"

definition file_stem :: "plan_env \<Rightarrow> resolved \<Rightarrow> string option" where
  "file_stem pe rs =
     (if mi_type rs = MOVIE then map_option snd (pe_movie_path pe rs) else map_option (snd \<circ> snd) (pe_tv_path pe rs))"

text \<open>\<open>get_dest_path_by_info\<close> of the path resolver: \<open>Some None\<close> without a destination.\<close>

definition dest_path_by_info :: "plan_env \<Rightarrow> string \<Rightarrow> resolved \<Rightarrow> string option option" where
  "dest_path_by_info pe dest rs =
     (let c = safe_category_name (rs_category rs);
          top = (if pe_category_flag pe (mi_type rs) \<and> c \<noteq> [] then os_join dest c else dest)
      in if dest = [] then Some None
         else if mi_type rs = MOVIE then map_option (\<lambda>(d, _). Some (os_join top d)) (pe_movie_path pe rs)
         else map_option (\<lambda>(d, season, _). Some (os_join (os_join top d) season)) (pe_tv_path pe rs))"

text \<open>The target of a file in the three layouts: an error, or the path with the media as it was named. \<open>None\<close> is an
  exception of the resolver.\<close>

definition full_layout_dir :: "plan_env \<Rightarrow> library_root \<Rightarrow> string \<Rightarrow> resolved \<Rightarrow> (string \<times> string) option" where
  "full_layout_dir pe r pre rs =
     (let in_format = ''category'' \<in> set (media_fields pe (mi_type rs)); base = lr_root r;
          top = (if pre \<noteq> [] \<and> \<not> in_format then os_join base pre else base)
      in if mi_type rs = MOVIE then map_option (\<lambda>(d, f). (os_join top d, f)) (pe_movie_path pe rs)
         else map_option (\<lambda>(d, season, f).
                let t = (if d \<noteq> [] then os_join top d else top)
                in (if season \<noteq> [] then os_join t season else t, f)) (pe_tv_path pe rs))"

definition target_path ::
  "plan_env \<Rightarrow> rename_scope \<Rightarrow> library_root \<Rightarrow> string \<Rightarrow> resolved \<Rightarrow> (string + string \<times> resolved) option" where
  "target_path pe sc r old rs =
     (let ext = snd (splitext old)
      in if sp_filename_only sc then
           (case file_stem pe rs of
              None \<Rightarrow> None
            | Some f0 \<Rightarrow>
                let f = fallback_filename pe f0 old
                in Some (if f = [] then Inl ''empty_filename'' else Inr (os_join (dirname old) (f @ ext), rs)))
         else if sp_reorganize sc then
           (case file_stem pe rs of
              None \<Rightarrow> None
            | Some f0 \<Rightarrow>
                (case dest_path_by_info pe (lr_root r) rs of
                   None \<Rightarrow> None
                 | Some d \<Rightarrow>
                     let f = fallback_filename pe f0 old; dir = opt_text d
                     in Some (if dir = [] \<or> f = [] then Inl ''empty_filename'' else Inr (os_join dir (f @ ext), rs))))
         else
           let pre = current_category pe r old (mi_type rs); rs1 = rs\<lparr>rs_category := Some pre\<rparr>
           in (case full_layout_dir pe r pre rs1 of
                 None \<Rightarrow> None
               | Some (dir, f0) \<Rightarrow>
                   let f = fallback_filename pe f0 old
                   in Some (if f = [] then Inl ''empty_filename'' else Inr (os_join dir (f @ ext), rs1))))"

definition compute_path ::
  "plan_env \<Rightarrow> rename_scope \<Rightarrow> library_root \<Rightarrow> string \<Rightarrow> resolved \<Rightarrow> (string + string \<times> resolved) option" where
  "compute_path pe sc r old rs =
     map_option (\<lambda>t. case t of
         Inl e \<Rightarrow> Inl e
       | Inr (p, rs1) \<Rightarrow>
           let new = normpath p
           in if \<not> is_path_in_path (lr_root r) new then Inl ''outside_library_root''
              else if char_count (dirname new) > 255 \<or> char_count (basename new) > 255 then Inl ''path_too_long''
              else Inr (new, rs1)) (target_path pe sc r old rs)"

definition item_snapshot :: "resolved \<Rightarrow> rename_snapshot" where
  "item_snapshot rs =
     \<lparr>sn_update_category = False, sn_target_category = [], sn_category = opt_text (rs_category rs),
      sn_confidence = rs_confidence rs, sn_manual = rs_manual rs, sn_data = rs_data rs\<rparr>"

definition base_item :: "library_root \<Rightarrow> string \<Rightarrow> rename_item" where
  "base_item r p =
     \<lparr>ri_id = 0, ri_job = 0, ri_backend = normalize_backend (lr_backend r), ri_root = lr_root r, ri_old = p, ri_new = None,
      ri_size = None, ri_mtime = None, ri_snapshot = None, ri_action = ASkip, ri_status = IPlanned, ri_aux = [],
      ri_reason = None, ri_error = None, ri_rollback = None\<rparr>"

text \<open>The item of a file whose metadata is known, up to the test of the target.\<close>

definition plan_resolved ::
  "plan_env \<Rightarrow> rename_scope \<Rightarrow> library_root \<Rightarrow> string \<Rightarrow> resolved \<Rightarrow> rename_item \<Rightarrow> rename_item" where
  "plan_resolved pe sc r p rs0 it =
     (let mt = (if rs_known_type rs0 then mi_type rs0 else lr_type r); rs = rs0\<lparr>mi_type := mt\<rparr>; sn = item_snapshot rs;
          it1 = it\<lparr>ri_snapshot := Some sn\<rparr>
      in case required_field_reason pe rs mt (basename p) of
           Some reason \<Rightarrow>
             it1\<lparr>ri_reason := Some reason,
                  ri_action := (if reason = ''missing_season_episode'' then ANeedsMetadata else ASkip)\<rparr>
         | None \<Rightarrow>
             (case compute_path pe sc r p rs of
                None \<Rightarrow> it1\<lparr>ri_reason := Some ''path_error''\<rparr>
              | Some (Inl reason) \<Rightarrow> it1\<lparr>ri_reason := Some reason\<rparr>
              | Some (Inr (new, rs1)) \<Rightarrow>
                  let it2 = it1\<lparr>ri_snapshot := Some (sn\<lparr>sn_target_category := opt_text (rs_category rs1),
                                                      sn_update_category := sp_reorganize sc\<rparr>), ri_new := Some new\<rparr>
                  in if plan_norm new = plan_norm p then it2\<lparr>ri_action := AUnchanged\<rparr> else it2\<lparr>ri_action := ARename\<rparr>))"

definition plan_one ::
  "'w library_ops \<Rightarrow> plan_env \<Rightarrow> rename_scope \<Rightarrow> library_root \<Rightarrow> string \<Rightarrow> 'w \<Rightarrow> rename_item option \<times> 'w" where
  "plan_one ops pe sc r p w =
     (let b = normalize_backend (lr_backend r); it = base_item r p
      in case lb_stat ops b p w of
           (None, w1) \<Rightarrow> (Some (it\<lparr>ri_reason := Some ''file_missing''\<rparr>), w1)
         | (Some None, w1) \<Rightarrow> (Some (it\<lparr>ri_reason := Some ''file_missing''\<rparr>), w1)
         | (Some (Some info), w1) \<Rightarrow>
             let it1 = it\<lparr>ri_size := Some (fi_size info), ri_mtime := Some (fi_mtime info)\<rparr>
             in (case pe_resolve pe b p (lr_type r) of
                   None \<Rightarrow> (Some (it1\<lparr>ri_action := ANeedsMetadata, ri_reason := Some ''metadata_error''\<rparr>), w1)
                 | Some None \<Rightarrow> (Some (it1\<lparr>ri_action := ANeedsMetadata, ri_reason := Some ''no_metadata''\<rparr>), w1)
                 | Some (Some rs) \<Rightarrow>
                     let it2 = plan_resolved pe sc r p rs it1
                     in if ri_action it2 \<noteq> ARename then (Some it2, w1)
                        else (case lb_exists ops b (opt_text (ri_new it2)) w1 of
                                (None, w2) \<Rightarrow> (None, w2)
                              | (Some True, w2) \<Rightarrow>
                                  (Some (it2\<lparr>ri_action := AConflict, ri_reason := Some ''target_exists''\<rparr>), w2)
                              | (Some False, w2) \<Rightarrow> (Some it2, w2))))"

section \<open>The plan\<close>

fun plan_all ::
  "'w library_ops \<Rightarrow> plan_env \<Rightarrow> rename_scope \<Rightarrow> (library_root \<times> string) list \<Rightarrow> 'w \<Rightarrow> rename_item list option \<times> 'w" where
  "plan_all ops pe sc [] w = (Some [], w)"
| "plan_all ops pe sc ((r, p) # rest) w =
     (case plan_one ops pe sc r p w of
        (None, w1) \<Rightarrow> (None, w1)
      | (Some it, w1) \<Rightarrow>
          (case plan_all ops pe sc rest w1 of
             (None, w2) \<Rightarrow> (None, w2)
           | (Some its, w2) \<Rightarrow> (Some (it # its), w2)))"

text \<open>Items that want the same target are conflicts, whatever backend they are on.\<close>

definition wants_target :: "rename_item \<Rightarrow> bool" where
  "wants_target it \<longleftrightarrow> ri_action it = ARename \<and> opt_text (ri_new it) \<noteq> []"

definition target_key :: "rename_item \<Rightarrow> string" where
  "target_key it = plan_norm (opt_text (ri_new it))"

definition mark_conflicts :: "rename_item list \<Rightarrow> rename_item list" where
  "mark_conflicts its =
     map (\<lambda>it. if wants_target it \<and> length (filter (\<lambda>o'. wants_target o' \<and> target_key o' = target_key it) its) > 1
          then it\<lparr>ri_action := AConflict, ri_reason := Some ''duplicate_target''\<rparr> else it) its"

definition build_items ::
  "'w library_ops \<Rightarrow> plan_env \<Rightarrow> nat \<Rightarrow> rename_scope \<Rightarrow> 'w \<Rightarrow> rename_item list option \<times> 'w" where
  "build_items ops pe depth sc w =
     (case build_roots ops pe sc w of
        ([], w1) \<Rightarrow> (Some [], w1)
      | (roots, w1) \<Rightarrow>
          (case scan_roots ops pe sc depth roots ([], []) w1 of
             None \<Rightarrow> (None, w1)
           | Some (s, w2) \<Rightarrow>
               (case plan_all ops pe sc (sort_key snd (snd s)) w2 of
                  (None, w3) \<Rightarrow> (None, w3)
                | (Some its, w3) \<Rightarrow> (Some (mark_conflicts its), w3))))"

text \<open>\<open>create_plan\<close>: the database gives the job the id \<open>j\<close> and its n-th item the id \<open>item_id n\<close>.\<close>

definition create_plan ::
  "'w library_ops \<Rightarrow> plan_env \<Rightarrow> nat \<Rightarrow> rename_scope \<Rightarrow> int \<Rightarrow> string \<Rightarrow> int \<Rightarrow> (nat \<Rightarrow> int) \<Rightarrow> 'w rename_state \<Rightarrow>
   bool \<times> 'w rename_state" where
  "create_plan ops pe depth sc now plan j item_id st =
     (case build_items ops pe depth sc (rn_world st) of
        (None, w1) \<Rightarrow> (False, st\<lparr>rn_world := w1\<rparr>)
      | (Some its, w1) \<Rightarrow>
          (True, refresh_job_counters j
             (st\<lparr>rn_world := w1,
                 rn_jobs := rn_jobs st @ [\<lparr>rj_id = j, rj_plan = plan, rj_status = JPlanned, rj_created = Some now,
                                           rj_counters = None\<rparr>],
                 rn_items := rn_items st @ map (\<lambda>(n, it). it\<lparr>ri_id := item_id n, ri_job := j\<rparr>) (enumerate 0 its)\<rparr>)))"

section \<open>What a planned renaming promises\<close>

text \<open>What an item that is to be renamed satisfies; \<open>free\<close> says which paths of a backend are not taken.\<close>

definition sound_target :: "(string \<Rightarrow> string \<Rightarrow> bool) \<Rightarrow> rename_item \<Rightarrow> bool" where
  "sound_target free it \<longleftrightarrow>
     (ri_action it = ARename \<longrightarrow>
       (\<exists>n. ri_new it = Some n \<and> n \<noteq> [] \<and> is_path_in_path (ri_root it) n \<and> plan_norm n \<noteq> plan_norm (ri_old it) \<and>
         char_count (basename n) \<le> 255 \<and> free (ri_backend it) n))"

lemma compute_path_sound:
  assumes "compute_path pe sc r p rs = Some (Inr (new, rs1))"
  shows "new \<noteq> [] \<and> is_path_in_path (lr_root r) new \<and> char_count (basename new) \<le> 255"
proof -
  obtain t where t: "target_path pe sc r p rs = Some t" using assms by (auto simp: compute_path_def)
  then obtain q rs2 where "t = Inr (q, rs2)" using assms by (cases t) (auto simp: compute_path_def)
  with assms t show ?thesis by (auto simp: compute_path_def Let_def split: if_splits)
qed

lemma plan_resolved_sound:
  assumes "it = plan_resolved pe sc r p rs (base_item r p\<lparr>ri_size := z, ri_mtime := m\<rparr>)" and "ri_action it = ARename"
  shows "\<exists>n. ri_new it = Some n \<and> n \<noteq> [] \<and> is_path_in_path (lr_root r) n \<and> plan_norm n \<noteq> plan_norm p \<and>
           char_count (basename n) \<le> 255"
proof -
  let ?mt = "if rs_known_type rs then mi_type rs else lr_type r"
  let ?rs = "rs\<lparr>mi_type := ?mt\<rparr>"
  have none: "required_field_reason pe ?rs ?mt (basename p) = None"
    using assms by (cases "required_field_reason pe ?rs ?mt (basename p)")
      (auto simp: plan_resolved_def Let_def base_item_def split: if_splits)
  obtain t where t: "compute_path pe sc r p ?rs = Some t"
    using assms none by (cases "compute_path pe sc r p ?rs") (auto simp: plan_resolved_def Let_def base_item_def)
  obtain n rs1 where n: "t = Inr (n, rs1)"
    using assms none t by (cases t) (auto simp: plan_resolved_def Let_def base_item_def)
  have "ri_new it = Some n" "plan_norm n \<noteq> plan_norm p"
    using assms none t n by (auto simp: plan_resolved_def Let_def split: if_splits)
  with compute_path_sound [of pe sc r p ?rs n rs1] t n show ?thesis by auto
qed

lemma plan_resolved_fixed:
  "ri_root (plan_resolved pe sc r p rs it) = ri_root it" "ri_old (plan_resolved pe sc r p rs it) = ri_old it"
  "ri_backend (plan_resolved pe sc r p rs it) = ri_backend it"
  by (auto simp: plan_resolved_def Let_def split: option.splits sum.splits)

context library_storage begin

text \<open>Planning only looks: files and places stay.\<close>

definition looks :: "'w \<Rightarrow> 'w \<Rightarrow> bool" where
  "looks w w' \<longleftrightarrow> good w' \<and> files w' = files w \<and> present w' = present w"

lemma looks_refl [simp]: "good w \<Longrightarrow> looks w w"
  by (simp add: looks_def)

lemma looks_trans [trans]: "looks w w' \<Longrightarrow> looks w' w'' \<Longrightarrow> looks w w''"
  by (simp add: looks_def)

lemma looks_good: "looks w w' \<Longrightarrow> good w'"
  by (simp add: looks_def)

lemma exists_looks: "good w \<Longrightarrow> lb_exists ops b p w = (r, w') \<Longrightarrow> looks w w'"
  using exists_law by (simp add: looks_def)

lemma stat_looks: "good w \<Longrightarrow> lb_stat ops b p w = (r, w') \<Longrightarrow> looks w w'"
  using stat_law by (simp add: looks_def)

lemma list_looks: "good w \<Longrightarrow> lb_list ops b p w = (r, w') \<Longrightarrow> looks w w'"
  using list_law by (simp add: looks_def)

lemma usable_root_looks:
  assumes g: "good w" and u: "usable_root ops backend_id p w = (ok, w')"
  shows "looks w w'"
proof -
  let ?b = "normalize_backend backend_id"
  obtain x w1 where s: "lb_stat ops ?b p w = (x, w1)" by force
  have k1: "looks w w1" by (rule stat_looks [OF g s])
  obtain y w2 where l: "lb_list ops ?b p w1 = (y, w2)" by force
  have "looks w w2" by (rule looks_trans [OF k1 list_looks [OF looks_good [OF k1] l]])
  moreover have "w' \<in> {w, w1, w2}"
    using u s l by (cases x; cases "the x"; cases y) (auto simp: usable_root_def Let_def split: if_splits option.splits)
  ultimately show ?thesis using k1 g by auto
qed

lemma roots_of_type_looks:
  "good (snd (snd acc)) \<Longrightarrow> looks (snd (snd acc)) (snd (snd (roots_of_type ops sc bs mt i ps acc)))"
proof (induction ps arbitrary: i acc)
  case (Cons p ps)
  obtain seen roots w where acc: "acc = (seen, roots, w)" by (cases acc) auto
  obtain ok w1 where u: "usable_root ops (backend_at bs i) p w = (ok, w1)" by force
  have k: "looks w w1" by (rule usable_root_looks [OF _ u]) (use Cons.prems acc in simp)
  show ?case
    using Cons.IH [of "(_, _, w)"] Cons.IH [of "(_, _, w1)"] Cons.prems acc u looks_good [OF k] looks_trans [OF k]
    by (auto simp: Let_def)
qed simp

lemma build_roots_looks: "good w \<Longrightarrow> looks w (snd (build_roots ops pe sc w))"
proof -
  let ?f = "\<lambda>mt acc. if mt \<in> set (sp_types sc)
                     then roots_of_type ops sc (lc_backends (pe_config pe) mt) mt 0 (lc_paths (pe_config pe) mt) acc
                     else acc"
  have "good (snd (snd acc)) \<Longrightarrow> looks (snd (snd acc)) (snd (snd (fold ?f mts acc)))" for mts acc
  proof (induction mts arbitrary: acc)
    case (Cons mt mts)
    have k: "looks (snd (snd acc)) (snd (snd (?f mt acc)))" using Cons.prems roots_of_type_looks by auto
    show ?case using looks_trans [OF k Cons.IH [OF looks_good [OF k]]] by (simp only: fold_simps comp_apply)
  qed simp
  from this [of "([], [], w)" "[MOVIE, TV, ANIME]"] show "good w \<Longrightarrow> looks w (snd (build_roots ops pe sc w))"
    unfolding build_roots_def by simp
qed

lemma walk_looks:
  "ops' = ops \<Longrightarrow> good (snd (snd s)) \<Longrightarrow> walk_dir ops' b k n d s = Some r \<Longrightarrow> looks (snd (snd s)) (snd (snd (snd r)))"
  "ops' = ops \<Longrightarrow> good (snd (snd s)) \<Longrightarrow> walk_entries ops' b k n es s = Some r \<Longrightarrow>
     looks (snd (snd s)) (snd (snd (snd r)))"
proof (induction ops' b k n d s and ops' b k n es s arbitrary: r and r rule: walk_dir_walk_entries.induct)
  case (2 ops' b k n d visited c w)
  obtain x w1 where l: "lb_list ops b d w = (x, w1)" by force
  have k1: "looks w w1" by (rule list_looks [OF _ l]) (use 2 in simp)
  show ?case
  proof (cases "plan_norm d \<in> set visited")
    case False
    show ?thesis
    proof (cases x)
      case (Some es)
      then have we: "walk_entries ops b k n es (plan_norm d # visited, c, w1) = Some r"
        using "2.prems" l False by simp
      have "looks w1 (snd (snd (snd r)))"
        using "2.IH" [OF False, of x w1 es r] "2.prems" l Some we looks_good [OF k1] by simp
      with k1 show ?thesis by (auto intro: looks_trans)
    qed (use 2 l False k1 in auto)
  qed (use 2 in auto)
next
  case (4 ops' b k n e es visited c w)
  show ?case
  proof (cases "fi_dir e")
    case True
    then obtain q where q: "walk_dir ops b k n (fi_path e) (visited, c, w) = Some q"
      using "4.prems" by (auto split: option.splits)
    have k1: "looks w (snd (snd (snd q)))" using "4.IH"(1) [OF True] "4.prems" q by auto
    show ?thesis
    proof (cases "fst q")
      case True': True
      then have "r = q" using "4.prems" True q by (cases q) auto
      with k1 show ?thesis by simp
    next
      case False
      then have w: "walk_entries ops b k n es (snd q) = Some r" using "4.prems" True q by (cases q) auto
      obtain v c' w' where qq: "q = (False, v, c', w')" using False by (cases q) auto
      from "4.IH"(2) [OF True, of q False "snd q"] w qq q "4.prems" looks_good [OF k1] have "looks w' (snd (snd (snd r)))" by auto
      with k1 qq show ?thesis by (auto intro: looks_trans)
    qed
  next
    case False
    show ?thesis
    proof (cases "media_path (fi_path e)")
      case True
      obtain t c1 where kc: "k (plan_norm (fi_path e)) c = (t, c1)" by force
      show ?thesis
      proof (cases t)
        case True': True
        with "4.prems" False True kc show ?thesis by auto
      next
        case False': False
        with "4.IH"(3) [OF False True] "4.prems" False True kc show ?thesis by auto
      qed
    next
      case no_media: False
      with "4.IH"(4) [OF False no_media] "4.prems" False show ?thesis by auto
    qed
  qed
qed auto

lemma scan_root_looks:
  assumes "good w" and "scan_root ops pe sc depth r s w = Some (s', w')"
  shows "looks w w'"
proof (cases "normalize_backend (lr_backend r) = ''local''")
  case False
  with assms(2) obtain q where
    q: "walk_dir ops (normalize_backend (lr_backend r)) (take_path sc r) depth (lr_root r) ([], s, w) = Some q" "w' = snd (snd (snd q))"
    by (auto simp: scan_root_def Let_def)
  from walk_looks(1) [OF refl _ q(1)] assms(1) q(2) show ?thesis by simp
qed (use assms in \<open>simp add: scan_root_def\<close>)

lemma scan_roots_looks: "good w \<Longrightarrow> scan_roots ops pe sc depth rs s w = Some (s', w') \<Longrightarrow> looks w w'"
proof (induction rs arbitrary: s w)
  case (Cons r rs)
  then obtain s1 w1 where r: "scan_root ops pe sc depth r s w = Some (s1, w1)" by (auto split: option.splits)
  have k: "looks w w1" by (rule scan_root_looks [OF Cons.prems(1) r])
  show ?case
  proof (cases "scan_full sc s1")
    case False
    then have "scan_roots ops pe sc depth rs s1 w1 = Some (s', w')" using Cons.prems(2) r by simp
    from Cons.IH [OF looks_good [OF k] this] show ?thesis by (rule looks_trans [OF k])
  qed (use Cons.prems(2) r k in simp)
qed simp

lemma plan_one_sound:
  assumes g: "good w" and p: "plan_one ops pe sc r q w = (x, w')"
  shows "looks w w' \<and> (\<forall>it. x = Some it \<longrightarrow> sound_target (\<lambda>b n. \<not> present w (loc b n)) it)"
proof -
  let ?b = "normalize_backend (lr_backend r)" and ?it = "base_item r q"
  obtain i w1 where s: "lb_stat ops ?b q w = (i, w1)" by force
  have k1: "looks w w1" by (rule stat_looks [OF g s])
  consider it where "x = Some it" "w' = w1" "ri_action it \<noteq> ARename"
    | info rs where "i = Some (Some info)" "pe_resolve pe ?b q (lr_type r) = Some (Some rs)"
      "ri_action (plan_resolved pe sc r q rs (?it\<lparr>ri_size := Some (fi_size info), ri_mtime := Some (fi_mtime info)\<rparr>)) = ARename"
    using p s by (cases i; cases "the i"; cases "pe_resolve pe ?b q (lr_type r)"; cases "the (pe_resolve pe ?b q (lr_type r))")
      (auto simp: plan_one_def Let_def base_item_def split: if_splits)
  then show ?thesis
  proof cases
    case 1
    with k1 show ?thesis by (simp add: sound_target_def)
  next
    case (2 info rs)
    let ?it2 = "plan_resolved pe sc r q rs (?it\<lparr>ri_size := Some (fi_size info), ri_mtime := Some (fi_mtime info)\<rparr>)"
    obtain n where n: "ri_new ?it2 = Some n" "n \<noteq> []" "is_path_in_path (lr_root r) n" "plan_norm n \<noteq> plan_norm q"
        "char_count (basename n) \<le> 255"
      using plan_resolved_sound [OF refl 2(3)] by blast
    obtain y w2 where e: "lb_exists ops ?b n w1 = (y, w2)" by force
    have k2: "looks w w2" by (rule looks_trans [OF k1 exists_looks [OF looks_good [OF k1] e]])
    have pres: "present w1 = present w" using k1 by (simp add: looks_def)
    have ans: "\<forall>v. y = Some v \<longrightarrow> v = present w1 (loc ?b n)" using exists_law [OF looks_good [OF k1] e] by (elim conjE)
    have free: "\<not> present w (loc ?b n)" if y: "y = Some False"
      using ans [rule_format, OF y] pres by simp
    have "plan_one ops pe sc r q w =
        (case y of None \<Rightarrow> (None, w2)
         | Some True \<Rightarrow> (Some (?it2\<lparr>ri_action := AConflict, ri_reason := Some ''target_exists''\<rparr>), w2)
         | Some False \<Rightarrow> (Some ?it2, w2))"
      using s 2 e n(1) by (simp add: plan_one_def Let_def opt_text_def)
    with p have "(x, w') = (case y of None \<Rightarrow> (None, w2)
         | Some True \<Rightarrow> (Some (?it2\<lparr>ri_action := AConflict, ri_reason := Some ''target_exists''\<rparr>), w2)
         | Some False \<Rightarrow> (Some ?it2, w2))" by simp
    moreover have "sound_target (\<lambda>b n. \<not> present w (loc b n)) ?it2" if "y = Some False"
      using n free [OF that] unfolding sound_target_def by (simp add: plan_resolved_fixed base_item_def)
    moreover have "sound_target F (?it2\<lparr>ri_action := AConflict, ri_reason := Some ''target_exists''\<rparr>)" for F
      by (simp add: sound_target_def)
    ultimately show ?thesis using k2 by (cases y; cases "the y") auto
  qed
qed

lemma plan_all_sound:
  "good w \<Longrightarrow> plan_all ops pe sc fs w = (x, w') \<Longrightarrow>
     looks w w' \<and> (\<forall>its. x = Some its \<longrightarrow> (\<forall>it \<in> set its. sound_target (\<lambda>b n. \<not> present w (loc b n)) it))"
proof (induction fs arbitrary: w x w')
  case (Cons f fs)
  obtain r q where f: "f = (r, q)" by force
  obtain y w1 where o: "plan_one ops pe sc r q w = (y, w1)" by force
  note one = plan_one_sound [OF Cons.prems(1) o]
  obtain z w2 where a: "plan_all ops pe sc fs w1 = (z, w2)" by force
  have g1: "good w1" using one looks_good by blast
  note all = Cons.IH [OF g1 a]
  have pres: "present w1 = present w" using one by (simp add: looks_def)
  show ?case
    using Cons.prems(2) f o a one all pres looks_trans [of w w1 w2] by (cases y; cases z) auto
qed auto

end

text \<open>Items with the same target are conflicts, so the items that remain to be renamed have different targets.\<close>

lemma same_target_conflicts:
  assumes "it \<in> set (mark_conflicts its)" and "it' \<in> set (mark_conflicts its)"
    and "wants_target it" and "wants_target it'" and "target_key it' = target_key it"
  shows "it' = it"
proof -
  let ?same = "filter (\<lambda>x. wants_target x \<and> target_key x = target_key it) its"
  have orig: "x \<in> set ?same \<and> length ?same \<le> 1"
    if "x \<in> set (mark_conflicts its)" "wants_target x" "target_key x = target_key it" for x
    using that by (auto simp: mark_conflicts_def wants_target_def split: if_splits)
  have "it \<in> set ?same" "it' \<in> set ?same" "length ?same \<le> 1" using orig assms by blast+
  then show ?thesis by (cases ?same) auto
qed

lemma mark_conflicts_sound: "\<forall>it \<in> set its. sound_target F it \<Longrightarrow> \<forall>it \<in> set (mark_conflicts its). sound_target F it"
  by (auto simp: mark_conflicts_def sound_target_def)

context library_storage begin

lemma build_items_sound:
  assumes g: "good w" and b: "build_items ops pe depth sc w = (Some its, w')"
  shows "looks w w' \<and> (\<forall>it \<in> set its. sound_target (\<lambda>b n. \<not> present w' (loc b n)) it) \<and> (\<exists>xs. its = mark_conflicts xs)"
proof -
  obtain roots w1 where r: "build_roots ops pe sc w = (roots, w1)" by force
  have k1: "looks w w1" using build_roots_looks [OF g, of pe sc] r by simp
  show ?thesis
  proof (cases "roots = []")
    case True
    with b r k1 show ?thesis by (auto simp: build_items_def mark_conflicts_def)
  next
    case False
    then obtain s w2 where sc: "scan_roots ops pe sc depth roots ([], []) w1 = Some (s, w2)"
      using b r by (cases roots) (auto simp: build_items_def split: option.splits)
    have k2: "looks w w2" by (rule looks_trans [OF k1 scan_roots_looks [OF looks_good [OF k1] sc]])
    obtain x w3 where a: "plan_all ops pe sc (sort_key snd (snd s)) w2 = (x, w3)" by force
    note all = plan_all_sound [OF looks_good [OF k2] a]
    have k3: "looks w w3" using looks_trans [OF k2] all by blast
    obtain xs where xs: "x = Some xs" "its = mark_conflicts xs" "w' = w3"
      using b r sc a False by (cases roots; cases x) (auto simp: build_items_def)
    have "present w2 = present w'" using k2 k3 xs by (simp add: looks_def)
    with all xs mark_conflicts_sound [of xs] k3 show ?thesis by auto
  qed
qed

end

text \<open>C9: On the local storage, every renaming of a fresh plan has a target that is inside its root, not the present
  place of the file, short enough, free, and wanted by no other item of the plan, whichever calls of the storage
  failed.\<close>

theorem planned_targets_sound:
  assumes "disk_inv w" and "build_items (local_ops faults known) pe depth sc w = (Some its, w')"
    and "it \<in> set its" and "ri_action it = ARename"
  shows "\<exists>n. ri_new it = Some n \<and> is_path_in_path (ri_root it) n \<and> plan_norm n \<noteq> plan_norm (ri_old it) \<and>
      char_count (basename n) \<le> 255 \<and> \<not> disk_present w' (resolve_place (ri_backend it) n) \<and>
      (\<forall>it' \<in> set its. ri_action it' = ARename \<and> target_key it' = target_key it \<longrightarrow> it' = it)"
proof -
  note b = local_disk.build_items_sound [OF assms(1,2)]
  obtain xs where xs: "its = mark_conflicts xs" using b by blast
  have wants: "x \<in> set its \<Longrightarrow> ri_action x = ARename \<Longrightarrow> wants_target x" for x
    using b by (auto simp: sound_target_def wants_target_def opt_text_def)
  have "\<forall>it' \<in> set its. ri_action it' = ARename \<and> target_key it' = target_key it \<longrightarrow> it' = it"
    using same_target_conflicts wants assms(3,4) xs by blast
  with b assms(3,4) show ?thesis by (auto simp: sound_target_def)
qed

definition demo_resolved :: resolved where
  "demo_resolved = \<lparr>mi_type = MOVIE, mi_title = ''b'', mi_name = ''b'', mi_year = ''2020'', mi_identity_id = None,
     mi_series_key = None, mi_anchor_provider = None, mi_anchor_external_id = None, mi_tmdb_id = PInt 7, mi_douban_id = PNone,
     mi_begin_season = None, mi_end_season = None, mi_begin_episode = None, mi_end_episode = None, mi_enclosure = None,
     mi_page_url = None, mi_rest = 0, rs_org_string = ''a'', rs_rev_string = [], rs_original_title = [], rs_imdb_id = [],
     rs_part = [], rs_category = None, rs_known_type = True, rs_en_title = [], rs_episode_title = [], rs_confidence = ''high'',
     rs_manual = False, rs_data = []\<rparr>"

definition demo_plan_env :: plan_env where
  "demo_plan_env = \<lparr>pe_config = \<lparr>lc_paths = (\<lambda>mt. if mt = MOVIE then [''/m''] else []), lc_backends = (\<lambda>_. [])\<rparr>,
     pe_movie_fields = [''title'', ''year''], pe_tv_fields = [], pe_categories = (\<lambda>_. []), pe_category_flag = (\<lambda>_. False),
     pe_is_dir = (\<lambda>_. True), pe_walk = (\<lambda>_. [(''/m'', [''a.mkv'', ''a.srt''])]),
     pe_resolve = (\<lambda>_ _ _. Some (Some demo_resolved)), pe_movie_path = (\<lambda>rs. Some (mi_year rs, mi_title rs)),
     pe_tv_path = (\<lambda>_. None), pe_has_word = (\<lambda>t. t \<noteq> [])\<rparr>"

definition demo_scope :: rename_scope where
  "demo_scope = \<lparr>sp_types = [MOVIE], sp_roots = [], sp_filename_only = True, sp_reorganize = False, sp_limit = 100\<rparr>"

definition plan_disk :: disk where
  "plan_disk = \<lparr>dk_nodes = [((''local'', [''m'']), Directory), ((''local'', [''m'', ''a.mkv'']), Regular ''video'' 1 0)],
     dk_calls = 0\<rparr>"

lemma demo_plan:
  "(case build_items (local_ops (\<lambda>_. False) (\<lambda>_. True)) demo_plan_env 9 demo_scope plan_disk of
      (Some [it], w) \<Rightarrow> ri_action it = ARename \<and> ri_new it = Some ''/m/b.mkv''
    | _ \<Rightarrow> False)"
  by code_simp

theorem planned_targets_sound_witness:
  "\<exists>its w' it n. build_items (local_ops (\<lambda>_. False) (\<lambda>_. True)) demo_plan_env 9 demo_scope plan_disk = (Some its, w') \<and>
     it \<in> set its \<and> ri_new it = Some n \<and> is_path_in_path (ri_root it) n \<and> \<not> disk_present w' (resolve_place (ri_backend it) n)"
proof -
  obtain it w' where b: "build_items (local_ops (\<lambda>_. False) (\<lambda>_. True)) demo_plan_env 9 demo_scope plan_disk = (Some [it], w')"
    and a: "ri_action it = ARename"
    using demo_plan by (auto split: prod.splits option.splits list.splits)
  have "disk_inv plan_disk" by code_simp
  from planned_targets_sound [OF this b _ a] b show ?thesis by fastforce
qed

section \<open>The listing ends\<close>

text \<open>A remote directory that was listed is not listed again: if the backend has finitely many directories, the recursion
  is no deeper than there are, even when directories contain themselves.\<close>

definition dirs_within :: "'w library_ops \<Rightarrow> string \<Rightarrow> string set \<Rightarrow> bool" where
  "dirs_within ops b D \<longleftrightarrow>
     (\<forall>d w es w'. lb_list ops b d w = (Some es, w') \<longrightarrow> (\<forall>e \<in> set es. fi_dir e \<longrightarrow> plan_norm (fi_path e) \<in> D))"

lemma dirs_withinD:
  assumes "dirs_within ops b D" and "lb_list ops b d w = (Some es, w')"
  shows "\<forall>e \<in> set es. fi_dir e \<longrightarrow> plan_norm (fi_path e) \<in> D"
  using assms(1) [unfolded dirs_within_def, THEN spec, THEN spec, THEN spec, THEN spec, THEN mp, OF assms(2)] .

lemma walk_ends:
  "finite D \<Longrightarrow> dirs_within ops b D \<Longrightarrow>
     plan_norm d \<in> D \<Longrightarrow> card (D - set (fst s)) < n \<Longrightarrow>
     \<exists>r. walk_dir ops b k n d s = Some r \<and> set (fst s) \<subseteq> set (fst (snd r))"
  "finite D \<Longrightarrow> dirs_within ops b D \<Longrightarrow>
     (\<forall>e \<in> set es. fi_dir e \<longrightarrow> plan_norm (fi_path e) \<in> D) \<Longrightarrow> card (D - set (fst s)) < n \<Longrightarrow>
     \<exists>r. walk_entries ops b k n es s = Some r \<and> set (fst s) \<subseteq> set (fst (snd r))"
proof (induction ops b k n d s and ops b k n es s rule: walk_dir_walk_entries.induct)
  case (2 ops b k n d visited c w)
  show ?case
  proof (cases "plan_norm d \<in> set visited")
    case False
    obtain x w1 where l: "lb_list ops b d w = (x, w1)" by force
    show ?thesis
    proof (cases x)
      case (Some es)
      have "card (D - set (plan_norm d # visited)) < card (D - set visited)"
        by (rule psubset_card_mono) (use "2.prems"(1,3) False in \<open>simp, force\<close>)
      then have c: "card (D - set (plan_norm d # visited)) < n" using "2.prems"(4) by simp
      have e: "\<forall>e \<in> set es. fi_dir e \<longrightarrow> plan_norm (fi_path e) \<in> D"
        by (rule dirs_withinD [OF "2.prems"(2) l [unfolded Some]])
      have "\<exists>r. walk_entries ops b k n es (plan_norm d # visited, c, w1) = Some r \<and>
          set (fst (plan_norm d # visited, c, w1)) \<subseteq> set (fst (snd r))"
        by (rule "2.IH" [OF False l [unfolded Some, symmetric] refl "2.prems"(1,2) e]) (use c in simp)
      then obtain r where "walk_entries ops b k n es (plan_norm d # visited, c, w1) = Some r"
        "insert (plan_norm d) (set visited) \<subseteq> set (fst (snd r))" by auto
      with l Some False show ?thesis by auto
    qed (use l False in auto)
  qed simp
next
  case (4 ops b k n e es visited c w)
  note hyps = "4.prems"
  show ?case
  proof (cases "fi_dir e")
    case True
    have in_D: "plan_norm (fi_path e) \<in> D" using hyps(3) True by simp
    obtain q where q: "walk_dir ops b k n (fi_path e) (visited, c, w) = Some q" "set visited \<subseteq> set (fst (snd q))"
      using "4.IH"(1) [OF True hyps(1,2) in_D hyps(4)] by auto
    obtain stop v c' w' where qq: "q = (stop, v, c', w')" by (cases q) auto
    show ?thesis
    proof (cases stop)
      case False
      have "card (D - set v) \<le> card (D - set visited)" using q(2) qq hyps(1) by (intro card_mono) auto
      then have c: "card (D - set v) < n" using hyps(4) by simp
      have "\<exists>r. walk_entries ops b k n es (v, c', w') = Some r \<and> set (fst (v, c', w')) \<subseteq> set (fst (snd r))"
        by (rule "4.IH"(2) [OF True q(1) qq [symmetric] _ hyps(1,2)]) (use c hyps(3) False in simp_all)
      then obtain r where "walk_entries ops b k n es (v, c', w') = Some r" "set v \<subseteq> set (fst (snd r))" by auto
      with q qq True False show ?thesis by auto
    qed (use True q qq in auto)
  next
    case False
    show ?thesis
    proof (cases "media_path (fi_path e)")
      case True
      obtain t c1 where kc: "k (plan_norm (fi_path e)) c = (t, c1)" by force
      show ?thesis using "4.IH"(3) [OF False True] hyps False True kc by (cases t) auto
    next
      case no_media: False
      show ?thesis using "4.IH"(4) [OF False no_media] hyps False no_media by auto
    qed
  qed
qed auto

text \<open>C34: The listing of a remote library returns when its backend has finitely many directories (by their normal paths), for
  any recursion limit above their number.\<close>

theorem remote_listing_ends:
  assumes "finite D" and "\<And>d w es w' e. lb_list ops b d w = (Some es, w') \<Longrightarrow> e \<in> set es \<Longrightarrow> fi_dir e \<Longrightarrow> plan_norm (fi_path e) \<in> D"
    and "plan_norm base \<in> D" and "card D < depth"
  shows "walk_dir ops b k depth base ([], c, w) \<noteq> None"
proof -
  have "dirs_within ops b D" using assms(2) unfolding dirs_within_def by blast
  from walk_ends(1) [OF assms(1) this assms(3), of "([], c, w)" depth k] assms(4) show ?thesis by auto
qed

text \<open>A directory that lists itself under a path with a dot.\<close>

definition looping_ops :: "unit library_ops" where
  "looping_ops = \<lparr>lb_known = (\<lambda>_. True), lb_exists = (\<lambda>_ _ w. (Some True, w)),
     lb_stat = (\<lambda>_ p w. (Some (Some \<lparr>fi_path = p, fi_size = 0, fi_mtime = 0, fi_dir = True\<rparr>), w)),
     lb_list = (\<lambda>_ p w. (Some [\<lparr>fi_path = ''/m/.'', fi_size = 0, fi_mtime = 0, fi_dir = True\<rparr>,
                               \<lparr>fi_path = ''/m/x.mkv'', fi_size = 0, fi_mtime = 0, fi_dir = False\<rparr>], w)),
     lb_mkdir = (\<lambda>_ _ w. (Some (), w)), lb_move = (\<lambda>_ _ _ w. (Some (), w)), lb_remove = (\<lambda>_ _ w. (Some (), w))\<rparr>"

theorem remote_listing_ends_witness:
  "walk_dir looping_ops ''7'' (\<lambda>p ps. (False, ps @ [p])) 2 ''/m'' ([], [], ()) \<noteq> None"
proof (rule remote_listing_ends [of "{''/m''}"])
  have n: "plan_norm ''/m/.'' = ''/m''" "plan_norm ''/m'' = ''/m''" by code_simp+
  show "plan_norm ''/m'' \<in> {''/m''}" using n by simp
  show "plan_norm (fi_path e) \<in> {''/m''}" if "lb_list looping_ops ''7'' d w = (Some es, w')" "e \<in> set es" "fi_dir e"
    for d w es w' e
    using that n by (auto simp: looping_ops_def)
qed simp_all

section \<open>The limit\<close>

definition within_limit :: "rename_scope \<Rightarrow> bool \<Rightarrow> scan \<Rightarrow> bool" where
  "within_limit sc stop s \<longleftrightarrow> int (length (snd s)) \<le> max 1 (sp_limit sc) \<and> (stop \<longleftrightarrow> scan_full sc s)"

lemma within_limit_not_full: "\<not> scan_full sc s \<Longrightarrow> within_limit sc False s"
  by (auto simp: within_limit_def scan_full_def)

lemma within_limit_False: "within_limit sc False s \<longleftrightarrow> \<not> scan_full sc s"
  by (auto simp: within_limit_def scan_full_def)

lemma take_path_limit:
  assumes "\<not> scan_full sc s"
  shows "within_limit sc (fst (take_path sc r p s)) (snd (take_path sc r p s))"
  using assms within_limit_not_full [OF assms]
  by (auto simp: take_path_def Let_def) (auto simp: within_limit_def scan_full_def)

lemma consume_limit:
  "\<not> scan_full sc s \<Longrightarrow> within_limit sc (fst (consume (take_path sc r) ps s)) (snd (consume (take_path sc r) ps s))"
proof (induction ps arbitrary: s)
  case (Cons p ps)
  obtain stop s1 where t: "take_path sc r p s = (stop, s1)" by (rule prod.exhaust)
  have "within_limit sc stop s1" using take_path_limit [OF Cons.prems, of r p] t by simp
  with Cons.IH [of s1] t show ?case by (cases stop) (auto simp: within_limit_False)
qed (simp add: within_limit_not_full)

lemma walk_limit:
  "k = take_path sc r \<Longrightarrow> \<not> scan_full sc (fst (snd s)) \<Longrightarrow> walk_dir ops b k n d s = Some q \<Longrightarrow>
     within_limit sc (fst q) (fst (snd (snd q)))"
  "k = take_path sc r \<Longrightarrow> \<not> scan_full sc (fst (snd s)) \<Longrightarrow> walk_entries ops b k n es s = Some q \<Longrightarrow>
     within_limit sc (fst q) (fst (snd (snd q)))"
proof (induction ops b k n d s and ops b k n es s arbitrary: q and q rule: walk_dir_walk_entries.induct)
  case (2 ops b k n d visited c w)
  obtain x w1 where l: "lb_list ops b d w = (x, w1)" by force
  show ?case
  proof (cases "plan_norm d \<in> set visited \<or> x = None")
    case True
    with "2.prems" l have "q = (False, visited, c, w) \<or> q = (False, plan_norm d # visited, c, w1)" by (auto split: if_splits)
    with "2.prems"(2) show ?thesis by (auto simp: within_limit_False)
  next
    case False
    then obtain es where es: "x = Some es" by auto
    have new: "plan_norm d \<notin> set visited" using False by simp
    have "walk_entries ops b k n es (plan_norm d # visited, c, w1) = Some q" using "2.prems"(3) l es new by simp
    with "2.IH" [OF new l [unfolded es, symmetric] refl "2.prems"(1)] "2.prems"(2) show ?thesis by simp
  qed
next
  case (4 ops b k n e es visited c w)
  show ?case
  proof (cases "fi_dir e")
    case True
    obtain p where p: "walk_dir ops b k n (fi_path e) (visited, c, w) = Some p"
      using "4.prems"(3) True by (auto split: option.splits)
    obtain stop v c' w' where pp: "p = (stop, v, c', w')" by (cases p) auto
    have lim: "within_limit sc stop c'" using "4.IH"(1) [OF True "4.prems"(1) _ p] "4.prems"(2) pp by simp
    show ?thesis
    proof (cases stop)
      case st: True
      with "4.prems"(3) True p pp lim show ?thesis by auto
    next
      case False
      then have we: "walk_entries ops b k n es (v, c', w') = Some q" using "4.prems"(3) True p pp by simp
      from "4.IH"(2) [OF True p pp [symmetric] _ "4.prems"(1) _ we] False lim show ?thesis
        by (simp add: within_limit_False)
    qed
  next
    case False
    show ?thesis
    proof (cases "media_path (fi_path e)")
      case True
      obtain t c1 where kc: "k (plan_norm (fi_path e)) c = (t, c1)" by (rule prod.exhaust)
      have lim: "within_limit sc t c1"
        using take_path_limit [of sc c r "plan_norm (fi_path e)"] "4.prems"(1,2) kc by simp
      show ?thesis
      proof (cases t)
        case st: True
        with "4.prems"(3) False True kc lim show ?thesis by auto
      next
        case st: False
        then have we: "walk_entries ops b k n es (visited, c1, w) = Some q" using "4.prems"(3) False True kc by simp
        from "4.IH"(3) [OF False True kc [symmetric] _ "4.prems"(1) _ we] st lim show ?thesis
          by (simp add: within_limit_False)
      qed
    next
      case no_media: False
      with "4.IH"(4) [OF False no_media "4.prems"(1)] "4.prems" False show ?thesis by simp
    qed
  qed
qed (auto simp: within_limit_False)

lemma scan_roots_limit:
  "\<not> scan_full sc s \<Longrightarrow> scan_roots ops pe sc depth rs s w = Some (s', w') \<Longrightarrow> int (length (snd s')) \<le> max 1 (sp_limit sc)"
proof (induction rs arbitrary: s w)
  case Nil
  then show ?case by (auto simp: scan_full_def)
next
  case (Cons r rs)
  then obtain s1 w1 where r: "scan_root ops pe sc depth r s w = Some (s1, w1)" by (auto split: option.splits)
  have "int (length (snd s1)) \<le> max 1 (sp_limit sc)"
  proof (cases "normalize_backend (lr_backend r) = ''local''")
    case True
    with r have "s1 = snd (consume (take_path sc r) (get_library_files pe (lr_root r)) s)" by (simp add: scan_root_def)
    with consume_limit [OF Cons.prems(1)] show ?thesis by (auto simp: within_limit_def)
  next
    case False
    with r obtain q where "walk_dir ops (normalize_backend (lr_backend r)) (take_path sc r) depth (lr_root r) ([], s, w) = Some q"
      "s1 = fst (snd (snd q))" by (auto simp: scan_root_def Let_def)
    with walk_limit(1) [OF refl, of sc "([], s, w)"] Cons.prems(1) show ?thesis by (auto simp: within_limit_def)
  qed
  with Cons r show ?case by (auto split: if_splits)
qed

lemma plan_all_length: "plan_all ops pe sc fs w = (Some its, w') \<Longrightarrow> length its = length fs"
proof (induction fs arbitrary: w its w')
  case (Cons f fs)
  obtain r q where f: "f = (r, q)" by force
  obtain x w1 where o: "plan_one ops pe sc r q w = (x, w1)" by force
  obtain y w2 where a: "plan_all ops pe sc fs w1 = (y, w2)" by force
  show ?case using Cons.prems f o a Cons.IH by (cases x; cases y) auto
qed simp

text \<open>A plan has at most as many items as its limit allows, one at least being allowed.\<close>

theorem plan_within_limit:
  assumes "build_items ops pe depth sc w = (Some its, w')"
  shows "int (length its) \<le> max 1 (sp_limit sc)"
proof -
  obtain roots w1 where r: "build_roots ops pe sc w = (roots, w1)" by force
  show ?thesis
  proof (cases "roots = []")
    case True
    with assms r show ?thesis by (auto simp: build_items_def)
  next
    case False
    then obtain s w2 where sc: "scan_roots ops pe sc depth roots ([], []) w1 = Some (s, w2)"
      using assms r by (cases roots) (auto simp: build_items_def split: option.splits)
    obtain x w3 where a: "plan_all ops pe sc (sort_key snd (snd s)) w2 = (x, w3)" by force
    obtain xs where xs: "x = Some xs" "its = mark_conflicts xs"
      using assms r sc a False by (cases roots; cases x) (auto simp: build_items_def)
    have "\<not> scan_full sc ([], [])" by (simp add: scan_full_def)
    from scan_roots_limit [OF this sc] plan_all_length [OF a [unfolded xs(1)]] xs(2) show ?thesis
      by (simp add: mark_conflicts_def)
  qed
qed

theorem plan_within_limit_witness:
  "\<exists>its w'. build_items (local_ops (\<lambda>_. False) (\<lambda>_. True)) demo_plan_env 9 (demo_scope\<lparr>sp_limit := 1\<rparr>) plan_disk = (Some its, w') \<and>
     int (length its) \<le> 1"
proof -
  have "fst (build_items (local_ops (\<lambda>_. False) (\<lambda>_. True)) demo_plan_env 9 (demo_scope\<lparr>sp_limit := 1\<rparr>) plan_disk) \<noteq> None"
    by code_simp
  then obtain its w' where
    b: "build_items (local_ops (\<lambda>_. False) (\<lambda>_. True)) demo_plan_env 9 (demo_scope\<lparr>sp_limit := 1\<rparr>) plan_disk = (Some its, w')"
    by (metis option.exhaust_sel prod.collapse)
  from plan_within_limit [OF b] b show ?thesis by simp
qed

end
