(* ===== verification/TransferEngine.thy ===== *)
theory TransferEngine
  imports LibraryStore
begin

text \<open>
  The transfer engine (\<open>services/transfer_engine.py\<close>, \<open>storage/cross_backend.py\<close>): the only place where downloaded
  files become files of the library, by copy, move or link, with the subtitles and audio tracks beside them.

  A backend is \<open>None\<close> for the engine's own local one, otherwise its id, which stands for the object. Operations that
  only remote or special storages have (streams, server-side copies, symbolic links) are fields of \<open>transfer_ops\<close>, as are the
  readers \<open>os.listdir\<close>, \<open>os.walk\<close> and \<open>os.path.getsize\<close> of the local disk. Titles are parsed and subtitle languages
  recognised by parameters (\<open>subtitle_env\<close>).
\<close>

section \<open>Data\<close>

record 'w transfer_ops =
  to_lib :: "'w library_ops"
  to_copy :: "string \<Rightarrow> string \<Rightarrow> string \<Rightarrow> 'w \<Rightarrow> unit option \<times> 'w"
  to_hardlink :: "string \<Rightarrow> string \<Rightarrow> string \<Rightarrow> 'w \<Rightarrow> unit option \<times> 'w"
  to_softlink :: "string \<Rightarrow> string \<Rightarrow> string \<Rightarrow> 'w \<Rightarrow> unit option \<times> 'w"
  to_fast :: "string \<Rightarrow> string \<Rightarrow> bool option"
  to_fast_copy :: "string \<Rightarrow> string \<Rightarrow> string \<Rightarrow> string \<Rightarrow> 'w \<Rightarrow> unit option \<times> 'w"
  to_stream :: "string \<Rightarrow> string \<Rightarrow> string \<Rightarrow> string \<Rightarrow> 'w \<Rightarrow> unit option \<times> 'w"
  to_level1 :: "string \<Rightarrow> 'w \<Rightarrow> string list"
  to_walk :: "string \<Rightarrow> 'w \<Rightarrow> string list"
  to_getsize :: "string \<Rightarrow> 'w \<Rightarrow> int option"

record sub_meta =
  sm_cn_name :: string
  sm_en_name :: string
  sm_season :: string
  sm_episode :: string

record subtitle_env =
  se_meta :: "string \<Rightarrow> sub_meta"
  se_plain_name :: "string \<Rightarrow> string"
  se_zhcn :: "string \<Rightarrow> bool"
  se_zhtw :: "string \<Rightarrow> bool"
  se_eng :: "string \<Rightarrow> bool"

record 'w transfer_state =
  tf_world :: 'w
  tf_blacklist :: "string list"

definition backend_id :: "string option \<Rightarrow> string" where
  "backend_id b = (case b of None \<Rightarrow> ''local'' | Some i \<Rightarrow> i)"

definition rmt_subext :: "string list" where
  "rmt_subext = [''.srt'', ''.ass'', ''.ssa'']"

definition rmt_audio_track_ext :: "string list" where
  "rmt_audio_track_ext = [''.mka'']"

section \<open>One file\<close>

definition cross_copy ::
  "'w transfer_ops \<Rightarrow> string \<Rightarrow> string \<Rightarrow> string \<Rightarrow> string \<Rightarrow> 'w \<Rightarrow> unit option \<times> 'w" where
  "cross_copy tops sb src db dst w =
     (if to_fast tops sb db = Some True then
        (case to_fast_copy tops sb src db dst w of
           (Some u, w1) \<Rightarrow> (Some u, w1)
         | (None, w1) \<Rightarrow> to_stream tops sb src db dst w1)
      else to_stream tops sb src db dst w)"

definition cross_move ::
  "'w transfer_ops \<Rightarrow> string \<Rightarrow> string \<Rightarrow> string \<Rightarrow> string \<Rightarrow> 'w \<Rightarrow> unit option \<times> 'w" where
  "cross_move tops sb src db dst w =
     (case cross_copy tops sb src db dst w of
        (None, w1) \<Rightarrow> (None, w1)
      | (Some _, w1) \<Rightarrow> lb_remove (to_lib tops) sb src w1)"

text \<open>\<open>_execute\<close>: \<open>None\<close> is an exception.\<close>

definition execute ::
  "'w transfer_ops \<Rightarrow> string \<Rightarrow> string \<Rightarrow> string \<Rightarrow> string option \<Rightarrow> string option \<Rightarrow> 'w \<Rightarrow> unit option \<times> 'w" where
  "execute tops src dst op sb db w =
     (if sb = None \<and> db = None then
        (if op = ''copy'' then to_copy tops ''local'' src dst w
         else if op = ''move'' then lb_move (to_lib tops) ''local'' src dst w
         else if op = ''link'' then to_hardlink tops ''local'' src dst w
         else if op = ''softlink'' then to_softlink tops ''local'' src dst w
         else (None, w))
      else
        let op1 = (if op = ''link'' \<or> op = ''softlink'' then ''copy'' else op); s = backend_id sb; t = backend_id db
        in if sb = db then
             (if op1 = ''copy'' then to_copy tops s src dst w
              else if op1 = ''move'' then
                (case to_copy tops s src dst w of (None, w1) \<Rightarrow> (None, w1) | (Some _, w1) \<Rightarrow> lb_remove (to_lib tops) s src w1)
              else (None, w))
           else if op1 = ''copy'' then cross_copy tops s src t dst w
           else if op1 = ''move'' then cross_move tops s src t dst w
           else (None, w))"

section \<open>Directories\<close>

text \<open>\<open>_list_backend_files\<close>: a listing that fails is empty.\<close>

definition list_backend_files :: "'w transfer_ops \<Rightarrow> string \<Rightarrow> string \<Rightarrow> string list \<Rightarrow> 'w \<Rightarrow> string list \<times> 'w" where
  "list_backend_files tops b dir exts w =
     (case lb_list (to_lib tops) b dir w of
        (None, w1) \<Rightarrow> ([], w1)
      | (Some es, w1) \<Rightarrow>
          (map fi_path (filter (\<lambda>e. \<not> fi_dir e \<and>
             (exts = [] \<or> lower (snd (splitext (fi_path e))) \<in> set exts)) es), w1))"

text \<open>\<open>get_dir_level1_files\<close>: the files of a local directory by suffix.\<close>

definition get_dir_level1_files :: "'w transfer_ops \<Rightarrow> string \<Rightarrow> string list \<Rightarrow> 'w \<Rightarrow> string list" where
  "get_dir_level1_files tops dir exts w =
     filter (\<lambda>p. exts = [] \<or> lower (snd (splitext p)) \<in> set exts) (to_level1 tops dir w)"

definition files_beside ::
  "'w transfer_ops \<Rightarrow> string option \<Rightarrow> string \<Rightarrow> string list \<Rightarrow> 'w \<Rightarrow> string list \<times> 'w" where
  "files_beside tops sb dir exts w =
     (case sb of
        None \<Rightarrow> (get_dir_level1_files tops dir exts w, w)
      | Some b \<Rightarrow> list_backend_files tops b dir exts w)"

text \<open>\<open>_list_backend_files_recursive\<close>: the outer \<open>None\<close> is a listing that never ends, the inner one an exception.\<close>

partial_function (option) list_recursive ::
  "'w transfer_ops \<Rightarrow> string \<Rightarrow> string list \<Rightarrow> string list \<Rightarrow> 'w \<Rightarrow> (string list option \<times> 'w) option" where
  "list_recursive tops b stack files w =
     (if stack = [] then Some (Some files, w)
      else case lb_list (to_lib tops) b (last stack) w of
             (None, w1) \<Rightarrow> Some (None, w1)
           | (Some es, w1) \<Rightarrow>
               list_recursive tops b (butlast stack @ map fi_path (filter fi_dir es))
                 (files @ map fi_path (filter (\<lambda>e. \<not> fi_dir e) es)) w1)"

section \<open>Subtitles and audio tracks\<close>

definition subtitle_match :: "string \<Rightarrow> string \<Rightarrow> sub_meta \<Rightarrow> sub_meta \<Rightarrow> bool" where
  "subtitle_match file_name sub_name m sub =
     (if fst (splitext file_name) = fst (splitext sub_name) then True
      else if sm_cn_name sub \<noteq> [] \<and> sm_cn_name sub = sm_cn_name m then True
      else if sm_en_name sub \<noteq> [] \<and> sm_en_name sub = sm_en_name m then True
      else if sm_season m \<noteq> [] \<and> sm_season m \<noteq> sm_season sub then False
      else \<not> (sm_episode m \<noteq> [] \<and> sm_episode m \<noteq> sm_episode sub))"

definition detect_subtitle_type :: "subtitle_env \<Rightarrow> string \<Rightarrow> string" where
  "detect_subtitle_type se p =
     (if se_zhcn se p then ''.chi.zh-cn'' else if se_zhtw se p then ''.zh-tw'' else if se_eng se p then ''.eng'' else ''.und'')"

definition subtitle_tags :: "subtitle_env \<Rightarrow> string \<Rightarrow> string list" where
  "subtitle_tags se p =
     (let t = detect_subtitle_type se p in t # map (\<lambda>n. t @ ''.'' @ int_str n) [1, 2, 3, 4, 5])"

text \<open>One subtitle under the first tag that is free; a file of the same size there counts as done.\<close>

fun place_subtitle ::
  "'w transfer_ops \<Rightarrow> string \<Rightarrow> string option \<Rightarrow> string option \<Rightarrow> string \<Rightarrow> int \<Rightarrow> string \<Rightarrow> string \<Rightarrow> string list \<Rightarrow> 'w \<Rightarrow>
   unit option \<times> 'w" where
  "place_subtitle tops op sb db src bytes stem ext [] w = (Some (), w)"
| "place_subtitle tops op sb db src bytes stem ext (tag # tags) w =
     (case lb_stat (to_lib tops) (backend_id db) (stem @ tag @ ext) w of
        (None, w1) \<Rightarrow> (None, w1)
      | (Some (Some info), w1) \<Rightarrow>
          if fi_size info = bytes then (Some (), w1) else place_subtitle tops op sb db src bytes stem ext tags w1
      | (Some None, w1) \<Rightarrow> (Some (), snd (execute tops src (stem @ tag @ ext) op sb db w1)))"

definition source_size :: "'w transfer_ops \<Rightarrow> string option \<Rightarrow> string \<Rightarrow> 'w \<Rightarrow> int option \<times> 'w" where
  "source_size tops sb p w =
     (case sb of
        None \<Rightarrow> (to_getsize tops p w, w)
      | Some b \<Rightarrow>
          (case lb_stat (to_lib tops) b p w of
             (None, w1) \<Rightarrow> (None, w1)
           | (Some None, w1) \<Rightarrow> (Some 0, w1)
           | (Some (Some info), w1) \<Rightarrow> (Some (fi_size info), w1)))"

fun place_subtitles ::
  "'w transfer_ops \<Rightarrow> subtitle_env \<Rightarrow> string \<Rightarrow> string option \<Rightarrow> string option \<Rightarrow> string \<Rightarrow> string \<Rightarrow> string list \<Rightarrow> 'w \<Rightarrow>
   unit option \<times> 'w" where
  "place_subtitles tops se op sb db file_name new_name [] w = (Some (), w)"
| "place_subtitles tops se op sb db file_name new_name (p # ps) w =
     (let b = basename p
      in if \<not> subtitle_match file_name (se_plain_name se b) (se_meta se file_name) (se_meta se b)
         then place_subtitles tops se op sb db file_name new_name ps w
         else case source_size tops sb p w of
                (None, w1) \<Rightarrow> (None, w1)
              | (Some n, w1) \<Rightarrow>
                  (case place_subtitle tops op sb db p n (fst (splitext new_name)) (snd (splitext p)) (subtitle_tags se p) w1 of
                     (None, w2) \<Rightarrow> (None, w2)
                   | (Some _, w2) \<Rightarrow> place_subtitles tops se op sb db file_name new_name ps w2))"

definition transfer_subtitles ::
  "'w transfer_ops \<Rightarrow> subtitle_env \<Rightarrow> string \<Rightarrow> string \<Rightarrow> string \<Rightarrow> string option \<Rightarrow> string option \<Rightarrow> 'w \<Rightarrow> unit option \<times> 'w"
  where
  "transfer_subtitles tops se org_name new_name op sb db w =
     (case files_beside tops sb (dirname org_name) rmt_subext w of
        (ps, w1) \<Rightarrow> place_subtitles tops se op sb db (basename org_name) new_name ps w1)"

fun place_tracks ::
  "'w transfer_ops \<Rightarrow> string \<Rightarrow> bool \<Rightarrow> string option \<Rightarrow> string option \<Rightarrow> string \<Rightarrow> string \<Rightarrow> string list \<Rightarrow> 'w \<Rightarrow> unit option \<times> 'w"
  where
  "place_tracks tops op over sb db file_pre new_name [] w = (Some (), w)"
| "place_tracks tops op over sb db file_pre new_name (p # ps) w =
     (let target = fst (splitext new_name) @ lower (snd (splitext p));
          go = (\<lambda>w. case execute tops p target op sb db w of
                  (None, w2) \<Rightarrow> (None, w2)
                | (Some _, w2) \<Rightarrow> place_tracks tops op over sb db file_pre new_name ps w2)
      in if fst (splitext (basename p)) \<noteq> file_pre then place_tracks tops op over sb db file_pre new_name ps w
         else case lb_exists (to_lib tops) (backend_id db) target w of
                (None, w1) \<Rightarrow> (None, w1)
              | (Some False, w1) \<Rightarrow> go w1
              | (Some True, w1) \<Rightarrow>
                  if \<not> over then place_tracks tops op over sb db file_pre new_name ps w1
                  else (case lb_remove (to_lib tops) (backend_id db) target w1 of
                          (None, w2) \<Rightarrow> (None, w2)
                        | (Some _, w2) \<Rightarrow> go w2))"

definition transfer_audio_tracks ::
  "'w transfer_ops \<Rightarrow> string \<Rightarrow> string \<Rightarrow> string \<Rightarrow> bool \<Rightarrow> string option \<Rightarrow> string option \<Rightarrow> 'w \<Rightarrow> unit option \<times> 'w" where
  "transfer_audio_tracks tops org_name new_name op over sb db w =
     (case files_beside tops sb (dirname org_name) rmt_audio_track_ext w of
        (ps, w1) \<Rightarrow> place_tracks tops op over sb db (fst (splitext (basename org_name))) new_name ps w1)"

section \<open>The engine\<close>

text \<open>\<open>insert_transfer_blacklist\<close>: normalised, without duplicates, and nothing for an empty path.\<close>

definition is_transfer_in_blacklist :: "string \<Rightarrow> 'w transfer_state \<Rightarrow> bool" where
  "is_transfer_in_blacklist p st \<longleftrightarrow> p \<noteq> [] \<and> normpath p \<in> set (tf_blacklist st)"

definition blacklist :: "string \<Rightarrow> 'w transfer_state \<Rightarrow> 'w transfer_state" where
  "blacklist p st =
     (if p = [] \<or> is_transfer_in_blacklist p st then st
      else st\<lparr>tf_blacklist := tf_blacklist st @ [normpath p]\<rparr>)"

text \<open>An old version of the file is removed before the new one is in place.\<close>

definition remove_old :: "'w transfer_ops \<Rightarrow> string \<Rightarrow> string \<Rightarrow> 'w \<Rightarrow> unit option \<times> 'w" where
  "remove_old tops b old w =
     (case lb_exists (to_lib tops) b old w of
        (None, w1) \<Rightarrow> (None, w1)
      | (Some False, w1) \<Rightarrow> (Some (), w1)
      | (Some True, w1) \<Rightarrow>
          (case lb_stat (to_lib tops) b old w1 of
             (None, w2) \<Rightarrow> (None, w2)
           | (Some None, w2) \<Rightarrow> (Some (), w2)
           | (Some (Some info), w2) \<Rightarrow> if fi_dir info then (Some (), w2) else lb_remove (to_lib tops) b old w2))"

definition put_file ::
  "'w transfer_ops \<Rightarrow> subtitle_env \<Rightarrow> string \<Rightarrow> string \<Rightarrow> string \<Rightarrow> bool \<Rightarrow> string option \<Rightarrow> string option \<Rightarrow> 'w transfer_state \<Rightarrow>
   bool option \<times> 'w transfer_state" where
  "put_file tops se src dst op over sb db st =
     (case execute tops src dst op sb db (tf_world st) of
        (None, w1) \<Rightarrow> (None, st\<lparr>tf_world := w1\<rparr>)
      | (Some _, w1) \<Rightarrow>
          let st1 = blacklist src (st\<lparr>tf_world := w1\<rparr>)
          in (case transfer_subtitles tops se src dst op sb db w1 of
                (None, w2) \<Rightarrow> (None, st1\<lparr>tf_world := w2\<rparr>)
              | (Some _, w2) \<Rightarrow>
                  (case transfer_audio_tracks tops src dst op over sb db w2 of
                     (None, w3) \<Rightarrow> (None, st1\<lparr>tf_world := w3\<rparr>)
                   | (Some _, w3) \<Rightarrow> (Some True, st1\<lparr>tf_world := w3\<rparr>))))"

definition transfer ::
  "'w transfer_ops \<Rightarrow> subtitle_env \<Rightarrow> string \<Rightarrow> string \<Rightarrow> string \<Rightarrow> bool \<Rightarrow> string option \<Rightarrow> string option \<Rightarrow> string option \<Rightarrow>
   'w transfer_state \<Rightarrow> bool option \<times> 'w transfer_state" where
  "transfer tops se src dst op over old sb db st =
     (let b = backend_id db
      in if \<not> over then
           (case lb_exists (to_lib tops) b dst (tf_world st) of
              (None, w1) \<Rightarrow> (None, st\<lparr>tf_world := w1\<rparr>)
            | (Some True, w1) \<Rightarrow> (Some False, st\<lparr>tf_world := w1\<rparr>)
            | (Some False, w1) \<Rightarrow> put_file tops se src dst op over sb db (st\<lparr>tf_world := w1\<rparr>))
         else
           (case old of
              None \<Rightarrow> put_file tops se src dst op over sb db st
            | Some o' \<Rightarrow>
                if o' = [] then put_file tops se src dst op over sb db st
                else (case remove_old tops b o' (tf_world st) of
                        (None, w1) \<Rightarrow> (None, st\<lparr>tf_world := w1\<rparr>)
                      | (Some _, w1) \<Rightarrow> put_file tops se src dst op over sb db (st\<lparr>tf_world := w1\<rparr>))))"

fun transfer_files ::
  "'w transfer_ops \<Rightarrow> string \<Rightarrow> string \<Rightarrow> string \<Rightarrow> bool \<Rightarrow> string option \<Rightarrow> string option \<Rightarrow> string list \<Rightarrow> 'w transfer_state \<Rightarrow>
   unit option \<times> 'w transfer_state" where
  "transfer_files tops src_dir target_dir op record sb db [] st = (Some (), st)"
| "transfer_files tops src_dir target_dir op record sb db (p # ps) st =
     (let new = os_join target_dir (relpath p src_dir); b = backend_id db
      in case lb_exists (to_lib tops) b new (tf_world st) of
           (None, w1) \<Rightarrow> (None, st\<lparr>tf_world := w1\<rparr>)
         | (Some True, w1) \<Rightarrow> transfer_files tops src_dir target_dir op record sb db ps (st\<lparr>tf_world := w1\<rparr>)
         | (Some False, w1) \<Rightarrow>
             (case lb_mkdir (to_lib tops) b (dirname new) w1 of
                (None, w2) \<Rightarrow> (None, st\<lparr>tf_world := w2\<rparr>)
              | (Some _, w2) \<Rightarrow>
                  (case execute tops p new op sb db w2 of
                     (None, w3) \<Rightarrow> (None, st\<lparr>tf_world := w3\<rparr>)
                   | (Some _, w3) \<Rightarrow>
                       let st1 = st\<lparr>tf_world := w3\<rparr>
                       in transfer_files tops src_dir target_dir op record sb db ps (if record then blacklist p st1 else st1))))"

definition transfer_dir ::
  "'w transfer_ops \<Rightarrow> string \<Rightarrow> string \<Rightarrow> string \<Rightarrow> bool \<Rightarrow> string option \<Rightarrow> string option \<Rightarrow> 'w transfer_state \<Rightarrow>
   (unit option \<times> 'w transfer_state) option" where
  "transfer_dir tops src_dir target_dir op record sb db st =
     (case sb of
        None \<Rightarrow> Some (transfer_files tops src_dir target_dir op record sb db (to_walk tops src_dir (tf_world st)) st)
      | Some b \<Rightarrow>
          (case list_recursive tops b [src_dir] [] (tf_world st) of
             None \<Rightarrow> None
           | Some (None, w1) \<Rightarrow> Some (None, st\<lparr>tf_world := w1\<rparr>)
           | Some (Some ps, w1) \<Rightarrow> Some (transfer_files tops src_dir target_dir op record sb db ps (st\<lparr>tf_world := w1\<rparr>))))"

definition transfer_bluray_dir ::
  "'w transfer_ops \<Rightarrow> string \<Rightarrow> string \<Rightarrow> string \<Rightarrow> string option \<Rightarrow> string option \<Rightarrow> 'w transfer_state \<Rightarrow>
   (unit option \<times> 'w transfer_state) option" where
  "transfer_bluray_dir tops src_dir target_dir op sb db st =
     (case transfer_dir tops src_dir target_dir op False sb db st of
        Some (Some u, st1) \<Rightarrow> Some (Some u, blacklist src_dir st1)
      | r \<Rightarrow> r)"

end
