(* ===== verification/TransferProofs.thy ===== *)
theory TransferProofs
  imports TransferEngine
begin

text \<open>
  What a transfer does to the files that are there already. The laws it needs of a storage beyond
  \<open>library_storage\<close> are the locale \<open>transfer_storage\<close>, interpreted on the local disk: a copying or linking
  transfer that may not overwrite changes no file, a moving one loses none. With the flag to overwrite, the old version
  is removed before the new one is in place, and a failure between the two loses it.
\<close>

section \<open>The laws\<close>

text \<open>\<open>vacant\<close> says of the files that there is none at or below a path.\<close>

locale transfer_storage = library_storage "to_lib tops" loc files present good
  for tops :: "'w transfer_ops"
    and loc :: "string \<Rightarrow> string \<Rightarrow> 'l"
    and files :: "'w \<Rightarrow> 'l \<Rightarrow> 'c option"
    and present :: "'w \<Rightarrow> 'l \<Rightarrow> bool"
    and good :: "'w \<Rightarrow> bool" +
  fixes vacant :: "('l \<Rightarrow> 'c option) \<Rightarrow> string \<Rightarrow> string \<Rightarrow> bool"
  assumes absent_vacant: "good w \<Longrightarrow> \<not> present w (loc b p) \<Longrightarrow> vacant (files w) b p"
    and vacant_free: "vacant fs b p \<Longrightarrow> fs (loc b p) = None"
    and copy_law: "good w \<Longrightarrow> vacant (files w) b t \<Longrightarrow> to_copy tops b s t w = (r, w') \<Longrightarrow>
      good w' \<and> files w \<subseteq>\<^sub>m files w'"
    and link_law: "good w \<Longrightarrow> vacant (files w) b t \<Longrightarrow> to_hardlink tops b s t w = (r, w') \<Longrightarrow>
      good w' \<and> files w \<subseteq>\<^sub>m files w'"
begin

text \<open>What an operation that does not overwrite keeps: every file, or for a move every content.\<close>

definition safe :: "string \<Rightarrow> 'w \<Rightarrow> 'w \<Rightarrow> bool" where
  "safe op w w' \<longleftrightarrow> good w' \<and>
     (if op = ''move'' then contents (files w') = contents (files w) else files w \<subseteq>\<^sub>m files w')"

lemma safe_same: "good w' \<Longrightarrow> files w' = files w \<Longrightarrow> safe op w w'"
  by (simp add: safe_def)

lemma safe_trans: "safe op w w' \<Longrightarrow> safe op w' w'' \<Longrightarrow> safe op w w''"
  by (auto simp: safe_def intro: map_le_trans split: if_splits)

lemma safe_good: "safe op w w' \<Longrightarrow> good w'"
  by (simp add: safe_def)

lemma exists_safe:
  assumes "good w" and "lb_exists (to_lib tops) b p w = (r, w')"
  shows "safe op w w' \<and> (r = Some False \<longrightarrow> vacant (files w') b p)"
proof -
  note law = exists_law [OF assms]
  have "\<not> present w' (loc b p)" if "r = Some False" using law that by auto
  with law absent_vacant [of w'] show ?thesis by (simp add: safe_same)
qed

lemma stat_safe:
  assumes "good w" and "lb_stat (to_lib tops) b p w = (r, w')"
  shows "safe op w w' \<and> (r = Some None \<longrightarrow> vacant (files w') b p)"
proof -
  note law = stat_law [OF assms]
  have "\<not> present w' (loc b p)" if "r = Some None" using law that by auto
  with law absent_vacant [of w'] show ?thesis by (simp add: safe_same)
qed

lemma mkdir_safe:
  assumes "good w" and "lb_mkdir (to_lib tops) b p w = (r, w')"
  shows "safe op w w' \<and> files w' = files w"
  using mkdir_law [OF assms] by (simp add: safe_same)

lemma execute_safe:
  assumes g: "good w" and v: "vacant (files w) ''local'' dst" and op: "op \<noteq> ''softlink''"
    and e: "execute tops src dst op None None w = (r, w')"
  shows "safe op w w'"
proof -
  consider "op = ''copy''" | "op = ''move''" | "op = ''link''" | "op \<notin> {''copy'', ''move'', ''link'', ''softlink''}"
    using op by auto
  then show ?thesis
  proof cases
    case 1
    with e copy_law [OF g v] show ?thesis by (auto simp: execute_def safe_def)
  next
    case 2
    with e move_law [OF g _ vacant_free [OF v]] show ?thesis by (auto simp: execute_def safe_def)
  next
    case 3
    with e link_law [OF g v] show ?thesis by (auto simp: execute_def safe_def)
  next
    case 4
    with e g show ?thesis by (auto simp: execute_def safe_same)
  qed
qed

lemma place_subtitle_safe:
  assumes "op \<noteq> ''softlink''"
  shows "good w \<Longrightarrow> place_subtitle tops op None None src n stem ext tags w = (r, w') \<Longrightarrow> safe op w w'"
proof (induction tags arbitrary: w)
  case Nil
  then show ?case by (simp add: safe_same)
next
  case (Cons tag tags)
  obtain x w1 where s: "lb_stat (to_lib tops) ''local'' (stem @ tag @ ext) w = (x, w1)" by force
  note st = stat_safe [OF Cons.prems(1) s, of op]
  then have g1: "good w1" by (auto dest: safe_good)
  consider "x = None" | info where "x = Some (Some info)" | "x = Some None" by (cases x; cases "the x") auto
  then show ?case
  proof cases
    case 1
    with Cons.prems(2) s st show ?thesis by (simp add: backend_id_def)
  next
    case (2 info)
    show ?thesis
    proof (cases "fi_size info = n")
      case True
      with Cons.prems(2) s st 2 show ?thesis by (simp add: backend_id_def)
    next
      case False
      then have "place_subtitle tops op None None src n stem ext tags w1 = (r, w')"
        using Cons.prems(2) s 2 by (simp add: backend_id_def)
      from Cons.IH [OF g1 this] st show ?thesis by (auto intro: safe_trans)
    qed
  next
    case 3
    obtain y w2 where e: "execute tops src (stem @ tag @ ext) op None None w1 = (y, w2)" by force
    have "safe op w1 w2" by (rule execute_safe [OF g1 _ assms e]) (use st 3 in simp)
    moreover have "w' = w2" using Cons.prems(2) s 3 e by (simp add: backend_id_def)
    ultimately show ?thesis using st by (auto intro: safe_trans)
  qed
qed

lemma place_subtitles_safe:
  assumes "op \<noteq> ''softlink''"
  shows "good w \<Longrightarrow> place_subtitles tops se op None None f new ps w = (r, w') \<Longrightarrow> safe op w w'"
proof (induction ps arbitrary: w)
  case Nil
  then show ?case by (simp add: safe_same)
next
  case (Cons p ps)
  show ?case
  proof (cases "subtitle_match f (se_plain_name se (basename p)) (se_meta se f) (se_meta se (basename p))")
    case False
    with Cons show ?thesis by simp
  next
    case True
    obtain x w1 where p1: "place_subtitle tops op None None p (the (to_getsize tops p w)) (fst (splitext new))
        (snd (splitext p)) (subtitle_tags se p) w = (x, w1)" by force
    have k: "safe op w w1" by (rule place_subtitle_safe [OF assms Cons.prems(1) p1])
    show ?thesis
    proof (cases "to_getsize tops p w = None \<or> x = None")
      case True': True
      then show ?thesis using Cons.prems True p1 k
        by (cases "to_getsize tops p w") (auto simp: source_size_def safe_same)
    next
      case False
      then have "place_subtitles tops se op None None f new ps w1 = (r, w')"
        using Cons.prems(2) True p1 by (auto simp: source_size_def Let_def)
      from Cons.IH [OF safe_good [OF k] this] show ?thesis by (rule safe_trans [OF k])
    qed
  qed
qed

lemma place_tracks_safe:
  assumes "op \<noteq> ''softlink''"
  shows "good w \<Longrightarrow> place_tracks tops op False None None pre new ps w = (r, w') \<Longrightarrow> safe op w w'"
proof (induction ps arbitrary: w)
  case Nil
  then show ?case by (simp add: safe_same)
next
  case (Cons p ps)
  let ?t = "fst (splitext new) @ lower (snd (splitext p))"
  show ?case
  proof (cases "fst (splitext (basename p)) = pre")
    case False
    with Cons show ?thesis by (simp add: Let_def)
  next
    case True
    obtain x w1 where e1: "lb_exists (to_lib tops) ''local'' ?t w = (x, w1)" by force
    note ex = exists_safe [OF Cons.prems(1) e1, of op]
    then have g1: "good w1" by (auto dest: safe_good)
    consider "x = None" | "x = Some True" | "x = Some False" by (cases x; cases "the x") auto
    then show ?thesis
    proof cases
      case 1
      with Cons.prems(2) True e1 ex show ?thesis by (simp add: Let_def backend_id_def)
    next
      case 2
      then have "place_tracks tops op False None None pre new ps w1 = (r, w')"
        using Cons.prems(2) True e1 by (simp add: Let_def backend_id_def)
      from Cons.IH [OF g1 this] ex show ?thesis by (auto intro: safe_trans)
    next
      case 3
      obtain y w2 where e: "execute tops p ?t op None None w1 = (y, w2)" by force
      have k: "safe op w1 w2" by (rule execute_safe [OF g1 _ assms e]) (use ex 3 in simp)
      show ?thesis
      proof (cases y)
        case None
        with Cons.prems(2) True e1 3 e k ex show ?thesis by (auto simp: Let_def backend_id_def intro: safe_trans)
      next
        case (Some u)
        then have "place_tracks tops op False None None pre new ps w2 = (r, w')"
          using Cons.prems(2) True e1 3 e by (simp add: Let_def backend_id_def)
        from Cons.IH [OF safe_good [OF k] this] k ex show ?thesis by (auto intro: safe_trans)
      qed
    qed
  qed
qed

lemma put_file_safe:
  assumes g: "good (tf_world st)" and v: "vacant (files (tf_world st)) ''local'' dst" and op: "op \<noteq> ''softlink''"
    and p: "put_file tops se src dst op False None None st = (r, st')"
  shows "safe op (tf_world st) (tf_world st')"
proof -
  obtain x w1 where e: "execute tops src dst op None None (tf_world st) = (x, w1)" by force
  have k1: "safe op (tf_world st) w1" by (rule execute_safe [OF g v op e])
  let ?ps = "get_dir_level1_files tops (dirname src) rmt_subext w1"
  obtain y w2 where s: "place_subtitles tops se op None None (basename src) dst ?ps w1 = (y, w2)" by force
  have k2: "safe op (tf_world st) w2"
    by (rule safe_trans [OF k1 place_subtitles_safe [OF op safe_good [OF k1] s]])
  obtain z w3 where t: "place_tracks tops op False None None (fst (splitext (basename src))) dst
      (get_dir_level1_files tops (dirname src) rmt_audio_track_ext w2) w2 = (z, w3)" by force
  have k3: "safe op (tf_world st) w3"
    by (rule safe_trans [OF k2 place_tracks_safe [OF op safe_good [OF k2] t]])
  have "tf_world st' \<in> {w1, w2, w3}"
    using p e s t by (cases x; cases y; cases z)
      (auto simp: put_file_def transfer_subtitles_def transfer_audio_tracks_def files_beside_def blacklist_def Let_def)
  with k1 k2 k3 show ?thesis by auto
qed

lemma transfer_safe:
  assumes g: "good (tf_world st)" and op: "op \<noteq> ''softlink''"
    and t: "transfer tops se src dst op False old None None st = (r, st')"
  shows "safe op (tf_world st) (tf_world st')"
proof -
  obtain x w1 where e: "lb_exists (to_lib tops) ''local'' dst (tf_world st) = (x, w1)" by force
  note ex = exists_safe [OF g e, of op]
  then have g1: "good w1" by (auto dest: safe_good)
  show ?thesis
  proof (cases "x = Some False")
    case True
    then have "put_file tops se src dst op False None None (st\<lparr>tf_world := w1\<rparr>) = (r, st')"
      using t e by (simp add: transfer_def Let_def backend_id_def)
    from put_file_safe [OF _ _ op this] g1 ex True show ?thesis by (auto intro: safe_trans)
  next
    case False
    then have "tf_world st' = w1" using t e by (cases x) (auto simp: transfer_def Let_def backend_id_def)
    with ex show ?thesis by simp
  qed
qed

lemma transfer_files_safe:
  assumes op: "op \<noteq> ''softlink''"
  shows "good (tf_world st) \<Longrightarrow> transfer_files tops src_dir target_dir op rec None None ps st = (r, st') \<Longrightarrow>
    safe op (tf_world st) (tf_world st')"
proof (induction ps arbitrary: st)
  case Nil
  then show ?case by (simp add: safe_same)
next
  case (Cons p ps)
  let ?new = "os_join target_dir (relpath p src_dir)"
  obtain x w1 where e1: "lb_exists (to_lib tops) ''local'' ?new (tf_world st) = (x, w1)" by force
  note ex = exists_safe [OF Cons.prems(1) e1, of op]
  then have g1: "good w1" by (auto dest: safe_good)
  obtain y w2 where m: "lb_mkdir (to_lib tops) ''local'' (dirname ?new) w1 = (y, w2)" by force
  note mk = mkdir_safe [OF g1 m, of op]
  then have g2: "good w2" by (auto dest: safe_good)
  obtain z w3 where e: "execute tops p ?new op None None w2 = (z, w3)" by force
  have k3: "safe op w2 w3" if "x = Some False"
    by (rule execute_safe [OF g2 _ op e]) (use ex mk that in simp)
  consider "tf_world st' = w1" | "x = Some False" "tf_world st' = w2" | "x = Some False" "tf_world st' = w3"
    | "x = Some True" "transfer_files tops src_dir target_dir op rec None None ps (st\<lparr>tf_world := w1\<rparr>) = (r, st')"
    | st1 where "x = Some False" "transfer_files tops src_dir target_dir op rec None None ps st1 = (r, st')" "tf_world st1 = w3"
    using Cons.prems(2) e1 m e
    by (cases x; cases y; cases z) (auto simp: Let_def backend_id_def blacklist_def split: if_splits bool.splits)
  then show ?case
  proof cases
    case 4
    from Cons.IH [OF _ this(2)] g1 ex show ?thesis by (auto intro: safe_trans)
  next
    case 5
    from Cons.IH [OF _ this(2)] 5 k3 ex mk show ?thesis by (auto intro: safe_trans dest: safe_good)
  qed (use ex mk k3 in \<open>auto intro: safe_trans\<close>)
qed

end

section \<open>The local disk\<close>

text \<open>\<open>shutil.copy2\<close> of a regular file, into the target when that is a directory; \<open>os.link\<close>, which never replaces, with
  the copy it falls back to across file systems. A linked file is a second file with the same content.\<close>

definition shutil_copy :: "place \<Rightarrow> place \<Rightarrow> disk \<Rightarrow> disk option" where
  "shutil_copy s t d =
     (let real = (if node_at d t = Some Directory then (fst t, snd t @ [last (snd s)]) else t)
      in case node_at d s of
           Some (Regular a n m) \<Rightarrow>
             if s = real \<or> node_at d real = Some Directory then None
             else Some (d\<lparr>dk_nodes := dput real (Regular a n m) (dk_nodes d)\<rparr>)
         | _ \<Rightarrow> None)"

definition local_copy :: "string \<Rightarrow> string \<Rightarrow> string \<Rightarrow> disk \<Rightarrow> unit option \<times> disk" where
  "local_copy b src dst d =
     (let t = resolve_place b dst
      in case make_dirs (b, butlast (snd t)) d of
           None \<Rightarrow> (None, d)
         | Some d1 \<Rightarrow> (case shutil_copy (resolve_place b src) t d1 of None \<Rightarrow> (None, d1) | Some d2 \<Rightarrow> (Some (), d2)))"

definition local_hardlink :: "string \<Rightarrow> string \<Rightarrow> string \<Rightarrow> disk \<Rightarrow> unit option \<times> disk" where
  "local_hardlink b src dst d =
     (let t = resolve_place b dst
      in case make_dirs (b, butlast (snd t)) d of
           None \<Rightarrow> (None, d)
         | Some d1 \<Rightarrow>
             if node_at d1 t \<noteq> None then (None, d1)
             else (case shutil_copy (resolve_place b src) t d1 of None \<Rightarrow> (None, d1) | Some d2 \<Rightarrow> (Some (), d2)))"

definition disk_level1 :: "string \<Rightarrow> disk \<Rightarrow> string list" where
  "disk_level1 dir d =
     map (\<lambda>e. os_join dir (last (snd (fst e))))
       (filter (\<lambda>e. child_of (resolve_place ''local'' dir) (fst e) \<and> snd e \<noteq> Directory) (dk_nodes d))"

definition disk_walk :: "string \<Rightarrow> disk \<Rightarrow> string list" where
  "disk_walk dir d =
     (let l = resolve_place ''local'' dir
      in map (\<lambda>e. os_join dir (join ''/'' (drop (length (snd l)) (snd (fst e)))))
           (filter (\<lambda>e. fst (fst e) = fst l \<and> strict_prefix (snd l) (snd (fst e)) \<and> snd e \<noteq> Directory) (dk_nodes d)))"

definition disk_size :: "string \<Rightarrow> disk \<Rightarrow> int option" where
  "disk_size p d = map_option (\<lambda>nd. fi_size (info_of p nd)) (node_at d (resolve_place ''local'' p))"

text \<open>The remote operations are left open: the engine does not use them between local backends.\<close>

definition local_transfer_ops :: "(nat \<Rightarrow> bool) \<Rightarrow> disk transfer_ops \<Rightarrow> disk transfer_ops" where
  "local_transfer_ops faults remote =
     remote\<lparr>to_lib := local_ops faults (\<lambda>_. True),
       to_copy := (\<lambda>b s t. disk_call faults (local_copy b s t)),
       to_hardlink := (\<lambda>b s t. disk_call faults (local_hardlink b s t)),
       to_level1 := disk_level1, to_walk := disk_walk, to_getsize := disk_size\<rparr>"

definition disk_vacant :: "(place \<Rightarrow> node option) \<Rightarrow> string \<Rightarrow> string \<Rightarrow> bool" where
  "disk_vacant fs b p \<longleftrightarrow> (\<forall>zs. fs (b, snd (resolve_place b p) @ zs) = None)"

lemma local_transfer_ops_simps [simp]:
  "to_lib (local_transfer_ops faults remote) = local_ops faults (\<lambda>_. True)"
  "to_copy (local_transfer_ops faults remote) b s t = disk_call faults (local_copy b s t)"
  "to_hardlink (local_transfer_ops faults remote) b s t = disk_call faults (local_hardlink b s t)"
  by (simp_all add: local_transfer_ops_def)

lemma add_file:
  assumes inv: "disk_inv d" and t: "node_at d t = None" "node_at d (fst t, butlast (snd t)) = Some Directory"
    "\<forall>n \<in> set (snd t). plain n" and d': "d' = d\<lparr>dk_nodes := dput t nd (dk_nodes d)\<rparr>"
  shows "disk_inv d' \<and> node_at d' = (node_at d)(t \<mapsto> nd)"
proof -
  have tk: "snd t \<noteq> []" "t \<notin> fst ` set (dk_nodes d)" using t(1) by (auto simp: node_at_def map_of_eq_None_iff split: if_splits)
  have nodes: "dk_nodes d' = dk_nodes d @ [(t, nd)]" using keys_dput_new [of t "dk_nodes d" nd] tk d' by simp
  have node: "node_at d' = (node_at d)(t \<mapsto> nd)"
    using tk(1) d' by (auto simp: node_at_def fun_eq_iff)
  have up: "node_at d' (fst k, butlast (snd k)) = Some Directory"
    if "node_at d (fst k, butlast (snd k)) = Some Directory" for k
  proof -
    have "(fst k, butlast (snd k)) \<noteq> t" using t(1) that by auto
    with that node show ?thesis by simp
  qed
  have "disk_inv d'"
    unfolding disk_inv_def
  proof (intro conjI ballI)
    show "distinct (map fst (dk_nodes d'))" using inv tk(2) nodes by (simp add: disk_inv_def)
    fix k assume "k \<in> fst ` set (dk_nodes d')"
    then consider "k = t" | "k \<in> fst ` set (dk_nodes d)" using nodes by auto
    then have k: "snd k \<noteq> [] \<and> (\<forall>n \<in> set (snd k). plain n) \<and> node_at d (fst k, butlast (snd k)) = Some Directory"
      by cases (use tk t inv in \<open>auto simp: disk_inv_def\<close>)
    then show "snd k \<noteq> []" "node_at d' (fst k, butlast (snd k)) = Some Directory" using up by blast+
    show "plain n" if "n \<in> set (snd k)" for n using k that by blast
  qed
  with node show ?thesis by blast
qed

lemma shutil_copy_law:
  assumes inv: "disk_inv d" and c: "shutil_copy s t d = Some d'" and free: "\<forall>zs. disk_files d (fst t, snd t @ zs) = None"
    and pl: "\<forall>n \<in> set (snd s) \<union> set (snd t). plain n" and up: "node_at d (fst t, butlast (snd t)) = Some Directory"
  shows "disk_inv d' \<and> disk_files d \<subseteq>\<^sub>m disk_files d'"
proof -
  define real where "real = (if node_at d t = Some Directory then (fst t, snd t @ [last (snd s)]) else t)"
  obtain a n m where s: "node_at d s = Some (Regular a n m)" and r: "node_at d real \<noteq> Some Directory"
    and d': "d' = d\<lparr>dk_nodes := dput real (Regular a n m) (dk_nodes d)\<rparr>"
    using c unfolding shutil_copy_def real_def [symmetric] Let_def
    by (auto split: option.splits node.splits if_splits)
  have ne: "snd s \<noteq> []" using s by (auto simp: node_at_def split: if_splits)
  have "disk_files d real = None" using free [THEN spec, of "[]"] free [THEN spec, of "[last (snd s)]"] by (simp add: real_def)
  with r have none: "node_at d real = None" by (auto simp: disk_files_def split: option.splits node.splits)
  have "node_at d (fst real, butlast (snd real)) = Some Directory" using up by (auto simp: real_def)
  moreover have "\<forall>x \<in> set (snd real). plain x" using pl ne by (auto simp: real_def)
  ultimately have "disk_inv d' \<and> node_at d' = (node_at d)(real \<mapsto> Regular a n m)" using add_file [OF inv none _ _ d'] by blast
  moreover from this none have "disk_files d \<subseteq>\<^sub>m disk_files d'" by (auto simp: map_le_def disk_files_def dom_def)
  ultimately show ?thesis by blast
qed

lemma copy_in_place:
  assumes inv: "disk_inv d" and v: "disk_vacant (disk_files d) b dst" and m: "make_dirs (b, butlast (snd (resolve_place b dst))) d = Some d1"
  shows "disk_inv d1 \<and> disk_files d1 = disk_files d \<and>
    (\<forall>d2. shutil_copy (resolve_place b src) (resolve_place b dst) d1 = Some d2 \<longrightarrow>
       disk_inv d2 \<and> disk_files d \<subseteq>\<^sub>m disk_files d2)"
proof -
  let ?t = "resolve_place b dst"
  have pl: "\<forall>n \<in> set (snd (resolve_place b src)) \<union> set (snd ?t). plain n" using resolve_plain by blast
  have "\<forall>n \<in> set (butlast (snd ?t)). plain n" using pl by (auto dest: in_set_butlastD)
  then have i1: "disk_inv d1" and f1: "disk_files d1 = disk_files d"
    using make_dirs_inv [OF inv m] make_dirs_files [OF m] by auto
  have b: "fst ?t = b" by (simp add: resolve_place_def)
  have up: "node_at d1 (fst ?t, butlast (snd ?t)) = Some Directory" using make_dirs_directory [OF m] b by simp
  have free: "\<forall>zs. disk_files d1 (fst ?t, snd ?t @ zs) = None" using v f1 b by (simp add: disk_vacant_def)
  from shutil_copy_law [OF i1 _ free pl up] i1 f1 show ?thesis by auto
qed

lemma local_copy_law:
  assumes "disk_inv d" and "disk_vacant (disk_files d) b dst" and "local_copy b src dst d = (r, d')"
  shows "disk_inv d' \<and> disk_files d \<subseteq>\<^sub>m disk_files d'"
proof (cases "make_dirs (b, butlast (snd (resolve_place b dst))) d")
  case (Some d1)
  from copy_in_place [OF assms(1,2) this, of src] assms(3) Some show ?thesis
    by (auto simp: local_copy_def Let_def split: option.splits)
qed (use assms in \<open>simp add: local_copy_def Let_def\<close>)

lemma local_hardlink_law:
  assumes "disk_inv d" and "disk_vacant (disk_files d) b dst" and "local_hardlink b src dst d = (r, d')"
  shows "disk_inv d' \<and> disk_files d \<subseteq>\<^sub>m disk_files d'"
proof (cases "make_dirs (b, butlast (snd (resolve_place b dst))) d")
  case (Some d1)
  from copy_in_place [OF assms(1,2) this, of src] assms(3) Some show ?thesis
    by (auto simp: local_hardlink_def Let_def split: option.splits if_splits)
qed (use assms in \<open>simp add: local_hardlink_def Let_def\<close>)

interpretation local_transfer: transfer_storage "local_transfer_ops faults remote" resolve_place disk_files disk_present
    disk_inv disk_vacant
  for faults remote
proof (intro transfer_storage.intro transfer_storage_axioms.intro)
  show "library_storage (to_lib (local_transfer_ops faults remote)) resolve_place disk_files disk_present disk_inv"
    by (simp add: local_disk.library_storage_axioms)
  show "disk_vacant (disk_files d) b p" if inv: "disk_inv d" and absent: "\<not> disk_present d (resolve_place b p)" for d b p
  proof -
    have none: "node_at d (b, snd (resolve_place b p)) = None" using absent by (simp add: disk_present_def resolve_place_def)
    have "node_at d (b, snd (resolve_place b p) @ zs) = None" for zs
    proof (rule ccontr)
      assume there: "node_at d (b, snd (resolve_place b p) @ zs) \<noteq> None"
      then have "zs \<noteq> []" using none by auto
      from disk_inv_above [OF inv there this] none show False by simp
    qed
    then show ?thesis by (simp add: disk_vacant_def disk_files_def)
  qed
  show "fs (resolve_place b p) = None" if "disk_vacant fs b p" for fs b p
    using that [unfolded disk_vacant_def, THEN spec, of "[]"] by (simp add: resolve_place_def)
  show "disk_inv d' \<and> disk_files d \<subseteq>\<^sub>m disk_files d'"
    if "disk_inv d" "disk_vacant (disk_files d) b t" "to_copy (local_transfer_ops faults remote) b s t d = (r, d')" for d b t s r d'
    using that(3) unfolding local_transfer_ops_simps
  proof (rule disk_call_cases)
    assume "local_copy b s t (d\<lparr>dk_calls := Suc (dk_calls d)\<rparr>) = (r, d')"
    from local_copy_law [OF _ _ this] that(1,2) show ?thesis by simp
  qed (use that(1) in simp)
  show "disk_inv d' \<and> disk_files d \<subseteq>\<^sub>m disk_files d'"
    if "disk_inv d" "disk_vacant (disk_files d) b t" "to_hardlink (local_transfer_ops faults remote) b s t d = (r, d')"
    for d b t s r d'
    using that(3) unfolding local_transfer_ops_simps
  proof (rule disk_call_cases)
    assume "local_hardlink b s t (d\<lparr>dk_calls := Suc (dk_calls d)\<rparr>) = (r, d')"
    from local_hardlink_law [OF _ _ this] that(1,2) show ?thesis by simp
  qed (use that(1) in simp)
qed

section \<open>Properties\<close>

text \<open>What is asked of the engine without the flag to overwrite.\<close>

datatype transfer_call = TransferFile string string | TransferTree string string bool

fun transfer_step ::
  "'w transfer_ops \<Rightarrow> subtitle_env \<Rightarrow> string \<Rightarrow> transfer_call \<Rightarrow> 'w transfer_state \<Rightarrow> 'w transfer_state" where
  "transfer_step tops se op (TransferFile src dst) st = snd (transfer tops se src dst op False None None None st)"
| "transfer_step tops se op (TransferTree src dst bluray) st =
     (case (if bluray then transfer_bluray_dir tops src dst op None None st
            else transfer_dir tops src dst op True None None st) of
        None \<Rightarrow> st
      | Some (_, st1) \<Rightarrow> st1)"

context transfer_storage begin

lemma transfer_step_safe:
  assumes g: "good (tf_world st)" and op: "op \<noteq> ''softlink''"
  shows "safe op (tf_world st) (tf_world (transfer_step tops se op c st))"
proof (cases c)
  case (TransferFile src dst)
  obtain r st1 where t: "transfer tops se src dst op False None None None st = (r, st1)" by force
  from transfer_safe [OF g op t] t TransferFile show ?thesis by simp
next
  case (TransferTree src dst bluray)
  obtain r st1 where t: "transfer_files tops src dst op (\<not> bluray) None None (to_walk tops src (tf_world st)) st = (r, st1)" by force
  from transfer_files_safe [OF op g t] t TransferTree show ?thesis
    by (cases bluray; cases r) (auto simp: transfer_bluray_dir_def transfer_dir_def blacklist_def)
qed

lemma transfer_run_safe:
  "good (tf_world st) \<Longrightarrow> op \<noteq> ''softlink'' \<Longrightarrow> safe op (tf_world st) (tf_world (fold (transfer_step tops se op) cs st))"
proof (induction cs arbitrary: st)
  case Nil
  then show ?case by (simp add: safe_same)
next
  case (Cons c cs)
  have k: "safe op (tf_world st) (tf_world (transfer_step tops se op c st))" by (rule transfer_step_safe [OF Cons.prems])
  from Cons.IH [OF safe_good [OF k] Cons.prems(2)] show ?case by (auto intro: safe_trans [OF k])
qed

end

text \<open>C11: A sequence of copying or linking transfers between local places that may not overwrite leaves every file there was as
  it was, and a moving one loses no content, whichever calls of the storage fail.\<close>

theorem transfers_overwrite_nothing:
  assumes "disk_inv (tf_world st)" and "op \<noteq> ''softlink''"
    and "st' = fold (transfer_step (local_transfer_ops faults remote) se op) calls st"
  shows "if op = ''move'' then contents (disk_files (tf_world st')) = contents (disk_files (tf_world st))
    else disk_files (tf_world st) \<subseteq>\<^sub>m disk_files (tf_world st')"
  using local_transfer.transfer_run_safe [OF assms(1,2)] assms(3) unfolding local_transfer.safe_def by auto

text \<open>A transfer that replaces an old version removes it first: when the copy then fails, the old version is lost.\<close>

theorem replaced_version_lost:
  assumes "disk_files (tf_world st) (resolve_place ''local'' old) = Some nd" and "old \<noteq> []"
    and "\<not> faults n" and "\<not> faults (n + 1)" and "\<not> faults (n + 2)" and "faults (n + 3)" and "n = dk_calls (tf_world st)"
  shows "\<exists>st'. transfer (local_transfer_ops faults remote) se src dst ''copy'' True (Some old) None None st = (None, st') \<and>
    disk_files (tf_world st') = (disk_files (tf_world st))(resolve_place ''local'' old := None)"
proof -
  let ?d = "tf_world st" and ?l = "resolve_place ''local'' old"
  obtain a m t where at: "node_at ?d ?l = Some (Regular a m t)"
    using assms(1) by (auto simp: disk_files_def split: option.splits node.splits)
  then have ne: "snd ?l \<noteq> []" by (auto simp: node_at_def split: if_splits)
  let ?d3 = "?d\<lparr>dk_calls := n + 3, dk_nodes := dpop ?l (dk_nodes ?d)\<rparr>"
  have rm: "remove_old (local_transfer_ops faults remote) ''local'' old ?d = (Some (), ?d3)"
    using assms(3-5,7) at ne
    by (simp add: remove_old_def disk_call_def local_exists_def local_stat_def info_of_def local_remove_def Let_def
        numeral_2_eq_2 numeral_3_eq_3)
  have fail: "execute (local_transfer_ops faults remote) src dst ''copy'' None None ?d3 = (None, ?d3\<lparr>dk_calls := n + 4\<rparr>)"
    using assms(6) by (simp add: execute_def disk_call_def)
  have "disk_files (?d\<lparr>dk_nodes := dpop ?l (dk_nodes ?d)\<rparr>) = (disk_files ?d)(?l := None)"
    using ne by (auto simp: disk_files_def node_at_def fun_eq_iff)
  with rm fail assms(2) show ?thesis by (simp add: transfer_def put_file_def backend_id_def Let_def)
qed

text \<open>A download with its subtitle, an older version in the library.\<close>

definition transfer_demo :: "disk transfer_state" where
  "transfer_demo = \<lparr>tf_world = \<lparr>dk_nodes = [((''local'', [''d'']), Directory), ((''local'', [''d'', ''a.mkv'']), Regular ''new'' 9 0),
     ((''local'', [''d'', ''a.srt'']), Regular ''text'' 2 0), ((''local'', [''m'']), Directory),
     ((''local'', [''m'', ''b.mkv'']), Regular ''old'' 5 0)], dk_calls = 0\<rparr>, tf_blacklist = []\<rparr>"

definition plain_subtitles :: subtitle_env where
  "plain_subtitles = \<lparr>se_meta = (\<lambda>_. \<lparr>sm_cn_name = [], sm_en_name = [], sm_season = [], sm_episode = []\<rparr>),
     se_plain_name = (\<lambda>n. n), se_zhcn = (\<lambda>_. False), se_zhtw = (\<lambda>_. False), se_eng = (\<lambda>_. False)\<rparr>"

text \<open>Storages of no use to a local engine.\<close>

definition no_remote :: "disk transfer_ops" where
  "no_remote = \<lparr>to_lib = local_ops (\<lambda>_. False) (\<lambda>_. True), to_copy = (\<lambda>_ _ _ w. (None, w)), to_hardlink = (\<lambda>_ _ _ w. (None, w)),
     to_softlink = (\<lambda>_ _ _ w. (None, w)), to_fast = (\<lambda>_ _. None), to_fast_copy = (\<lambda>_ _ _ _ w. (None, w)),
     to_stream = (\<lambda>_ _ _ _ w. (None, w)), to_level1 = (\<lambda>_ _. []), to_walk = (\<lambda>_ _. []), to_getsize = (\<lambda>_ _. None)\<rparr>"

lemma transfer_demo_inv: "disk_inv (tf_world transfer_demo)"
  by code_simp

lemma transfer_demo_run:
  "let st = fold (transfer_step (local_transfer_ops (\<lambda>_. False) no_remote) plain_subtitles ''link'')
        [TransferFile ''/d/a.mkv'' ''/m/c.mkv'', TransferFile ''/d/a.mkv'' ''/m/b.mkv''] transfer_demo
   in node_at (tf_world st) (''local'', [''m'', ''c.mkv'']) = Some (Regular ''new'' 9 0) \<and>
      node_at (tf_world st) (''local'', [''m'', ''c.und.srt'']) = Some (Regular ''text'' 2 0)"
  by code_simp

theorem transfers_overwrite_nothing_witness:
  "let st = fold (transfer_step (local_transfer_ops (\<lambda>_. False) no_remote) plain_subtitles ''link'')
        [TransferFile ''/d/a.mkv'' ''/m/c.mkv'', TransferFile ''/d/a.mkv'' ''/m/b.mkv''] transfer_demo
   in disk_files (tf_world transfer_demo) \<subseteq>\<^sub>m disk_files (tf_world st) \<and>
      node_at (tf_world st) (''local'', [''m'', ''c.und.srt'']) = Some (Regular ''text'' 2 0)"
  using transfers_overwrite_nothing [OF transfer_demo_inv, of "''link''" _ "\<lambda>_. False" no_remote plain_subtitles
      "[TransferFile ''/d/a.mkv'' ''/m/c.mkv'', TransferFile ''/d/a.mkv'' ''/m/b.mkv'']"] transfer_demo_run
  by (simp add: Let_def)

theorem replaced_version_lost_witness:
  "\<exists>st'. transfer (local_transfer_ops (\<lambda>n. n = 3) no_remote) plain_subtitles ''/d/a.mkv'' ''/m/c.mkv'' ''copy'' True
      (Some ''/m/b.mkv'') None None transfer_demo = (None, st') \<and>
    disk_files (tf_world st') = (disk_files (tf_world transfer_demo))(resolve_place ''local'' ''/m/b.mkv'' := None)"
proof (rule replaced_version_lost)
  show "disk_files (tf_world transfer_demo) (resolve_place ''local'' ''/m/b.mkv'') = Some (Regular ''old'' 5 0)" by code_simp
qed (simp_all add: transfer_demo_def)

end
