(* ===== verification/FileTransfer.thy ===== *)
theory FileTransfer
  imports TransferEngine LibraryPlan Retention
begin

text \<open>
  One file on its way into the library (\<open>_do_transfer_file\<close> of \<open>services/transfer/filetransfer_service.py\<close> with
  \<open>services/transfer/existence_checker.py\<close> and the tables of \<open>db/repositories/transfer_repository.py\<close>): is it
  there already, under which path does it go, may it replace what is there, and what is recorded about it.

  The paths of the formatter, the parser of file names, the configured mirrors and the lock on the target directory are
  fields of \<open>file_env\<close>. The state holds the engine's state, the rows of the transfer history (those of
  \<open>Retention\<close> with the columns used here), the records of unrecognised files and the mirror tasks handed over. \<open>LIKE\<close>
  disregards case, as SQLite's does; among rows of the same date the query answers the first. \<open>None\<close> is an
  exception.
\<close>

section \<open>Data\<close>

record transfer_media = item +
  tm_metadata_ref :: "string option"
  tm_category :: "string option"
  tm_pix :: "string option"
  tm_effect :: "string option"
  tm_extras :: bool

record hist_row = trans_row +
  hs_date :: int
  hs_type :: string
  hs_provider :: "string option"
  hs_external :: "string option"

record unknown_row =
  uk_id :: int
  uk_path :: string
  uk_dest :: string
  uk_state :: string
  uk_mode :: string

record mirror_task =
  mt_source :: string
  mt_primary :: string
  mt_targets :: "(string \<times> string) list"

datatype lock_try = Acquired | Busy | LockFailed

record 'w file_env =
  fe_ops :: "'w transfer_ops"
  fe_subtitles :: subtitle_env
  fe_movie_path :: "transfer_media \<Rightarrow> (string \<times> string) option"
  fe_tv_path :: "transfer_media \<Rightarrow> (string \<times> string \<times> string) option"
  fe_category_flag :: "media_type \<Rightarrow> bool"
  fe_walk_names :: "string \<Rightarrow> 'w \<Rightarrow> string list"
  fe_meta_info :: "string \<Rightarrow> transfer_media option"
  fe_extras :: "string \<Rightarrow> bool"
  fe_mirrors :: "media_type \<Rightarrow> (string \<times> string) list option"
  fe_lock :: "string \<Rightarrow> lock_try"
  fe_new_id :: "int list \<Rightarrow> int"

record 'w file_state =
  fs_engine :: "'w transfer_state"
  fs_rows :: "hist_row list"
  fs_unknowns :: "unknown_row list"
  fs_mirrors :: "mirror_task list"

abbreviation world :: "'w file_state \<Rightarrow> 'w" where
  "world st \<equiv> tf_world (fs_engine st)"

text \<open>A question to the storage, asked in a state; one put to every element of a list.\<close>

definition at_world :: "('w \<Rightarrow> 'a \<times> 'w) \<Rightarrow> 'w file_state \<Rightarrow> 'a \<times> 'w file_state" where
  "at_world f st = (case f (world st) of (r, w) \<Rightarrow> (r, st\<lparr>fs_engine := (fs_engine st)\<lparr>tf_world := w\<rparr>\<rparr>))"

fun filter_w :: "('a \<Rightarrow> 'w \<Rightarrow> bool \<times> 'w) \<Rightarrow> 'a list \<Rightarrow> 'w \<Rightarrow> 'a list \<times> 'w" where
  "filter_w f [] w = ([], w)"
| "filter_w f (x # xs) w =
     (case f x w of (keep, w1) \<Rightarrow> (case filter_w f xs w1 of (ys, w2) \<Rightarrow> (if keep then x # ys else ys, w2)))"

section \<open>The tables\<close>

definition type_value :: "media_type \<Rightarrow> string" where
  "type_value t = (case t of TV \<Rightarrow> ''tv'' | MOVIE \<Rightarrow> ''movie'' | ANIME \<Rightarrow> ''anime'' | UNKNOWN \<Rightarrow> ''unknown'')"

definition canonical_metadata_ref :: "transfer_media \<Rightarrow> string" where
  "canonical_metadata_ref m =
     (let explicit = strip (opt_text (tm_metadata_ref m)); identity = strip (opt_text (mi_identity_id m));
          provider = lower (strip (opt_text (mi_anchor_provider m)));
          external = strip (opt_text (mi_anchor_external_id m)); tmdb = id_text (mi_tmdb_id m)
      in if explicit \<noteq> [] then explicit
         else if identity \<noteq> [] then ''id:'' @ identity
         else if provider \<noteq> [] \<and> external \<noteq> [] then provider @ '':'' @ external
         else if (provider = ''tmdb'' \<or> provider = []) \<and> isdigit tmdb then ''tmdb:'' @ tmdb
         else [])"

text \<open>\<open>get_transfer_info_by\<close> with a TMDB id only, \<open>get_transfer_info_by_ref\<close> with a season and a type, and
  \<open>get_transfer_history_by_source_full_path\<close>.\<close>

definition get_transfer_info_by :: "pyval \<Rightarrow> hist_row list \<Rightarrow> hist_row list option" where
  "get_transfer_info_by tmdb rows =
     (if \<not> truthy tmdb then Some []
      else case pyval_int tmdb of None \<Rightarrow> None | Some n \<Rightarrow> Some (filter (\<lambda>r. th_tmdb r = n) rows))"

definition ref_matches :: "string \<Rightarrow> (hist_row \<Rightarrow> bool) option" where
  "ref_matches v =
     (if startswith v ''id:'' then Some (\<lambda>r. th_identity r = Some (drop 3 v))
      else case split_first (CHR '':'') v of
             Some (p, x) \<Rightarrow> Some (\<lambda>r. hs_provider r = Some p \<and> hs_external r = Some x)
           | None \<Rightarrow> (if isdigit v then Some (\<lambda>r. py_int v = Some (th_tmdb r)) else None))"

definition get_transfer_info_by_ref :: "string \<Rightarrow> string \<Rightarrow> string \<Rightarrow> hist_row list \<Rightarrow> hist_row list" where
  "get_transfer_info_by_ref ref season mtype rows =
     (let v = strip ref
      in if v = [] then []
         else case ref_matches v of
                None \<Rightarrow> []
              | Some f \<Rightarrow>
                  filter (\<lambda>r. f r \<and>
                    (mtype = [] \<or> hs_type r = mtype \<or> mtype = ''anime'' \<and> hs_type r = ''tv'') \<and>
                    (season = [] \<or> contains (lower (th_episode r)) (lower season))) rows)"

fun latest :: "hist_row list \<Rightarrow> hist_row option" where
  "latest [] = None"
| "latest (r # rs) =
     (case latest rs of None \<Rightarrow> Some r | Some r' \<Rightarrow> if hs_date r' > hs_date r then Some r' else Some r)"

definition get_by_source :: "string \<Rightarrow> hist_row list \<Rightarrow> hist_row option" where
  "get_by_source p rows =
     (let n = replace_char (CHR 0x5C) (CHR ''/'') (normpath p)
      in latest (filter (\<lambda>r. th_src_path r = dirname n \<and> th_src_name r = basename n \<or> th_src_path r = n) rows))"

definition history_exists_by_source :: "string \<Rightarrow> hist_row list \<Rightarrow> bool" where
  "history_exists_by_source p rows \<longleftrightarrow> (\<exists>r \<in> set rows. th_src_path r = dirname p \<and> th_src_name r = basename p)"

record transfer_dto =
  td_type :: string
  td_tmdb :: int
  td_season_episode :: string
  td_identity :: "string option"
  td_provider :: "string option"
  td_external :: "string option"

definition insert_transfer_history ::
  "'w file_env \<Rightarrow> int \<Rightarrow> string \<Rightarrow> string \<Rightarrow> string \<Rightarrow> transfer_dto \<Rightarrow> hist_row list \<Rightarrow> hist_row list" where
  "insert_transfer_history fe now in_path out_path dst_backend dto rows =
     (if in_path = [] then rows
      else
        let inp = normpath in_path; sp = dirname inp; sn = basename inp;
            dp = (if out_path = [] then [] else dirname (normpath out_path));
            dn = (if out_path = [] then [] else basename (normpath out_path));
            same = (\<lambda>r. th_src_path r = sp \<and> th_src_name r = sn \<and> th_dst_path r = dp \<and> th_dst_name r = dn)
        in if \<exists>r \<in> set rows. same r then map (\<lambda>r. if same r then r\<lparr>hs_date := now\<rparr> else r) rows
           else rows @ [\<lparr>th_id = fe_new_id fe (map th_id rows), th_identity = td_identity dto, th_tmdb = td_tmdb dto,
                  th_episode = td_season_episode dto, th_src_path = sp, th_src_name = sn, th_dst_path = dp, th_dst_name = dn,
                  th_backend = Some (if dst_backend = [] then ''local'' else dst_backend), th_src_state = Some ''present'',
                  th_dst_state = Some (if dn = [] then ''unknown'' else ''present''), th_policy = None,
                  hs_date = now, hs_type = td_type dto, hs_provider = td_provider dto, hs_external = td_external dto\<rparr>])"

text \<open>Records of unrecognised files: \<open>STATE\<close> is \<open>N\<close> until the file is recognised.\<close>

definition unknowns_at :: "string \<Rightarrow> unknown_row list \<Rightarrow> unknown_row list" where
  "unknowns_at p us = (if p = [] then [] else filter (\<lambda>u. uk_path u = normpath p) us)"

definition is_need_insert_transfer_unknown :: "string \<Rightarrow> 'w file_state \<Rightarrow> bool \<times> 'w file_state" where
  "is_need_insert_transfer_unknown p st =
     (let us = unknowns_at p (fs_unknowns st)
      in if p = [] then (False, st)
         else if us = [] \<or> (\<exists>u \<in> set us. uk_state u = ''N'') then (True, st)
         else if history_exists_by_source p (fs_rows st) then (False, st)
         else (True, st\<lparr>fs_unknowns := filter (\<lambda>u. uk_id u \<notin> uk_id ` set us) (fs_unknowns st)\<rparr>))"

definition insert_transfer_unknown ::
  "'w file_env \<Rightarrow> string \<Rightarrow> string \<Rightarrow> string \<Rightarrow> 'w file_state \<Rightarrow> 'w file_state" where
  "insert_transfer_unknown fe p dest mode st =
     (if p = [] \<or> unknowns_at p (fs_unknowns st) \<noteq> [] then st
      else st\<lparr>fs_unknowns := fs_unknowns st @ [\<lparr>uk_id = fe_new_id fe (map uk_id (fs_unknowns st)), uk_path = normpath p,
             uk_dest = (if dest = [] then [] else normpath dest), uk_state = ''N'', uk_mode = mode\<rparr>]\<rparr>)"

text \<open>\<open>LIKE\<close> of a path and \<open>/%\<close>; the wildcards that a path may hold are taken as themselves.\<close>

definition update_transfer_unknown_state :: "string \<Rightarrow> 'w file_state \<Rightarrow> 'w file_state" where
  "update_transfer_unknown_state p st =
     (if p = [] then st
      else let n = normpath p
           in st\<lparr>fs_unknowns := map (\<lambda>u. if uk_path u = n \<or> startswith (lower (uk_path u)) (lower (n @ ''/''))
                  then u\<lparr>uk_state := ''Y''\<rparr> else u) (fs_unknowns st)\<rparr>)"

section \<open>Does the media exist?\<close>

text \<open>\<open>MediaExistenceChecker\<close>. A local path exists when the disk knows its size.\<close>

definition layout_dirs :: "string \<Rightarrow> string \<Rightarrow> string \<Rightarrow> bool \<Rightarrow> string list" where
  "layout_dirs base name category use_category =
     (let flat = os_join base name; categorized = os_join (os_join base category) name
      in if category = [] then [flat] else if use_category then [categorized, flat] else [flat, categorized])"

definition exists_at :: "'w transfer_ops \<Rightarrow> string option \<Rightarrow> string \<Rightarrow> 'w \<Rightarrow> bool option \<times> 'w" where
  "exists_at tops db p w =
     (case db of None \<Rightarrow> (Some (to_getsize tops p w \<noteq> None), w) | Some b \<Rightarrow> lb_exists (to_lib tops) b p w)"

fun find_ext :: "'w transfer_ops \<Rightarrow> string option \<Rightarrow> string \<Rightarrow> string list \<Rightarrow> 'w \<Rightarrow> string option option \<times> 'w" where
  "find_ext tops db base [] w = (Some None, w)"
| "find_ext tops db base (e # es) w =
     (case exists_at tops db (base @ e) w of
        (None, w1) \<Rightarrow> (None, w1)
      | (Some True, w1) \<Rightarrow> (Some (Some (base @ e)), w1)
      | (Some False, w1) \<Rightarrow> find_ext tops db base es w1)"

definition find_existing_file ::
  "'w transfer_ops \<Rightarrow> string option \<Rightarrow> string \<Rightarrow> string \<Rightarrow> 'w \<Rightarrow> (string option \<times> bool) option \<times> 'w" where
  "find_existing_file tops db dir name w =
     (if dir = [] \<or> name = [] then (Some (None, False), w)
      else case find_ext tops db (os_join dir name) media_exts w of
             (None, w1) \<Rightarrow> (None, w1)
           | (Some (Some p), w1) \<Rightarrow> (Some (Some p, True), w1)
           | (Some None, w1) \<Rightarrow> (Some (Some (os_join dir name), False), w1))"

text \<open>The loop of \<open>_pick_target_dir\<close>: the first directory that holds the file, otherwise the first that exists.\<close>

definition first_or_look ::
  "'w transfer_ops \<Rightarrow> string option \<Rightarrow> string \<Rightarrow> string option \<Rightarrow> 'w \<Rightarrow> string option option \<times> 'w" where
  "first_or_look tops db p first w =
     (if first \<noteq> None then (Some first, w)
      else case exists_at tops db p w of
             (None, w1) \<Rightarrow> (None, w1)
           | (Some x, w1) \<Rightarrow> (Some (if x then Some p else None), w1))"

fun pick_loop ::
  "'w transfer_ops \<Rightarrow> string option \<Rightarrow> string \<Rightarrow> string option \<Rightarrow> string list \<Rightarrow> 'w \<Rightarrow> string option option \<times> 'w" where
  "pick_loop tops db name first [] w = (Some first, w)"
| "pick_loop tops db name first (p # ps) w =
     (if p = [] then pick_loop tops db name first ps w
      else case (if name = [] then (Some (None, False), w) else find_existing_file tops db p name w) of
             (None, w1) \<Rightarrow> (None, w1)
           | (Some (_, True), w1) \<Rightarrow> (Some (Some p), w1)
           | (Some (_, False), w1) \<Rightarrow>
               (case first_or_look tops db p first w1 of
                  (None, w2) \<Rightarrow> (None, w2)
                | (Some first', w2) \<Rightarrow> pick_loop tops db name first' ps w2))"

definition pick_target_dir ::
  "'w transfer_ops \<Rightarrow> string option \<Rightarrow> string list \<Rightarrow> string \<Rightarrow> string \<Rightarrow> 'w \<Rightarrow> string option \<times> 'w" where
  "pick_target_dir tops db candidates preferred name w =
     (case pick_loop tops db name None candidates w of
        (None, w1) \<Rightarrow> (None, w1)
      | (Some r, w1) \<Rightarrow> (Some (case r of None \<Rightarrow> preferred | Some p \<Rightarrow> p), w1))"

record existence =
  ex_dir_exists :: bool
  ex_dir :: "string option"
  ex_file_exists :: bool
  ex_file :: "string option"

definition nothing_found :: existence where
  "nothing_found = \<lparr>ex_dir_exists = False, ex_dir = None, ex_file_exists = False, ex_file = None\<rparr>"

text \<open>The part both kinds of media share: the directory, whether it exists, and the file in it if one is asked for.\<close>

definition locate ::
  "'w transfer_ops \<Rightarrow> string option \<Rightarrow> string list \<Rightarrow> string \<Rightarrow> string \<Rightarrow> bool \<Rightarrow> 'w \<Rightarrow> existence option \<times> 'w" where
  "locate tops db candidates preferred name with_file w =
     (case pick_target_dir tops db candidates preferred (if with_file then name else []) w of
        (None, w1) \<Rightarrow> (None, w1)
      | (Some dir, w1) \<Rightarrow>
          if dir = [] then (Some (nothing_found\<lparr>ex_dir := Some dir\<rparr>), w1)
          else (case exists_at tops db dir w1 of
                  (None, w2) \<Rightarrow> (None, w2)
                | (Some x, w2) \<Rightarrow>
                    if \<not> with_file then (Some (nothing_found\<lparr>ex_dir_exists := x, ex_dir := Some dir\<rparr>), w2)
                    else (case find_existing_file tops db dir name w2 of
                            (None, w3) \<Rightarrow> (None, w3)
                          | (Some (f, y), w3) \<Rightarrow>
                              (Some \<lparr>ex_dir_exists = x, ex_dir = Some dir, ex_file_exists = y, ex_file = f\<rparr>, w3))))"

definition is_media_exists ::
  "'w file_env \<Rightarrow> string \<Rightarrow> transfer_media \<Rightarrow> string option \<Rightarrow> 'w \<Rightarrow> existence option \<times> 'w" where
  "is_media_exists fe dest m db w =
     (let c = safe_category_name (tm_category m); tops = fe_ops fe
      in if mi_type m = MOVIE then
           (case fe_movie_path fe m of
              None \<Rightarrow> (None, w)
            | Some (dir, name) \<Rightarrow>
                let ds = layout_dirs dest dir c (fe_category_flag fe MOVIE); fav = os_join (os_join dest fav_type) dir
                in locate tops db (fav # filter (\<lambda>d. d \<noteq> fav) ds) (hd ds) name True w)
         else
           (case fe_tv_path fe m of
              None \<Rightarrow> (None, w)
            | Some (dir, season, name) \<Rightarrow>
                if get_season_list m = [] then (Some nothing_found, w)
                else
                  let ds = map (\<lambda>d. os_join d season)
                        (layout_dirs dest dir c (fe_category_flag fe (if mi_type m = ANIME then ANIME else TV)))
                  in locate tops db ds (hd ds) name (get_episode_list m \<noteq> []) w))"

section \<open>Was it transferred before?\<close>

text \<open>\<open>_target_exists\<close> asks the local disk when a backend fails.\<close>

definition target_exists :: "'w transfer_ops \<Rightarrow> string option \<Rightarrow> string \<Rightarrow> 'w \<Rightarrow> bool \<times> 'w" where
  "target_exists tops db p w =
     (case exists_at tops db p w of
        (Some x, w1) \<Rightarrow> (x, w1)
      | (None, w1) \<Rightarrow> (to_getsize tops p w1 \<noteq> None, w1))"

definition row_target :: "hist_row \<Rightarrow> string" where
  "row_target r = os_join (th_dst_path r) (th_dst_name r)"

definition history_dest_exists :: "'w file_env \<Rightarrow> string option \<Rightarrow> hist_row \<Rightarrow> 'w \<Rightarrow> bool \<times> 'w" where
  "history_dest_exists fe db r w =
     (if th_dst_path r = [] \<or> th_dst_name r = [] then (False, w)
      else case target_exists (fe_ops fe) db (row_target r) w of
             (True, w1) \<Rightarrow> (True, w1)
           | (False, w1) \<Rightarrow> (db = None \<and> th_dst_name r \<in> set (fe_walk_names fe (th_dst_path r) w1), w1))"

text \<open>\<open>E(\d+)(?:\s*-\s*E?(\d+))?\<close>, at the first place where it matches.\<close>

definition episode_end :: "string \<Rightarrow> nat option" where
  "episode_end s =
     (case dropWhile is_space s of
        c # cs \<Rightarrow>
          if c \<noteq> CHR ''-'' then None
          else
            let t = dropWhile is_space cs; u = (case t of d # ds \<Rightarrow> if d = CHR ''E'' then ds else t | [] \<Rightarrow> t);
                n = takeWhile is_digit u
            in (if n = [] then None else Some (digits_val (map digit_of n)))
      | [] \<Rightarrow> None)"

fun episode_range :: "string \<Rightarrow> (nat \<times> nat) option" where
  "episode_range [] = None"
| "episode_range (c # cs) =
     (let n = takeWhile is_digit cs
      in if c = CHR ''E'' \<and> n \<noteq> [] then
           let b = digits_val (map digit_of n)
           in Some (b, case episode_end (dropWhile is_digit cs) of None \<Rightarrow> b | Some e \<Rightarrow> e)
         else episode_range cs)"

definition episode_in_history :: "hist_row list \<Rightarrow> int \<Rightarrow> bool" where
  "episode_in_history rows episode \<longleftrightarrow>
     (\<exists>r \<in> set rows. case episode_range (th_episode r) of
        None \<Rightarrow> False
      | Some (b, e) \<Rightarrow> int b \<le> episode \<and> episode \<le> int e)"

definition source_transferred_path :: "'w file_env \<Rightarrow> string \<Rightarrow> string option \<Rightarrow> 'w file_state \<Rightarrow> string \<times> 'w file_state" where
  "source_transferred_path fe src db st =
     (if src = [] then ([], st)
      else case get_by_source (normpath src) (fs_rows st) of
             None \<Rightarrow> ([], st)
           | Some r \<Rightarrow>
               (case at_world (history_dest_exists fe db r) st of (x, st1) \<Rightarrow> (if x then row_target r else [], st1)))"

definition spec_signature :: "transfer_media \<Rightarrow> string" where
  "spec_signature m =
     join ''/'' (map (\<lambda>p. lower (strip p)) (filter (\<lambda>p. strip p \<noteq> [] \<and> strip p \<noteq> ''None'')
       [opt_text (tm_pix m), opt_text (tm_effect m)]))"

definition spec_signature_from_filename :: "'w file_env \<Rightarrow> string \<Rightarrow> string" where
  "spec_signature_from_filename fe name =
     (if name = [] then [] else case fe_meta_info fe name of None \<Rightarrow> [] | Some m \<Rightarrow> spec_signature m)"

definition file_size :: "'w transfer_ops \<Rightarrow> string option \<Rightarrow> string \<Rightarrow> 'w \<Rightarrow> int \<times> 'w" where
  "file_size tops b p w =
     (let disk = (\<lambda>w. (case to_getsize tops p w of None \<Rightarrow> 0 | Some n \<Rightarrow> n, w))
      in case b of
           None \<Rightarrow> disk w
         | Some i \<Rightarrow>
             (case lb_stat (to_lib tops) i p w of
                (None, w1) \<Rightarrow> (0, w1)
              | (Some (Some info), w1) \<Rightarrow> (fi_size info, w1)
              | (Some None, w1) \<Rightarrow> disk w1))"

definition is_single_file_media :: "transfer_media \<Rightarrow> bool" where
  "is_single_file_media m \<longleftrightarrow> mi_type m = MOVIE \<or> get_episode_list m = [] \<and> mi_begin_episode m = None"

definition is_single_file_row :: "hist_row \<Rightarrow> bool" where
  "is_single_file_row r \<longleftrightarrow> CHR ''E'' \<notin> set (upper (th_episode r))"

fun same_content ::
  "'w file_env \<Rightarrow> string option \<Rightarrow> int \<Rightarrow> string \<Rightarrow> hist_row list \<Rightarrow> 'w \<Rightarrow> string \<times> 'w" where
  "same_content fe db src_size src_spec [] w = ([], w)"
| "same_content fe db src_size src_spec (r # rs) w =
     (case file_size (fe_ops fe) db (row_target r) w of
        (n, w1) \<Rightarrow>
          let spec = spec_signature_from_filename fe (th_dst_name r)
          in if src_size \<noteq> 0 \<and> n \<noteq> 0 \<and> src_size = n then (row_target r, w1)
             else if src_spec \<noteq> [] \<and> spec \<noteq> [] \<and> spec = src_spec then (row_target r, w1)
             else same_content fe db src_size src_spec rs w1)"

definition identity_duplicate_target ::
  "'w file_env \<Rightarrow> transfer_media \<Rightarrow> string \<Rightarrow> string option \<Rightarrow> 'w file_state \<Rightarrow> string \<times> 'w file_state" where
  "identity_duplicate_target fe m src db st =
     (if \<not> truthy (mi_tmdb_id m) then ([], st)
      else case get_transfer_info_by (mi_tmdb_id m) (fs_rows st) of
             None \<Rightarrow> ([], st)
           | Some found \<Rightarrow>
               (case at_world (filter_w (history_dest_exists fe db) (filter is_single_file_row found)) st of
                  (rows, st1) \<Rightarrow>
                    if rows = [] then ([], st1)
                    else at_world (\<lambda>w. case file_size (fe_ops fe) None src w of
                           (n, w1) \<Rightarrow> same_content fe db n (spec_signature m) rows w1) st1))"

section \<open>The transfer\<close>

text \<open>What \<open>_do_transfer_file\<close> answers: failures, alerts with their texts, files that were there already, and the paths.\<close>

record file_outcome =
  oc_failed :: int
  oc_alerts :: int
  oc_messages :: "string list"
  oc_exist :: int
  oc_new :: "string option"
  oc_file :: "string option"
  oc_dir :: "string option"

text \<open>A step of the engine on the state.\<close>

definition in_engine :: "('w transfer_state \<Rightarrow> 'a \<times> 'w transfer_state) \<Rightarrow> 'w file_state \<Rightarrow> 'a \<times> 'w file_state" where
  "in_engine f st = (case f (fs_engine st) of (r, e) \<Rightarrow> (r, st\<lparr>fs_engine := e\<rparr>))"

text \<open>\<open>_with_library_target_lock\<close>: is the directory free for this write? A lock that cannot be asked counts as taken.\<close>

definition target_free :: "'w file_env \<Rightarrow> string option \<Rightarrow> string option \<Rightarrow> bool" where
  "target_free fe db dir \<longleftrightarrow>
     opt_text dir = [] \<or> fe_lock fe (target_dir_lock_key (case db of None \<Rightarrow> ''local'' | Some b \<Rightarrow> if b = [] then ''local'' else b)
       (opt_text dir)) \<noteq> Busy"

definition replicate_to_enabled_backends ::
  "'w file_env \<Rightarrow> transfer_media \<Rightarrow> string option \<Rightarrow> string option \<Rightarrow> 'w file_state \<Rightarrow> 'w file_state" where
  "replicate_to_enabled_backends fe m path db st =
     (case fe_mirrors fe (mi_type m) of
        None \<Rightarrow> st
      | Some pairs \<Rightarrow>
          let primary = backend_id db; targets = filter (\<lambda>(_, b). b \<noteq> primary) pairs
          in if basename (opt_text path) = [] \<or> targets = [] then st
             else st\<lparr>fs_mirrors := fs_mirrors st @ [\<lparr>mt_source = opt_text path, mt_primary = primary, mt_targets = targets\<rparr>]\<rparr>)"

text \<open>The messages of failures.\<close>

definition no_season_episode :: string where
  "no_season_episode = u8 [232, 175, 134, 229, 136, 171, 229, 164, 177, 232, 180, 165, 239, 188, 140, 230, 151, 160, 230, 179, 149, 228, 187, 142, 230, 150, 135, 228, 187, 182, 229, 144, 141, 228, 184, 173, 232, 175, 134, 229, 136, 171, 229, 135, 186, 229, 173, 163, 233, 155, 134, 228, 191, 161, 230, 129, 175]"

definition no_bluray_dir :: string where
  "no_bluray_dir = u8 [232, 175, 134, 229, 136, 171, 229, 164, 177, 232, 180, 165, 239, 188, 140, 230, 151, 160, 230, 179, 149, 232, 142, 183, 229, 143, 150, 232, 147, 157, 229, 133, 137, 231, 155, 174, 229, 189, 149, 232, 183, 175, 229, 190, 132]"

definition no_episode :: string where
  "no_episode = u8 [232, 175, 134, 229, 136, 171, 229, 164, 177, 232, 180, 165, 239, 188, 140, 230, 151, 160, 230, 179, 149, 228, 187, 142, 230, 150, 135, 228, 187, 182, 229, 144, 141, 228, 184, 173, 232, 175, 134, 229, 136, 171, 229, 135, 186, 233, 155, 134, 230, 149, 176]"

definition appeared_meanwhile :: string where
  "appeared_meanwhile = u8 [231, 155, 174, 230, 160, 135, 230, 150, 135, 228, 187, 182, 229, 156, 168, 232, 189, 172, 231, 167, 187, 232, 191, 135, 231, 168, 139, 228, 184, 173, 229, 183, 178, 229, 173, 152, 229, 156, 168, 239, 188, 140, 230, 156, 170, 230, 137, 167, 232, 161, 140, 232, 189, 172, 231, 167, 187]"

definition record_fail ::
  "'w file_env \<Rightarrow> string \<Rightarrow> string \<Rightarrow> string \<Rightarrow> string list \<Rightarrow> string \<Rightarrow> 'w file_state \<Rightarrow> file_outcome \<times> 'w file_state" where
  "record_fail fe reg target op msgs msg st =
     (let pending = reg \<noteq> [] \<and> (\<exists>u \<in> set (fs_unknowns st). uk_path u = reg \<and> uk_state u = ''N'');
          (insert', st1) = (if reg = [] \<or> pending then (False, st) else is_need_insert_transfer_unknown reg st);
          st2 = (if insert' then insert_transfer_unknown fe reg target op st1 else st1)
      in (\<lparr>oc_failed = (if pending then 0 else 1), oc_alerts = (if insert' then 1 else 0),
            oc_messages = (if msg \<notin> set msgs \<and> insert' then msgs @ [msg] else msgs), oc_exist = 0,
            oc_new = None, oc_file = None, oc_dir = None\<rparr>, st2))"

text \<open>What is known of the episode: is it in a row of the history whose file and whose source path exist, and which rows
  with an existing file have lost their source path?\<close>

definition source_present :: "'w file_env \<Rightarrow> hist_row \<Rightarrow> 'w \<Rightarrow> bool" where
  "source_present fe r w \<longleftrightarrow> th_src_path r \<noteq> [] \<and> to_getsize (fe_ops fe) (th_src_path r) w \<noteq> None"

definition episode_history ::
  "'w file_env \<Rightarrow> transfer_media \<Rightarrow> string option \<Rightarrow> 'w file_state \<Rightarrow> (bool \<times> hist_row list) \<times> 'w file_state" where
  "episode_history fe m db st =
     (case (mi_begin_season m, mi_begin_episode m) of
        (Some season, Some ep) \<Rightarrow>
          if mi_type m = MOVIE \<or> season = 0 then ((False, []), st)
          else
            let found = get_transfer_info_by_ref (canonical_metadata_ref m) (''S'' @ two_digits season) (type_value (mi_type m)) (fs_rows st)
            in (case at_world (filter_w (history_dest_exists fe db) found) st of
                  (alive, st1) \<Rightarrow>
                    let valid = filter (\<lambda>r. source_present fe r (world st1)) alive
                    in if valid \<noteq> [] \<and> episode_in_history valid ep then ((True, []), st1)
                       else ((False, filter (\<lambda>r. episode_in_history [r] ep \<and> \<not> source_present fe r (world st1)) alive), st1))
      | _ \<Rightarrow> ((False, []), st))"

text \<open>\<open>_stale_episode_reason\<close> gives a text or none; only whether there is one matters.\<close>

definition stale_episode_reason :: "'w file_env \<Rightarrow> string \<Rightarrow> string \<Rightarrow> string option \<Rightarrow> 'w \<Rightarrow> bool \<times> 'w" where
  "stale_episode_reason fe src dst db w =
     (case file_size (fe_ops fe) db dst w of
        (n, w1) \<Rightarrow> (case file_size (fe_ops fe) None src w1 of (k, w2) \<Rightarrow> (k \<noteq> 0 \<and> \<not> (n \<noteq> 0 \<and> k = n), w2)))"

definition should_replace_stale_episode ::
  "'w file_env \<Rightarrow> string \<Rightarrow> string option \<Rightarrow> string option \<Rightarrow> hist_row list \<Rightarrow> 'w \<Rightarrow> bool \<times> 'w" where
  "should_replace_stale_episode fe src dst db stale w =
     (if opt_text dst = [] \<or> stale = [] then (False, w)
      else case target_exists (fe_ops fe) db (opt_text dst) w of
             (False, w1) \<Rightarrow> (False, w1)
           | (True, w1) \<Rightarrow> stale_episode_reason fe src (opt_text dst) db w1)"

text \<open>The file goes over the one that is there, which is removed first.\<close>

definition replace_existing ::
  "'w file_env \<Rightarrow> transfer_media \<Rightarrow> string \<Rightarrow> string \<Rightarrow> string \<Rightarrow> string option \<Rightarrow> string option \<Rightarrow> string option \<Rightarrow>
   string list \<Rightarrow> 'w file_state \<Rightarrow> file_outcome option \<times> 'w file_state" where
  "replace_existing fe m src op old dir sb db msgs st =
     (let new = fst (splitext old) @ snd (splitext src);
          oc = \<lparr>oc_failed = 0, oc_alerts = 0, oc_messages = msgs, oc_exist = 1, oc_new = Some new, oc_file = Some old, oc_dir = dir\<rparr>
      in if \<not> target_free fe db dir then (Some oc, st)
         else case in_engine (transfer (fe_ops fe) (fe_subtitles fe) src new op True (Some old) sb db) st of
                (None, st1) \<Rightarrow> (None, st1)
              | (Some _, st1) \<Rightarrow> (Some oc, replicate_to_enabled_backends fe m (Some new) db st1))"

text \<open>The file goes to a free place.\<close>

definition place_new ::
  "'w file_env \<Rightarrow> transfer_media \<Rightarrow> string \<Rightarrow> string \<Rightarrow> string \<Rightarrow> string \<Rightarrow> string list \<Rightarrow> string option \<Rightarrow> string option \<Rightarrow>
   string option \<Rightarrow> string option \<Rightarrow> 'w file_state \<Rightarrow> file_outcome option \<times> 'w file_state" where
  "place_new fe m src op reg target msgs file dir sb db st =
     (if opt_text file = [] then
        (case record_fail fe reg target op msgs no_episode st of (oc, st1) \<Rightarrow> (Some oc, st1))
      else
        let new = opt_text file @ snd (splitext src);
            oc = \<lparr>oc_failed = 0, oc_alerts = 0, oc_messages = msgs, oc_exist = 0, oc_new = Some new, oc_file = Some new, oc_dir = dir\<rparr>
        in if \<not> target_free fe db dir then (Some (oc\<lparr>oc_exist := 1\<rparr>), st)
           else case in_engine (transfer (fe_ops fe) (fe_subtitles fe) src new op False None sb db) st of
                  (None, st1) \<Rightarrow> (None, st1)
                | (Some False, st1) \<Rightarrow>
                    (case record_fail fe reg target op msgs appeared_meanwhile st1 of (oc', st2) \<Rightarrow> (Some oc', st2))
                | (Some True, st1) \<Rightarrow> (Some oc, replicate_to_enabled_backends fe m (Some new) db st1))"

text \<open>A Blu-ray directory goes as a whole. Here and in \<open>do_transfer_file\<close> the outer \<open>None\<close> is a listing of the source
  that never ends.\<close>

definition place_bluray ::
  "'w file_env \<Rightarrow> transfer_media \<Rightarrow> string \<Rightarrow> string \<Rightarrow> string \<Rightarrow> string \<Rightarrow> string list \<Rightarrow> string option \<Rightarrow> string option \<Rightarrow>
   string option \<Rightarrow> string option \<Rightarrow> 'w file_state \<Rightarrow> (file_outcome option \<times> 'w file_state) option" where
  "place_bluray fe m src op reg target msgs file dir sb db st =
     (let oc = \<lparr>oc_failed = 0, oc_alerts = 0, oc_messages = msgs, oc_exist = 0, oc_new = file, oc_file = file, oc_dir = dir\<rparr>
      in if opt_text dir = [] then
           (case record_fail fe reg target op msgs no_bluray_dir st of (oc', st1) \<Rightarrow> Some (Some oc', st1))
         else if \<not> target_free fe db dir then Some (Some (oc\<lparr>oc_exist := 1\<rparr>), st)
         else case transfer_bluray_dir (fe_ops fe) src (opt_text dir) op sb db (fs_engine st) of
                None \<Rightarrow> None
              | Some (None, e) \<Rightarrow> Some (None, st\<lparr>fs_engine := e\<rparr>)
              | Some (Some _, e) \<Rightarrow> Some (Some oc, replicate_to_enabled_backends fe m file db (st\<lparr>fs_engine := e\<rparr>)))"

definition already_there :: "string list \<Rightarrow> string \<Rightarrow> file_outcome" where
  "already_there msgs p =
     \<lparr>oc_failed = 0, oc_alerts = 0, oc_messages = msgs, oc_exist = 1, oc_new = Some p, oc_file = Some p, oc_dir = Some (dirname p)\<rparr>"

text \<open>The first two tests: was this source file transferred, is the film there under another title?\<close>

definition known_target ::
  "'w file_env \<Rightarrow> transfer_media \<Rightarrow> string \<Rightarrow> string \<Rightarrow> bool \<Rightarrow> string option \<Rightarrow> 'w file_state \<Rightarrow> string \<times> 'w file_state" where
  "known_target fe m src reg udf db st =
     (if udf then ([], st)
      else case source_transferred_path fe reg db st of
             (p, st1) \<Rightarrow>
               if p \<noteq> [] then (p, st1)
               else if \<not> is_single_file_media m then ([], st1)
               else case identity_duplicate_target fe m src db st1 of
                      (q, st2) \<Rightarrow>
                        (q, if q \<noteq> [] then st2\<lparr>fs_engine := blacklist src (fs_engine st2)\<rparr> else st2))"

text \<open>From the test of existence on.\<close>

definition transfer_to ::
  "'w file_env \<Rightarrow> transfer_media \<Rightarrow> string \<Rightarrow> bool \<Rightarrow> string \<Rightarrow> string \<Rightarrow> string \<Rightarrow> bool \<Rightarrow> string list \<Rightarrow> string option \<Rightarrow>
   string option \<Rightarrow> existence \<Rightarrow> hist_row list \<Rightarrow> 'w file_state \<Rightarrow> (file_outcome option \<times> 'w file_state) option" where
  "transfer_to fe m src bluray op reg target udf msgs sb db ex stale st =
     (let oc = \<lparr>oc_failed = 0, oc_alerts = 0, oc_messages = msgs, oc_exist = 0, oc_new = ex_file ex, oc_file = ex_file ex,
            oc_dir = ex_dir ex\<rparr>;
          place = (\<lambda>st. if bluray then place_bluray fe m src op reg target msgs (ex_file ex) (ex_dir ex) sb db st
             else Some (place_new fe m src op reg target msgs (ex_file ex) (ex_dir ex) sb db st));
          replace = (\<lambda>st. Some (replace_existing fe m src op (opt_text (ex_file ex)) (ex_dir ex) sb db msgs st))
      in if ex_dir_exists ex then
           (if bluray then Some (Some oc, st)
            else if ex_file_exists ex \<and> opt_text (ex_file ex) \<noteq> [] then
              (if udf then replace st
               else if stale = [] then Some (Some (oc\<lparr>oc_exist := 1\<rparr>), st)
               else case at_world (should_replace_stale_episode fe src (ex_file ex) db stale) st of
                      (False, st1) \<Rightarrow> Some (Some (oc\<lparr>oc_exist := 1\<rparr>), st1)
                    | (True, st1) \<Rightarrow> replace (snd (at_world (stale_episode_reason fe src (opt_text (ex_file ex)) db) st1)))
            else place st)
         else if opt_text (ex_dir ex) = [] then
           (case record_fail fe reg target op msgs no_season_episode st of (oc', st1) \<Rightarrow> Some (Some oc', st1))
         else if db \<noteq> None then place st
         else case at_world (lb_mkdir (to_lib (fe_ops fe)) ''local'' (opt_text (ex_dir ex))) st of
                (None, st1) \<Rightarrow> Some (None, st1)
              | (Some _, st1) \<Rightarrow> place st1)"

definition do_transfer_file ::
  "'w file_env \<Rightarrow> transfer_media \<Rightarrow> string \<Rightarrow> string \<Rightarrow> bool \<Rightarrow> string \<Rightarrow> string \<Rightarrow> string \<Rightarrow> bool \<Rightarrow> string list \<Rightarrow>
   string option \<Rightarrow> string option \<Rightarrow> 'w file_state \<Rightarrow> (file_outcome option \<times> 'w file_state) option" where
  "do_transfer_file fe m0 src dest bluray op reg target udf msgs sb db st =
     (let m = (if fe_extras fe src then m0\<lparr>tm_extras := True\<rparr> else m0)
      in case known_target fe m src reg udf db st of
           (p, st1) \<Rightarrow>
             if p \<noteq> [] then Some (Some (already_there msgs p), st1)
             else case at_world (is_media_exists fe dest m db) st1 of
                    (None, st2) \<Rightarrow> Some (None, st2)
                  | (Some ex, st2) \<Rightarrow>
                      (case episode_history fe m db st2 of
                         ((False, stale), st3) \<Rightarrow> transfer_to fe m src bluray op reg target udf msgs sb db ex stale st3
                       | ((True, _), st3) \<Rightarrow>
                           (case (if opt_text (ex_file ex) = [] then (False, st3)
                                  else at_world (target_exists (fe_ops fe) db (opt_text (ex_file ex))) st3) of
                              (x, st4) \<Rightarrow>
                                Some (Some \<lparr>oc_failed = 0, oc_alerts = 0, oc_messages = msgs, oc_exist = 1, oc_new = ex_file ex,
                                    oc_file = ex_file ex, oc_dir = ex_dir ex\<rparr>,
                                  if x then st4\<lparr>fs_engine := blacklist src (fs_engine st4)\<rparr> else st4))))"

end
