(* ===== verification/FileTransferProofs.thy ===== *)
theory FileTransferProofs
  imports FileTransfer TransferProofs
begin

text \<open>
  What the transfer of one file keeps and notices: an automatic one overwrites nothing unless the history says that
  the old version's source has gone, a file is transferred once, an existing file is found in every layout and under every
  extension, and a file that keeps failing alerts once.
\<close>

section \<open>Local queries change nothing\<close>

lemma at_world_local:
  assumes "\<And>w. snd (f w) = w"
  shows "at_world f st = (fst (f (world st)), st)"
proof -
  obtain r where "f (world st) = (r, world st)" using assms [of "world st"] by (cases "f (world st)") auto
  then show ?thesis by (simp add: at_world_def)
qed

lemma exists_at_local [simp]: "exists_at tops None p w = (Some (to_getsize tops p w \<noteq> None), w)"
  by (simp add: exists_at_def)

lemma target_exists_local [simp]: "target_exists tops None p w = (to_getsize tops p w \<noteq> None, w)"
  by (simp add: target_exists_def)

lemma file_size_local [simp]: "file_size tops None p w = (case to_getsize tops p w of None \<Rightarrow> 0 | Some n \<Rightarrow> n, w)"
  by (simp add: file_size_def Let_def)

lemma filter_w_local:
  assumes "\<And>x w. snd (f x w) = w"
  shows "filter_w f xs w = (filter (\<lambda>x. fst (f x w)) xs, w)"
proof (induction xs)
  case (Cons x xs)
  obtain y where "f x w = (y, w)" using assms [of x w] by (cases "f x w") auto
  with Cons.IH show ?case by simp
qed simp

definition dest_there :: "'w file_env \<Rightarrow> hist_row \<Rightarrow> 'w \<Rightarrow> bool" where
  "dest_there fe r w \<longleftrightarrow> th_dst_path r \<noteq> [] \<and> th_dst_name r \<noteq> [] \<and>
     (to_getsize (fe_ops fe) (row_target r) w \<noteq> None \<or> th_dst_name r \<in> set (fe_walk_names fe (th_dst_path r) w))"

lemma history_dest_exists_local [simp]: "history_dest_exists fe None r w = (dest_there fe r w, w)"
  by (auto simp: history_dest_exists_def dest_there_def split: bool.split)

lemma alive_local [simp]:
  "at_world (filter_w (history_dest_exists fe None) rows) st = (filter (\<lambda>r. dest_there fe r (world st)) rows, st)"
  by (subst at_world_local) (simp_all add: filter_w_local)

lemma same_content_local: "snd (same_content fe None n spec rows w) = w"
  by (induction rows) (auto simp: Let_def split: option.split)

lemma find_ext_local:
  "find_ext tops None base es w =
    (Some (map_option (\<lambda>e. base @ e) (List.find (\<lambda>e. to_getsize tops (base @ e) w \<noteq> None) es)), w)"
  by (induction es) (auto split: bool.split)

text \<open>The file of a name in a directory, under the first extension that exists.\<close>

definition named_file :: "'w transfer_ops \<Rightarrow> 'w \<Rightarrow> string \<Rightarrow> string \<Rightarrow> string option" where
  "named_file tops w name dir =
     map_option (\<lambda>e. os_join dir name @ e) (List.find (\<lambda>e. to_getsize tops (os_join dir name @ e) w \<noteq> None) media_exts)"

lemma find_existing_file_local:
  "dir \<noteq> [] \<Longrightarrow> name \<noteq> [] \<Longrightarrow> find_existing_file tops None dir name w =
    (Some (case named_file tops w name dir of Some p \<Rightarrow> (Some p, True) | None \<Rightarrow> (Some (os_join dir name), False)), w)"
  by (simp add: find_existing_file_def find_ext_local named_file_def split: option.split)

text \<open>Does a directory hold the file, if one is asked for? A loop over the directories in terms of searches.\<close>

definition holds_file :: "'w transfer_ops \<Rightarrow> 'w \<Rightarrow> string \<Rightarrow> string \<Rightarrow> bool" where
  "holds_file tops w name dir \<longleftrightarrow> name \<noteq> [] \<and> named_file tops w name dir \<noteq> None"

lemma find_existing_file_holds:
  "dir \<noteq> [] \<Longrightarrow> name \<noteq> [] \<Longrightarrow> \<exists>f. find_existing_file tops None dir name w = (Some (f, holds_file tops w name dir), w)"
  by (simp add: find_existing_file_local holds_file_def split: option.split)

lemma pick_loop_local:
  "pick_loop tops None name first ps w =
    (Some (case List.find (holds_file tops w name) (filter (\<lambda>p. p \<noteq> []) ps) of
        Some p \<Rightarrow> Some p
      | None \<Rightarrow> if first \<noteq> None then first else List.find (\<lambda>p. to_getsize tops p w \<noteq> None) (filter (\<lambda>p. p \<noteq> []) ps)), w)"
proof (induction ps arbitrary: first)
  case (Cons p ps)
  consider "p = []" | "p \<noteq> []" "name = []" | "p \<noteq> []" "name \<noteq> []" by blast
  then show ?case
  proof cases
    case 1
    then show ?thesis by (simp add: Cons.IH cong: option.case_cong if_cong)
  next
    case 2
    then show ?thesis by (cases first) (simp_all add: Cons.IH [unfolded 2(2)] holds_file_def first_or_look_def split: option.split)
  next
    case 3
    then obtain f where "find_existing_file tops None p name w = (Some (f, holds_file tops w name p), w)"
      using find_existing_file_holds by metis
    with 3 show ?thesis
      by (cases "holds_file tops w name p"; cases first) (simp_all add: Cons.IH first_or_look_def split: option.split)
  qed
qed simp

text \<open>The directory a file goes to: one that holds it, else one that exists, else the preferred one.\<close>

definition chosen_dir :: "'w transfer_ops \<Rightarrow> 'w \<Rightarrow> string list \<Rightarrow> string \<Rightarrow> string \<Rightarrow> string" where
  "chosen_dir tops w cands preferred name =
     (case List.find (holds_file tops w name) (filter (\<lambda>p. p \<noteq> []) cands) of
        Some p \<Rightarrow> p
      | None \<Rightarrow>
          (case List.find (\<lambda>p. to_getsize tops p w \<noteq> None) (filter (\<lambda>p. p \<noteq> []) cands) of
             Some p \<Rightarrow> p
           | None \<Rightarrow> preferred))"

lemma pick_target_dir_local:
  "pick_target_dir tops None cands preferred name w = (Some (chosen_dir tops w cands preferred name), w)"
  by (simp add: pick_target_dir_def pick_loop_local chosen_dir_def split: option.split)

lemma locate_world: "snd (locate tops None cands preferred name with_file w) = w"
  by (simp add: locate_def pick_target_dir_local find_existing_file_def find_ext_local split: option.split)

lemma is_media_exists_local: "snd (is_media_exists fe dest m None w) = w"
  by (simp add: is_media_exists_def Let_def locate_world split: option.split prod.split)

section \<open>What was transferred before\<close>

lemma source_transferred_local:
  "source_transferred_path fe src None st =
    (if src = [] then [] else case get_by_source (normpath src) (fs_rows st) of
       None \<Rightarrow> [] | Some r \<Rightarrow> if dest_there fe r (world st) then row_target r else [], st)"
  by (auto simp: source_transferred_path_def at_world_local split: option.split)

lemma identity_duplicate_local: "snd (identity_duplicate_target fe m src None st) = st"
  by (auto simp: identity_duplicate_target_def at_world_local same_content_local split: option.split)

text \<open>The tests leave the files and the history alone.\<close>

lemma known_target_local:
  assumes "known_target fe m src reg udf None st = (p, st1)"
  shows "world st1 = world st \<and> fs_rows st1 = fs_rows st"
proof (cases "identity_duplicate_target fe m src None st")
  case (Pair q st2)
  then have "st2 = st" using identity_duplicate_local [of fe m src st] by simp
  with assms Pair show ?thesis
    by (auto simp: known_target_def source_transferred_local blacklist_def split: if_splits)
qed

lemma episode_history_local:
  "episode_history fe m None st =
    (case (mi_begin_season m, mi_begin_episode m) of
       (Some season, Some ep) \<Rightarrow>
         if mi_type m = MOVIE \<or> season = 0 then (False, [])
         else
           let alive = filter (\<lambda>r. dest_there fe r (world st)) (get_transfer_info_by_ref (canonical_metadata_ref m)
                 (''S'' @ two_digits season) (type_value (mi_type m)) (fs_rows st));
               valid = filter (\<lambda>r. source_present fe r (world st)) alive
           in if valid \<noteq> [] \<and> episode_in_history valid ep then (True, [])
              else (False, filter (\<lambda>r. episode_in_history [r] ep \<and> \<not> source_present fe r (world st)) alive)
     | _ \<Rightarrow> (False, []), st)"
  by (simp add: episode_history_def Let_def split: option.split)

lemma by_ref_subset: "set (get_transfer_info_by_ref ref season mtype rows) \<subseteq> set rows"
  by (auto simp: get_transfer_info_by_ref_def Let_def split: option.split)

lemma no_stale_rows:
  assumes "\<And>r. r \<in> set (fs_rows st) \<Longrightarrow> source_present fe r (world st)"
  shows "\<exists>x. episode_history fe m None st = ((x, []), st)"
proof -
  have none: "filter (\<lambda>r. e r \<and> \<not> source_present fe r (world st)) (filter d (get_transfer_info_by_ref a b c (fs_rows st))) = []"
    for e d a b c
    using assms by_ref_subset [of a b c "fs_rows st"] by (force simp: filter_empty_conv)
  have "snd (fst (episode_history fe m None st)) = []"
  proof (cases "mi_begin_season m")
    case (Some season)
    then show ?thesis
    proof (cases "mi_begin_episode m")
      case (Some ep)
      with \<open>mi_begin_season m = Some season\<close> show ?thesis unfolding episode_history_local Let_def none by simp
    qed (simp add: episode_history_local)
  qed (simp add: episode_history_local)
  moreover have "snd (episode_history fe m None st) = st" by (simp add: episode_history_local)
  ultimately show ?thesis by (intro exI [of _ "fst (fst (episode_history fe m None st))"] prod_eqI) simp_all
qed

section \<open>Automatic transfers\<close>

lemma replicate_engine [simp]: "fs_engine (replicate_to_enabled_backends fe m p db st) = fs_engine st"
  by (simp add: replicate_to_enabled_backends_def Let_def split: option.split)

lemma insert_unknown_engine [simp]: "fs_engine (insert_transfer_unknown fe p d md st) = fs_engine st"
  by (simp add: insert_transfer_unknown_def)

lemma need_insert_engine: "is_need_insert_transfer_unknown p st = (x, st1) \<Longrightarrow> fs_engine st1 = fs_engine st"
  by (auto simp: is_need_insert_transfer_unknown_def Let_def split: if_splits)

lemma record_fail_engine: "record_fail fe reg target op msgs msg st = (oc, st') \<Longrightarrow> fs_engine st' = fs_engine st"
  by (cases "is_need_insert_transfer_unknown reg st")
    (auto simp: record_fail_def Let_def need_insert_engine split: prod.splits if_splits)

context transfer_storage begin

lemma place_new_safe:
  assumes g: "good (world st)" and op: "op \<noteq> ''softlink''" and ops: "fe_ops fe = tops"
    and p: "place_new fe m src op reg target msgs file dir None None st = (r, st')"
  shows "safe op (world st) (world st')"
proof -
  let ?new = "opt_text file @ snd (splitext src)"
  obtain x e where t: "transfer tops (fe_subtitles fe) src ?new op False None None None (fs_engine st) = (x, e)" by force
  have k: "safe op (world st) (tf_world e)" by (rule transfer_safe [OF g op t])
  have "fs_engine st' = fs_engine st \<or> fs_engine st' = e"
    using p t by (auto simp: place_new_def in_engine_def ops Let_def dest!: record_fail_engine
        split: if_splits option.splits bool.splits prod.splits)
  with k g show ?thesis by (auto simp: safe_same)
qed

lemma place_bluray_safe:
  assumes g: "good (world st)" and op: "op \<noteq> ''softlink''" and ops: "fe_ops fe = tops"
    and p: "place_bluray fe m src op reg target msgs file dir None None st = Some (r, st')"
  shows "safe op (world st) (world st')"
proof -
  obtain x e where t: "transfer_files tops src (opt_text dir) op False None None (to_walk tops src (world st)) (fs_engine st) = (x, e)"
    by force
  have k: "safe op (world st) (tf_world e)" by (rule transfer_files_safe [OF op g t])
  have "fs_engine st' = fs_engine st \<or> tf_world (fs_engine st') = tf_world e"
    using p t by (cases x) (auto simp: place_bluray_def transfer_bluray_dir_def transfer_dir_def blacklist_def ops Let_def
        dest!: record_fail_engine split: if_splits prod.splits)
  with k g show ?thesis by (auto simp: safe_same)
qed

lemma transfer_to_safe:
  assumes g: "good (world st)" and op: "op \<noteq> ''softlink''" and ops: "fe_ops fe = tops"
    and p: "transfer_to fe m src bluray op reg target False msgs None None ex [] st = Some (r, st')"
  shows "safe op (world st) (world st')"
proof -
  obtain y w1 where m: "lb_mkdir (to_lib tops) ''local'' (opt_text (ex_dir ex)) (world st) = (y, w1)" by force
  have k: "safe op (world st) w1" using mkdir_safe [OF g m] by blast
  let ?st1 = "st\<lparr>fs_engine := (fs_engine st)\<lparr>tf_world := w1\<rparr>\<rparr>"
  consider "fs_engine st' = fs_engine st" | "world st' = w1"
    | s where "s = st \<or> s = ?st1"
        "place_new fe m src op reg target msgs (ex_file ex) (ex_dir ex) None None s = (r, st')"
    | s where "s = st \<or> s = ?st1"
        "place_bluray fe m src op reg target msgs (ex_file ex) (ex_dir ex) None None s = Some (r, st')"
    using p m by (auto simp: transfer_to_def at_world_def ops Let_def dest!: record_fail_engine split: if_splits option.splits prod.splits)
  then show ?thesis
  proof cases
    case (3 s)
    have "good (world s)" using 3(1) g k safe_good by auto
    from place_new_safe [OF this op ops 3(2)] 3(1) k show ?thesis by (auto intro: safe_trans)
  next
    case (4 s)
    have "good (world s)" using 4(1) g k safe_good by auto
    from place_bluray_safe [OF this op ops 4(2)] 4(1) k show ?thesis by (auto intro: safe_trans)
  qed (use g k in \<open>auto simp: safe_same\<close>)
qed

lemma do_transfer_file_safe:
  assumes g: "good (world st)" and op: "op \<noteq> ''softlink''" and ops: "fe_ops fe = tops"
    and src: "\<And>r. r \<in> set (fs_rows st) \<Longrightarrow> source_present fe r (world st)"
    and p: "do_transfer_file fe m src' dest bluray op reg target False msgs None None st = Some (r, st')"
  shows "safe op (world st) (world st')"
proof -
  let ?m = "if fe_extras fe src' then m\<lparr>tm_extras := True\<rparr> else m"
  obtain q st1 where q: "known_target fe ?m src' reg False None st = (q, st1)" by force
  note st1 = known_target_local [OF q]
  define e where "e = fst (is_media_exists fe dest ?m None (world st1))"
  have e: "at_world (is_media_exists fe dest ?m None) st1 = (e, st1)"
    unfolding e_def by (rule at_world_local) (rule is_media_exists_local)
  obtain x where h: "episode_history fe ?m None st1 = ((x, []), st1)"
    using no_stale_rows [of st1 fe ?m] src st1 by auto
  have "world st' = world st1 \<or>
      (\<exists>ex. transfer_to fe ?m src' bluray op reg target False msgs None None ex [] st1 = Some (r, st'))"
    using p q e h by (cases x) (auto simp: do_transfer_file_def Let_def at_world_def blacklist_def split: if_splits option.splits)
  then show ?thesis
    using transfer_to_safe [OF _ op ops, of st1] g st1 by (auto simp: safe_same)
qed

end

section \<open>Searches\<close>

lemma os_join_empty [simp]: "os_join a b = [] \<longleftrightarrow> a = [] \<and> b = []" "[] = os_join a b \<longleftrightarrow> a = [] \<and> b = []"
  by (auto simp: os_join_def startswith_def)

lemma find_Some_in: "List.find P xs = Some x \<Longrightarrow> x \<in> set xs \<and> P x"
  by (auto simp: find_Some_iff)

lemma holds_file_iff:
  "holds_file tops w name d \<longleftrightarrow> name \<noteq> [] \<and> (\<exists>e \<in> set media_exts. to_getsize tops (os_join d name @ e) w \<noteq> None)"
  unfolding holds_file_def named_file_def by (auto simp: find_None_iff)

lemma chosen_dir_in:
  assumes pre: "preferred \<in> set cands"
  shows "chosen_dir tops w cands preferred name \<in> set cands"
proof (cases "List.find (holds_file tops w name) (filter (\<lambda>p. p \<noteq> []) cands)")
  case (Some p)
  have "p \<in> set cands" using find_Some_in [OF Some] by simp
  then show ?thesis unfolding chosen_dir_def Some by simp
next
  case none: None
  show ?thesis
  proof (cases "List.find (\<lambda>p. to_getsize tops p w \<noteq> None) (filter (\<lambda>p. p \<noteq> []) cands)")
    case (Some p)
    have "p \<in> set cands" using find_Some_in [OF Some] by simp
    then show ?thesis unfolding chosen_dir_def none Some by simp
  next
    case None
    show ?thesis unfolding chosen_dir_def none None using pre by simp
  qed
qed

lemma chosen_dir_holds:
  assumes "\<And>d. d \<in> set cands \<Longrightarrow> d \<noteq> []" and "preferred \<in> set cands"
  shows "holds_file tops w name (chosen_dir tops w cands preferred name) \<longleftrightarrow> (\<exists>d \<in> set cands. holds_file tops w name d)"
proof (cases "List.find (holds_file tops w name) (filter (\<lambda>p. p \<noteq> []) cands)")
  case None
  have "\<not> (\<exists>d \<in> set cands. holds_file tops w name d)" using None assms(1) unfolding find_None_iff by auto
  with chosen_dir_in [OF assms(2), of tops w name] show ?thesis by blast
next
  case (Some p)
  have "p \<in> set cands" "holds_file tops w name p" using find_Some_in [OF Some] by simp_all
  moreover have "chosen_dir tops w cands preferred name = p" unfolding chosen_dir_def Some by simp
  ultimately show ?thesis by blast
qed

lemma locate_spec:
  assumes "\<And>d. d \<in> set cands \<Longrightarrow> d \<noteq> []" and "preferred \<in> set cands" and "name \<noteq> []"
    and l: "locate tops None cands preferred name True w = (Some ex, w')"
  shows "ex_file_exists ex \<longleftrightarrow> (\<exists>d \<in> set cands. \<exists>e \<in> set media_exts. to_getsize tops (os_join d name @ e) w \<noteq> None)"
    and "ex_file_exists ex \<Longrightarrow> \<exists>d \<in> set cands. \<exists>e \<in> set media_exts. ex_file ex = Some (os_join d name @ e) \<and>
      to_getsize tops (os_join d name @ e) w \<noteq> None"
proof -
  let ?d = "chosen_dir tops w cands preferred name"
  have d: "?d \<in> set cands" by (rule chosen_dir_in [OF assms(2)])
  then have d': "?d \<noteq> []" by (rule assms(1))
  have ex: "ex_file_exists ex = holds_file tops w name ?d" "holds_file tops w name ?d \<Longrightarrow> ex_file ex = named_file tops w name ?d"
    using l d' assms(3) by (auto simp: locate_def pick_target_dir_local find_existing_file_local holds_file_def split: option.splits)
  show "ex_file_exists ex \<longleftrightarrow> (\<exists>d \<in> set cands. \<exists>e \<in> set media_exts. to_getsize tops (os_join d name @ e) w \<noteq> None)"
    using chosen_dir_holds [OF assms(1,2), of tops w name] assms(3) by (simp add: ex(1) holds_file_iff)
  assume "ex_file_exists ex"
  then obtain p where "named_file tops w name ?d = Some p" "ex_file ex = Some p"
    using ex by (auto simp: holds_file_def)
  then show "\<exists>d \<in> set cands. \<exists>e \<in> set media_exts. ex_file ex = Some (os_join d name @ e) \<and>
      to_getsize tops (os_join d name @ e) w \<noteq> None"
    using d by (auto simp: named_file_def dest!: find_Some_in)
qed

text \<open>The directories that may hold the file of a media item, and its name there.\<close>

definition media_dirs :: "'w file_env \<Rightarrow> string \<Rightarrow> transfer_media \<Rightarrow> (string list \<times> string) option" where
  "media_dirs fe dest m =
     (let c = safe_category_name (tm_category m)
      in if mi_type m = MOVIE then
           map_option (\<lambda>(dir, name). (os_join (os_join dest fav_type) dir # layout_dirs dest dir c (fe_category_flag fe MOVIE), name))
             (fe_movie_path fe m)
         else
           map_option (\<lambda>(dir, season, name). (map (\<lambda>d. os_join d season)
               (layout_dirs dest dir c (fe_category_flag fe (if mi_type m = ANIME then ANIME else TV))), name))
             (fe_tv_path fe m))"

lemma layout_dirs_nonempty: "base \<noteq> [] \<Longrightarrow> d \<in> set (layout_dirs base name c u) \<Longrightarrow> d \<noteq> []"
  by (auto simp: layout_dirs_def Let_def split: if_splits)

lemma layout_dirs_some: "layout_dirs base name c u \<noteq> []"
  by (simp add: layout_dirs_def Let_def)

lemma media_search:
  assumes "is_media_exists fe dest m None w = (Some ex, w')" and "media_dirs fe dest m = Some (dirs, name)"
    and "dest \<noteq> []" and "mi_type m \<noteq> MOVIE \<Longrightarrow> get_season_list m \<noteq> [] \<and> get_episode_list m \<noteq> []"
  shows "\<exists>cands pre. locate (fe_ops fe) None cands pre name True w = (Some ex, w') \<and> set cands = set dirs \<and> pre \<in> set cands \<and>
    (\<forall>d \<in> set cands. d \<noteq> [])"
proof (cases "mi_type m = MOVIE")
  case True
  then obtain dir where p: "fe_movie_path fe m = Some (dir, name)"
      "dirs = os_join (os_join dest fav_type) dir # layout_dirs dest dir (safe_category_name (tm_category m)) (fe_category_flag fe MOVIE)"
    using assms(2) by (auto simp: media_dirs_def Let_def)
  let ?fav = "os_join (os_join dest fav_type) dir" and ?ds = "tl dirs"
  have "locate (fe_ops fe) None (?fav # filter (\<lambda>d. d \<noteq> ?fav) ?ds) (hd ?ds) name True w = (Some ex, w')"
    using assms(1) True p by (simp add: is_media_exists_def Let_def)
  moreover have "set (?fav # filter (\<lambda>d. d \<noteq> ?fav) ?ds) = set dirs" using p by auto
  moreover have "hd ?ds \<in> set (?fav # filter (\<lambda>d. d \<noteq> ?fav) ?ds)"
    using p layout_dirs_some by (auto simp: hd_in_set)
  moreover have "d \<noteq> []" if "d \<in> set (?fav # filter (\<lambda>d. d \<noteq> ?fav) ?ds)" for d
    using that p assms(3) by (auto dest: layout_dirs_nonempty)
  ultimately show ?thesis by blast
next
  case False
  then obtain dir season where p: "fe_tv_path fe m = Some (dir, season, name)"
      "dirs = map (\<lambda>d. os_join d season) (layout_dirs dest dir (safe_category_name (tm_category m))
        (fe_category_flag fe (if mi_type m = ANIME then ANIME else TV)))"
    using assms(2) by (auto simp: media_dirs_def Let_def)
  have "locate (fe_ops fe) None dirs (hd dirs) name True w = (Some ex, w')"
    using assms(1,4) False p by (simp add: is_media_exists_def Let_def)
  moreover have "hd dirs \<in> set dirs"
    using p layout_dirs_some [of dest dir "safe_category_name (tm_category m)"] by (simp add: hd_map)
  moreover have "d \<noteq> []" if "d \<in> set dirs" for d
    using that p assms(3) by (auto dest: layout_dirs_nonempty)
  ultimately show ?thesis by blast
qed

section \<open>Properties\<close>

text \<open>C10: An automatic transfer between local places overwrites nothing while the source of every row of the history
  exists: when copying or linking every file stays as it was, when moving no content is lost, whichever calls fail.\<close>

theorem automatic_transfer_keeps:
  assumes "disk_inv (world st)" and "op \<noteq> ''softlink''" and "fe_ops fe = local_transfer_ops faults remote"
    and "\<And>r. r \<in> set (fs_rows st) \<Longrightarrow> source_present fe r (world st)"
    and "do_transfer_file fe m src dest bluray op reg target False msgs None None st = Some (r, st')"
  shows "if op = ''move'' then contents (disk_files (world st')) = contents (disk_files (world st))
    else disk_files (world st) \<subseteq>\<^sub>m disk_files (world st')"
  using local_transfer.do_transfer_file_safe [OF assms] unfolding local_transfer.safe_def by simp

text \<open>C31: The test of existence finds the file of a media item on the local disk exactly when it is in one of the
  directories of the layouts, under any of the media extensions, and it names such a file.\<close>

theorem existing_file_found:
  assumes "is_media_exists fe dest m None w = (Some ex, w')" and "media_dirs fe dest m = Some (dirs, name)"
    and "dest \<noteq> []" and "name \<noteq> []" and "mi_type m \<noteq> MOVIE \<Longrightarrow> get_season_list m \<noteq> [] \<and> get_episode_list m \<noteq> []"
  shows "(ex_file_exists ex \<longleftrightarrow> (\<exists>d \<in> set dirs. \<exists>e \<in> set media_exts. to_getsize (fe_ops fe) (os_join d name @ e) w \<noteq> None)) \<and>
    (ex_file_exists ex \<longrightarrow> (\<exists>d \<in> set dirs. \<exists>e \<in> set media_exts. ex_file ex = Some (os_join d name @ e) \<and>
       to_getsize (fe_ops fe) (os_join d name @ e) w \<noteq> None))"
proof -
  obtain cands pre where l: "locate (fe_ops fe) None cands pre name True w = (Some ex, w')"
    and c: "set cands = set dirs" "pre \<in> set cands" "\<And>d. d \<in> set cands \<Longrightarrow> d \<noteq> []"
    using media_search [OF assms(1-3,5)] by blast
  from locate_spec [OF c(3,2) assms(4) l] c(1) show ?thesis by auto
qed

section \<open>Once is enough\<close>

lemma latest_None: "latest rs = None \<longleftrightarrow> rs = []"
  by (cases rs; cases "latest (tl rs)") (simp_all split: if_splits)

lemma latest_Some: "latest rs = Some r \<Longrightarrow> r \<in> set rs \<and> (\<forall>r' \<in> set rs. hs_date r' \<le> hs_date r)"
proof (induction rs arbitrary: r)
  case (Cons r0 rs)
  show ?case
  proof (cases "latest rs")
    case None
    with Cons.prems show ?thesis by (simp add: latest_None)
  next
    case (Some r')
    with Cons.IH [OF Some] Cons.prems show ?thesis by (auto split: if_splits)
  qed
qed simp

text \<open>The rows of a fresh insertion are those of its date.\<close>

lemma inserted_cases:
  assumes "in_path \<noteq> []" and "out_path \<noteq> []" and "r \<in> set (insert_transfer_history fe now in_path out_path b dto rows)"
  shows "r \<in> set rows \<or> hs_date r = now \<and> th_dst_path r = dirname (normpath out_path) \<and> th_dst_name r = basename (normpath out_path)"
  using assms by (auto simp: insert_transfer_history_def Let_def split: if_splits)

lemma inserted_there:
  assumes "in_path \<noteq> []" and "out_path \<noteq> []"
  shows "\<exists>r \<in> set (insert_transfer_history fe now in_path out_path b dto rows).
    hs_date r = now \<and> th_src_path r = dirname (normpath in_path) \<and> th_src_name r = basename (normpath in_path)"
proof -
  let ?same = "\<lambda>r. th_src_path r = dirname (normpath in_path) \<and> th_src_name r = basename (normpath in_path) \<and>
    th_dst_path r = dirname (normpath out_path) \<and> th_dst_name r = basename (normpath out_path)"
  let ?rows = "insert_transfer_history fe now in_path out_path b dto rows"
  show ?thesis
  proof (cases "\<exists>r \<in> set rows. ?same r")
    case True
    then obtain r where r: "r \<in> set rows" "?same r" by blast
    then have "?rows = map (\<lambda>r. if ?same r then r\<lparr>hs_date := now\<rparr> else r) rows"
      using assms by (auto simp: insert_transfer_history_def Let_def)
    with r have "r\<lparr>hs_date := now\<rparr> \<in> set ?rows" by (auto intro: rev_image_eqI)
    with r show ?thesis by (intro bexI [of _ "r\<lparr>hs_date := now\<rparr>"]) simp_all
  next
    case False
    then show ?thesis using assms unfolding insert_transfer_history_def Let_def by (simp only: if_False if_not_P) simp
  qed
qed

lemma inserted_found:
  assumes "in_path \<noteq> []" and "out_path \<noteq> []" and "\<And>r. r \<in> set rows \<Longrightarrow> hs_date r < now"
    and normal: "normpath in_path = in_path" "CHR 0x5C \<notin> set in_path"
  shows "\<exists>r. get_by_source (normpath in_path) (insert_transfer_history fe now in_path out_path b dto rows) = Some r \<and>
    th_dst_path r = dirname (normpath out_path) \<and> th_dst_name r = basename (normpath out_path)"
proof -
  let ?rows = "insert_transfer_history fe now in_path out_path b dto rows"
  let ?hits = "filter (\<lambda>r. th_src_path r = dirname in_path \<and> th_src_name r = basename in_path \<or> th_src_path r = in_path) ?rows"
  have g: "get_by_source (normpath in_path) ?rows = latest ?hits"
    using normal by (simp add: get_by_source_def replace_char_id)
  obtain r0 where r0: "r0 \<in> set ?hits" "hs_date r0 = now"
    using inserted_there [OF assms(1,2), of fe now b dto rows] normal(1) by auto
  then have "?hits \<noteq> []" by (cases ?hits) simp_all
  then obtain r where r: "latest ?hits = Some r" unfolding latest_None [symmetric] by blast
  from latest_Some [OF r] r0 have now: "hs_date r \<ge> now" "r \<in> set ?rows" by auto
  then have "r \<notin> set rows" using assms(3) by force
  with inserted_cases [OF assms(1,2) now(2)] g r show ?thesis by simp
qed

text \<open>C30: A file recorded as transferred is not transferred again while its target exists: the automatic transfer of the
  same source, whatever it is taken for now, answers the recorded target and changes nothing.\<close>

theorem transferred_once:
  assumes "reg \<noteq> []" and "out \<noteq> []" and "\<And>r. r \<in> set (fs_rows st) \<Longrightarrow> hs_date r < now"
    and "normpath reg = reg" and "CHR 0x5C \<notin> set reg"
    and "dirname (normpath out) \<noteq> []" and "basename (normpath out) \<noteq> []"
    and "target = os_join (dirname (normpath out)) (basename (normpath out))"
    and "to_getsize (fe_ops fe) target (world st) \<noteq> None"
    and "st1 = st\<lparr>fs_rows := insert_transfer_history fe now reg out b dto (fs_rows st)\<rparr>"
  shows "do_transfer_file fe m src dest bluray op reg dir False msgs sb None st1 = Some (Some (already_there msgs target), st1)"
proof -
  obtain r where r: "get_by_source (normpath reg) (fs_rows st1) = Some r"
      "th_dst_path r = dirname (normpath out)" "th_dst_name r = basename (normpath out)"
    using inserted_found [OF assms(1-5), where fe = fe and b = b and dto = dto] assms(10) by auto
  then have "dest_there fe r (world st1)" "row_target r = target"
    using assms(6-10) by (simp_all add: dest_there_def row_target_def)
  then have "source_transferred_path fe reg None st1 = (target, st1)"
    using r(1) assms(1) by (simp add: source_transferred_local)
  then show ?thesis using assms(1,6,8) by (simp add: do_transfer_file_def known_target_def Let_def)
qed

section \<open>Versions that are not replaced\<close>

text \<open>An episode with a record whose file exists and whose source directory exists is skipped, also when the source
  file itself has gone and also when the transfer is a manual one; the new file is put on the blacklist when the
  target exists.\<close>

theorem known_episode_skipped:
  assumes "mi_type m \<noteq> MOVIE" and "mi_begin_season m = Some s" and "s \<noteq> 0" and "mi_begin_episode m = Some ep"
    and "r \<in> set (get_transfer_info_by_ref (canonical_metadata_ref m) (''S'' @ two_digits s) (type_value (mi_type m)) (fs_rows st))"
    and "episode_in_history [r] ep" and "dest_there fe r (world st)"
    and "th_src_path r \<noteq> []" and "to_getsize (fe_ops fe) (th_src_path r) (world st) \<noteq> None"
    and "to_getsize (fe_ops fe) (os_join (th_src_path r) (th_src_name r)) (world st) = None"
    and "get_by_source (normpath reg) (fs_rows st) = None" and "\<not> fe_extras fe src"
    and "is_media_exists fe dest m None (world st) = (Some ex, world st)"
  shows "do_transfer_file fe m src dest bluray op reg dir udf msgs sb None st =
    Some (Some \<lparr>oc_failed = 0, oc_alerts = 0, oc_messages = msgs, oc_exist = 1, oc_new = ex_file ex, oc_file = ex_file ex, oc_dir = ex_dir ex\<rparr>,
      if opt_text (ex_file ex) \<noteq> [] \<and> to_getsize (fe_ops fe) (opt_text (ex_file ex)) (world st) \<noteq> None
      then st\<lparr>fs_engine := blacklist src (fs_engine st)\<rparr> else st)"
proof -
  let ?alive = "filter (\<lambda>r. dest_there fe r (world st)) (get_transfer_info_by_ref (canonical_metadata_ref m)
    (''S'' @ two_digits s) (type_value (mi_type m)) (fs_rows st))"
  have valid: "r \<in> set (filter (\<lambda>r. source_present fe r (world st)) ?alive)"
    using assms(5,7-9) by (simp add: source_present_def)
  then have e: "episode_in_history (filter (\<lambda>r. source_present fe r (world st)) ?alive) ep"
    using assms(6) unfolding episode_in_history_def by auto
  have ne: "filter (\<lambda>r. source_present fe r (world st)) ?alive \<noteq> []" using valid by (metis empty_iff empty_set)
  have h: "episode_history fe m None st = ((True, []), st)"
    using e ne assms(1-4) unfolding episode_history_local Let_def by simp
  have k: "known_target fe m src reg udf None st = ([], st)"
    using assms(1,4,11) by (simp add: known_target_def source_transferred_local is_single_file_media_def)
  have x: "at_world (is_media_exists fe dest m None) st = (Some ex, st)"
    using assms(13) by (simp add: at_world_def)
  show ?thesis using k x h assms(12) by (simp add: do_transfer_file_def Let_def at_world_def)
qed

section \<open>Failures\<close>

lemma unknowns_at_normal: "p \<noteq> [] \<Longrightarrow> normpath p = p \<Longrightarrow> unknowns_at p us = filter (\<lambda>u. uk_path u = p) us"
  by (simp add: unknowns_at_def)

definition pending_unknown :: "string \<Rightarrow> 'w file_state \<Rightarrow> bool" where
  "pending_unknown p st \<longleftrightarrow> (\<exists>u \<in> set (fs_unknowns st). uk_path u = p \<and> uk_state u = ''N'')"

lemma record_fail_pending:
  "reg \<noteq> [] \<Longrightarrow> pending_unknown reg st \<Longrightarrow> record_fail fe reg dir op msgs msg st =
    (\<lparr>oc_failed = 0, oc_alerts = 0, oc_messages = msgs, oc_exist = 0, oc_new = None, oc_file = None, oc_dir = None\<rparr>, st)"
  by (simp add: record_fail_def pending_unknown_def Let_def)

lemma record_fail_fresh:
  assumes "reg \<noteq> []" and "\<not> pending_unknown reg st" and "is_need_insert_transfer_unknown reg st = (x, s)"
  shows "record_fail fe reg dir op msgs msg st =
    (\<lparr>oc_failed = 1, oc_alerts = (if x then 1 else 0), oc_messages = (if msg \<notin> set msgs \<and> x then msgs @ [msg] else msgs), oc_exist = 0,
       oc_new = None, oc_file = None, oc_dir = None\<rparr>, if x then insert_transfer_unknown fe reg dir op s else s)"
proof -
  have "\<not> (\<exists>u \<in> set (fs_unknowns st). uk_path u = reg \<and> uk_state u = ''N'')" using assms(2) by (simp add: pending_unknown_def)
  then show ?thesis using assms(1,3) unfolding record_fail_def Let_def by simp
qed

text \<open>Without a pending record, either a new one is to be written and none is left at the path, or nothing happens.\<close>

lemma need_insert_cases:
  assumes "reg \<noteq> []" and "normpath reg = reg" and "\<not> pending_unknown reg st" and "is_need_insert_transfer_unknown reg st = (x, s)"
  shows "x \<and> unknowns_at reg (fs_unknowns s) = [] \<or> \<not> x \<and> s = st"
  using assms by (auto simp: is_need_insert_transfer_unknown_def unknowns_at_normal pending_unknown_def Let_def filter_empty_conv
      split: if_splits)

lemma insert_unknown_pending:
  "p \<noteq> [] \<Longrightarrow> normpath p = p \<Longrightarrow> unknowns_at p (fs_unknowns st) = [] \<Longrightarrow> pending_unknown p (insert_transfer_unknown fe p dir op st)"
  by (simp add: insert_transfer_unknown_def pending_unknown_def)

text \<open>A file that fails again alerts no more: the second failure for a path in normal form, for whatever reason, leaves
  the records as they are and raises no alert.\<close>

theorem failure_alerts_once:
  assumes "reg \<noteq> []" and "normpath reg = reg"
    and "record_fail fe reg dir op msgs msg st = (oc, st1)" and "record_fail fe reg dir' op' msgs' msg' st1 = (oc', st2)"
  shows "oc_alerts oc' = 0 \<and> oc_messages oc' = msgs' \<and> st2 = st1"
proof (cases "pending_unknown reg st")
  case True
  then have "st1 = st" using record_fail_pending [OF assms(1) True] assms(3) by simp
  with record_fail_pending [OF assms(1) True] assms(4) show ?thesis by auto
next
  case False
  obtain x s where n: "is_need_insert_transfer_unknown reg st = (x, s)" by force
  note fresh = record_fail_fresh [OF assms(1) False n]
  show ?thesis
  proof (cases x)
    case True
    then have st1: "st1 = insert_transfer_unknown fe reg dir op s" using fresh assms(3) by simp
    have "unknowns_at reg (fs_unknowns s) = []" using need_insert_cases [OF assms(1,2) False n] True by simp
    then have "pending_unknown reg st1" unfolding st1 by (rule insert_unknown_pending [OF assms(1,2)])
    with record_fail_pending [OF assms(1) this] assms(4) show ?thesis by auto
  next
    case False
    then have "st1 = st" using need_insert_cases [OF assms(1,2) \<open>\<not> pending_unknown reg st\<close> n] fresh assms(3) by simp
    with fresh False assms(4) need_insert_cases [OF assms(1,2) \<open>\<not> pending_unknown reg st\<close> n] show ?thesis by auto
  qed
qed

section \<open>A small library\<close>

text \<open>A downloaded film and episode, a library with the second episode; the row of the first names a source that has gone
  from a directory that is still there.\<close>

definition demo_media :: "media_type \<Rightarrow> int option \<Rightarrow> transfer_media" where
  "demo_media t ep = \<lparr>mi_type = t, mi_title = ''A'', mi_name = ''A'', mi_year = ''2020'', mi_identity_id = None, mi_series_key = None,
     mi_anchor_provider = None, mi_anchor_external_id = None, mi_tmdb_id = PStr ''7'', mi_douban_id = PNone,
     mi_begin_season = (if ep = None then None else Some 1), mi_end_season = None, mi_begin_episode = ep, mi_end_episode = None,
     mi_enclosure = None, mi_page_url = None, mi_rest = 0,
     tm_metadata_ref = None, tm_category = None, tm_pix = Some ''1080p'', tm_effect = None, tm_extras = False\<rparr>"

definition demo_env :: "(nat \<Rightarrow> bool) \<Rightarrow> disk file_env" where
  "demo_env faults = \<lparr>fe_ops = local_transfer_ops faults no_remote, fe_subtitles = plain_subtitles,
     fe_movie_path = (\<lambda>_. Some (''A'', ''A'')), fe_tv_path = (\<lambda>m. Some (''A'', ''S1'', ''A'' @ int_str (hd (get_episode_list m @ [0])))),
     fe_category_flag = (\<lambda>_. False), fe_walk_names = (\<lambda>_ _. []), fe_meta_info = (\<lambda>_. None), fe_extras = (\<lambda>_. False),
     fe_mirrors = (\<lambda>_. Some []), fe_lock = (\<lambda>_. Acquired), fe_new_id = (\<lambda>ids. 1 + int (length ids))\<rparr>"

definition demo_row :: hist_row where
  "demo_row = \<lparr>th_id = 1, th_identity = None, th_tmdb = 7, th_episode = ''S01E02'', th_src_path = ''/d'', th_src_name = ''old.mkv'',
     th_dst_path = ''/m/A/S1'', th_dst_name = ''A2.mkv'', th_backend = Some ''local'', th_src_state = None, th_dst_state = None,
     th_policy = None, hs_date = 1, hs_type = ''tv'', hs_provider = Some ''tmdb'', hs_external = Some ''7''\<rparr>"

definition demo_files :: disk where
  "demo_files = \<lparr>dk_nodes = [((''local'', [''d'']), Directory), ((''local'', [''d'', ''a.mkv'']), Regular ''new'' 9 0),
     ((''local'', [''m'']), Directory), ((''local'', [''m'', ''A'']), Directory), ((''local'', [''m'', ''A'', ''S1'']), Directory),
     ((''local'', [''m'', ''A'', ''S1'', ''A2.mkv'']), Regular ''old'' 5 0)], dk_calls = 0\<rparr>"

definition demo_state :: "disk file_state" where
  "demo_state = \<lparr>fs_engine = \<lparr>tf_world = demo_files, tf_blacklist = []\<rparr>, fs_rows = [demo_row], fs_unknowns = [], fs_mirrors = []\<rparr>"

lemma demo_inv: "disk_inv (world demo_state)"
  by code_simp

lemma demo_row_present: "r \<in> set (fs_rows demo_state) \<Longrightarrow> source_present (demo_env (\<lambda>_. False)) r (world demo_state)"
proof -
  have "source_present (demo_env (\<lambda>_. False)) demo_row (world demo_state)" by code_simp
  then show "r \<in> set (fs_rows demo_state) \<Longrightarrow> source_present (demo_env (\<lambda>_. False)) r (world demo_state)" by (simp add: demo_state_def)
qed

lemma demo_transfer:
  "(case do_transfer_file (demo_env (\<lambda>_. False)) (demo_media TV (Some 3)) ''/d/a.mkv'' ''/m'' False ''link'' ''/d/a.mkv'' '''' False []
       None None demo_state of
     Some (Some oc, st) \<Rightarrow> oc_file oc = Some ''/m/A/S1/A3.mkv'' \<and>
       node_at (world st) (''local'', [''m'', ''A'', ''S1'', ''A3.mkv'']) = Some (Regular ''new'' 9 0)
   | _ \<Rightarrow> False)"
  by code_simp

theorem automatic_transfer_keeps_witness:
  "\<exists>oc st'. do_transfer_file (demo_env (\<lambda>_. False)) (demo_media TV (Some 3)) ''/d/a.mkv'' ''/m'' False ''link'' ''/d/a.mkv'' '''' False []
       None None demo_state = Some (Some oc, st') \<and>
     disk_files (world demo_state) \<subseteq>\<^sub>m disk_files (world st') \<and>
     node_at (world st') (''local'', [''m'', ''A'', ''S1'', ''A3.mkv'']) = Some (Regular ''new'' 9 0)"
proof -
  obtain oc st' where t: "do_transfer_file (demo_env (\<lambda>_. False)) (demo_media TV (Some 3)) ''/d/a.mkv'' ''/m'' False ''link''
      ''/d/a.mkv'' '''' False [] None None demo_state = Some (Some oc, st')"
    "node_at (world st') (''local'', [''m'', ''A'', ''S1'', ''A3.mkv'']) = Some (Regular ''new'' 9 0)"
    using demo_transfer by (auto split: option.splits prod.splits)
  have ops: "fe_ops (demo_env (\<lambda>_. False)) = local_transfer_ops (\<lambda>_. False) no_remote" by (simp add: demo_env_def)
  show ?thesis using t automatic_transfer_keeps [OF demo_inv _ ops demo_row_present t(1)] by auto
qed

lemma demo_existence:
  "is_media_exists (demo_env (\<lambda>_. False)) ''/m'' (demo_media TV (Some 2)) None (world demo_state) =
    (Some \<lparr>ex_dir_exists = True, ex_dir = Some ''/m/A/S1'', ex_file_exists = True, ex_file = Some ''/m/A/S1/A2.mkv''\<rparr>, world demo_state)"
  by code_simp

theorem existing_file_found_witness:
  "\<exists>d \<in> {''/m/A/S1''}. \<exists>e \<in> set media_exts. to_getsize (local_transfer_ops (\<lambda>_. False) no_remote) (os_join d ''A2'' @ e) demo_files \<noteq> None"
proof -
  have dirs: "media_dirs (demo_env (\<lambda>_. False)) ''/m'' (demo_media TV (Some 2)) = Some ([''/m/A/S1''], ''A2'')" by code_simp
  have eps: "get_season_list (demo_media TV (Some 2)) \<noteq> [] \<and> get_episode_list (demo_media TV (Some 2)) \<noteq> []" by code_simp
  from existing_file_found [OF demo_existence dirs] eps show ?thesis by (simp add: demo_env_def demo_state_def)
qed

theorem transferred_once_witness:
  "let st1 = demo_state\<lparr>fs_rows := insert_transfer_history (demo_env (\<lambda>_. False)) 5 ''/d/a.mkv'' ''/m/A/S1/A2.mkv'' ''local''
         \<lparr>td_type = ''tv'', td_tmdb = 7, td_season_episode = ''S01E02'', td_identity = None, td_provider = None, td_external = None\<rparr>
         (fs_rows demo_state)\<rparr>
   in do_transfer_file (demo_env (\<lambda>_. False)) (demo_media TV (Some 4)) ''/d/a.mkv'' ''/m'' False ''copy'' ''/d/a.mkv'' '''' False [] None None st1 =
      Some (Some (already_there [] ''/m/A/S1/A2.mkv''), st1)"
  unfolding Let_def
proof (rule transferred_once [OF _ _ _ _ _ _ _ _ _ refl])
  show "''/m/A/S1/A2.mkv'' = os_join (dirname (normpath ''/m/A/S1/A2.mkv'')) (basename (normpath ''/m/A/S1/A2.mkv''))" by code_simp
  show "to_getsize (fe_ops (demo_env (\<lambda>_. False))) ''/m/A/S1/A2.mkv'' (world demo_state) \<noteq> None" by code_simp
  show "normpath ''/d/a.mkv'' = ''/d/a.mkv''" by code_simp
  show "dirname (normpath ''/m/A/S1/A2.mkv'') \<noteq> []" "basename (normpath ''/m/A/S1/A2.mkv'') \<noteq> []" by code_simp+
qed (auto simp: demo_state_def demo_row_def)

theorem known_episode_skipped_witness:
  "do_transfer_file (demo_env (\<lambda>_. False)) (demo_media TV (Some 2)) ''/d/a.mkv'' ''/m'' False ''copy'' ''/d/a.mkv'' '''' True [] None None
     demo_state =
   Some (Some \<lparr>oc_failed = 0, oc_alerts = 0, oc_messages = [], oc_exist = 1, oc_new = Some ''/m/A/S1/A2.mkv'',
       oc_file = Some ''/m/A/S1/A2.mkv'', oc_dir = Some ''/m/A/S1''\<rparr>,
     demo_state\<lparr>fs_engine := blacklist ''/d/a.mkv'' (fs_engine demo_state)\<rparr>)"
proof -
  let ?fe = "demo_env (\<lambda>_. False)" and ?m = "demo_media TV (Some 2)"
  have m: "mi_type ?m \<noteq> MOVIE" "mi_begin_season ?m = Some 1" "(1::int) \<noteq> 0" "mi_begin_episode ?m = Some 2"
    by (simp_all add: demo_media_def)
  have row: "demo_row \<in> set (get_transfer_info_by_ref (canonical_metadata_ref ?m) (''S'' @ two_digits 1) (type_value (mi_type ?m))
      (fs_rows demo_state))" by code_simp
  have r: "episode_in_history [demo_row] 2" "dest_there ?fe demo_row (world demo_state)" "th_src_path demo_row \<noteq> []"
    "to_getsize (fe_ops ?fe) (th_src_path demo_row) (world demo_state) \<noteq> None"
    "to_getsize (fe_ops ?fe) (os_join (th_src_path demo_row) (th_src_name demo_row)) (world demo_state) = None"
    "get_by_source (normpath ''/d/a.mkv'') (fs_rows demo_state) = None" "\<not> fe_extras ?fe ''/d/a.mkv''"
    by code_simp+
  have there: "to_getsize (fe_ops ?fe) ''/m/A/S1/A2.mkv'' (world demo_state) \<noteq> None" by code_simp
  show ?thesis
    using known_episode_skipped [OF m row r demo_existence, of False "''copy''" "''''" True "[]" None] there by (simp add: opt_text_def)
qed

theorem failure_alerts_once_witness:
  "\<exists>oc st1 oc' st2. record_fail (demo_env (\<lambda>_. False)) ''/d/a.mkv'' '''' ''copy'' [] no_episode demo_state = (oc, st1) \<and> oc_alerts oc = 1 \<and>
     record_fail (demo_env (\<lambda>_. False)) ''/d/a.mkv'' '''' ''copy'' [] no_episode st1 = (oc', st2) \<and> oc_alerts oc' = 0 \<and> st2 = st1"
proof -
  obtain oc st1 where f: "record_fail (demo_env (\<lambda>_. False)) ''/d/a.mkv'' '''' ''copy'' [] no_episode demo_state = (oc, st1)" by force
  obtain oc' st2 where g: "record_fail (demo_env (\<lambda>_. False)) ''/d/a.mkv'' '''' ''copy'' [] no_episode st1 = (oc', st2)" by force
  have "oc_alerts (fst (record_fail (demo_env (\<lambda>_. False)) ''/d/a.mkv'' '''' ''copy'' [] no_episode demo_state)) = 1" by code_simp
  moreover have "normpath ''/d/a.mkv'' = ''/d/a.mkv''" by code_simp
  ultimately show ?thesis using f g failure_alerts_once [OF _ _ f g] by auto
qed

end
