(* ===== verification/Lifecycle.thy ===== *)
theory Lifecycle
  imports PyVal
begin

text \<open>
  The read model of a media item's life (\<open>domain/lifecycle.py\<close>, \<open>db/repositories/lifecycle_repository.py\<close> and the projector
  of \<open>services/lifecycle_service.py\<close>): events of downloading, transfer and scraping are kept once each under their key, and
  the current row of an item follows them, forward through the stages and back only when a new round starts.

  The columns hold the texts of the enumerations, as the tables do; times are numbers. The rows are kept under their unique
  key (identity, season, episode). Columns that no rule looks at (payload and message of an event, creation times) are left out.
  The display reference and profile of an identity, the hash of default keys and the resolution of a media item are
  parameters; an exception of the projector is \<open>None\<close>, and the database answers.
\<close>

section \<open>Stages and statuses\<close>

datatype lifecycle_stage =
  Identified | Subscribed | Searching | DownloadQueued | Downloading | Downloaded | TransferQueued | Transferring
| Transferred | ScrapeQueued | Scraping | Scraped | InLibrary

datatype lifecycle_status =
  StQueued | StRunning | StSucceeded | StFailed | StRetrying | StBlocked | StCancelled | StPaused | StDead

definition all_stages :: "lifecycle_stage list" where
  "all_stages = [Identified, Subscribed, Searching, DownloadQueued, Downloading, Downloaded, TransferQueued, Transferring,
     Transferred, ScrapeQueued, Scraping, Scraped, InLibrary]"

definition all_statuses :: "lifecycle_status list" where
  "all_statuses = [StQueued, StRunning, StSucceeded, StFailed, StRetrying, StBlocked, StCancelled, StPaused, StDead]"

fun stage_value :: "lifecycle_stage \<Rightarrow> string" where
  "stage_value Identified = ''identified''"
| "stage_value Subscribed = ''subscribed''"
| "stage_value Searching = ''searching''"
| "stage_value DownloadQueued = ''download_queued''"
| "stage_value Downloading = ''downloading''"
| "stage_value Downloaded = ''downloaded''"
| "stage_value TransferQueued = ''transfer_queued''"
| "stage_value Transferring = ''transferring''"
| "stage_value Transferred = ''transferred''"
| "stage_value ScrapeQueued = ''scrape_queued''"
| "stage_value Scraping = ''scraping''"
| "stage_value Scraped = ''scraped''"
| "stage_value InLibrary = ''in_library''"

fun status_value :: "lifecycle_status \<Rightarrow> string" where
  "status_value StQueued = ''queued''"
| "status_value StRunning = ''running''"
| "status_value StSucceeded = ''succeeded''"
| "status_value StFailed = ''failed''"
| "status_value StRetrying = ''retrying''"
| "status_value StBlocked = ''blocked''"
| "status_value StCancelled = ''cancelled''"
| "status_value StPaused = ''paused''"
| "status_value StDead = ''dead''"

text \<open>\<open>LifecycleStage(text)\<close> and \<open>LifecycleStatus(text)\<close>; \<open>None\<close> is \<open>ValueError\<close>.\<close>

definition stage_of :: "string \<Rightarrow> lifecycle_stage option" where
  "stage_of t = List.find (\<lambda>s. stage_value s = t) all_stages"

definition status_of :: "string \<Rightarrow> lifecycle_status option" where
  "status_of t = List.find (\<lambda>s. status_value s = t) all_statuses"

text \<open>\<open>STAGE_ORDER\<close> orders the stages.\<close>

definition stage_index :: "lifecycle_stage \<Rightarrow> nat" where
  "stage_index s = length (takeWhile (\<lambda>x. x \<noteq> s) all_stages)"

lemma stage_index_inject [simp]: "stage_index a = stage_index b \<longleftrightarrow> a = b"
  by (cases a; cases b) (simp_all add: stage_index_def all_stages_def)

instantiation lifecycle_stage :: linorder
begin

definition less_eq_lifecycle_stage :: "lifecycle_stage \<Rightarrow> lifecycle_stage \<Rightarrow> bool" where
  "less_eq_lifecycle_stage a b \<longleftrightarrow> stage_index a \<le> stage_index b"

definition less_lifecycle_stage :: "lifecycle_stage \<Rightarrow> lifecycle_stage \<Rightarrow> bool" where
  "less_lifecycle_stage a b \<longleftrightarrow> stage_index a < stage_index b"

instance
  by standard (auto simp: less_eq_lifecycle_stage_def less_lifecycle_stage_def)

end

definition stage_rank :: "string \<Rightarrow> int" where
  "stage_rank t = (case stage_of t of None \<Rightarrow> -1 | Some s \<Rightarrow> int (stage_index s))"

text \<open>\<open>_status_key\<close>: what the states of queues, downloaders and subscriptions are compared by.\<close>

datatype state_arg = NoState | EnumState string | NamedState string | TextState string

fun status_key :: "state_arg \<Rightarrow> string" where
  "status_key NoState = []"
| "status_key (EnumState v) = lower v"
| "status_key (NamedState n) = lower n"
| "status_key (TextState t) = lower t"

definition map_task_status :: "state_arg \<Rightarrow> lifecycle_status" where
  "map_task_status v =
     (let k = status_key v
      in if k = ''queued'' then StQueued else if k = ''running'' then StRunning
         else if k = ''succeeded'' then StSucceeded else if k = ''failed'' then StFailed
         else if k = ''cancelled'' then StCancelled else if k = ''dead'' then StDead else StBlocked)"

definition map_torrent_status :: "state_arg \<Rightarrow> lifecycle_stage \<times> lifecycle_status" where
  "map_torrent_status v =
     (let k = status_key v
      in if k \<in> {''pending'', ''queued''} then (DownloadQueued, StQueued)
         else if k \<in> {''downloading'', ''checking''} then (Downloading, StRunning)
         else if k \<in> {''paused'', ''stopped''} then (Downloading, StBlocked)
         else if k \<in> {''error'', ''unknown''} then (Downloading, StFailed)
         else if k \<in> {''uploading''} then (Downloaded, StSucceeded) else (Downloading, StBlocked))"

definition map_download_state :: "state_arg \<Rightarrow> lifecycle_stage \<times> lifecycle_status" where
  "map_download_state v =
     (let k = status_key v
      in if k = ''queued'' then (DownloadQueued, StQueued)
         else if k = ''downloading'' then (Downloading, StRunning)
         else if k = ''completed'' then (Downloaded, StSucceeded)
         else if k \<in> {''error'', ''failed''} then (Downloading, StFailed) else (Downloading, StBlocked))"

definition map_subscribe_state :: "state_arg \<Rightarrow> lifecycle_stage \<times> lifecycle_status" where
  "map_subscribe_state v =
     (let k = upper (status_key v)
      in if k = ''D'' then (Subscribed, StQueued) else if k = ''S'' then (Searching, StRunning)
         else if k = ''R'' then (Subscribed, StRunning) else if k = ''C'' then (Downloaded, StSucceeded)
         else if k = ''E'' then (Subscribed, StFailed) else if k = ''N'' then (Subscribed, StCancelled)
         else (Subscribed, StBlocked))"

section \<open>The tables\<close>

record lc_event =
  ev_key :: string
  ev_identity :: string
  ev_season :: int
  ev_episode :: int
  ev_stage :: string
  ev_type :: string
  ev_status :: string
  ev_time :: int

text \<open>A row, or the values of a snapshot; a snapshot may leave the progress out.\<close>

record lc_row =
  lc_series :: "string option"
  lc_media_type :: string
  lc_title :: "string option"
  lc_year :: "string option"
  lc_poster :: "string option"
  lc_stage :: string
  lc_status :: string
  lc_run :: "string option"
  lc_trace :: "string option"
  lc_progress :: "int option"
  lc_provider :: "string option"
  lc_profile :: "string option"
  lc_user :: "int option"
  lc_started :: int
  lc_last :: int
  lc_retry_at :: "int option"
  lc_retries :: int
  lc_error :: "string option"

type_synonym lc_key = "string \<times> int \<times> int"

record lc_state =
  lf_rows :: "(lc_key, lc_row) dict"
  lf_events :: "lc_event list"

definition event_item :: "lc_event \<Rightarrow> lc_key" where
  "event_item e = (ev_identity e, ev_season e, ev_episode e)"

section \<open>Following an event\<close>

definition restart_events :: "string list" where
  "restart_events = [''download.queued'', ''download.started'', ''search.started'', ''transfer.queued'', ''transfer.started'',
     ''scrape.queued'', ''scrape.started'', ''reconcile.download.queued'', ''reconcile.download.downloading'']"

definition terminal_stages :: "string list" where
  "terminal_stages = [''in_library'', ''scraped'', ''transferred'', ''downloaded'']"

definition restarts :: "lc_row \<Rightarrow> lc_event \<Rightarrow> bool" where
  "restarts cur e \<longleftrightarrow> lc_stage cur \<in> set terminal_stages \<and> ev_type e \<in> set restart_events \<and> ev_time e > lc_started cur"

definition advances :: "lc_row \<Rightarrow> lc_event \<Rightarrow> bool" where
  "advances cur e \<longleftrightarrow> restarts cur e \<or> stage_rank (ev_stage e) > stage_rank (lc_stage cur)"

definition regresses :: "lc_row \<Rightarrow> lc_event \<Rightarrow> bool" where
  "regresses cur e \<longleftrightarrow> stage_rank (ev_stage e) < stage_rank (lc_stage cur) \<and> \<not> restarts cur e"

definition unspecific :: "string option \<Rightarrow> bool" where
  "unspecific v \<longleftrightarrow> v = None \<or> v = Some [] \<or> v = Some ''content_id''"

definition or_keep :: "string option \<Rightarrow> string option \<Rightarrow> string option" where
  "or_keep new old = (if opt_text new = [] then old else new)"

text \<open>The values a snapshot sets; when the event lies behind the row, those of its stage stay.\<close>

definition merge_snapshot :: "lc_row \<Rightarrow> lc_event \<Rightarrow> lc_row \<Rightarrow> lc_row" where
  "merge_snapshot cur e snap =
     (let behind = regresses cur e;
          shown = cur\<lparr>lc_series := lc_series snap, lc_media_type := lc_media_type snap, lc_title := or_keep (lc_title snap) (lc_title cur),
            lc_year := or_keep (lc_year snap) (lc_year cur), lc_poster := or_keep (lc_poster snap) (lc_poster cur),
            lc_user := (case lc_user snap of None \<Rightarrow> lc_user cur | Some u \<Rightarrow> Some u),
            lc_provider := (if unspecific (lc_provider snap) \<and> \<not> unspecific (lc_provider cur) then lc_provider cur else lc_provider snap),
            lc_profile := lc_profile snap\<rparr>;
          moved = (if behind then shown
            else shown\<lparr>lc_stage := lc_stage snap, lc_status := lc_status snap, lc_run := lc_run snap, lc_trace := lc_trace snap,
              lc_progress := (case lc_progress snap of None \<Rightarrow> lc_progress cur | Some p \<Rightarrow> Some p),
              lc_last := (if advances cur e \<and> \<not> restarts cur e then max (lc_last snap) (lc_last cur) else lc_last snap),
              lc_retry_at := lc_retry_at snap, lc_retries := lc_retries snap, lc_error := lc_error snap\<rparr>)
      in if advances cur e then moved\<lparr>lc_started := ev_time e\<rparr> else moved)"

definition follow :: "lc_row \<Rightarrow> lc_event \<Rightarrow> lc_row \<Rightarrow> lc_row" where
  "follow cur e snap =
     (if \<not> advances cur e \<and> ev_time e < lc_last cur then
        (let provider = opt_text (lc_provider snap)
         in if provider \<noteq> [] \<and> provider \<noteq> ''content_id'' \<and> unspecific (lc_provider cur)
            then cur\<lparr>lc_provider := Some provider\<rparr> else cur)
      else merge_snapshot cur e snap)"

definition apply_snapshot :: "lc_event \<Rightarrow> lc_row \<Rightarrow> lc_state \<Rightarrow> lc_state" where
  "apply_snapshot e snap st =
     st\<lparr>lf_rows :=
       (case dget (lf_rows st) (event_item e) of
          None \<Rightarrow> dput (event_item e) (snap\<lparr>lc_progress := Some (case lc_progress snap of None \<Rightarrow> 0 | Some p \<Rightarrow> p)\<rparr>) (lf_rows st)
        | Some cur \<Rightarrow> dput (event_item e) (follow cur e snap) (lf_rows st))\<rparr>"

text \<open>\<open>record_event\<close>: an event whose key is known is not kept again, but the row is repaired by the kept one, which is of the
  same item, since a key names one item.\<close>

definition record_event :: "lc_event \<Rightarrow> lc_row \<Rightarrow> bool \<Rightarrow> lc_state \<Rightarrow> bool \<times> lc_state" where
  "record_event e snap update st =
     (case List.find (\<lambda>x. ev_key x = ev_key e) (lf_events st) of
        Some known \<Rightarrow> (False, if update then apply_snapshot known (snap\<lparr>lc_last := ev_time known\<rparr>) st else st)
      | None \<Rightarrow>
          let st1 = st\<lparr>lf_events := lf_events st @ [e]\<rparr>
          in (True, if update then apply_snapshot e snap st1 else st1))"

definition get_current :: "lc_key \<Rightarrow> lc_state \<Rightarrow> lc_row option" where
  "get_current k st = dget (lf_rows st) k"

section \<open>The projector\<close>

text \<open>A stage or status is given as a member of its enumeration or as a text; \<open>str\<close> of a member is its qualified name.\<close>

datatype 'e enum_arg = Member 'e | Named string

definition stage_arg :: "lifecycle_stage enum_arg \<Rightarrow> lifecycle_stage option" where
  "stage_arg a = (case a of Member s \<Rightarrow> Some s | Named t \<Rightarrow> stage_of t)"

definition status_arg :: "lifecycle_status enum_arg \<Rightarrow> lifecycle_status option" where
  "status_arg a = (case a of Member s \<Rightarrow> Some s | Named t \<Rightarrow> status_of t)"

definition status_arg_str :: "lifecycle_status enum_arg \<Rightarrow> string" where
  "status_arg_str a = (case a of Member s \<Rightarrow> ''LifecycleStatus.'' @ upper (status_value s) | Named t \<Rightarrow> t)"

record lc_env =
  le_display_ref :: "string \<Rightarrow> string option"
  le_profile :: "string \<Rightarrow> string option"
  le_unwrap_poster :: "string \<Rightarrow> string option"
  le_hash :: "string \<Rightarrow> string"
  le_isoformat :: "int \<Rightarrow> string"

record lc_args =
  la_identity :: string
  la_series :: "string option"
  la_stage :: "lifecycle_stage enum_arg"
  la_status :: "lifecycle_status enum_arg"
  la_type :: string
  la_media_type :: string
  la_season :: int
  la_episode :: int
  la_run :: "string option"
  la_trace :: "string option"
  la_title :: "string option"
  la_year :: "string option"
  la_poster :: "string option"
  la_progress :: "int option"
  la_provider :: "string option"
  la_profile :: "string option"
  la_user :: "int option"
  la_retries :: int
  la_retry_at :: "int option"
  la_error :: "string option"
  la_time :: "int option"
  la_key :: string
  la_update :: bool

definition event_key :: "lc_env \<Rightarrow> lc_args \<Rightarrow> lifecycle_stage \<Rightarrow> int \<Rightarrow> string" where
  "event_key le a stage occurred =
     le_hash le (join ''|'' [la_identity a, int_str (la_season a), int_str (la_episode a), stage_value stage, la_type a,
       opt_text (la_trace a), le_isoformat le occurred])"

text \<open>The progress of a stage that ends a phase is complete.\<close>

definition full_progress :: "lifecycle_stage \<Rightarrow> lifecycle_status \<Rightarrow> int option \<Rightarrow> int option" where
  "full_progress stage status p =
     (if p = None \<and> stage \<in> {Downloaded, Transferred, Scraped, InLibrary} \<and> status = StSucceeded then Some 100 else p)"

text \<open>\<open>record\<close>: what it writes, and whether the event is a new one.\<close>

definition record_lifecycle :: "lc_env \<Rightarrow> int \<Rightarrow> lc_args \<Rightarrow> lc_state \<Rightarrow> (bool \<times> lc_state) option" where
  "record_lifecycle le now a st =
     (if la_identity a = [] then None
      else case (stage_arg (la_stage a), status_arg (la_status a)) of
             (Some stage, Some status) \<Rightarrow>
               let occurred = (case la_time a of Some t \<Rightarrow> t | None \<Rightarrow> now);
                   key = (if la_key a \<noteq> [] then la_key a else event_key le a stage occurred);
                   poster = (if opt_text (la_poster a) \<noteq> [] then le_unwrap_poster le (opt_text (la_poster a)) else la_poster a);
                   known = la_identity a \<noteq> ''preview'';
                   provider = (if known \<and> opt_text (la_provider a) = []
                     then (case le_display_ref le (la_identity a) of Some p \<Rightarrow> Some p | None \<Rightarrow> la_provider a) else la_provider a);
                   profile = (if known \<and> opt_text (la_profile a) = []
                     then (case le_profile le (la_identity a) of
                             Some p \<Rightarrow> if p = [] then la_profile a else Some p | None \<Rightarrow> la_profile a)
                     else la_profile a);
                   progress = full_progress stage status (la_progress a);
                   media = (if la_media_type a = [] then ''movie'' else la_media_type a);
                   e = \<lparr>ev_key = key, ev_identity = la_identity a, ev_season = la_season a, ev_episode = la_episode a,
                     ev_stage = stage_value stage, ev_type = la_type a, ev_status = status_value status, ev_time = occurred\<rparr>;
                   snap = \<lparr>lc_series = la_series a, lc_media_type = media, lc_title = la_title a, lc_year = la_year a,
                     lc_poster = poster, lc_stage = stage_value stage, lc_status = status_value status, lc_run = la_run a,
                     lc_trace = la_trace a, lc_progress = map_option (\<lambda>p. max 0 (min 100 p)) progress, lc_provider = provider,
                     lc_profile = profile, lc_user = la_user a, lc_started = occurred, lc_last = occurred,
                     lc_retry_at = la_retry_at a, lc_retries = max 0 (la_retries a), lc_error = la_error a\<rparr>
               in Some (record_event e snap (la_update a) st)
           | _ \<Rightarrow> None)"

text \<open>\<open>record_subscription_outcome\<close>: the stage stays; an item in the library is meant not to be cancelled.\<close>

definition record_subscription_outcome :: "lc_env \<Rightarrow> int \<Rightarrow> lc_args \<Rightarrow> lc_state \<Rightarrow> (bool \<times> lc_state) option" where
  "record_subscription_outcome le now a st =
     (let current = (case get_current (la_identity a, la_season a, 0) st of None \<Rightarrow> [] | Some r \<Rightarrow> lc_stage r);
          cancelled = status_arg_str (la_status a) = status_value StCancelled;
          stage = (if current \<noteq> [] then Named current else Named (stage_value (if cancelled then Subscribed else Downloaded)))
      in if cancelled \<and> current = stage_value InLibrary then Some (False, st)
         else record_lifecycle le now (a\<lparr>la_stage := stage, la_episode := 0,
                la_progress := (if status_arg_str (la_status a) = status_value StSucceeded then Some 100 else None),
                la_run := None, la_trace := None, la_retries := 0, la_retry_at := None, la_error := None, la_time := None,
                la_update := True\<rparr>) st)"

text \<open>\<open>record_media\<close>: one event for each episode of a resolved media item, or one for the whole.\<close>

fun record_episodes :: "lc_env \<Rightarrow> int \<Rightarrow> lc_args \<Rightarrow> bool \<Rightarrow> int list \<Rightarrow> bool \<Rightarrow> lc_state \<Rightarrow> (bool \<times> lc_state) option" where
  "record_episodes le now a several [] made st = Some (made, st)"
| "record_episodes le now a several (ep # eps) made st =
     (let key = (if la_key a \<noteq> [] \<and> several then la_key a @ '':'' @ int_str ep else la_key a)
      in case record_lifecycle le now (a\<lparr>la_episode := ep, la_key := key\<rparr>) st of
           None \<Rightarrow> None
         | Some (x, st1) \<Rightarrow> record_episodes le now a several eps (x \<or> made) st1)"

definition record_media :: "lc_env \<Rightarrow> int \<Rightarrow> lc_args \<Rightarrow> int list \<Rightarrow> lc_state \<Rightarrow> (bool \<times> lc_state) option" where
  "record_media le now a episodes st =
     (if la_identity a = [] \<or> la_identity a = ''preview'' then Some (False, st)
      else let eps = (if episodes = [] then [0] else episodes) in record_episodes le now a (length eps > 1) eps False st)"

definition in_library :: "lc_row \<Rightarrow> bool" where
  "in_library r \<longleftrightarrow> lc_stage r = stage_value InLibrary \<and> lc_status r = status_value StSucceeded"

definition is_in_library :: "string \<Rightarrow> int \<Rightarrow> int list \<Rightarrow> lc_state \<Rightarrow> bool" where
  "is_in_library identity season episodes st \<longleftrightarrow>
     list_all (\<lambda>ep. case get_current (identity, season, ep) st of None \<Rightarrow> False | Some r \<Rightarrow> in_library r)
       (if episodes = [] then [0] else episodes)"

end
