(* ===== verification/LifecycleProofs.thy ===== *)
theory LifecycleProofs
  imports Lifecycle
begin

text \<open>
  What holds of the read model: its columns are well typed, a row leaves its stage backwards only for a new round,
  and repeating a kept event of a history that arrived in the order of its times moves no row back. Two findings: a repeated
  event of an earlier round ends a new one, and an item of the library can be marked as cancelled.
\<close>

section \<open>Stages\<close>

lemma stage_of_value [simp]: "stage_of (stage_value s) = Some s"
  by (cases s) (simp_all add: stage_of_def all_stages_def)

lemma status_of_value [simp]: "status_of (status_value s) = Some s"
  by (cases s) (simp_all add: status_of_def all_statuses_def)

lemma stage_of_Some: "stage_of t = Some s \<Longrightarrow> t = stage_value s"
  by (auto simp: stage_of_def find_Some_iff)

lemma status_of_Some: "status_of t = Some s \<Longrightarrow> t = status_value s"
  by (auto simp: status_of_def find_Some_iff)

lemma stage_rank_value [simp]: "stage_rank (stage_value s) = int (stage_index s)"
  by (simp add: stage_rank_def)

lemma stage_rank_le: "stage_rank (stage_value a) \<le> stage_rank (stage_value b) \<longleftrightarrow> a \<le> b"
  by (simp add: less_eq_lifecycle_stage_def)

lemma stage_rank_inject:
  assumes "stage_of s = Some a" and "stage_of t = Some b" and "stage_rank s = stage_rank t"
  shows "s = t"
  using assms by (auto simp: stage_rank_def dest!: stage_of_Some)

section \<open>Well-typed tables\<close>

text \<open>The texts of the columns name members of the enumerations, the progress is a percentage, retries are counted.\<close>

definition typed_row :: "lc_row \<Rightarrow> bool" where
  "typed_row r \<longleftrightarrow> stage_of (lc_stage r) \<noteq> None \<and> status_of (lc_status r) \<noteq> None \<and>
     (case lc_progress r of None \<Rightarrow> True | Some p \<Rightarrow> 0 \<le> p \<and> p \<le> 100) \<and> 0 \<le> lc_retries r"

definition typed_event :: "lc_event \<Rightarrow> bool" where
  "typed_event e \<longleftrightarrow> stage_of (ev_stage e) \<noteq> None \<and> status_of (ev_status e) \<noteq> None"

definition typed :: "lc_state \<Rightarrow> bool" where
  "typed st \<longleftrightarrow> (\<forall>r \<in> snd ` set (lf_rows st). typed_row r) \<and> (\<forall>e \<in> set (lf_events st). typed_event e) \<and>
     distinct (keys (lf_rows st)) \<and> distinct (map ev_key (lf_events st))"

lemma typed_merge: "typed_row cur \<Longrightarrow> typed_row snap \<Longrightarrow> typed_row (merge_snapshot cur e snap)"
  by (auto simp: typed_row_def merge_snapshot_def Let_def split: option.splits)

lemma typed_follow: "typed_row cur \<Longrightarrow> typed_row snap \<Longrightarrow> typed_row (follow cur e snap)"
  using typed_merge by (auto simp: follow_def Let_def typed_row_def)

lemma typed_apply:
  assumes "typed st" and "typed_row snap"
  shows "typed (apply_snapshot e snap st)"
proof (cases "dget (lf_rows st) (event_item e)")
  case None
  have "typed_row (snap\<lparr>lc_progress := Some (case lc_progress snap of None \<Rightarrow> 0 | Some p \<Rightarrow> p)\<rparr>)"
    using assms(2) by (auto simp: typed_row_def split: option.splits)
  with assms(1) None set_dput_subset show ?thesis by (fastforce simp: apply_snapshot_def typed_def)
next
  case (Some cur)
  then have "(event_item e, cur) \<in> set (lf_rows st)" by (rule map_of_SomeD)
  then have "typed_row cur" using assms(1) by (force simp: typed_def)
  from typed_follow [OF this assms(2)] assms(1) Some set_dput_subset show ?thesis by (fastforce simp: apply_snapshot_def typed_def)
qed

lemma typed_record_event:
  assumes "typed st" and "typed_row snap" and "typed_event e" and r: "record_event e snap u st = (x, st')"
  shows "typed st'"
proof (cases "List.find (\<lambda>k. ev_key k = ev_key e) (lf_events st)")
  case None
  then have "ev_key e \<notin> ev_key ` set (lf_events st)" by (auto simp: find_None_iff)
  then have "typed (st\<lparr>lf_events := lf_events st @ [e]\<rparr>)" using assms(1,3) by (auto simp: typed_def)
  from typed_apply [OF this assms(2), of e] this show ?thesis
    using r None by (auto simp: record_event_def Let_def split: if_splits)
next
  case (Some known)
  have "typed_row (snap\<lparr>lc_last := ev_time known\<rparr>)" using assms(2) by (simp add: typed_row_def)
  from typed_apply [OF assms(1) this, of known] assms(1) show ?thesis
    using r Some by (auto simp: record_event_def split: if_splits)
qed

lemma typed_record:
  assumes "typed st" and "record_lifecycle le now a st = Some (x, st')"
  shows "typed st'"
proof -
  obtain stage status where s: "stage_arg (la_stage a) = Some stage" "status_arg (la_status a) = Some status"
    using assms(2) by (auto simp: record_lifecycle_def split: if_splits option.splits)
  obtain e snap where r: "record_event e snap (la_update a) st = (x, st')"
      "ev_stage e = stage_value stage" "ev_status e = status_value status"
      "lc_stage snap = stage_value stage" "lc_status snap = status_value status"
      "lc_progress snap = map_option (\<lambda>p. max 0 (min 100 p)) (full_progress stage status (la_progress a))"
      "lc_retries snap = max 0 (la_retries a)"
    using assms(2) s by (simp add: record_lifecycle_def Let_def split: if_splits)
  have "typed_row snap" "typed_event e" using r(2-) by (auto simp: typed_row_def typed_event_def split: option.split)
  from typed_record_event [OF assms(1) this r(1)] show ?thesis .
qed

text \<open>What is asked of the projector.\<close>

datatype lc_call =
  Record int lc_args
| Outcome int lc_args
| ForMedia int lc_args "int list"

fun lc_step :: "lc_env \<Rightarrow> lc_call \<Rightarrow> lc_state \<Rightarrow> lc_state" where
  "lc_step le (Record now a) st = (case record_lifecycle le now a st of None \<Rightarrow> st | Some (_, st1) \<Rightarrow> st1)"
| "lc_step le (Outcome now a) st = (case record_subscription_outcome le now a st of None \<Rightarrow> st | Some (_, st1) \<Rightarrow> st1)"
| "lc_step le (ForMedia now a eps) st = (case record_media le now a eps st of None \<Rightarrow> st | Some (_, st1) \<Rightarrow> st1)"

lemma typed_episodes: "typed st \<Longrightarrow> record_episodes le now a several eps made st = Some (x, st') \<Longrightarrow> typed st'"
proof (induction eps arbitrary: made st)
  case (Cons ep eps)
  then show ?case by (auto split: option.splits dest: typed_record)
qed simp

lemma typed_step: "typed st \<Longrightarrow> typed (lc_step le c st)"
  by (cases c)
    (auto simp: record_subscription_outcome_def record_media_def Let_def split: option.split if_splits
      dest: typed_record typed_episodes)

text \<open>C24: Whatever is recorded, from the empty tables on: every stage and status is one of the enumeration, progress is
  between 0 and 100, retries are not negative, and no item and no event key occurs twice.\<close>

theorem lifecycle_well_typed:
  "typed (fold (lc_step le) calls \<lparr>lf_rows = [], lf_events = []\<rparr>)"
proof -
  have "typed st \<Longrightarrow> typed (fold (lc_step le) calls st)" for st
    by (induction calls arbitrary: st) (simp_all add: typed_step)
  moreover have "typed \<lparr>lf_rows = [], lf_events = []\<rparr>" by (simp add: typed_def)
  ultimately show ?thesis by blast
qed

section \<open>Forward, or a new round\<close>

lemma get_apply:
  "get_current i (apply_snapshot e snap st) =
    (if i = event_item e then Some (case get_current i st of
         None \<Rightarrow> snap\<lparr>lc_progress := Some (case lc_progress snap of None \<Rightarrow> 0 | Some p \<Rightarrow> p)\<rparr>
       | Some cur \<Rightarrow> follow cur e snap)
     else get_current i st)"
  by (simp add: get_current_def apply_snapshot_def split: option.split)

lemma stage_follow:
  "lc_stage (follow cur e snap) =
    (if advances cur e \<or> \<not> ev_time e < lc_last cur \<and> \<not> regresses cur e then lc_stage snap else lc_stage cur)"
  by (auto simp: follow_def merge_snapshot_def advances_def regresses_def Let_def)

lemma started_follow: "lc_started (follow cur e snap) = (if advances cur e then ev_time e else lc_started cur)"
  by (simp add: follow_def merge_snapshot_def Let_def)

lemma follow_forward:
  assumes "lc_stage snap = ev_stage e" and "\<not> restarts cur e"
  shows "stage_rank (lc_stage cur) \<le> stage_rank (lc_stage (follow cur e snap))"
  using assms by (auto simp: stage_follow advances_def regresses_def)

lemma get_current_events [simp]: "get_current i (st\<lparr>lf_events := es\<rparr>) = get_current i st"
  by (simp add: get_current_def)

lemma record_event_applies:
  assumes "record_event e snap u st = (x, st')"
  shows "\<exists>k s. (k = e \<or> k \<in> set (lf_events st) \<and> ev_key k = ev_key e) \<and> lc_stage s = lc_stage snap \<and>
    (get_current i st' = get_current i (apply_snapshot k s st) \<or> get_current i st' = get_current i st)"
proof (cases "List.find (\<lambda>x. ev_key x = ev_key e) (lf_events st)")
  case None
  then have "st' = (let st1 = st\<lparr>lf_events := lf_events st @ [e]\<rparr> in if u then apply_snapshot e snap st1 else st1)"
    using assms by (simp add: record_event_def Let_def)
  then have "get_current i st' = get_current i (apply_snapshot e snap st) \<or> get_current i st' = get_current i st"
    by (cases u) (simp_all add: get_apply Let_def)
  then show ?thesis by blast
next
  case (Some k)
  then have k: "k \<in> set (lf_events st) \<and> ev_key k = ev_key e" by (auto simp: find_Some_iff)
  have "st' = (if u then apply_snapshot k (snap\<lparr>lc_last := ev_time k\<rparr>) st else st)"
    using assms Some by (simp add: record_event_def)
  then have "get_current i st' = get_current i (apply_snapshot k (snap\<lparr>lc_last := ev_time k\<rparr>) st) \<or> get_current i st' = get_current i st"
    by (cases u) simp_all
  moreover have "lc_stage (snap\<lparr>lc_last := ev_time k\<rparr>) = lc_stage snap" by simp
  ultimately show ?thesis using k by blast
qed

text \<open>C22: Whatever event is recorded, known or new, an item goes back to an earlier stage only when the event starts a new
  round: the item was at the end of a phase and the event is one of those that begin one, later than that phase.\<close>

theorem stage_only_forward:
  assumes "record_event e snap u st = (x, st')" and "lc_stage snap = ev_stage e"
    and "\<And>k. k \<in> set (lf_events st) \<Longrightarrow> ev_key k = ev_key e \<Longrightarrow> ev_stage k = ev_stage e"
    and "get_current i st = Some cur" and "get_current i st' = Some new"
    and "stage_rank (lc_stage new) < stage_rank (lc_stage cur)"
  shows "\<exists>k. (k = e \<or> k \<in> set (lf_events st)) \<and> event_item k = i \<and> restarts cur k \<and> lc_stage new = ev_stage e"
proof -
  obtain k s where k: "k = e \<or> k \<in> set (lf_events st) \<and> ev_key k = ev_key e" "lc_stage s = ev_stage e"
    and a: "get_current i st' = get_current i (apply_snapshot k s st) \<or> get_current i st' = get_current i st"
    using record_event_applies [OF assms(1), of i] assms(2) by auto
  have stage: "ev_stage k = ev_stage e" using k(1) assms(3) by auto
  have i: "event_item k = i" "new = follow cur k s"
    using a assms(4-6) by (auto simp: get_apply split: if_splits)
  have r: "restarts cur k"
  proof (rule ccontr)
    assume "\<not> restarts cur k"
    from follow_forward [OF _ this, of s] k(2) stage i(2) assms(6) show False by simp
  qed
  then have "lc_stage new = ev_stage e" using k(2) i(2) by (simp add: stage_follow advances_def)
  with k(1) i(1) r show ?thesis by auto
qed

section \<open>Repetitions\<close>

text \<open>A history in the order of its times: new events with new keys, each of its snapshot's stage.\<close>

fun in_order :: "int \<Rightarrow> (lc_event \<times> lc_row) list \<Rightarrow> bool" where
  "in_order t [] = True"
| "in_order t ((e, snap) # es) =
     (t \<le> ev_time e \<and> stage_of (ev_stage e) \<noteq> None \<and> lc_stage snap = ev_stage e \<and> lc_started snap = ev_time e \<and>
      ev_key e \<notin> (ev_key \<circ> fst) ` set es \<and> in_order (ev_time e) es)"

definition recorded :: "(lc_event \<times> lc_row) list \<Rightarrow> lc_state \<Rightarrow> lc_state" where
  "recorded es st = fold (\<lambda>(e, snap) st. snd (record_event e snap True st)) es st"

text \<open>No kept event would start a new round again, and none is later than the clock.\<close>

definition settled :: "int \<Rightarrow> lc_state \<Rightarrow> bool" where
  "settled t st \<longleftrightarrow>
     (\<forall>k \<in> set (lf_events st). ev_time k \<le> t \<and>
        (\<forall>cur. get_current (event_item k) st = Some cur \<longrightarrow> \<not> restarts cur k)) \<and>
     (\<forall>i cur. get_current i st = Some cur \<longrightarrow> stage_of (lc_stage cur) \<noteq> None)"

lemma unknown_key: "c \<notin> ev_key ` set ks \<Longrightarrow> List.find (\<lambda>k. ev_key k = c) ks = None"
  by (induction ks) auto

lemma settled_record:
  assumes s: "settled t st" and t: "t \<le> ev_time e" and stage: "stage_of (ev_stage e) \<noteq> None" "lc_stage snap = ev_stage e"
    and started: "lc_started snap = ev_time e" and new: "ev_key e \<notin> ev_key ` set (lf_events st)"
  shows "settled (ev_time e) (snd (record_event e snap True st))"
proof -
  let ?st = "st\<lparr>lf_events := lf_events st @ [e]\<rparr>" and ?i = "event_item e"
  note r0 = unknown_key [OF new]
  have r: "snd (record_event e snap True st) = apply_snapshot e snap ?st" using r0 by (simp add: record_event_def Let_def)
  have g: "get_current i (apply_snapshot e snap ?st) =
      (if i = ?i then Some (case get_current i st of None \<Rightarrow> snap\<lparr>lc_progress := Some (case lc_progress snap of None \<Rightarrow> 0 | Some p \<Rightarrow> p)\<rparr>
        | Some cur \<Rightarrow> follow cur e snap) else get_current i st)" for i
    using get_apply [of i e snap ?st] by (simp add: get_current_def)
  have ev: "lf_events (apply_snapshot e snap ?st) = lf_events st @ [e]" by (simp add: apply_snapshot_def)
  have sane: "stage_of (lc_stage cur) \<noteq> None" if "get_current i st = Some cur" for i cur
    using s that unfolding settled_def by blast
  have quiet: "\<not> restarts cur' k"
    if k: "k \<in> set (lf_events st) \<or> k = e" and i: "event_item k = ?i"
      and c: "get_current ?i (apply_snapshot e snap ?st) = Some cur'" for k cur'
  proof (cases "get_current ?i st")
    case None
    then have "lc_started cur' = ev_time e" using c g started by auto
    moreover have "ev_time k \<le> ev_time e" using k s t by (force simp: settled_def)
    ultimately show ?thesis by (simp add: restarts_def)
  next
    case (Some cur)
    then have cur': "cur' = follow cur e snap" using c g by simp
    have time: "ev_time k \<le> ev_time e" using k s t by (force simp: settled_def)
    show ?thesis
    proof (cases "advances cur e")
      case True
      then show ?thesis using time by (simp add: cur' started_follow restarts_def)
    next
      case False
      then have "lc_started cur' = lc_started cur" by (simp add: cur' started_follow)
      moreover have "lc_stage cur' = lc_stage cur"
      proof (cases "regresses cur e")
        case True
        then show ?thesis using False by (simp add: cur' stage_follow)
      next
        case nr: False
        with False have "stage_rank (ev_stage e) = stage_rank (lc_stage cur)" by (auto simp: advances_def regresses_def)
        moreover have "stage_of (lc_stage cur) \<noteq> None" by (rule sane [OF Some])
        ultimately have "ev_stage e = lc_stage cur" using stage(1) stage_rank_inject by blast
        then show ?thesis using stage(2) by (simp add: cur' stage_follow)
      qed
      moreover have "\<not> restarts cur k"
        using k i s Some False by (auto simp: settled_def advances_def)
      ultimately show ?thesis by (simp add: restarts_def)
    qed
  qed
  have typed: "stage_of (lc_stage cur') \<noteq> None" if c: "get_current i (apply_snapshot e snap ?st) = Some cur'" for i cur'
    using c g [of i] stage by (auto simp: stage_follow dest: sane split: if_splits option.splits)
  have other: "\<not> restarts cur' k" if "k \<in> set (lf_events st)" "event_item k \<noteq> ?i"
      "get_current (event_item k) (apply_snapshot e snap ?st) = Some cur'" for k cur'
    using that g s by (auto simp: settled_def)
  show ?thesis
    unfolding settled_def r ev
  proof (intro conjI ballI allI impI)
    show "ev_time k \<le> ev_time e" if "k \<in> set (lf_events st @ [e])" for k using that s t by (force simp: settled_def)
    show "\<not> restarts cur' k" if k: "k \<in> set (lf_events st @ [e])"
        and c: "get_current (event_item k) (apply_snapshot e snap ?st) = Some cur'" for k cur'
    proof (cases "event_item k = ?i")
      case True
      with quiet [of k cur'] k c show ?thesis by auto
    next
      case False
      with other [of k cur'] k c show ?thesis by auto
    qed
  qed (rule typed)
qed

lemma record_new_events:
  "ev_key e \<notin> ev_key ` set (lf_events st) \<Longrightarrow> lf_events (snd (record_event e snap True st)) = lf_events st @ [e]"
  by (simp add: record_event_def apply_snapshot_def unknown_key Let_def)

lemma settled_history:
  "settled t st \<Longrightarrow> in_order t es \<Longrightarrow> (\<forall>p \<in> set es. ev_key (fst p) \<notin> ev_key ` set (lf_events st)) \<Longrightarrow>
    \<exists>t'. settled t' (recorded es st)"
proof (induction es arbitrary: t st)
  case Nil
  then show ?case by (auto simp: recorded_def)
next
  case (Cons p es)
  obtain e snap where p: "p = (e, snap)" by force
  let ?st = "snd (record_event e snap True st)"
  have new: "ev_key e \<notin> ev_key ` set (lf_events st)" using Cons.prems(3) p by simp
  have "settled (ev_time e) ?st"
    by (rule settled_record [OF Cons.prems(1)]) (use Cons.prems(2) p new in simp_all)
  moreover have "in_order (ev_time e) es" using Cons.prems(2) p by simp
  moreover have "\<forall>q \<in> set es. ev_key (fst q) \<notin> ev_key ` set (lf_events ?st)"
    using Cons.prems(2,3) p record_new_events [OF new, of snap] by (auto simp: rev_image_eqI)
  ultimately have "\<exists>t'. settled t' (recorded es ?st)" by (rule Cons.IH)
  then show ?case by (simp add: recorded_def p)
qed

lemma recorded_events:
  "in_order t es \<Longrightarrow> (\<forall>p \<in> set es. ev_key (fst p) \<notin> ev_key ` set (lf_events st)) \<Longrightarrow>
    lf_events (recorded es st) = lf_events st @ map fst es"
proof (induction es arbitrary: t st)
  case (Cons p es)
  obtain e snap where p: "p = (e, snap)" by force
  let ?st = "snd (record_event e snap True st)"
  have new: "ev_key e \<notin> ev_key ` set (lf_events st)" using Cons.prems(2) p by simp
  have "in_order (ev_time e) es" using Cons.prems(1) p by simp
  moreover have "\<forall>q \<in> set es. ev_key (fst q) \<notin> ev_key ` set (lf_events ?st)"
    using Cons.prems p record_new_events [OF new, of snap] by (auto simp: rev_image_eqI)
  ultimately have "lf_events (recorded es ?st) = lf_events ?st @ map fst es" by (rule Cons.IH)
  then show ?case using p record_new_events [OF new, of snap] by (simp add: recorded_def)
qed (simp add: recorded_def)

lemma in_order_keys: "in_order t es \<Longrightarrow> distinct (map ev_key (map fst es))"
proof (induction es arbitrary: t)
  case (Cons p es)
  with Cons.IH [of "ev_time (fst p)"] show ?case by (cases p) (simp add: image_image comp_def)
qed simp

lemma find_key: "distinct (map f xs) \<Longrightarrow> x \<in> set xs \<Longrightarrow> f x = c \<Longrightarrow> List.find (\<lambda>z. f z = c) xs = Some x"
  by (induction xs) auto

text \<open>C23: After a history that arrived in the order of its times, repeating any of its events moves no item back.\<close>

theorem repetition_moves_nothing_back:
  assumes "in_order t es" and "st = recorded es \<lparr>lf_rows = [], lf_events = []\<rparr>"
    and "k \<in> fst ` set es" and "ev_key e = ev_key k" and "lc_stage snap = ev_stage k"
    and "get_current i st = Some cur" and "get_current i (snd (record_event e snap True st)) = Some new"
  shows "stage_rank (lc_stage cur) \<le> stage_rank (lc_stage new)"
proof -
  have "settled t \<lparr>lf_rows = [], lf_events = []\<rparr>" by (simp add: settled_def get_current_def)
  from settled_history [OF this assms(1)] obtain t' where s: "settled t' st" unfolding assms(2) by auto
  have ev: "lf_events st = map fst es" using recorded_events [OF assms(1)] by (simp add: assms(2))
  have "List.find (\<lambda>x. ev_key x = ev_key e) (lf_events st) = Some k"
    unfolding ev by (rule find_key [OF in_order_keys [OF assms(1)]]) (use assms(3,4) in auto)
  then have r: "snd (record_event e snap True st) = apply_snapshot k (snap\<lparr>lc_last := ev_time k\<rparr>) st"
    by (simp add: record_event_def)
  show ?thesis
  proof (cases "i = event_item k")
    case True
    then have "\<not> restarts cur k" using s assms(3,6) ev by (auto simp: settled_def)
    from follow_forward [OF _ this, of "snap\<lparr>lc_last := ev_time k\<rparr>"] assms(5-7) r True show ?thesis by (auto simp: get_apply)
  next
    case False
    then show ?thesis using assms(6,7) r by (simp add: get_apply)
  qed
qed

section \<open>What goes wrong\<close>

text \<open>C39: A new round of an item of the library ends when the reconciler repeats the event of the old round: the item counts as
  in the library again although the newest event is its download, and repeating that one starts the round again, and so
  on with each repetition.\<close>

theorem old_event_ends_new_round:
  assumes "t1 < t2" and "ev_key e1 \<noteq> ev_key e2" and "event_item e1 = i" and "event_item e2 = i"
    and "ev_time e1 = t1" and "ev_time e2 = t2" and "ev_stage e1 = stage_value InLibrary"
    and "ev_stage e2 = stage_value DownloadQueued" and "ev_type e2 \<in> set restart_events" and "ev_type e1 \<notin> set restart_events"
    and "lc_stage s1 = ev_stage e1" and "lc_stage s2 = ev_stage e2" and "lc_started s1 = t1" and "lc_last s1 = t1" and "lc_last s2 = t2"
    and "st0 = recorded [(e1, s1), (e2, s2)] \<lparr>lf_rows = [], lf_events = []\<rparr>"
    and "st1 = snd (record_event e1 s1 True st0)" and "st2 = snd (record_event e2 s2 True st1)"
  shows "map (\<lambda>st. map_option lc_stage (get_current i st)) [st0, st1, st2] =
    map (\<lambda>s. Some (stage_value s)) [DownloadQueued, InLibrary, DownloadQueued]"
proof -
  let ?s0 = "\<lparr>lf_rows = [], lf_events = []\<rparr> :: lc_state" and ?p = "\<lambda>s. s\<lparr>lc_progress := Some (case lc_progress s of None \<Rightarrow> 0 | Some p \<Rightarrow> p)\<rparr>"
  have rank: "stage_rank ''in_library'' = 12" "stage_rank ''download_queued'' = 3" by code_simp+
  have ev: "lf_events st0 = [e1, e2]" using assms(2,16) by (simp add: recorded_def record_event_def apply_snapshot_def)
  have c0: "get_current i st0 = Some (follow (?p s1) e2 s2)"
    using assms(2-4,16) by (simp add: recorded_def record_event_def get_apply get_current_def)
      (simp add: apply_snapshot_def)
  have f0: "lc_stage (follow (?p s1) e2 s2) = ''download_queued''" "lc_started (follow (?p s1) e2 s2) = t2"
    using assms(1,6,7,8,9,11-13) by (simp_all add: stage_follow started_follow advances_def restarts_def terminal_stages_def)
  let ?c0 = "follow (?p s1) e2 s2" and ?s1 = "s1\<lparr>lc_last := ev_time e1\<rparr>" and ?s2 = "s2\<lparr>lc_last := ev_time e2\<rparr>"
  have "snd (record_event e1 s1 True st0) = apply_snapshot e1 ?s1 st0" by (simp add: record_event_def ev)
  then have c1: "get_current i st1 = Some (follow ?c0 e1 ?s1)" using assms(3,17) c0 by (simp add: get_apply)
  have f1: "lc_stage (follow ?c0 e1 ?s1) = ''in_library''" "lc_started (follow ?c0 e1 ?s1) = t1"
    using f0 rank assms(5,7,11) by (simp_all add: stage_follow started_follow advances_def)
  have "lf_events st1 = [e1, e2]" using ev assms(17) by (simp add: record_event_def apply_snapshot_def)
  then have "snd (record_event e2 s2 True st1) = apply_snapshot e2 ?s2 st1" using assms(2) by (simp add: record_event_def)
  then have c2: "get_current i st2 = Some (follow (follow ?c0 e1 ?s1) e2 ?s2)" using assms(4,18) c1 by (simp add: get_apply)
  have "lc_stage (follow (follow ?c0 e1 ?s1) e2 ?s2) = ''download_queued''"
    using f1 assms(1,6,8,9,12) by (simp add: stage_follow advances_def restarts_def terminal_stages_def)
  with c0 f0(1) c1 f1(1) c2 show ?thesis by simp
qed

text \<open>Cancelling the subscription of an item that is in the library marks it as cancelled: the status is given as a member of
  the enumeration, whose \<open>str\<close> is not its value, so the guard for items of the library does not apply.\<close>

theorem library_item_cancelled:
  assumes "get_current (la_identity a, la_season a, 0) st = Some cur" and "in_library cur"
    and "la_status a = Member StCancelled" and "la_type a \<notin> set restart_events" and "la_identity a \<noteq> []"
    and "la_key a \<noteq> []" and "la_key a \<notin> ev_key ` set (lf_events st)" and "lc_last cur \<le> now"
  shows "\<exists>st'. record_subscription_outcome le now a st = Some (True, st') \<and>
    \<not> is_in_library (la_identity a) (la_season a) [] st' \<and>
    map_option lc_status (get_current (la_identity a, la_season a, 0) st') = Some (status_value StCancelled)"
proof -
  have cur: "lc_stage cur = ''in_library''" using assms(2) by (simp add: in_library_def)
  have stage: "stage_of ''in_library'' = Some InLibrary" using stage_of_value [of InLibrary] by simp
  have find: "List.find (\<lambda>k. ev_key k = la_key a) (lf_events st) = None" by (rule unknown_key [OF assms(7)])
  let ?a = "a\<lparr>la_stage := Named ''in_library'', la_episode := 0, la_progress := None, la_run := None, la_trace := None,
    la_retries := 0, la_retry_at := None, la_error := None, la_time := None, la_update := True\<rparr>"
  have o: "record_subscription_outcome le now a st = record_lifecycle le now ?a st"
    using assms(1,3) cur by (simp add: record_subscription_outcome_def status_arg_str_def)
  obtain e snap where r: "record_lifecycle le now ?a st = Some (record_event e snap True st)"
      "ev_key e = la_key a" "event_item e = (la_identity a, la_season a, 0)" "ev_stage e = ''in_library''" "ev_type e = la_type a"
      "ev_time e = now" "lc_stage snap = ''in_library''" "lc_status snap = ''cancelled''"
    using assms(3,5,6) stage by (simp add: record_lifecycle_def stage_arg_def status_arg_def event_item_def Let_def)
  let ?st = "apply_snapshot e snap (st\<lparr>lf_events := lf_events st @ [e]\<rparr>)"
  have re: "record_event e snap True st = (True, ?st)" using find r(2) by (simp add: record_event_def Let_def)
  have "\<not> restarts cur e" "\<not> advances cur e" "\<not> regresses cur e"
    using r(4,5) assms(4) cur by (simp_all add: restarts_def advances_def regresses_def)
  then have "lc_status (follow cur e snap) = ''cancelled''"
    using r(6,8) assms(8) by (simp add: follow_def merge_snapshot_def Let_def)
  moreover have "get_current (la_identity a, la_season a, 0) ?st = Some (follow cur e snap)"
    using r(3) assms(1) by (simp add: get_apply)
  ultimately show ?thesis using o r(1) re by (simp add: is_in_library_def in_library_def)
qed

section \<open>Examples\<close>

definition demo_event :: "string \<Rightarrow> lifecycle_stage \<Rightarrow> string \<Rightarrow> int \<Rightarrow> lc_event" where
  "demo_event key stage ty t = \<lparr>ev_key = key, ev_identity = ''i'', ev_season = 1, ev_episode = 0, ev_stage = stage_value stage,
     ev_type = ty, ev_status = ''succeeded'', ev_time = t\<rparr>"

definition demo_snapshot :: "lifecycle_stage \<Rightarrow> int \<Rightarrow> lc_row" where
  "demo_snapshot stage t = \<lparr>lc_series = None, lc_media_type = ''movie'', lc_title = None, lc_year = None, lc_poster = None,
     lc_stage = stage_value stage, lc_status = ''succeeded'', lc_run = None, lc_trace = None, lc_progress = None, lc_provider = None,
     lc_profile = None, lc_user = None, lc_started = t, lc_last = t, lc_retry_at = None, lc_retries = 0, lc_error = None\<rparr>"

definition demo_history :: "(lc_event \<times> lc_row) list" where
  "demo_history = [(demo_event ''lib'' InLibrary ''reconcile.library.present'' 4, demo_snapshot InLibrary 4),
     (demo_event ''dl'' DownloadQueued ''download.queued'' 9, demo_snapshot DownloadQueued 9)]"

definition no_events :: lc_state where
  "no_events = \<lparr>lf_rows = [], lf_events = []\<rparr>"

lemma demo_stages:
  "map_option lc_stage (get_current (''i'', 1, 0) (recorded (take 1 demo_history) no_events)) = Some ''in_library''"
  "map_option lc_stage (get_current (''i'', 1, 0) (recorded demo_history no_events)) = Some ''download_queued''"
  by code_simp+

theorem stage_only_forward_witness:
  "\<exists>k. event_item k = (''i'', 1, 0) \<and> restarts (the (get_current (''i'', 1, 0) (recorded (take 1 demo_history) no_events))) k"
proof -
  let ?st = "recorded (take 1 demo_history) no_events" and ?e = "fst (demo_history ! 1)" and ?s = "snd (demo_history ! 1)"
  obtain cur where cur: "get_current (''i'', 1, 0) ?st = Some cur" "lc_stage cur = ''in_library''" using demo_stages(1) by auto
  obtain x st' where r: "record_event ?e ?s True ?st = (x, st')" by force
  have "recorded demo_history no_events = st'" using r by (simp add: recorded_def demo_history_def)
  then obtain new where new: "get_current (''i'', 1, 0) st' = Some new" "lc_stage new = ''download_queued''" using demo_stages(2) by auto
  have rank: "stage_rank ''download_queued'' < stage_rank ''in_library''" by code_simp
  have keys: "\<forall>k \<in> set (lf_events ?st). ev_key k \<noteq> ev_key ?e" by code_simp
  show ?thesis
    using stage_only_forward [OF r _ _ cur(1) new(1)] rank cur new keys by (auto simp: demo_history_def demo_event_def demo_snapshot_def)
qed

theorem repetition_moves_nothing_back_witness:
  "case get_current (''i'', 1, 0) (snd (record_event (fst (demo_history ! 0)) (snd (demo_history ! 0)) True (recorded demo_history no_events))) of
     None \<Rightarrow> False | Some new \<Rightarrow> stage_rank ''download_queued'' \<le> stage_rank (lc_stage new)"
proof -
  let ?e = "fst (demo_history ! 0)" and ?s = "snd (demo_history ! 0)"
  have ord: "in_order 0 demo_history" by code_simp
  obtain cur where cur: "get_current (''i'', 1, 0) (recorded demo_history no_events) = Some cur" "lc_stage cur = ''download_queued''"
    using demo_stages(2) by auto
  have "get_current (''i'', 1, 0) (snd (record_event ?e ?s True (recorded demo_history no_events))) \<noteq> None" by code_simp
  then obtain new where new: "get_current (''i'', 1, 0) (snd (record_event ?e ?s True (recorded demo_history no_events))) = Some new" by blast
  have st: "recorded demo_history no_events = recorded demo_history \<lparr>lf_rows = [], lf_events = []\<rparr>" by (simp add: no_events_def)
  have k: "?e \<in> fst ` set demo_history" by (simp add: demo_history_def)
  have "stage_rank (lc_stage cur) \<le> stage_rank (lc_stage new)"
    by (rule repetition_moves_nothing_back [OF ord st k refl _ cur(1) new])
      (simp add: demo_history_def demo_event_def demo_snapshot_def)
  with cur new show ?thesis by simp
qed

theorem old_event_ends_new_round_witness:
  "map_option lc_stage (get_current (''i'', 1, 0) (snd (record_event (fst (demo_history ! 0)) (snd (demo_history ! 0)) True
     (recorded demo_history no_events)))) = Some ''in_library''"
proof -
  let ?e1 = "fst (demo_history ! 0)" and ?s1 = "snd (demo_history ! 0)" and ?e2 = "fst (demo_history ! 1)" and ?s2 = "snd (demo_history ! 1)"
  have h: "demo_history = [(?e1, ?s1), (?e2, ?s2)]" by (simp add: demo_history_def)
  have st: "recorded demo_history no_events = recorded [(?e1, ?s1), (?e2, ?s2)] \<lparr>lf_rows = [], lf_events = []\<rparr>"
    unfolding no_events_def h [symmetric] ..
  show ?thesis
    using old_event_ends_new_round [of 4 9 ?e1 ?e2 "(''i'', 1, 0)" ?s1 ?s2, OF _ _ _ _ _ _ _ _ _ _ _ _ _ _ _ st refl refl]
    by (simp add: demo_history_def demo_event_def demo_snapshot_def event_item_def restart_events_def)
qed

definition cancel_args :: lc_args where
  "cancel_args = \<lparr>la_identity = ''i'', la_series = None, la_stage = Named [], la_status = Member StCancelled, la_type = ''subscribe.cancelled'',
     la_media_type = ''movie'', la_season = 1, la_episode = 0, la_run = None, la_trace = None, la_title = None, la_year = None,
     la_poster = None, la_progress = None, la_provider = None, la_profile = None, la_user = None, la_retries = 0, la_retry_at = None,
     la_error = None, la_time = None, la_key = ''c'', la_update = True\<rparr>"

definition plain_env :: lc_env where
  "plain_env = \<lparr>le_display_ref = (\<lambda>_. None), le_profile = (\<lambda>_. None), le_unwrap_poster = Some, le_hash = (\<lambda>s. s), le_isoformat = int_str\<rparr>"

theorem library_item_cancelled_witness:
  "\<exists>st'. record_subscription_outcome plain_env 20 cancel_args (recorded (take 1 demo_history) no_events) = Some (True, st') \<and>
     \<not> is_in_library ''i'' 1 [] st' \<and> is_in_library ''i'' 1 [] (recorded (take 1 demo_history) no_events)"
proof -
  let ?st = "recorded (take 1 demo_history) no_events"
  have lib: "is_in_library ''i'' 1 [] ?st" by code_simp
  then obtain cur where cur: "get_current (''i'', 1, 0) ?st = Some cur" "in_library cur"
    by (auto simp: is_in_library_def split: option.splits)
  have "lc_last (the (get_current (''i'', 1, 0) ?st)) \<le> 20" by code_simp
  then have last: "lc_last cur \<le> 20" using cur by simp
  have key: "la_key cancel_args \<notin> ev_key ` set (lf_events ?st)" by code_simp
  show ?thesis
    using library_item_cancelled [of cancel_args ?st cur 20 plain_env] cur last key lib
    by (auto simp: cancel_args_def restart_events_def)
qed

end
