(* ===== verification/EpisodeMap.thy ===== *)
theory EpisodeMap
  imports PyVal "HOL-Library.Product_Lexorder"
begin

text \<open>
  Numbering of episodes (\<open>media/parser/episode_mapper.py\<close>, \<open>media/identity/remapper.py\<close> and \<open>get_episodes\<close> of
  \<open>media/lookup/tmdb_season.py\<close>): release groups number seasons their own way, the catalogue its own; the mapper infers
  from the dates of the episodes where a season that the catalogue keeps as one was broadcast in parts, and the remapper
  puts a table of known habits before it.

  The catalogue is a parameter: it answers for each series with its seasons, with nothing, or by raising, and gives
  every season and episode its numbers. A season, episode or end that is not given is 0, which the code treats alike. The
  three kinds of keys of the cache are three tables. The caches of several series are filled concurrently; they are
  different entries, so the order is that of the list.
\<close>

section \<open>Dates\<close>

definition leap_year :: "int \<Rightarrow> bool" where
  "leap_year y \<longleftrightarrow> y mod 4 = 0 \<and> (y mod 100 \<noteq> 0 \<or> y mod 400 = 0)"

definition days_in_month :: "int \<Rightarrow> int \<Rightarrow> int" where
  "days_in_month y m = (if m = 2 then (if leap_year y then 29 else 28) else if m \<in> {4, 6, 9, 11} then 30 else 31)"

definition ordinal :: "int \<Rightarrow> int \<Rightarrow> int \<Rightarrow> int" where
  "ordinal y m d = (y - 1) * 365 + (y - 1) div 4 - (y - 1) div 100 + (y - 1) div 400 + sum_list (map (days_in_month y) [1..m - 1]) + d"

definition digits_text :: "nat set \<Rightarrow> string \<Rightarrow> int option" where
  "digits_text lengths t =
     (if length t \<in> lengths \<and> list_all is_digit t then Some (int (digits_val (map digit_of t))) else None)"

text \<open>\<open>strptime\<close> with \<open>%Y-%m-%d\<close>, as the number of the day; \<open>None\<close> is \<open>ValueError\<close>.\<close>

definition strptime_ymd :: "string \<Rightarrow> int option" where
  "strptime_ymd t =
     (case split_on (CHR ''-'') t of
        [ty, tm, td] \<Rightarrow>
          (case (digits_text {4} ty, digits_text {1, 2} tm,
                 if startswith td '' '' then digits_text {1} (drop 1 td) else digits_text {1, 2} td) of
             (Some y, Some m, Some d) \<Rightarrow>
               if 1 \<le> y \<and> 1 \<le> m \<and> m \<le> 12 \<and> 1 \<le> d \<and> d \<le> days_in_month y m then Some (ordinal y m d) else None
           | _ \<Rightarrow> None)
      | _ \<Rightarrow> None)"

definition parse_date :: "string option \<Rightarrow> int option" where
  "parse_date t = (if opt_text t = [] then None else strptime_ymd (opt_text t))"

section \<open>The catalogue\<close>

record season_info =
  si_number :: int
  si_count :: int

record raw_episode =
  re_number :: int
  re_air :: "string option"
  re_type :: "string option"

record tv_episode =
  ep_number :: int
  ep_air :: "string option"
  ep_type :: "string option"
  ep_season :: int

datatype 'a answer = Raised | NoAnswer | Answer 'a

record catalogue =
  ca_seasons :: "int \<Rightarrow> season_info list answer"
  ca_detail :: "int \<Rightarrow> int \<Rightarrow> raw_episode list option"

text \<open>\<open>get_episodes\<close> copies the fields it names, the newest episode first; the type of an episode is not one of them.\<close>

definition get_episodes :: "catalogue \<Rightarrow> int \<Rightarrow> int \<Rightarrow> tv_episode list option" where
  "get_episodes c tmdb_id season =
     (if tmdb_id = 0 then Some []
      else map_option (\<lambda>raw. rev (map (\<lambda>r. \<lparr>ep_number = re_number r, ep_air = re_air r, ep_type = None, ep_season = 0\<rparr>) raw))
             (ca_detail c tmdb_id season))"

definition normal_seasons :: "season_info list \<Rightarrow> season_info list" where
  "normal_seasons ss = filter (\<lambda>s. si_number s > 0) ss"

section \<open>Inferring the parts\<close>

definition season_gap_days :: int where "season_gap_days = 90"
definition season_gap_force_days :: int where "season_gap_force_days = 180"
definition min_block_length :: int where "min_block_length = 20"
definition min_total_episodes :: int where "min_total_episodes = 30"

type_synonym block = "int \<times> int \<times> int"

record mapper =
  em_blocks :: "(int, block list) dict"
  em_abs :: "(int, season_info list) dict"
  em_seasons :: "(int, season_info list) dict"

fun collect_episodes :: "catalogue \<Rightarrow> int \<Rightarrow> season_info list \<Rightarrow> tv_episode list option" where
  "collect_episodes c tmdb_id [] = Some []"
| "collect_episodes c tmdb_id (s # ss) =
     (case get_episodes c tmdb_id (si_number s) of
        None \<Rightarrow> None
      | Some eps \<Rightarrow> map_option (\<lambda>rest. map (\<lambda>e. e\<lparr>ep_season := si_number s\<rparr>) eps @ rest) (collect_episodes c tmdb_id ss))"

definition sort_episodes :: "tv_episode list \<Rightarrow> tv_episode list" where
  "sort_episodes eps = sort_key (\<lambda>e. (ep_season e, ep_number e)) eps"

definition air_gap :: "tv_episode \<Rightarrow> tv_episode \<Rightarrow> int option" where
  "air_gap prev cur =
     (case (parse_date (ep_air prev), parse_date (ep_air cur)) of
        (Some p, Some c) \<Rightarrow> Some (c - p)
      | _ \<Rightarrow> None)"

definition should_split :: "tv_episode \<Rightarrow> tv_episode \<Rightarrow> int \<Rightarrow> bool" where
  "should_split prev cur current_length =
     (if opt_text (ep_type prev) \<in> {''finale'', ''mid_season'', ''mid_season_finale''} then True
      else case air_gap prev cur of
             None \<Rightarrow> False
           | Some gap \<Rightarrow>
               if gap > season_gap_force_days then True
               else gap > season_gap_days \<and> current_length \<ge> min_block_length)"

text \<open>The loop over the episodes: the open block has its season number, its first episode and its length so far.\<close>

fun split_blocks :: "int \<Rightarrow> int \<Rightarrow> int \<Rightarrow> tv_episode \<Rightarrow> tv_episode list \<Rightarrow> block list" where
  "split_blocks season start len prev [] = [(season, start, ep_number prev)]"
| "split_blocks season start len prev (cur # rest) =
     (if should_split prev cur len
      then (season, start, ep_number prev) # split_blocks (season + 1) (ep_number cur) 1 cur rest
      else split_blocks season start (len + 1) cur rest)"

definition infer_blocks :: "tv_episode list \<Rightarrow> block list" where
  "infer_blocks eps = (case eps of [] \<Rightarrow> [] | e # es \<Rightarrow> split_blocks 1 (ep_number e) 1 e es)"

fun aligned :: "block list \<Rightarrow> nat \<Rightarrow> int \<Rightarrow> season_info list \<Rightarrow> bool" where
  "aligned blocks i cumulative [] = True"
| "aligned blocks i cumulative (s # ss) =
     (if si_count s \<le> 0 then aligned blocks (i + 1) cumulative ss
      else if i < length blocks \<and> fst (snd (blocks ! i)) \<noteq> cumulative then False
      else aligned blocks (i + 1) (cumulative + si_count s) ss)"

definition inferred :: "catalogue option \<Rightarrow> int \<Rightarrow> block list option" where
  "inferred cat tmdb_id =
     (case cat of None \<Rightarrow> None
      | Some c \<Rightarrow>
          (case ca_seasons c tmdb_id of
             Answer seasons \<Rightarrow>
               let normal = normal_seasons seasons
               in if normal = [] then None
                  else if sum_list (map si_count normal) < min_total_episodes then None
                  else (case collect_episodes c tmdb_id normal of
                          None \<Rightarrow> None
                        | Some eps \<Rightarrow>
                            if length eps < 2 then None
                            else let blocks = infer_blocks (sort_episodes eps)
                                 in if int (length blocks) \<le> Max (set (map si_number normal)) \<and> aligned blocks 0 1 normal then None
                                    else Some blocks)
           | _ \<Rightarrow> None))"

definition fetch_blocks :: "catalogue option \<Rightarrow> int \<Rightarrow> mapper \<Rightarrow> block list option \<times> mapper" where
  "fetch_blocks cat tmdb_id m =
     (case dget (em_blocks m) tmdb_id of
        Some blocks \<Rightarrow> (Some blocks, m)
      | None \<Rightarrow>
          (case inferred cat tmdb_id of
             None \<Rightarrow> (None, m)
           | Some blocks \<Rightarrow> (Some blocks, m\<lparr>em_blocks := dput tmdb_id blocks (em_blocks m)\<rparr>)))"

section \<open>Mapping\<close>

datatype target = Single int int | Span int int int int

definition map_in_block :: "block \<Rightarrow> int \<Rightarrow> int \<Rightarrow> target option" where
  "map_in_block b source_episode source_end =
     (let (_, start_ep, end_ep) = b; target_ep = start_ep + source_episode - 1
      in if target_ep > end_ep then None
         else if source_end = 0 \<or> source_end = source_episode then Some (Single 1 target_ep)
         else Some (Span 1 target_ep 1 (min (start_ep + source_end - 1) end_ep)))"

definition map_season :: "catalogue option \<Rightarrow> int \<Rightarrow> int \<Rightarrow> int \<Rightarrow> int \<Rightarrow> mapper \<Rightarrow> target option \<times> mapper" where
  "map_season cat tmdb_id source_season source_episode source_end m =
     (if source_season = 0 \<or> source_episode = 0 \<or> source_season < 1 then (None, m)
      else case fetch_blocks cat tmdb_id m of
             (None, m1) \<Rightarrow> (None, m1)
           | (Some blocks, m1) \<Rightarrow>
               if blocks = [] \<or> source_season > int (length blocks) then (None, m1)
               else (map_in_block (blocks ! nat (source_season - 1)) source_episode source_end, m1))"

definition season_list :: "catalogue \<Rightarrow> int \<Rightarrow> season_info list option" where
  "season_list c tmdb_id =
     (case ca_seasons c tmdb_id of
        Answer seasons \<Rightarrow> Some (sort_key si_number (normal_seasons seasons))
      | _ \<Rightarrow> None)"

text \<open>\<open>_find\<close>: the season an absolute number falls into.\<close>

fun find_absolute :: "season_info list \<Rightarrow> int \<Rightarrow> int \<Rightarrow> (int \<times> int) option" where
  "find_absolute [] cum abs_ep = None"
| "find_absolute (s # ss) cum abs_ep =
     (if cum + 1 \<le> abs_ep \<and> abs_ep \<le> cum + si_count s then Some (si_number s, abs_ep - (cum + 1) + 1)
      else find_absolute ss (cum + si_count s) abs_ep)"

definition absolute_target :: "season_info list \<Rightarrow> int \<Rightarrow> int \<Rightarrow> target option" where
  "absolute_target seasons absolute_episode end_episode =
     (case find_absolute seasons 0 absolute_episode of
        None \<Rightarrow> None
      | Some (sn, ep) \<Rightarrow>
          if end_episode = 0 \<or> end_episode = absolute_episode then Some (Single sn ep)
          else (case find_absolute seasons 0 end_episode of
                  None \<Rightarrow> Some (Single sn ep)
                | Some (end_sn, ep_e) \<Rightarrow> Some (Span sn ep end_sn ep_e)))"

definition map_absolute :: "catalogue option \<Rightarrow> int \<Rightarrow> int \<Rightarrow> int \<Rightarrow> mapper \<Rightarrow> target option \<times> mapper" where
  "map_absolute cat tmdb_id absolute_episode end_episode m =
     (if absolute_episode < 1 then (None, m)
      else case cat of None \<Rightarrow> (None, m)
        | Some c \<Rightarrow>
            let cached = get_or (em_abs m) tmdb_id []
            in if cached \<noteq> [] then (absolute_target cached absolute_episode end_episode, m)
               else (case season_list c tmdb_id of
                       None \<Rightarrow> (None, m)
                     | Some seasons \<Rightarrow>
                         if seasons = [] then (None, m)
                         else (absolute_target seasons absolute_episode end_episode,
                               m\<lparr>em_abs := dput tmdb_id seasons (em_abs m)\<rparr>)))"

text \<open>The look at the seasons of the catalogue that \<open>map_auto\<close> takes first, from one of its two tables; an empty list stands
  for no seasons.\<close>

definition abs_seasons :: "catalogue \<Rightarrow> int \<Rightarrow> mapper \<Rightarrow> season_info list \<times> mapper" where
  "abs_seasons c tmdb_id m =
     (let cached = get_or (em_abs m) tmdb_id []
      in if cached \<noteq> [] then (cached, m)
         else case season_list c tmdb_id of
                None \<Rightarrow> ([], m)
              | Some seasons \<Rightarrow> (seasons, m\<lparr>em_abs := dput tmdb_id seasons (em_abs m)\<rparr>))"

definition pack_seasons :: "catalogue \<Rightarrow> int \<Rightarrow> mapper \<Rightarrow> season_info list \<times> mapper" where
  "pack_seasons c tmdb_id m =
     (let cached = get_or (em_seasons m) tmdb_id []
      in if cached \<noteq> [] then (cached, m)
         else case season_list c tmdb_id of
                None \<Rightarrow> ([], m)
              | Some seasons \<Rightarrow> (seasons, m\<lparr>em_seasons := dput tmdb_id seasons (em_seasons m)\<rparr>))"

definition season_holds :: "season_info list \<Rightarrow> int \<Rightarrow> int \<Rightarrow> bool" where
  "season_holds seasons season episode =
     (case List.find (\<lambda>s. si_number s = season) seasons of
        None \<Rightarrow> False
      | Some s \<Rightarrow> 1 \<le> episode \<and> episode \<le> si_count s)"

definition map_auto :: "catalogue option \<Rightarrow> int \<Rightarrow> int \<Rightarrow> int \<Rightarrow> int \<Rightarrow> mapper \<Rightarrow> target option \<times> mapper" where
  "map_auto cat tmdb_id season episode source_end m =
     (if episode < 1 then
        (case cat of
           None \<Rightarrow> (None, m)
         | Some c \<Rightarrow>
             if season > 1 then
               (let (seasons, m1) = pack_seasons c tmdb_id m
                in if season \<in> si_number ` set seasons then (None, m1)
                   else case fetch_blocks cat tmdb_id m1 of
                          (None, m2) \<Rightarrow> (None, m2)
                        | (Some blocks, m2) \<Rightarrow>
                            (if blocks \<noteq> [] \<and> season \<le> int (length blocks) then Some (Single 1 0) else None, m2))
             else (None, m))
      else case cat of
        None \<Rightarrow> map_season cat tmdb_id season episode source_end m
      | Some c \<Rightarrow>
          let (seasons, m1) = abs_seasons c tmdb_id m
          in if season = 0 \<or> season = 1 \<or> episode > 26 then
               (if season \<noteq> 0 \<and> season_holds seasons season episode then (None, m1)
                else map_absolute cat tmdb_id episode source_end m1)
             else if season_holds seasons season episode then (None, m1)
             else map_season cat tmdb_id season episode source_end m1)"

record map_item =
  mi_tmdb :: int
  mi_season :: int
  mi_episode :: int
  mi_end :: int

text \<open>\<open>map_batch\<close>: the caches are filled for all series first, then each item is mapped.\<close>

definition ids_for_blocks :: "mapper \<Rightarrow> map_item list \<Rightarrow> int list" where
  "ids_for_blocks m items =
     remdups (map mi_tmdb (filter (\<lambda>i. mi_tmdb i \<noteq> 0 \<and> mi_tmdb i \<notin> set (keys (em_blocks m)) \<and> mi_season i > 1) items))"

definition ids_for_abs :: "mapper \<Rightarrow> map_item list \<Rightarrow> int list" where
  "ids_for_abs m items =
     remdups (map mi_tmdb (filter (\<lambda>i. mi_tmdb i \<noteq> 0 \<and> mi_tmdb i \<notin> set (keys (em_abs m)) \<and>
       (mi_season i = 0 \<or> mi_season i = 1 \<or> mi_episode i > 26)) items))"

definition prefetch :: "catalogue option \<Rightarrow> map_item list \<Rightarrow> mapper \<Rightarrow> mapper" where
  "prefetch cat items m =
     (let for_blocks = ids_for_blocks m items; for_abs = ids_for_abs m items;
          m1 = fold (\<lambda>i m. snd (fetch_blocks cat i m)) for_blocks m
      in fold (\<lambda>i m. snd (map_absolute cat i 1 0 m)) for_abs m1)"

fun map_each :: "catalogue option \<Rightarrow> map_item list \<Rightarrow> mapper \<Rightarrow> target option list \<times> mapper" where
  "map_each cat [] m = ([], m)"
| "map_each cat (i # items) m =
     (let (r, m1) = map_auto cat (mi_tmdb i) (mi_season i) (mi_episode i) (mi_end i) m;
          (rs, m2) = map_each cat items m1
      in (r # rs, m2))"

definition map_batch :: "catalogue option \<Rightarrow> map_item list \<Rightarrow> mapper \<Rightarrow> target option list \<times> mapper" where
  "map_batch cat items m = (if items = [] then ([], m) else map_each cat items (prefetch cat items m))"

definition invalidate :: "int \<Rightarrow> mapper \<Rightarrow> mapper" where
  "invalidate tmdb_id m = m\<lparr>em_blocks := dpop tmdb_id (em_blocks m), em_abs := dpop tmdb_id (em_abs m)\<rparr>"

section \<open>Known habits\<close>

text \<open>The table of the numbering habits: the seasons of a release group by those of the catalogue.\<close>

record numbering_override =
  no_tmdb :: int
  no_map :: "(int \<times> int) list"

type_synonym habits = "(int, (int, int) dict) dict"

definition season_habits :: "numbering_override list \<Rightarrow> habits" where
  "season_habits items =
     fold (\<lambda>o' h. if no_tmdb o' \<noteq> 0 \<and> no_map o' \<noteq> []
                  then dput (no_tmdb o') (fold (\<lambda>(k, v) d. dput k v d) (no_map o') []) h else h) items []"

definition apply_override :: "habits \<Rightarrow> int \<Rightarrow> int \<Rightarrow> int \<Rightarrow> target option" where
  "apply_override h tmdb_id season episode =
     (if tmdb_id = 0 \<or> season = 0 \<or> episode = 0 then None
      else case dget h tmdb_id of
             None \<Rightarrow> None
           | Some season_map \<Rightarrow>
               let canonical = get_or season_map season 0
               in if canonical = 0 then None else Some (Single canonical episode))"

text \<open>The mapper is optional; the outer option of \<open>cat\<close> says whether there is one.\<close>

definition remap :: "habits \<Rightarrow> catalogue option option \<Rightarrow> int \<Rightarrow> int \<Rightarrow> int \<Rightarrow> int \<Rightarrow> mapper \<Rightarrow> target option \<times> mapper" where
  "remap h mapping tmdb_id season episode end_episode m =
     (if tmdb_id = 0 then (None, m)
      else case apply_override h tmdb_id season episode of
             Some t \<Rightarrow> (Some t, m)
           | None \<Rightarrow>
               (case mapping of
                  None \<Rightarrow> (None, m)
                | Some cat \<Rightarrow> map_auto cat tmdb_id season episode end_episode m))"

definition override_of :: "habits \<Rightarrow> map_item \<Rightarrow> target option" where
  "override_of h i = apply_override h (mi_tmdb i) (mi_season i) (mi_episode i)"

fun fill_rest :: "habits \<Rightarrow> map_item list \<Rightarrow> target option list \<Rightarrow> target option list" where
  "fill_rest h [] mapped = []"
| "fill_rest h (i # items) mapped =
     (case override_of h i of
        Some t \<Rightarrow> Some t # fill_rest h items mapped
      | None \<Rightarrow>
          (case mapped of
             [] \<Rightarrow> None # fill_rest h items []
           | r # rs \<Rightarrow> r # fill_rest h items rs))"

definition remap_batch ::
  "habits \<Rightarrow> catalogue option option \<Rightarrow> map_item list \<Rightarrow> mapper \<Rightarrow> target option list \<times> mapper" where
  "remap_batch h mapping items m =
     (let rest = filter (\<lambda>i. override_of h i = None) items
      in case mapping of
           None \<Rightarrow> (fill_rest h items [], m)
         | Some cat \<Rightarrow>
             let (mapped, m1) = (if rest = [] then ([], m) else map_batch cat rest m)
             in (fill_rest h items mapped, m1))"

text \<open>\<open>expand_pack\<close>: the episodes of a pack of several seasons.\<close>

fun pack_episodes :: "(int, int) dict \<Rightarrow> int list \<Rightarrow> (int \<times> int) list option" where
  "pack_episodes counts [] = Some []"
| "pack_episodes counts (sn # sns) =
     (let count = get_or counts sn 0
      in if count \<le> 0 then None
         else map_option (\<lambda>rest. map (\<lambda>ep. (sn, ep)) [1..count] @ rest) (pack_episodes counts sns))"

definition expand_pack :: "catalogue option option \<Rightarrow> int \<Rightarrow> int list \<Rightarrow> (int \<times> int) list option" where
  "expand_pack mapping tmdb_id seasons =
     (if tmdb_id = 0 \<or> seasons = [] then None
      else case mapping of
             Some (Some c) \<Rightarrow>
               (case ca_seasons c tmdb_id of
                  Answer ss \<Rightarrow>
                    (case pack_episodes (fold (\<lambda>s d. dput (si_number s) (si_count s) d) (normal_seasons ss) []) seasons of
                       None \<Rightarrow> None
                     | Some eps \<Rightarrow> if eps = [] then None else Some eps)
                | _ \<Rightarrow> None)
           | _ \<Rightarrow> None)"

end
