(* ===== verification/EpisodeMapProofs.thy ===== *)
theory EpisodeMapProofs
  imports EpisodeMap
begin

text \<open>
  What the numbering services compute: an absolute number is a position in the list of all episodes; a season of a release
  group is a part of the broadcast, when the catalogue keeps one season; mapping many items at once is mapping each;
  and a finding on series with several seasons.
\<close>

section \<open>Absolute numbers\<close>

definition all_episodes :: "season_info list \<Rightarrow> (int \<times> int) list" where
  "all_episodes seasons = concat (map (\<lambda>s. map (\<lambda>e. (si_number s, e)) [1..si_count s]) seasons)"

lemma find_absolute_position:
  assumes "\<forall>s \<in> set seasons. 0 \<le> si_count s"
  shows "find_absolute seasons cum a =
    (if cum < a \<and> a \<le> cum + int (length (all_episodes seasons)) then Some (all_episodes seasons ! nat (a - cum - 1)) else None)"
  using assms
proof (induction seasons arbitrary: cum)
  case Nil
  then show ?case by (simp add: all_episodes_def)
next
  case (Cons s ss)
  let ?n = "si_count s"
  have n: "0 \<le> ?n" using Cons.prems by simp
  have all: "all_episodes (s # ss) = map (\<lambda>e. (si_number s, e)) [1..?n] @ all_episodes ss" by (simp add: all_episodes_def)
  have ih: "find_absolute ss (cum + ?n) a = (if cum + ?n < a \<and> a \<le> cum + ?n + int (length (all_episodes ss))
      then Some (all_episodes ss ! nat (a - (cum + ?n) - 1)) else None)" using Cons by simp
  show ?case
  proof (cases "cum + 1 \<le> a \<and> a \<le> cum + ?n")
    case True
    then have "nat (a - cum - 1) < length [1..?n]" by simp
    moreover from this True have "[1..?n] ! nat (a - cum - 1) = a - cum" by (simp add: nth_upto)
    ultimately show ?thesis using True n by (simp add: all nth_append)
  next
    case False
    have "nat (a - cum - 1) - nat ?n = nat (a - (cum + ?n) - 1)" if "cum + ?n < a" using that n by simp
    moreover have "\<not> nat (a - cum - 1) < nat ?n" if "cum + ?n < a" using that n by simp
    ultimately show ?thesis using False n ih by (auto simp: all nth_append)
  qed
qed

text \<open>C26: An absolute number is mapped to the season and episode at that position of the list of all episodes, season after
  season, and a number beyond the list to nothing, whether the seasons come from the catalogue or the cache.\<close>

theorem absolute_is_position:
  assumes "season_list c tmdb_id = Some seasons" and "\<forall>s \<in> set seasons. 0 \<le> si_count s" and "1 \<le> a"
    and "get_or (em_abs m) tmdb_id [] \<in> {[], seasons}"
  shows "fst (map_absolute (Some c) tmdb_id a 0 m) =
    (if a \<le> int (length (all_episodes seasons))
     then Some (case all_episodes seasons ! nat (a - 1) of (s, e) \<Rightarrow> Single s e) else None)"
proof -
  have "absolute_target seasons a 0 = (if a \<le> int (length (all_episodes seasons))
      then Some (case all_episodes seasons ! nat (a - 1) of (s, e) \<Rightarrow> Single s e) else None)"
    using assms(3) by (simp add: absolute_target_def find_absolute_position [OF assms(2)] split: prod.split)
  moreover have "all_episodes [] = []" by (simp add: all_episodes_def)
  ultimately show ?thesis using assms(1,3,4) by (auto simp: map_absolute_def Let_def)
qed

section \<open>Parts of a broadcast\<close>

text \<open>The parts as lists of episodes: a part is open, and ends where the rule splits.\<close>

fun parts_from :: "tv_episode list \<Rightarrow> tv_episode list \<Rightarrow> tv_episode list list" where
  "parts_from part [] = [part]"
| "parts_from part (x # xs) =
     (if should_split (last part) x (int (length part)) then part # parts_from [x] xs else parts_from (part @ [x]) xs)"

definition broadcast_parts :: "tv_episode list \<Rightarrow> tv_episode list list" where
  "broadcast_parts eps = (case eps of [] \<Rightarrow> [] | e # es \<Rightarrow> parts_from [e] es)"

lemma concat_parts_from: "concat (parts_from part xs) = part @ xs"
  by (induction xs arbitrary: part) auto

lemma concat_parts: "concat (broadcast_parts eps) = eps"
  by (auto simp: broadcast_parts_def concat_parts_from split: list.split)

lemma parts_from_nonempty: "part \<noteq> [] \<Longrightarrow> p \<in> set (parts_from part xs) \<Longrightarrow> p \<noteq> []"
  by (induction xs arbitrary: part) (auto split: if_splits)

lemma parts_nonempty: "p \<in> set (broadcast_parts eps) \<Longrightarrow> p \<noteq> []"
  by (cases eps) (auto simp: broadcast_parts_def dest: parts_from_nonempty [rotated])

lemma parts_length: "length (broadcast_parts eps) \<le> length eps"
proof -
  have "length ps \<le> length (concat ps)" if "\<And>p. p \<in> set ps \<Longrightarrow> p \<noteq> []" for ps :: "tv_episode list list"
    using that
  proof (induction ps)
    case (Cons p ps)
    have "p \<noteq> []" "length ps \<le> length (concat ps)" using Cons.prems Cons.IH by auto
    then show ?case by (cases p) simp_all
  qed simp
  from this [of "broadcast_parts eps"] parts_nonempty [of _ eps] show ?thesis by (simp add: concat_parts)
qed

definition ends :: "tv_episode list \<Rightarrow> int \<times> int" where
  "ends part = (ep_number (hd part), ep_number (last part))"

lemma split_blocks_parts:
  "part \<noteq> [] \<Longrightarrow> start = ep_number (hd part) \<Longrightarrow> len = int (length part) \<Longrightarrow> prev = last part \<Longrightarrow>
    map snd (split_blocks season start len prev xs) = map ends (parts_from part xs)"
proof (induction xs arbitrary: season start len prev part)
  case Nil
  then show ?case by (simp add: ends_def)
next
  case (Cons x xs)
  show ?case
  proof (cases "should_split prev x len")
    case True
    then show ?thesis using Cons.prems Cons.IH [of "[x]"] by (simp add: ends_def)
  next
    case False
    then show ?thesis using Cons.prems Cons.IH [of "part @ [x]" _ "len + 1" x] by simp
  qed
qed

lemma infer_blocks_parts: "map snd (infer_blocks eps) = map ends (broadcast_parts eps)"
  by (auto simp: infer_blocks_def broadcast_parts_def intro!: split_blocks_parts split: list.split)

lemma length_infer_blocks: "length (infer_blocks eps) = length (broadcast_parts eps)"
  using arg_cong [OF infer_blocks_parts, of length] by simp

lemma nth_infer_blocks: "k < length (broadcast_parts eps) \<Longrightarrow> snd (infer_blocks eps ! k) = ends (broadcast_parts eps ! k)"
proof -
  assume k: "k < length (broadcast_parts eps)"
  then have "snd (infer_blocks eps ! k) = map snd (infer_blocks eps) ! k" by (simp add: length_infer_blocks)
  with k show ?thesis by (simp add: infer_blocks_parts)
qed

text \<open>A part whose episodes are numbered one after the other.\<close>

definition consecutive :: "tv_episode list \<Rightarrow> bool" where
  "consecutive part \<longleftrightarrow> map ep_number part = [ep_number (hd part)..ep_number (last part)]"

lemma consecutive_number:
  assumes "consecutive part" and "part \<noteq> []" and "i < length part"
  shows "ep_number (part ! i) = ep_number (hd part) + int i"
proof -
  have "ep_number (part ! i) = map ep_number part ! i" using assms(3) by simp
  also have "\<dots> = [ep_number (hd part)..ep_number (last part)] ! i" using assms(1) by (simp add: consecutive_def)
  also have "\<dots> = ep_number (hd part) + int i"
  proof -
    have "length (map ep_number part) = length [ep_number (hd part)..ep_number (last part)]"
      using assms(1) by (simp add: consecutive_def)
    then show ?thesis using assms(3) by (simp add: nth_upto)
  qed
  finally show ?thesis .
qed

lemma map_in_part:
  assumes "snd b = ends part" and "consecutive part" and "part \<noteq> []" and "1 \<le> e"
  shows "map_in_block b e 0 =
    (if e \<le> int (length part) then Some (Single 1 (ep_number (part ! nat (e - 1)))) else None)"
proof -
  obtain k where b: "b = (k, ep_number (hd part), ep_number (last part))" using assms(1) by (cases b) (simp add: ends_def)
  have last: "ep_number (last part) = ep_number (hd part) + int (length part) - 1"
    using consecutive_number [OF assms(2,3), of "length part - 1"] assms(3) by (simp add: last_conv_nth of_nat_diff Suc_leI)
  show ?thesis
  proof (cases "e \<le> int (length part)")
    case True
    then have "ep_number (part ! nat (e - 1)) = ep_number (hd part) + (e - 1)"
      using consecutive_number [OF assms(2,3), of "nat (e - 1)"] assms(4) by simp
    with True last show ?thesis by (simp add: map_in_block_def b)
  next
    case False
    with last show ?thesis by (simp add: map_in_block_def b)
  qed
qed

lemma map_season_part:
  assumes "dget (em_blocks m) tmdb_id = None" and "inferred cat tmdb_id = Some (infer_blocks eps)"
    and "parts = broadcast_parts eps" and "1 \<le> k" and "1 \<le> e"
    and "k \<le> int (length parts) \<Longrightarrow> consecutive (parts ! nat (k - 1))"
  shows "fst (map_season cat tmdb_id k e 0 m) =
    (if k \<le> int (length parts) \<and> e \<le> int (length (parts ! nat (k - 1)))
     then Some (Single 1 (ep_number (parts ! nat (k - 1) ! nat (e - 1)))) else None)"
proof (cases "k \<le> int (length parts)")
  case True
  then have i: "nat (k - 1) < length (broadcast_parts eps)" using assms(3,4) by simp
  have "parts ! nat (k - 1) \<noteq> []" using parts_nonempty nth_mem [OF i] assms(3) by blast
  then have "map_in_block (infer_blocks eps ! nat (k - 1)) e 0 =
      (if e \<le> int (length (parts ! nat (k - 1))) then Some (Single 1 (ep_number (parts ! nat (k - 1) ! nat (e - 1)))) else None)"
    using map_in_part [OF _ assms(6) [OF True] _ assms(5)] nth_infer_blocks [OF i] assms(3) by simp
  moreover have "infer_blocks eps \<noteq> []" using i length_infer_blocks [of eps] by auto
  ultimately show ?thesis using True assms by (simp add: map_season_def fetch_blocks_def length_infer_blocks)
next
  case False
  then show ?thesis using assms by (simp add: map_season_def fetch_blocks_def length_infer_blocks)
qed

lemma consecutive_slice:
  assumes "map ep_number (xs @ part @ ys) = [i..n]" and "part \<noteq> []"
  shows "consecutive part"
proof -
  let ?a = "length xs" and ?l = "length part"
  have len: "length [i..n] = ?a + ?l + length ys" using arg_cong [OF assms(1), of length] by simp
  have nth: "ep_number (part ! j) = i + int (?a + j)" if "j < ?l" for j
  proof -
    have "map ep_number (xs @ part @ ys) ! (?a + j) = ep_number (part ! j)" using that by (simp add: nth_append)
    moreover have "[i..n] ! (?a + j) = i + int (?a + j)" using that len by (simp add: nth_upto)
    ultimately show ?thesis using assms(1) by simp
  qed
  have h: "ep_number (hd part) = i + int ?a" using nth [of 0] assms(2) by (simp add: hd_conv_nth)
  have l: "ep_number (last part) = i + int (?a + (?l - 1))" using nth [of "?l - 1"] assms(2) by (simp add: last_conv_nth)
  show ?thesis
    unfolding consecutive_def h l
    by (rule nth_equalityI) (use nth assms(2) in \<open>auto simp: nth_upto of_nat_diff Suc_leI\<close>)
qed

lemma consecutive_parts:
  assumes "map ep_number eps = [i..n]" and "k < length (broadcast_parts eps)"
  shows "consecutive (broadcast_parts eps ! k)"
proof (rule consecutive_slice)
  let ?ps = "broadcast_parts eps"
  have "?ps = take k ?ps @ ?ps ! k # drop (Suc k) ?ps" using assms(2) by (simp add: id_take_nth_drop [symmetric])
  then have "concat ?ps = concat (take k ?ps) @ ?ps ! k @ concat (drop (Suc k) ?ps)" by (metis concat.simps(2) concat_append)
  then show "map ep_number (concat (take k ?ps) @ ?ps ! k @ concat (drop (Suc k) ?ps)) = [i..n]"
    using concat_parts [of eps] assms(1) by simp
  show "?ps ! k \<noteq> []" using parts_nonempty nth_mem [OF assms(2)] by blast
qed

lemma first_block_start:
  assumes "map ep_number eps = [i..n]" and "eps \<noteq> []"
  shows "fst (snd (infer_blocks eps ! 0)) = i"
proof -
  obtain e es where e: "eps = e # es" using assms(2) by (cases eps) auto
  have "parts_from part xs \<noteq> [] \<and> (part \<noteq> [] \<longrightarrow> hd (hd (parts_from part xs)) = hd part)" for part xs
    by (induction xs arbitrary: part) auto
  then have "parts_from [e] es \<noteq> [] \<and> hd (hd (parts_from [e] es)) = e" by (metis list.distinct(1) list.sel(1))
  then have "0 < length (broadcast_parts eps)" "hd (broadcast_parts eps ! 0) = e"
    using hd_conv_nth [of "parts_from [e] es"] by (simp_all add: broadcast_parts_def e)
  then have "fst (snd (infer_blocks eps ! 0)) = ep_number e" by (simp add: nth_infer_blocks ends_def)
  moreover have "i \<le> n" using assms e by (metis Nil_is_map_conv upto_empty not_le)
  ultimately show ?thesis using assms(1) upto_rec1 [of i n] by (simp add: e)
qed

text \<open>C25: When the catalogue keeps a series as one season, number 1, with its episodes numbered from 1, and nothing is cached, the
  e-th episode of season k of a release group is mapped to the e-th episode of the k-th part of the broadcast exactly when the
  catalogue counts at least 30 episodes, the broadcast has several parts and the k-th has so many episodes; otherwise, so also
  for a shorter series and for one broadcast in one part, it is mapped to nothing.\<close>

theorem merged_season_mapped:
  assumes "ca_seasons c tmdb_id = Answer ss" and "normal_seasons ss = [s]" and "si_number s = 1"
    and "collect_episodes c tmdb_id [s] = Some eps" and "map ep_number (sort_episodes eps) = [1..n]"
    and "parts = broadcast_parts (sort_episodes eps)" and "dget (em_blocks m) tmdb_id = None" and "1 \<le> k" and "1 \<le> e"
  shows "fst (map_season (Some c) tmdb_id k e 0 m) =
    (if 30 \<le> si_count s \<and> 1 < length parts \<and> k \<le> int (length parts) \<and> e \<le> int (length (parts ! nat (k - 1)))
     then Some (Single 1 (ep_number (parts ! nat (k - 1) ! nat (e - 1)))) else None)"
proof (cases "30 \<le> si_count s \<and> 1 < length parts")
  case True
  then have two: "2 \<le> length eps"
    using assms(6) parts_length [of "sort_episodes eps"] by (simp add: sort_episodes_def)
  have ne: "sort_episodes eps \<noteq> []" using two by (auto simp: sort_episodes_def simp flip: length_greater_0_conv)
  have al: "aligned (infer_blocks (sort_episodes eps)) 0 1 [s]"
    using first_block_start [OF assms(5) ne] True by simp
  have inf: "inferred (Some c) tmdb_id = Some (infer_blocks (sort_episodes eps))"
    using assms(1-4,6) True two al
    by (simp add: inferred_def min_total_episodes_def length_infer_blocks Let_def del: aligned.simps collect_episodes.simps)
  have c: "consecutive (parts ! nat (k - 1))" if "k \<le> int (length parts)"
    using consecutive_parts [OF assms(5), of "nat (k - 1)"] that assms(6,8) by simp
  from map_season_part [OF assms(7) _ assms(6,8,9) c, of "Some c"] inf True show ?thesis by simp
next
  case False
  have "inferred (Some c) tmdb_id = None"
  proof (cases "si_count s < 30 \<or> length eps < 2")
    case True
    with assms(1,2,4) show ?thesis
      by (auto simp: inferred_def min_total_episodes_def Let_def simp del: aligned.simps collect_episodes.simps)
  next
    case len: False
    then have ne: "sort_episodes eps \<noteq> []" by (auto simp: sort_episodes_def simp flip: length_greater_0_conv)
    have al: "aligned (infer_blocks (sort_episodes eps)) 0 1 [s]"
      using first_block_start [OF assms(5) ne] len by simp
    show ?thesis using assms(1-4,6) False len al
      by (simp add: inferred_def min_total_episodes_def length_infer_blocks Let_def del: aligned.simps collect_episodes.simps)
  qed
  with False assms(7,8,9) show ?thesis by (auto simp: map_season_def fetch_blocks_def)
qed

text \<open>C38: When the k-th part belongs to a later season of the catalogue, the mapper answers the first season all the same.\<close>

theorem later_season_lost:
  assumes "inferred (Some c) tmdb_id = Some (infer_blocks eps)" and "parts = broadcast_parts eps"
    and "dget (em_blocks m) tmdb_id = None" and "1 \<le> k" and "k \<le> int (length parts)" and "1 \<le> e"
    and "consecutive (parts ! nat (k - 1))" and "e \<le> int (length (parts ! nat (k - 1)))"
    and "x = parts ! nat (k - 1) ! nat (e - 1)" and "ep_season x > 1"
  shows "fst (map_season (Some c) tmdb_id k e 0 m) = Some (Single 1 (ep_number x)) \<and>
    fst (map_season (Some c) tmdb_id k e 0 m) \<noteq> Some (Single (ep_season x) (ep_number x))"
  using map_season_part [OF assms(3,1,2,4,6,7)] assms(5,8-10) by simp

section \<open>The caches change nothing\<close>

text \<open>The caches hold what the catalogue answers.\<close>

definition coherent :: "catalogue option \<Rightarrow> mapper \<Rightarrow> bool" where
  "coherent cat m \<longleftrightarrow>
     (\<forall>i bs. dget (em_blocks m) i = Some bs \<longrightarrow> inferred cat i = Some bs) \<and>
     (\<forall>i ss. dget (em_abs m) i = Some ss \<longrightarrow> (\<exists>c. cat = Some c \<and> season_list c i = Some ss)) \<and>
     (\<forall>i ss. dget (em_seasons m) i = Some ss \<longrightarrow> (\<exists>c. cat = Some c \<and> season_list c i = Some ss))"

definition new_mapper :: mapper where
  "new_mapper = \<lparr>em_blocks = [], em_abs = [], em_seasons = []\<rparr>"

lemma coherent_new [simp]: "coherent cat new_mapper"
  by (simp add: coherent_def new_mapper_def)

lemma fetch_coherent:
  assumes "coherent cat m"
  shows "fst (fetch_blocks cat i m) = inferred cat i" and "coherent cat (snd (fetch_blocks cat i m))"
  using assms by (auto simp: fetch_blocks_def coherent_def split: option.splits)

lemma seasons_coherent:
  assumes "coherent (Some c) m"
  shows "fst (abs_seasons c i m) = (case season_list c i of None \<Rightarrow> [] | Some ss \<Rightarrow> ss)"
    and "fst (pack_seasons c i m) = (case season_list c i of None \<Rightarrow> [] | Some ss \<Rightarrow> ss)"
    and "coherent (Some c) (snd (abs_seasons c i m))" and "coherent (Some c) (snd (pack_seasons c i m))"
  using assms
  by (auto simp: abs_seasons_def pack_seasons_def coherent_def get_or_def Let_def split: option.splits if_splits)

lemma absolute_coherent:
  assumes "coherent cat m"
  shows "fst (map_absolute cat i a e m) = fst (map_absolute cat i a e new_mapper)"
    and "coherent cat (snd (map_absolute cat i a e m))"
  using assms
  by (auto simp: map_absolute_def coherent_def new_mapper_def get_or_def Let_def split: option.splits if_splits)

lemma season_coherent:
  assumes "coherent cat m"
  shows "fst (map_season cat i s e n m) = fst (map_season cat i s e n new_mapper)"
    and "coherent cat (snd (map_season cat i s e n m))"
proof -
  obtain m1 m2 where f: "fetch_blocks cat i m = (inferred cat i, m1)" "fetch_blocks cat i new_mapper = (inferred cat i, m2)"
    using fetch_coherent(1) [OF assms, of i] fetch_coherent(1) [OF coherent_new, of cat i] by (metis prod.collapse)
  moreover have "coherent cat m1" using fetch_coherent(2) [OF assms, of i] f(1) by simp
  ultimately show "fst (map_season cat i s e n m) = fst (map_season cat i s e n new_mapper)"
    and "coherent cat (snd (map_season cat i s e n m))"
    using assms by (cases "inferred cat i"; simp add: map_season_def)+
qed

lemma auto_coherent:
  assumes "coherent cat m"
  shows "fst (map_auto cat i s e n m) = fst (map_auto cat i s e n new_mapper) \<and> coherent cat (snd (map_auto cat i s e n m))"
proof (cases cat)
  case None
  then show ?thesis using season_coherent [OF assms] assms by (auto simp: map_auto_def)
next
  case (Some c)
  note coh = assms [unfolded Some]
  let ?ss = "case season_list c i of None \<Rightarrow> [] | Some ss \<Rightarrow> ss"
  obtain p1 p2 where p: "pack_seasons c i m = (?ss, p1)" "pack_seasons c i new_mapper = (?ss, p2)"
    using seasons_coherent(2) [OF coh, of i] seasons_coherent(2) [OF coherent_new, of c i] by (metis prod.collapse)
  have pc: "coherent cat p1" "coherent cat p2"
    using seasons_coherent(4) [OF coh, of i] seasons_coherent(4) [OF coherent_new, of c i] p Some by simp_all
  obtain a1 a2 where a: "abs_seasons c i m = (?ss, a1)" "abs_seasons c i new_mapper = (?ss, a2)"
    using seasons_coherent(1) [OF coh, of i] seasons_coherent(1) [OF coherent_new, of c i] by (metis prod.collapse)
  have ac: "coherent cat a1" "coherent cat a2"
    using seasons_coherent(3) [OF coh, of i] seasons_coherent(3) [OF coherent_new, of c i] a Some by simp_all
  obtain f1 f2 where f: "fetch_blocks cat i p1 = (inferred cat i, f1)" "fetch_blocks cat i p2 = (inferred cat i, f2)"
    using fetch_coherent(1) [OF pc(1), of i] fetch_coherent(1) [OF pc(2), of i] by (metis prod.collapse)
  have fc: "coherent cat f1" using fetch_coherent(2) [OF pc(1), of i] f by simp
  show ?thesis
  proof (cases "e < 1")
    case True
    have l: "map_auto cat i s e n m = (if s > 1 then if s \<in> si_number ` set ?ss then (None, p1)
        else (case inferred cat i of None \<Rightarrow> (None, f1)
          | Some bs \<Rightarrow> (if bs \<noteq> [] \<and> s \<le> int (length bs) then Some (Single 1 0) else None, f1)) else (None, m))"
      using True Some p(1) f(1) by (simp add: map_auto_def split: option.split)
    have r: "map_auto cat i s e n new_mapper = (if s > 1 then if s \<in> si_number ` set ?ss then (None, p2)
        else (case inferred cat i of None \<Rightarrow> (None, f2)
          | Some bs \<Rightarrow> (if bs \<noteq> [] \<and> s \<le> int (length bs) then Some (Single 1 0) else None, f2)) else (None, new_mapper))"
      using True Some p(2) f(2) by (simp add: map_auto_def split: option.split)
    show ?thesis unfolding l r using assms pc(1) fc by (cases "inferred cat i") simp_all
  next
    case False
    have l: "map_auto cat i s e n m' = (let held = season_holds ?ss s e in
        if s = 0 \<or> s = 1 \<or> e > 26 then if s \<noteq> 0 \<and> held then (None, a') else map_absolute cat i e n a'
        else if held then (None, a') else map_season cat i s e n a')" if "abs_seasons c i m' = (?ss, a')" for m' a'
      using False Some that by (simp add: map_auto_def)
    show ?thesis
      unfolding l [OF a(1)] l [OF a(2)] Let_def
      using absolute_coherent [OF ac(1), of i e n] absolute_coherent(1) [OF ac(2), of i e n]
        season_coherent [OF ac(1), of i s e n] season_coherent(1) [OF ac(2), of i s e n] ac(1) by simp
  qed
qed

lemma prefetch_coherent: "coherent cat m \<Longrightarrow> coherent cat (prefetch cat items m)"
proof -
  assume m: "coherent cat m"
  have b: "coherent cat m \<Longrightarrow> coherent cat (fold (\<lambda>i m. snd (fetch_blocks cat i m)) is m)" for "is" m
    by (induction "is" arbitrary: m) (simp_all add: fetch_coherent)
  have a: "coherent cat m \<Longrightarrow> coherent cat (fold (\<lambda>i m. snd (map_absolute cat i 1 0 m)) is m)" for "is" m
    by (induction "is" arbitrary: m) (simp_all add: absolute_coherent)
  from a [OF b [OF m]] show ?thesis by (simp add: prefetch_def Let_def)
qed

definition mapped_alone :: "catalogue option \<Rightarrow> map_item \<Rightarrow> target option" where
  "mapped_alone cat i = fst (map_auto cat (mi_tmdb i) (mi_season i) (mi_episode i) (mi_end i) new_mapper)"

lemma each_coherent: "coherent cat m \<Longrightarrow> fst (map_each cat items m) = map (mapped_alone cat) items"
proof (induction items arbitrary: m)
  case (Cons i items)
  let ?r = "map_auto cat (mi_tmdb i) (mi_season i) (mi_episode i) (mi_end i) m"
  from auto_coherent [OF Cons.prems, of "mi_tmdb i" "mi_season i" "mi_episode i" "mi_end i"]
  have "fst ?r = mapped_alone cat i" "coherent cat (snd ?r)" by (simp_all add: mapped_alone_def)
  with Cons.IH [of "snd ?r"] show ?case by (simp add: case_prod_unfold)
qed simp

lemma batch_coherent: "coherent cat m \<Longrightarrow> fst (map_batch cat items m) = map (mapped_alone cat) items"
  using each_coherent [OF prefetch_coherent] by (simp add: map_batch_def)

lemma fill_rest_filter:
  "fill_rest h items (map f (filter (\<lambda>i. override_of h i = None) items)) =
    map (\<lambda>i. case override_of h i of None \<Rightarrow> f i | Some t \<Rightarrow> Some t) items"
  by (induction items) (auto split: option.split)

text \<open>C27: Mapping a batch, with the caches filled for all its series first, gives each item what mapping it alone with empty
  caches gives, at its position, as long as the caches hold what the catalogue answers.\<close>

theorem batch_maps_each:
  assumes "coherent cat m" and "\<forall>i \<in> set items. mi_tmdb i \<noteq> 0"
  shows "fst (remap_batch h (Some cat) items m) =
    map (\<lambda>i. fst (remap h (Some cat) (mi_tmdb i) (mi_season i) (mi_episode i) (mi_end i) new_mapper)) items"
proof -
  let ?rest = "filter (\<lambda>i. override_of h i = None) items"
  have "fst (remap_batch h (Some cat) items m) = fill_rest h items (map (mapped_alone cat) ?rest)"
    using batch_coherent [OF assms(1), of ?rest] by (auto simp: remap_batch_def Let_def split: prod.split)
  also have "\<dots> = map (\<lambda>i. case override_of h i of None \<Rightarrow> mapped_alone cat i | Some t \<Rightarrow> Some t) items" by (rule fill_rest_filter)
  also have "\<dots> = map (\<lambda>i. fst (remap h (Some cat) (mi_tmdb i) (mi_season i) (mi_episode i) (mi_end i) new_mapper)) items"
    using assms(2) by (auto simp: remap_def override_of_def mapped_alone_def split: option.split)
  finally show ?thesis .
qed

section \<open>Examples\<close>

text \<open>Series 1 has one season in two parts, series 2 two seasons, the second in two parts.\<close>

definition demo_air :: "int \<Rightarrow> int \<Rightarrow> int \<Rightarrow> string option" where
  "demo_air i s n =
     (if (s, n) = (1, 20) then Some ''2020-01-01'' else if (i, s, n) = (1, 1, 21) \<or> (i, s, n) = (2, 2, 1) then Some ''2021-01-01''
      else if (s, n) = (2, 10) then Some ''2021-03-01'' else if (s, n) = (2, 11) then Some ''2021-10-01'' else None)"

definition demo_catalogue :: catalogue where
  "demo_catalogue = \<lparr>
     ca_seasons = (\<lambda>i. if i = 1 then Answer [\<lparr>si_number = 1, si_count = 40\<rparr>]
       else if i = 2 then Answer [\<lparr>si_number = 1, si_count = 20\<rparr>, \<lparr>si_number = 2, si_count = 20\<rparr>] else NoAnswer),
     ca_detail = (\<lambda>i s. Some (map (\<lambda>n. \<lparr>re_number = n, re_air = demo_air i s n, re_type = None\<rparr>) [1..if i = 1 then 40 else 20]))\<rparr>"

definition demo_series :: "int \<Rightarrow> tv_episode list" where
  "demo_series i =
     sort_episodes (the (case ca_seasons demo_catalogue i of Answer ss \<Rightarrow> collect_episodes demo_catalogue i ss | _ \<Rightarrow> None))"

theorem absolute_is_position_witness:
  "fst (map_absolute (Some demo_catalogue) 2 25 0 new_mapper) = Some (Single 2 5) \<and>
   fst (map_absolute (Some demo_catalogue) 2 41 0 new_mapper) = None"
proof -
  let ?ss = "[\<lparr>si_number = 1, si_count = 20\<rparr>, \<lparr>si_number = 2, si_count = 20\<rparr>]"
  have ss: "season_list demo_catalogue 2 = Some ?ss" by code_simp
  have m: "get_or (em_abs new_mapper) 2 [] = []" by (simp add: new_mapper_def get_or_def)
  have l: "length (all_episodes ?ss) = 40" by code_simp
  have "all_episodes ?ss ! 24 = (2, 5)" by code_simp
  then show ?thesis
    using absolute_is_position [OF ss, of 25 new_mapper] absolute_is_position [OF ss, of 41 new_mapper] m l by simp
qed

theorem merged_season_mapped_witness:
  "fst (map_season (Some demo_catalogue) 1 2 3 0 new_mapper) = Some (Single 1 23)"
proof -
  let ?s = "\<lparr>si_number = 1, si_count = 40\<rparr>"
  obtain eps where eps: "collect_episodes demo_catalogue 1 [?s] = Some eps" by (simp add: demo_catalogue_def get_episodes_def)
  have "map_option length (collect_episodes demo_catalogue 1 [?s]) = Some 40" by code_simp
  then have len: "length eps = 40" using eps by simp
  have sorted: "sort_episodes eps = demo_series 1" using eps by (simp add: demo_series_def demo_catalogue_def)
  have numbers: "map ep_number (demo_series 1) = [1..40]" by code_simp
  have parts: "map (map ep_number) (broadcast_parts (demo_series 1)) = [[1..20], [21..40]]" by code_simp
  have n: "length (broadcast_parts (demo_series 1)) = 2" using arg_cong [OF parts, of length] by simp
  have p: "map ep_number (broadcast_parts (demo_series 1) ! 1) = [21..40]" using arg_cong [OF parts, of "\<lambda>xs. xs ! 1"] n by simp
  have l: "length (broadcast_parts (demo_series 1) ! 1) = 20" using arg_cong [OF p, of length] by simp
  have x: "ep_number (broadcast_parts (demo_series 1) ! 1 ! 2) = 23"
    using arg_cong [OF p, of "\<lambda>xs. xs ! 2"] l by (simp add: nth_upto)
  show ?thesis
    using merged_season_mapped [OF _ _ _ eps _ refl, of "[?s]" 40 new_mapper 2 3] numbers n l x
    by (simp add: sorted normal_seasons_def new_mapper_def) (simp add: demo_catalogue_def)
qed

theorem later_season_lost_witness:
  "fst (map_season (Some demo_catalogue) 2 3 1 0 new_mapper) = Some (Single 1 11) \<and>
   ep_season (demo_series 2 ! 30) = 2 \<and> ep_number (demo_series 2 ! 30) = 11"
proof -
  let ?parts = "broadcast_parts (demo_series 2)"
  have inf: "inferred (Some demo_catalogue) 2 = Some (infer_blocks (demo_series 2))" by code_simp
  have parts: "map (map (\<lambda>e. (ep_season e, ep_number e))) ?parts =
      [map (Pair 1) [1..20], map (Pair 2) [1..10], map (Pair 2) [11..20]]" by code_simp
  have n: "length ?parts = 3" using arg_cong [OF parts, of length] by simp
  have p: "map (\<lambda>e. (ep_season e, ep_number e)) (?parts ! 2) = map (Pair 2) [11..20]"
    using arg_cong [OF parts, of "\<lambda>xs. xs ! 2"] n by simp
  have l: "length (?parts ! 2) = 10" using arg_cong [OF p, of length] by simp
  have "consecutive (?parts ! 2)" by code_simp
  moreover have x: "ep_season (?parts ! 2 ! 0) = 2 \<and> ep_number (?parts ! 2 ! 0) = 11"
    using arg_cong [OF p, of "\<lambda>xs. xs ! 0"] l by (simp add: nth_upto)
  ultimately have "fst (map_season (Some demo_catalogue) 2 3 1 0 new_mapper) = Some (Single 1 11)"
    using later_season_lost [OF inf refl, of new_mapper 3 1 "?parts ! 2 ! 0"] n l by (simp add: new_mapper_def)
  moreover have "ep_season (demo_series 2 ! 30) = 2 \<and> ep_number (demo_series 2 ! 30) = 11" by code_simp
  ultimately show ?thesis by simp
qed

definition demo_items :: "map_item list" where
  "demo_items = [\<lparr>mi_tmdb = 1, mi_season = 2, mi_episode = 3, mi_end = 0\<rparr>, \<lparr>mi_tmdb = 2, mi_season = 1, mi_episode = 25, mi_end = 0\<rparr>,
     \<lparr>mi_tmdb = 3, mi_season = 2, mi_episode = 3, mi_end = 0\<rparr>]"

theorem batch_maps_each_witness:
  "fst (remap_batch (season_habits [\<lparr>no_tmdb = 3, no_map = [(2, 1)]\<rparr>]) (Some (Some demo_catalogue)) demo_items new_mapper) =
    [Some (Single 1 23), Some (Single 2 5), Some (Single 1 3)]"
proof -
  let ?h = "season_habits [\<lparr>no_tmdb = 3, no_map = [(2, 1)]\<rparr>]"
  have "map (\<lambda>i. fst (remap ?h (Some (Some demo_catalogue)) (mi_tmdb i) (mi_season i) (mi_episode i) (mi_end i) new_mapper)) demo_items =
      [Some (Single 1 23), Some (Single 2 5), Some (Single 1 3)]" by code_simp
  then show ?thesis using batch_maps_each [of "Some demo_catalogue" new_mapper demo_items ?h] by (simp add: demo_items_def)
qed

end
