(* ===== verification/LifecycleView.thy ===== *)
theory LifecycleView
  imports Lifecycle
begin

text \<open>
  The view of the read model by works (the queries and functions after \<open>get_current\<close> in
  \<open>db/repositories/lifecycle_repository.py\<close>): the rows of the episodes of a work are grouped, the state of its live
  subscription is laid over the group, and active subscriptions without a row are added.

  The queries are those of an administrator, who sees every row. A row's id is its position in the table, since rows are
  never deleted. Columns of a subscription that are not set are 0 or empty, which the code reads alike. SQL's \<open>ILIKE\<close> is a
  parameter. The quotients of \<open>int(a * 100 / b)\<close> are exact.
\<close>

section \<open>Subscriptions\<close>

record sub_row =
  sb_identity :: string
  sb_total_ep :: int
  sb_total :: int
  sb_current :: int
  sb_lack :: int
  sb_state :: string
  sb_season :: string
  sb_profile :: string
  sb_name :: "string option"
  sb_year :: "string option"
  sb_poster :: "string option"
  sb_provider :: "string option"
  sb_user :: "int option"

text \<open>The tables of subscriptions to series and films, and the identities in the history of finished subscriptions.\<close>

record sub_tables =
  su_tvs :: "sub_row list"
  su_movies :: "sub_row list"
  su_history :: "string list"

definition sub_lack :: "int \<Rightarrow> sub_row \<Rightarrow> int" where
  "sub_lack all_eps s = (if all_eps \<noteq> 0 \<and> 0 < sb_current s \<and> sb_current s \<le> all_eps then max 0 (all_eps - sb_current s + 1) else sb_lack s)"

definition sub_value :: "sub_row \<Rightarrow> int \<times> string \<times> int" where
  "sub_value s =
     (let all_eps = (if sb_total s \<noteq> 0 then sb_total s else sb_total_ep s)
      in (all_eps, sb_state s, max 0 (all_eps - sub_lack all_eps s)))"

definition subscription_map :: "string list \<Rightarrow> sub_row list \<Rightarrow> (string, int \<times> string \<times> int) dict" where
  "subscription_map ids rows =
     fold (\<lambda>s m. if sb_identity s = [] then m
        else case dget m (sb_identity s) of
               None \<Rightarrow> dput (sb_identity s) (sub_value s) m
             | Some previous \<Rightarrow> if fst (sub_value s) > fst previous then dput (sb_identity s) (sub_value s) m else m)
       (filter (\<lambda>s. sb_identity s \<in> set ids) rows) []"

definition active_subscription_identities :: "string list \<Rightarrow> sub_tables \<Rightarrow> string list" where
  "active_subscription_identities ids su =
     filter (\<lambda>i. i \<noteq> [] \<and> i \<in> set ids) (map sb_identity (su_tvs su @ su_movies su))"

definition completed_subscription_identities :: "string list \<Rightarrow> sub_tables \<Rightarrow> string list" where
  "completed_subscription_identities ids su = filter (\<lambda>i. i \<noteq> [] \<and> i \<in> set ids) (su_history su)"

definition cancelled_subscription_identities :: "string list \<Rightarrow> lc_event list \<Rightarrow> string list" where
  "cancelled_subscription_identities ids events =
     (let latest = fold (\<lambda>e m. if ev_identity e = [] then m else dput (ev_identity e) (ev_type e) m)
            (filter (\<lambda>e. ev_identity e \<in> set ids \<and>
               ev_type e \<in> {''search.started'', ''subscribe.cancelled'', ''subscribe.completed''}) events) []
      in map fst (filter (\<lambda>p. snd p = ''subscribe.cancelled'') latest))"

section \<open>Groups\<close>

record lc_group =
  lg_id :: int
  lg_identity :: string
  lg_season :: int
  lg_episode :: int
  lg_row :: lc_row
  lg_active :: string
  lg_count :: int
  lg_completed :: int
  lg_in_library :: int
  lg_subscribed :: "int option"
  lg_activity :: "int option"

type_synonym numbered = "int \<times> lc_key \<times> lc_row"

definition numbered_rows :: "lc_state \<Rightarrow> numbered list" where
  "numbered_rows st = zip (map int [1..<Suc (length (lf_rows st))]) (lf_rows st)"

definition row_of :: "numbered \<Rightarrow> lc_row" where
  "row_of n = snd (snd n)"

definition episode_of :: "numbered \<Rightarrow> int" where
  "episode_of n = snd (snd (fst (snd n)))"

definition season_of :: "numbered \<Rightarrow> int" where
  "season_of n = fst (snd (fst (snd n)))"

text \<open>\<open>max\<close> with a key answers the first of the largest.\<close>

fun max_first :: "('a \<Rightarrow> int) \<Rightarrow> 'a \<Rightarrow> 'a list \<Rightarrow> 'a" where
  "max_first f best [] = best"
| "max_first f best (x # xs) = max_first f (if f best < f x then x else best) xs"

definition status_priority :: "string \<Rightarrow> int" where
  "status_priority s =
     (if s = status_value StSucceeded then 0 else if s = status_value StCancelled then 1
      else if s = status_value StQueued then 2 else if s = status_value StRetrying then 3
      else if s = status_value StRunning then 4 else if s = status_value StBlocked then 5
      else if s = status_value StFailed then 6 else if s = status_value StDead then 7 else 0)"

definition in_progress :: "string \<Rightarrow> bool" where
  "in_progress s \<longleftrightarrow> s \<in> {status_value StQueued, status_value StRunning, status_value StRetrying}"

definition lc_rank :: "numbered \<Rightarrow> int" where
  "lc_rank n = stage_rank (lc_stage (row_of n))"

text \<open>The rows that say how far a work is: those of its episodes, or all when there are none.\<close>

definition state_items :: "numbered list \<Rightarrow> numbered list" where
  "state_items items = (let eps = filter (\<lambda>n. episode_of n > 0) items in if eps \<noteq> [] then eps else items)"

definition group_stage :: "numbered list \<Rightarrow> string" where
  "group_stage items = lc_stage (row_of (max_first lc_rank (hd items) (tl items)))"

definition group_status :: "numbered list \<Rightarrow> string" where
  "group_status items =
     (let status = lc_status (row_of (max_first (\<lambda>n. status_priority (lc_status (row_of n))) (hd items) (tl items)))
      in if status = status_value StSucceeded \<and> group_stage items \<notin> {stage_value Scraped, stage_value InLibrary}
         then status_value StRunning else status)"

definition library_count :: "numbered list \<Rightarrow> int" where
  "library_count items = int (length (filter (\<lambda>n. in_library (row_of n)) items))"

definition active_stage :: "numbered list \<Rightarrow> string" where
  "active_stage items =
     (let active = filter (\<lambda>n. in_progress (lc_status (row_of n)) \<and> lc_rank n \<ge> stage_rank (stage_value DownloadQueued)) items
      in if active \<noteq> [] then group_stage active else [])"

definition group_provider :: "numbered list \<Rightarrow> string option \<Rightarrow> string option" where
  "group_provider items preset =
     (let providers = filter (\<lambda>p. p \<notin> {None, Some [], Some ''content_id''}) (map (\<lambda>n. lc_provider (row_of n)) items)
      in if providers \<noteq> [] then hd providers else preset)"

definition group_items :: "numbered \<Rightarrow> numbered list \<Rightarrow> lc_group" where
  "group_items first rest =
     (let items = first # rest;
          rep = max_first (\<lambda>n. lc_last (row_of n)) first rest;
          eps = filter (\<lambda>n. episode_of n > 0) items;
          state = state_items items
      in \<lparr>lg_id = fst rep, lg_identity = fst (fst (snd rep)),
          lg_season = (if eps \<noteq> [] then Max (set (map season_of eps)) else season_of rep),
          lg_episode = (if eps \<noteq> [] then Max (set (map episode_of eps)) else episode_of rep),
          lg_row = (row_of rep)\<lparr>lc_stage := group_stage state, lc_status := group_status state,
            lc_provider := group_provider state (lc_provider (row_of rep)),
            lc_started := Max (set (map (\<lambda>n. lc_started (row_of n)) items)),
            lc_last := Max (set (map (\<lambda>n. lc_last (row_of n)) items)),
            lc_progress := Some (library_count state * 100 div int (length state))\<rparr>,
          lg_active = active_stage state, lg_count = int (length state), lg_completed = library_count state,
          lg_in_library = library_count state, lg_subscribed = None, lg_activity = None\<rparr>)"

definition by_identity :: "numbered list \<Rightarrow> (string, numbered list) dict" where
  "by_identity rows = fold (\<lambda>n d. dput (fst (fst (snd n))) (get_or d (fst (fst (snd n))) [] @ [n]) d) rows []"

definition group_lifecycle_rows :: "numbered list \<Rightarrow> lc_group list" where
  "group_lifecycle_rows rows =
     sort_key (\<lambda>g. - lc_last (lg_row g)) (map (\<lambda>(_, items). group_items (hd items) (tl items)) (by_identity rows))"

section \<open>The state of the subscription\<close>

definition set_status :: "string \<Rightarrow> lc_group \<Rightarrow> lc_group" where
  "set_status s g = g\<lparr>lg_row := (lg_row g)\<lparr>lc_status := s\<rparr>\<rparr>"

definition set_stage_status :: "string \<Rightarrow> string \<Rightarrow> lc_group \<Rightarrow> lc_group" where
  "set_stage_status stage s g = g\<lparr>lg_row := (lg_row g)\<lparr>lc_stage := stage, lc_status := s\<rparr>\<rparr>"

definition count_episodes :: "int \<Rightarrow> int \<Rightarrow> lc_group \<Rightarrow> lc_group" where
  "count_episodes all_eps subscribed g =
     (if all_eps > 0 then
        (let completed = min all_eps (lg_completed g)
         in g\<lparr>lg_count := max (lg_count g) all_eps, lg_completed := completed, lg_subscribed := Some (min all_eps subscribed),
              lg_row := (lg_row g)\<lparr>lc_progress := Some (round_half_even (of_int (completed * 100) / of_int all_eps))\<rparr>\<rparr>)
      else g)"

definition overlay ::
  "(string, int \<times> string \<times> int) dict \<Rightarrow> string list \<Rightarrow> string list \<Rightarrow> string list \<Rightarrow> lc_group \<Rightarrow> lc_group" where
  "overlay subs active completed cancelled g =
     (let i = lg_identity g; stage = lc_stage (lg_row g); status = lc_status (lg_row g)
      in if i \<notin> set active \<and> i \<in> set cancelled \<and> stage \<noteq> stage_value InLibrary then set_status (status_value StCancelled) g
         else case dget subs i of
           None \<Rightarrow>
             if i \<notin> set active \<and> i \<notin> set completed \<and> stage \<in> {stage_value Subscribed, stage_value Searching} \<and> in_progress status
             then set_status (status_value StCancelled) g else g
         | Some (all_eps, state, subscribed) \<Rightarrow>
             let g1 = count_episodes all_eps subscribed g;
                 running = (if state = ''D'' then ''queued'' else ''running'')
             in if state \<in> {''D'', ''S'', ''R''} then
                  (if lg_active g1 \<noteq> [] then set_stage_status (lg_active g1) running g1
                   else if stage \<notin> {stage_value Scraped, stage_value InLibrary} then set_stage_status (stage_value Subscribed) running g1
                   else if status = status_value StSucceeded then set_status running g1 else g1)
                else if state = ''E'' then set_status ''failed'' g1
                else if state = ''N'' then set_status ''cancelled'' g1 else g1)"

definition apply_subscription_state :: "string list \<Rightarrow> sub_tables \<Rightarrow> lc_state \<Rightarrow> lc_group list \<Rightarrow> lc_group list" where
  "apply_subscription_state ids su st groups =
     map (overlay (subscription_map ids (su_tvs su)) (active_subscription_identities ids su)
            (completed_subscription_identities ids su) (cancelled_subscription_identities ids (lf_events st))) groups"

definition get_grouped_identity :: "string \<Rightarrow> sub_tables \<Rightarrow> lc_state \<Rightarrow> lc_group option" where
  "get_grouped_identity identity su st =
     (let grouped = group_lifecycle_rows (filter (\<lambda>n. fst (fst (snd n)) = identity) (numbered_rows st))
      in if grouped = [] then None else Some (hd (apply_subscription_state [identity] su st grouped)))"

text \<open>\<open>re.search(r"\d+", text)\<close> as a number.\<close>

definition first_number :: "string \<Rightarrow> int" where
  "first_number t =
     (let ds = takeWhile is_digit (dropWhile (\<lambda>c. \<not> is_digit c) t)
      in if ds = [] then 0 else int (digits_val (map digit_of ds)))"

definition active_subscription_items :: "int \<Rightarrow> sub_tables \<Rightarrow> string list \<Rightarrow> lc_group list" where
  "active_subscription_items now su existing =
     (let item = (\<lambda>(s, default_type).
            let all_eps = (if sb_total s \<noteq> 0 then sb_total s else sb_total_ep s);
                completed = (if all_eps \<noteq> 0 then max 0 (all_eps - sub_lack all_eps s) else 0);
                profile = (if sb_profile s = [] then ''default'' else sb_profile s);
                row = \<lparr>lc_series = None, lc_media_type = (if profile = ''anime'' then ''anime'' else default_type), lc_title = sb_name s,
                  lc_year = sb_year s, lc_poster = sb_poster s,
                  lc_stage = stage_value (if sb_state s = ''S'' then Searching else Subscribed),
                  lc_status = (if sb_state s = ''D'' then ''queued'' else ''running''), lc_run = None, lc_trace = None,
                  lc_progress = Some (if all_eps \<noteq> 0 then round_half_even (of_int (completed * 100) / of_int all_eps) else 0),
                  lc_provider = sb_provider s, lc_profile = Some profile, lc_user = sb_user s, lc_started = now, lc_last = now,
                  lc_retry_at = None, lc_retries = 0, lc_error = None\<rparr>
            in \<lparr>lg_id = 0, lg_identity = sb_identity s, lg_season = first_number (sb_season s), lg_episode = 0, lg_row = row,
                lg_active = [], lg_count = (if all_eps \<noteq> 0 then all_eps else if default_type = ''movie'' then 1 else 0),
                lg_completed = completed, lg_in_library = completed, lg_subscribed = Some completed, lg_activity = Some now\<rparr>)
      in map item (filter (\<lambda>(s, _). sb_state s \<in> {''D'', ''S'', ''R''} \<and> sb_identity s \<noteq> [] \<and> sb_identity s \<notin> set existing)
           (map (\<lambda>s. (s, ''tv'')) (su_tvs su) @ map (\<lambda>s. (s, ''movie'')) (su_movies su))))"

section \<open>Queries\<close>

definition shown_rows :: "lc_state \<Rightarrow> numbered list" where
  "shown_rows st = filter (\<lambda>n. fst (fst (snd n)) \<noteq> ''preview'') (numbered_rows st)"

definition identities_of :: "numbered list \<Rightarrow> string list" where
  "identities_of rows = remdups (map (\<lambda>n. fst (fst (snd n))) rows)"

definition count_by :: "('a \<Rightarrow> string) \<Rightarrow> 'a list \<Rightarrow> (string, int) dict" where
  "count_by f xs = fold (\<lambda>x d. dput (f x) (get_or d (f x) 0 + 1) d) xs []"

record lc_stats =
  ls_total :: int
  ls_status :: "(string, int) dict"
  ls_stage :: "(string, int) dict"

definition all_groups :: "int \<Rightarrow> sub_tables \<Rightarrow> lc_state \<Rightarrow> lc_group list" where
  "all_groups now su st =
     (let rows = shown_rows st;
          grouped = apply_subscription_state (identities_of rows) su st (group_lifecycle_rows rows)
      in grouped @ active_subscription_items now su (map lg_identity grouped))"

definition stats_grouped :: "int \<Rightarrow> sub_tables \<Rightarrow> lc_state \<Rightarrow> lc_stats" where
  "stats_grouped now su st =
     (let groups = all_groups now su st
      in \<lparr>ls_total = int (length groups), ls_status = count_by (\<lambda>g. lc_status (lg_row g)) groups,
          ls_stage = count_by (\<lambda>g. lc_stage (lg_row g)) groups\<rparr>)"

text \<open>The newest event of each identity, leaving out those whose time is that of a scan.\<close>

definition activities :: "string list \<Rightarrow> lc_event list \<Rightarrow> (string, int) dict" where
  "activities ids events =
     fold (\<lambda>e d. case dget d (ev_identity e) of
              None \<Rightarrow> dput (ev_identity e) (ev_time e) d
            | Some t \<Rightarrow> if ev_time e > t then dput (ev_identity e) (ev_time e) d else d)
       (filter (\<lambda>e. ev_identity e \<in> set ids \<and> ev_type e \<notin> {''reconcile.library.present'', ''reconcile.scrape.completed''}) events) []"

text \<open>The filters of a listing; an empty text is no filter.\<close>

record lc_filter =
  lq_stage :: string
  lq_status :: string
  lq_media :: string
  lq_keyword :: string

definition page_of :: "int \<Rightarrow> int \<Rightarrow> 'a list \<Rightarrow> 'a list" where
  "page_of page pagenum xs = take (nat (max 1 pagenum)) (drop (nat ((max 1 page - 1) * max 1 pagenum)) xs)"

text \<open>The order of the listing: by activity, none being the oldest, then by id, the largest first.\<close>

definition listing_before :: "lc_group \<Rightarrow> lc_group \<Rightarrow> bool" where
  "listing_before a b \<longleftrightarrow>
     (case (lg_activity a, lg_activity b) of
        (None, None) \<Rightarrow> lg_id a > lg_id b
      | (Some _, None) \<Rightarrow> True
      | (None, Some _) \<Rightarrow> False
      | (Some x, Some y) \<Rightarrow> x > y \<or> x = y \<and> lg_id a > lg_id b)"

fun insert_listing :: "lc_group \<Rightarrow> lc_group list \<Rightarrow> lc_group list" where
  "insert_listing g [] = [g]"
| "insert_listing g (h # hs) = (if listing_before h g then h # insert_listing g hs else g # h # hs)"

definition sort_listing :: "lc_group list \<Rightarrow> lc_group list" where
  "sort_listing gs = foldr insert_listing gs []"

definition listed_groups ::
  "(string \<Rightarrow> string option \<Rightarrow> bool) \<Rightarrow> int \<Rightarrow> lc_filter \<Rightarrow> sub_tables \<Rightarrow> lc_state \<Rightarrow> lc_group list" where
  "listed_groups ilike now q su st =
     (let rows = filter (\<lambda>n. (lq_media q = [] \<or> lc_media_type (row_of n) = lq_media q) \<and>
            (lq_keyword q = [] \<or> ilike (lq_keyword q) (lc_title (row_of n)))) (shown_rows st);
          ordered = sort_key (\<lambda>n. - lc_last (row_of n)) (rev rows);
          ids = identities_of ordered;
          activity = activities ids (lf_events st);
          grouped = apply_subscription_state ids su st
            (map (\<lambda>g. g\<lparr>lg_activity := dget activity (lg_identity g)\<rparr>) (group_lifecycle_rows ordered));
          added = active_subscription_items now su (map lg_identity grouped);
          key = lower (strip (lq_keyword q));
          added' = (if lq_keyword q = [] then added else filter (\<lambda>g. contains (lower (opt_text (lc_title (lg_row g)))) key) added)
      in filter (\<lambda>g. (lq_stage q = [] \<or> lc_stage (lg_row g) = lq_stage q) \<and>
           (lq_status q = [] \<or> lc_status (lg_row g) = lq_status q)) (sort_listing (grouped @ added')))"

definition list_grouped ::
  "(string \<Rightarrow> string option \<Rightarrow> bool) \<Rightarrow> int \<Rightarrow> lc_filter \<Rightarrow> int \<Rightarrow> int \<Rightarrow> sub_tables \<Rightarrow> lc_state \<Rightarrow> lc_group list \<times> int" where
  "list_grouped ilike now q page pagenum su st =
     (let groups = listed_groups ilike now q su st in (page_of page pagenum groups, int (length groups)))"

definition list_current ::
  "(string \<Rightarrow> string option \<Rightarrow> bool) \<Rightarrow> lc_filter \<Rightarrow> int \<Rightarrow> int \<Rightarrow> lc_state \<Rightarrow> numbered list \<times> int" where
  "list_current ilike q page pagenum st =
     (let rows = filter (\<lambda>n. (lq_stage q = [] \<or> lc_stage (row_of n) = lq_stage q) \<and>
            (lq_status q = [] \<or> lc_status (row_of n) = lq_status q) \<and> (lq_media q = [] \<or> lc_media_type (row_of n) = lq_media q) \<and>
            (lq_keyword q = [] \<or> ilike (lq_keyword q) (lc_title (row_of n)))) (numbered_rows st)
      in (page_of page pagenum (sort_key (\<lambda>n. - lc_last (row_of n)) (rev rows)), int (length rows)))"

definition stats_current :: "lc_state \<Rightarrow> lc_stats" where
  "stats_current st =
     (let rows = map snd (lf_rows st); by_status = count_by lc_status rows
      in \<lparr>ls_total = sum_list (map snd by_status), ls_status = by_status, ls_stage = count_by lc_stage rows\<rparr>)"

definition list_stale_running :: "int \<Rightarrow> int \<Rightarrow> lc_state \<Rightarrow> numbered list" where
  "list_stale_running before limit st =
     take (nat (max 1 limit)) (sort_key (\<lambda>n. lc_last (row_of n))
       (filter (\<lambda>n. in_progress (lc_status (row_of n)) \<and>
          lc_stage (row_of n) \<in> stage_value ` {DownloadQueued, Downloading, TransferQueued, Transferring, ScrapeQueued, Scraping} \<and>
          lc_last (row_of n) < before) (shown_rows st)))"

definition list_blocked_downloads :: "int \<Rightarrow> lc_state \<Rightarrow> numbered list" where
  "list_blocked_downloads limit st =
     take (nat (max 1 limit)) (sort_key (\<lambda>n. lc_last (row_of n))
       (filter (\<lambda>n. lc_status (row_of n) = status_value StBlocked \<and>
          lc_stage (row_of n) \<in> stage_value ` {DownloadQueued, Downloading}) (shown_rows st)))"

definition latest_event :: "string \<Rightarrow> int option \<Rightarrow> int option \<Rightarrow> lc_state \<Rightarrow> lc_event option" where
  "latest_event identity season episode st =
     (case filter (\<lambda>e. ev_identity e = identity \<and> (season = None \<or> season = Some (ev_season e)) \<and>
             (episode = None \<or> episode = Some (ev_episode e))) (lf_events st) of
        [] \<Rightarrow> None
      | e # es \<Rightarrow> Some (max_first ev_time (last (e # es)) (rev (butlast (e # es)))))"

definition list_events :: "string \<Rightarrow> int \<Rightarrow> int \<Rightarrow> int \<Rightarrow> int option \<Rightarrow> lc_state \<Rightarrow> lc_event list" where
  "list_events identity season episode limit upto_time st =
     take (nat (max 1 (min 1000 limit))) (sort_key ev_time
       (filter (\<lambda>e. event_item e = (identity, season, episode) \<and>
          (case upto_time of None \<Rightarrow> True | Some t \<Rightarrow> ev_time e \<le> t)) (lf_events st)))"

definition list_identity_rows :: "string \<Rightarrow> lc_state \<Rightarrow> numbered list" where
  "list_identity_rows identity st =
     sort_key season_of (sort_key episode_of (filter (\<lambda>n. fst (fst (snd n)) = identity) (numbered_rows st)))"

text \<open>\<open>update_metadata\<close>: the rows of a work, of one season or of one episode; a text that is not given stays.\<close>

definition update_metadata ::
  "string \<Rightarrow> string option \<Rightarrow> string option \<Rightarrow> string option \<Rightarrow> string option \<Rightarrow> int \<Rightarrow> int \<Rightarrow> lc_state \<Rightarrow> int \<times> lc_state" where
  "update_metadata identity title year poster provider season episode st =
     (let concerned = (\<lambda>k. fst k = identity \<and> (season = 0 \<or> fst (snd k) = season) \<and> (episode = 0 \<or> snd (snd k) = episode));
          given = (\<lambda>t. opt_text t \<noteq> [])
      in if \<not> given title \<and> \<not> given year \<and> \<not> given poster \<and> \<not> given provider then (0, st)
         else (int (length (filter (\<lambda>(k, _). concerned k) (lf_rows st))),
           st\<lparr>lf_rows := map (\<lambda>(k, r). (k, if concerned k then r\<lparr>lc_title := or_keep title (lc_title r), lc_year := or_keep year (lc_year r),
               lc_poster := or_keep poster (lc_poster r), lc_provider := or_keep provider (lc_provider r)\<rparr> else r)) (lf_rows st)\<rparr>))"

end
