(* ===== verification/LifecycleViewProofs.thy ===== *)
theory LifecycleViewProofs
  imports LifecycleView LifecycleProofs
begin

text \<open>
  What the view of a work shows: its counts and its progress are those of its rows, the pages of a listing are the listing,
  the numbers of the statistics add up; and a finding on the stage and status of a group.
\<close>

section \<open>The first of the largest\<close>

lemma max_first_mem: "max_first f best xs \<in> set (best # xs)"
proof (induction xs arbitrary: best)
  case (Cons x xs)
  show ?case using Cons.IH [of "if f best < f x then x else best"] by (auto split: if_splits)
qed simp

lemma max_first_ge: "x \<in> set (best # xs) \<Longrightarrow> f x \<le> f (max_first f best xs)"
proof (induction xs arbitrary: best x)
  case (Cons y ys)
  have b: "f (if f best < f y then y else best) \<le> f (max_first f best (y # ys))" using Cons.IH by simp
  show ?case
  proof (cases "x \<in> set ys")
    case True
    then show ?thesis using Cons.IH by simp
  next
    case False
    with Cons.prems b show ?thesis by (auto split: if_splits)
  qed
qed simp

section \<open>Counts and progress\<close>

lemma state_items_nonempty: "items \<noteq> [] \<Longrightarrow> state_items items \<noteq> []"
  by (simp add: state_items_def Let_def)

lemma group_items_row:
  "lc_progress (lg_row (group_items first rest)) =
     Some (library_count (state_items (first # rest)) * 100 div int (length (state_items (first # rest))))"
  "lg_count (group_items first rest) = int (length (state_items (first # rest)))"
  "lg_completed (group_items first rest) = library_count (state_items (first # rest))"
  "lc_stage (lg_row (group_items first rest)) = group_stage (state_items (first # rest))"
  "lc_status (lg_row (group_items first rest)) = group_status (state_items (first # rest))"
  by (simp_all add: group_items_def Let_def)

lemma percentage:
  fixes k n :: int
  assumes "0 \<le> k" and "k \<le> n" and "0 < n"
  shows "0 \<le> k * 100 div n" and "k * 100 div n \<le> 100" and "k * 100 div n = 100 \<longleftrightarrow> k = n"
proof -
  show "0 \<le> k * 100 div n" using assms by (simp add: pos_imp_zdiv_nonneg_iff)
  have "k * 100 div n \<le> n * 100 div n" using assms by (intro zdiv_mono1) auto
  then show "k * 100 div n \<le> 100" using assms by simp
  show "k * 100 div n = 100 \<longleftrightarrow> k = n"
  proof
    assume d: "k * 100 div n = 100"
    have "100 * n + k * 100 mod n = k * 100" using div_mult_mod_eq [of "k * 100" n] unfolding d .
    moreover have "0 \<le> k * 100 mod n" using assms(3) by simp
    ultimately have "100 * n \<le> k * 100" by linarith
    with assms show "k = n" by simp
  qed (use assms in simp)
qed

text \<open>The progress of a group is a percentage, and 100 exactly when each of its episodes, or its row when it has none, is in
  the library.\<close>

theorem group_progress:
  "\<exists>p. lc_progress (lg_row (group_items first rest)) = Some p \<and> 0 \<le> p \<and> p \<le> 100 \<and>
    lg_completed (group_items first rest) \<le> lg_count (group_items first rest) \<and>
    (p = 100 \<longleftrightarrow> list_all (\<lambda>n. in_library (row_of n)) (state_items (first # rest)))"
proof -
  let ?s = "state_items (first # rest)" and ?lib = "\<lambda>n. in_library (row_of n)"
  let ?k = "int (length (filter ?lib ?s))" and ?n = "int (length ?s)"
  have n: "0 \<le> ?k" "?k \<le> ?n" "0 < ?n" using state_items_nonempty [of "first # rest"] by auto
  have "filter ?lib ?s = ?s \<longleftrightarrow> length (filter ?lib ?s) = length ?s" by (metis length_filter_less filter_id_conv less_irrefl)
  then have "?k = ?n \<longleftrightarrow> list_all ?lib ?s" by (auto simp: list_all_iff filter_id_conv)
  then show ?thesis using percentage [OF n] n(2) by (simp add: group_items_row library_count_def)
qed

section \<open>Pages\<close>

lemma pages_concat:
  assumes "0 < n"
  shows "concat (map (\<lambda>i. take n (drop (i * n) xs)) [0..<k]) = take (k * n) xs"
proof (induction k)
  case (Suc k)
  have "take (k * n) xs @ take n (drop (k * n) xs) = take (k * n + n) xs" by (simp add: take_add)
  with Suc show ?case by (simp add: add.commute)
qed simp

text \<open>The pages of a listing, one after the other, are the listing: no work is left out or shown twice, and the number that
  comes with each page is that of all works.\<close>

theorem pages_are_listing:
  assumes "0 < n" and "length (listed_groups ilike now q su st) \<le> k * n"
  shows "concat (map (\<lambda>i. fst (list_grouped ilike now q (int i + 1) (int n) su st)) [0..<k]) = listed_groups ilike now q su st \<and>
    (\<forall>i. snd (list_grouped ilike now q i (int n) su st) = int (length (listed_groups ilike now q su st)))"
proof -
  let ?xs = "listed_groups ilike now q su st"
  have m: "max 1 (int n) = int n" using assms(1) by simp
  have "fst (list_grouped ilike now q (int i + 1) (int n) su st) = take n (drop (i * n) ?xs)" for i
    by (simp add: list_grouped_def page_of_def m nat_mult_distrib Let_def)
  with pages_concat [OF assms(1), of ?xs k] assms(2) show ?thesis by (simp add: list_grouped_def Let_def)
qed

section \<open>Statistics\<close>

lemma sum_dput:
  fixes d :: "(string, int) dict"
  shows "sum_list (map snd (dput k (get_or d k 0 + 1) d)) = sum_list (map snd d) + 1"
  by (induction d) (auto simp: get_or_def)

lemma sum_count_by: "sum_list (map snd (count_by f xs)) = int (length xs)"
proof -
  have "sum_list (map snd (fold (\<lambda>x d. dput (f x) (get_or d (f x) 0 + 1) d) xs d)) = sum_list (map snd d) + int (length xs)"
    for d :: "(string, int) dict"
    by (induction xs arbitrary: d) (simp_all add: sum_dput)
  from this [of "[]"] show ?thesis by (simp add: count_by_def)
qed

lemma stats_add_up:
  "sum_list (map snd (ls_status (stats_grouped now su st))) = ls_total (stats_grouped now su st)"
  "sum_list (map snd (ls_stage (stats_grouped now su st))) = ls_total (stats_grouped now su st)"
  by (simp_all add: stats_grouped_def Let_def sum_count_by)

section \<open>One work\<close>

lemma by_identity_single:
  assumes "\<forall>n \<in> set rows. fst (fst (snd n)) = i" and "rows \<noteq> []"
  shows "by_identity rows = [(i, rows)]"
proof -
  have f: "(\<forall>n \<in> set ns. fst (fst (snd n)) = i) \<Longrightarrow>
      fold (\<lambda>n d. dput (fst (fst (snd n))) (get_or d (fst (fst (snd n))) [] @ [n]) d) ns [(i, acc)] = [(i, acc @ ns)]" for ns acc
    by (induction ns arbitrary: acc) (simp_all add: get_or_def)
  obtain a as where r: "rows = a # as" using assms(2) by (cases rows) auto
  with f [of as "[a]"] assms(1) show ?thesis by (simp add: by_identity_def get_or_def)
qed

lemma group_of_work:
  assumes "filter (\<lambda>n. fst (fst (snd n)) = i) (numbered_rows st) = first # rest"
  shows "group_lifecycle_rows (first # rest) = [group_items first rest]"
proof -
  have "\<forall>n \<in> set (first # rest). fst (fst (snd n)) = i"
    unfolding assms [symmetric] by simp
  from by_identity_single [OF this] show ?thesis by (simp add: group_lifecycle_rows_def)
qed

lemma rank_in_library: "lc_rank n \<le> 12"
proof (cases "stage_of (lc_stage (row_of n))")
  case (Some s)
  have "stage_index s \<le> 12" by (cases s) (simp_all add: stage_index_def all_stages_def)
  with Some show ?thesis by (simp add: lc_rank_def stage_rank_def)
qed (simp add: lc_rank_def stage_rank_def)

lemma stage_in_library: "lc_rank n = 12 \<longleftrightarrow> lc_stage (row_of n) = stage_value InLibrary"
proof
  assume r: "lc_rank n = 12"
  then obtain s where s: "stage_of (lc_stage (row_of n)) = Some s" by (cases "stage_of (lc_stage (row_of n))") (auto simp: lc_rank_def stage_rank_def)
  with r have "stage_index s = 12" by (simp add: lc_rank_def stage_rank_def)
  then have "s = InLibrary" by (cases s) (simp_all add: stage_index_def all_stages_def)
  with stage_of_Some [OF s] show "lc_stage (row_of n) = stage_value InLibrary" by simp
next
  assume "lc_stage (row_of n) = stage_value InLibrary"
  then show "lc_rank n = 12" using stage_rank_value [of InLibrary] by (simp add: lc_rank_def stage_index_def all_stages_def)
qed

text \<open>A group in which every episode has succeeded at its stage and one is in the library is shown as in the library.\<close>

text \<open>The state of the subscription never puts a work into the library.\<close>

lemma overlay_library:
  assumes "in_library (lg_row (overlay subs active completed cancelled g))"
  shows "in_library (lg_row g)"
proof -
  have st: "in_library (lg_row (set_status s g)) \<Longrightarrow> s = ''succeeded''"
    "in_library (lg_row (set_stage_status stage s g)) \<Longrightarrow> s = ''succeeded''" for s stage g
    by (simp_all add: set_status_def set_stage_status_def in_library_def)
  have c: "in_library (lg_row (count_episodes n k g)) = in_library (lg_row g)" for n k
    by (simp add: count_episodes_def in_library_def Let_def)
  show ?thesis using assms
    by (auto simp: overlay_def Let_def c split: if_splits option.splits prod.splits dest!: st)
qed

text \<open>The code gives no priority to a paused item, which then ranks with the succeeded ones.\<close>

lemma status_priority_min:
  assumes "status_of s \<noteq> None" and "status_priority s \<le> 0"
  shows "s = status_value StSucceeded \<or> s = status_value StPaused"
proof -
  obtain x where "s = status_value x" using assms(1) status_of_Some by blast
  with assms(2) show ?thesis by (cases x) (simp_all add: status_priority_def)
qed

text \<open>A work in the library has a row there, and all the rows that count have succeeded or are paused.\<close>

lemma group_in_library:
  assumes lib: "in_library (lg_row (group_items first rest))"
    and typed: "\<And>n. n \<in> set (first # rest) \<Longrightarrow> status_of (lc_status (row_of n)) \<noteq> None"
  shows "\<forall>n \<in> set (state_items (first # rest)). lc_status (row_of n) \<in> {status_value StSucceeded, status_value StPaused}"
    and "\<exists>n \<in> set (state_items (first # rest)). lc_stage (row_of n) = stage_value InLibrary"
proof -
  let ?s = "state_items (first # rest)" and ?p = "\<lambda>n. status_priority (lc_status (row_of n))"
  have s: "?s = hd ?s # tl ?s" using state_items_nonempty [of "first # rest"] by simp
  have sub: "set ?s \<subseteq> set (first # rest)" by (auto simp: state_items_def Let_def)
  have stage: "group_stage ?s = stage_value InLibrary" and status: "group_status ?s = status_value StSucceeded"
    using lib by (simp_all add: in_library_def group_items_row(4,5) del: stage_value.simps status_value.simps)
  have "status_value StRunning \<noteq> status_value StSucceeded" by simp
  then have top: "lc_status (row_of (max_first ?p (hd ?s) (tl ?s))) = status_value StSucceeded"
    using status by (auto simp: group_status_def Let_def simp del: status_value.simps stage_value.simps split: if_splits)
  have "?p n \<le> 0" if "n \<in> set ?s" for n
    using max_first_ge [of n "hd ?s" "tl ?s" ?p] that s top by (simp add: status_priority_def)
  then show "\<forall>n \<in> set ?s. lc_status (row_of n) \<in> {status_value StSucceeded, status_value StPaused}"
    using typed sub status_priority_min by blast
  have "max_first lc_rank (hd ?s) (tl ?s) \<in> set ?s" using max_first_mem [of lc_rank "hd ?s" "tl ?s"] s by simp
  moreover have "lc_stage (row_of (max_first lc_rank (hd ?s) (tl ?s))) = stage_value InLibrary"
    using stage by (simp add: group_stage_def del: stage_value.simps)
  ultimately show "\<exists>n \<in> set ?s. lc_stage (row_of n) = stage_value InLibrary" by blast
qed

lemma one_in_library:
  assumes "\<forall>n \<in> set (state_items (first # rest)). lc_status (row_of n) = status_value StSucceeded"
    and "x \<in> set (state_items (first # rest))" and "in_library (row_of x)"
  shows "in_library (lg_row (group_items first rest))"
proof -
  let ?s = "state_items (first # rest)"
  have s: "?s = hd ?s # tl ?s" using state_items_nonempty [of "first # rest"] by simp
  let ?m = "max_first lc_rank (hd ?s) (tl ?s)"
  have "lc_rank x = 12" using assms(3) by (simp add: stage_in_library in_library_def)
  then have "lc_rank ?m = 12" using max_first_ge [of x "hd ?s" "tl ?s" lc_rank] assms(2) s rank_in_library [of ?m] by simp
  then have stage: "lc_stage (lg_row (group_items first rest)) = stage_value InLibrary"
    by (simp add: group_items_row(4) group_stage_def stage_in_library del: stage_value.simps)
  have "max_first (\<lambda>n. status_priority (lc_status (row_of n))) (hd ?s) (tl ?s) \<in> set ?s"
    using max_first_mem [of _ "hd ?s" "tl ?s"] s by simp
  then have "lc_status (lg_row (group_items first rest)) = status_value StSucceeded"
    using assms(1) stage by (simp add: group_items_row(4,5) group_status_def Let_def)
  with stage show ?thesis by (simp add: in_library_def)
qed

section \<open>Examples\<close>

definition shelf :: lc_state where
  "shelf = \<lparr>lf_rows = [((''a'', 0, 0), demo_snapshot InLibrary 4), ((''b'', 0, 0), demo_snapshot Downloaded 5)], lf_events = []\<rparr>"

theorem pages_are_listing_witness:
  "concat (map (\<lambda>i. fst (list_grouped (\<lambda>_ _. True) 9 \<lparr>lq_stage = [], lq_status = [], lq_media = [], lq_keyword = []\<rparr> (int i + 1) 1
      \<lparr>su_tvs = [], su_movies = [], su_history = []\<rparr> shelf)) [0..<2]) =
    listed_groups (\<lambda>_ _. True) 9 \<lparr>lq_stage = [], lq_status = [], lq_media = [], lq_keyword = []\<rparr>
      \<lparr>su_tvs = [], su_movies = [], su_history = []\<rparr> shelf"
proof -
  have "length (listed_groups (\<lambda>_ _. True) 9 \<lparr>lq_stage = [], lq_status = [], lq_media = [], lq_keyword = []\<rparr>
      \<lparr>su_tvs = [], su_movies = [], su_history = []\<rparr> shelf) = 2" by code_simp
  then show ?thesis using pages_are_listing [of 1 "\<lambda>_ _. True" 9 _ _ shelf 2] by simp
qed

end
