(* ===== verification/TransferQueue.thy ===== *)
theory TransferQueue
  imports TaskQueue LifecycleView TransferEngine
begin

text \<open>
  Completed downloads and watched files on their way to a transfer (\<open>services/transfer_queue_service.py\<close> and
  \<open>services/transfer_pipeline.py\<close>): a payload is submitted to the task queue of \<open>TaskQueue\<close> unless the item is in the library,
  the worker's handler runs the pipeline over its files, and each step is recorded in the read model of \<open>Lifecycle\<close>.

  Parameters: the transfer of one file (it answers or raises, and changes what the engine of \<open>TransferEngine\<close> changes),
  whether a path is a file, the library paths of the settings, the clients of downloaders, the resolver of identities, which
  may raise, and the clock, read once for each event. Calls of a client are logged. The text of an exception that
  the code does not raise itself is a parameter.
\<close>

section \<open>Skipped transfers\<close>

definition transfer_skip_prefix :: string where
  "transfer_skip_prefix = u8 [0x5b, 0xe8, 0xb7, 0xb3, 0xe8, 0xbf, 0x87, 0x5d]"

definition is_transfer_skip :: "string \<Rightarrow> bool" where
  "is_transfer_skip msg \<longleftrightarrow> msg \<noteq> [] \<and> startswith msg transfer_skip_prefix"

definition strip_skip_prefix :: "string \<Rightarrow> string" where
  "strip_skip_prefix msg = (if is_transfer_skip msg then drop (length transfer_skip_prefix) msg else msg)"

definition skip_message :: "string \<Rightarrow> string" where
  "skip_message msg = transfer_skip_prefix @ strip_skip_prefix msg"

section \<open>The pipeline\<close>

datatype source_type = DirectorySource | DownloaderSource | ManualSource

record transfer_task =
  ta_source :: source_type
  ta_source_id :: string
  ta_files :: "string list"
  ta_operation :: string
  ta_target :: "string option"
  ta_unknown :: pyval
  ta_backend :: string
  ta_provider :: pyval
  ta_media :: pyval
  ta_season :: pyval
  ta_fallback :: pyval

datatype client_op = DeleteTorrent string | MarkTorrent string pyval

record 'w pipe_state =
  pp_engine :: "'w transfer_state"
  pp_scrapes :: "string list"
  pp_client :: "client_op list"
  pp_life :: lc_state

record 'w pipe_env =
  pe_transfer :: "transfer_task \<Rightarrow> string \<Rightarrow> 'w transfer_state \<Rightarrow> (string + bool \<times> string) \<times> 'w transfer_state"
  pe_is_file :: "string \<Rightarrow> 'w transfer_state \<Rightarrow> bool"
  pe_library :: "string list"
  pe_client :: "string \<Rightarrow> bool"
  pe_resolve :: "pydict \<Rightarrow> string option"
  pe_projects :: bool
  pe_lc :: lc_env
  pe_clock :: "nat \<Rightarrow> int"
  pe_subs :: sub_tables
  pe_text :: string

definition valid_operations :: "string list" where
  "valid_operations = [''copy'', ''move'', ''link'', ''softlink'', ''rclone_copy'', ''rclone_move'']"

text \<open>\<open>validate\<close>: the message of the error, if any.\<close>

definition no_files :: string where
  "no_files = u8 [0xe6, 0xb2, 0xa1, 0xe6, 0x9c, 0x89, 0xe5, 0xbe, 0x85, 0xe5, 0xa4, 0x84, 0xe7, 0x90, 0x86, 0xe7, 0x9a, 0x84, 0xe6, 0x96, 0x87, 0xe4, 0xbb, 0xb6]"

definition invalid_operation :: string where
  "invalid_operation = u8 [0xe6, 0x97, 0xa0, 0xe6, 0x95, 0x88, 0xe7, 0x9a, 0x84, 0xe8, 0xbd, 0xac, 0xe7, 0xa7, 0xbb, 0xe6, 0x96, 0xb9, 0xe5, 0xbc, 0x8f, 0xef, 0xbc, 0x9a]"

definition invalid_season :: string where
  "invalid_season = u8 [0xe6, 0x97, 0xa0, 0xe6, 0x95, 0x88, 0xe7, 0x9a, 0x84, 0xe5, 0xad, 0xa3, 0xe5, 0x8f, 0xb7, 0xef, 0xbc, 0x9a]"

definition season_valid :: "pyval \<Rightarrow> bool" where
  "season_valid v = (case v of PNone \<Rightarrow> True | PInt n \<Rightarrow> 0 \<le> n | PBool _ \<Rightarrow> True | _ \<Rightarrow> False)"

definition task_error :: "transfer_task \<Rightarrow> string option" where
  "task_error task =
     (if ta_files task = [] then Some no_files
      else if ta_operation task \<notin> set valid_operations then Some (invalid_operation @ ta_operation task)
      else if \<not> season_valid (ta_season task) then Some (invalid_season @ py_str (\<lambda>_. []) (ta_season task)) else None)"

text \<open>\<open>_resolve_backend\<close> raises when the id is not a number.\<close>

definition resolve_backend :: "string \<Rightarrow> unit option" where
  "resolve_backend i = (if i = [] \<or> i = ''local'' then Some () else map_option (\<lambda>_. ()) (py_int i))"

definition is_media_library_path :: "'w pipe_env \<Rightarrow> string \<Rightarrow> bool" where
  "is_media_library_path pe path \<longleftrightarrow>
     path \<noteq> [] \<and> list_ex (\<lambda>lib. startswith (normpath path @ ''/'') (normpath lib @ ''/'')) (pe_library pe)"

definition scrape_after_transfer :: "'w pipe_env \<Rightarrow> string \<Rightarrow> 'w pipe_state \<Rightarrow> 'w pipe_state" where
  "scrape_after_transfer pe target st =
     (let path = (if pe_is_file pe target (pp_engine st) then dirname target else target)
      in if is_media_library_path pe path then st\<lparr>pp_scrapes := pp_scrapes st @ [path]\<rparr> else st)"

definition process_single ::
  "'w pipe_env \<Rightarrow> transfer_task \<Rightarrow> string \<Rightarrow> 'w pipe_state \<Rightarrow> (string + bool \<times> string) \<times> 'w pipe_state" where
  "process_single pe task path st =
     (case pe_transfer pe task path (pp_engine st) of
        (Inr (True, msg), e) \<Rightarrow>
          let st1 = st\<lparr>pp_engine := blacklist path e\<rparr>
          in (Inr (True, msg),
              if ta_source task = DirectorySource \<and> opt_text (ta_target task) \<noteq> []
              then scrape_after_transfer pe (opt_text (ta_target task)) st1 else st1)
      | (r, e) \<Rightarrow> (r, st\<lparr>pp_engine := e\<rparr>))"

fun process_files ::
  "'w pipe_env \<Rightarrow> transfer_task \<Rightarrow> string list \<Rightarrow> bool \<Rightarrow> string list \<Rightarrow> 'w pipe_state \<Rightarrow> bool \<times> string list \<times> 'w pipe_state" where
  "process_files pe task [] ok messages st = (ok, messages, st)"
| "process_files pe task (path # paths) ok messages st =
     (case process_single pe task path st of
        (Inr (True, _), st1) \<Rightarrow> process_files pe task paths ok messages st1
      | (Inr (False, msg), st1) \<Rightarrow> process_files pe task paths False (messages @ [msg]) st1
      | (Inl exc, st1) \<Rightarrow> process_files pe task paths False (messages @ [exc]) st1)"

definition processed :: string where
  "processed = u8 [0xe5, 0xa4, 0x84, 0xe7, 0x90, 0x86, 0xe5, 0xae, 0x8c, 0xe6, 0x88, 0x90]"

definition final_message :: "string list \<Rightarrow> string" where
  "final_message messages =
     (if messages = [] then processed
      else if list_all is_transfer_skip messages then skip_message (join ''; '' (map strip_skip_prefix messages))
      else join ''; '' (map strip_skip_prefix messages))"

text \<open>\<open>process\<close>, with what the task does after it; \<open>None\<close> is an exception.\<close>

definition pipeline_process ::
  "'w pipe_env \<Rightarrow> (bool \<Rightarrow> 'w pipe_state \<Rightarrow> 'w pipe_state) \<Rightarrow> transfer_task \<Rightarrow> 'w pipe_state \<Rightarrow>
   (bool \<times> string) option \<times> 'w pipe_state" where
  "pipeline_process pe post task st =
     (case task_error task of
        Some msg \<Rightarrow> (Some (False, msg), st)
      | None \<Rightarrow>
          (case resolve_backend (ta_backend task) of
             None \<Rightarrow> (None, st)
           | Some _ \<Rightarrow>
               let (ok, messages, st1) = process_files pe task (ta_files task) True [] st
               in (Some (ok, final_message messages), post ok st1)))"

section \<open>The queue service\<close>

definition payload_text :: "pydict \<Rightarrow> string \<Rightarrow> string" where
  "payload_text p k = (if truthy (pget p k) then py_str (\<lambda>_. []) (pget p k) else [])"

definition payload_opt :: "pydict \<Rightarrow> string \<Rightarrow> string option" where
  "payload_opt p k = (case pget p k of PStr s \<Rightarrow> Some s | _ \<Rightarrow> None)"

text \<open>\<open>int(payload.get(k) or 0)\<close>; \<open>None\<close> is an exception.\<close>

definition payload_int :: "pydict \<Rightarrow> string \<Rightarrow> int option" where
  "payload_int p k = pyval_int (py_or (pget p k) (PInt 0))"

text \<open>\<open>_is_library_done\<close>: a group counts only for what has no season or episode.\<close>

definition is_library_done :: "'w pipe_env \<Rightarrow> pydict \<Rightarrow> lc_state \<Rightarrow> bool option" where
  "is_library_done pe p life =
     (let identity = payload_text p ''identity_id''
      in if identity = [] then Some False
         else case (payload_int p ''season'', payload_int p ''episode'') of
           (Some season, Some episode) \<Rightarrow>
             (case get_current (identity, season, episode) life of
                Some r \<Rightarrow> Some (in_library r)
              | None \<Rightarrow>
                  if season \<noteq> 0 \<or> episode \<noteq> 0 then Some False
                  else (case get_grouped_identity identity (pe_subs pe) life of
                          None \<Rightarrow> Some False
                        | Some g \<Rightarrow> Some (in_library (lg_row g))))
         | _ \<Rightarrow> None)"

text \<open>\<open>_record\<close>: what the projector raises is swallowed, what the resolver raises is not.\<close>

definition record_args ::
  "pydict \<Rightarrow> string \<Rightarrow> int \<Rightarrow> int \<Rightarrow> lifecycle_stage \<Rightarrow> lifecycle_status \<Rightarrow> string \<Rightarrow> task \<Rightarrow> string option \<Rightarrow> lc_args" where
  "record_args p identity season episode stage status event_type t err =
     \<lparr>la_identity = identity, la_series = None, la_stage = Member stage, la_status = Member status, la_type = event_type,
      la_media_type = (if payload_text p ''media_type'' = [] then ''movie'' else payload_text p ''media_type''),
      la_season = season, la_episode = episode,
      la_run = Some (if truthy (pget p ''run_id'') then payload_text p ''run_id''
        else ''transfer:'' @ py_str (\<lambda>_. []) (pget p ''task_id'')),
      la_trace = Some (if truthy (pget p ''trace_id'') then payload_text p ''trace_id'' else ''identity:'' @ identity),
      la_title = payload_opt p ''title'', la_year = payload_opt p ''year'', la_poster = payload_opt p ''poster'', la_progress = None,
      la_provider = payload_opt p ''source_provider'', la_profile = payload_opt p ''content_profile'',
      la_user = pyval_int (pget p ''user_id''), la_retries = t_attempts t, la_retry_at = None, la_error = err, la_time = None,
      la_key = ''transfer:'' @ t_id t @ '':'' @ event_type @ '':'' @ int_str (t_attempts t), la_update = True\<rparr>"

definition record_transfer ::
  "'w pipe_env \<Rightarrow> pydict \<Rightarrow> lifecycle_stage \<Rightarrow> lifecycle_status \<Rightarrow> string \<Rightarrow> task \<Rightarrow> string option \<Rightarrow>
   'w pipe_state \<Rightarrow> 'w pipe_state option" where
  "record_transfer pe p stage status event_type t err st =
     (if \<not> pe_projects pe then Some st
      else case (payload_int p ''season'', pe_resolve pe p) of
        (Some season, Some identity) \<Rightarrow>
          if identity = [] then Some st
          else (case payload_int p ''episode'' of
                  None \<Rightarrow> Some st
                | Some episode \<Rightarrow>
                    (case record_lifecycle (pe_lc pe) (pe_clock pe (length (lf_events (pp_life st))))
                            (record_args p identity season episode stage status event_type t err) (pp_life st) of
                       None \<Rightarrow> Some st
                     | Some (_, life) \<Rightarrow> Some (st\<lparr>pp_life := life\<rparr>)))
      | _ \<Rightarrow> None)"

definition dedup_text :: "pydict \<Rightarrow> string" where
  "dedup_text p =
     (if truthy (pget p ''dedup_key'') then payload_text p ''dedup_key''
      else py_str (\<lambda>_. []) (pget p ''downloader_id'') @ '':'' @ py_str (\<lambda>_. []) (pget p ''task_id''))"

definition queued_transfer ::
  "'w pipe_env \<Rightarrow> pydict \<Rightarrow> task \<Rightarrow> mem_queue \<times> 'w pipe_state \<Rightarrow> bool option \<times> mem_queue \<times> 'w pipe_state" where
  "queued_transfer pe p t qs =
     (case record_transfer pe p TransferQueued StQueued ''transfer.queued'' t None (snd qs) of
        None \<Rightarrow> (Some False, qs)
      | Some st \<Rightarrow> (Some True, fst qs, st))"

text \<open>\<open>submit\<close> on a started queue: whether the queue has taken the payload; \<open>None\<close> is an exception.\<close>

definition submit_transfer ::
  "'w pipe_env \<Rightarrow> time \<Rightarrow> string \<Rightarrow> string \<Rightarrow> pydict \<Rightarrow> mem_queue \<times> 'w pipe_state \<Rightarrow>
   bool option \<times> mem_queue \<times> 'w pipe_state" where
  "submit_transfer pe now uuid uuid' p qs =
     (case is_library_done pe p (pp_life (snd qs)) of
        None \<Rightarrow> (None, qs)
      | Some True \<Rightarrow> (Some True, qs)
      | Some False \<Rightarrow>
          (case q_enqueue now uuid ''transfer.task'' p (dedup_text p) None None None (fst qs) of
             (Inl _, q1) \<Rightarrow> (Some False, q1, snd qs)
           | (Inr t, q1) \<Rightarrow>
               if \<not> terminal (t_status t) then queued_transfer pe p t (q1, snd qs)
               else if t_status t = SUCCEEDED then (Some True, q1, snd qs)
               else (case q_enqueue now uuid' ''transfer.task'' p (dedup_text p @ '':retry:'' @ t_id t) None None None q1 of
                       (Inl _, q2) \<Rightarrow> (Some False, q2, snd qs)
                     | (Inr t', q2) \<Rightarrow>
                         if terminal (t_status t') then (Some False, q2, snd qs)
                         else queued_transfer pe p t' (q2, snd qs))))"

definition strings_of :: "pyval \<Rightarrow> string list" where
  "strings_of v = (case v of PList vs \<Rightarrow> map (py_str (\<lambda>_. [])) vs | _ \<Rightarrow> [])"

definition task_of :: "pydict \<Rightarrow> transfer_task" where
  "task_of p =
     \<lparr>ta_source = (if payload_text p ''source_type'' = ''directory'' then DirectorySource else DownloaderSource),
      ta_source_id = (if truthy (pget p ''source_id'') then payload_text p ''source_id'' else payload_text p ''name''),
      ta_files = (if truthy (pget p ''file_paths'') then strings_of (pget p ''file_paths'') else [payload_text p ''path'']),
      ta_operation = payload_text p ''operation'', ta_target = payload_opt p ''target_dir'', ta_unknown = pget p ''unknown_dir'',
      ta_backend = (if truthy (pget p ''dst_backend_id'') then payload_text p ''dst_backend_id'' else ''local''),
      ta_provider = pget p ''provider_data'', ta_media = pget p ''media_type'', ta_season = pget p ''season'',
      ta_fallback = pget p ''fallback_episode''\<rparr>"

text \<open>\<open>_post_process\<close>: the torrent of a moved download is deleted with its files, another one is marked.\<close>

definition post_process :: "'w pipe_env \<Rightarrow> pydict \<Rightarrow> bool \<Rightarrow> 'w pipe_state \<Rightarrow> 'w pipe_state" where
  "post_process pe p ok st =
     (let d = payload_text p ''downloader_id''; i = payload_text p ''task_id'';
          client = (d \<noteq> [] \<and> pe_client pe d)
      in if \<not> ok \<or> \<not> client then st
         else if pget p ''operation'' = PStr ''move'' then st\<lparr>pp_client := pp_client st @ [DeleteTorrent i]\<rparr>
         else st\<lparr>pp_client := pp_client st @ [MarkTorrent i (pget p ''tags'')]\<rparr>)"

definition transfer_failed :: string where
  "transfer_failed = u8 [0xe8, 0xbd, 0xac, 0xe7, 0xa7, 0xbb, 0xe5, 0xa4, 0xb1, 0xe8, 0xb4, 0xa5]"

definition handle_transfer :: "'w pipe_env \<Rightarrow> 'w pipe_state handler" where
  "handle_transfer pe t st =
     (let p = t_payload t; task = task_of p;
          post = (if ta_source task = DownloaderSource then post_process pe p else (\<lambda>_ s. s))
      in case is_library_done pe p (pp_life st) of
           None \<Rightarrow> (Inl (pe_text pe), st)
         | Some True \<Rightarrow> (Inr (Some [(''success'', PBool True), (''skipped'', PBool True)]), st)
         | Some False \<Rightarrow>
             (case record_transfer pe p Transferring StRunning ''transfer.started'' t None st of
                None \<Rightarrow> (Inl (pe_text pe), st)
              | Some st1 \<Rightarrow>
                  (case pipeline_process pe post task st1 of
                     (None, st2) \<Rightarrow> (Inl (pe_text pe), st2)
                   | (Some (False, msg), st2) \<Rightarrow>
                       (case record_transfer pe p Transferring StFailed ''transfer.failed'' t (Some msg) st2 of
                          None \<Rightarrow> (Inl (pe_text pe), st2)
                        | Some st3 \<Rightarrow> (Inl (if msg = [] then transfer_failed else msg), st3))
                   | (Some (True, msg), st2) \<Rightarrow>
                       (case record_transfer pe p Transferred StSucceeded ''transfer.completed'' t None st2 of
                          None \<Rightarrow> (Inl (pe_text pe), st2)
                        | Some st3 \<Rightarrow> (Inr (Some [(''success'', PBool True), (''message'', PStr msg)]), st3)))))"

definition transfer_handlers :: "'w pipe_env \<Rightarrow> string \<Rightarrow> 'w pipe_state handler option" where
  "transfer_handlers pe ty = (if ty = ''transfer.task'' then Some (handle_transfer pe) else None)"

text \<open>The worker with its given concurrency runs one task after the other here: claims are exclusive, and transfers of
  different tasks meet only in the storage, whose interleavings are those of \<open>pe_transfer\<close>.\<close>

definition transfer_worker ::
  "'w pipe_env \<Rightarrow> time list \<Rightarrow> mem_queue \<times> 'w pipe_state \<Rightarrow> mem_queue \<times> 'w pipe_state" where
  "transfer_worker pe turns qs = consume_loop ''transfer-1'' (transfer_handlers pe) turns qs"

end
