(* ===== verification/TransferQueueProofs.thy ===== *)
theory TransferQueueProofs
  imports TransferQueue LifecycleViewProofs
begin

text \<open>
  The way of a payload: what the queue has taken is kept until it has succeeded, a torrent is deleted only after all its files
  were transferred, a pipeline reports a skip only when nothing failed; and two findings, on skipped transfers and on works of
  which one episode is in the library.
\<close>

section \<open>Messages\<close>

lemma startswith_append: "startswith (p @ s) p"
  by (simp add: startswith_def)

lemma startswith_before:
  assumes "startswith (a @ c # b) p" and "c \<notin> set p"
  shows "startswith a p"
proof -
  have "prefix p (a @ c # b)" using assms(1) by (simp add: startswith_def)
  then have "prefix p a" using assms(2) by (auto simp: prefix_append prefix_Cons)
  then show ?thesis by (simp add: startswith_def)
qed

lemma startswith_join:
  assumes "startswith (join (c # cs) (m # ms)) p" and "c \<notin> set p"
  shows "startswith m p"
  using assms by (cases ms) (auto intro: startswith_before)

lemma semicolon_not_in_prefix: "CHR '';'' \<notin> set transfer_skip_prefix"
  by code_simp

lemma skip_message_is_skip: "is_transfer_skip (skip_message m)"
proof -
  have "transfer_skip_prefix \<noteq> []" by code_simp
  then show ?thesis by (simp add: is_transfer_skip_def skip_message_def startswith_append)
qed

text \<open>A failed file's message carries the mark of a skip at most once.\<close>

definition marked_once :: "string list \<Rightarrow> bool" where
  "marked_once ms \<longleftrightarrow> list_all (\<lambda>m. \<not> is_transfer_skip (strip_skip_prefix m)) ms"

lemma join_not_skip:
  assumes "marked_once ms"
  shows "\<not> is_transfer_skip (join ''; '' (map strip_skip_prefix ms))"
proof (cases ms)
  case (Cons m rest)
  have nm: "\<not> is_transfer_skip (strip_skip_prefix m)" using assms Cons by (simp add: marked_once_def)
  show ?thesis
  proof
    assume s: "is_transfer_skip (join ''; '' (map strip_skip_prefix ms))"
    then have "startswith (join ''; '' (strip_skip_prefix m # map strip_skip_prefix rest)) transfer_skip_prefix"
      by (simp add: is_transfer_skip_def Cons)
    from startswith_join [OF this semicolon_not_in_prefix]
    have "startswith (strip_skip_prefix m) transfer_skip_prefix" .
    moreover have "\<not> startswith [] transfer_skip_prefix" by code_simp
    ultimately show False using nm by (cases "strip_skip_prefix m") (auto simp: is_transfer_skip_def)
  qed
qed (simp add: is_transfer_skip_def)

lemma final_message_skip:
  assumes "marked_once ms"
  shows "is_transfer_skip (final_message ms) \<longleftrightarrow> ms \<noteq> [] \<and> list_all is_transfer_skip ms"
proof -
  have "\<not> is_transfer_skip processed" by code_simp
  then show ?thesis using join_not_skip [OF assms] by (simp add: final_message_def skip_message_is_skip)
qed

lemma process_files_ok:
  "process_files pe task paths ok ms st = (ok', ms', st') \<Longrightarrow> (ok' \<longleftrightarrow> ok \<and> length ms' = length ms) \<and> (\<exists>ns. ms' = ms @ ns)"
proof (induction paths arbitrary: ok ms st)
  case (Cons path paths)
  obtain r st1 where s: "process_single pe task path st = (r, st1)" by force
  show ?case
  proof (cases r)
    case (Inl e)
    with Cons.prems s Cons.IH [of False "ms @ [e]" st1] show ?thesis by fastforce
  next
    case (Inr x)
    obtain b m where x: "x = (b, m)" by force
    show ?thesis
    proof (cases b)
      case True
      with Cons.prems s Inr x Cons.IH [of ok ms st1] show ?thesis by simp
    next
      case False
      with Cons.prems s Inr x Cons.IH [of False "ms @ [m]" st1] show ?thesis by fastforce
    qed
  qed
qed simp

text \<open>C29: The pipeline succeeds when no file fails, and its message is that of a skip when all failures are skips and only then:
  a failure among skips is reported as a failure.\<close>

theorem skip_only_if_all_skip:
  assumes "task_error task = None" and "resolve_backend (ta_backend task) = Some ()"
    and "process_files pe task (ta_files task) True [] st = (ok, ms, st1)" and "marked_once ms"
  shows "\<exists>msg. pipeline_process pe post task st = (Some (ok, msg), post ok st1) \<and> (ok \<longleftrightarrow> ms = []) \<and>
    (is_transfer_skip msg \<longleftrightarrow> ms \<noteq> [] \<and> list_all is_transfer_skip ms)"
proof -
  have "ok \<longleftrightarrow> ms = []" using process_files_ok [OF assms(3)] by auto
  then show ?thesis using assms final_message_skip [OF assms(4)] by (simp add: pipeline_process_def)
qed

section \<open>The client of the downloader\<close>

lemma client_single: "process_single pe task path st = (r, st') \<Longrightarrow> pp_client st' = pp_client st \<and> pp_life st' = pp_life st"
  by (auto simp: process_single_def scrape_after_transfer_def Let_def split: prod.splits sum.splits bool.splits if_splits)

lemma client_files: "process_files pe task paths ok ms st = (ok', ms', st') \<Longrightarrow> pp_client st' = pp_client st \<and> pp_life st' = pp_life st"
proof (induction paths arbitrary: ok ms st)
  case (Cons path paths)
  obtain r st1 where s: "process_single pe task path st = (r, st1)" by force
  note c = client_single [OF s]
  show ?case
  proof (cases r)
    case (Inl e)
    then show ?thesis using Cons.prems Cons.IH [of False "ms @ [e]" st1] s c by simp
  next
    case (Inr x)
    then show ?thesis
      using Cons.prems Cons.IH [of ok ms st1] Cons.IH [of False "ms @ [snd x]" st1] s c by (cases x) (auto split: bool.splits)
  qed
qed simp

lemma client_record: "record_transfer pe p stage status ty t err st = Some st' \<Longrightarrow> pp_client st' = pp_client st \<and> pp_engine st' = pp_engine st"
  by (auto simp: record_transfer_def split: if_splits option.splits)

lemma record_transfer_total:
  "pe_resolve pe p \<noteq> None \<Longrightarrow> payload_int p ''season'' \<noteq> None \<Longrightarrow> record_transfer pe p stage status ty t err st \<noteq> None"
  by (auto simp: record_transfer_def split: option.split)

lemma client_post:
  "pp_client (post_process pe p ok st) = pp_client st \<or>
   ok \<and> (\<exists>op. pp_client (post_process pe p ok st) = pp_client st @ [op] \<and>
     (\<forall>i. op = DeleteTorrent i \<longrightarrow> pget p ''operation'' = PStr ''move'' \<and> i = payload_text p ''task_id''))"
  by (simp add: post_process_def Let_def)

lemma pipeline_client:
  assumes "pipeline_process pe post task st = (r, st')" and "pp_client st' \<noteq> pp_client st"
    and "\<And>s. pp_client (post False s) = pp_client s"
  shows "\<exists>st1. process_files pe task (ta_files task) True [] st = (True, [], st1) \<and> st' = post True st1"
proof -
  obtain ok ms st1 where f: "process_files pe task (ta_files task) True [] st = (ok, ms, st1)" by (metis prod.collapse)
  have "st' = post ok st1" using assms(1,2) f by (auto simp: pipeline_process_def split: option.splits)
  moreover from this have ok using assms(2,3) client_files [OF f] by (cases ok) auto
  ultimately show ?thesis using process_files_ok [OF f] f by auto
qed

lemma post_task_client:
  assumes "post = (if ta_source (task_of p) = DownloaderSource then post_process pe p else (\<lambda>_ s. s))"
  shows "pp_client (post False s) = pp_client s"
  using assms by (simp add: post_process_def Let_def)

text \<open>C12: Handling a task asks the client of a downloader for at most one thing, and only after every file of the task was
  transferred; a torrent is deleted, with its files, only for the operation that moves them.\<close>

theorem torrent_deleted_only_after_success:
  assumes "handle_transfer pe t st = (r, st')" and "pp_client st' \<noteq> pp_client st"
  shows "\<exists>s1 s2 op. pp_engine s1 = pp_engine st \<and>
    process_files pe (task_of (t_payload t)) (ta_files (task_of (t_payload t))) True [] s1 = (True, [], s2) \<and>
    pp_client st' = pp_client st @ [op] \<and>
    (\<forall>i. op = DeleteTorrent i \<longrightarrow> pget (t_payload t) ''operation'' = PStr ''move'' \<and> i = payload_text (t_payload t) ''task_id'')"
proof -
  let ?p = "t_payload t"
  define post where "post = (if ta_source (task_of ?p) = DownloaderSource then post_process pe ?p else (\<lambda>_ s. s))"
  obtain s1 q s where rec: "record_transfer pe ?p Transferring StRunning ''transfer.started'' t None st = Some s1"
      and pipe: "pipeline_process pe post (task_of ?p) s1 = (q, s)" and last: "pp_client st' = pp_client s"
    using assms
    by (auto simp: handle_transfer_def Let_def post_def split: option.splits prod.splits bool.splits if_splits dest!: client_record)
  have c1: "pp_client s1 = pp_client st" "pp_engine s1 = pp_engine st" using client_record [OF rec] by simp_all
  have "pp_client s \<noteq> pp_client s1" using assms(2) last c1 by simp
  from pipeline_client [OF pipe this post_task_client [OF post_def]]
  obtain s2 where f: "process_files pe (task_of ?p) (ta_files (task_of ?p)) True [] s1 = (True, [], s2)" "s = post True s2" by blast
  have "pp_client s2 = pp_client s1" using client_files [OF f(1)] by simp
  then have "pp_client (post True s2) \<noteq> pp_client s2" using f(2) \<open>pp_client s \<noteq> pp_client s1\<close> by simp
  then have "\<exists>op. pp_client (post True s2) = pp_client s2 @ [op] \<and>
      (\<forall>i. op = DeleteTorrent i \<longrightarrow> pget ?p ''operation'' = PStr ''move'' \<and> i = payload_text ?p ''task_id'')"
    using client_post [of pe ?p True s2] by (simp add: post_def split: if_splits)
  with f c1 last \<open>pp_client s2 = pp_client s1\<close> show ?thesis by metis
qed

section \<open>What the queue has taken\<close>

lemma enqueue_known:
  assumes "q_enqueue now u ty p key None None None q = (Inr t, q')" and "key \<noteq> []"
  shows "\<exists>i e. dget (mq_dedup q') key = Some (i, e) \<and> q_get i q' = Some t"
proof -
  obtain ex q1 where f: "find_dedup now key q = (ex, q1)" by force
  show ?thesis
  proof (cases ex)
    case (Some x)
    with f assms show ?thesis
      by (auto simp: q_enqueue_def find_dedup_def q_get_def split: if_splits option.splits)
  next
    case None
    with f assms show ?thesis
      by (auto simp: q_enqueue_def Let_def remember_dedup_def task_create_def q_get_def split: if_splits)
  qed
qed

text \<open>The rows of a work that say how far it is: those of its episodes, or all when it has none.\<close>

definition rows_of_work :: "string \<Rightarrow> lc_state \<Rightarrow> (lc_key \<times> lc_row) list" where
  "rows_of_work i life =
     (let rows = filter (\<lambda>(k, _). fst k = i) (lf_rows life); eps = filter (\<lambda>(k, _). 0 < snd (snd k)) rows
      in if eps = [] then rows else eps)"

lemma numbered_snd: "map snd (numbered_rows life) = lf_rows life"
  by (simp add: numbered_rows_def del: upt_Suc)

lemma rows_of_work_items:
  "rows_of_work i life = map snd (state_items (filter (\<lambda>n. fst (fst (snd n)) = i) (numbered_rows life)))"
proof -
  have work: "filter (\<lambda>(k, _). fst k = i) (lf_rows life) = map snd (filter (\<lambda>n. fst (fst (snd n)) = i) (numbered_rows life))"
    unfolding numbered_snd [of life, symmetric] by (simp add: filter_map o_def split_beta)
  have "filter (\<lambda>(k, _). 0 < snd (snd k)) (map snd ns) = map snd (filter (\<lambda>n. 0 < episode_of n) ns)" for ns :: "numbered list"
    by (simp add: filter_map o_def split_beta episode_of_def)
  then show ?thesis by (simp add: rows_of_work_def work state_items_def Let_def)
qed

lemma library_done_rows:
  assumes "is_library_done pe p life = Some True" and typed: "typed life"
  shows "\<exists>i s e. payload_text p ''identity_id'' = i \<and> payload_int p ''season'' = Some s \<and> payload_int p ''episode'' = Some e \<and>
    ((\<exists>r. get_current (i, s, e) life = Some r \<and> lc_stage r = stage_value InLibrary \<and> lc_status r = status_value StSucceeded) \<or>
     s = 0 \<and> e = 0 \<and> (\<forall>x \<in> set (rows_of_work i life). lc_status (snd x) \<in> {status_value StSucceeded, status_value StPaused}) \<and>
     (\<exists>x \<in> set (rows_of_work i life). lc_stage (snd x) = stage_value InLibrary))"
proof -
  let ?i = "payload_text p ''identity_id''"
  obtain s e where se: "payload_int p ''season'' = Some s" "payload_int p ''episode'' = Some e" and i: "?i \<noteq> []"
    using assms(1) by (auto simp: is_library_done_def Let_def split: if_splits option.splits)
  show ?thesis
  proof (cases "get_current (?i, s, e) life")
    case (Some r)
    then have "in_library r" using assms(1) se i by (simp add: is_library_done_def Let_def)
    with Some se show ?thesis by (auto simp: in_library_def)
  next
    case None
    obtain g where z: "s = 0" "e = 0" and g: "get_grouped_identity ?i (pe_subs pe) life = Some g" and lib: "in_library (lg_row g)"
      using assms(1) se i None by (auto simp: is_library_done_def Let_def split: if_splits option.splits)
    let ?rows = "filter (\<lambda>n. fst (fst (snd n)) = ?i) (numbered_rows life)"
    obtain first rest where rows: "?rows = first # rest"
      using g by (cases ?rows) (auto simp: get_grouped_identity_def group_lifecycle_rows_def by_identity_def)
    have "in_library (lg_row (group_items first rest))"
      using g lib group_of_work [OF rows] overlay_library
      by (auto simp: get_grouped_identity_def apply_subscription_state_def rows)
    moreover have "status_of (lc_status (row_of n)) \<noteq> None" if "n \<in> set (first # rest)" for n
    proof -
      have "n \<in> set (numbered_rows life)" using that unfolding rows [symmetric] by simp
      then have "snd n \<in> set (lf_rows life)" unfolding numbered_snd [of life, symmetric] by simp
      then have "typed_row (row_of n)" using typed unfolding typed_def row_of_def by blast
      then show ?thesis by (simp add: typed_row_def)
    qed
    ultimately have "\<forall>n \<in> set (state_items ?rows). lc_status (row_of n) \<in> {status_value StSucceeded, status_value StPaused}"
      "\<exists>n \<in> set (state_items ?rows). lc_stage (row_of n) = stage_value InLibrary"
      unfolding rows using group_in_library by blast+
    then have "(\<forall>x \<in> set (rows_of_work ?i life). lc_status (snd x) \<in> {status_value StSucceeded, status_value StPaused}) \<and>
       (\<exists>x \<in> set (rows_of_work ?i life). lc_stage (snd x) = stage_value InLibrary)"
      by (simp add: rows_of_work_items row_of_def del: status_value.simps stage_value.simps)
    with se z show ?thesis by blast
  qed
qed

text \<open>C13: A payload that is accepted is not lost. Either the queue keeps, under the key of the payload or of its repetition, a
  task that waits, runs or has succeeded; or the read model has what the payload asks for: the row of its season and episode
  is at the library stage and succeeded; or the payload names a whole work, some row of it is at the library stage and every row
  that counts for the work (its episodes, or all its rows when it has none) has succeeded at some stage or is paused.\<close>

theorem taken_is_kept:
  assumes "submit_transfer pe now u u' p (q, st) = (Some True, q', st')" and k: "dedup_text p \<noteq> []" and "typed (pp_life st)"
  shows "(\<exists>key i e t. (key = dedup_text p \<or> (\<exists>j. key = dedup_text p @ '':retry:'' @ j)) \<and> dget (mq_dedup q') key = Some (i, e) \<and>
       q_get i q' = Some t \<and> (t_status t = SUCCEEDED \<or> \<not> terminal (t_status t))) \<or>
    (\<exists>i s e. payload_text p ''identity_id'' = i \<and> payload_int p ''season'' = Some s \<and> payload_int p ''episode'' = Some e \<and>
      ((\<exists>r. get_current (i, s, e) (pp_life st) = Some r \<and> lc_stage r = stage_value InLibrary \<and> lc_status r = status_value StSucceeded) \<or>
       s = 0 \<and> e = 0 \<and> (\<forall>x \<in> set (rows_of_work i (pp_life st)). lc_status (snd x) \<in> {status_value StSucceeded, status_value StPaused}) \<and>
       (\<exists>x \<in> set (rows_of_work i (pp_life st)). lc_stage (snd x) = stage_value InLibrary)))"
proof (cases "is_library_done pe p (pp_life st) = Some True")
  case True
  from library_done_rows [OF True assms(3)] show ?thesis by blast
next
  case False
  let ?k = "dedup_text p"
  obtain r q1 where e: "q_enqueue now u ''transfer.task'' p ?k None None None q = (r, q1)" by force
  obtain t where r: "r = Inr t" using assms(1) False e by (cases r) (auto simp: submit_transfer_def split: option.splits)
  note known = enqueue_known [OF e [unfolded r] k]
  show ?thesis
  proof (cases "\<not> terminal (t_status t) \<or> t_status t = SUCCEEDED")
    case True
    then have "q' = q1"
      using assms(1) False e r by (auto simp: submit_transfer_def queued_transfer_def terminal_def split: option.splits if_splits)
    with known True show ?thesis by blast
  next
    case again: False
    let ?k2 = "?k @ '':retry:'' @ t_id t"
    obtain r2 q2 where e2: "q_enqueue now u' ''transfer.task'' p ?k2 None None None q1 = (r2, q2)" by force
    obtain t2 where r2: "r2 = Inr t2" and t2: "\<not> terminal (t_status t2)" and q2: "q' = q2"
      using assms(1) False e r e2 again
      by (cases r2) (auto simp: submit_transfer_def queued_transfer_def split: option.splits if_splits)
    have "?k2 \<noteq> []" using k by simp
    from enqueue_known [OF e2 [unfolded r2] this] t2 q2 show ?thesis by blast
  qed
qed

section \<open>What goes wrong\<close>

text \<open>A transfer that was only skipped, because another instance was at it, counts as a failure in the queue: it costs an
  attempt, and the task is dead when it was the last.\<close>

theorem skipped_transfer_dies:
  assumes "q_inv q" and "q_get (t_id t) q = Some c" and "t_type t = ''transfer.task''"
    and "is_library_done pe (t_payload t) (pp_life st) = Some False"
    and "record_transfer pe (t_payload t) Transferring StRunning ''transfer.started'' t None st = Some s1"
    and "post = (if ta_source (task_of (t_payload t)) = DownloaderSource then post_process pe (t_payload t) else (\<lambda>_ s. s))"
    and "pipeline_process pe post (task_of (t_payload t)) s1 = (Some (False, msg), s2)" and "is_transfer_skip msg"
    and "record_transfer pe (t_payload t) Transferring StFailed ''transfer.failed'' t (Some msg) s2 = Some s3"
    and "run_task (q_ack now) (q_fail now) (transfer_handlers pe) t (q, st) = (q', st')"
  shows "\<exists>c'. q_get (t_id t) q' = Some c' \<and> t_error c' = msg \<and> t_attempts c' = t_attempts c + 1 \<and>
    t_status c' = (if t_attempts c + 1 < t_max c then QUEUED else DEAD)"
proof -
  have "msg \<noteq> []" using assms(8) by (simp add: is_transfer_skip_def)
  then have "handle_transfer pe t st = (Inl msg, s3)"
    using assms(4-7,9) by (simp add: handle_transfer_def Let_def)
  then show ?thesis
    using mq.run_settles [OF assms(1,2), of now "transfer_handlers pe" st] assms(3,10)
    by (auto simp: transfer_handlers_def)
qed

text \<open>C37: A payload that names a work without a season, of which there is no row of its own and no subscription to a series, is
  taken for done, and nothing is queued, as soon as one episode is in the library and the others have succeeded at whatever
  stage they are.\<close>

theorem partial_library_counts_done:
  assumes "pget p ''identity_id'' = PStr i" and "i \<noteq> []" and "pget p ''season'' = PNone" and "pget p ''episode'' = PNone"
    and "get_current (i, 0, 0) (pp_life st) = None" and "\<forall>s \<in> set (su_tvs (pe_subs pe)). sb_identity s \<noteq> i"
    and "filter (\<lambda>n. fst (fst (snd n)) = i) (numbered_rows (pp_life st)) = first # rest"
    and "\<forall>n \<in> set (state_items (first # rest)). lc_status (row_of n) = status_value StSucceeded"
    and "x \<in> set (state_items (first # rest))" and "in_library (row_of x)"
  shows "submit_transfer pe now u u' p (q, st) = (Some True, q, st)"
proof -
  let ?g = "group_items first rest"
  have lib: "in_library (lg_row ?g)" by (rule one_in_library [OF assms(8-10)])
  have subs: "subscription_map [i] (su_tvs (pe_subs pe)) = []" using assms(6) by (simp add: subscription_map_def filter_empty_conv)
  have "overlay (subscription_map [i] (su_tvs (pe_subs pe))) active completed cancelled ?g = ?g" for active completed cancelled
    using lib by (simp add: subs overlay_def in_library_def Let_def)
  then have "get_grouped_identity i (pe_subs pe) (pp_life st) = Some ?g"
    using group_of_work [OF assms(7)] assms(7) by (simp add: get_grouped_identity_def apply_subscription_state_def)
  then have "is_library_done pe p (pp_life st) = Some True"
    using assms(1-5) lib by (simp add: is_library_done_def payload_text_def payload_int_def py_or_def)
  then show ?thesis by (simp add: submit_transfer_def)
qed

text \<open>When the resolver raises after the task was queued, the payload is reported as refused, so that the caller transfers it
  directly, and the queue transfers it again.\<close>

theorem refused_but_queued:
  assumes "is_library_done pe p (pp_life st) = Some False" and "pe_projects pe" and "pe_resolve pe p = None"
    and "\<not> mq_closed q" and "fst (find_dedup now (dedup_text p) q) = None" and "dedup_text p \<noteq> []"
    and "int (length (mq_ready q)) < mq_maxsize q" and "u \<noteq> []"
  shows "\<exists>q'. submit_transfer pe now u u' p (q, st) = (Some False, q', st) \<and> map_option t_status (q_get u q') = Some QUEUED"
proof -
  obtain q1 where f: "find_dedup now (dedup_text p) q = (None, q1)" using assms(5) by (metis prod.collapse)
  then have m: "mq_ready q1 = mq_ready q" "mq_maxsize q1 = mq_maxsize q" "mq_name q1 = mq_name q"
    by (auto simp: find_dedup_def split: option.splits if_splits)
  let ?t = "task_create now u (mq_name q1) ''transfer.task'' p (dedup_text p) (mq_priority q1) (mq_max_attempts q1) None"
  let ?q = "q_push ?t (remember_dedup now ?t (q1\<lparr>mq_tasks := dput (t_id ?t) ?t (mq_tasks q1)\<rparr>))"
  have e: "q_enqueue now u ''transfer.task'' p (dedup_text p) None None None q = (Inr ?t, ?q)"
    using assms(4,6,7) f m by (simp add: q_enqueue_def Let_def)
  have r: "record_transfer pe p TransferQueued StQueued ''transfer.queued'' ?t None st = None"
    using assms(2,3) by (simp add: record_transfer_def split: option.split)
  have "\<not> terminal (t_status ?t)" by (simp add: task_create_def terminal_def)
  then have "submit_transfer pe now u u' p (q, st) = (Some False, ?q, st)"
    using assms(1) e r by (simp add: submit_transfer_def queued_transfer_def)
  moreover have "map_option t_status (q_get u ?q) = Some QUEUED"
    by (simp add: q_get_def task_create_def remember_dedup_def Let_def)
  ultimately show ?thesis by blast
qed

section \<open>Examples\<close>

definition demo_pe :: "unit pipe_env" where
  "demo_pe = \<lparr>pe_transfer = (\<lambda>task path e. (Inr (if path = ''/d/a'' then (True, ''ok'')
       else if path = ''/d/s'' then (False, skip_message ''busy'') else (False, ''bad'')), e)),
     pe_is_file = (\<lambda>_ _. False), pe_library = [], pe_client = (\<lambda>_. True), pe_resolve = (\<lambda>_. Some ''i''), pe_projects = False,
     pe_lc = plain_env, pe_clock = int, pe_subs = \<lparr>su_tvs = [], su_movies = [], su_history = []\<rparr>, pe_text = ''error''\<rparr>"

definition demo_payload :: "string list \<Rightarrow> pydict" where
  "demo_payload paths = [(''downloader_id'', PStr ''qb''), (''task_id'', PStr ''h''), (''file_paths'', PList (map PStr paths)),
     (''operation'', PStr ''move''), (''identity_id'', PStr ''i'')]"

definition demo_pipe :: "unit pipe_state" where
  "demo_pipe = \<lparr>pp_engine = \<lparr>tf_world = (), tf_blacklist = []\<rparr>, pp_scrapes = [], pp_client = [], pp_life = no_events\<rparr>"

definition demo_queue :: mem_queue where
  "demo_queue = new_mem_queue ''transfer'' 10 60 5 100"

definition demo_job :: "string list \<Rightarrow> task" where
  "demo_job paths = (task_create 0 ''t'' ''transfer'' ''transfer.task'' (demo_payload paths) ''k'' 0 1 None)\<lparr>t_status := RUNNING\<rparr>"

lemma demo_payload_get [simp]:
  "pget (demo_payload fs) ''downloader_id'' = PStr ''qb''" "pget (demo_payload fs) ''task_id'' = PStr ''h''"
  "pget (demo_payload fs) ''file_paths'' = PList (map PStr fs)" "pget (demo_payload fs) ''operation'' = PStr ''move''"
  "pget (demo_payload fs) ''identity_id'' = PStr ''i''" "pget (demo_payload fs) ''season'' = PNone"
  "pget (demo_payload fs) ''episode'' = PNone" "pget (demo_payload fs) ''source_type'' = PNone"
  "pget (demo_payload fs) ''dst_backend_id'' = PNone" "pget (demo_payload fs) ''dedup_key'' = PNone"
  "pget (demo_payload fs) ''target_dir'' = PNone"
  by (simp_all add: demo_payload_def)

lemma demo_task [simp]:
  assumes "fs \<noteq> []"
  shows "ta_files (task_of (demo_payload fs)) = fs" "task_error (task_of (demo_payload fs)) = None"
    "resolve_backend (ta_backend (task_of (demo_payload fs))) = Some ()" "ta_source (task_of (demo_payload fs)) = DownloaderSource"
  using assms
  by (simp_all add: task_of_def task_error_def resolve_backend_def payload_text_def strings_of_def valid_operations_def season_valid_def comp_def)

lemma demo_single [simp]:
  "ta_source task = DownloaderSource \<Longrightarrow> process_single demo_pe task path st =
    (if path = ''/d/a'' then (Inr (True, ''ok''), st\<lparr>pp_engine := blacklist path (pp_engine st)\<rparr>)
     else (Inr (False, if path = ''/d/s'' then skip_message ''busy'' else ''bad''), st))"
  by (simp add: process_single_def demo_pe_def)

lemma demo_record [simp]: "record_transfer demo_pe p stage status ty t err st = Some st"
  by (simp add: record_transfer_def demo_pe_def)

lemma demo_job_simps [simp]:
  "t_payload (demo_job fs) = demo_payload fs" "t_id (demo_job fs) = ''t''" "t_attempts (demo_job fs) = 0" "t_max (demo_job fs) = 1"
  "t_type (demo_job fs) = ''transfer.task''" "t_status (demo_job fs) = RUNNING"
  by (simp_all add: demo_job_def task_create_def)

lemma demo_dedup [simp]: "dedup_text (demo_payload fs) = ''qb:h''"
  by (simp add: dedup_text_def)

lemma demo_new: "is_library_done pe (demo_payload fs) (pp_life demo_pipe) = Some False"
  by (simp add: is_library_done_def payload_text_def payload_int_def py_or_def demo_pipe_def no_events_def get_current_def
      get_grouped_identity_def numbered_rows_def group_lifecycle_rows_def by_identity_def)

theorem skip_only_if_all_skip_witness:
  "\<exists>msg. fst (pipeline_process demo_pe (\<lambda>_ s. s) (task_of (demo_payload [''/d/s'', ''/d/b''])) demo_pipe) = Some (False, msg) \<and>
     \<not> is_transfer_skip msg"
proof -
  let ?task = "task_of (demo_payload [''/d/s'', ''/d/b''])"
  have f: "process_files demo_pe ?task (ta_files ?task) True [] demo_pipe = (False, [skip_message ''busy'', ''bad''], demo_pipe)" by simp
  have m: "marked_once [skip_message ''busy'', ''bad'']" "\<not> list_all is_transfer_skip [skip_message ''busy'', ''bad'']" by code_simp+
  show ?thesis using skip_only_if_all_skip [OF _ _ f m(1), of "\<lambda>_ s. s"] m(2) by auto
qed

theorem torrent_deleted_only_after_success_witness:
  "\<exists>s1 s2. process_files demo_pe (task_of (demo_payload [''/d/a''])) [''/d/a''] True [] s1 = (True, [], s2) \<and>
     pp_client (snd (handle_transfer demo_pe (demo_job [''/d/a'']) demo_pipe)) = [DeleteTorrent ''h'']"
proof -
  obtain r st' where h: "handle_transfer demo_pe (demo_job [''/d/a'']) demo_pipe = (r, st')" by force
  have "pe_client demo_pe d" for d by (simp add: demo_pe_def)
  then have c: "pp_client (snd (handle_transfer demo_pe (demo_job [''/d/a'']) demo_pipe)) = [DeleteTorrent ''h'']"
    by (simp add: handle_transfer_def demo_new pipeline_process_def post_process_def payload_text_def) (simp add: demo_pipe_def)
  then have "pp_client st' \<noteq> pp_client demo_pipe" using h by (simp add: demo_pipe_def)
  from torrent_deleted_only_after_success [OF h this] c show ?thesis by auto
qed

theorem taken_is_kept_witness:
  "\<exists>i t. q_get i (fst (snd (submit_transfer demo_pe 0 ''u'' ''v'' (demo_payload [''/d/a'']) (demo_queue, demo_pipe)))) = Some t \<and>
     (t_status t = SUCCEEDED \<or> \<not> terminal (t_status t))"
proof -
  let ?r = "submit_transfer demo_pe 0 ''u'' ''v'' (demo_payload [''/d/a'']) (demo_queue, demo_pipe)"
  have "fst ?r = Some True"
    by (simp add: submit_transfer_def demo_new q_enqueue_def demo_queue_def new_mem_queue_def find_dedup_def task_create_def terminal_def
        queued_transfer_def Let_def)
  then have r: "?r = (Some True, fst (snd ?r), snd (snd ?r))" by (metis prod.collapse)
  have life: "lf_rows (pp_life demo_pipe) = []" "lf_events (pp_life demo_pipe) = []" by code_simp+
  then have "typed (pp_life demo_pipe)" by (simp add: typed_def)
  from taken_is_kept [OF r _ this] show ?thesis by (auto simp: rows_of_work_def get_current_def life)
qed

theorem skipped_transfer_dies_witness:
  "\<exists>c'. q_get ''t'' (fst (run_task (q_ack 1) (q_fail 1) (transfer_handlers demo_pe) (demo_job [''/d/s''])
      (demo_queue\<lparr>mq_tasks := [(''t'', demo_job [''/d/s''])]\<rparr>, demo_pipe))) = Some c' \<and> t_status c' = DEAD \<and> is_transfer_skip (t_error c')"
proof -
  let ?t = "demo_job [''/d/s'']" and ?q = "demo_queue\<lparr>mq_tasks := [(''t'', demo_job [''/d/s''])]\<rparr>"
  have inv: "q_inv ?q" by (simp add: q_inv_def queued_ids_def q_get_def demo_queue_def new_mem_queue_def)
  have look: "q_get (t_id ?t) ?q = Some ?t" by (simp add: q_get_def)
  define post where "post = (if ta_source (task_of (t_payload ?t)) = DownloaderSource then post_process demo_pe (t_payload ?t) else (\<lambda>_ s. s))"
  have "final_message [skip_message ''busy''] = skip_message ''busy''" by code_simp
  then have pipe: "pipeline_process demo_pe post (task_of (t_payload ?t)) demo_pipe = (Some (False, skip_message ''busy''), post False demo_pipe)"
    by (simp add: pipeline_process_def)
  obtain q' st' where r: "run_task (q_ack 1) (q_fail 1) (transfer_handlers demo_pe) ?t (?q, demo_pipe) = (q', st')" by force
  from skipped_transfer_dies [OF inv look _ _ demo_record post_def pipe skip_message_is_skip demo_record r] r show ?thesis
    by (auto simp: skip_message_is_skip demo_new)
qed

definition half_library :: lc_state where
  "half_library = \<lparr>lf_rows = [((''i'', 1, 1), demo_snapshot InLibrary 4), ((''i'', 1, 2), demo_snapshot Downloaded 5)], lf_events = []\<rparr>"

theorem partial_library_counts_done_witness:
  "submit_transfer demo_pe 0 ''u'' ''v'' (demo_payload [''/d/b'']) (demo_queue, demo_pipe\<lparr>pp_life := half_library\<rparr>) =
     (Some True, demo_queue, demo_pipe\<lparr>pp_life := half_library\<rparr>) \<and> \<not> is_in_library ''i'' 1 [2] half_library"
proof -
  let ?rows = "[(1, (''i'', 1, 1), demo_snapshot InLibrary 4), (2, (''i'', 1, 2), demo_snapshot Downloaded 5)] :: numbered list"
  have rows: "filter (\<lambda>n. fst (fst (snd n)) = ''i'') (numbered_rows half_library) = ?rows" by code_simp
  have items: "state_items ?rows = ?rows" by code_simp
  have status: "\<forall>n \<in> set (state_items ?rows). lc_status (row_of n) = status_value StSucceeded" by code_simp
  have lib: "in_library (row_of (hd ?rows))" by code_simp
  have none: "get_current (''i'', 0, 0) half_library = None" by code_simp
  have "\<not> is_in_library ''i'' 1 [2] half_library" by code_simp
  then show ?thesis
    using partial_library_counts_done [of "demo_payload [''/d/b'']" "''i''" "demo_pipe\<lparr>pp_life := half_library\<rparr>" demo_pe
        "hd ?rows" "tl ?rows" "hd ?rows" 0 "''u''" "''v''" demo_queue] rows items status lib none
    by (simp add: demo_payload_def demo_pe_def)
qed

theorem refused_but_queued_witness:
  "\<exists>q'. submit_transfer (demo_pe\<lparr>pe_projects := True, pe_resolve := \<lambda>_. None\<rparr>) 0 ''u'' ''v'' (demo_payload [''/d/a'']) (demo_queue, demo_pipe) =
      (Some False, q', demo_pipe) \<and> map_option t_status (q_get ''u'' q') = Some QUEUED"
proof (rule refused_but_queued)
  show "is_library_done (demo_pe\<lparr>pe_projects := True, pe_resolve := \<lambda>_. None\<rparr>) (demo_payload [''/d/a'']) (pp_life demo_pipe) = Some False"
    by (rule demo_new)
qed (simp_all add: demo_queue_def new_mem_queue_def find_dedup_def)

end
