(* ===== verification/DownloadQueue.thy ===== *)
theory DownloadQueue
  imports TaskQueue Lifecycle MediaItem Paths "HOL-Library.While_Combinator"
begin

text \<open>
  Downloads that wait in a queue of the program because the downloader has none (\<open>services/download_queue_service.py\<close>):
  submitting writes a placeholder into the download history and a task into the queue of the downloader; the worker's handler
  waits for a free slot, adds the download and records what happens in the read model of \<open>Lifecycle\<close>.

  Parameters: the configuration and the clients of downloaders (what each poll of the running downloads answers, \<open>None\<close> when
  it fails), adding a download, the JSON form of a media item, its identity and episodes, the torrent file as text, the hash,
  and creating a queue, which may fail. Rows of the history get ascending ids; columns that the service does not look at
  are left out. The handler's waiting may never end: then it has no result.
\<close>

section \<open>State\<close>

record dl_row =
  dh_id :: int
  dh_downloader :: string
  dh_download :: string
  dh_state :: string
  dh_user :: "int option"

record dl_media =
  dm_item :: item
  dm_org :: string
  dm_size :: string
  dm_se :: string

record dl_state =
  ds_rows :: "dl_row list"
  ds_next :: int
  ds_life :: lc_state
  ds_queues :: "(string, mem_queue) dict"
  ds_added :: "(string \<times> string) list"
  ds_polls :: nat

text \<open>A request: what is passed on to the downloader unchanged is \<open>rq_options\<close>.\<close>

record dl_request =
  rq_media :: dl_media
  rq_downloader :: string
  rq_options :: pydict
  rq_torrent :: string
  rq_user :: "int option"

record dl_env =
  de_conf :: "string \<Rightarrow> pydict option"
  de_client :: "string \<Rightarrow> bool"
  de_active :: "nat \<Rightarrow> int option"
  de_execute :: "task \<Rightarrow> nat \<Rightarrow> (string \<times> string) option"
  de_update_ok :: "nat \<Rightarrow> bool"
  de_encode :: "dl_media \<Rightarrow> pyval"
  de_decode :: "pyval \<Rightarrow> dl_media option"
  de_args :: "dl_media \<Rightarrow> lc_args"
  de_episodes :: "dl_media \<Rightarrow> int list"
  de_torrent :: "string \<Rightarrow> string option"
  de_sha256 :: "string \<Rightarrow> string"
  de_new_queue :: "string \<Rightarrow> mem_queue option"
  de_projects :: bool
  de_lc :: lc_env
  de_clock :: "nat \<Rightarrow> int"
  de_text :: string

section \<open>Configuration\<close>

definition conf_dict :: "pydict \<Rightarrow> pydict" where
  "conf_dict conf = (case pget conf ''config'' of PDict d \<Rightarrow> d | _ \<Rightarrow> [])"

definition conf_type :: "pydict \<Rightarrow> string" where
  "conf_type conf = (if truthy (pget conf ''type'') then lower (py_str (\<lambda>_. []) (pget conf ''type'')) else [])"

definition is_nexus_mode :: "pydict \<Rightarrow> bool" where
  "is_nexus_mode conf \<longleftrightarrow>
     (let mode = py_or (pget conf ''queue_mode'') (py_or (pget (conf_dict conf) ''queue_mode'')
            (PStr (if conf_type conf = ''thunder'' then ''nexus'' else ''native'')))
      in lower (py_str (\<lambda>_. []) mode) = ''nexus'')"

definition max_active :: "dl_env \<Rightarrow> string \<Rightarrow> int" where
  "max_active de d =
     (if d = [] then 5
      else case de_conf de d of
        None \<Rightarrow> 5
      | Some conf \<Rightarrow>
          let preset = (if conf_type conf = ''thunder'' then 5 else 1);
              raw = py_or (pget conf ''max_active_tasks'') (py_or (pget (conf_dict conf) ''max_active_tasks'') (PInt preset))
          in (case pyval_int raw of None \<Rightarrow> preset | Some n \<Rightarrow> max 1 n))"

definition should_queue :: "dl_env \<Rightarrow> dl_media \<Rightarrow> string \<Rightarrow> bool" where
  "should_queue de m d \<longleftrightarrow>
     d \<noteq> [] \<and> mi_type (dm_item m) = MOVIE \<and> (case de_conf de d of None \<Rightarrow> False | Some conf \<Rightarrow> is_nexus_mode conf)"

section \<open>Keys\<close>

definition is_alnum :: "char \<Rightarrow> bool" where
  "is_alnum c \<longleftrightarrow> is_digit c \<or> 65 \<le> ord c \<and> ord c \<le> 90 \<or> 97 \<le> ord c \<and> ord c \<le> 122"

text \<open>\<open>re.search(r"btih:([A-Za-z0-9]+)", text)\<close>.\<close>

fun btih_hash :: "string \<Rightarrow> string option" where
  "btih_hash [] = None"
| "btih_hash (c # cs) =
     (if startswith (c # cs) ''btih:'' \<and> takeWhile is_alnum (drop 5 (c # cs)) \<noteq> []
      then Some (takeWhile is_alnum (drop 5 (c # cs))) else btih_hash cs)"

definition none_text :: "string option \<Rightarrow> string" where
  "none_text v = (case v of None \<Rightarrow> ''None'' | Some t \<Rightarrow> t)"

definition download_dedup_key :: "dl_env \<Rightarrow> dl_media \<Rightarrow> string \<Rightarrow> int option \<Rightarrow> string \<Rightarrow> string" where
  "download_dedup_key de m d user torrent_b64 =
     (let i = dm_item m;
          resource = (case btih_hash (opt_text (mi_enclosure i)) of
              Some h \<Rightarrow> ''btih:'' @ lower h
            | None \<Rightarrow> if torrent_b64 \<noteq> [] then ''torrent:'' @ de_sha256 de torrent_b64
                      else join ''|'' [dm_org m, dm_size m, opt_text (mi_page_url i)]);
          identity = (if opt_text (mi_identity_id i) \<noteq> [] then opt_text (mi_identity_id i)
            else none_text (mi_anchor_provider i) @ '':'' @ none_text (mi_anchor_external_id i));
          raw = join ''|'' [d, none_text (map_option int_str user), identity, dm_se m, resource]
      in de_sha256 de raw)"

section \<open>The download history\<close>

text \<open>\<open>insert_download_history\<close> of a placeholder, whose task id is new; without a title there is no row.\<close>

definition insert_placeholder :: "dl_media \<Rightarrow> string \<Rightarrow> string \<Rightarrow> int option \<Rightarrow> dl_state \<Rightarrow> int option \<times> dl_state" where
  "insert_placeholder m d task_id user st =
     (if mi_title (dm_item m) = [] \<and> mi_name (dm_item m) = [] \<and> dm_org m = [] then (None, st)
      else (Some (ds_next st), st\<lparr>ds_rows := ds_rows st @ [\<lparr>dh_id = ds_next st, dh_downloader = d, dh_download = task_id,
              dh_state = ''queued'', dh_user = user\<rparr>], ds_next := ds_next st + 1\<rparr>))"

definition delete_download_history :: "int \<Rightarrow> dl_state \<Rightarrow> dl_state" where
  "delete_download_history i st = st\<lparr>ds_rows := filter (\<lambda>r. dh_id r \<noteq> i) (ds_rows st)\<rparr>"

definition get_history_row :: "int \<Rightarrow> dl_state \<Rightarrow> dl_row option" where
  "get_history_row i st = List.find (\<lambda>r. dh_id r = i) (ds_rows st)"

definition update_history_task :: "int \<Rightarrow> string \<Rightarrow> string \<Rightarrow> dl_state \<Rightarrow> dl_state" where
  "update_history_task i download state st =
     st\<lparr>ds_rows := map (\<lambda>r. if dh_id r = i then r\<lparr>dh_download := download, dh_state := state\<rparr> else r) (ds_rows st)\<rparr>"

section \<open>Submitting\<close>

text \<open>\<open>_record_media\<close>; what it raises is swallowed.\<close>

definition record_download ::
  "dl_env \<Rightarrow> dl_media \<Rightarrow> lifecycle_stage \<Rightarrow> lifecycle_status \<Rightarrow> string \<Rightarrow> task \<Rightarrow> string option \<Rightarrow> dl_state \<Rightarrow> dl_state" where
  "record_download de m stage status event_type t err st =
     (let p = t_payload t; text_or_id = (\<lambda>k. Some (if truthy (pget p k) then py_str (\<lambda>_. []) (pget p k) else t_id t));
          a = (de_args de m)\<lparr>la_stage := Member stage, la_status := Member status, la_type := event_type,
            la_run := text_or_id ''run_id'', la_trace := text_or_id ''trace_id'', la_progress := None, la_retries := t_attempts t,
            la_error := err, la_key := ''download:'' @ t_id t @ '':'' @ event_type @ '':'' @ int_str (t_attempts t), la_update := True\<rparr>
      in if \<not> de_projects de then st
         else case record_media (de_lc de) (de_clock de (length (lf_events (ds_life st)))) a (de_episodes de m) (ds_life st) of
                None \<Rightarrow> st
              | Some (_, life) \<Rightarrow> st\<lparr>ds_life := life\<rparr>)"

definition download_payload :: "dl_env \<Rightarrow> dl_request \<Rightarrow> int \<Rightarrow> string \<Rightarrow> string \<Rightarrow> pydict" where
  "download_payload de rq history_id task_id torrent_b64 =
     [(''media_info'', de_encode de (rq_media rq)), (''history_id'', PInt history_id), (''run_id'', PStr task_id),
      (''trace_id'', PStr task_id), (''downloader_id'', PStr (rq_downloader rq)),
      (''max_active'', PInt (max_active de (rq_downloader rq)))] @ rq_options rq @
     [(''user_id'', (case rq_user rq of None \<Rightarrow> PNone | Some u \<Rightarrow> PInt u)), (''torrent_b64'', PStr torrent_b64),
      (''torrent_name'', PStr (if rq_torrent rq = [] then [] else basename (rq_torrent rq)))]"

text \<open>\<open>_ensure_stack\<close>: the queue of a downloader is created once; its worker starts with it.\<close>

definition ensure_stack :: "dl_env \<Rightarrow> string \<Rightarrow> dl_state \<Rightarrow> mem_queue option \<times> dl_state" where
  "ensure_stack de d st =
     (case dget (ds_queues st) d of
        Some q \<Rightarrow> (Some q, st)
      | None \<Rightarrow>
          (case de_new_queue de (''download:'' @ d) of
             None \<Rightarrow> (None, st)
           | Some q \<Rightarrow> (Some q, st\<lparr>ds_queues := dput d q (ds_queues st)\<rparr>)))"

datatype dl_result = NoHistory | RaisedError | Taken task

definition submit_again ::
  "dl_env \<Rightarrow> time \<Rightarrow> dl_request \<Rightarrow> string \<Rightarrow> pydict \<Rightarrow> string \<Rightarrow> int \<Rightarrow> task \<Rightarrow> mem_queue \<Rightarrow> dl_state \<Rightarrow> dl_result \<times> dl_state" where
  "submit_again de now rq task_id p dedup history_id t q st =
     (let d = rq_downloader rq
      in if t_status t \<in> {FAILED, DEAD, CANCELLED} then
           (case q_enqueue now task_id ''download.add'' p (dedup @ '':retry:'' @ t_id t) None None (Some task_id) q of
              (Inl _, q1) \<Rightarrow> (RaisedError, st\<lparr>ds_queues := dput d q1 (ds_queues st)\<rparr>)
            | (Inr t1, q1) \<Rightarrow>
                let st1 = st\<lparr>ds_queues := dput d q1 (ds_queues st)\<rparr>
                in if t_id t1 \<noteq> task_id then (Taken t1, delete_download_history history_id st1)
                   else (Taken t1, record_download de (rq_media rq) DownloadQueued StQueued ''download.queued'' t1 None st1))
         else (Taken t, delete_download_history history_id st))"

definition submit_download :: "dl_env \<Rightarrow> time \<Rightarrow> string \<Rightarrow> dl_request \<Rightarrow> dl_state \<Rightarrow> dl_result \<times> dl_state" where
  "submit_download de now task_id rq st =
     (let d = rq_downloader rq; torrent = (if rq_torrent rq = [] then Some [] else de_torrent de (rq_torrent rq))
      in case torrent of
           None \<Rightarrow> (RaisedError, st)
         | Some torrent_b64 \<Rightarrow>
             (case insert_placeholder (rq_media rq) d task_id (rq_user rq) st of
                (None, st1) \<Rightarrow> (NoHistory, st1)
              | (Some history_id, st1) \<Rightarrow>
                  let p = download_payload de rq history_id task_id torrent_b64;
                      dedup = download_dedup_key de (rq_media rq) d (rq_user rq) torrent_b64
                  in (case ensure_stack de d st1 of
                        (None, st2) \<Rightarrow> (RaisedError, delete_download_history history_id st2)
                      | (Some q, st2) \<Rightarrow>
                          (case q_enqueue now task_id ''download.add'' p dedup None None (Some task_id) q of
                             (Inl _, q1) \<Rightarrow>
                               (RaisedError, delete_download_history history_id (st2\<lparr>ds_queues := dput d q1 (ds_queues st2)\<rparr>))
                           | (Inr t, q1) \<Rightarrow>
                               let st3 = st2\<lparr>ds_queues := dput d q1 (ds_queues st2)\<rparr>
                               in if t_id t \<noteq> task_id then submit_again de now rq task_id p dedup history_id t q1 st3
                                  else (Taken t, record_download de (rq_media rq) DownloadQueued StQueued ''download.queued'' t None st3)))))"

section \<open>Handling\<close>

definition slot_free :: "dl_env \<Rightarrow> int \<Rightarrow> nat \<Rightarrow> bool" where
  "slot_free de limit k = (case de_active de k of None \<Rightarrow> False | Some n \<Rightarrow> n < limit)"

text \<open>\<open>_wait_for_slot\<close>: poll after poll until one shows a free slot; the number of polls done, if it ends.\<close>

definition wait_for_slot :: "dl_env \<Rightarrow> int \<Rightarrow> nat \<Rightarrow> nat option" where
  "wait_for_slot de limit k = map_option Suc (while_option (\<lambda>k. \<not> slot_free de limit k) Suc k)"

text \<open>Adding a download: on success the pipeline turns the placeholder into the row of the real download; an error of that
  update is swallowed. The outer \<open>None\<close> is an exception.\<close>

definition execute_download :: "dl_env \<Rightarrow> task \<Rightarrow> string \<Rightarrow> int \<Rightarrow> dl_state \<Rightarrow> (string \<times> string) option \<times> dl_state" where
  "execute_download de t d history_id st =
     (let n = length (ds_added st)
      in case de_execute de t n of
           None \<Rightarrow> (None, st)
         | Some (download_id, err) \<Rightarrow>
             if download_id = [] then (Some ([], err), st)
             else let st1 = st\<lparr>ds_added := ds_added st @ [(d, download_id)]\<rparr>
                  in (Some (download_id, err),
                      if history_id \<noteq> 0 \<and> de_update_ok de n then update_history_task history_id download_id ''downloading'' st1 else st1))"

definition add_failed :: string where
  "add_failed = u8 [0xe4, 0xb8, 0x8b, 0xe8, 0xbd, 0xbd, 0xe5, 0x99, 0xa8, 0xe6, 0xb7, 0xbb, 0xe5, 0x8a, 0xa0, 0xe4, 0xbb, 0xbb, 0xe5, 0x8a, 0xa1, 0xe5, 0xa4, 0xb1, 0xe8, 0xb4, 0xa5]"

text \<open>An earlier run of the same task that added the download but was not acknowledged.\<close>

definition already_added :: "task \<Rightarrow> dl_row option \<Rightarrow> bool" where
  "already_added t row =
     (case row of None \<Rightarrow> False
      | Some r \<Rightarrow> dh_state r \<in> {''downloading'', ''completed''} \<and> dh_download r \<noteq> [] \<and> dh_download r \<noteq> t_id t)"

definition add_download ::
  "dl_env \<Rightarrow> task \<Rightarrow> dl_media \<Rightarrow> string \<Rightarrow> int \<Rightarrow> dl_state \<Rightarrow> (string + pydict option) \<times> dl_state" where
  "add_download de t m d history_id st =
     (case execute_download de t d history_id st of
        (None, st1) \<Rightarrow> (Inl (de_text de), st1)
      | (Some (download_id, err), st1) \<Rightarrow>
          if download_id = [] then
            (let st2 = (if t_attempts t + 1 \<ge> t_max t then update_history_task history_id [] ''error'' st1 else st1);
                 msg = (if err = [] then add_failed else err)
             in (Inl msg, record_download de m Downloading StFailed ''download.failed'' t (Some msg) st2))
          else (Inr (Some [(''download_id'', PStr download_id)]), st1))"

text \<open>The handler; its outer \<open>None\<close> says that it never returns. It polls before and after taking the downloader's lock.\<close>

definition handle_download :: "dl_env \<Rightarrow> task \<Rightarrow> dl_state \<Rightarrow> ((string + pydict option) \<times> dl_state) option" where
  "handle_download de t st =
     (let p = t_payload t
      in case (de_decode de (pget p ''media_info''), pyval_int (pget p ''history_id'')) of
           (Some m, Some history_id) \<Rightarrow>
             (let d = py_str (\<lambda>_. []) (pget p ''downloader_id'')
              in case (if truthy (pget p ''max_active'') then pyval_int (pget p ''max_active'') else Some (max_active de d)) of
                   None \<Rightarrow> Some (Inl (de_text de), st)
                 | Some limit \<Rightarrow>
                     if already_added t (get_history_row history_id st) then
                       Some (Inr (Some [(''download_id'', PStr (dh_download (the (get_history_row history_id st))))]), st)
                     else
                       let st1 = record_download de m Downloading StRunning ''download.started'' t None st
                       in if \<not> de_client de d then Some (Inl (de_text de), st1)
                          else case wait_for_slot de limit (ds_polls st1) of
                                 None \<Rightarrow> None
                               | Some k1 \<Rightarrow>
                                   (case wait_for_slot de limit k1 of
                                      None \<Rightarrow> None
                                    | Some k2 \<Rightarrow> Some (add_download de t m d history_id (st1\<lparr>ds_polls := k2\<rparr>))))
         | _ \<Rightarrow> Some (Inl (de_text de), st))"

end
