(* ===== verification/DownloadQueueProofs.thy ===== *)
theory DownloadQueueProofs
  imports DownloadQueue LifecycleProofs
begin

text \<open>
  A task that is run again adds no second download, a download is added only when the last poll showed a free slot, waiting
  ends when slots become free, a placeholder of the history stays exactly with its own task; and two findings on
  submitting again what has failed.
\<close>

section \<open>The read model is not the history\<close>

lemma record_download_rows [simp]:
  "ds_rows (record_download de m s u ty t e st) = ds_rows st"
  "ds_next (record_download de m s u ty t e st) = ds_next st"
  "ds_queues (record_download de m s u ty t e st) = ds_queues st"
  "ds_added (record_download de m s u ty t e st) = ds_added st"
  "ds_polls (record_download de m s u ty t e st) = ds_polls st"
  by (simp_all add: record_download_def Let_def split: option.split)

lemma get_history_record [simp]: "get_history_row i (record_download de m s u ty t e st) = get_history_row i st"
  by (simp add: get_history_row_def)

lemma update_history_simps [simp]:
  "ds_added (update_history_task i x y st) = ds_added st" "ds_polls (update_history_task i x y st) = ds_polls st"
  by (simp_all add: update_history_task_def)

lemma get_history_update:
  "get_history_row i (update_history_task i x y st) = map_option (\<lambda>r. r\<lparr>dh_download := x, dh_state := y\<rparr>) (get_history_row i st)"
proof -
  have "List.find (\<lambda>r. dh_id r = i) (map (\<lambda>r. if dh_id r = i then r\<lparr>dh_download := x, dh_state := y\<rparr> else r) rs) =
      map_option (\<lambda>r. r\<lparr>dh_download := x, dh_state := y\<rparr>) (List.find (\<lambda>r. dh_id r = i) rs)" for rs
    by (induction rs) auto
  then show ?thesis by (simp add: get_history_row_def update_history_task_def)
qed

section \<open>Waiting\<close>

lemma wait_for_slot_Some: "wait_for_slot de limit k = Some k' \<Longrightarrow> \<exists>j. k' = Suc j \<and> slot_free de limit j"
  by (auto simp: wait_for_slot_def dest: while_option_stop)

lemma wait_for_slot_ends:
  assumes "slot_free de limit j" and "k \<le> j"
  shows "\<exists>k'. wait_for_slot de limit k = Some k'"
proof -
  have "\<exists>t. while_option (\<lambda>k. \<not> slot_free de limit k) Suc k = Some t"
  proof (rule measure_while_option_Some [of "\<lambda>k. k \<le> j" _ Suc "\<lambda>k. j - k"])
    show "k \<le> j" by (rule assms(2))
    show "Suc s \<le> j \<and> j - Suc s < j - s" if "s \<le> j" "\<not> slot_free de limit s" for s
      using that assms(1) by (cases "s = j") auto
  qed
  then show ?thesis by (auto simp: wait_for_slot_def)
qed

text \<open>The handler returns when, after every poll, one still comes that shows a free slot.\<close>

theorem handler_returns:
  assumes "\<And>limit k. pyval_int (pget (t_payload t) ''max_active'') = Some limit \<Longrightarrow> \<exists>j \<ge> k. slot_free de limit j"
    and "truthy (pget (t_payload t) ''max_active'')"
  shows "handle_download de t st \<noteq> None"
proof -
  have w: "\<exists>k'. wait_for_slot de limit k = Some k'" if "pyval_int (pget (t_payload t) ''max_active'') = Some limit" for limit k
    using assms(1) [OF that, of k] wait_for_slot_ends by blast
  show ?thesis
  proof (cases "pyval_int (pget (t_payload t) ''max_active'')")
    case (Some limit)
    obtain f where "\<And>k. wait_for_slot de limit k = Some (f k)" using w [OF Some] by metis
    then show ?thesis using assms(2) Some by (auto simp: handle_download_def Let_def split: option.split)
  qed (use assms(2) in \<open>auto simp: handle_download_def Let_def split: option.split\<close>)
qed

section \<open>Adding a download\<close>

lemma add_download_added:
  "add_download de t m d h st = (r, st') \<Longrightarrow> ds_polls st' = ds_polls st"
  by (auto simp: add_download_def execute_download_def Let_def split: option.splits if_splits)

lemma handle_adds:
  assumes "handle_download de t st = Some (r, st')" and "ds_added st' \<noteq> ds_added st"
  shows "\<exists>m h limit k1 k2. de_decode de (pget (t_payload t) ''media_info'') = Some m \<and>
    pyval_int (pget (t_payload t) ''history_id'') = Some h \<and>
    (if truthy (pget (t_payload t) ''max_active'') then pyval_int (pget (t_payload t) ''max_active'')
     else Some (max_active de (py_str (\<lambda>_. []) (pget (t_payload t) ''downloader_id'')))) = Some limit \<and>
    wait_for_slot de limit k1 = Some k2 \<and>
    add_download de t m (py_str (\<lambda>_. []) (pget (t_payload t) ''downloader_id'')) h
      ((record_download de m Downloading StRunning ''download.started'' t None st)\<lparr>ds_polls := k2\<rparr>) = (r, st')"
proof -
  let ?p = "t_payload t" and ?d = "py_str (\<lambda>_. []) (pget (t_payload t) ''downloader_id'')"
  obtain m where m: "de_decode de (pget ?p ''media_info'') = Some m"
    using assms by (cases "de_decode de (pget ?p ''media_info'')") (simp_all add: handle_download_def Let_def)
  obtain h where h: "pyval_int (pget ?p ''history_id'') = Some h"
    using assms m by (cases "pyval_int (pget ?p ''history_id'')") (simp_all add: handle_download_def Let_def)
  define l where "l = (if truthy (pget ?p ''max_active'') then pyval_int (pget ?p ''max_active'') else Some (max_active de ?d))"
  obtain limit where limit: "l = Some limit"
    using assms m h by (cases l) (simp_all add: handle_download_def Let_def flip: l_def)
  let ?st1 = "record_download de m Downloading StRunning ''download.started'' t None st"
  have new: "\<not> already_added t (get_history_row h st)" and client: "de_client de ?d"
    using assms m h limit by (auto simp: handle_download_def Let_def l_def split: if_splits)
  obtain k1 where k1: "wait_for_slot de limit (ds_polls st) = Some k1"
    using assms m h limit new client
    by (cases "wait_for_slot de limit (ds_polls st)") (simp_all add: handle_download_def Let_def flip: l_def)
  obtain k2 where k2: "wait_for_slot de limit k1 = Some k2"
    using assms m h limit new client k1 by (cases "wait_for_slot de limit k1") (simp_all add: handle_download_def Let_def flip: l_def)
  have "add_download de t m ?d h (?st1\<lparr>ds_polls := k2\<rparr>) = (r, st')"
    using assms m h limit new client k1 k2 by (simp add: handle_download_def Let_def flip: l_def)
  with m h limit k2 show ?thesis unfolding l_def by blast
qed

text \<open>A download is added only when the last poll before it showed fewer running downloads than the limit of the task.\<close>

theorem added_below_limit:
  assumes "handle_download de t st = Some (r, st')" and "ds_added st' \<noteq> ds_added st"
    and "pget (t_payload t) ''max_active'' = PInt limit" and "limit \<noteq> 0"
  shows "\<exists>k n. ds_polls st' = Suc k \<and> de_active de k = Some n \<and> n < limit"
proof -
  obtain m h k1 k2 where w: "wait_for_slot de limit k1 = Some k2"
    and a: "add_download de t m (py_str (\<lambda>_. []) (pget (t_payload t) ''downloader_id'')) h
      ((record_download de m Downloading StRunning ''download.started'' t None st)\<lparr>ds_polls := k2\<rparr>) = (r, st')"
    using handle_adds [OF assms(1,2)] assms(3,4) by auto
  have "ds_polls st' = k2" using add_download_added [OF a] by simp
  with wait_for_slot_Some [OF w] show ?thesis by (auto simp: slot_free_def split: option.splits)
qed

lemma handle_added_not_before:
  assumes "handle_download de t st = Some (r, st')" and "ds_added st' \<noteq> ds_added st"
    and "pyval_int (pget (t_payload t) ''history_id'') = Some h"
  shows "\<not> already_added t (get_history_row h st)"
proof
  assume again: "already_added t (get_history_row h st)"
  obtain m limit where "de_decode de (pget (t_payload t) ''media_info'') = Some m"
    and "(if truthy (pget (t_payload t) ''max_active'') then pyval_int (pget (t_payload t) ''max_active'')
      else Some (max_active de (py_str (\<lambda>_. []) (pget (t_payload t) ''downloader_id'')))) = Some limit"
    using handle_adds [OF assms(1,2)] by blast
  with again assms show False by (simp add: handle_download_def Let_def)
qed

lemma add_download_adds:
  assumes "add_download de t m d h st = (Inr r, st')"
  shows "\<exists>i. ds_added st' = ds_added st @ [(d, i)]"
  using assms by (auto simp: add_download_def execute_download_def Let_def update_history_task_def split: option.splits if_splits)

text \<open>A task that is not known to have added its download adds it when it succeeds.\<close>

lemma handle_success_adds:
  assumes "handle_download de t st = Some (Inr r, st')" and "pyval_int (pget (t_payload t) ''history_id'') = Some h"
    and "\<not> already_added t (get_history_row h st)"
  shows "\<exists>i. ds_added st' = ds_added st @ [(py_str (\<lambda>_. []) (pget (t_payload t) ''downloader_id''), i)]"
proof -
  let ?p = "t_payload t" and ?d = "py_str (\<lambda>_. []) (pget (t_payload t) ''downloader_id'')"
  obtain m where m: "de_decode de (pget ?p ''media_info'') = Some m"
    using assms by (cases "de_decode de (pget ?p ''media_info'')") (simp_all add: handle_download_def Let_def)
  define l where "l = (if truthy (pget ?p ''max_active'') then pyval_int (pget ?p ''max_active'') else Some (max_active de ?d))"
  obtain limit where limit: "l = Some limit"
    using assms m by (cases l) (simp_all add: handle_download_def Let_def flip: l_def)
  let ?st1 = "record_download de m Downloading StRunning ''download.started'' t None st"
  have client: "de_client de ?d"
    using assms m limit by (auto simp: handle_download_def Let_def l_def split: if_splits)
  obtain k1 where k1: "wait_for_slot de limit (ds_polls st) = Some k1"
    using assms m limit client
    by (cases "wait_for_slot de limit (ds_polls st)") (simp_all add: handle_download_def Let_def flip: l_def)
  obtain k2 where k2: "wait_for_slot de limit k1 = Some k2"
    using assms m limit client k1 by (cases "wait_for_slot de limit k1") (simp_all add: handle_download_def Let_def flip: l_def)
  have "add_download de t m ?d h (?st1\<lparr>ds_polls := k2\<rparr>) = (Inr r, st')"
    using assms m limit client k1 k2 by (simp add: handle_download_def Let_def flip: l_def)
  from add_download_adds [OF this] show ?thesis by simp
qed

text \<open>C14: A task that added its download runs again, because the acknowledgement was lost. When its row of the history was
  there and was written, it answers the same download and adds nothing; when the row was gone or writing it
  failed, which the code swallows, a second run that succeeds adds the download again. The ids of downloads are never
  that of a task.\<close>

theorem rerun_adds_nothing:
  assumes "handle_download de t st = Some (Inr r, st1)" and "ds_added st1 \<noteq> ds_added st"
    and "pget (t_payload t) ''history_id'' = PInt h" and "h \<noteq> 0" and "\<And>n. fst (the (de_execute de t n)) \<noteq> t_id t"
    and "t_payload t' = t_payload t" and "t_id t' = t_id t"
  shows "if get_history_row h st \<noteq> None \<and> de_update_ok de (length (ds_added st))
    then handle_download de t' st1 = Some (Inr r, st1)
    else \<forall>r2 st2. handle_download de t' st1 = Some (Inr r2, st2) \<longrightarrow>
      (\<exists>i. ds_added st2 = ds_added st1 @ [(py_str (\<lambda>_. []) (pget (t_payload t) ''downloader_id''), i)])"
proof -
  let ?p = "t_payload t" and ?d = "py_str (\<lambda>_. []) (pget (t_payload t) ''downloader_id'')"
  obtain m limit k2 where m: "de_decode de (pget ?p ''media_info'') = Some m"
    and l: "(if truthy (pget ?p ''max_active'') then pyval_int (pget ?p ''max_active'') else Some (max_active de ?d)) = Some limit"
    and a: "add_download de t m ?d h
      ((record_download de m Downloading StRunning ''download.started'' t None st)\<lparr>ds_polls := k2\<rparr>) = (Inr r, st1)"
    using handle_adds [OF assms(1,2)] assms(3) by auto
  let ?s = "(record_download de m Downloading StRunning ''download.started'' t None st)\<lparr>ds_polls := k2\<rparr>"
  let ?s' = "?s\<lparr>ds_added := ds_added st @ [(?d, fst (the (de_execute de t (length (ds_added st)))))]\<rparr>"
  obtain i err where e: "de_execute de t (length (ds_added st)) = Some (i, err)" and i: "i \<noteq> []"
      and r: "r = Some [(''download_id'', PStr i)]"
      and st1: "st1 = (if de_update_ok de (length (ds_added st)) then update_history_task h i ''downloading'' ?s' else ?s')"
    using a assms(4) by (auto simp: add_download_def execute_download_def Let_def split: option.splits if_splits)
  have hid: "pyval_int (pget (t_payload t') ''history_id'') = Some h" using assms(3,6) by simp
  show ?thesis
  proof (cases "get_history_row h st \<noteq> None \<and> de_update_ok de (length (ds_added st))")
    case True
    have "i \<noteq> t_id t" using assms(5) [of "length (ds_added st)"] e by simp
    moreover obtain row where "get_history_row h st = Some row" using True by blast
    moreover from this have "get_history_row h st1 = Some (row\<lparr>dh_download := i, dh_state := ''downloading''\<rparr>)"
      using True get_history_update [of h i "''downloading''"] by (simp add: st1) (simp add: get_history_row_def)
    ultimately have "already_added t' (get_history_row h st1)" "dh_download (the (get_history_row h st1)) = i"
      using i assms(7) by (simp_all add: already_added_def)
    then show ?thesis using True m l assms(3,6) r by (simp add: handle_download_def Let_def)
  next
    case False
    then have "get_history_row h st1 = get_history_row h st"
      using get_history_update [of h i "''downloading''"] by (auto simp: st1) (simp_all add: get_history_row_def)
    then have "\<not> already_added t' (get_history_row h st1)"
      using handle_added_not_before [OF assms(1,2), of h] assms(3,7) by (simp add: already_added_def split: option.splits)
    with False handle_success_adds [OF _ hid] assms(6) show ?thesis by metis
  qed
qed

section \<open>Placeholders\<close>

definition ids_below :: "dl_state \<Rightarrow> bool" where
  "ids_below st \<longleftrightarrow> (\<forall>r \<in> set (ds_rows st). dh_id r < ds_next st)"

lemma delete_new_row:
  assumes "ids_below st"
  shows "filter (\<lambda>r. dh_id r \<noteq> ds_next st) (ds_rows st @ [r\<lparr>dh_id := ds_next st\<rparr>]) = ds_rows st"
proof -
  have "filter (\<lambda>r. dh_id r \<noteq> ds_next st) (ds_rows st) = ds_rows st" using assms by (auto simp: ids_below_def filter_id_conv)
  then show ?thesis by simp
qed

lemma ensure_stack_rows: "ensure_stack de d st = (q, st') \<Longrightarrow> ds_rows st' = ds_rows st"
  by (auto simp: ensure_stack_def split: option.splits)

text \<open>C28: When a request is taken, the history has grown by a placeholder for the task if the task is the request's own, and is
  unchanged if the request was joined with an earlier task.\<close>

theorem placeholder_with_its_task:
  assumes "submit_download de now i rq st = (Taken t, st')" and "ids_below st"
  shows "ds_rows st' = ds_rows st @ (if t_id t = i then [\<lparr>dh_id = ds_next st, dh_downloader = rq_downloader rq,
    dh_download = i, dh_state = ''queued'', dh_user = rq_user rq\<rparr>] else [])"
proof -
  let ?d = "rq_downloader rq" and ?row = "\<lparr>dh_id = ds_next st, dh_downloader = rq_downloader rq,
    dh_download = i, dh_state = ''queued'', dh_user = rq_user rq\<rparr>"
  obtain b where b: "(if rq_torrent rq = [] then Some [] else de_torrent de (rq_torrent rq)) = Some b"
    using assms(1) by (auto simp: submit_download_def Let_def split: option.splits)
  let ?st1 = "st\<lparr>ds_rows := ds_rows st @ [?row], ds_next := ds_next st + 1\<rparr>"
  have ins: "insert_placeholder (rq_media rq) ?d i (rq_user rq) st = (Some (ds_next st), ?st1)"
    using assms(1) b by (auto simp: submit_download_def insert_placeholder_def Let_def split: if_splits)
  define p dedup where "p = download_payload de rq (ds_next st) i b" and "dedup = download_dedup_key de (rq_media rq) ?d (rq_user rq) b"
  obtain q st2 where q: "ensure_stack de ?d ?st1 = (Some q, st2)"
    using assms(1) b ins by (auto simp: submit_download_def Let_def split: option.splits prod.splits)
  have rows: "ds_rows st2 = ds_rows st @ [?row]" using ensure_stack_rows [OF q] by simp
  obtain t1 q1 where e: "q_enqueue now i ''download.add'' p dedup None None (Some i) q = (Inr t1, q1)"
    using assms(1) b ins q
    by (auto simp: submit_download_def Let_def p_def dedup_def split: sum.splits prod.splits)
  let ?st3 = "st2\<lparr>ds_queues := dput ?d q1 (ds_queues st2)\<rparr>"
  have del: "filter (\<lambda>r. dh_id r \<noteq> ds_next st) (ds_rows st2) = ds_rows st"
    using delete_new_row [OF assms(2), of ?row] by (simp add: rows)
  show ?thesis
  proof (cases "t_id t1 = i")
    case True
    then have "t = t1" "st' = record_download de (rq_media rq) DownloadQueued StQueued ''download.queued'' t1 None ?st3"
      using assms(1) b ins q e by (auto simp: submit_download_def Let_def simp flip: p_def dedup_def)
    with True rows show ?thesis by simp
  next
    case False
    then have s: "submit_again de now rq i p dedup (ds_next st) t1 q1 ?st3 = (Taken t, st')"
      using assms(1) b ins q e by (simp add: submit_download_def Let_def p_def [symmetric] dedup_def [symmetric])
    show ?thesis
      using s False rows del
      by (auto simp: submit_again_def Let_def delete_download_history_def split: if_splits sum.splits prod.splits)
  qed
qed

section \<open>What goes wrong\<close>

text \<open>C36: When the task of a release and its one repetition have both died, a further request for the release is taken without
  a task: the answer is the dead repetition, the queue and the history are as before.\<close>

theorem third_request_swallowed:
  assumes "rq_torrent rq = []" and "mi_title (dm_item (rq_media rq)) \<noteq> []" and "dget (ds_queues st) (rq_downloader rq) = Some q"
    and "key = download_dedup_key de (rq_media rq) (rq_downloader rq) (rq_user rq) []" and "key \<noteq> []" and "\<not> mq_closed q"
    and "find_dedup now key q = (Some t1, q)" and "find_dedup now (key @ '':retry:'' @ t_id t1) q = (Some t2, q)"
    and "t_status t1 = DEAD" and "t_status t2 = DEAD" and "i \<noteq> t_id t1" and "i \<noteq> t_id t2" and "ids_below st"
  shows "\<exists>st'. submit_download de now i rq st = (Taken t2, st') \<and> ds_rows st' = ds_rows st \<and>
    dget (ds_queues st') (rq_downloader rq) = Some q \<and> terminal (t_status t2)"
proof -
  let ?d = "rq_downloader rq" and ?row = "\<lparr>dh_id = ds_next st, dh_downloader = rq_downloader rq,
    dh_download = i, dh_state = ''queued'', dh_user = rq_user rq\<rparr>"
  let ?p = "download_payload de rq (ds_next st) i []"
  have ins: "insert_placeholder (rq_media rq) ?d i (rq_user rq) st =
      (Some (ds_next st), st\<lparr>ds_rows := ds_rows st @ [?row], ds_next := ds_next st + 1\<rparr>)"
    using assms(2) by (simp add: insert_placeholder_def)
  have e1: "q_enqueue now i ''download.add'' ?p key None None (Some i) q = (Inr t1, q)"
    using assms(5,6,7) by (simp add: q_enqueue_def)
  have e2: "q_enqueue now i ''download.add'' ?p (key @ '':retry:'' @ t_id t1) None None (Some i) q = (Inr t2, q)"
    using assms(6,8) by (simp add: q_enqueue_def)
  let ?st1 = "st\<lparr>ds_rows := ds_rows st @ [?row], ds_next := ds_next st + 1\<rparr>"
  let ?qs = "dput ?d q (dput ?d q (ds_queues st))"
  have stack: "ensure_stack de ?d ?st1 = (Some q, ?st1)" using assms(3) by (simp add: ensure_stack_def)
  have "submit_download de now i rq st = (Taken t2, delete_download_history (ds_next st) (?st1\<lparr>ds_queues := ?qs\<rparr>))"
    using assms(1,9-12) ins stack e1 e2
    by (simp add: submit_download_def submit_again_def Let_def assms(4) [symmetric])
  moreover have "filter (\<lambda>r. dh_id r \<noteq> ds_next st) (ds_rows st @ [?row]) = ds_rows st"
    using delete_new_row [OF assms(13), of ?row] by simp
  moreover have "terminal (t_status t2)" using assms(10) by (simp add: terminal_def)
  ultimately show ?thesis by (simp add: delete_download_history_def)
qed

text \<open>When the queue is full at the repetition, the request fails and its placeholder stays in the history without a task.\<close>

lemma placeholder_left:
  assumes "rq_torrent rq = []" and "mi_title (dm_item (rq_media rq)) \<noteq> []" and "dget (ds_queues st) (rq_downloader rq) = Some q"
    and "key = download_dedup_key de (rq_media rq) (rq_downloader rq) (rq_user rq) []" and "key \<noteq> []" and "\<not> mq_closed q"
    and "find_dedup now key q = (Some t1, q)" and "find_dedup now (key @ '':retry:'' @ t_id t1) q = (None, q)"
    and "t_status t1 = DEAD" and "i \<noteq> t_id t1" and "int (length (mq_ready q)) \<ge> mq_maxsize q"
  shows "\<exists>st' r. submit_download de now i rq st = (RaisedError, st') \<and> ds_rows st' = ds_rows st @ [r] \<and> dh_state r = ''queued''"
proof -
  let ?d = "rq_downloader rq" and ?row = "\<lparr>dh_id = ds_next st, dh_downloader = rq_downloader rq,
    dh_download = i, dh_state = ''queued'', dh_user = rq_user rq\<rparr>"
  let ?p = "download_payload de rq (ds_next st) i []"
  let ?st1 = "st\<lparr>ds_rows := ds_rows st @ [?row], ds_next := ds_next st + 1\<rparr>"
  have ins: "insert_placeholder (rq_media rq) ?d i (rq_user rq) st = (Some (ds_next st), ?st1)"
    using assms(2) by (simp add: insert_placeholder_def)
  have e1: "q_enqueue now i ''download.add'' ?p key None None (Some i) q = (Inr t1, q)"
    using assms(5,6,7) by (simp add: q_enqueue_def)
  have e2: "q_enqueue now i ''download.add'' ?p (key @ '':retry:'' @ t_id t1) None None (Some i) q = (Inl QueueFull, q)"
    using assms(6,8,11) by (simp add: q_enqueue_def)
  have stack: "ensure_stack de ?d ?st1 = (Some q, ?st1)" using assms(3) by (simp add: ensure_stack_def)
  show ?thesis
    using assms(1,9,10) ins stack e1 e2 by (simp add: submit_download_def submit_again_def Let_def assms(4) [symmetric])
qed

section \<open>Examples\<close>

definition demo_item :: item where
  "demo_item = \<lparr>mi_type = MOVIE, mi_title = ''m'', mi_name = ''m'', mi_year = [], mi_identity_id = Some ''i'', mi_series_key = None,
     mi_anchor_provider = None, mi_anchor_external_id = None, mi_tmdb_id = PNone, mi_douban_id = PNone, mi_begin_season = None,
     mi_end_season = None, mi_begin_episode = None, mi_end_episode = None, mi_enclosure = Some ''magnet:?xt=urn:btih:AB'',
     mi_page_url = None, mi_rest = 0\<rparr>"

definition demo_media :: dl_media where
  "demo_media = \<lparr>dm_item = demo_item, dm_org = ''m'', dm_size = ''1'', dm_se = []\<rparr>"

text \<open>The downloader shows five running downloads at the first poll and four from then on.\<close>

definition demo_de :: dl_env where
  "demo_de = \<lparr>de_conf = (\<lambda>_. Some [(''type'', PStr ''thunder'')]), de_client = (\<lambda>_. True), de_active = (\<lambda>k. Some (if k = 0 then 5 else 4)),
     de_execute = (\<lambda>_ _. Some (''dl'', [])), de_update_ok = (\<lambda>_. True), de_encode = (\<lambda>_. PNone), de_decode = (\<lambda>_. Some demo_media),
     de_args = (\<lambda>_. cancel_args), de_episodes = (\<lambda>_. []), de_torrent = (\<lambda>_. None), de_sha256 = (\<lambda>s. s),
     de_new_queue = (\<lambda>n. Some (new_mem_queue n 10 60 5 0)), de_projects = True, de_lc = plain_env, de_clock = int, de_text = ''error''\<rparr>"

definition demo_request :: dl_request where
  "demo_request = \<lparr>rq_media = demo_media, rq_downloader = ''d'', rq_options = [], rq_torrent = [], rq_user = None\<rparr>"

definition demo_downloads :: dl_state where
  "demo_downloads = \<lparr>ds_rows = [\<lparr>dh_id = 1, dh_downloader = ''d'', dh_download = ''t'', dh_state = ''queued'', dh_user = None\<rparr>],
     ds_next = 2, ds_life = no_events, ds_queues = [], ds_added = [], ds_polls = 0\<rparr>"

definition demo_add :: task where
  "demo_add = task_create 0 ''t'' ''download:d'' ''download.add'' (download_payload demo_de demo_request 1 ''t'' []) [] 0 3 None"

lemma demo_slots: "slot_free demo_de 5 k \<longleftrightarrow> k \<noteq> 0"
  by (simp add: slot_free_def demo_de_def)

lemma demo_wait: "wait_for_slot demo_de 5 k = Some (if k = 0 then 2 else Suc k)"
proof -
  obtain k' where k': "wait_for_slot demo_de 5 k = Some k'"
    using wait_for_slot_ends [of demo_de 5 "max 1 k" k] by (auto simp: demo_slots)
  then show ?thesis
    by (cases k) (simp_all add: wait_for_slot_def while_option_unfold [of _ Suc 0] while_option_unfold [of _ Suc "Suc _"] demo_slots)
qed

lemma demo_payload:
  "t_id demo_add = ''t''" "pget (t_payload demo_add) ''max_active'' = PInt 5"
  "pget (t_payload demo_add) ''history_id'' = PInt 1" "pget (t_payload demo_add) ''downloader_id'' = PStr ''d''"
  by code_simp+

lemma demo_handled:
  "\<exists>st1. handle_download demo_de demo_add demo_downloads = Some (Inr (Some [(''download_id'', PStr ''dl'')]), st1) \<and>
     ds_added st1 = [(''d'', ''dl'')]"
proof -
  have new: "\<not> already_added demo_add (get_history_row 1 demo_downloads)" by code_simp
  have polls: "ds_polls demo_downloads = 0" "ds_added demo_downloads = []" by (simp_all add: demo_downloads_def)
  have env: "de_decode demo_de v = Some demo_media" "de_client demo_de x" "de_execute demo_de y n = Some (''dl'', [])" "de_update_ok demo_de n" for v x y n
    by (simp_all add: demo_de_def)
  show ?thesis
    by (simp add: handle_download_def demo_payload new polls env demo_wait add_download_def execute_download_def Let_def)
qed

theorem handler_returns_witness: "handle_download demo_de demo_add demo_downloads \<noteq> None"
proof (rule handler_returns)
  show "truthy (pget (t_payload demo_add) ''max_active'')" by (simp add: demo_payload)
  show "\<exists>j \<ge> k. slot_free demo_de limit j" if "pyval_int (pget (t_payload demo_add) ''max_active'') = Some limit" for limit k
    using that demo_slots by (auto simp: demo_payload intro: exI [of _ "Suc k"])
qed

theorem added_below_limit_witness:
  "\<exists>st1 k n. handle_download demo_de demo_add demo_downloads = Some (Inr (Some [(''download_id'', PStr ''dl'')]), st1) \<and>
     ds_polls st1 = Suc k \<and> de_active demo_de k = Some n \<and> n < 5"
proof -
  obtain st1 where h: "handle_download demo_de demo_add demo_downloads = Some (Inr (Some [(''download_id'', PStr ''dl'')]), st1)"
    and a: "ds_added st1 = [(''d'', ''dl'')]" using demo_handled by blast
  then have "ds_added st1 \<noteq> ds_added demo_downloads" by (simp add: demo_downloads_def)
  from added_below_limit [OF h this, of 5] h show ?thesis by (auto simp: demo_payload)
qed

theorem rerun_adds_nothing_witness:
  "\<exists>st1. handle_download demo_de demo_add demo_downloads = Some (Inr (Some [(''download_id'', PStr ''dl'')]), st1) \<and>
     handle_download demo_de (demo_add\<lparr>t_attempts := 1\<rparr>) st1 = Some (Inr (Some [(''download_id'', PStr ''dl'')]), st1)"
proof -
  obtain st1 where h: "handle_download demo_de demo_add demo_downloads = Some (Inr (Some [(''download_id'', PStr ''dl'')]), st1)"
    and a: "ds_added st1 = [(''d'', ''dl'')]" using demo_handled by blast
  then have n: "ds_added st1 \<noteq> ds_added demo_downloads" by (simp add: demo_downloads_def)
  have row: "get_history_row 1 demo_downloads \<noteq> None" by code_simp
  have ok: "de_update_ok demo_de n" and id: "fst (the (de_execute demo_de t n)) = ''dl''" for t n by (simp_all add: demo_de_def)
  have "handle_download demo_de (demo_add\<lparr>t_attempts := 1\<rparr>) st1 = Some (Inr (Some [(''download_id'', PStr ''dl'')]), st1)"
    using rerun_adds_nothing [OF h n demo_payload(3), of "demo_add\<lparr>t_attempts := 1\<rparr>"] row by (simp add: ok id demo_payload)
  with h show ?thesis by blast
qed

theorem placeholder_with_its_task_witness:
  "\<exists>t st'. submit_download demo_de 0 ''n'' demo_request demo_downloads = (Taken t, st') \<and> length (ds_rows st') = 2"
proof -
  have "t_id (case fst (submit_download demo_de 0 ''n'' demo_request demo_downloads) of Taken t \<Rightarrow> t) = ''n''" by code_simp
  moreover obtain t where "fst (submit_download demo_de 0 ''n'' demo_request demo_downloads) = Taken t"
  proof -
    have "(case fst (submit_download demo_de 0 ''n'' demo_request demo_downloads) of Taken t \<Rightarrow> True | _ \<Rightarrow> False)" by code_simp
    then show ?thesis using that by (cases "fst (submit_download demo_de 0 ''n'' demo_request demo_downloads)") auto
  qed
  moreover obtain st' where "snd (submit_download demo_de 0 ''n'' demo_request demo_downloads) = st'" by blast
  ultimately have s: "submit_download demo_de 0 ''n'' demo_request demo_downloads = (Taken t, st')" and i: "t_id t = ''n''"
    by (simp_all add: prod_eq_iff)
  have "ids_below demo_downloads" by code_simp
  from placeholder_with_its_task [OF s this] i s show ?thesis by (auto simp: demo_downloads_def)
qed

definition dead_task :: "string \<Rightarrow> task" where
  "dead_task i = (task_create 0 i ''download:d'' ''download.add'' [] [] 0 3 None)\<lparr>t_status := DEAD\<rparr>"

definition dead_queue :: "string \<Rightarrow> mem_queue" where
  "dead_queue key = (new_mem_queue ''download:d'' 10 60 5 0)\<lparr>mq_tasks := [(''a'', dead_task ''a''), (''b'', dead_task ''b'')],
     mq_dedup := [(key, (''a'', None)), (key @ '':retry:a'', (''b'', None))]\<rparr>"

theorem third_request_swallowed_witness:
  "\<exists>q st'. submit_download demo_de 0 ''n'' demo_request (demo_downloads\<lparr>ds_queues := [(''d'', q)]\<rparr>) = (Taken (dead_task ''b''), st') \<and>
     dget (ds_queues st') ''d'' = Some q"
proof -
  define key where "key = download_dedup_key demo_de demo_media ''d'' None []"
  let ?q = "dead_queue key" and ?st = "demo_downloads\<lparr>ds_queues := [(''d'', dead_queue key)]\<rparr>"
  have key: "key \<noteq> []" unfolding key_def by code_simp
  have t: "t_id (dead_task x) = x" "t_status (dead_task x) = DEAD" if "x \<noteq> []" for x
    using that by (simp_all add: dead_task_def task_create_def)
  have f1: "find_dedup 0 key ?q = (Some (dead_task ''a''), ?q)"
    by (simp add: find_dedup_def dead_queue_def new_mem_queue_def)
  have f2: "find_dedup 0 (key @ '':retry:'' @ t_id (dead_task ''a'')) ?q = (Some (dead_task ''b''), ?q)"
    by (simp add: find_dedup_def dead_queue_def new_mem_queue_def t)
  have "\<not> mq_closed ?q" by (simp add: dead_queue_def new_mem_queue_def)
  moreover have "ids_below ?st" by (simp add: ids_below_def demo_downloads_def)
  ultimately have "\<exists>st'. submit_download demo_de 0 ''n'' demo_request ?st = (Taken (dead_task ''b''), st') \<and> ds_rows st' = ds_rows ?st \<and>
      dget (ds_queues st') (rq_downloader demo_request) = Some ?q \<and> terminal (t_status (dead_task ''b''))"
    by (intro third_request_swallowed [OF _ _ _ _ key _ f1 f2])
      (simp_all add: t demo_request_def demo_media_def demo_item_def key_def)
  then show ?thesis by (auto simp: demo_request_def)
qed

end
