(* ===== verification/Spec2Isabelle.thy ===== *)
theory Spec2Isabelle
  imports CacheStore CacheSpec DistLock TaskQueue TaskCodec RateLimit Governor BrushRules BrushLifecycle Rbac Identity Retention
    MediaItem DownloadBatch DownloadBatchProofs FilterEngine SubscribeMatch Paths LibraryStore LibraryRename LibraryRenameProofs LibraryPlan TransferEngine TransferProofs FileTransfer FileTransferProofs Lifecycle LifecycleProofs
    EpisodeMap EpisodeMapProofs LifecycleView LifecycleViewProofs TransferQueue TransferQueueProofs DownloadQueue DownloadQueueProofs
begin

text \<open>
  Verification development of WolfNas (nas-tools), the Python media-library manager under \<^verbatim>\<open>src/app\<close>. It watches
  sites and feeds for releases, decides which of them serve a subscription, downloads them, moves what was downloaded into
  a library and keeps that library in order. All theories are models of the Python source; file names below are relative
  to \<^verbatim>\<open>src/app\<close>.

  \<^bold>\<open>The program and its theories.\<close>

  \<^item> Shared vocabulary. \<^verbatim>\<open>Prelude\<close>: ordered dictionaries (\<^verbatim>\<open>dget\<close>, \<^verbatim>\<open>dput\<close>, \<^verbatim>\<open>dpop\<close>), the string functions of Python
    over byte strings, decimal text, and the loops whose body may raise. \<^verbatim>\<open>PyVal\<close>: floats and JSON values with the truth
    test and the coercions of Python. \<^verbatim>\<open>Paths\<close>: \<^verbatim>\<open>posixpath\<close> and \<^verbatim>\<open>utils/path_utils.py\<close>.
  \<^item> Infrastructure. \<^verbatim>\<open>CacheStore\<close>, \<^verbatim>\<open>CacheSpec\<close>: \<^verbatim>\<open>infrastructure/cache_system\<close> (entries, the LRU adapter, the abstract
    map it refines). \<^verbatim>\<open>DistLock\<close>: \<^verbatim>\<open>infrastructure/distributed_lock\<close> over the table of
    \<^verbatim>\<open>db/repositories/distributed_lock_repository.py\<close>, with the interleavings of several clients as an inductive step
    relation. \<^verbatim>\<open>TaskQueue\<close>, \<^verbatim>\<open>TaskCodec\<close>: \<^verbatim>\<open>infrastructure/task_queue\<close> (task states, queue, worker, text forms).
    \<^verbatim>\<open>RateLimit\<close>: \<^verbatim>\<open>infrastructure/rate_limiter\<close>. \<^verbatim>\<open>Governor\<close>: \<^verbatim>\<open>message/core/governor.py\<close> and its in-process store.
  \<^item> Users. \<^verbatim>\<open>Rbac\<close>: \<^verbatim>\<open>services/rbac\<close>, \<^verbatim>\<open>services/site_grant_service.py\<close> and their tables, with the cache of permission
    snapshots, which is the cache of \<^verbatim>\<open>CacheStore\<close>.
  \<^item> Media. \<^verbatim>\<open>MediaItem\<close>: the fields of \<^verbatim>\<open>media/models.py\<close> the services read and the keys of media. \<^verbatim>\<open>Identity\<close>:
    \<^verbatim>\<open>media/identity\<close>, the alias index and the graph of editions. \<^verbatim>\<open>EpisodeMap\<close>, \<^verbatim>\<open>EpisodeMapProofs\<close>:
    \<^verbatim>\<open>media/parser/episode_mapper.py\<close> and \<^verbatim>\<open>media/identity/remapper.py\<close>, the numbering of seasons and episodes.
  \<^item> From a release to a download. \<^verbatim>\<open>FilterEngine\<close>: \<^verbatim>\<open>indexer/core/filter_engine.py\<close> and \<^verbatim>\<open>services/filter_service.py\<close>.
    \<^verbatim>\<open>SubscribeMatch\<close>: \<^verbatim>\<open>services/subscribe/matcher.py\<close>, which calls that filter. \<^verbatim>\<open>DownloadBatch\<close>,
    \<^verbatim>\<open>DownloadBatchProofs\<close>: \<^verbatim>\<open>services/download_strategies.py\<close> and \<^verbatim>\<open>batch_download\<close> of \<^verbatim>\<open>services/download_core.py\<close>.
    \<^verbatim>\<open>BrushRules\<close>, \<^verbatim>\<open>BrushLifecycle\<close>: \<^verbatim>\<open>domain/engine/brush_rule_engine.py\<close> and the life of brush torrents in
    \<^verbatim>\<open>services/brush\<close>.
  \<^item> The library. \<^verbatim>\<open>Retention\<close>: \<^verbatim>\<open>services/transfer/retention_service.py\<close>. \<^verbatim>\<open>LibraryStore\<close>:
    \<^verbatim>\<open>storage/backends/base.py\<close> and \<^verbatim>\<open>local.py\<close>. \<^verbatim>\<open>TransferEngine\<close>, \<^verbatim>\<open>TransferProofs\<close>:
    \<^verbatim>\<open>services/transfer/transfer_engine.py\<close> (files, their subtitles and tracks, directories) over that storage.
    \<^verbatim>\<open>FileTransfer\<close>, \<^verbatim>\<open>FileTransferProofs\<close>: the transfer of one recognised file by
    \<^verbatim>\<open>services/transfer/filetransfer_service.py\<close>, with \<^verbatim>\<open>existence_checker.py\<close> and the history of
    \<^verbatim>\<open>db/repositories/transfer_repository.py\<close>, calling that engine. \<^verbatim>\<open>LibraryPlan\<close>: planning a renaming of the library
    (\<^verbatim>\<open>library_rename_planner.py\<close>). \<^verbatim>\<open>LibraryRename\<close>, \<^verbatim>\<open>LibraryRenameProofs\<close>: running, cancelling, rolling
    back and recovering one (\<^verbatim>\<open>library_rename_executor.py\<close>,
    \<^verbatim>\<open>library_rename_service.py\<close>, \<^verbatim>\<open>db/repositories/library_rename_repository.py\<close>).
  \<^item> The life of an item. \<^verbatim>\<open>Lifecycle\<close>, \<^verbatim>\<open>LifecycleProofs\<close>: \<^verbatim>\<open>domain/lifecycle.py\<close>,
    \<^verbatim>\<open>db/repositories/lifecycle_repository.py\<close> and the projector of \<^verbatim>\<open>services/lifecycle_service.py\<close>: an event log and
    the row that follows it. \<^verbatim>\<open>LifecycleView\<close>, \<^verbatim>\<open>LifecycleViewProofs\<close>: the listing of works over those rows
    (grouping, the live subscriptions laid over it, counts and pages) in the same repository.
  \<^item> Queued work. \<^verbatim>\<open>TransferQueue\<close>, \<^verbatim>\<open>TransferQueueProofs\<close>: \<^verbatim>\<open>services/transfer_queue_service.py\<close> and
    \<^verbatim>\<open>services/transfer_pipeline.py\<close>, the transfer of finished downloads by the worker of \<^verbatim>\<open>TaskQueue\<close>, which
    records in \<^verbatim>\<open>Lifecycle\<close>. \<^verbatim>\<open>DownloadQueue\<close>, \<^verbatim>\<open>DownloadQueueProofs\<close>:
    \<^verbatim>\<open>services/download_queue_service.py\<close>, queued downloads with their placeholders and the limit of running ones.

  \<^bold>\<open>How the code is read.\<close> A class with state is a record passed through its operations; an enum is a datatype; Python
  integers are \<open>int\<close>; floats are exact rationals (special values only where the code can meet them); a string is the list
  of the bytes of its UTF-8 form. An exception is \<open>None\<close>, an \<open>Inl\<close>, or, where the state changed before it is kept, a
  flag beside the state. Dictionaries are association lists because their order is observable. Objects that are
  shared and mutated are stores under references. A loop whose end is not evident is \<open>while_option\<close> or takes fuel, and its
  end is proved. The clock, random numbers, new identifiers and what other processes do are parameters; so is every third
  party (downloaders, sites, catalogues, regular expressions of users, the JSON and YAML libraries, the key allocation of a
  SQL engine), with what the code relies on as named hypotheses. A storage whose calls may fail takes
  \<open>faults :: nat \<Rightarrow> bool\<close>, which says whether its n-th call raises, so a statement for all \<open>faults\<close> covers every
  pattern of failures. Log lines are omitted.

  \<^bold>\<open>Interfaces.\<close> The client of an interface is proved once in a locale and the locale interpreted on the model of the code:
  \<^verbatim>\<open>cache_store\<close> (read-through of a cache; \<^verbatim>\<open>mem\<close> of \<^verbatim>\<open>CacheStore\<close>), \<^verbatim>\<open>lease_lock\<close> (exclusive leases; \<^verbatim>\<open>db\<close> of
  \<^verbatim>\<open>DistLock\<close>), \<^verbatim>\<open>task_queue\<close> (a worker over a queue; \<^verbatim>\<open>mq\<close> of \<^verbatim>\<open>TaskQueue\<close>), \<^verbatim>\<open>governor\<close> (a governor over a store of
  counters and buffers; \<^verbatim>\<open>mem\<close> of \<^verbatim>\<open>Governor\<close>), \<^verbatim>\<open>library_storage\<close> (file operations that keep the multiset of
  contents; \<^verbatim>\<open>local_disk\<close> of \<^verbatim>\<open>LibraryStore\<close>), \<^verbatim>\<open>transfer_storage\<close> (what the transfer engine asks of a
  storage; \<^verbatim>\<open>local_transfer\<close> of \<^verbatim>\<open>TransferProofs\<close>). The stages of an item are ordered by an instance of \<open>linorder\<close>.

  \<^bold>\<open>What the lemmas show.\<close> Locks: mutual exclusion under every interleaving, release on every path. Queue: the order of
  claims by priority and age, deduplication, every task reaches an end. Caches and limits: capacity, refinement of an abstract
  least-recently-used map, the rate of tokens in any interval. Governor: what is held back is buffered and delivered.
  Access: a cached decision is the decision of the tables. Identity: the index keeps its invariant and the search of a
  franchise ends within its bounds. Filters and matching: first match wins, both engines agree where they should, what a
  match guarantees about a release and its siblings. Downloading: no candidate is used twice and no missing episode
  struck off without a download. Library: a sweep deletes only what was decided, and renaming loses no file under any
  pattern of failures; an automatic transfer overwrites nothing, finds what is there and transfers a file once. Life of an
  item: its row is well typed and goes back only for a new round; the pages of a listing are the listing. Numbering: a
  season of a release group lands on the episode of its part of the broadcast. Queued work: a torrent is deleted only after
  a transfer succeeded, a payload taken is not lost, a download handled again adds nothing when its history row was written, a
  placeholder stands with its task. Where the code does not do what it means to, a theorem states what it does instead.

  \<^bold>\<open>Fuel and bounds.\<close> The breadth-first search of editions ends by a measure on the works not yet seen; the eviction loop
  and the climb of \<^verbatim>\<open>is_path_in_path\<close> by \<open>while_option\<close> and \<open>function\<close> with a measure; the worker
  takes the number of turns and \<^verbatim>\<open>worker_drains\<close> gives a number that is enough. A queued download waits for a
  slot by \<open>while_option\<close>, and \<^verbatim>\<open>handler_returns\<close> shows that the wait ends when some
  later poll shows a free slot.

  \<^bold>\<open>Not modelled.\<close> The HTTP routers and their schemas, the SQL models and migrations, the user interface, the plugins and
  agents, the clients of downloaders, media servers, messaging channels, sites and metadata providers (their substance is
  the protocol of a third party), the Redis and SQL variants of cache, queue and limiter (scripts that run on a
  server), scheduling and wiring, and the parsing of titles, whose substance is large tables of regular expressions.
\<close>

end
